(* ===== verification/Prelude.thy ===== *)
theory Prelude
  imports Complex_Main "HOL-Library.AList" "HOL-Library.Multiset"
begin

text \<open>Shared vocabulary of the development: Python exceptions as values of one error type, a result
  type with its bind, the ASCII string operations the sources use (strip, lower, upper, prefix
  tests, decimal parsing and printing), rounding, ordered dictionaries as association lists, and
  the locales for systems that run a list of operations on a state.

  Strings are lists of bytes; the text operations are those of Python on ASCII text, and a
  non-ASCII literal of the source is written as its UTF-8 bytes.  Floating-point numbers are exact
  reals: the rounding of binary floating point is outside the model, the explicit
  \<open>round\<close> calls of the sources are inside it.  The values inf and nan are represented
  (type \<open>xfloat\<close>) where a source function can meet them.\<close>

named_theorems model_defs \<open>definitions to unfold when a model is evaluated\<close>
named_theorems inv_steps \<open>every operation keeps the invariant of its component\<close>

section \<open>Exceptions and results\<close>

datatype pyexc =
    ValidationError string
  | ValueError string
  | TypeError string
  | AttributeError string
  | NameError string
  | KeyError string
  | OverflowError string
  | ZeroDivisionError
  | RuntimeError string
  | AuthError string
  | MovementError string
  | POError string
  | DomainError string string  \<comment> \<open>class name and message of a service's own error\<close>
  | DbRaise string        \<comment> \<open>a plpgsql \<open>RAISE EXCEPTION\<close>\<close>
  | DbUnique string       \<comment> \<open>SQLSTATE 23505\<close>
  | DbForeignKey string   \<comment> \<open>SQLSTATE 23503\<close>
  | DbCheck string        \<comment> \<open>SQLSTATE 23514\<close>
  | DbOperational string  \<comment> \<open>psycopg2.OperationalError\<close>
  | OtherExc string

type_synonym 'a result = "pyexc + 'a"

abbreviation Ok :: "'a \<Rightarrow> 'a result" where "Ok \<equiv> Inr"
abbreviation Err :: "pyexc \<Rightarrow> 'a result" where "Err \<equiv> Inl"

fun bindE :: "'a result \<Rightarrow> ('a \<Rightarrow> 'b result) \<Rightarrow> 'b result" where
  "bindE (Inl e) f = Inl e"
| "bindE (Inr x) f = f x"

lemma bindE_Ok_iff: "bindE m f = Inr y \<longleftrightarrow> (\<exists>x. m = Inr x \<and> f x = Inr y)"
  by (cases m) auto

lemma bindE_Err_iff: "bindE m f = Inl e \<longleftrightarrow> m = Inl e \<or> (\<exists>x. m = Inr x \<and> f x = Inl e)"
  by (cases m) auto

lemma bindE_assoc: "bindE (bindE m f) g = bindE m (\<lambda>x. bindE (f x) g)"
  by (cases m) auto

definition ensure :: "bool \<Rightarrow> pyexc \<Rightarrow> unit result" where
  "ensure b e = (if b then Inr () else Inl e)"

lemma ensure_simps [simp]:
  "ensure True e = Inr ()" "ensure False e = Inl e"
  "ensure b e = Inr u \<longleftrightarrow> b" "ensure b e = Inl e' \<longleftrightarrow> \<not> b \<and> e' = e"
  by (auto simp: ensure_def)

text \<open>All errors a computation can end with satisfy a predicate.\<close>

definition errs :: "(pyexc \<Rightarrow> bool) \<Rightarrow> 'a result \<Rightarrow> bool" where
  "errs P r = (case r of Inl e \<Rightarrow> P e | Inr x \<Rightarrow> True)"

lemma errs_simps [simp]: "errs P (Inr x)" "errs P (Inl e) = P e" "errs P (ensure b e) = (b \<or> P e)"
  by (auto simp: errs_def ensure_def)

lemma errs_bindE: "errs P m \<Longrightarrow> (\<And>x. m = Inr x \<Longrightarrow> errs P (f x)) \<Longrightarrow> errs P (bindE m f)"
  by (cases m) auto

section \<open>Text\<close>

abbreviation code_of :: "char \<Rightarrow> nat" where "code_of c \<equiv> of_char c"

definition is_space :: "char \<Rightarrow> bool" where
  "is_space c = (let n = code_of c in (9 \<le> n \<and> n \<le> 13) \<or> (28 \<le> n \<and> n \<le> 32))"

definition is_digit :: "char \<Rightarrow> bool" where
  "is_digit c = (48 \<le> code_of c \<and> code_of c \<le> 57)"

definition is_upper :: "char \<Rightarrow> bool" where
  "is_upper c = (65 \<le> code_of c \<and> code_of c \<le> 90)"

definition is_lower :: "char \<Rightarrow> bool" where
  "is_lower c = (97 \<le> code_of c \<and> code_of c \<le> 122)"

definition is_letter :: "char \<Rightarrow> bool" where
  "is_letter c = (is_upper c \<or> is_lower c)"

definition to_lower :: "char \<Rightarrow> char" where
  "to_lower c = (if is_upper c then char_of (code_of c + 32) else c)"

definition to_upper :: "char \<Rightarrow> char" where
  "to_upper c = (if is_lower c then char_of (code_of c - 32) else c)"

definition lower :: "string \<Rightarrow> string" where "lower s = map to_lower s"
definition upper :: "string \<Rightarrow> string" where "upper s = map to_upper s"

definition lstrip :: "string \<Rightarrow> string" where "lstrip s = dropWhile is_space s"
definition rstrip :: "string \<Rightarrow> string" where "rstrip s = rev (dropWhile is_space (rev s))"
definition strip :: "string \<Rightarrow> string" where "strip s = rstrip (lstrip s)"

fun startswith :: "string \<Rightarrow> string \<Rightarrow> bool" where
  "startswith s [] = True"
| "startswith [] (p # ps) = False"
| "startswith (c # s) (p # ps) = (c = p \<and> startswith s ps)"

lemma startswith_append: "startswith s p \<longleftrightarrow> (\<exists>t. s = p @ t)"
  by (induction s p rule: startswith.induct) auto

lemma startswith_self_append [simp]: "startswith (p @ t) p"
  by (auto simp: startswith_append)

fun joins :: "string \<Rightarrow> string list \<Rightarrow> string" where
  "joins sep [] = []"
| "joins sep [x] = x"
| "joins sep (x # y # xs) = x @ sep @ joins sep (y # xs)"

lemma to_lower_idem [simp]: "to_lower (to_lower c) = to_lower c"
  by (auto simp: to_lower_def is_upper_def)

lemma lower_idem [simp]: "lower (lower s) = lower s"
  by (simp add: lower_def)

lemma to_upper_idem [simp]: "to_upper (to_upper c) = to_upper c"
  by (auto simp: to_upper_def is_lower_def)

lemma upper_idem [simp]: "upper (upper s) = upper s"
  by (simp add: upper_def)

lemma length_lower [simp]: "length (lower s) = length s"
  by (simp add: lower_def)

lemma length_upper [simp]: "length (upper s) = length s"
  by (simp add: upper_def)

lemma lstrip_rev: "lstrip (rev s) = rev (rstrip s)"
  by (simp add: lstrip_def rstrip_def)

lemma rstrip_hd: "\<not> is_space (hd s) \<Longrightarrow> rstrip s \<noteq> [] \<Longrightarrow> hd (rstrip s) = hd s"
proof -
  assume ne: "rstrip s \<noteq> []"
  have "s = rstrip s @ rev (takeWhile is_space (rev s))"
    unfolding rstrip_def by (metis rev_append rev_rev_ident takeWhile_dropWhile_id)
  then show "hd (rstrip s) = hd s"
    using ne by (metis hd_append2)
qed

lemma rstrip_last: "rstrip s \<noteq> [] \<Longrightarrow> \<not> is_space (last (rstrip s))"
  unfolding rstrip_def by (metis hd_dropWhile hd_rev last_rev rev_is_Nil_conv rev_rev_ident)

lemma lstrip_hd: "lstrip s \<noteq> [] \<Longrightarrow> \<not> is_space (hd (lstrip s))"
  unfolding lstrip_def using hd_dropWhile by blast

lemma lstrip_fix: "s = [] \<or> \<not> is_space (hd s) \<Longrightarrow> lstrip s = s"
  by (cases s) (auto simp: lstrip_def)

lemma rstrip_fix: "s = [] \<or> \<not> is_space (last s) \<Longrightarrow> rstrip s = s"
  using lstrip_fix[of "rev s"] by (auto simp: lstrip_rev hd_rev)

lemma strip_hd: "strip s \<noteq> [] \<Longrightarrow> \<not> is_space (hd (strip s))"
proof -
  assume ne: "strip s \<noteq> []"
  then have "lstrip s \<noteq> []" by (auto simp: strip_def rstrip_def)
  with ne show ?thesis
    by (metis lstrip_hd rstrip_hd strip_def)
qed

lemma strip_last: "strip s \<noteq> [] \<Longrightarrow> \<not> is_space (last (strip s))"
  by (simp add: strip_def rstrip_last)

lemma strip_idem [simp]: "strip (strip s) = strip s"
  by (metis lstrip_fix rstrip_fix strip_def strip_hd strip_last)

lemma strip_fix: "s \<noteq> [] \<Longrightarrow> \<not> is_space (hd s) \<Longrightarrow> \<not> is_space (last s) \<Longrightarrow> strip s = s"
  by (simp add: strip_def lstrip_fix rstrip_fix)

section \<open>Decimal numerals\<close>

definition digit_val :: "char \<Rightarrow> nat" where "digit_val c = code_of c - 48"
definition digit_char :: "nat \<Rightarrow> char" where "digit_char d = char_of (48 + d)"

lemma digit_char_eval [simp]:
  "digit_char 0 = CHR ''0''" "digit_char (Suc 0) = CHR ''1''" "digit_char 1 = CHR ''1''" "digit_char 2 = CHR ''2''"
  "digit_char 3 = CHR ''3''" "digit_char 4 = CHR ''4''" "digit_char 5 = CHR ''5''" "digit_char 6 = CHR ''6''"
  "digit_char 7 = CHR ''7''" "digit_char 8 = CHR ''8''" "digit_char 9 = CHR ''9''"
  unfolding digit_char_def by code_simp+

fun nat_str :: "nat \<Rightarrow> string" where
  "nat_str n = (if n < 10 then [digit_char n] else nat_str (n div 10) @ [digit_char (n mod 10)])"

declare nat_str.simps [simp del]

definition int_str :: "int \<Rightarrow> string" where
  "int_str i = (if i < 0 then CHR ''-'' # nat_str (nat (- i)) else nat_str (nat i))"

text \<open>Digits with single underscores between them, as \<open>int()\<close> and \<open>float()\<close> accept them; the
  second component counts the digits.\<close>

fun digits_from :: "nat \<Rightarrow> nat \<Rightarrow> string \<Rightarrow> (nat \<times> nat) option" where
  "digits_from n k [] = Some (n, k)"
| "digits_from n k (c # cs) =
     (if is_digit c then digits_from (10 * n + digit_val c) (Suc k) cs
      else if c = CHR ''_'' then
        (case cs of d # ds \<Rightarrow> if is_digit d then digits_from (10 * n + digit_val d) (Suc k) ds else None
         | [] \<Rightarrow> None)
      else None)"

definition digits :: "string \<Rightarrow> (nat \<times> nat) option" where
  "digits s = (case s of [] \<Rightarrow> None | c # cs \<Rightarrow> if is_digit c then digits_from 0 0 s else None)"

definition split_sign :: "string \<Rightarrow> bool \<times> string" where
  "split_sign s = (case s of [] \<Rightarrow> (False, [])
     | c # cs \<Rightarrow> if c = CHR ''-'' then (True, cs) else if c = CHR ''+'' then (False, cs) else (False, s))"

definition parse_int :: "string \<Rightarrow> int option" where
  "parse_int s = (case split_sign (strip s) of (neg, ds) \<Rightarrow>
     map_option (\<lambda>(n, k). if neg then - int n else int n) (digits ds))"

lemma code_digit_char [simp]: "d < 10 \<Longrightarrow> code_of (digit_char d) = 48 + d"
  by (simp add: digit_char_def)

lemma digit_char_props [simp]:
  assumes "d < 10"
  shows "is_digit (digit_char d)" "digit_val (digit_char d) = d" "digit_char d \<noteq> CHR ''_''"
    "digit_char d \<noteq> CHR ''-''" "digit_char d \<noteq> CHR ''+''" "\<not> is_space (digit_char d)"
proof -
  have c: "code_of (digit_char d) = 48 + d" using assms by simp
  show "is_digit (digit_char d)" using c assms by (simp add: is_digit_def)
  show "digit_val (digit_char d) = d" using c by (simp add: digit_val_def)
  show "\<not> is_space (digit_char d)" using c by (simp add: is_space_def Let_def)
  have "code_of CHR ''_'' = 95" "code_of CHR ''-'' = 45" "code_of CHR ''+'' = 43" by simp_all
  then show "digit_char d \<noteq> CHR ''_''" "digit_char d \<noteq> CHR ''-''" "digit_char d \<noteq> CHR ''+''"
    using c assms by force+
qed

lemma digits_from_snoc:
  "\<forall>c\<in>set s. is_digit c \<Longrightarrow> d < 10 \<Longrightarrow>
   digits_from n k (s @ [digit_char d]) =
     map_option (\<lambda>(m, j). (10 * m + d, Suc j)) (digits_from n k s)"
  by (induction s arbitrary: n k) auto

lemma nat_str_digits: "c \<in> set (nat_str n) \<Longrightarrow> is_digit c"
  by (induction n rule: nat_str.induct) (subst (asm) nat_str.simps, auto split: if_splits)

lemma nat_str_nonempty [simp]: "nat_str n \<noteq> []"
  by (subst nat_str.simps) simp

lemma digits_from_nat_str: "\<exists>k. digits_from 0 0 (nat_str n) = Some (n, k)"
proof (induction n rule: nat_str.induct)
  case (1 n)
  show ?case
  proof (cases "n < 10")
    case True then show ?thesis by (subst nat_str.simps) simp
  next
    case False
    with 1 obtain k where k: "digits_from 0 0 (nat_str (n div 10)) = Some (n div 10, k)" by auto
    have ds: "\<forall>c\<in>set (nat_str (n div 10)). is_digit c" using nat_str_digits by blast
    show ?thesis using False k digits_from_snoc[OF ds, of "n mod 10" 0 0]
      by (subst nat_str.simps) simp
  qed
qed

lemma digits_nat_str: "\<exists>k. digits (nat_str n) = Some (n, k)"
proof -
  obtain c cs where "nat_str n = c # cs" by (cases "nat_str n") auto
  moreover then have "is_digit c" using nat_str_digits[of c n] by simp
  ultimately show ?thesis using digits_from_nat_str[of n] by (simp add: digits_def)
qed

lemma nat_str_hd_last: "is_digit (hd (nat_str n))" "is_digit (last (nat_str n))"
  using nat_str_digits[of "hd (nat_str n)" n] nat_str_digits[of "last (nat_str n)" n] by simp_all

lemma is_digit_not: "is_digit c \<Longrightarrow> \<not> is_space c \<and> c \<noteq> CHR ''-'' \<and> c \<noteq> CHR ''+''"
  by (auto simp: is_digit_def is_space_def Let_def)

lemma strip_nat_str: "strip (nat_str n) = nat_str n"
  using nat_str_hd_last[of n] is_digit_not by (intro strip_fix) auto

lemma parse_int_nat_str: "parse_int (nat_str n) = Some (int n)"
proof -
  obtain c cs where n: "nat_str n = c # cs" by (cases "nat_str n") auto
  then have "is_digit c" using nat_str_digits[of c n] by simp
  then have "split_sign (nat_str n) = (False, nat_str n)"
    using n is_digit_not[of c] by (simp add: split_sign_def)
  then show ?thesis using digits_nat_str[of n] by (auto simp: parse_int_def strip_nat_str)
qed

lemma parse_int_int_str: "parse_int (int_str i) = Some i"
proof (cases "i < 0")
  case True
  have "strip (CHR ''-'' # nat_str (nat (- i))) = CHR ''-'' # nat_str (nat (- i))"
    using nat_str_hd_last[of "nat (- i)"] is_digit_not
    by (intro strip_fix) (auto simp: is_space_def)
  then show ?thesis using True digits_nat_str[of "nat (- i)"]
    by (auto simp: parse_int_def int_str_def split_sign_def)
qed (simp add: int_str_def parse_int_nat_str)

lemma int_str_inj: "int_str i = int_str j \<longleftrightarrow> i = j"
  by (metis option.inject parse_int_int_str)

section \<open>Floating-point values and rounding\<close>

datatype xfloat = NaN | PInf | NInf | Fin real

text \<open>\<open>x < y\<close> and \<open>x = y\<close> of Python floats; every comparison with nan is False.\<close>

fun xlt :: "xfloat \<Rightarrow> xfloat \<Rightarrow> bool" where
  "xlt (Fin a) (Fin b) = (a < b)"
| "xlt (Fin a) PInf = True"
| "xlt NInf (Fin b) = True"
| "xlt NInf PInf = True"
| "xlt _ _ = False"

definition round_even :: "real \<Rightarrow> int" where
  "round_even x = (let f = \<lfloor>x\<rfloor>; d = x - of_int f in
     if d < 1 / 2 then f else if 1 / 2 < d then f + 1 else if even f then f else f + 1)"

definition round_to :: "nat \<Rightarrow> real \<Rightarrow> real" where
  "round_to k x = of_int (round_even (x * 10 ^ k)) / 10 ^ k"

lemma round_even_close: "\<bar>of_int (round_even x) - x\<bar> \<le> 1 / 2"
proof -
  define f where "f = \<lfloor>x\<rfloor>"
  have b: "of_int f \<le> x" "x < of_int f + 1" unfolding f_def by linarith+
  have "round_even x = f \<and> x - of_int f \<le> 1 / 2 \<or> round_even x = f + 1 \<and> 1 / 2 \<le> x - of_int f"
    unfolding round_even_def Let_def f_def[symmetric] by auto
  then show ?thesis
  proof
    assume "round_even x = f \<and> x - of_int f \<le> 1 / 2"
    then have r: "round_even x = f" and d: "x - of_int f \<le> 1 / 2" by simp_all
    show ?thesis unfolding r abs_le_iff using b d by linarith
  next
    assume "round_even x = f + 1 \<and> 1 / 2 \<le> x - of_int f"
    then have r: "real_of_int (round_even x) = of_int f + 1" and d: "1 / 2 \<le> x - of_int f" by simp_all
    show ?thesis unfolding r abs_le_iff using b d by linarith
  qed
qed

lemma round_even_of_int [simp]: "round_even (of_int i) = i"
  by (simp add: round_even_def)

lemma round_even_nonneg: "0 \<le> x \<Longrightarrow> 0 \<le> round_even x"
  by (auto simp: round_even_def Let_def)

lemma round_to_nonneg: "0 \<le> x \<Longrightarrow> 0 \<le> round_to k x"
  by (simp add: round_to_def round_even_nonneg)

lemma round_to_close: "\<bar>round_to k x - x\<bar> \<le> 1 / (2 * 10 ^ k)"
proof -
  have p: "(0::real) < 10 ^ k" by simp
  have e: "round_to k x - x = (of_int (round_even (x * 10 ^ k)) - x * 10 ^ k) / 10 ^ k"
    unfolding round_to_def diff_divide_distrib by simp
  have "\<bar>round_to k x - x\<bar> = \<bar>of_int (round_even (x * 10 ^ k)) - x * 10 ^ k\<bar> / 10 ^ k"
    unfolding e abs_divide using p by simp
  also have "\<dots> \<le> (1 / 2) / 10 ^ k"
    by (rule divide_right_mono[OF round_even_close]) simp
  finally show ?thesis by simp
qed

definition zfill :: "nat \<Rightarrow> string \<Rightarrow> string" where
  "zfill w s = replicate (w - length s) CHR ''0'' @ s"

text \<open>The format \<open>f\"{x:.kf}\"\<close> (rounds the exact value half to even).\<close>

definition fmt_fixed :: "nat \<Rightarrow> real \<Rightarrow> string" where
  "fmt_fixed k x =
     (let m = nat (round_even (\<bar>x\<bar> * 10 ^ k)); body = nat_str (m div 10 ^ k)
          @ (if k = 0 then [] else CHR ''.'' # zfill k (nat_str (m mod 10 ^ k)))
      in if x < 0 then CHR ''-'' # body else body)"

text \<open>Python's \<open>int(x)\<close> of a float truncates towards zero.\<close>

definition trunc_int :: "real \<Rightarrow> int" where
  "trunc_int x = (if x < 0 then \<lceil>x\<rceil> else \<lfloor>x\<rfloor>)"

fun split_at_first :: "(char \<Rightarrow> bool) \<Rightarrow> string \<Rightarrow> string \<times> string option" where
  "split_at_first P [] = ([], None)"
| "split_at_first P (c # cs) = (if P c then ([], Some cs)
     else (case split_at_first P cs of (a, b) \<Rightarrow> (c # a, b)))"

definition parse_mantissa :: "string \<Rightarrow> real option" where
  "parse_mantissa s = (case split_at_first (\<lambda>c. c = CHR ''.'') s of
      (a, None) \<Rightarrow> map_option (\<lambda>(n, k). real n) (digits a)
    | (a, Some b) \<Rightarrow>
        if a = [] \<and> b = [] then None
        else (case (if a = [] then Some (0, 0) else digits a, if b = [] then Some (0, 0) else digits b) of
            (Some (n, _), Some (m, k)) \<Rightarrow> Some (real n + real m / 10 ^ k)
          | _ \<Rightarrow> None))"

definition parse_exponent :: "string \<Rightarrow> int option" where
  "parse_exponent s = (case split_sign s of (neg, ds) \<Rightarrow>
     map_option (\<lambda>(n, k). if neg then - int n else int n) (digits ds))"

definition scale10 :: "real \<Rightarrow> int \<Rightarrow> real" where
  "scale10 x e = (if e < 0 then x / 10 ^ nat (- e) else x * 10 ^ nat e)"

definition parse_float :: "string \<Rightarrow> xfloat option" where
  "parse_float s = (case split_sign (strip s) of (neg, t) \<Rightarrow>
     let w = lower t in
     if w = ''inf'' \<or> w = ''infinity'' then Some (if neg then NInf else PInf)
     else if w = ''nan'' then Some NaN
     else (case split_at_first (\<lambda>c. c = CHR ''e'') w of
         (m, None) \<Rightarrow> map_option (\<lambda>x. Fin (if neg then - x else x)) (parse_mantissa m)
       | (m, Some e) \<Rightarrow> (case (parse_mantissa m, parse_exponent e) of
            (Some x, Some k) \<Rightarrow> Some (Fin (let y = scale10 x k in if neg then - y else y))
          | _ \<Rightarrow> None)))"

section \<open>Dictionaries and tables\<close>

text \<open>A dict (insertion ordered) is an association list with distinct keys: \<open>AList.update\<close>
  assigns in place or appends, \<open>AList.delete\<close> removes.  A database table is a list of rows; the
  two operations below are \<open>UPDATE ... WHERE\<close> and the lookup of a row by its key.\<close>

definition update_where :: "('r \<Rightarrow> bool) \<Rightarrow> ('r \<Rightarrow> 'r) \<Rightarrow> 'r list \<Rightarrow> 'r list" where
  "update_where P f rows = map (\<lambda>r. if P r then f r else r) rows"

definition find_row :: "('r \<Rightarrow> bool) \<Rightarrow> 'r list \<Rightarrow> 'r option" where
  "find_row P rows = List.find P rows"

lemma find_row_Some: "find_row P rows = Some r \<Longrightarrow> r \<in> set rows \<and> P r"
  unfolding find_row_def by (induction rows) (auto split: if_splits)

lemma find_row_None: "find_row P rows = None \<longleftrightarrow> (\<forall>r\<in>set rows. \<not> P r)"
  unfolding find_row_def by (induction rows) auto

lemma find_row_append:
  "find_row P (xs @ ys) = (case find_row P xs of Some r \<Rightarrow> Some r | None \<Rightarrow> find_row P ys)"
  unfolding find_row_def by (induction xs) auto

lemma find_row_simps [simp]:
  "find_row P [] = None" "find_row P (x # xs) = (if P x then Some x else find_row P xs)"
  by (simp_all add: find_row_def)

lemma find_row_unique:
  "distinct (map key rows) \<Longrightarrow> r \<in> set rows \<Longrightarrow> find_row (\<lambda>r'. key r' = key r) rows = Some r"
  unfolding find_row_def by (induction rows) (auto simp: rev_image_eqI)

lemma find_row_update_same:
  "(\<And>r. key (f r) = key r) \<Longrightarrow>
   find_row (\<lambda>r. key r = k) (update_where (\<lambda>r. key r = k) f rows)
     = map_option f (find_row (\<lambda>r. key r = k) rows)"
  unfolding find_row_def update_where_def by (induction rows) auto

lemma find_row_update_other:
  "(\<And>r. key (f r) = key r) \<Longrightarrow> k' \<noteq> k \<Longrightarrow>
   find_row (\<lambda>r. key r = k') (update_where (\<lambda>r. key r = k) f rows)
     = find_row (\<lambda>r. key r = k') rows"
  unfolding find_row_def update_where_def by (induction rows) auto

lemma update_where_keys [simp]:
  "(\<And>r. key (f r) = key r) \<Longrightarrow> map key (update_where P f rows) = map key rows"
  by (simp add: update_where_def)

lemma update_where_length [simp]: "length (update_where P f rows) = length rows"
  by (simp add: update_where_def)

lemma sum_list_update_one:
  fixes g :: "'r \<Rightarrow> int"
  assumes "distinct (map key rows)" and "r \<in> set rows"
  shows "sum_list (map g (update_where (\<lambda>r'. key r' = key r) f rows))
    = sum_list (map g rows) + (g (f r) - g r)"
  using assms
proof (induction rows)
  case Nil then show ?case by simp
next
  case (Cons a rows)
  have other: "update_where (\<lambda>r'. key r' = k) f rows = rows" if "k \<notin> key ` set rows" for k
    using that unfolding update_where_def by (induction rows) auto
  show ?case
  proof (cases "r = a")
    case True
    with Cons.prems have "key a \<notin> key ` set rows" by auto
    then show ?thesis using True other[of "key a"] by (simp add: update_where_def)
  next
    case False
    with Cons.prems have r: "r \<in> set rows" "distinct (map key rows)" "key a \<noteq> key r" by auto
    with Cons.IH show ?thesis by (simp add: update_where_def)
  qed
qed

section \<open>Systems that run operations\<close>

text \<open>A component is a state with operations; the client issues a list of them.  The contract of an
  invariant is that every single operation keeps it.\<close>

definition run :: "('op \<Rightarrow> 's \<Rightarrow> 's) \<Rightarrow> 'op list \<Rightarrow> 's \<Rightarrow> 's" where
  "run step ops s = fold step ops s"

lemma run_simps [simp]:
  "run step [] s = s" "run step (x # xs) s = run step xs (step x s)"
  "run step (xs @ ys) s = run step ys (run step xs s)"
  by (simp_all add: run_def)

locale op_system =
  fixes step :: "'op \<Rightarrow> 's \<Rightarrow> 's" and inv :: "'s \<Rightarrow> bool"
  assumes inv_step: "inv s \<Longrightarrow> inv (step x s)"
begin

lemma inv_run: "inv s \<Longrightarrow> inv (run step xs s)"
  by (induction xs arbitrary: s) (auto intro: inv_step)

lemma inv_prefix: "inv s \<Longrightarrow> inv (run step (take n xs) s)"
  by (rule inv_run)

end

text \<open>A system with a quantity that every operation changes by an amount that can be read off the
  operation's effect: after a run the quantity is the start value plus the sum of the effects.\<close>

locale accounted_system = op_system step inv
  for step :: "'op \<Rightarrow> 's \<Rightarrow> 's" and inv :: "'s \<Rightarrow> bool" +
  fixes level :: "'k \<Rightarrow> 's \<Rightarrow> int" and effect :: "'k \<Rightarrow> 'op \<Rightarrow> 's \<Rightarrow> int"
  assumes level_step: "inv s \<Longrightarrow> level k (step x s) = level k s + effect k x s"
begin

fun effects :: "'k \<Rightarrow> 'op list \<Rightarrow> 's \<Rightarrow> int" where
  "effects k [] s = 0"
| "effects k (x # xs) s = effect k x s + effects k xs (step x s)"

lemma level_run: "inv s \<Longrightarrow> level k (run step xs s) = level k s + effects k xs s"
  by (induction xs arbitrary: s) (auto simp: level_step inv_step)

end

text \<open>A life cycle: a relation of allowed status changes that climbs a rank, so that no status is
  ever left and entered again, and the statuses of maximal rank are terminal.\<close>

locale lifecycle =
  fixes allowed :: "'st \<Rightarrow> 'st \<Rightarrow> bool" and rank :: "'st \<Rightarrow> nat" and top :: nat
  assumes climbs: "allowed a b \<Longrightarrow> rank a < rank b"
    and bounded: "rank a \<le> top"
begin

inductive path :: "'st \<Rightarrow> 'st list \<Rightarrow> 'st \<Rightarrow> bool" where
  path_nil: "path a [] a"
| path_cons: "allowed a b \<Longrightarrow> path b bs c \<Longrightarrow> path a (b # bs) c"

lemma path_rank: "path a bs c \<Longrightarrow> rank a + length bs \<le> rank c"
proof (induction rule: path.induct)
  case (path_cons a b bs c) then show ?case using climbs[of a b] by simp
qed simp

lemma path_bound: "path a bs c \<Longrightarrow> length bs \<le> top - rank a"
  using path_rank[of a bs c] bounded[of c] by simp

lemma path_acyclic: "path a bs a \<Longrightarrow> bs = []"
  using path_rank[of a bs a] by simp

lemma terminal_stays: "rank a = top \<Longrightarrow> \<not> allowed a b"
  using climbs[of a b] bounded[of b] by auto

end

section \<open>Dynamic values\<close>

text \<open>The values that cross the JSON boundary or come out of a request.  A \<open>PDateTime\<close> carries its
  offset from UTC in minutes when it is aware.\<close>

datatype pyval =
    PNone
  | PBool bool
  | PInt int
  | PFloat xfloat
  | PStr string
  | PDecimal real
  | PDate nat nat nat
  | PDateTime nat nat nat nat nat nat nat "int option"
  | PList "pyval list"
  | PTuple "pyval list"
  | PDict "(string \<times> pyval) list"

fun truthy :: "pyval \<Rightarrow> bool" where
  "truthy PNone = False"
| "truthy (PBool b) = b"
| "truthy (PInt i) = (i \<noteq> 0)"
| "truthy (PFloat x) = (x \<noteq> Fin 0)"
| "truthy (PStr s) = (s \<noteq> [])"
| "truthy (PDecimal x) = (x \<noteq> 0)"
| "truthy (PDate _ _ _) = True"
| "truthy (PDateTime _ _ _ _ _ _ _ _) = True"
| "truthy (PList xs) = (xs \<noteq> [])"
| "truthy (PTuple xs) = (xs \<noteq> [])"
| "truthy (PDict kvs) = (kvs \<noteq> [])"

text \<open>Python's \<open>float(v)\<close> and \<open>int(v)\<close>.  An integer of magnitude at least
  \<open>2 ^ 1024 - 2 ^ 970\<close> has no finite float.\<close>

definition float_max_int :: int where "float_max_int = 2 ^ 1024 - 2 ^ 970"

fun to_float :: "pyval \<Rightarrow> xfloat result" where
  "to_float (PBool b) = Ok (Fin (if b then 1 else 0))"
| "to_float (PInt i) = (if \<bar>i\<bar> < float_max_int then Ok (Fin (of_int i))
     else Err (OverflowError ''int too large to convert to float''))"
| "to_float (PFloat x) = Ok x"
| "to_float (PDecimal x) = Ok (Fin x)"
| "to_float (PStr s) = (case parse_float s of Some x \<Rightarrow> Ok x
     | None \<Rightarrow> Err (ValueError ''could not convert string to float''))"
| "to_float _ = Err (TypeError ''float() argument must be a string or a real number'')"

fun to_int :: "pyval \<Rightarrow> int result" where
  "to_int (PBool b) = Ok (if b then 1 else 0)"
| "to_int (PInt i) = Ok i"
| "to_int (PFloat (Fin x)) = Ok (trunc_int x)"
| "to_int (PFloat NaN) = Err (ValueError ''cannot convert float NaN to integer'')"
| "to_int (PFloat _) = Err (OverflowError ''cannot convert float infinity to integer'')"
| "to_int (PDecimal x) = Ok (trunc_int x)"
| "to_int (PStr s) = (case parse_int s of Some i \<Rightarrow> Ok i
     | None \<Rightarrow> Err (ValueError ''invalid literal for int() with base 10''))"
| "to_int _ = Err (TypeError ''int() argument must be a string or a real number'')"

text \<open>\<open>d.get(k)\<close>, \<open>d.get(k, default)\<close>, and the payload idiom \<open>int(d.get(k) or 0)\<close>.\<close>

type_synonym payload = "(string \<times> pyval) list"

definition dget :: "payload \<Rightarrow> string \<Rightarrow> pyval" where
  "dget d k = (case map_of d k of Some v \<Rightarrow> v | None \<Rightarrow> PNone)"

definition dget_or :: "payload \<Rightarrow> string \<Rightarrow> pyval \<Rightarrow> pyval" where
  "dget_or d k x = (case map_of d k of Some v \<Rightarrow> v | None \<Rightarrow> x)"

definition py_or :: "pyval \<Rightarrow> pyval \<Rightarrow> pyval" where "py_or a b = (if truthy a then a else b)"

definition dput :: "string \<Rightarrow> pyval \<Rightarrow> payload \<Rightarrow> payload" where "dput k v d = AList.update k v d"

lemma dget_dput [simp]: "dget (dput k v d) k' = (if k' = k then v else dget d k')"
  by (simp add: dget_def dput_def update_conv')

text \<open>\<open>v.strip()\<close> on a dynamic value: only a str has the method.\<close>

fun py_strip :: "pyval \<Rightarrow> string result" where
  "py_strip (PStr s) = Ok (strip s)"
| "py_strip _ = Err (AttributeError ''object has no attribute strip'')"

text \<open>The substring test \<open>sub in s\<close>.\<close>

fun contains :: "string \<Rightarrow> string \<Rightarrow> bool" where
  "contains [] sub = (sub = [])"
| "contains (c # s) sub = (startswith (c # s) sub \<or> contains s sub)"

lemma contains_iff: "contains s sub \<longleftrightarrow> (\<exists>a b. s = a @ sub @ b)"
proof (induction s)
  case (Cons c s)
  show ?case
  proof
    assume "contains (c # s) sub"
    then show "\<exists>a b. c # s = a @ sub @ b"
    proof (cases "startswith (c # s) sub")
      case True then show ?thesis by (metis append_Nil startswith_append)
    next
      case False
      with \<open>contains (c # s) sub\<close> obtain a b where "s = a @ sub @ b" using Cons by auto
      then have "c # s = (c # a) @ sub @ b" by simp
      then show ?thesis by blast
    qed
  next
    assume "\<exists>a b. c # s = a @ sub @ b"
    then obtain a b where "c # s = a @ sub @ b" by blast
    then show "contains (c # s) sub"
    proof (cases a)
      case Nil
      then have "startswith (c # s) sub" using \<open>c # s = a @ sub @ b\<close> by simp
      then show ?thesis by simp
    next
      case (Cons x xs)
      then have "s = xs @ sub @ b" using \<open>c # s = a @ sub @ b\<close> by simp
      then show ?thesis using Cons.IH by auto
    qed
  qed
qed simp

text \<open>\<open>s.split(c)\<close>: the parts between the occurrences of a separator character, and \<open>s.split()\<close>:
  the words between runs of white space.\<close>

fun split_on :: "char \<Rightarrow> string \<Rightarrow> string list" where
  "split_on c [] = [[]]"
| "split_on c (x # xs) = (if x = c then [] # split_on c xs
     else (case split_on c xs of [] \<Rightarrow> [[x]] | w # ws \<Rightarrow> (x # w) # ws))"

fun split_words :: "string \<Rightarrow> string list" where
  "split_words [] = []"
| "split_words (c # s) = (if is_space c then split_words s
     else (case s of [] \<Rightarrow> [[c]]
        | d # _ \<Rightarrow> if is_space d then [c] # split_words s
            else (case split_words s of w # ws \<Rightarrow> (c # w) # ws | [] \<Rightarrow> [[c]])))"

end
