(* ===== verification/Cache.thy ===== *)
theory Cache
  imports Prelude "HOL-Library.List_Lexorder" "HOL-Library.Char_ord"
begin

text \<open>The in-process cache (\<open>app/utils/cache.py\<close>): \<open>TTLCache\<close> with its LRU eviction, expiry and
  counters, the read-through \<open>get_or_set\<close> both as one thread sees it and as a step relation
  for any number of threads, the eight named caches with their bust functions, and
  \<open>make_key\<close>.  \<open>time.time()\<close> is an argument of every operation that reads it.  The locale
  \<open>expiring_store\<close> is the interface the routes rely on: what a lookup returns after a put, a
  touch and an invalidation; the coherence of read-through clients is proved once inside it.\<close>

section \<open>The interface\<close>

locale expiring_store =
  fixes ok :: "'c \<Rightarrow> bool"
    and lookup :: "'c \<Rightarrow> real \<Rightarrow> string \<Rightarrow> 'v option"
    and put :: "real \<Rightarrow> string \<Rightarrow> 'v \<Rightarrow> 'c \<Rightarrow> 'c"
    and touch :: "real \<Rightarrow> string \<Rightarrow> 'c \<Rightarrow> 'c"
    and drop_prefix :: "string \<Rightarrow> 'c \<Rightarrow> 'c"
  assumes ok_put: "ok c \<Longrightarrow> ok (put now k v c)"
    and ok_touch: "ok c \<Longrightarrow> ok (touch now k c)"
    and ok_drop: "ok c \<Longrightarrow> ok (drop_prefix p c)"
    and lookup_put: "ok c \<Longrightarrow> lookup (put now k v c) t k' = Some w \<Longrightarrow>
      (if k' = k then w = v else lookup c t k' = Some w)"
    and lookup_touch: "ok c \<Longrightarrow> lookup (touch now k c) t k' = Some w \<Longrightarrow> lookup c t k' = Some w"
    and lookup_drop: "lookup (drop_prefix p c) t k = (if startswith k p then None else lookup c t k)"
begin

text \<open>A cache is coherent with what the database would answer now when every entry it can still
  return is that answer.\<close>

definition coherent :: "(string \<Rightarrow> 'v) \<Rightarrow> 'c \<Rightarrow> bool" where
  "coherent fetch c \<longleftrightarrow> ok c \<and> (\<forall>t k v. lookup c t k = Some v \<longrightarrow> v = fetch k)"

definition read_through :: "(string \<Rightarrow> 'v) \<Rightarrow> real \<Rightarrow> string \<Rightarrow> 'c \<Rightarrow> 'v \<times> 'c" where
  "read_through fetch now k c = (case lookup c now k of
      Some v \<Rightarrow> (v, touch now k c)
    | None \<Rightarrow> (fetch k, put now k (fetch k) (touch now k c)))"

lemma coherentI:
  "ok c \<Longrightarrow> (\<And>t k v. lookup c t k = Some v \<Longrightarrow> v = fetch k) \<Longrightarrow> coherent fetch c"
  by (auto simp: coherent_def)

lemma coherent_ok: "coherent fetch c \<Longrightarrow> ok c"
  by (auto simp: coherent_def)

lemma coherentD: "coherent fetch c \<Longrightarrow> lookup c t k = Some v \<Longrightarrow> v = fetch k"
  by (auto simp: coherent_def)

lemma put_coherent: "coherent fetch c \<Longrightarrow> coherent fetch (put now k (fetch k) c)"
  by (rule coherentI) (auto intro: ok_put dest: coherent_ok, metis coherentD coherent_ok lookup_put)

lemma touch_coherent: "coherent fetch c \<Longrightarrow> coherent fetch (touch now k c)"
  by (rule coherentI) (auto intro: ok_touch dest: coherent_ok, metis coherentD coherent_ok lookup_touch)

lemma read_value: "coherent fetch c \<Longrightarrow> fst (read_through fetch now k c) = fetch k"
  by (auto simp: read_through_def dest: coherentD split: option.split)

lemma read_coherent: "coherent fetch c \<Longrightarrow> coherent fetch (snd (read_through fetch now k c))"
  by (auto simp: read_through_def intro: put_coherent touch_coherent split: option.split)

lemma drop_coherent:
  assumes "coherent fetch c" and "\<And>k. fetch' k \<noteq> fetch k \<Longrightarrow> startswith k p"
  shows "coherent fetch' (drop_prefix p c)"
proof (rule coherentI)
  show "ok (drop_prefix p c)" using assms by (auto intro: ok_drop dest: coherent_ok)
next
  fix t k v assume "lookup (drop_prefix p c) t k = Some v"
  then have "\<not> startswith k p" "lookup c t k = Some v" by (auto simp: lookup_drop split: if_splits)
  then show "v = fetch' k" using assms by (metis coherentD)
qed

lemma uncovered_key_survives:
  "\<not> startswith k p \<Longrightarrow> lookup (drop_prefix p c) t k = lookup c t k"
  by (simp add: lookup_drop)

end

section \<open>TTLCache\<close>

record 'v ttl_cache =
  ttl :: real
  max_entries :: nat
  store :: "(string \<times> real \<times> 'v) list"
  hits :: nat
  misses :: nat

definition new_cache :: "real \<Rightarrow> nat \<Rightarrow> 'v ttl_cache" where
  "new_cache t n = \<lparr>ttl = t, max_entries = n, store = [], hits = 0, misses = 0\<rparr>"

definition cache_get :: "real \<Rightarrow> string \<Rightarrow> 'v ttl_cache \<Rightarrow> 'v option \<times> 'v ttl_cache" where
  "cache_get now key c = (case map_of (store c) key of
      None \<Rightarrow> (None, c\<lparr>misses := misses c + 1\<rparr>)
    | Some (expiry, v) \<Rightarrow>
        if expiry \<le> now
        then (None, c\<lparr>store := AList.delete key (store c), misses := misses c + 1\<rparr>)
        else (Some v, c\<lparr>store := AList.delete key (store c) @ [(key, expiry, v)],
                        hits := hits c + 1\<rparr>))"

function popitems :: "nat \<Rightarrow> 'a list \<Rightarrow> 'a list" where
  "popitems n xs = (if n < length xs then popitems n (tl xs) else xs)"
  by pat_completeness auto
termination by (relation "measure (\<lambda>(n, xs). length xs)") auto

declare popitems.simps [simp del]

definition cache_set :: "real \<Rightarrow> string \<Rightarrow> 'v \<Rightarrow> real option \<Rightarrow> 'v ttl_cache \<Rightarrow> 'v ttl_cache" where
  "cache_set now key v t c =
     (let e = now + (case t of Some x \<Rightarrow> x | None \<Rightarrow> ttl c)
      in c\<lparr>store := popitems (max_entries c) (AList.delete key (store c) @ [(key, e, v)])\<rparr>)"

text \<open>The clock is read by each of the two lookups and by the insertion; the producer may raise,
  and then nothing is cached.\<close>

definition cache_get_or_set ::
  "real \<Rightarrow> real \<Rightarrow> real \<Rightarrow> string \<Rightarrow> 'v result \<Rightarrow> 'v ttl_cache \<Rightarrow> 'v result \<times> 'v ttl_cache" where
  "cache_get_or_set t1 t2 t3 key producer c =
     (case cache_get t1 key c of
        (Some v, c1) \<Rightarrow> (Ok v, c1)
      | (None, c1) \<Rightarrow> (case cache_get t2 key c1 of
            (Some v, c2) \<Rightarrow> (Ok v, c2)
          | (None, c2) \<Rightarrow> (case producer of
                Inl e \<Rightarrow> (Err e, c2)
              | Inr v \<Rightarrow> (Ok v, cache_set t3 key v None c2))))"

definition cache_invalidate :: "string \<Rightarrow> 'v ttl_cache \<Rightarrow> nat \<times> 'v ttl_cache" where
  "cache_invalidate prefix c =
     (let doomed = filter (\<lambda>k. startswith k prefix) (map fst (store c))
      in (length doomed, c\<lparr>store := fold AList.delete doomed (store c)\<rparr>))"

definition cache_clear :: "'v ttl_cache \<Rightarrow> 'v ttl_cache" where
  "cache_clear c = c\<lparr>store := []\<rparr>"

record cache_statistics =
  st_entries :: nat
  st_max :: nat
  st_ttl :: real
  st_hits :: nat
  st_misses :: nat
  st_backend :: string

definition cache_stats :: "'v ttl_cache \<Rightarrow> cache_statistics" where
  "cache_stats c = \<lparr>st_entries = length (store c), st_max = max_entries c, st_ttl = ttl c,
     st_hits = hits c, st_misses = misses c, st_backend = ''memory''\<rparr>"

section \<open>Lookups, capacity and the interface laws\<close>

definition cache_lookup :: "'v ttl_cache \<Rightarrow> real \<Rightarrow> string \<Rightarrow> 'v option" where
  "cache_lookup c t k = (case map_of (store c) k of
      None \<Rightarrow> None | Some (e, v) \<Rightarrow> if e \<le> t then None else Some v)"

definition cache_touch :: "real \<Rightarrow> string \<Rightarrow> 'v ttl_cache \<Rightarrow> 'v ttl_cache" where
  "cache_touch now k c = snd (cache_get now k c)"

definition cache_put :: "real \<Rightarrow> string \<Rightarrow> 'v \<Rightarrow> 'v ttl_cache \<Rightarrow> 'v ttl_cache" where
  "cache_put now k v c = cache_set now k v None c"

definition cache_drop :: "string \<Rightarrow> 'v ttl_cache \<Rightarrow> 'v ttl_cache" where
  "cache_drop p c = snd (cache_invalidate p c)"

definition cache_inv :: "'v ttl_cache \<Rightarrow> bool" where
  "cache_inv c \<longleftrightarrow> distinct (map fst (store c)) \<and> length (store c) \<le> max_entries c"

lemma popitems_drop: "popitems n xs = drop (length xs - n) xs"
proof (induction n xs rule: popitems.induct)
  case (1 n xs)
  show ?case
  proof (cases "n < length xs")
    case True
    then have "length xs - n = Suc (length (tl xs) - n)" by auto
    then show ?thesis using True 1 by (subst popitems.simps) (simp add: drop_Suc)
  qed (subst popitems.simps, simp)
qed

lemma popitems_length: "length (popitems n xs) = min n (length xs)"
  by (simp add: popitems_drop)

lemma popitems_distinct: "distinct (map f xs) \<Longrightarrow> distinct (map f (popitems n xs))"
  by (simp add: popitems_drop drop_map[symmetric])

lemma map_of_drop_distinct:
  "distinct (map fst xs) \<Longrightarrow> map_of (drop n xs) k = Some v \<Longrightarrow> map_of xs k = Some v"
  by (metis (no_types, lifting) distinct_drop drop_map in_set_dropD map_of_eq_Some_iff)

lemma map_of_popitems_weak:
  "map_of (popitems n xs) k = Some v \<Longrightarrow> (k, v) \<in> set xs"
  by (metis in_set_dropD map_of_SomeD popitems_drop)

lemma map_of_delete_snoc:
  "map_of (AList.delete k xs @ [(k, x)]) k' = (if k' = k then Some x else map_of xs k')"
  by (auto simp: map_add_def delete_conv' split: option.split)

lemma delete_filter: "AList.delete k xs = filter (\<lambda>p. fst p \<noteq> k) xs"
  by (auto simp: AList.delete_eq intro!: filter_cong)

lemma distinct_delete_snoc:
  "distinct (map fst xs) \<Longrightarrow> distinct (map fst (AList.delete k xs @ [(k, x)]))"
  by (auto simp: delete_filter distinct_map_filter)

lemma fold_delete_keys:
  "fold AList.delete ks xs = filter (\<lambda>p. fst p \<notin> set ks) xs"
proof (induction ks arbitrary: xs)
  case (Cons k ks)
  have "filter (\<lambda>p. fst p \<notin> set ks) (AList.delete k xs) = filter (\<lambda>p. fst p \<notin> set (k # ks)) xs"
    unfolding delete_filter by (simp add: conj_commute)
  then show ?case by (simp add: Cons.IH)
qed simp

lemma drop_store: "store (cache_drop p c) = filter (\<lambda>e. \<not> startswith (fst e) p) (store c)"
  unfolding cache_drop_def cache_invalidate_def Let_def
  by (auto simp: fold_delete_keys intro!: filter_cong)

lemma map_of_filter_key: "map_of (filter (\<lambda>e. Q (fst e)) xs) k = (if Q k then map_of xs k else None)"
  by (induction xs) auto

lemma cache_inv_new [inv_steps]: "cache_inv (new_cache t n)"
  by (simp add: cache_inv_def new_cache_def)

lemma length_delete_mem:
  "k \<in> fst ` set xs \<Longrightarrow> length (AList.delete k xs) < length xs"
  unfolding delete_filter by (auto intro: length_filter_less)

lemma cache_inv_get [inv_steps]: "cache_inv c \<Longrightarrow> cache_inv (snd (cache_get now k c))"
proof -
  assume i: "cache_inv c"
  have l: "length (AList.delete k (store c)) \<le> length (store c)" by (rule length_delete_le)
  show ?thesis
  proof (cases "map_of (store c) k")
    case None with i show ?thesis by (simp add: cache_get_def cache_inv_def)
  next
    case (Some p)
    then have "k \<in> fst ` set (store c)" by (metis domI dom_map_of_conv_image_fst)
    then have "length (AList.delete k (store c)) < length (store c)"
      by (rule length_delete_mem)
    then show ?thesis using Some i l distinct_delete_snoc[of "store c" k]
      by (cases p) (auto simp: cache_get_def cache_inv_def distinct_delete simp del: map_append)
  qed
qed

lemma cache_inv_set [inv_steps]: "cache_inv c \<Longrightarrow> cache_inv (cache_set now k v t c)"
  unfolding cache_inv_def cache_set_def Let_def
  by (auto simp: popitems_length intro!: popitems_distinct distinct_delete_snoc simp del: map_append)

lemma cache_inv_drop [inv_steps]: "cache_inv c \<Longrightarrow> cache_inv (cache_drop p c)"
proof -
  assume "cache_inv c"
  moreover have "max_entries (cache_drop p c) = max_entries c"
    by (simp add: cache_drop_def cache_invalidate_def Let_def)
  ultimately show ?thesis unfolding cache_inv_def drop_store
    by (auto simp: distinct_map_filter intro: le_trans[OF length_filter_le])
qed

lemma cache_inv_clear [inv_steps]: "cache_inv (cache_clear c)"
  by (simp add: cache_inv_def cache_clear_def)

lemma lookup_put_cache:
  assumes "cache_inv c" and "cache_lookup (cache_put now k v c) t k' = Some w"
  shows "if k' = k then w = v else cache_lookup c t k' = Some w"
proof -
  let ?xs = "AList.delete k (store c) @ [(k, now + ttl c, v)]"
  have d: "distinct (map fst ?xs)" using assms(1) by (intro distinct_delete_snoc) (simp add: cache_inv_def)
  from assms(2) obtain e where m: "map_of (popitems (max_entries c) ?xs) k' = Some (e, w)" "\<not> e \<le> t"
    by (auto simp: cache_lookup_def cache_put_def cache_set_def Let_def split: option.splits if_splits)
  then have "map_of ?xs k' = Some (e, w)"
    using map_of_drop_distinct[OF d] by (metis popitems_drop)
  then show ?thesis using m(2)
    by (auto simp: map_of_delete_snoc cache_lookup_def split: if_splits simp del: map_of_append)
qed

lemma touch_map_of:
  "map_of (store (cache_touch now k c)) k' =
     (if k' = k then (case map_of (store c) k of None \<Rightarrow> None
        | Some (e, v) \<Rightarrow> if e \<le> now then None else Some (e, v)) else map_of (store c) k')"
  by (auto simp: cache_touch_def cache_get_def map_of_delete_snoc delete_conv'
      split: option.split prod.split simp del: map_of_append)

lemma lookup_touch_cache:
  "cache_lookup (cache_touch now k c) t k' = Some w \<Longrightarrow> cache_lookup c t k' = Some w"
  by (auto simp: cache_lookup_def touch_map_of split: option.splits if_splits)

lemma lookup_drop_cache:
  "cache_lookup (cache_drop p c) t k = (if startswith k p then None else cache_lookup c t k)"
  by (simp add: cache_lookup_def drop_store map_of_filter_key[of "\<lambda>k. \<not> startswith k p"])

interpretation cstore: expiring_store cache_inv cache_lookup cache_put cache_touch cache_drop
proof unfold_locales
  fix c :: "'v ttl_cache" and now k v p
  show "cache_inv c \<Longrightarrow> cache_inv (cache_put now k v c)" by (simp add: cache_put_def cache_inv_set)
  show "cache_inv c \<Longrightarrow> cache_inv (cache_touch now k c)" by (simp add: cache_touch_def cache_inv_get)
  show "cache_inv c \<Longrightarrow> cache_inv (cache_drop p c)" by (rule cache_inv_drop)
qed (auto dest: lookup_put_cache lookup_touch_cache simp: lookup_drop_cache)

lemma lookup_put_own: "0 < max_entries c \<Longrightarrow> t < now + ttl c \<Longrightarrow> cache_lookup (cache_put now k v c) t k = Some v"
proof -
  assume n: "0 < max_entries c" and t: "t < now + ttl c"
  let ?ys = "AList.delete k (store c)"
  have "length (?ys @ [(k, now + ttl c, v)]) - max_entries c \<le> length ?ys" using n by simp
  then have "drop (length (?ys @ [(k, now + ttl c, v)]) - max_entries c) (?ys @ [(k, now + ttl c, v)])
      = drop (length (?ys @ [(k, now + ttl c, v)]) - max_entries c) ?ys @ [(k, now + ttl c, v)]" by (simp del: length_append)
  moreover have "map_of (drop j ?ys) k = None" for j
    by (auto simp: map_of_eq_None_iff AList.delete_eq dest: in_set_dropD)
  ultimately show ?thesis using t
    by (simp add: cache_lookup_def cache_put_def cache_set_def popitems_drop map_add_def Let_def del: length_append drop_append)
qed

text \<open>With a clock that stands still during the call, \<open>get_or_set\<close> is the read-through of the
  interface.\<close>

lemma get_value: "fst (cache_get now k c) = cache_lookup c now k"
  by (auto simp: cache_get_def cache_lookup_def split: option.split)

lemma lookup_touch_same: "cache_lookup c now k = None \<Longrightarrow> cache_lookup (cache_touch now k c) t k = None"
  by (auto simp: cache_lookup_def touch_map_of split: option.splits if_splits)

lemma ttl_touch [simp]: "ttl (cache_touch now k c) = ttl c"
  "max_entries (cache_touch now k c) = max_entries c"
  by (auto simp: cache_touch_def cache_get_def split: option.split)

section \<open>Runs of operations\<close>

datatype 'v cache_op =
    OGet real string
  | OSet real string 'v "real option"
  | OGetOrSet real real real string "'v result"
  | OInvalidate string
  | OClear

fun cache_step :: "'v cache_op \<Rightarrow> 'v ttl_cache \<Rightarrow> 'v ttl_cache" where
  "cache_step (OGet now k) c = snd (cache_get now k c)"
| "cache_step (OSet now k v t) c = cache_set now k v t c"
| "cache_step (OGetOrSet t1 t2 t3 k p) c = snd (cache_get_or_set t1 t2 t3 k p c)"
| "cache_step (OInvalidate p) c = snd (cache_invalidate p c)"
| "cache_step OClear c = cache_clear c"

lemma cache_inv_get_or_set [inv_steps]:
  assumes "cache_inv c" shows "cache_inv (snd (cache_get_or_set t1 t2 t3 k p c))"
proof -
  obtain o1 c1 where c1: "cache_get t1 k c = (o1, c1)" by (cases "cache_get t1 k c")
  obtain o2 c2 where c2: "cache_get t2 k c1 = (o2, c2)" by (cases "cache_get t2 k c1")
  have "cache_inv c1" using assms c1 cache_inv_get[of c t1 k] by simp
  moreover then have "cache_inv c2" using c2 cache_inv_get[of c1 t2 k] by simp
  ultimately show ?thesis
    by (auto simp: cache_get_or_set_def c1 c2 cache_inv_set split: option.split sum.split)
qed

lemma cache_step_inv: "cache_inv c \<Longrightarrow> cache_inv (cache_step x c)"
  by (cases x) (auto intro: inv_steps simp: cache_drop_def[symmetric])

interpretation csys: op_system cache_step cache_inv
  by unfold_locales (rule cache_step_inv)

section \<open>The named caches and their busts\<close>

record 'v caches =
  products_cache :: "'v ttl_cache"
  suppliers_cache :: "'v ttl_cache"
  dashboard_cache :: "'v ttl_cache"
  reports_cache :: "'v ttl_cache"
  global_cache :: "'v ttl_cache"
  api_cache :: "'v ttl_cache"
  landing_cache :: "'v ttl_cache"
  monitoring_cache :: "'v ttl_cache"

definition named_caches :: "'v caches" where
  "named_caches = \<lparr>products_cache = new_cache 300 100, suppliers_cache = new_cache 300 100,
     dashboard_cache = new_cache 600 20, reports_cache = new_cache 7200 50,
     global_cache = new_cache 600 20, api_cache = new_cache 120 100,
     landing_cache = new_cache 600 10, monitoring_cache = new_cache 60 10\<rparr>"

datatype cache_name = Products | Suppliers | Dashboard | Reports | Global | Api | Landing | Monitoring

fun cache_of :: "cache_name \<Rightarrow> 'v caches \<Rightarrow> 'v ttl_cache" where
  "cache_of Products cs = products_cache cs"
| "cache_of Suppliers cs = suppliers_cache cs"
| "cache_of Dashboard cs = dashboard_cache cs"
| "cache_of Reports cs = reports_cache cs"
| "cache_of Global cs = global_cache cs"
| "cache_of Api cs = api_cache cs"
| "cache_of Landing cs = landing_cache cs"
| "cache_of Monitoring cs = monitoring_cache cs"

fun with_cache :: "cache_name \<Rightarrow> 'v ttl_cache \<Rightarrow> 'v caches \<Rightarrow> 'v caches" where
  "with_cache Products c cs = cs\<lparr>products_cache := c\<rparr>"
| "with_cache Suppliers c cs = cs\<lparr>suppliers_cache := c\<rparr>"
| "with_cache Dashboard c cs = cs\<lparr>dashboard_cache := c\<rparr>"
| "with_cache Reports c cs = cs\<lparr>reports_cache := c\<rparr>"
| "with_cache Global c cs = cs\<lparr>global_cache := c\<rparr>"
| "with_cache Api c cs = cs\<lparr>api_cache := c\<rparr>"
| "with_cache Landing c cs = cs\<lparr>landing_cache := c\<rparr>"
| "with_cache Monitoring c cs = cs\<lparr>monitoring_cache := c\<rparr>"

lemma cache_of_with_cache: "cache_of m (with_cache n c cs) = (if m = n then c else cache_of m cs)"
  by (cases m; cases n) simp_all

text \<open>One \<open>n += cache.invalidate(prefix)\<close> of a bust function.\<close>

definition bust1 :: "cache_name \<Rightarrow> string \<Rightarrow> nat \<times> 'v caches \<Rightarrow> nat \<times> 'v caches" where
  "bust1 m p st = (case st of (n, cs) \<Rightarrow> case cache_invalidate p (cache_of m cs) of
     (k, c) \<Rightarrow> (n + k, with_cache m c cs))"

definition busts :: "(cache_name \<times> string) list \<Rightarrow> 'v caches \<Rightarrow> nat \<times> 'v caches" where
  "busts ps cs = fold (\<lambda>(m, p). bust1 m p) ps (0, cs)"

definition cache_bust_products :: "'v caches \<Rightarrow> nat \<times> 'v caches" where
  "cache_bust_products = busts [(Products, ''''), (Dashboard, ''dashboard:''), (Reports, ''''),
     (Global, ''''), (Api, ''product''), (Landing, '''')]"

definition cache_bust_suppliers :: "'v caches \<Rightarrow> nat \<times> 'v caches" where
  "cache_bust_suppliers = busts [(Suppliers, ''''), (Reports, ''reports:''), (Api, ''suppliers''),
     (Landing, '''')]"

definition cache_bust_movements :: "'v caches \<Rightarrow> nat \<times> 'v caches" where
  "cache_bust_movements = busts [(Products, ''''), (Dashboard, ''dashboard:''),
     (Reports, ''reports:''), (Global, ''''), (Api, ''movements'')]"

definition cache_bust_purchase_orders :: "'v caches \<Rightarrow> nat \<times> 'v caches" where
  "cache_bust_purchase_orders = busts [(Products, ''''), (Dashboard, ''dashboard:''),
     (Reports, ''reports:''), (Global, ''''), (Api, ''purchase_orders''),
     (Api, ''purchase_orders:board'')]"

definition cache_bust_settings :: "'v caches \<Rightarrow> nat \<times> 'v caches" where
  "cache_bust_settings = busts [(Global, ''''), (Api, ''settings'')]"

definition cache_bust_all :: "'v caches \<Rightarrow> nat \<times> 'v caches" where
  "cache_bust_all = busts (map (\<lambda>m. (m, ''''))
     [Products, Suppliers, Dashboard, Reports, Global, Api, Landing, Monitoring])"

lemmas bust_defs = cache_bust_products_def cache_bust_suppliers_def cache_bust_movements_def
  cache_bust_purchase_orders_def cache_bust_settings_def cache_bust_all_def

lemma bust1_cache: "cache_of m (snd (bust1 m' p st)) =
    (if m = m' then cache_drop p (cache_of m (snd st)) else cache_of m (snd st))"
  by (auto simp: bust1_def cache_of_with_cache cache_drop_def split: prod.split)

lemma bust1_lookup: "cache_lookup (cache_of m (snd (bust1 m' p st))) t k =
    (if m' = m \<and> startswith k p then None else cache_lookup (cache_of m (snd st)) t k)"
  by (auto simp: bust1_cache lookup_drop_cache)

text \<open>What a list of busts leaves behind: exactly the keys that no prefix of their cache covers.\<close>

lemma fold_busts_lookup:
  "cache_lookup (cache_of m (snd (fold (\<lambda>(m, p). bust1 m p) ps st))) t k =
    (if \<exists>(m', p)\<in>set ps. m' = m \<and> startswith k p then None
     else cache_lookup (cache_of m (snd st)) t k)"
proof (induction ps arbitrary: st)
  case (Cons q ps) then show ?case by (cases q) (simp add: bust1_lookup)
qed simp

lemma busts_lookup:
  "cache_lookup (cache_of m (snd (busts ps cs))) t k =
    (if \<exists>(m', p)\<in>set ps. m' = m \<and> startswith k p then None else cache_lookup (cache_of m cs) t k)"
  by (simp add: busts_def fold_busts_lookup)

text \<open>The count returned is the number of entries that went.\<close>

definition all_entries :: "'v caches \<Rightarrow> nat" where
  "all_entries cs = sum_list (map (\<lambda>m. length (store (cache_of m cs)))
     [Products, Suppliers, Dashboard, Reports, Global, Api, Landing, Monitoring])"

lemma length_filter_split: "length (filter P xs) + length (filter (\<lambda>x. \<not> P x) xs) = length xs"
  by (induction xs) auto

lemma invalidate_count:
  "fst (cache_invalidate p c) + length (store (cache_drop p c)) = length (store c)"
proof -
  have "fst (cache_invalidate p c) = length (filter (\<lambda>e. startswith (fst e) p) (store c))"
    by (simp add: cache_invalidate_def Let_def filter_map comp_def)
  then show ?thesis unfolding drop_store by (simp add: length_filter_split)
qed

lemma bust1_count: "fst (bust1 m p st) + all_entries (snd (bust1 m p st)) = fst st + all_entries (snd st)"
proof -
  obtain n cs where st: "st = (n, cs)" by (cases st)
  have "fst (cache_invalidate p (cache_of m cs)) + length (store (cache_drop p (cache_of m cs)))
      = length (store (cache_of m cs))" by (rule invalidate_count)
  then show ?thesis unfolding st bust1_def all_entries_def
    by (cases m) (auto simp: cache_drop_def split: prod.splits)
qed

lemma busts_count: "fst (busts ps cs) + all_entries (snd (busts ps cs)) = all_entries cs"
proof -
  have "fst (fold (\<lambda>(m, p). bust1 m p) ps st) + all_entries (snd (fold (\<lambda>(m, p). bust1 m p) ps st))
      = fst st + all_entries (snd st)" for st :: "nat \<times> 'a caches"
    by (induction ps arbitrary: st) (auto simp: bust1_count)
  then show ?thesis by (simp add: busts_def)
qed

section \<open>Cache keys\<close>

datatype key_val = KNone | KBool bool | KInt int | KStr string

fun key_truthy :: "key_val \<Rightarrow> bool" where
  "key_truthy KNone = False"
| "key_truthy (KBool b) = b"
| "key_truthy (KInt i) = (i \<noteq> 0)"
| "key_truthy (KStr s) = (s \<noteq> [])"

fun key_text :: "key_val \<Rightarrow> string" where
  "key_text KNone = ''None''"
| "key_text (KBool b) = (if b then ''True'' else ''False'')"
| "key_text (KInt i) = int_str i"
| "key_text (KStr s) = s"

definition make_key :: "(string \<times> key_val) list \<Rightarrow> string" where
  "make_key kwargs =
     (let prefix = (case map_of kwargs ''prefix'' of None \<Rightarrow> [] | Some v \<Rightarrow> if key_truthy v then key_text v else []);
          rest = AList.delete ''prefix'' kwargs;
          body = joins ''|'' (map (\<lambda>(k, v). k @ ''='' @ key_text v)
                    (filter (\<lambda>(k, v). key_truthy v) (sort_key fst rest)))
      in if prefix \<noteq> [] then prefix @ '':'' @ body else body)"

section \<open>Coherence of the read-through caches\<close>

definition fresh_for :: "(string \<Rightarrow> 'v) \<Rightarrow> 'v ttl_cache \<Rightarrow> bool" where
  "fresh_for fetch c \<longleftrightarrow> cache_inv c \<and> (\<forall>t k v. cache_lookup c t k = Some v \<longrightarrow> v = fetch k)"

lemma fresh_for_coherent: "fresh_for fetch c = cstore.coherent fetch c"
  by (simp add: fresh_for_def cstore.coherent_def)

lemma snd_cache_get: "snd (cache_get t k c) = cache_touch t k c"
  by (simp add: cache_touch_def)

lemma get_pair: "cache_get t k c = (cache_lookup c t k, cache_touch t k c)"
  by (simp add: prod_eq_iff get_value snd_cache_get)

lemma get_or_set_alt:
  "cache_get_or_set t1 t2 t3 k p c =
    (case cache_lookup c t1 k of Some v \<Rightarrow> (Ok v, cache_touch t1 k c)
     | None \<Rightarrow> (case cache_lookup (cache_touch t1 k c) t2 k of
          Some v \<Rightarrow> (Ok v, cache_touch t2 k (cache_touch t1 k c))
        | None \<Rightarrow> (case p of Inl e \<Rightarrow> (Err e, cache_touch t2 k (cache_touch t1 k c))
            | Inr v \<Rightarrow> (Ok v, cache_put t3 k v (cache_touch t2 k (cache_touch t1 k c))))))"
  by (simp add: cache_get_or_set_def get_pair cache_put_def split: option.split sum.split)

lemma get_or_set_fresh:
  assumes "fresh_for fetch c"
  shows "fst (cache_get_or_set t1 t2 t3 k (Ok (fetch k)) c) = Ok (fetch k)"
    and "fresh_for fetch (snd (cache_get_or_set t1 t2 t3 k (Ok (fetch k)) c))"
proof -
  note c = assms[unfolded fresh_for_coherent]
  note c1 = cstore.touch_coherent[OF c, of t1 k]
  note c2 = cstore.touch_coherent[OF c1, of t2 k]
  show "fst (cache_get_or_set t1 t2 t3 k (Ok (fetch k)) c) = Ok (fetch k)"
    using cstore.coherentD[OF c] by (auto simp: get_or_set_alt lookup_touch_same split: option.split)
  show "fresh_for fetch (snd (cache_get_or_set t1 t2 t3 k (Ok (fetch k)) c))"
    unfolding fresh_for_coherent using c1 c2 cstore.put_coherent[OF c2]
    by (auto simp: get_or_set_alt split: option.split)
qed

text \<open>The write path of the product routes: the write changes what the database answers for some
  keys, then \<open>cache_bust_products\<close> runs.\<close>

lemma cache_inv_busts: "cache_inv (cache_of m cs) \<Longrightarrow> cache_inv (cache_of m (snd (busts ps cs)))"
proof -
  have "cache_inv (cache_of m (snd st)) \<Longrightarrow>
      cache_inv (cache_of m (snd (fold (\<lambda>(m, p). bust1 m p) ps st)))" for st :: "nat \<times> 'a caches"
  proof (induction ps arbitrary: st)
    case (Cons q ps)
    then have "cache_inv (cache_of m (snd (bust1 (fst q) (snd q) st)))"
      by (auto simp: bust1_cache cache_inv_drop)
    then show ?case using Cons.IH[of "bust1 (fst q) (snd q) st"] by (simp add: split_def)
  qed simp
  then show "cache_inv (cache_of m cs) \<Longrightarrow> ?thesis" by (simp add: busts_def)
qed

lemma busts_fresh:
  assumes "fresh_for fetch (cache_of m cs)"
    and "\<And>k. fetch' k \<noteq> fetch k \<Longrightarrow> \<exists>(m', p)\<in>set ps. m' = m \<and> startswith k p"
  shows "fresh_for fetch' (cache_of m (snd (busts ps cs)))"
  unfolding fresh_for_def
proof (intro conjI allI impI)
  show "cache_inv (cache_of m (snd (busts ps cs)))"
    using assms(1) by (auto simp: fresh_for_def intro: cache_inv_busts)
next
  fix t k v assume "cache_lookup (cache_of m (snd (busts ps cs))) t k = Some v"
  then have "\<not> (\<exists>(m', p)\<in>set ps. m' = m \<and> startswith k p)" "cache_lookup (cache_of m cs) t k = Some v"
    by (auto simp only: busts_lookup split: if_splits)
  then show "v = fetch' k" using assms(1) assms(2)[of k] unfolding fresh_for_def by metis
qed

section \<open>Threads racing in get_or_set\<close>

text \<open>The program counter of one call of \<open>get_or_set\<close>: before the first lookup, after its miss,
  holding a reference to the per-key lock and waiting for it, inside the lock before the second
  lookup, inside the lock with the producer running, returned.\<close>

datatype pc = AtStart | AtMissed | AtWait nat | AtLocked nat | AtProduce nat | AtDone

fun lock_ref :: "pc \<Rightarrow> nat option" where
  "lock_ref (AtWait l) = Some l"
| "lock_ref (AtLocked l) = Some l"
| "lock_ref (AtProduce l) = Some l"
| "lock_ref _ = None"

fun inside :: "pc \<Rightarrow> nat option" where
  "inside (AtLocked l) = Some l"
| "inside (AtProduce l) = Some l"
| "inside _ = None"

record 'v herd =
  hcache :: "'v ttl_cache"
  rebuild_locks :: "string \<Rightarrow> nat option"
  lock_owner :: "nat \<Rightarrow> nat option"
  next_lock :: nat
  calls :: "nat \<Rightarrow> string \<times> pc"

definition at_pc :: "'v herd \<Rightarrow> nat \<Rightarrow> string \<Rightarrow> pc \<Rightarrow> bool" where
  "at_pc s i k p \<longleftrightarrow> calls s i = (k, p)"

definition goto :: "nat \<Rightarrow> pc \<Rightarrow> 'v herd \<Rightarrow> 'v herd" where
  "goto i p s = s\<lparr>calls := (calls s)(i := (fst (calls s i), p))\<rparr>"

text \<open>The steps of thread \<open>i\<close>; the clock value of a step is free.  \<open>collected\<close> is the weak
  dictionary losing an entry no call refers to any more, \<open>other\<close> any operation of another thread on
  the cache (set, invalidate, clear, expiry).\<close>

inductive herd_step :: "'v herd \<Rightarrow> 'v herd \<Rightarrow> bool" where
  first_hit: "at_pc s i k AtStart \<Longrightarrow> cache_get now k (hcache s) = (Some v, c) \<Longrightarrow>
     herd_step s (goto i AtDone (s\<lparr>hcache := c\<rparr>))"
| first_miss: "at_pc s i k AtStart \<Longrightarrow> cache_get now k (hcache s) = (None, c) \<Longrightarrow>
     herd_step s (goto i AtMissed (s\<lparr>hcache := c\<rparr>))"
| use_lock: "at_pc s i k AtMissed \<Longrightarrow> rebuild_locks s k = Some l \<Longrightarrow>
     herd_step s (goto i (AtWait l) s)"
| make_lock: "at_pc s i k AtMissed \<Longrightarrow> rebuild_locks s k = None \<Longrightarrow> l = next_lock s \<Longrightarrow>
     herd_step s (goto i (AtWait l) (s\<lparr>rebuild_locks := (rebuild_locks s)(k \<mapsto> l),
       next_lock := Suc l\<rparr>))"
| acquire: "at_pc s i k (AtWait l) \<Longrightarrow> lock_owner s l = None \<Longrightarrow>
     herd_step s (goto i (AtLocked l) (s\<lparr>lock_owner := (lock_owner s)(l \<mapsto> i)\<rparr>))"
| second_hit: "at_pc s i k (AtLocked l) \<Longrightarrow> cache_get now k (hcache s) = (Some v, c) \<Longrightarrow>
     herd_step s (goto i AtDone (s\<lparr>hcache := c, lock_owner := (lock_owner s)(l := None)\<rparr>))"
| second_miss: "at_pc s i k (AtLocked l) \<Longrightarrow> cache_get now k (hcache s) = (None, c) \<Longrightarrow>
     herd_step s (goto i (AtProduce l) (s\<lparr>hcache := c\<rparr>))"
| produced: "at_pc s i k (AtProduce l) \<Longrightarrow>
     herd_step s (goto i AtDone (s\<lparr>hcache := cache_set now k v None (hcache s),
       lock_owner := (lock_owner s)(l := None)\<rparr>))"
| raised: "at_pc s i k (AtProduce l) \<Longrightarrow>
     herd_step s (goto i AtDone (s\<lparr>lock_owner := (lock_owner s)(l := None)\<rparr>))"
| collected: "(\<And>i l. rebuild_locks s k = Some l \<Longrightarrow> lock_ref (snd (calls s i)) \<noteq> Some l) \<Longrightarrow>
     herd_step s (s\<lparr>rebuild_locks := (rebuild_locks s)(k := None)\<rparr>)"
| other: "herd_step s (s\<lparr>hcache := cache_step x (hcache s)\<rparr>)"

inductive herd_reach :: "'v herd \<Rightarrow> 'v herd \<Rightarrow> bool" for s0 where
  reach_refl: "herd_reach s0 s0"
| reach_step: "herd_reach s0 s \<Longrightarrow> herd_step s s' \<Longrightarrow> herd_reach s0 s'"

definition herd_start :: "'v ttl_cache \<Rightarrow> (nat \<Rightarrow> string) \<Rightarrow> 'v herd" where
  "herd_start c keys = \<lparr>hcache = c, rebuild_locks = (\<lambda>k. None), lock_owner = (\<lambda>l. None), next_lock = 0,
     calls = (\<lambda>i. (keys i, AtStart))\<rparr>"

text \<open>What the lock protocol maintains: a call that refers to a lock refers to the one the weak
  dictionary holds for its key, two keys never share a lock, and a call inside a lock owns it.\<close>

definition herd_inv :: "'v herd \<Rightarrow> bool" where
  "herd_inv s \<longleftrightarrow>
     (\<forall>i l. lock_ref (snd (calls s i)) = Some l \<longrightarrow> rebuild_locks s (fst (calls s i)) = Some l) \<and>
     (\<forall>k k' l. rebuild_locks s k = Some l \<longrightarrow> rebuild_locks s k' = Some l \<longrightarrow> k = k') \<and>
     (\<forall>k l. rebuild_locks s k = Some l \<longrightarrow> l < next_lock s) \<and>
     (\<forall>i l. inside (snd (calls s i)) = Some l \<longrightarrow> lock_owner s l = Some i)"

lemma calls_goto [simp]: "calls (goto i p s) j = (if j = i then (fst (calls s i), p) else calls s j)"
  "rebuild_locks (goto i p s) = rebuild_locks s" "lock_owner (goto i p s) = lock_owner s"
  "next_lock (goto i p s) = next_lock s" "hcache (goto i p s) = hcache s"
  by (simp_all add: goto_def)

lemma herd_inv_start: "herd_inv (herd_start c keys)"
  by (simp add: herd_inv_def herd_start_def)

lemma herd_invD:
  assumes "herd_inv s"
  shows "lock_ref (snd (calls s i)) = Some l \<Longrightarrow> rebuild_locks s (fst (calls s i)) = Some l"
    and "rebuild_locks s k = Some l \<Longrightarrow> rebuild_locks s k' = Some l \<Longrightarrow> k = k'"
    and "rebuild_locks s k = Some l \<Longrightarrow> l < next_lock s"
    and "inside (snd (calls s i)) = Some l \<Longrightarrow> lock_owner s l = Some i"
  using assms unfolding herd_inv_def by blast+

lemma inside_ref: "inside p = Some l \<Longrightarrow> lock_ref p = Some l"
  by (cases p) auto

lemma herd_inv_cache [simp]: "herd_inv (s\<lparr>hcache := c\<rparr>) = herd_inv s"
  by (simp add: herd_inv_def)

lemma herd_inv_goto:
  assumes "herd_inv s" and "\<And>l. lock_ref p = Some l \<Longrightarrow> rebuild_locks s (fst (calls s i)) = Some l"
    and "\<And>l. inside p = Some l \<Longrightarrow> lock_owner s l = Some i"
  shows "herd_inv (goto i p s)"
  using assms unfolding herd_inv_def by auto

lemma herd_inv_leave:
  assumes i: "herd_inv s" and l: "inside (snd (calls s i)) = Some l"
  shows "herd_inv (goto i AtDone (s\<lparr>lock_owner := (lock_owner s)(l := None)\<rparr>))"
proof -
  have "inside (snd (calls s j)) \<noteq> Some l" if "j \<noteq> i" for j
    using herd_invD(4)[OF i, of j l] herd_invD(4)[OF i, of i l] l that by auto
  then show ?thesis using i unfolding herd_inv_def by auto
qed

lemma herd_inv_leave_cache:
  "herd_inv s \<Longrightarrow> inside (snd (calls s i)) = Some l \<Longrightarrow>
   herd_inv (goto i AtDone (s\<lparr>hcache := c, lock_owner := (lock_owner s)(l := None)\<rparr>))"
  using herd_inv_leave[of "s\<lparr>hcache := c\<rparr>" i l] by simp

lemma herd_step_inv: "herd_step s s' \<Longrightarrow> herd_inv s \<Longrightarrow> herd_inv s'"
proof (induction rule: herd_step.induct)
  case (use_lock s i k l)
  then show ?case unfolding herd_inv_def at_pc_def by auto
next
  case (make_lock s i k l)
  have new: "rebuild_locks s k' \<noteq> Some (next_lock s)" for k'
    using herd_invD(3)[OF make_lock(4), of k' "next_lock s"] by auto
  have old: "lock_ref (snd (calls s j)) = Some m \<Longrightarrow> rebuild_locks s (fst (calls s j)) = Some m" for j m
    using herd_invD(1)[OF make_lock(4)] .
  show ?case using make_lock new old unfolding herd_inv_def at_pc_def
    by (auto simp: less_Suc_eq split: if_splits)
next
  case (acquire s i k l)
  have "inside (snd (calls s j)) \<noteq> Some l" for j
    using herd_invD(4)[OF acquire(3), of j l] acquire(2) by auto
  moreover have "rebuild_locks s k = Some l"
    using herd_invD(1)[OF acquire(3), of i l] acquire(1) by (simp add: at_pc_def)
  ultimately show ?case using acquire unfolding herd_inv_def at_pc_def by auto
next
  case (collected s k)
  let ?s = "s\<lparr>rebuild_locks := (rebuild_locks s)(k := None)\<rparr>"
  note i = herd_invD[OF collected(2)]
  have "rebuild_locks ?s (fst (calls ?s i)) = Some l" if "lock_ref (snd (calls ?s i)) = Some l" for i l
    using collected(1)[of l i] i(1)[of i l] that by auto
  moreover have "\<forall>k1 k2 l. rebuild_locks ?s k1 = Some l \<longrightarrow> rebuild_locks ?s k2 = Some l \<longrightarrow> k1 = k2"
    using i(2) by simp
  moreover have "\<forall>k l. rebuild_locks ?s k = Some l \<longrightarrow> l < next_lock ?s" using i(3) by simp
  moreover have "\<forall>i l. inside (snd (calls ?s i)) = Some l \<longrightarrow> lock_owner ?s l = Some i" using i(4) by simp
  ultimately show ?case unfolding herd_inv_def by blast
next
  case (second_miss s i k l now c)
  then show ?case using herd_invD(4)[OF second_miss(3), of i l] herd_invD(1)[OF second_miss(3), of i l]
    by (intro herd_inv_goto) (auto simp: at_pc_def)
next
  case (second_hit s i k l now v c)
  then show ?case by (intro herd_inv_leave_cache) (simp_all add: at_pc_def)
next
  case (produced s i k l v)
  then show ?case by (intro herd_inv_leave_cache) (simp_all add: at_pc_def)
next
  case (raised s i k l)
  then show ?case by (intro herd_inv_leave) (simp_all add: at_pc_def)
qed (auto intro!: herd_inv_goto)

lemma herd_reach_inv: "herd_reach s0 s \<Longrightarrow> herd_inv s0 \<Longrightarrow> herd_inv s"
  by (induction rule: herd_reach.induct) (auto intro: herd_step_inv)

section \<open>Properties\<close>

lemma cache_max_step: "max_entries (cache_step x c) = max_entries c"
proof (cases x)
  case (OGetOrSet t1 t2 t3 k p)
  then show ?thesis
    by (auto simp: get_or_set_alt cache_put_def cache_set_def Let_def split: option.split sum.split)
qed (auto simp: snd_cache_get cache_set_def cache_invalidate_def cache_clear_def Let_def)

lemma cache_max_run: "max_entries (run cache_step xs c) = max_entries c"
  by (induction xs arbitrary: c) (simp_all add: cache_max_step)

text \<open>Whatever sequence of gets, sets, read-throughs, invalidations and clears a TTLCache
  executes, it never holds more than \<open>max_entries\<close> entries and never holds a key twice.\<close>

theorem cache_run_bounded:
  "length (store (run cache_step ops (new_cache t n))) \<le> n \<and>
   distinct (map fst (store (run cache_step ops (new_cache t n))))"
  using csys.inv_run[OF cache_inv_new, of ops t n] cache_max_run[of ops "new_cache t n"]
  by (simp add: cache_inv_def new_cache_def)

text \<open>A value set in a cache with room for at least one entry is what a get of that key
  returns until its time to live (the call's own, else the cache's) has passed, and from then on
  the get misses; the entries that had to make room are the least recently used ones.\<close>

theorem cache_set_then_get:
  assumes "0 < max_entries c"
  shows "fst (cache_get now' k (cache_set now k v t c)) =
      (if now' < now + (case t of Some x \<Rightarrow> x | None \<Rightarrow> ttl c) then Some v else None) \<and>
    (\<exists>evicted. evicted @ store (cache_set now k v t c) =
      AList.delete k (store c) @ [(k, now + (case t of Some x \<Rightarrow> x | None \<Rightarrow> ttl c), v)])"
proof (intro conjI)
  let ?e = "now + (case t of Some x \<Rightarrow> x | None \<Rightarrow> ttl c)"
  let ?xs = "AList.delete k (store c) @ [(k, ?e, v)]"
  have st: "store (cache_set now k v t c) = drop (length ?xs - max_entries c) ?xs"
    by (simp add: cache_set_def Let_def popitems_drop)
  show "\<exists>evicted. evicted @ store (cache_set now k v t c) = ?xs"
    unfolding st by (rule exI, rule append_take_drop_id)
  have "k \<notin> fst ` set (AList.delete k (store c))" by (auto simp: delete_filter)
  then have "k \<notin> fst ` set (drop m (AList.delete k (store c)))" for m
    by (meson image_mono set_drop_subset subsetD)
  then have "map_of (drop m (AList.delete k (store c))) k = None" for m
    by (simp add: map_of_eq_None_iff)
  moreover have "drop (length ?xs - max_entries c) ?xs
      = drop (length ?xs - max_entries c) (AList.delete k (store c)) @ [(k, ?e, v)]"
    using assms by simp
  ultimately have "map_of (store (cache_set now k v t c)) k = Some (?e, v)"
    unfolding st by (simp add: map_add_def)
  then show "fst (cache_get now' k (cache_set now k v t c)) = (if now' < ?e then Some v else None)"
    by (auto simp: get_value cache_lookup_def)
qed

theorem cache_set_then_get_witness:
  "fst (cache_get 4 ''k'' (cache_set 0 ''k'' (7::int) None (new_cache 5 1))) = Some 7 \<and>
   fst (cache_get 5 ''k'' (cache_set 0 ''k'' (7::int) None (new_cache 5 1))) = None"
  using cache_set_then_get[of "new_cache 5 1" 4 "''k''" 0 "7::int" None]
    cache_set_then_get[of "new_cache 5 1" 5 "''k''" 0 "7::int" None]
  by (simp add: new_cache_def)

text \<open>C7: At every moment of every interleaving of \<open>get_or_set\<close> calls (any number of threads, any
  other cache traffic, entries expiring, lock entries collected from the weak dictionary), at most
  one call is running the producer of a given key: the per-key lock prevents the thundering herd.\<close>

theorem get_or_set_single_flight:
  assumes "herd_reach (herd_start c keys) s"
  shows "\<exists>j. {i. \<exists>l. at_pc s i k (AtProduce l)} \<subseteq> {j}"
proof -
  have i: "herd_inv s" using assms herd_inv_start herd_reach_inv by blast
  have "i = j" if "at_pc s i k (AtProduce l)" "at_pc s j k (AtProduce l')" for i j l l'
  proof -
    have "rebuild_locks s k = Some l" "rebuild_locks s k = Some l'"
      using herd_invD(1)[OF i, of i l] herd_invD(1)[OF i, of j l'] that by (auto simp: at_pc_def)
    then show "i = j"
      using herd_invD(4)[OF i, of i l] herd_invD(4)[OF i, of j l'] that by (auto simp: at_pc_def)
  qed
  then show ?thesis by blast
qed

theorem get_or_set_single_flight_witness:
  "\<exists>s. herd_reach (herd_start (new_cache 5 3 :: int ttl_cache) (\<lambda>i. ''k'')) s \<and>
     at_pc s 0 ''k'' (AtProduce 0) \<and> (\<exists>j. {i. \<exists>l. at_pc s i ''k'' (AtProduce l)} \<subseteq> {j})"
proof -
  let ?s0 = "herd_start (new_cache 5 3 :: int ttl_cache) (\<lambda>i. ''k'')"
  let ?c = "(new_cache 5 3 :: int ttl_cache)\<lparr>misses := 1\<rparr>"
  let ?s1 = "goto 0 AtMissed (?s0\<lparr>hcache := ?c\<rparr>)"
  let ?s2 = "goto 0 (AtWait 0) (?s1\<lparr>rebuild_locks := (rebuild_locks ?s1)(''k'' \<mapsto> 0), next_lock := Suc 0\<rparr>)"
  let ?s3 = "goto 0 (AtLocked 0) (?s2\<lparr>lock_owner := (lock_owner ?s2)(0 \<mapsto> 0)\<rparr>)"
  let ?s4 = "goto 0 (AtProduce 0) (?s3\<lparr>hcache := ?c\<lparr>misses := 2\<rparr>\<rparr>)"
  have "herd_step ?s0 ?s1" by (rule first_miss[where now = 0 and k = "''k''"])
      (simp_all add: at_pc_def herd_start_def cache_get_def new_cache_def)
  moreover have "herd_step ?s1 ?s2" by (rule make_lock[where k = "''k''"])
      (simp_all add: at_pc_def herd_start_def)
  moreover have "herd_step ?s2 ?s3" by (rule acquire[where k = "''k''"])
      (simp_all add: at_pc_def herd_start_def)
  moreover have "herd_step ?s3 ?s4" by (rule second_miss[where now = 0 and k = "''k''"])
      (simp_all add: at_pc_def herd_start_def cache_get_def new_cache_def)
  ultimately have r: "herd_reach ?s0 ?s4"
    by (meson reach_refl reach_step)
  moreover have "at_pc ?s4 0 ''k'' (AtProduce 0)" by (simp add: at_pc_def herd_start_def)
  ultimately show ?thesis using get_or_set_single_flight[OF r, of "''k''"] by blast
qed

lemma api_lookup_busts:
  "cache_lookup (api_cache (snd (busts ps cs))) t k =
    (if \<exists>(m', p)\<in>set ps. m' = Api \<and> startswith k p then None else cache_lookup (api_cache cs) t k)"
  using busts_lookup[of Api ps cs t k] by simp

text \<open>After a product write that changes, for the REST cache, only answers stored under keys that
  start with \<open>product\<close> (lists \<open>products:...\<close> and details \<open>product:<id>\<close>),
  \<open>cache_bust_products\<close> leaves the cache coherent with the new data, and the next read-through
  of any key answers what the database answers now.\<close>

theorem product_write_then_read:
  assumes "fresh_for fetch (api_cache cs)"
    and "\<And>k. fetch' k \<noteq> fetch k \<Longrightarrow> startswith k ''product''"
  shows "fst (cache_get_or_set t1 t2 t3 k (Ok (fetch' k)) (api_cache (snd (cache_bust_products cs))))
      = Ok (fetch' k)"
proof -
  have "fresh_for fetch' (api_cache (snd (cache_bust_products cs)))"
    using busts_fresh[of fetch Api cs fetch', folded cache_bust_products_def] assms
    unfolding cache_bust_products_def by fastforce
  then show ?thesis by (rule get_or_set_fresh(1))
qed

theorem product_write_then_read_witness:
  "fst (cache_get_or_set 1 2 3 ''product:7'' (Ok (5::int))
      (api_cache (snd (cache_bust_products (named_caches\<lparr>api_cache :=
         cache_set 0 ''product:7'' 4 None (new_cache 120 100)\<rparr>))))) = Ok 5"
proof -
  let ?c = "cache_set 0 ''product:7'' (4::int) None (new_cache 120 100)"
  have "cache_inv ?c" by (intro cache_inv_set cache_inv_new)
  moreover have "cache_lookup ?c t k = Some v \<Longrightarrow> v = 4" for t k v
    using lookup_put_cache[OF cache_inv_new, of 0 "''product:7''" "4::int" 120 100 t k v]
    by (auto simp: cache_put_def cache_lookup_def new_cache_def split: if_splits)
  ultimately have "fresh_for (\<lambda>k. 4) (api_cache (named_caches\<lparr>api_cache := ?c\<rparr>))"
    by (auto simp: fresh_for_def)
  from product_write_then_read[OF this,
      of "\<lambda>k. if k = ''product:7'' then 5 else 4" 1 2 3 "''product:7''"]
  show ?thesis by (simp split: if_splits)
qed

text \<open>A supplier write leaves stale supplier details in the REST cache.  \<open>get_supplier\<close>
  stores them under \<open>supplier:<id>\<close>, which the prefix \<open>suppliers\<close> of
  \<open>cache_bust_suppliers\<close> does not cover: the entry survives with its old value, while the list
  entries (\<open>suppliers:...\<close>) and the page cache are emptied as intended.\<close>

theorem bust_suppliers_leaves_details:
  "cache_lookup (api_cache (snd (cache_bust_suppliers cs))) t (''supplier:'' @ i)
      = cache_lookup (api_cache cs) t (''supplier:'' @ i) \<and>
   cache_lookup (api_cache (snd (cache_bust_suppliers cs))) t (''suppliers:'' @ x) = None \<and>
   cache_lookup (suppliers_cache (snd (cache_bust_suppliers cs))) t y = None"
  using busts_lookup[of Suppliers "[(Suppliers, ''''), (Reports, ''reports:''), (Api, ''suppliers''),
     (Landing, '''')]" cs t y]
  by (simp add: cache_bust_suppliers_def api_lookup_busts)

text \<open>A movement changes a product's stock, and \<open>cache_bust_movements\<close> empties the product
  pages, the dashboard and the counters; but the REST cache keeps its product lists and details, so
  the API serves the old stock until the entry expires.\<close>

theorem bust_movements_leaves_api_products:
  "cache_lookup (api_cache (snd (cache_bust_movements cs))) t (''product'' @ i)
      = cache_lookup (api_cache cs) t (''product'' @ i) \<and>
   cache_lookup (products_cache (snd (cache_bust_movements cs))) t x = None \<and>
   cache_lookup (global_cache (snd (cache_bust_movements cs))) t y = None \<and>
   fst (cache_bust_movements cs) + all_entries (snd (cache_bust_movements cs)) = all_entries cs"
  using busts_lookup[of Products "[(Products, ''''), (Dashboard, ''dashboard:''),
     (Reports, ''reports:''), (Global, ''''), (Api, ''movements'')]" cs t x]
    busts_lookup[of Global "[(Products, ''''), (Dashboard, ''dashboard:''),
     (Reports, ''reports:''), (Global, ''''), (Api, ''movements'')]" cs t y]
  by (simp add: cache_bust_movements_def api_lookup_busts busts_count)

lemma sort_key_perm:
  assumes "distinct (map f xs)" and "mset xs = mset ys" shows "sort_key f xs = sort_key f ys"
proof (rule properties_for_sort_key)
  show "mset (sort_key f ys) = mset xs" using assms by simp
  show "sorted (map f (sort_key f ys))" by simp
  fix k assume "k \<in> set (sort_key f ys)"
  have d: "distinct (map f ys)" using assms by (metis mset_eq_imp_distinct_iff mset_map)
  have one: "distinct (map f zs) \<Longrightarrow> k \<in> set zs \<Longrightarrow> filter (\<lambda>x. f k = f x) zs = [k]" for zs
  proof (induction zs)
    case (Cons z zs)
    then show ?case by (auto simp: filter_empty_conv image_iff)
  qed simp
  have "k \<in> set ys" "k \<in> set xs" using \<open>k \<in> _\<close> assms(2) by (auto dest: mset_eq_setD)
  moreover have "distinct (map f (sort_key f ys))"
    using d by (metis mset_eq_imp_distinct_iff mset_map mset_sort)
  ultimately show "filter (\<lambda>x. f k = f x) (sort_key f ys) = filter (\<lambda>x. f k = f x) xs"
    using one[of xs] one[of "sort_key f ys"] assms(1) \<open>k \<in> set (sort_key f ys)\<close> by simp
qed

text \<open>The key of a set of filters does not depend on the order in which they are given, and with
  a \<open>prefix\<close> filter \<open>p\<close> it starts with \<open>p:\<close>, so that an invalidation of \<open>p:\<close> drops the entry.\<close>

theorem make_key_canonical:
  assumes "distinct (map fst kwargs)" and "mset kwargs = mset kwargs'"
  shows "make_key kwargs = make_key kwargs' \<and>
    (map_of kwargs ''prefix'' = Some (KStr p) \<longrightarrow> p \<noteq> [] \<longrightarrow>
      cache_lookup (cache_drop (p @ '':'') c) t (make_key kwargs) = None)"
proof
  have d: "distinct (map fst (AList.delete ''prefix'' kwargs))"
    using assms(1) by (simp add: delete_filter distinct_map_filter)
  have m: "mset (AList.delete ''prefix'' kwargs) = mset (AList.delete ''prefix'' kwargs')"
    using assms(2) by (simp add: delete_filter mset_filter)
  have "map_of kwargs = map_of kwargs'"
    using assms by (metis map_of_inject_set mset_eq_imp_distinct_iff mset_eq_setD mset_map)
  then show "make_key kwargs = make_key kwargs'"
    by (simp add: make_key_def sort_key_perm[OF d m])
qed (auto simp: make_key_def Let_def lookup_drop_cache startswith_append)

theorem make_key_canonical_witness:
  "make_key [(''q'', KStr ''nut''), (''prefix'', KStr ''products''), (''page'', KInt 2)]
     = make_key [(''page'', KInt 2), (''q'', KStr ''nut''), (''prefix'', KStr ''products'')] \<and>
   make_key [(''q'', KStr ''nut''), (''prefix'', KStr ''products''), (''page'', KInt 2)]
     = ''products:page=2|q=nut''"
  using make_key_canonical[of "[(''q'', KStr ''nut''), (''prefix'', KStr ''products''), (''page'', KInt 2)]"
      "[(''page'', KInt 2), (''q'', KStr ''nut''), (''prefix'', KStr ''products'')]"]
  by (simp add: make_key_def int_str_def nat_str.simps)

end
