(* ===== verification/Helpers.thy ===== *)
theory Helpers
  imports Prelude
begin

text \<open>The helper functions (\<open>app/utils/helpers.py\<close>), the EOQ service
  (\<open>app/services/eoq_service.py\<close>), the validators (\<open>app/security/validators.py\<close>) and the
  recognition of database errors (\<open>app/security/dberrors.py\<close>).  The regular expressions are the
  predicates \<open>sku_ok\<close>, \<open>username_ok\<close> and \<open>email_ok\<close> on the stripped text, which the lemmas of
  this theory relate to the patterns' own grammar.\<close>

section \<open>JSON\<close>

definition iso_date :: "nat \<Rightarrow> nat \<Rightarrow> nat \<Rightarrow> string" where
  "iso_date y m d = zfill 4 (nat_str y) @ ''-'' @ zfill 2 (nat_str m) @ ''-'' @ zfill 2 (nat_str d)"

definition iso_offset :: "int \<Rightarrow> string" where
  "iso_offset off = (let a = nat \<bar>off\<bar> in (if off < 0 then ''-'' else ''+'')
     @ zfill 2 (nat_str (a div 60)) @ '':'' @ zfill 2 (nat_str (a mod 60)))"

definition iso_datetime ::
  "nat \<Rightarrow> nat \<Rightarrow> nat \<Rightarrow> nat \<Rightarrow> nat \<Rightarrow> nat \<Rightarrow> nat \<Rightarrow> int option \<Rightarrow> string" where
  "iso_datetime y mo d h mi s us tz = iso_date y mo d @ ''T'' @ zfill 2 (nat_str h) @ '':''
     @ zfill 2 (nat_str mi) @ '':'' @ zfill 2 (nat_str s)
     @ (if us = 0 then [] else ''.'' @ zfill 6 (nat_str us))
     @ (case tz of None \<Rightarrow> [] | Some z \<Rightarrow> iso_offset z)"

fun json_safe :: "pyval \<Rightarrow> pyval" where
  "json_safe (PDecimal x) = PFloat (Fin x)"
| "json_safe (PDate y m d) = PStr (iso_date y m d)"
| "json_safe (PDateTime y mo d h mi s us tz) = PStr (iso_datetime y mo d h mi s us tz)"
| "json_safe (PDict kvs) = PDict (map (\<lambda>(k, v). (k, json_safe v)) kvs)"
| "json_safe (PList vs) = PList (map json_safe vs)"
| "json_safe (PTuple vs) = PList (map json_safe vs)"
| "json_safe v = v"

fun is_json :: "pyval \<Rightarrow> bool" where
  "is_json PNone = True"
| "is_json (PBool b) = True"
| "is_json (PInt i) = True"
| "is_json (PFloat x) = True"
| "is_json (PStr s) = True"
| "is_json (PDecimal x) = False"
| "is_json (PDate y m d) = False"
| "is_json (PDateTime y mo d h mi s us tz) = False"
| "is_json (PList vs) = list_all is_json vs"
| "is_json (PTuple vs) = False"
| "is_json (PDict kvs) = list_all (\<lambda>(k, v). is_json v) kvs"

lemma is_json_json_safe: "is_json (json_safe v)"
  by (induction v rule: json_safe.induct) (auto simp: list_all_iff)

lemma json_safe_id: "is_json v \<Longrightarrow> json_safe v = v"
proof (induction v rule: json_safe.induct)
  case (4 kvs) then show ?case by (fastforce simp: list_all_iff intro: map_idI)
next
  case (5 vs) then show ?case by (auto simp: list_all_iff intro: map_idI)
qed auto

text \<open>The envelope functions return the pair of the JSON body and the status, not a response object.
  \<open>extra\<close> keys overwrite envelope keys, as \<open>payload.update(extra)\<close> does.\<close>

definition dict_update :: "payload \<Rightarrow> payload \<Rightarrow> payload" where
  "dict_update d e = fold (\<lambda>(k, v) d. dput k v d) e d"

definition api_response :: "pyval \<Rightarrow> int \<Rightarrow> string option \<Rightarrow> payload \<Rightarrow> payload \<times> int" where
  "api_response data status message extra =
     (let p = [(''success'', PBool (200 \<le> status \<and> status < 400)), (''data'', json_safe data)];
          p = (case message of Some m \<Rightarrow> if m = [] then p else dput ''message'' (PStr m) p | None \<Rightarrow> p)
      in (dict_update p extra, status))"

definition api_error :: "string \<Rightarrow> string \<Rightarrow> int \<Rightarrow> int option \<Rightarrow> payload \<times> int" where
  "api_error code message status http_status =
     ([(''success'', PBool False), (''error'', PDict [(''code'', PStr code), (''message'', PStr message)])],
      (case http_status of Some h \<Rightarrow> if h = 0 then status else h | None \<Rightarrow> status))"

section \<open>Money, EOQ, stock status\<close>

text \<open>The prefix is the rupee sign (three UTF-8 bytes) and a space.  \<open>float(value or 0)\<close> falls back to
  0 on a TypeError or ValueError and lets an OverflowError through; \<open>int(v)\<close> of inf or nan raises.\<close>

definition rupee :: string where "rupee = [CHR 0xE2, CHR 0x82, CHR 0xB9, CHR '' '']"

definition format_money_display :: "pyval \<Rightarrow> string result" where
  "format_money_display value =
     (let r = (case to_float (py_or value (PInt 0)) of
           Inl (TypeError _) \<Rightarrow> Ok (Fin 0) | Inl (ValueError _) \<Rightarrow> Ok (Fin 0)
         | Inl e \<Rightarrow> Err e | Inr x \<Rightarrow> Ok x)
      in bindE r (\<lambda>v. case v of
           NaN \<Rightarrow> Err (ValueError ''cannot convert float NaN to integer'')
         | PInf \<Rightarrow> Ok (rupee @ ''infCr'')
         | NInf \<Rightarrow> Err (OverflowError ''cannot convert float infinity to integer'')
         | Fin x \<Rightarrow> Ok (rupee @
             (if 1000000 \<le> x then fmt_fixed 2 (x / 1000000) @ ''Cr''
              else if 100000 \<le> x then fmt_fixed 1 (x / 100000) @ ''L''
              else if 1000 \<le> x then fmt_fixed 1 (x / 1000) @ ''K''
              else int_str (trunc_int x)))))"

definition calculate_eoq :: "real \<Rightarrow> real \<Rightarrow> real \<Rightarrow> real option" where
  "calculate_eoq demand ordering_cost holding_cost =
     (if demand = 0 \<or> ordering_cost = 0 \<or> holding_cost = 0 then None
      else if demand \<le> 0 \<or> ordering_cost < 0 \<or> holding_cost \<le> 0 then None
      else Some (sqrt ((2 * demand * ordering_cost) / holding_cost)))"

definition calculate_total_cost :: "real \<Rightarrow> real \<Rightarrow> real \<Rightarrow> real option \<Rightarrow> real option" where
  "calculate_total_cost demand ordering_cost holding_cost eoq =
     (case eoq of None \<Rightarrow> None
      | Some q \<Rightarrow> if q = 0 \<or> q \<le> 0 \<or> demand \<le> 0 then None
          else (let orders = demand / q; order_cost = orders * ordering_cost;
                    hold_cost = (q / 2) * holding_cost in Some (order_cost + hold_cost)))"

definition calculate_reorder_point :: "real \<Rightarrow> int \<Rightarrow> real \<Rightarrow> real" where
  "calculate_reorder_point avg_daily_demand lead_days safety_stock =
     avg_daily_demand * of_int lead_days + safety_stock"

definition stock_status :: "int \<Rightarrow> int \<Rightarrow> real \<Rightarrow> real \<Rightarrow> string \<times> string" where
  "stock_status stock reorder_point low_pct critical_pct =
     (if stock \<le> 0 then (''critical'', ''Critical'')
      else if reorder_point \<le> 0 then (''good'', ''Healthy'')
      else (let critical_line = of_int reorder_point * (critical_pct / 100);
                low_line = of_int reorder_point * (low_pct / 100) in
        if of_int stock \<le> critical_line then (''critical'', ''Critical'')
        else if of_int stock \<le> low_line then (''warning'', ''Low stock'')
        else if stock \<le> reorder_point then (''warning'', ''Monitor'')
        else (''good'', ''Healthy'')))"

section \<open>The EOQ service\<close>

record product_costs =
  pc_sku :: string
  pc_name :: string
  pc_demand :: real
  pc_ordering :: real
  pc_holding :: real
  pc_price :: "real option"
  pc_stock :: "int option"
  pc_rop :: "int option"

record eoq_row =
  er_sku :: string
  er_name :: string
  er_demand :: real
  er_ordering :: real
  er_holding :: real
  er_price :: real
  er_stock :: int
  er_rop :: int
  er_eoq :: int
  er_total :: "real option"

definition eoq_row_of :: "product_costs \<Rightarrow> eoq_row option" where
  "eoq_row_of p = (case calculate_eoq (pc_demand p) (pc_ordering p) (pc_holding p) of
      None \<Rightarrow> None
    | Some q \<Rightarrow> if q = 0 then None else
        (let total = calculate_total_cost (pc_demand p) (pc_ordering p) (pc_holding p) (Some q) in
         Some \<lparr>er_sku = pc_sku p, er_name = pc_name p, er_demand = pc_demand p,
           er_ordering = pc_ordering p, er_holding = pc_holding p,
           er_price = (case pc_price p of Some x \<Rightarrow> x | None \<Rightarrow> 0),
           er_stock = (case pc_stock p of Some x \<Rightarrow> x | None \<Rightarrow> 0),
           er_rop = (case pc_rop p of Some x \<Rightarrow> x | None \<Rightarrow> 0),
           er_eoq = round_even q,
           er_total = (case total of Some t \<Rightarrow> if t = 0 then None else Some (round_to 2 t) | None \<Rightarrow> None)\<rparr>))"

text \<open>The argument is the products table in the order of the query (\<open>ORDER BY sku\<close>).\<close>

definition per_product_table :: "product_costs list \<Rightarrow> eoq_row list" where
  "per_product_table products =
     List.map_filter eoq_row_of
       (filter (\<lambda>p. 0 < pc_demand p \<and> 0 \<le> pc_ordering p \<and> 0 < pc_holding p) products)"

definition sensitivity_cell :: "real \<Rightarrow> real \<Rightarrow> real \<Rightarrow> real" where
  "sensitivity_cell d oc holding_cost =
     (let eoq = (case calculate_eoq d oc holding_cost of Some q \<Rightarrow> q | None \<Rightarrow> 0);
          orders = (if eoq \<noteq> 0 then d / eoq else 0)
      in orders * oc + (eoq / 2) * holding_cost)"

definition sensitivity_surface :: "real \<Rightarrow> real \<Rightarrow> real \<Rightarrow> real list \<times> real list \<times> real list list" where
  "sensitivity_surface demand ordering_cost holding_cost =
     (if demand = 0 \<or> demand \<le> 0 then ([], [], [])
      else (let demands = map (\<lambda>f. demand * f) [1 / 2, 3 / 4, 1, 5 / 4, 3 / 2];
                orderings = map (\<lambda>f. ordering_cost * f) [1 / 2, 1, 3 / 2, 2]
            in (orderings, demands,
                map (\<lambda>d. map (\<lambda>oc. sensitivity_cell d oc holding_cost) orderings) demands)))"

lemma eoq_value:
  "0 < d \<Longrightarrow> 0 < s \<Longrightarrow> 0 < h \<Longrightarrow> calculate_eoq d s h = Some (sqrt (2 * d * s / h))"
  by (simp add: calculate_eoq_def)

lemma total_cost_value:
  "0 < d \<Longrightarrow> 0 < q \<Longrightarrow> calculate_total_cost d s h (Some q) = Some (d / q * s + q / 2 * h)"
  by (simp add: calculate_total_cost_def)

lemma cost_at_eoq:
  fixes d s h :: real
  assumes "0 < d" "0 < s" "0 < h"
  defines "q \<equiv> sqrt (2 * d * s / h)"
  shows "d / q * s = q / 2 * h" and "0 < q"
proof -
  show q: "0 < q" using assms by (simp add: q_def)
  have "q * q = 2 * d * s / h" using assms by (simp add: q_def)
  then have "q * q * h = 2 * d * s" using assms by (simp add: field_simps)
  then show "d / q * s = q / 2 * h" using q by (simp add: field_simps)
qed

text \<open>Arithmetic-geometric mean, in the form of the EOQ argument.\<close>

lemma cost_lower_bound:
  fixes d s h q r :: real
  assumes "0 < d" "0 < s" "0 < h" "0 < q" "0 < r" and "d / q * s = q / 2 * h"
  shows "d / q * s + q / 2 * h \<le> d / r * s + r / 2 * h"
proof -
  have ds: "d * s = q * q / 2 * h" using assms(4,6) by (simp add: field_simps)
  have "d / r * s + r / 2 * h - q * h = h / (2 * r) * (q - r)\<^sup>2"
    using assms(5) by (simp add: field_simps power2_eq_square ds)
  moreover have "0 \<le> h / (2 * r) * (q - r)\<^sup>2" using assms(3,5) by simp
  moreover have "d / q * s + q / 2 * h = q * h" unfolding assms(6) by simp
  ultimately show ?thesis by linarith
qed

lemma sensitivity_cell_value:
  assumes "0 < d" "0 \<le> oc" "0 < h"
  shows "sensitivity_cell d oc h = sqrt (2 * d * oc * h)"
proof (cases "oc = 0")
  case True then show ?thesis by (simp add: sensitivity_cell_def calculate_eoq_def)
next
  case False
  with assms have oc: "0 < oc" by simp
  let ?q = "sqrt (2 * d * oc / h)"
  have e: "d / ?q * oc = ?q / 2 * h" and q: "0 < ?q" using cost_at_eoq[OF assms(1) oc assms(3)] by simp_all
  have "sensitivity_cell d oc h = d / ?q * oc + ?q / 2 * h"
    unfolding sensitivity_cell_def eoq_value[OF assms(1) oc assms(3)] Let_def
    using q by (simp only: option.case less_imp_neq[symmetric] if_True not_False_eq_True)
  also have "\<dots> = ?q / 2 * h + ?q / 2 * h" unfolding e ..
  also have "\<dots> = ?q * sqrt (h * h)" using assms(3) by simp
  also have "\<dots> = sqrt (2 * d * oc / h * (h * h))" by (simp only: real_sqrt_mult)
  also have "2 * d * oc / h * (h * h) = 2 * d * oc * h" using assms(3) by simp
  finally show ?thesis .
qed

section \<open>Recognition of database errors\<close>

text \<open>The driver prefixes the server's message with \<open>ERROR:  \<close>; only the first line counts.\<close>

fun first_line :: "string \<Rightarrow> string" where
  "first_line [] = []"
| "first_line (c # cs) = (if code_of c = 10 \<or> code_of c = 13 \<or> code_of c = 11 \<or> code_of c = 12
     \<or> (28 \<le> code_of c \<and> code_of c \<le> 30) then [] else c # first_line cs)"

definition db_error_message :: "string option \<Rightarrow> string \<Rightarrow> string" where
  "db_error_message pgerror str_exc =
     (let text = (case pgerror of Some (c # cs) \<Rightarrow> c # cs | _ \<Rightarrow> str_exc);
          first = first_line (strip text)
      in if startswith first ''ERROR:'' then lstrip (drop 6 first) else first)"

fun is_unique_violation :: "pyexc \<Rightarrow> bool" where
  "is_unique_violation (DbUnique _) = True"
| "is_unique_violation _ = False"

text \<open>A \<open>RAISE EXCEPTION\<close> of a stored procedure carries the bare message in the model.\<close>

fun is_guard_error :: "pyexc \<Rightarrow> string list \<Rightarrow> bool" where
  "is_guard_error (DbRaise m) prefixes =
     (\<exists>p\<in>set prefixes. startswith (db_error_message (Some (''ERROR:  '' @ m)) []) p)"
| "is_guard_error _ prefixes = False"

lemma first_line_id: "\<forall>c\<in>set s. 32 \<le> code_of c \<Longrightarrow> first_line s = s"
  by (induction s) auto

lemma first_line_append: "\<forall>c\<in>set s. 32 \<le> code_of c \<Longrightarrow> first_line (s @ t) = s @ first_line t"
  by (induction s) auto

lemma db_error_message_raise:
  assumes "m \<noteq> []" "\<not> is_space (hd m)" "\<not> is_space (last m)" "\<forall>c\<in>set m. 32 \<le> code_of c"
  shows "db_error_message (Some (''ERROR:  '' @ m)) [] = m"
proof -
  have "strip (''ERROR:  '' @ m) = ''ERROR:  '' @ m"
    by (rule strip_fix) (use assms in \<open>auto simp: is_space_def\<close>)
  then have "db_error_message (Some (''ERROR:  '' @ m)) [] = lstrip (drop 6 (first_line (''ERROR:  '' @ m)))"
    by (simp add: db_error_message_def Let_def)
  also have "first_line (''ERROR:  '' @ m) = ''ERROR:  '' @ m"
    by (rule first_line_id) (use assms(4) in auto)
  also have "lstrip (drop 6 (''ERROR:  '' @ m)) = m"
    using lstrip_fix[of m] assms(1,2) by (simp add: lstrip_def is_space_def)
  finally show ?thesis .
qed

lemma int_str_chars: "c \<in> set (int_str i) \<Longrightarrow> 32 \<le> code_of c"
  using nat_str_digits[of c] by (auto simp: int_str_def is_digit_def split: if_splits dest!: nat_str_digits)

lemma int_str_last: "int_str i \<noteq> []" "\<not> is_space (last (int_str i))" "\<not> is_space (hd (int_str i))"
  using nat_str_hd_last is_digit_not by (auto simp: int_str_def is_space_def)

section \<open>Validators\<close>

definition sku_char :: "char \<Rightarrow> bool" where
  "sku_char c = (is_upper c \<or> is_digit c \<or> c = CHR ''-'' \<or> c = CHR ''_'')"

definition sku_ok :: "string \<Rightarrow> bool" where
  "sku_ok s = (case s of [] \<Rightarrow> False | c # cs \<Rightarrow> (is_upper c \<or> is_digit c) \<and>
     1 \<le> length cs \<and> length cs \<le> 49 \<and> list_all sku_char cs)"

definition username_char :: "char \<Rightarrow> bool" where
  "username_char c = (is_letter c \<or> is_digit c \<or> c = CHR ''_'' \<or> c = CHR ''.'' \<or> c = CHR ''-'')"

definition username_ok :: "string \<Rightarrow> bool" where
  "username_ok s = (3 \<le> length s \<and> length s \<le> 60 \<and> list_all username_char s)"

text \<open>\<open>[^@\s]+@[^@\s]+\.[^@\s]+\<close>: no white space, exactly one at-sign, a local part, and a domain
  with a dot that is neither its first nor its last character.\<close>

definition email_char :: "char \<Rightarrow> bool" where
  "email_char c = (c \<noteq> CHR ''@'' \<and> \<not> is_space c)"

definition email_ok :: "string \<Rightarrow> bool" where
  "email_ok s = (case split_at_first (\<lambda>c. c = CHR ''@'') s of
      (a, None) \<Rightarrow> False
    | (a, Some d) \<Rightarrow> a \<noteq> [] \<and> list_all email_char a \<and> list_all email_char d \<and>
        CHR ''.'' \<in> set (butlast (tl d)))"

definition validate_sku :: "string \<Rightarrow> string result" where
  "validate_sku value = (if value = [] \<or> \<not> sku_ok (upper (strip value))
     then Err (ValidationError ''SKU must be 2-50 chars: A-Z, 0-9, dash or underscore.'')
     else Ok (upper (strip value)))"

definition validate_positive_number :: "pyval \<Rightarrow> string \<Rightarrow> bool \<Rightarrow> xfloat result" where
  "validate_positive_number value name allow_zero =
     (case to_float value of
        Inl (TypeError _) \<Rightarrow> Err (ValidationError (name @ '' must be numeric.''))
      | Inl e \<Rightarrow> Err e
      | Inr number \<Rightarrow>
          if xlt number (Fin 0) then Err (ValidationError (name @ '' cannot be negative.''))
          else if \<not> allow_zero \<and> number = Fin 0
          then Err (ValidationError (name @ '' must be greater than zero.''))
          else Ok (case number of Fin x \<Rightarrow> Fin (round_to 4 x) | _ \<Rightarrow> number))"

definition validate_string_length :: "pyval \<Rightarrow> string \<Rightarrow> nat \<Rightarrow> nat \<Rightarrow> string result" where
  "validate_string_length value name minimum maximum =
     (if value = PNone then Err (ValidationError (name @ '' is required.''))
      else bindE (py_strip value) (\<lambda>cleaned.
        if length cleaned < minimum
        then Err (ValidationError (name @ '' must be at least '' @ nat_str minimum @ '' characters.''))
        else if maximum < length cleaned
        then Err (ValidationError (name @ '' must be at most '' @ nat_str maximum @ '' characters.''))
        else Ok cleaned))"

definition validate_email :: "string \<Rightarrow> string result" where
  "validate_email value = (if value = [] \<or> \<not> email_ok (strip value)
     then Err (ValidationError ''Enter a valid email address.'') else Ok (lower (strip value)))"

definition validate_username :: "string \<Rightarrow> string result" where
  "validate_username value = (if value = [] \<or> \<not> username_ok (strip value)
     then Err (ValidationError
       ''Username must be 3-60 chars using letters, digits, dot, dash or underscore.'')
     else Ok (lower (strip value)))"

definition validate_password_strength :: "string \<Rightarrow> string result" where
  "validate_password_strength value =
     (if value = [] \<or> length value < 8
      then Err (ValidationError ''Password must be at least 8 characters long.'')
      else if 128 < length value then Err (ValidationError ''Password must be at most 128 characters.'')
      else if \<not> list_ex is_letter value
      then Err (ValidationError ''Password must contain at least one letter.'')
      else if \<not> list_ex is_digit value
      then Err (ValidationError ''Password must contain at least one digit.'')
      else Ok value)"

definition sanitize_input :: "string option \<Rightarrow> string" where
  "sanitize_input value = (case value of None \<Rightarrow> [] | Some s \<Rightarrow> strip s)"

lemma split_at_first_Some: "split_at_first P s = (a, Some b) \<Longrightarrow>
    \<exists>c. P c \<and> s = a @ c # b \<and> (\<forall>x\<in>set a. \<not> P x)"
  by (induction s arbitrary: a) (auto split: if_splits prod.splits)

lemma split_at_first_append: "\<forall>x\<in>set a. \<not> P x \<Longrightarrow> P c \<Longrightarrow> split_at_first P (a @ c # b) = (a, Some b)"
  by (induction a) auto

lemma inner_dot: "CHR ''.'' \<in> set (butlast (tl d)) \<longleftrightarrow>
    (\<exists>x y. x \<noteq> [] \<and> y \<noteq> [] \<and> d = x @ CHR ''.'' # y)"
proof
  assume "CHR ''.'' \<in> set (butlast (tl d))"
  then obtain u v where u: "butlast (tl d) = u @ CHR ''.'' # v" by (meson split_list)
  then have ne: "tl d \<noteq> []" by auto
  then have "tl d = u @ CHR ''.'' # v @ [last (tl d)]"
    using u by (metis append_Cons append_assoc append_butlast_last_id)
  then have "d = (hd d # u) @ CHR ''.'' # (v @ [last (tl d)])"
    using ne by (metis append_Cons list.collapse list.sel(2))
  then show "\<exists>x y. x \<noteq> [] \<and> y \<noteq> [] \<and> d = x @ CHR ''.'' # y" by blast
next
  assume "\<exists>x y. x \<noteq> [] \<and> y \<noteq> [] \<and> d = x @ CHR ''.'' # y"
  then obtain c x y where "d = (c # x) @ CHR ''.'' # y" "y \<noteq> []" by (metis neq_Nil_conv)
  then show "CHR ''.'' \<in> set (butlast (tl d))" by (simp add: butlast_append)
qed

text \<open>The predicate is the regular expression.\<close>

lemma email_ok_pattern:
  "email_ok s \<longleftrightarrow> (\<exists>a x y. a \<noteq> [] \<and> x \<noteq> [] \<and> y \<noteq> [] \<and> list_all email_char a \<and>
     list_all email_char x \<and> list_all email_char y \<and> s = a @ CHR ''@'' # x @ CHR ''.'' # y)"
proof
  assume "email_ok s"
  then obtain a d where sp: "split_at_first (\<lambda>c. c = CHR ''@'') s = (a, Some d)"
    and a: "a \<noteq> []" "list_all email_char a" "list_all email_char d" "CHR ''.'' \<in> set (butlast (tl d))"
    by (auto simp: email_ok_def split: prod.splits option.splits)
  from a(4) obtain x y where "x \<noteq> []" "y \<noteq> []" "d = x @ CHR ''.'' # y" by (auto simp: inner_dot)
  moreover have "s = a @ CHR ''@'' # d" using split_at_first_Some[OF sp] by auto
  ultimately show "\<exists>a x y. a \<noteq> [] \<and> x \<noteq> [] \<and> y \<noteq> [] \<and> list_all email_char a \<and>
     list_all email_char x \<and> list_all email_char y \<and> s = a @ CHR ''@'' # x @ CHR ''.'' # y"
    using a by auto
next
  assume "\<exists>a x y. a \<noteq> [] \<and> x \<noteq> [] \<and> y \<noteq> [] \<and> list_all email_char a \<and>
     list_all email_char x \<and> list_all email_char y \<and> s = a @ CHR ''@'' # x @ CHR ''.'' # y"
  then obtain a x y where a: "a \<noteq> []" "x \<noteq> []" "y \<noteq> []" "list_all email_char a"
     "list_all email_char x" "list_all email_char y" "s = a @ CHR ''@'' # x @ CHR ''.'' # y" by blast
  have "\<forall>c\<in>set a. c \<noteq> CHR ''@''" using a(4) by (auto simp: list_all_iff email_char_def)
  then have "split_at_first (\<lambda>c. c = CHR ''@'') s = (a, Some (x @ CHR ''.'' # y))"
    using a(7) split_at_first_append[of a "\<lambda>c. c = CHR ''@''" "CHR ''@''"] by simp
  moreover have "CHR ''.'' \<in> set (butlast (tl (x @ CHR ''.'' # y)))" using a inner_dot by blast
  moreover have "email_char CHR ''.''" by (simp add: email_char_def is_space_def)
  ultimately show "email_ok s" using a by (simp add: email_ok_def)
qed

section \<open>Validators return canonical text\<close>

lemma code_to_lower: "code_of (to_lower c) = (if is_upper c then code_of c + 32 else code_of c)"
  by (simp add: to_lower_def is_upper_def)

lemma code_to_upper: "code_of (to_upper c) = (if is_lower c then code_of c - 32 else code_of c)"
  by (cases "is_lower c") (auto simp: to_upper_def is_lower_def)

lemma char_eq_code: "c = c' \<longleftrightarrow> code_of c = code_of c'" for c c' :: char
  by simp

lemma is_space_lower [simp]: "is_space (to_lower c) = is_space c"
  by (auto simp: is_space_def code_to_lower is_upper_def Let_def)

lemma is_space_upper [simp]: "is_space (to_upper c) = is_space c"
  by (auto simp: is_space_def code_to_upper is_lower_def Let_def)

lemma strip_lower: "strip (lower (strip s)) = lower (strip s)"
proof (cases "strip s = []")
  case True show ?thesis unfolding True by (simp add: lower_def strip_def lstrip_def rstrip_def)
next
  case False
  then show ?thesis using strip_hd[OF False] strip_last[OF False]
    by (intro strip_fix) (simp_all add: lower_def hd_map last_map)
qed

lemma strip_upper: "strip (upper (strip s)) = upper (strip s)"
proof (cases "strip s = []")
  case True show ?thesis unfolding True by (simp add: upper_def strip_def lstrip_def rstrip_def)
next
  case False
  then show ?thesis using strip_hd[OF False] strip_last[OF False]
    by (intro strip_fix) (simp_all add: upper_def hd_map last_map)
qed

lemma email_char_lower: "email_char c \<Longrightarrow> email_char (to_lower c)"
  by (auto simp: email_char_def char_eq_code[of _ "CHR ''@''"] code_to_lower is_upper_def)

lemma username_char_lower: "username_char c \<Longrightarrow> username_char (to_lower c)"
  by (auto simp: username_char_def is_letter_def is_lower_def is_digit_def code_to_lower to_lower_def
      is_upper_def)

lemma username_ok_lower: "username_ok s \<Longrightarrow> username_ok (lower s)"
  by (auto simp: username_ok_def list_all_iff lower_def username_char_lower)

lemma email_ok_lower: assumes "email_ok s" shows "email_ok (lower s)"
proof -
  from assms obtain a x y where a: "a \<noteq> []" "x \<noteq> []" "y \<noteq> []" "list_all email_char a"
     "list_all email_char x" "list_all email_char y" "s = a @ CHR ''@'' # x @ CHR ''.'' # y"
    unfolding email_ok_pattern by blast
  have p: "to_lower CHR ''@'' = CHR ''@''" "to_lower CHR ''.'' = CHR ''.''"
    by (simp_all add: to_lower_def is_upper_def)
  have "lower s = lower a @ CHR ''@'' # lower x @ CHR ''.'' # lower y" using a(7) by (simp add: lower_def p)
  moreover have l: "list_all email_char (lower u)" if "list_all email_char u" for u
    using that by (auto simp: list_all_iff lower_def email_char_lower)
  moreover have n: "lower u \<noteq> []" if "u \<noteq> []" for u using that by (simp add: lower_def)
  ultimately show ?thesis unfolding email_ok_pattern
    using l[OF a(4)] l[OF a(5)] l[OF a(6)] n[OF a(1)] n[OF a(2)] n[OF a(3)] by metis
qed

text \<open>The SKU, username and e-mail validators return canonical text: what they accept, they
  accept again unchanged, with the length the pattern states; so equality of the stored values is
  equality up to case and surrounding white space.\<close>

theorem validators_canonical:
  "(validate_sku v = Ok t \<longrightarrow> validate_sku t = Ok t \<and> 2 \<le> length t \<and> length t \<le> 50) \<and>
   (validate_username v = Ok t \<longrightarrow> validate_username t = Ok t \<and> 3 \<le> length t \<and> length t \<le> 60) \<and>
   (validate_email v = Ok t \<longrightarrow> validate_email t = Ok t \<and> 5 \<le> length t)"
proof (intro conjI impI)
  assume "validate_sku v = Ok t"
  then have t: "t = upper (strip v)" "sku_ok t" by (auto simp: validate_sku_def split: if_splits)
  then have s: "strip t = t" by (simp add: strip_upper)
  have u: "upper t = t" using t by simp
  show "2 \<le> length t" "length t \<le> 50" using t(2) by (auto simp: sku_ok_def split: list.splits)
  then have "t \<noteq> []" by auto
  then show "validate_sku t = Ok t" using t(2) by (simp add: validate_sku_def s u)
next
  assume "validate_username v = Ok t"
  then have t: "t = lower (strip v)" "username_ok t"
    by (auto simp: validate_username_def username_ok_lower split: if_splits)
  then have s: "strip t = t" by (simp add: strip_lower)
  have u: "lower t = t" using t by simp
  show "3 \<le> length t" "length t \<le> 60" using t(2) by (auto simp: username_ok_def)
  then have "t \<noteq> []" by auto
  then show "validate_username t = Ok t" using t(2) by (simp add: validate_username_def s u)
next
  assume "validate_email v = Ok t"
  then have t: "t = lower (strip v)" "email_ok t"
    by (auto simp: validate_email_def email_ok_lower split: if_splits)
  then have s: "strip t = t" by (simp add: strip_lower)
  have u: "lower t = t" using t by simp
  show l: "5 \<le> length t" using t(2) by (auto simp: email_ok_pattern neq_Nil_conv)
  then have "t \<noteq> []" by auto
  then show "validate_email t = Ok t" using t(2) by (simp add: validate_email_def s u)
qed

theorem validators_canonical_witness:
  "validate_sku '' ab-1 '' = Ok ''AB-1'' \<and> validate_sku ''AB-1'' = Ok ''AB-1''"
proof -
  have "validate_sku '' ab-1 '' = Ok ''AB-1''" by code_simp
  with validators_canonical[of "'' ab-1 ''" "''AB-1''"] show ?thesis by simp
qed

text \<open>A number accepted by \<open>validate_positive_number\<close> is non-negative (positive when zero is
  not allowed) and within half a unit of the fourth decimal of the input; but text that is no number
  leaves it as a bare ValueError instead of the \<open>must be numeric\<close> ValidationError, and nan passes.\<close>

theorem validate_positive_number_spec:
  "(to_float v = Ok (Fin x) \<longrightarrow>
      (validate_positive_number v n z = Ok y \<longleftrightarrow>
        0 \<le> x \<and> (z \<or> x \<noteq> 0) \<and> y = Fin (round_to 4 x)) \<and>
      (validate_positive_number v n z = Ok y \<longrightarrow>
        (\<exists>w. y = Fin w \<and> 0 \<le> w \<and> \<bar>w - x\<bar> \<le> 1 / 20000))) \<and>
   (parse_float s = None \<longrightarrow> validate_positive_number (PStr s) n z
      = Err (ValueError ''could not convert string to float'')) \<and>
   validate_positive_number (PFloat NaN) n z = Ok NaN"
  using round_to_close[of 4 x] round_to_nonneg[of x 4]
  by (auto simp: validate_positive_number_def split: if_splits)

theorem validate_positive_number_spec_witness:
  "validate_positive_number (PStr '' 12.5 '') ''Price'' False = Ok (Fin (round_to 4 (25 / 2))) \<and>
   validate_positive_number (PStr ''abc'') ''Price'' False
     = Err (ValueError ''could not convert string to float'')"
proof -
  have p: "parse_float '' 12.5 '' = Some (Fin (25 / 2))" by code_simp
  have q: "parse_float ''abc'' = None" by code_simp
  show ?thesis
    using validate_positive_number_spec[of "PStr '' 12.5 ''" "25 / 2" "''Price''" False
        "Fin (round_to 4 (25 / 2))" "''abc''"] p q by simp
qed

section \<open>Properties of the calculations\<close>

text \<open>C12: The economic order quantity minimises the total cost: with positive demand, ordering and
  holding cost, \<open>calculate_eoq\<close> returns a quantity whose \<open>calculate_total_cost\<close> is at most that
  of any other order quantity, and there ordering and holding cost are equal halves.\<close>

theorem eoq_minimises_cost:
  assumes "0 < d" "0 < s" "0 < h"
  shows "\<exists>q c. calculate_eoq d s h = Some q \<and> calculate_total_cost d s h (Some q) = Some c \<and>
    c = 2 * (d / q * s) \<and>
    (\<forall>r c'. calculate_total_cost d s h (Some r) = Some c' \<longrightarrow> c \<le> c')"
proof -
  let ?q = "sqrt (2 * d * s / h)"
  have e: "d / ?q * s = ?q / 2 * h" and q: "0 < ?q" using cost_at_eoq[OF assms] by simp_all
  have "d / ?q * s + ?q / 2 * h \<le> c'" if r: "calculate_total_cost d s h (Some r) = Some c'" for r c'
  proof -
    have p: "0 < r" using r by (auto simp: calculate_total_cost_def split: if_splits)
    then have "c' = d / r * s + r / 2 * h" using total_cost_value[OF assms(1) p, of s h] r by simp
    then show ?thesis using cost_lower_bound[OF assms q p e] by simp
  qed
  then show ?thesis using eoq_value[OF assms] total_cost_value[OF assms(1) q, of s h] e
    by (metis mult_2)
qed

theorem eoq_minimises_cost_witness:
  "\<exists>q c. calculate_eoq 100 2 4 = Some q \<and> calculate_total_cost 100 2 4 (Some q) = Some c \<and>
    c = 2 * (100 / q * 2) \<and>
    (\<forall>r c'. calculate_total_cost 100 2 4 (Some r) = Some c' \<longrightarrow> c \<le> c')"
  by (rule eoq_minimises_cost) simp_all

text \<open>Every cell of the sensitivity surface is the minimal total cost \<open>sqrt(2DSH)\<close> of its demand
  and ordering cost, on a grid of five demands by four ordering costs around the base point.\<close>

theorem sensitivity_surface_cells:
  assumes "0 < d" "0 \<le> oc" "0 < h"
  shows "(case sensitivity_surface d oc h of (xs, ys, z) \<Rightarrow>
    length xs = 4 \<and> length ys = 5 \<and>
    z = map (\<lambda>y. map (\<lambda>x. sqrt (2 * y * x * h)) xs) ys)"
  using assms by (simp add: sensitivity_surface_def sensitivity_cell_value Let_def)

theorem sensitivity_surface_cells_witness:
  "(case sensitivity_surface 100 2 4 of (xs, ys, z) \<Rightarrow>
    length xs = 4 \<and> length ys = 5 \<and>
    z = map (\<lambda>y. map (\<lambda>x. sqrt (2 * y * x * 4)) xs) ys)"
  by (rule sensitivity_surface_cells) simp_all

definition severity :: "string \<times> string \<Rightarrow> nat" where
  "severity s = (if fst s = ''critical'' then 2 else if fst s = ''warning'' then 1 else 0)"

text \<open>Stock health is monotone for every setting of the two thresholds: more stock is never
  classified as worse; no stock is always critical, and stock above the reorder point is healthy
  when the thresholds are percentages.\<close>

theorem stock_status_monotone:
  assumes "stock \<le> stock'"
  shows "severity (stock_status stock' rop low crit) \<le> severity (stock_status stock rop low crit) \<and>
    (stock \<le> 0 \<longrightarrow> stock_status stock rop low crit = (''critical'', ''Critical'')) \<and>
    (0 < stock \<longrightarrow> rop < stock \<longrightarrow> low \<le> 100 \<longrightarrow> crit \<le> 100 \<longrightarrow>
       stock_status stock rop low crit = (''good'', ''Healthy''))"
proof (intro conjI impI)
  show "severity (stock_status stock' rop low crit) \<le> severity (stock_status stock rop low crit)"
    using assms by (auto simp: severity_def stock_status_def Let_def)
  show "stock \<le> 0 \<Longrightarrow> stock_status stock rop low crit = (''critical'', ''Critical'')"
    by (simp add: stock_status_def)
  assume a: "0 < stock" "rop < stock" "low \<le> 100" "crit \<le> 100"
  have line: "\<not> of_int stock \<le> real_of_int rop * (p / 100)" if "0 < rop" "p \<le> 100" for p :: real
  proof -
    have "real_of_int rop * (p / 100) \<le> real_of_int rop * 1" using that by (intro mult_left_mono) auto
    then show ?thesis using a(2) by linarith
  qed
  show "stock_status stock rop low crit = (''good'', ''Healthy'')"
    using a line[of low] line[of crit] by (auto simp: stock_status_def Let_def)
qed

theorem stock_status_monotone_witness:
  "severity (stock_status 30 20 20 10) \<le> severity (stock_status 3 20 20 10) \<and>
   severity (stock_status 3 20 20 10) = 1 \<and> severity (stock_status 30 20 20 10) = 0"
  using stock_status_monotone[of 3 30 20 20 10] by (simp add: stock_status_def severity_def)

text \<open>\<open>json_safe\<close> makes every value serialisable: its result has no Decimal, date or tuple left
  at any depth; it leaves serialisable values alone and is idempotent.\<close>

theorem json_safe_normal_form:
  "is_json (json_safe v) \<and> json_safe (json_safe v) = json_safe v \<and> (is_json v \<longleftrightarrow> json_safe v = v)"
  using is_json_json_safe[of v] json_safe_id by metis

end
