(* ===== verification/Roles.thy ===== *)
theory Roles
  imports Prelude
begin

text \<open>Roles and permissions (\<open>app/security/roles.py\<close>) and the audit decorators
  (\<open>app/security/audit.py\<close>).  A user is its role tier and hierarchy job role; the decorated view
  is a function of the state that returns a result, and the decorators compose with it as the
  wrappers of the source do.  The audit store is the list of its records; that a write to it fails
  is an argument.\<close>

section \<open>Permissions\<close>

record user =
  role :: "string option"
  job_role :: "string option"

definition WRITE_ROLES :: "string list" where "WRITE_ROLES = [''admin'', ''manager'']"

definition JOB_ROLES :: "string list" where
  "JOB_ROLES = [''inventory_director'', ''vp_operations'', ''procurement_manager'',
     ''procurement_buyer'', ''procurement_coordinator'', ''supplier_coordinator'',
     ''warehouse_manager'', ''receiving_associate'', ''inventory_analyst'',
     ''demand_planning_analyst'']"

definition LEGACY_JOB_ROLE :: "string \<rightharpoonup> string" where
  "LEGACY_JOB_ROLE = map_of [(''admin'', ''inventory_director''), (''manager'', ''procurement_manager''),
     (''viewer'', ''inventory_analyst'')]"

definition ROLE_PERMISSIONS :: "(string \<times> string list) list" where
  "ROLE_PERMISSIONS =
    [(''inventory_director'', [''*'']),
     (''vp_operations'', [''inventory.view.all'', ''dashboard.view'', ''analytics.view'',
        ''supplier.view'', ''reports.view.all'', ''reports.review'', ''procurement.view'',
        ''warehouse.view'']),
     (''procurement_manager'', [''procurement.view'', ''po.view'', ''po.create'', ''po.approve'',
        ''supplier.view'', ''supplier.manage'', ''reports.review'', ''report.submit'',
        ''dashboard.view'']),
     (''procurement_buyer'', [''po.view'', ''po.create'', ''supplier.view'', ''report.submit'',
        ''dashboard.view'']),
     (''procurement_coordinator'', [''po.view'', ''po.create'', ''report.submit'', ''dashboard.view'']),
     (''supplier_coordinator'', [''supplier.view'', ''supplier.manage'', ''report.submit'',
        ''dashboard.view'']),
     (''warehouse_manager'', [''warehouse.view'', ''stock.receive'', ''stock.adjust'',
        ''reports.review'', ''report.submit'', ''dashboard.view'']),
     (''receiving_associate'', [''stock.receive'', ''warehouse.view'', ''report.submit'',
        ''dashboard.view'']),
     (''inventory_analyst'', [''analytics.view'', ''report.submit'', ''dashboard.view'']),
     (''demand_planning_analyst'', [''analytics.view'', ''report.submit'', ''dashboard.view''])]"

definition user_job_role :: "user option \<Rightarrow> string" where
  "user_job_role u =
     (let jr = (case u of Some x \<Rightarrow> job_role x | None \<Rightarrow> None);
          legacy = (case Option.bind (Option.bind u role) LEGACY_JOB_ROLE of
              Some r \<Rightarrow> r | None \<Rightarrow> ''inventory_analyst'')
      in (case jr of Some r \<Rightarrow> if r \<in> set JOB_ROLES then r else legacy | None \<Rightarrow> legacy))"

definition user_permissions :: "user option \<Rightarrow> string list" where
  "user_permissions u =
     (if Option.bind u role = Some ''admin'' then [''*'']
      else (case map_of ROLE_PERMISSIONS (user_job_role u) of Some ps \<Rightarrow> ps | None \<Rightarrow> []))"

definition has_permission :: "user option \<Rightarrow> string \<Rightarrow> bool" where
  "has_permission u permission =
     (let perms = user_permissions u in ''*'' \<in> set perms \<or> permission \<in> set perms)"

text \<open>A view is called with the state it may change; the gates abort with 403 before calling it.\<close>

datatype 'a outcome = Returned 'a | Raised pyexc | Aborted nat

definition roles_required ::
  "string list \<Rightarrow> user \<Rightarrow> ('s \<Rightarrow> 'a outcome \<times> 's) \<Rightarrow> 's \<Rightarrow> 'a outcome \<times> 's" where
  "roles_required roles u fn s =
     (if role u \<notin> Some ` set roles then (Aborted 403, s) else fn s)"

definition write_roles_required ::
  "user \<Rightarrow> ('s \<Rightarrow> 'a outcome \<times> 's) \<Rightarrow> 's \<Rightarrow> 'a outcome \<times> 's" where
  "write_roles_required u fn s = roles_required WRITE_ROLES u fn s"

definition permission_required ::
  "string \<Rightarrow> user \<Rightarrow> ('s \<Rightarrow> 'a outcome \<times> 's) \<Rightarrow> 's \<Rightarrow> 'a outcome \<times> 's" where
  "permission_required permission u fn s =
     (if \<not> has_permission (Some u) permission then (Aborted 403, s) else fn s)"

text \<open>Who is behind a call: \<open>current_user\<close> stands for None when there is no request, and reading an
  attribute of it raises.\<close>

datatype caller = NoRequest | Anonymous | LoggedIn int

section \<open>Audit\<close>

datatype 'd audit_detail = Standard bool "string option" "string option" | Custom 'd | DetailError

record ('i, 'd) audit_entry =
  ae_user :: "int option"
  ae_action :: string
  ae_target_type :: "string option"
  ae_target_id :: "'i option"
  ae_detail :: "'d audit_detail"
  ae_ip :: "string option"

record request_ctx =
  authenticated :: bool
  ctx_user_id :: int
  ctx_role :: string
  in_request :: bool
  remote_addr :: "string option"

fun exc_text :: "pyexc \<Rightarrow> string" where
  "exc_text (ValidationError m) = m"
| "exc_text (ValueError m) = m"
| "exc_text (TypeError m) = m"
| "exc_text (AttributeError m) = m"
| "exc_text (NameError m) = m"
| "exc_text (KeyError m) = m"
| "exc_text (OverflowError m) = m"
| "exc_text ZeroDivisionError = ''division by zero''"
| "exc_text (RuntimeError m) = m"
| "exc_text (AuthError m) = m"
| "exc_text (MovementError m) = m"
| "exc_text (POError m) = m"
| "exc_text (DomainError c m) = m"
| "exc_text (DbRaise m) = m"
| "exc_text (DbUnique m) = m"
| "exc_text (DbForeignKey m) = m"
| "exc_text (DbCheck m) = m"
| "exc_text (DbOperational m) = m"
| "exc_text (OtherExc m) = m"

text \<open>The target id is the keyword argument of that name, else the positional argument at the
  position of the parameter of that name.\<close>

definition audit_target ::
  "string \<Rightarrow> string list \<Rightarrow> 'i list \<Rightarrow> (string \<times> 'i) list \<Rightarrow> 'i option" where
  "audit_target target_id_arg params args kwargs =
     (if target_id_arg \<noteq> [] \<and> map_of kwargs target_id_arg \<noteq> None then map_of kwargs target_id_arg
      else if target_id_arg \<noteq> [] \<and> args \<noteq> [] then
        (case List.find (\<lambda>(i, p). p = target_id_arg) (enumerate 0 params) of
           Some (i, _) \<Rightarrow> if i < length args then Some (args ! i) else None
         | None \<Rightarrow> None)
      else None)"

text \<open>\<open>result_type\<close> gives the type name of a result that is neither None nor a primitive;
  \<open>detail_func\<close> may raise (None); \<open>write_ok\<close> says whether the audit insert succeeds.\<close>

definition audit_action ::
  "string \<Rightarrow> string \<Rightarrow> 'i option \<Rightarrow> ('a option \<Rightarrow> 'd option) option \<Rightarrow> ('a \<Rightarrow> string option) \<Rightarrow> bool \<Rightarrow>
   request_ctx \<Rightarrow> ('s \<Rightarrow> 'a result \<times> 's) \<Rightarrow> 's \<times> ('i, 'd) audit_entry list \<Rightarrow>
   'a result \<times> 's \<times> ('i, 'd) audit_entry list" where
  "audit_action action target_type target_id detail_func result_type write_ok ctx func st =
     (case st of (s, lg) \<Rightarrow> case func s of (r, s') \<Rightarrow>
        let result = (case r of Inr v \<Rightarrow> Some v | Inl _ \<Rightarrow> None);
            error = (case r of Inr _ \<Rightarrow> None | Inl e \<Rightarrow> if exc_text e = [] then None else Some (exc_text e));
            detail = (case detail_func of
                Some f \<Rightarrow> (case f result of Some d \<Rightarrow> Custom d | None \<Rightarrow> DetailError)
              | None \<Rightarrow> Standard (\<not> isl r) error (Option.bind result result_type));
            entry = \<lparr>ae_user = (if authenticated ctx then Some (ctx_user_id ctx) else None),
              ae_action = action, ae_target_type = (if target_type = [] then None else Some target_type),
              ae_target_id = target_id, ae_detail = detail,
              ae_ip = (if in_request ctx then Some (case remote_addr ctx of
                  Some a \<Rightarrow> if a = [] then ''127.0.0.1'' else a | None \<Rightarrow> ''127.0.0.1'') else None)\<rparr>
        in (r, s', if write_ok then lg @ [entry] else lg))"

definition audit_admin_action ::
  "string list \<Rightarrow> string \<Rightarrow> string \<Rightarrow> 'i option \<Rightarrow> ('a option \<Rightarrow> 'd option) option \<Rightarrow>
   ('a \<Rightarrow> string option) \<Rightarrow> bool \<Rightarrow> request_ctx \<Rightarrow> ('s \<Rightarrow> 'a result \<times> 's) \<Rightarrow>
   's \<times> ('i, 'd) audit_entry list \<Rightarrow> 'a result \<times> 's \<times> ('i, 'd) audit_entry list" where
  "audit_admin_action roles action target_type target_id detail_func result_type write_ok ctx func st =
     (if \<not> authenticated ctx then (Err (OtherExc ''PermissionError: Authentication required''), st)
      else if ctx_role ctx \<notin> set roles then (Err (OtherExc ''PermissionError: Role required''), st)
      else audit_action action target_type target_id detail_func result_type write_ok ctx func st)"

section \<open>Properties\<close>

lemma legacy_job_role: "LEGACY_JOB_ROLE x = Some r \<Longrightarrow> r \<in> set JOB_ROLES"
  by (simp add: LEGACY_JOB_ROLE_def JOB_ROLES_def split: if_splits)

lemma job_role_cases: "user_job_role u \<in> set JOB_ROLES"
proof -
  have "''inventory_analyst'' \<in> set JOB_ROLES" by (simp add: JOB_ROLES_def)
  then show ?thesis unfolding user_job_role_def Let_def
    by (auto simp del: bind_split split: option.split intro: legacy_job_role simp: bind_eq_Some_conv)
qed

text \<open>Only the director (or the admin tier) and the procurement manager may approve purchase
  orders, only they and the buyer tiers may create them, and stock adjustments are reserved to the
  director and the warehouse manager; every user resolves to one of the ten job roles, so an unknown
  or missing job role never widens access beyond the analyst's.\<close>

theorem permission_matrix:
  "(has_permission u ''po.approve'' \<longleftrightarrow> Option.bind u role = Some ''admin'' \<or>
      user_job_role u \<in> {''inventory_director'', ''procurement_manager''}) \<and>
   (has_permission u ''po.create'' \<longleftrightarrow> Option.bind u role = Some ''admin'' \<or>
      user_job_role u \<in> {''inventory_director'', ''procurement_manager'', ''procurement_buyer'',
        ''procurement_coordinator''}) \<and>
   (has_permission u ''stock.adjust'' \<longleftrightarrow> Option.bind u role = Some ''admin'' \<or>
      user_job_role u \<in> {''inventory_director'', ''warehouse_manager''}) \<and>
   user_job_role u \<in> set JOB_ROLES \<and>
   user_job_role None = ''inventory_analyst''"
proof (intro conjI)
  note cases = job_role_cases[of u, unfolded JOB_ROLES_def, simplified]
  show "has_permission u ''po.approve'' \<longleftrightarrow> Option.bind u role = Some ''admin'' \<or>
      user_job_role u \<in> {''inventory_director'', ''procurement_manager''}"
    using cases by (elim disjE) (simp_all add: has_permission_def user_permissions_def ROLE_PERMISSIONS_def)
  show "has_permission u ''po.create'' \<longleftrightarrow> Option.bind u role = Some ''admin'' \<or>
      user_job_role u \<in> {''inventory_director'', ''procurement_manager'', ''procurement_buyer'',
        ''procurement_coordinator''}"
    using cases by (elim disjE) (simp_all add: has_permission_def user_permissions_def ROLE_PERMISSIONS_def)
  show "has_permission u ''stock.adjust'' \<longleftrightarrow> Option.bind u role = Some ''admin'' \<or>
      user_job_role u \<in> {''inventory_director'', ''warehouse_manager''}"
    using cases by (elim disjE) (simp_all add: has_permission_def user_permissions_def ROLE_PERMISSIONS_def)
  show "user_job_role u \<in> set JOB_ROLES" by (rule job_role_cases)
qed (simp add: user_job_role_def)

text \<open>The audit decorator is transparent: the decorated view's result or exception and its
  effect on the state are the view's own, whether or not the audit record can be written, and
  exactly one record is appended when it can; the admin variant neither calls the view nor writes a
  record for an anonymous or unauthorised user.\<close>

theorem audit_transparent:
  "fst (audit_action a tt ti df rt ok ctx f (s, lg)) = fst (f s) \<and>
   fst (snd (audit_action a tt ti df rt ok ctx f (s, lg))) = snd (f s) \<and>
   length (snd (snd (audit_action a tt ti df rt ok ctx f (s, lg)))) = length lg + (if ok then 1 else 0) \<and>
   snd (audit_admin_action rs a tt ti df rt ok ctx f (s, lg)) =
     (if authenticated ctx \<and> ctx_role ctx \<in> set rs
      then snd (audit_action a tt ti df rt ok ctx f (s, lg)) else (s, lg))"
  by (simp add: audit_action_def audit_admin_action_def Let_def split: prod.split)

end
