(* ===== verification/Ledger.thy ===== *)
theory Ledger
  imports Helpers
begin

text \<open>Products and the stock ledger: the rows of \<open>products\<close> and \<open>movements\<close>, the stored procedure
  \<open>sp_movement_record\<close> with the trigger \<open>trg_validate_movement\<close> and the table constraints that
  run inside it (\<open>app/database/procedures.sql\<close>, \<open>triggers.sql\<close>, \<open>schema.sql\<close>), the movement
  repository and \<open>MovementService\<close> (\<open>app/services/movement_service.py\<close>).  A procedure is a
  function from the database to a result with the new database: an error rolls the transaction back,
  so it carries no database.  Audit triggers write to tables no operation here reads.\<close>

record product =
  prod_id :: int
  sku :: string
  prod_name :: string
  warehouse :: string
  current_stock :: int
  reorder_point :: int
  on_order :: int
  demand_rate :: real
  ordering_cost :: real
  holding_cost :: real
  unit_price :: real
  supplier_id :: "int option"
  prod_deleted :: bool

record movement =
  mv_id :: int
  mv_product :: int
  mv_type :: string
  mv_quantity :: int
  mv_reference :: "string option"
  mv_notes :: "string option"
  mv_user :: "int option"
  mv_day :: int
  mv_deleted :: bool

text \<open>\<open>next_movement\<close> is the sequence of the id column, \<open>today\<close> the day of \<open>NOW()\<close>.\<close>

record movement_audit =
  ma_user :: "int option"
  ma_action :: string
  ma_target :: int
  ma_product :: int
  ma_sku :: string
  ma_type :: string
  ma_quantity :: int
  ma_new_stock :: int

record inv_db =
  products :: "product list"
  movements :: "movement list"
  next_movement :: int
  user_ids :: "int list"
  audit_log :: "movement_audit list"
  today :: int

definition int4 :: "int \<Rightarrow> bool" where "int4 i = (- (2 ^ 31) \<le> i \<and> i < 2 ^ 31)"

abbreviation out_of_range :: pyexc where "out_of_range \<equiv> OtherExc ''integer out of range''"

definition find_product :: "int \<Rightarrow> 'a inv_db_scheme \<Rightarrow> product option" where
  "find_product i db = find_row (\<lambda>p. prod_id p = i) (products db)"

definition live_product :: "int \<Rightarrow> 'a inv_db_scheme \<Rightarrow> product option" where
  "live_product i db = find_row (\<lambda>p. prod_id p = i \<and> \<not> prod_deleted p) (products db)"

section \<open>The atomic movement funnel\<close>

definition ALLOWED_TYPES :: "string list" where
  "ALLOWED_TYPES = [''IN'', ''OUT'', ''ADJUSTMENT'', ''RETURN'']"

definition trg_validate_movement :: "int \<Rightarrow> string \<Rightarrow> int \<Rightarrow> 'a inv_db_scheme \<Rightarrow> unit result" where
  "trg_validate_movement pid ty q db = (case find_product pid db of
      None \<Rightarrow> Err (DbRaise (''Invalid product_id '' @ int_str pid @ '': product does not exist''))
    | Some p \<Rightarrow>
        if ty = ''OUT'' \<and> current_stock p - q < 0
        then Err (DbRaise (''Insufficient stock: have '' @ int_str (current_stock p) @ '', need '' @ int_str q))
        else if ty = ''ADJUSTMENT'' \<and> current_stock p + q < 0
        then Err (DbRaise (''Adjustment would create negative stock: have '' @ int_str (current_stock p)
               @ '', adjustment '' @ int_str q))
        else Ok ())"

definition add_movement ::
  "int \<Rightarrow> string \<Rightarrow> int \<Rightarrow> string option \<Rightarrow> string option \<Rightarrow> int option \<Rightarrow> 'a inv_db_scheme \<Rightarrow>
   'a inv_db_scheme" where
  "add_movement pid ty q ref notes uid db =
     db\<lparr>next_movement := next_movement db + 1, movements := movements db @
       [\<lparr>mv_id = next_movement db, mv_product = pid, mv_type = ty, mv_quantity = q, mv_reference = ref,
         mv_notes = notes, mv_user = uid, mv_day = today db, mv_deleted = False\<rparr>]\<rparr>"

text \<open>\<open>INSERT INTO movements\<close>: the column width, the trigger, the two CHECK constraints and the
  foreign key to the users.\<close>

definition insert_movement ::
  "int \<Rightarrow> string \<Rightarrow> int \<Rightarrow> string option \<Rightarrow> string option \<Rightarrow> int option \<Rightarrow> 'a inv_db_scheme \<Rightarrow>
   (int \<times> 'a inv_db_scheme) result" where
  "insert_movement pid ty q ref notes uid db =
     bindE (ensure (case ref of Some r \<Rightarrow> length r \<le> 100 | None \<Rightarrow> True)
              (OtherExc ''value too long for type character varying(100)'')) (\<lambda>_.
     bindE (trg_validate_movement pid ty q db) (\<lambda>_.
     bindE (ensure (ty \<in> set ALLOWED_TYPES) (DbCheck ''movements_type_chk'')) (\<lambda>_.
     bindE (ensure (0 < q) (DbCheck ''chk_quantity_positive'')) (\<lambda>_.
     bindE (ensure (case uid of Some u \<Rightarrow> u \<in> set (user_ids db) | None \<Rightarrow> True)
              (DbForeignKey ''movements_user_id_fkey'')) (\<lambda>_.
     Ok (next_movement db, add_movement pid ty q ref notes uid db))))))"

definition set_product :: "int \<Rightarrow> (product \<Rightarrow> product) \<Rightarrow> 'a inv_db_scheme \<Rightarrow> 'a inv_db_scheme" where
  "set_product pid f db = db\<lparr>products := update_where (\<lambda>p. prod_id p = pid) f (products db)\<rparr>"

definition movement_delta :: "string \<Rightarrow> int \<Rightarrow> int" where
  "movement_delta ty q = (if ty = ''OUT'' then - q else q)"

definition sp_movement_record ::
  "int \<Rightarrow> string \<Rightarrow> int \<Rightarrow> string option \<Rightarrow> string option \<Rightarrow> int option \<Rightarrow> 'a inv_db_scheme \<Rightarrow>
   (int \<times> 'a inv_db_scheme) result" where
  "sp_movement_record pid ty q ref notes uid db = (case live_product pid db of
      None \<Rightarrow> Err (DbRaise (''Invalid product_id '' @ int_str pid @ '': product does not exist''))
    | Some p \<Rightarrow>
        bindE (ensure (ty \<in> set ALLOWED_TYPES) (DbRaise (''Invalid movement type '' @ ty))) (\<lambda>_.
        let v_delta = movement_delta ty q; v_stock = current_stock p in
        bindE (ensure (int4 v_delta \<and> int4 (v_stock + v_delta)) out_of_range) (\<lambda>_.
        bindE (ensure (0 \<le> v_stock + v_delta)
          (DbRaise (''Insufficient stock: have '' @ int_str v_stock @ '', need '' @ int_str q))) (\<lambda>_.
        bindE (insert_movement pid ty q ref notes uid db) (\<lambda>(i, db).
        Ok (i, set_product pid (\<lambda>p. p\<lparr>current_stock := v_stock + v_delta\<rparr>) db))))))"

text \<open>\<open>MovementRepository.record\<close>: the arguments must be int4 values to bind to the parameters.\<close>

definition repo_record_movement ::
  "int \<Rightarrow> string \<Rightarrow> int \<Rightarrow> string option \<Rightarrow> string option \<Rightarrow> int option \<Rightarrow> 'a inv_db_scheme \<Rightarrow>
   (int \<times> 'a inv_db_scheme) result" where
  "repo_record_movement pid ty q ref notes uid db =
     bindE (ensure (int4 pid \<and> int4 q) out_of_range)
       (\<lambda>_. sp_movement_record pid ty q ref notes uid db)"

section \<open>MovementService.record\<close>

definition quoted :: "string \<Rightarrow> string" where "quoted s = [CHR 0x27] @ s @ [CHR 0x27]"

definition py_repr_list :: "string list \<Rightarrow> string" where
  "py_repr_list ss = ''['' @ joins '', '' (map quoted ss) @ '']''"

definition stock_guards :: "string list" where
  "stock_guards = [''Insufficient stock'', ''Invalid product_id'', ''Invalid movement type'',
     ''Adjustment would create negative stock'']"

definition strip_or_none :: "string option \<Rightarrow> string option" where
  "strip_or_none s = (let t = strip (case s of Some x \<Rightarrow> x | None \<Rightarrow> []) in if t = [] then None else Some t)"

record movement_req =
  rq_product :: "int option"
  rq_type :: string
  rq_quantity :: "int option"
  rq_reference :: "string option"
  rq_notes :: "string option"
  rq_user :: "int option"

text \<open>The checks before the procedure; \<open>seen\<close> is the database as the early read saw it.\<close>

definition precheck_movement :: "movement_req \<Rightarrow> 'a inv_db_scheme \<Rightarrow> (product \<times> int) result" where
  "precheck_movement rq seen =
     (case rq_product rq of None \<Rightarrow> Err (MovementError ''Product is required.'') | Some pid \<Rightarrow>
      if pid = 0 then Err (MovementError ''Product is required.'')
      else if rq_type rq \<notin> set ALLOWED_TYPES
      then Err (MovementError (''Type must be one of '' @
             py_repr_list [''ADJUSTMENT'', ''IN'', ''OUT'', ''RETURN''] @ ''.''))
      else (case rq_quantity rq of None \<Rightarrow> Err (MovementError ''Quantity must be a positive integer.'')
      | Some q \<Rightarrow>
      if q \<le> 0 then Err (MovementError ''Quantity must be a positive integer.'')
      else (case live_product pid seen of None \<Rightarrow> Err (MovementError ''Product not found.'') | Some p \<Rightarrow>
        if rq_type rq = ''OUT'' then
          (if current_stock p - q < 0 then Err (MovementError ''Stock-out would create a negative balance.'')
           else Ok (p, current_stock p - q))
        else if rq_type rq = ''ADJUSTMENT'' then
          (if current_stock p + q < 0 then Err (MovementError ''Adjustment would create a negative balance.'')
           else Ok (p, current_stock p + q))
        else Ok (p, current_stock p + q))))"

text \<open>The write commits before the audit insert, which is outside the transaction and may fail; the
  notification's failures are swallowed.  The result is paired with the database after the call.\<close>

definition record_movement ::
  "bool \<Rightarrow> 'a inv_db_scheme \<Rightarrow> movement_req \<Rightarrow> 'a inv_db_scheme \<Rightarrow> int result \<times> 'a inv_db_scheme" where
  "record_movement audit_ok seen rq db = (case precheck_movement rq seen of
      Inl e \<Rightarrow> (Err e, db)
    | Inr (p, new_stock) \<Rightarrow>
        (case repo_record_movement (the (rq_product rq)) (rq_type rq) (the (rq_quantity rq))
               (strip_or_none (rq_reference rq)) (strip_or_none (rq_notes rq)) (rq_user rq) db of
           Inl e \<Rightarrow> (if is_guard_error e stock_guards
                     then (case e of DbRaise m \<Rightarrow>
                         (Err (MovementError (db_error_message (Some (''ERROR:  '' @ m)) [])), db)
                       | _ \<Rightarrow> (Err e, db))
                     else (Err e, db))
         | Inr (i, db') \<Rightarrow>
             if audit_ok
             then (Ok i, db'\<lparr>audit_log := audit_log db' @
               [\<lparr>ma_user = rq_user rq, ma_action = ''movement.record'', ma_target = i,
                 ma_product = the (rq_product rq), ma_sku = sku p, ma_type = rq_type rq,
                 ma_quantity = the (rq_quantity rq), ma_new_stock = new_stock\<rparr>]\<rparr>)
             else (Err (DbOperational ''audit insert failed''), db')))"

section \<open>The ledger invariant\<close>

definition signed :: "movement \<Rightarrow> int" where "signed m = movement_delta (mv_type m) (mv_quantity m)"

definition ledger_sum :: "int \<Rightarrow> 'a inv_db_scheme \<Rightarrow> int" where
  "ledger_sum pid db = sum_list (map signed (filter (\<lambda>m. mv_product m = pid) (movements db)))"

definition stock_of :: "int \<Rightarrow> 'a inv_db_scheme \<Rightarrow> int" where
  "stock_of pid db = (case find_product pid db of Some p \<Rightarrow> current_stock p | None \<Rightarrow> 0)"

definition inv_db_ok :: "'a inv_db_scheme \<Rightarrow> bool" where
  "inv_db_ok db \<longleftrightarrow> distinct (map prod_id (products db)) \<and> (\<forall>p\<in>set (products db). 0 \<le> current_stock p) \<and>
     distinct (map mv_id (movements db)) \<and> (\<forall>m\<in>set (movements db). mv_id m < next_movement db) \<and>
     (\<forall>m\<in>set (movements db). 0 < mv_quantity m \<and> mv_type m \<in> set ALLOWED_TYPES)"

lemma live_product_find:
  assumes "live_product pid db = Some p" and "distinct (map prod_id (products db))"
  shows "find_product pid db = Some p"
proof -
  have "p \<in> set (products db)" "prod_id p = pid"
    using find_row_Some[OF assms(1)[unfolded live_product_def]] by auto
  then show ?thesis using find_row_unique[OF assms(2)] unfolding find_product_def by auto
qed

lemma insert_movement_Ok:
  "insert_movement pid ty q ref notes uid db = Ok (i, db') \<Longrightarrow>
   i = next_movement db \<and> 0 < q \<and> ty \<in> set ALLOWED_TYPES \<and>
   db' = add_movement pid ty q ref notes uid db"
  by (auto simp: insert_movement_def bindE_Ok_iff Let_def)

lemma sp_movement_record_Ok:
  assumes "sp_movement_record pid ty q ref notes uid db = Ok (i, db')"
  obtains p where "live_product pid db = Some p" and "i = next_movement db"
    and "0 < q" and "ty \<in> set ALLOWED_TYPES" and "0 \<le> current_stock p + movement_delta ty q"
    and "db' = set_product pid (\<lambda>r. r\<lparr>current_stock := current_stock p + movement_delta ty q\<rparr>)
      (add_movement pid ty q ref notes uid db)"
  using assms unfolding sp_movement_record_def
  by (auto simp: bindE_Ok_iff Let_def split: option.splits dest!: insert_movement_Ok)

lemma find_set_product:
  "(\<And>p. prod_id (f p) = prod_id p) \<Longrightarrow>
   find_product k (set_product pid f db) =
     (if k = pid then map_option f (find_product pid db) else find_product k db)"
  by (simp add: find_product_def set_product_def find_row_update_same find_row_update_other)

lemma set_product_simps [simp]:
  "movements (set_product pid f db) = movements db" "next_movement (set_product pid f db) = next_movement db"
  "user_ids (set_product pid f db) = user_ids db" "today (set_product pid f db) = today db"
  "audit_log (set_product pid f db) = audit_log db"
  by (simp_all add: set_product_def)

lemma find_product_movements [simp]:
  "find_product k (add_movement pid ty q ref notes uid db) = find_product k db"
  by (simp add: find_product_def add_movement_def)

lemma set_product_ok:
  assumes "inv_db_ok db" and "\<And>p. prod_id (f p) = prod_id p"
    and "\<And>p. p \<in> set (products db) \<Longrightarrow> prod_id p = pid \<Longrightarrow> 0 \<le> current_stock (f p)"
  shows "inv_db_ok (set_product pid f db)"
  using assms by (auto simp: inv_db_ok_def set_product_def) (auto simp: update_where_def)

lemma sp_movement_record_ok:
  assumes "sp_movement_record pid ty q ref notes uid db = Ok (i, db')" and "inv_db_ok db"
  shows "inv_db_ok db'"
proof -
  from assms(1) obtain p where p: "live_product pid db = Some p" "i = next_movement db" "0 < q"
    "ty \<in> set ALLOWED_TYPES" "0 \<le> current_stock p + movement_delta ty q"
    "db' = set_product pid (\<lambda>r. r\<lparr>current_stock := current_stock p + movement_delta ty q\<rparr>)
      (add_movement pid ty q ref notes uid db)"
    by (rule sp_movement_record_Ok)
  show ?thesis unfolding p(6)
    by (rule set_product_ok) (use assms(2) p in \<open>auto simp: inv_db_ok_def add_movement_def\<close>)
qed

lemma sp_movement_record_stock:
  assumes "sp_movement_record pid ty q ref notes uid db = Ok (i, db')" and "inv_db_ok db"
  shows "stock_of k db' = stock_of k db + (if k = pid then movement_delta ty q else 0)"
    and "ledger_sum k db' = ledger_sum k db + (if k = pid then movement_delta ty q else 0)"
proof -
  from assms(1) obtain p where p: "live_product pid db = Some p" "i = next_movement db" "0 < q"
    "ty \<in> set ALLOWED_TYPES" "0 \<le> current_stock p + movement_delta ty q"
    "db' = set_product pid (\<lambda>r. r\<lparr>current_stock := current_stock p + movement_delta ty q\<rparr>)
      (add_movement pid ty q ref notes uid db)"
    by (rule sp_movement_record_Ok)
  have f: "find_product pid db = Some p"
    using p(1) assms(2) by (auto simp: inv_db_ok_def intro: live_product_find)
  show "stock_of k db' = stock_of k db + (if k = pid then movement_delta ty q else 0)"
    by (simp add: stock_of_def p(6) find_set_product f)
  show "ledger_sum k db' = ledger_sum k db + (if k = pid then movement_delta ty q else 0)"
    by (simp add: p(6) ledger_sum_def signed_def add_movement_def)
qed

section \<open>The service as a system of calls\<close>

record 'a movement_call =
  mc_audit_ok :: bool
  mc_seen :: "'a inv_db_scheme"
  mc_req :: movement_req

definition movement_step :: "'a movement_call \<Rightarrow> 'a inv_db_scheme \<Rightarrow> 'a inv_db_scheme" where
  "movement_step c db = snd (record_movement (mc_audit_ok c) (mc_seen c) (mc_req c) db)"

text \<open>What a call that got through the checks writes.\<close>

definition movement_written :: "'a movement_call \<Rightarrow> 'a inv_db_scheme \<Rightarrow> (int \<times> 'a inv_db_scheme) option" where
  "movement_written c db = (case precheck_movement (mc_req c) (mc_seen c) of
      Inl _ \<Rightarrow> None
    | Inr _ \<Rightarrow> (case repo_record_movement (the (rq_product (mc_req c))) (rq_type (mc_req c))
          (the (rq_quantity (mc_req c))) (strip_or_none (rq_reference (mc_req c)))
          (strip_or_none (rq_notes (mc_req c))) (rq_user (mc_req c)) db of
        Inl _ \<Rightarrow> None | Inr r \<Rightarrow> Some r))"

definition movement_effect :: "int \<Rightarrow> 'a movement_call \<Rightarrow> 'a inv_db_scheme \<Rightarrow> int" where
  "movement_effect k c db = (if movement_written c db \<noteq> None \<and> rq_product (mc_req c) = Some k
     then movement_delta (rq_type (mc_req c)) (the (rq_quantity (mc_req c))) else 0)"

lemma precheck_product: "precheck_movement rq seen = Ok r \<Longrightarrow> \<exists>pid. rq_product rq = Some pid \<and> pid \<noteq> 0"
  by (auto simp: precheck_movement_def split: option.splits if_splits)

lemma repo_record_Ok: "repo_record_movement pid ty q ref notes uid db = Ok r \<Longrightarrow>
    sp_movement_record pid ty q ref notes uid db = Ok r"
  by (simp add: repo_record_movement_def bindE_Ok_iff)

lemma movement_step_cases:
  "(movement_written c db = None \<longrightarrow> movement_step c db = db) \<and>
   (\<forall>i db'. movement_written c db = Some (i, db') \<longrightarrow>
     (\<exists>al. movement_step c db = db'\<lparr>audit_log := al\<rparr>))"
proof (cases "precheck_movement (mc_req c) (mc_seen c)")
  case (Inl e) then show ?thesis by (simp add: movement_step_def record_movement_def movement_written_def)
next
  case (Inr r)
  obtain p n where r: "r = (p, n)" by (cases r)
  show ?thesis
  proof (cases "repo_record_movement (the (rq_product (mc_req c))) (rq_type (mc_req c))
          (the (rq_quantity (mc_req c))) (strip_or_none (rq_reference (mc_req c)))
          (strip_or_none (rq_notes (mc_req c))) (rq_user (mc_req c)) db")
    case (Inl e)
    then show ?thesis
      by (cases e) (simp_all add: movement_step_def record_movement_def movement_written_def Inr r)
  next
    case ok: (Inr w)
    obtain i db' where w: "w = (i, db')" by (cases w)
    have "\<exists>al. db' = db'\<lparr>audit_log := al\<rparr>" by (rule exI[of _ "audit_log db'"]) simp
    then show ?thesis using Inr ok r w
      by (auto simp: movement_step_def record_movement_def movement_written_def)
  qed
qed

lemma audit_irrelevant [simp]:
  "inv_db_ok (db\<lparr>audit_log := al\<rparr>) = inv_db_ok db" "stock_of k (db\<lparr>audit_log := al\<rparr>) = stock_of k db"
  "ledger_sum k (db\<lparr>audit_log := al\<rparr>) = ledger_sum k db"
  by (simp_all add: inv_db_ok_def stock_of_def ledger_sum_def find_product_def)

lemma movement_written_sp:
  "movement_written c db = Some (i, db') \<Longrightarrow> \<exists>pid. rq_product (mc_req c) = Some pid \<and>
     sp_movement_record pid (rq_type (mc_req c)) (the (rq_quantity (mc_req c)))
       (strip_or_none (rq_reference (mc_req c))) (strip_or_none (rq_notes (mc_req c)))
       (rq_user (mc_req c)) db = Ok (i, db')"
  by (auto simp: movement_written_def split: sum.splits prod.splits
      dest!: precheck_product repo_record_Ok)

lemma movement_step_ok: assumes "inv_db_ok db" shows "inv_db_ok (movement_step c db)"
proof (cases "movement_written c db")
  case None then show ?thesis using assms movement_step_cases[of c db] by simp
next
  case (Some w)
  then obtain i db' al where w: "w = (i, db')" "movement_step c db = db'\<lparr>audit_log := al\<rparr>"
    using movement_step_cases[of c db] by (cases w) auto
  then show ?thesis using movement_written_sp[of c db i db'] Some assms
    by (auto dest: sp_movement_record_ok)
qed

lemma movement_step_levels:
  assumes "inv_db_ok db"
  shows "stock_of k (movement_step c db) = stock_of k db + movement_effect k c db"
    and "ledger_sum k (movement_step c db) = ledger_sum k db + movement_effect k c db"
proof -
  have "stock_of k (movement_step c db) = stock_of k db + movement_effect k c db \<and>
    ledger_sum k (movement_step c db) = ledger_sum k db + movement_effect k c db"
  proof (cases "movement_written c db")
    case None then show ?thesis using movement_step_cases[of c db] by (simp add: movement_effect_def)
  next
    case (Some w)
    then obtain i db' al where w: "w = (i, db')" "movement_step c db = db'\<lparr>audit_log := al\<rparr>"
      using movement_step_cases[of c db] by (cases w) auto
    obtain pid where "rq_product (mc_req c) = Some pid"
      "sp_movement_record pid (rq_type (mc_req c)) (the (rq_quantity (mc_req c)))
       (strip_or_none (rq_reference (mc_req c))) (strip_or_none (rq_notes (mc_req c)))
       (rq_user (mc_req c)) db = Ok (i, db')"
      using movement_written_sp[of c db i db'] Some w by auto
    then show ?thesis using sp_movement_record_stock[OF _ assms, of pid] w Some
      by (auto simp: movement_effect_def)
  qed
  then show "stock_of k (movement_step c db) = stock_of k db + movement_effect k c db"
    "ledger_sum k (movement_step c db) = ledger_sum k db + movement_effect k c db" by auto
qed

interpretation stock_account: accounted_system movement_step inv_db_ok stock_of movement_effect
  by unfold_locales (auto intro: movement_step_ok movement_step_levels)

interpretation ledger_account: accounted_system movement_step inv_db_ok ledger_sum movement_effect
  by unfold_locales (auto intro: movement_step_levels)

lemma stock_of_nonneg: "inv_db_ok db \<Longrightarrow> 0 \<le> stock_of k db"
  by (auto simp: stock_of_def find_product_def inv_db_ok_def dest: find_row_Some split: option.split)

section \<open>Listing, counting and exporting\<close>

text \<open>\<open>iso_ok\<close> says whether \<open>datetime.fromisoformat\<close> accepts a text (after \<open>Z\<close> became \<open>+00:00\<close>) and
  \<open>day_of\<close> is the server's cast of it to a date; both are arguments.\<close>

record movement_filter =
  mf_types :: "string list option"
  mf_from :: "string option"
  mf_to :: "string option"
  mf_product :: "int option"
  mf_user :: "int option"

definition sort_fields :: "string list" where
  "sort_fields = [''created_at'', ''type'', ''product'', ''user'', ''quantity'']"

definition check_sort :: "string \<Rightarrow> string \<Rightarrow> string \<Rightarrow> unit result" where
  "check_sort what sort_by sort_order =
     bindE (ensure (sort_by \<in> set sort_fields) (MovementError (''sort_by must be one of '' @
        py_repr_list [''created_at'', ''product'', ''quantity'', ''type'', ''user'']))) (\<lambda>_.
     ensure (sort_order = ''asc'' \<or> sort_order = ''desc'')
       (MovementError (what @ '' must be '' @ quoted ''asc'' @ '' or '' @ quoted ''desc'')))"

definition check_filter :: "(string \<Rightarrow> bool) \<Rightarrow> movement_filter \<Rightarrow> unit result" where
  "check_filter iso_ok f =
     bindE (case mf_types f of None \<Rightarrow> Ok () | Some ts \<Rightarrow>
        (case List.find (\<lambda>t. t \<notin> set ALLOWED_TYPES) ts of None \<Rightarrow> Ok ()
         | Some t \<Rightarrow> Err (MovementError (''Invalid type: '' @ t @ ''. Must be one of '' @
             py_repr_list [''ADJUSTMENT'', ''IN'', ''OUT'', ''RETURN''])))) (\<lambda>_.
     bindE (ensure (case mf_from f of Some d \<Rightarrow> iso_ok d | None \<Rightarrow> True)
        (MovementError ''date_from must be ISO 8601 format'')) (\<lambda>_.
     ensure (case mf_to f of Some d \<Rightarrow> iso_ok d | None \<Rightarrow> True)
        (MovementError ''date_to must be ISO 8601 format'')))"

definition matches :: "(string \<Rightarrow> int) \<Rightarrow> movement_filter \<Rightarrow> movement \<Rightarrow> bool" where
  "matches day_of f m = (\<not> mv_deleted m \<and>
     (case mf_types f of None \<Rightarrow> True | Some ts \<Rightarrow> mv_type m \<in> set ts) \<and>
     (case mf_from f of None \<Rightarrow> True | Some d \<Rightarrow> day_of d \<le> mv_day m) \<and>
     (case mf_to f of None \<Rightarrow> True | Some d \<Rightarrow> mv_day m \<le> day_of d) \<and>
     (case mf_product f of None \<Rightarrow> True | Some i \<Rightarrow> mv_product m = i) \<and>
     (case mf_user f of None \<Rightarrow> True | Some u \<Rightarrow> mv_user m = Some u))"

text \<open>\<open>ORDER BY\<close> has no tie-breaker, so the order among equal keys is the server's: \<open>order_by\<close> is an
  argument, some arrangement of the rows for each field and direction.\<close>

definition sp_movement_list ::
  "(string \<Rightarrow> int) \<Rightarrow> (string \<Rightarrow> bool \<Rightarrow> movement list \<Rightarrow> movement list) \<Rightarrow> movement_filter \<Rightarrow> int \<Rightarrow> int \<Rightarrow>
   string \<Rightarrow> string \<Rightarrow> 'a inv_db_scheme \<Rightarrow> movement list \<times> int" where
  "sp_movement_list day_of order_by f page per_page sort_by sort_order db =
     (let page = (if page < 1 then 1 else page);
          per_page = (if per_page < 1 then 20 else if 100 < per_page then 100 else per_page);
          rows = filter (matches day_of f) (movements db)
      in (take (nat per_page) (drop (nat ((page - 1) * per_page)) (order_by sort_by (sort_order = ''asc'') rows)),
          int (length rows)))"

definition list_movements ::
  "(string \<Rightarrow> bool) \<Rightarrow> (string \<Rightarrow> int) \<Rightarrow> (string \<Rightarrow> bool \<Rightarrow> movement list \<Rightarrow> movement list) \<Rightarrow>
   movement_filter \<Rightarrow> int \<Rightarrow> int \<Rightarrow> string \<Rightarrow> string \<Rightarrow> 'a inv_db_scheme \<Rightarrow> movement list result" where
  "list_movements iso_ok day_of order_by f page per_page sort_by sort_order db =
     bindE (ensure (1 \<le> page) (MovementError ''Page must be >= 1'')) (\<lambda>_.
     bindE (ensure (1 \<le> per_page) (MovementError ''Per page must be >= 1'')) (\<lambda>_.
     bindE (check_sort ''Sort order'' sort_by sort_order) (\<lambda>_.
     bindE (check_filter iso_ok f) (\<lambda>_.
     Ok (fst (sp_movement_list day_of order_by f page (min per_page 100) sort_by sort_order db))))))"

definition get_movement_count ::
  "(string \<Rightarrow> bool) \<Rightarrow> (string \<Rightarrow> int) \<Rightarrow> movement_filter \<Rightarrow> 'a inv_db_scheme \<Rightarrow> int result" where
  "get_movement_count iso_ok day_of f db =
     bindE (check_filter iso_ok f) (\<lambda>_. Ok (int (length (filter (matches day_of f) (movements db)))))"

definition export_movements ::
  "(string \<Rightarrow> bool) \<Rightarrow> (string \<Rightarrow> int) \<Rightarrow> (string \<Rightarrow> bool \<Rightarrow> movement list \<Rightarrow> movement list) \<Rightarrow>
   movement_filter \<Rightarrow> string \<Rightarrow> string \<Rightarrow> int \<Rightarrow> 'a inv_db_scheme \<Rightarrow> movement list result" where
  "export_movements iso_ok day_of order_by f sort_by sort_order limit db =
     bindE (ensure (1 \<le> limit) (MovementError ''Limit must be >= 1'')) (\<lambda>_.
     bindE (check_sort ''sort_order'' sort_by sort_order) (\<lambda>_.
     bindE (check_filter iso_ok f) (\<lambda>_.
     Ok (take (nat (min limit 5000))
       (order_by sort_by (sort_order = ''asc'') (filter (matches day_of f) (movements db)))))))"

definition get_product_movements ::
  "(string \<Rightarrow> bool) \<Rightarrow> (string \<Rightarrow> int) \<Rightarrow> (string \<Rightarrow> bool \<Rightarrow> movement list \<Rightarrow> movement list) \<Rightarrow>
   int \<Rightarrow> movement_filter \<Rightarrow> int \<Rightarrow> int \<Rightarrow> string \<Rightarrow> string \<Rightarrow> 'a inv_db_scheme \<Rightarrow> movement list result" where
  "get_product_movements iso_ok day_of order_by pid f page per_page sort_by sort_order db =
     (case live_product pid db of
        None \<Rightarrow> Err (MovementError (''Product '' @ int_str pid @ '' not found''))
      | Some p \<Rightarrow> list_movements iso_ok day_of order_by (f\<lparr>mf_product := Some pid\<rparr>) page per_page
                    sort_by sort_order db)"

text \<open>The page count the ledger page computes from the total.\<close>

definition page_count :: "int \<Rightarrow> int \<Rightarrow> int" where
  "page_count n per_page = max ((n + per_page - 1) div per_page) 1"

lemma pages_tile:
  assumes "0 < n" shows "concat (map (\<lambda>i. take n (drop (i * n) xs)) [0..<k]) = take (k * n) xs"
proof (induction k)
  case (Suc k)
  have "take (k * n) xs @ take n (drop (k * n) xs) = take (k * n + n) xs" by (simp add: take_add)
  then show ?case using Suc by (simp add: add.commute)
qed simp

section \<open>Properties\<close>

text \<open>C1: Stock is always accounted for by the movement ledger and never negative.  Over any sequence
  of \<open>MovementService.record\<close> calls, each of them pre-checking against an arbitrarily stale or even
  unrelated view of the database and with its audit insert succeeding or failing, the stock of every
  product changes by exactly the signed sum of the movement rows that were added for it, and never
  falls below zero.\<close>

theorem stock_equals_ledger:
  assumes "inv_db_ok db"
  shows "0 \<le> stock_of k (run movement_step cs db) \<and>
    stock_of k (run movement_step cs db) - stock_of k db
      = ledger_sum k (run movement_step cs db) - ledger_sum k db"
  using stock_account.level_run[OF assms, of k cs] ledger_account.level_run[OF assms, of k cs]
    stock_of_nonneg[OF stock_account.inv_run[OF assms, of cs], of k] by simp

text \<open>A product with five units, and a stock-out of seven that was pre-checked against nine.\<close>

definition demo_product :: "int \<Rightarrow> product" where
  "demo_product n = \<lparr>prod_id = 1, sku = ''NUT-1'', prod_name = ''Nut'', warehouse = ''WH-Pune'',
     current_stock = n, reorder_point = 10, on_order = 0, demand_rate = 0, ordering_cost = 0,
     holding_cost = 0, unit_price = 2, supplier_id = Some 1, prod_deleted = False\<rparr>"

definition demo_db :: "int \<Rightarrow> inv_db" where
  "demo_db n = \<lparr>products = [demo_product n], movements = [], next_movement = 1, user_ids = [1],
     audit_log = [], today = 0\<rparr>"

definition demo_req :: "string \<Rightarrow> int \<Rightarrow> movement_req" where
  "demo_req ty q = \<lparr>rq_product = Some 1, rq_type = ty, rq_quantity = Some q, rq_reference = None,
     rq_notes = None, rq_user = Some 1\<rparr>"

lemma demo_db_ok: "0 \<le> n \<Longrightarrow> inv_db_ok (demo_db n)"
  by (simp add: inv_db_ok_def demo_db_def demo_product_def)

theorem stock_equals_ledger_witness:
  "0 \<le> stock_of 1 (run movement_step
      [\<lparr>mc_audit_ok = True, mc_seen = demo_db 9, mc_req = demo_req ''OUT'' 7\<rparr>,
       \<lparr>mc_audit_ok = True, mc_seen = demo_db 5, mc_req = demo_req ''IN'' 3\<rparr>] (demo_db 5))"
  using stock_equals_ledger[OF demo_db_ok[of 5], of 1
      "[\<lparr>mc_audit_ok = True, mc_seen = demo_db 9, mc_req = demo_req ''OUT'' 7\<rparr>,
       \<lparr>mc_audit_ok = True, mc_seen = demo_db 5, mc_req = demo_req ''IN'' 3\<rparr>]"] by simp

lemma record_movement_Ok_iff:
  "(\<exists>i. fst (record_movement True seen rq db) = Ok i) \<longleftrightarrow>
   (\<exists>r. precheck_movement rq seen = Ok r) \<and>
   (\<exists>w. repo_record_movement (the (rq_product rq)) (rq_type rq) (the (rq_quantity rq))
               (strip_or_none (rq_reference rq)) (strip_or_none (rq_notes rq)) (rq_user rq) db = Ok w)"
  by (auto simp: record_movement_def split: sum.splits prod.splits pyexc.splits if_splits)

lemma precheck_Ok_iff:
  assumes "rq = \<lparr>rq_product = Some pid, rq_type = ty, rq_quantity = Some q, rq_reference = ref,
      rq_notes = notes, rq_user = uid\<rparr>"
  shows "(\<exists>r. precheck_movement rq seen = Ok r) \<longleftrightarrow> pid \<noteq> 0 \<and> ty \<in> set ALLOWED_TYPES \<and> 0 < q \<and>
    (\<exists>p. live_product pid seen = Some p \<and>
      (ty = ''OUT'' \<longrightarrow> 0 \<le> current_stock p - q) \<and> (ty = ''ADJUSTMENT'' \<longrightarrow> 0 \<le> current_stock p + q))"
  by (simp add: precheck_movement_def assms not_le split: option.split)

lemma insert_Ok_iff:
  "(\<exists>w. insert_movement pid ty q ref notes uid db = Ok w) \<longleftrightarrow>
    (case ref of Some r \<Rightarrow> length r \<le> 100 | None \<Rightarrow> True) \<and>
    trg_validate_movement pid ty q db = Ok () \<and> ty \<in> set ALLOWED_TYPES \<and> 0 < q \<and>
    (case uid of Some u \<Rightarrow> u \<in> set (user_ids db) | None \<Rightarrow> True)"
  by (auto simp: insert_movement_def bindE_Ok_iff)

lemma trg_Ok_iff:
  assumes "find_product pid db = Some p"
  shows "trg_validate_movement pid ty q db = Ok () \<longleftrightarrow>
    (ty = ''OUT'' \<longrightarrow> 0 \<le> current_stock p - q) \<and> (ty = ''ADJUSTMENT'' \<longrightarrow> 0 \<le> current_stock p + q)"
  by (auto simp: trg_validate_movement_def assms not_le)

lemma repo_record_Ok_iff:
  "(\<exists>w. repo_record_movement pid ty q ref notes uid db = Ok w) \<longleftrightarrow>
    (\<exists>p. live_product pid db = Some p \<and> int4 pid \<and> int4 q \<and> ty \<in> set ALLOWED_TYPES \<and>
      int4 (movement_delta ty q) \<and> int4 (current_stock p + movement_delta ty q) \<and>
      0 \<le> current_stock p + movement_delta ty q) \<and>
    (\<exists>w. insert_movement pid ty q ref notes uid db = Ok w)"
  by (auto simp: repo_record_movement_def sp_movement_record_def bindE_Ok_iff Let_def split: option.splits)

text \<open>What an accepted call leaves behind.\<close>

definition movement_booked :: "movement_req \<Rightarrow> int \<Rightarrow> 'a inv_db_scheme \<Rightarrow> 'a inv_db_scheme \<Rightarrow> bool" where
  "movement_booked rq i db db' \<longleftrightarrow> i = next_movement db \<and> next_movement db' = i + 1 \<and>
     (\<exists>p pid q. rq_product rq = Some pid \<and> rq_quantity rq = Some q \<and> live_product pid db = Some p \<and>
       (let new = current_stock p + movement_delta (rq_type rq) q in
        products db' = update_where (\<lambda>r. prod_id r = pid) (\<lambda>r. r\<lparr>current_stock := new\<rparr>) (products db) \<and>
        movements db' = movements db @ [\<lparr>mv_id = i, mv_product = pid, mv_type = rq_type rq, mv_quantity = q,
          mv_reference = strip_or_none (rq_reference rq), mv_notes = strip_or_none (rq_notes rq), mv_user = rq_user rq,
          mv_day = today db, mv_deleted = False\<rparr>] \<and>
        audit_log db' = audit_log db @ [\<lparr>ma_user = rq_user rq, ma_action = ''movement.record'', ma_target = i,
          ma_product = pid, ma_sku = sku p, ma_type = rq_type rq, ma_quantity = q, ma_new_stock = new\<rparr>]))"

lemma record_movement_booked:
  assumes "record_movement True db rq db = (Ok i, db')"
  shows "movement_booked rq i db db'"
proof -
  obtain p n where pre: "precheck_movement rq db = Ok (p, n)"
    using assms by (cases "precheck_movement rq db") (auto simp: record_movement_def)
  then obtain pid q where rq: "rq_product rq = Some pid" "rq_quantity rq = Some q" "live_product pid db = Some p"
      "rq_type rq \<in> set ALLOWED_TYPES" "n = current_stock p + movement_delta (rq_type rq) q"
    by (auto simp: precheck_movement_def movement_delta_def split: option.splits if_splits)
  let ?w = "repo_record_movement pid (rq_type rq) q (strip_or_none (rq_reference rq)) (strip_or_none (rq_notes rq)) (rq_user rq) db"
  obtain db1 where w: "?w = Ok (i, db1)"
      and db': "db' = db1\<lparr>audit_log := audit_log db1 @ [\<lparr>ma_user = rq_user rq, ma_action = ''movement.record'', ma_target = i,
          ma_product = pid, ma_sku = sku p, ma_type = rq_type rq, ma_quantity = q, ma_new_stock = n\<rparr>]\<rparr>"
    using assms pre rq(1,2) by (cases ?w) (auto simp: record_movement_def split: pyexc.splits if_splits)
  obtain p' where p': "live_product pid db = Some p'" "i = next_movement db"
      "db1 = set_product pid (\<lambda>r. r\<lparr>current_stock := current_stock p' + movement_delta (rq_type rq) q\<rparr>)
        (add_movement pid (rq_type rq) q (strip_or_none (rq_reference rq)) (strip_or_none (rq_notes rq)) (rq_user rq) db)"
    using repo_record_Ok[OF w] by (auto elim!: sp_movement_record_Ok)
  then show ?thesis using rq by (simp add: movement_booked_def db' set_product_def add_movement_def Let_def)
qed

text \<open>C8: A movement request is accepted exactly when its product exists and is not deleted, its type
  is one of the four, its quantity is positive and fits a 32-bit integer, the resulting stock fits and
  is not negative, the reference fits its column and the user exists; and then the call returns the
  new row's id, the stock has moved by the signed quantity, and one ledger row and one audit row are
  added, with the values of the request; a refused request changes nothing.  (The audit insert is taken to succeed;
  what its failure leaves is \<open>record_movement_atomicity\<close>.)\<close>

theorem record_movement_accepts:
  assumes "inv_db_ok db"
    and "rq = \<lparr>rq_product = Some pid, rq_type = ty, rq_quantity = Some q, rq_reference = ref,
      rq_notes = notes, rq_user = uid\<rparr>"
  shows "((\<exists>i. fst (record_movement True db rq db) = Ok i) \<longleftrightarrow>
     (\<exists>p. live_product pid db = Some p \<and> int4 (current_stock p + movement_delta ty q) \<and>
       0 \<le> current_stock p + movement_delta ty q) \<and>
     pid \<noteq> 0 \<and> int4 pid \<and> ty \<in> set ALLOWED_TYPES \<and> 0 < q \<and> int4 q \<and>
     (case strip_or_none ref of Some r \<Rightarrow> length r \<le> 100 | None \<Rightarrow> True) \<and>
     (case uid of Some u \<Rightarrow> u \<in> set (user_ids db) | None \<Rightarrow> True)) \<and>
     (case record_movement True db rq db of (Inr i, db') \<Rightarrow> movement_booked rq i db db' | (Inl e, db') \<Rightarrow> db' = db)"
    (is "(?accepted \<longleftrightarrow> ?ok) \<and> ?after")
proof (intro conjI)
  have "db' = db" if "record_movement True db rq db = (Inl e, db')" for e db'
    using that by (auto simp: record_movement_def split: sum.splits prod.splits pyexc.splits if_splits)
  then show ?after using record_movement_booked by (auto split: prod.split sum.split)
next
  show "?accepted \<longleftrightarrow> ?ok"
proof (cases "live_product pid db")
  case None
  then show ?thesis unfolding record_movement_Ok_iff precheck_Ok_iff[OF assms(2)] by simp
next
  case (Some p)
  have find: "find_product pid db = Some p" using Some assms(1) live_product_find by (auto simp: inv_db_ok_def)
  let ?ref = "case strip_or_none ref of Some r \<Rightarrow> length r \<le> 100 | None \<Rightarrow> True"
  let ?usr = "case uid of Some u \<Rightarrow> u \<in> set (user_ids db) | None \<Rightarrow> True"
  have written: "(\<exists>w. repo_record_movement (the (rq_product rq)) (rq_type rq) (the (rq_quantity rq))
      (strip_or_none (rq_reference rq)) (strip_or_none (rq_notes rq)) (rq_user rq) db = Ok w) \<longleftrightarrow>
    int4 pid \<and> int4 q \<and> ty \<in> set ALLOWED_TYPES \<and> int4 (movement_delta ty q) \<and>
    int4 (current_stock p + movement_delta ty q) \<and> 0 \<le> current_stock p + movement_delta ty q \<and>
    ?ref \<and> 0 < q \<and> ?usr"
    unfolding assms(2) movement_req.select_convs option.sel repo_record_Ok_iff insert_Ok_iff
      trg_Ok_iff[OF find] Some
    by (auto simp: movement_delta_def)
  have d: "int4 (movement_delta ty q)" if "int4 q" "0 < q" using that by (auto simp: movement_delta_def int4_def)
  have pre: "0 \<le> current_stock p + movement_delta ty q \<Longrightarrow>
    (ty = ''OUT'' \<longrightarrow> 0 \<le> current_stock p - q) \<and> (ty = ''ADJUSTMENT'' \<longrightarrow> 0 \<le> current_stock p + q)"
    by (auto simp: movement_delta_def)
  show ?thesis
    unfolding record_movement_Ok_iff precheck_Ok_iff[OF assms(2)] written Some using d pre by blast
qed
qed

theorem record_movement_accepts_witness:
  "\<exists>i db'. record_movement True (demo_db 5) (demo_req ''OUT'' 3) (demo_db 5) = (Ok i, db') \<and>
     movement_booked (demo_req ''OUT'' 3) i (demo_db 5) db'"
  using record_movement_accepts[OF demo_db_ok[of 5], of "demo_req ''OUT'' 3" 1 "''OUT''" 3 None None "Some 1"]
  by (cases "record_movement True (demo_db 5) (demo_req ''OUT'' 3) (demo_db 5)") (auto split: sum.splits simp: demo_req_def live_product_def find_row_def demo_db_def demo_product_def
      ALLOWED_TYPES_def int4_def movement_delta_def strip_or_none_def strip_def lstrip_def rstrip_def)

text \<open>A refused movement changes nothing, and the stock guards of the database surface as
  MovementErrors.  The audit insert is not part of the transaction and its failure is not caught:
  then the caller gets an error although stock and ledger have changed exactly as in the successful
  call, so a retry books the movement a second time.\<close>

theorem record_movement_atomicity:
  "case record_movement True seen rq db of
     (Inl e, db') \<Rightarrow> db' = db \<and> record_movement False seen rq db = (Inl e, db) \<and>
        (\<forall>m. e = DbRaise m \<longrightarrow> \<not> is_guard_error (DbRaise m) stock_guards)
   | (Inr i, db') \<Rightarrow> (\<exists>db''. record_movement False seen rq db
          = (Err (DbOperational ''audit insert failed''), db'') \<and>
        products db'' = products db' \<and> movements db'' = movements db' \<and>
        i = next_movement db \<and> next_movement db' = next_movement db + 1)"
proof (cases "precheck_movement rq seen")
  case (Inl e)
  then have "\<not> is_guard_error (DbRaise m) stock_guards" if "e = DbRaise m" for m
    using that by (auto simp: precheck_movement_def split: option.splits if_splits)
  then show ?thesis using Inl by (auto simp: record_movement_def)
next
  case pre: (Inr r)
  obtain p n where r: "r = (p, n)" by (cases r)
  let ?w = "repo_record_movement (the (rq_product rq)) (rq_type rq) (the (rq_quantity rq))
               (strip_or_none (rq_reference rq)) (strip_or_none (rq_notes rq)) (rq_user rq) db"
  show ?thesis
  proof (cases ?w)
    case (Inl e)
    then show ?thesis by (cases e) (auto simp: record_movement_def pre r)
  next
    case ok: (Inr w)
    obtain i db' where w: "w = (i, db')" by (cases w)
    have "sp_movement_record (the (rq_product rq)) (rq_type rq) (the (rq_quantity rq))
       (strip_or_none (rq_reference rq)) (strip_or_none (rq_notes rq)) (rq_user rq) db = Ok (i, db')"
      using repo_record_Ok[OF ok[unfolded w]] .
    then have "i = next_movement db" "next_movement db' = next_movement db + 1"
      by (auto elim!: sp_movement_record_Ok simp: add_movement_def)
    then show ?thesis using ok w by (simp add: record_movement_def pre r)
  qed
qed

theorem record_movement_atomicity_witness:
  "\<exists>db''. record_movement False (demo_db 5) (demo_req ''IN'' 3) (demo_db 5)
      = (Err (DbOperational ''audit insert failed''), db'') \<and> map current_stock (products db'') = [8]"
proof -
  have "case record_movement True (demo_db 5) (demo_req ''IN'' 3) (demo_db 5) of
      (Inr i, db') \<Rightarrow> map current_stock (products db') = [8] | _ \<Rightarrow> False" by code_simp
  then show ?thesis
    using record_movement_atomicity[where seen = "demo_db 5" and rq = "demo_req ''IN'' 3" and db = "demo_db 5"]
    by (auto split: prod.splits sum.splits)
qed

text \<open>Paging through the movement list loses and repeats nothing: with a valid filter, sort and
  page size, the pages 1 up to the computed page count, concatenated, are the whole filtered list in
  the server's order, no page has more than \<open>per_page\<close> rows, and the count query returns its length.\<close>

theorem movement_pages_complete:
  assumes "1 \<le> per_page" "per_page \<le> 100"
    and "check_sort ''Sort order'' sort_by sort_order = Ok ()" and "check_filter iso_ok f = Ok ()"
    and "\<And>xs. length (order_by sort_by (sort_order = ''asc'') xs) = length xs"
  shows "let rows = order_by sort_by (sort_order = ''asc'') (filter (matches day_of f) (movements db));
             page = (\<lambda>i. list_movements iso_ok day_of order_by f (int i + 1) per_page sort_by sort_order db)
    in get_movement_count iso_ok day_of f db = Ok (int (length rows)) \<and>
       concat (map (\<lambda>i. case page i of Inr r \<Rightarrow> r | Inl _ \<Rightarrow> [])
         [0..<nat (page_count (int (length rows)) per_page)]) = rows \<and>
       (\<forall>i. \<exists>r. page i = Ok r \<and> length r \<le> nat per_page)"
proof -
  define rows where "rows = order_by sort_by (sort_order = ''asc'') (filter (matches day_of f) (movements db))"
  define n where "n = nat per_page"
  have n: "0 < n" "int n = per_page" using assms(1) by (simp_all add: n_def)
  have page: "list_movements iso_ok day_of order_by f (int i + 1) per_page sort_by sort_order db
      = Ok (take n (drop (i * n) rows))" for i
  proof -
    have "nat (int i * per_page) = i * n" unfolding n(2)[symmetric] by (simp flip: of_nat_mult)
    then show ?thesis using assms
      by (simp add: list_movements_def sp_movement_list_def Let_def rows_def n_def)
  qed
  have "int (length rows) \<le> page_count (int (length rows)) per_page * per_page"
  proof -
    let ?a = "int (length rows) + per_page - 1"
    have "(?a div per_page) * per_page + ?a mod per_page = ?a" by (rule div_mult_mod_eq)
    moreover have "?a mod per_page < per_page" using assms(1) by simp
    ultimately have "int (length rows) \<le> (?a div per_page) * per_page" by linarith
    also have "\<dots> \<le> page_count (int (length rows)) per_page * per_page"
      using assms(1) by (intro mult_right_mono) (auto simp: page_count_def)
    finally show ?thesis .
  qed
  moreover have "0 \<le> page_count (int (length rows)) per_page" by (simp add: page_count_def)
  ultimately have "length rows \<le> nat (page_count (int (length rows)) per_page) * n"
    unfolding n(2)[symmetric] by (metis nat_0_le of_nat_le_iff of_nat_mult)
  then have "concat (map (\<lambda>i. take n (drop (i * n) rows))
      [0..<nat (page_count (int (length rows)) per_page)]) = rows"
    by (simp add: pages_tile[OF n(1)])
  then show ?thesis using assms(4,5) page
    by (simp add: Let_def rows_def[symmetric] get_movement_count_def n_def)
      (simp add: rows_def)
qed

definition any_filter :: movement_filter where
  "any_filter = \<lparr>mf_types = Some [''IN'', ''OUT''], mf_from = None, mf_to = None, mf_product = None,
     mf_user = None\<rparr>"

definition demo_movement :: "int \<Rightarrow> movement" where
  "demo_movement i = \<lparr>mv_id = i, mv_product = 1, mv_type = ''IN'', mv_quantity = i, mv_reference = None,
     mv_notes = None, mv_user = None, mv_day = i, mv_deleted = False\<rparr>"

theorem movement_pages_complete_witness:
  "concat (map (\<lambda>i. case list_movements (\<lambda>_. True) (\<lambda>_. 0) (\<lambda>_ asc xs. if asc then xs else rev xs) any_filter
      (int i + 1) 2 ''created_at'' ''desc'' ((demo_db 5)\<lparr>movements := map demo_movement [1, 2, 3]\<rparr>) of
      Inr r \<Rightarrow> r | Inl _ \<Rightarrow> []) [0..<nat (page_count 3 2)]) = map demo_movement [3, 2, 1]"
  using movement_pages_complete[of 2 "''created_at''" "''desc''" "\<lambda>_. True" any_filter
      "\<lambda>_ asc xs. if asc then xs else rev xs" "\<lambda>_. 0" "(demo_db 5)\<lparr>movements := map demo_movement [1, 2, 3]\<rparr>"]
  by (simp add: check_sort_def sort_fields_def check_filter_def any_filter_def ALLOWED_TYPES_def Let_def
      matches_def demo_movement_def)

end
