(* ===== verification/Orders.thy ===== *)
theory Orders
  imports Ledger Roles "HOL-Library.List_Lexorder"
begin

text \<open>Purchase orders: the rows of \<open>purchase_orders\<close> and \<open>goods_receipts\<close>, the state machine
  \<open>sp_po_transition\<close> with \<open>sp_po_create\<close> and \<open>sp_goods_receipt_create\<close>
  (\<open>app/database/procedures.sql\<close>), the repository (\<open>app/repositories/po_repo.py\<close>), \<open>POService\<close>
  (\<open>app/services/po_service.py\<close>) and the routes that create, move, receive and auto-draft orders
  (\<open>app/routes/ui.py\<close>).  The contract of the procedures is that \<open>on_order\<close> of a product is the
  unreceived quantity of its open (approved or in-transit) orders.\<close>

section \<open>Rows\<close>

datatype po_status = Draft | Approved | InTransit | Received | Cancelled

fun status_text :: "po_status \<Rightarrow> string" where
  "status_text Draft = ''draft''"
| "status_text Approved = ''approved''"
| "status_text InTransit = ''in_transit''"
| "status_text Received = ''received''"
| "status_text Cancelled = ''cancelled''"

definition all_statuses :: "po_status list" where
  "all_statuses = [Draft, Approved, InTransit, Received, Cancelled]"

definition status_of :: "string \<Rightarrow> po_status option" where
  "status_of s = List.find (\<lambda>st. status_text st = s) all_statuses"

record purchase_order =
  po_id :: int
  po_number :: string
  po_supplier :: int
  po_product :: int
  po_quantity :: int
  po_unit_cost :: real
  po_status :: po_status
  po_eta :: "string option"
  po_received :: int
  po_deleted :: bool

record goods_receipt =
  gr_id :: int
  gr_po :: int
  gr_quantity :: int
  gr_received_by :: int
  gr_notes :: "string option"
  gr_location :: "string option"
  gr_key :: "string option"

text \<open>\<open>gr_index_partial\<close> records whether the unique index on the receipts' idempotency key has a
  \<open>WHERE\<close> clause; \<open>schema.sql\<close> and the migrations create it with one.\<close>

record po_db = inv_db +
  orders :: "purchase_order list"
  receipts :: "goods_receipt list"
  next_po :: int
  next_receipt :: int
  supplier_ids :: "int list"
  gr_index_partial :: bool

text \<open>An \<open>ON CONFLICT (column)\<close> clause finds a unique index on that column unless the index is partial
  and the clause does not repeat its predicate; without one the statement is an error.\<close>

definition conflict_inferred :: "bool \<Rightarrow> bool \<Rightarrow> bool" where
  "conflict_inferred index_partial clause_has_predicate = (\<not> index_partial \<or> clause_has_predicate)"

definition find_order :: "int \<Rightarrow> 'a po_db_scheme \<Rightarrow> purchase_order option" where
  "find_order i db = find_row (\<lambda>r. po_id r = i \<and> \<not> po_deleted r) (orders db)"

definition set_order :: "int \<Rightarrow> (purchase_order \<Rightarrow> purchase_order) \<Rightarrow> 'a po_db_scheme \<Rightarrow> 'a po_db_scheme" where
  "set_order i f db = db\<lparr>orders := update_where (\<lambda>r. po_id r = i) f (orders db)\<rparr>"

section \<open>The procedures\<close>

text \<open>\<open>UPDATE products SET on_order = ...\<close> of one product; the new value must fit its column.\<close>

definition add_on_order :: "int \<Rightarrow> int \<Rightarrow> 'a inv_db_scheme \<Rightarrow> 'a inv_db_scheme result" where
  "add_on_order pid q db =
     bindE (ensure (case find_product pid db of Some p \<Rightarrow> int4 (on_order p + q) | None \<Rightarrow> True) out_of_range)
       (\<lambda>_. Ok (set_product pid (\<lambda>p. p\<lparr>on_order := on_order p + q\<rparr>) db))"

definition release_on_order :: "int \<Rightarrow> int \<Rightarrow> 'a inv_db_scheme \<Rightarrow> 'a inv_db_scheme result" where
  "release_on_order pid q db =
     bindE (ensure (case find_product pid db of Some p \<Rightarrow> int4 (on_order p - q) | None \<Rightarrow> True) out_of_range)
       (\<lambda>_. Ok (set_product pid (\<lambda>p. p\<lparr>on_order := max (on_order p - q) 0\<rparr>) db))"

definition insert_order ::
  "string \<Rightarrow> int \<Rightarrow> int \<Rightarrow> int \<Rightarrow> real \<Rightarrow> string \<Rightarrow> string option \<Rightarrow> 'a po_db_scheme \<Rightarrow>
   (int \<times> 'a po_db_scheme) result" where
  "insert_order num sid pid q cost st eta db =
     bindE (ensure (length num \<le> 40) (OtherExc ''value too long for type character varying(40)'')) (\<lambda>_.
     bindE (case status_of st of Some s \<Rightarrow> Ok s | None \<Rightarrow>
        Err (DbCheck ''purchase_orders_status_chk'')) (\<lambda>s.
     bindE (ensure (0 < q) (DbCheck ''chk_po_quantity_positive'')) (\<lambda>_.
     bindE (ensure (0 \<le> cost) (DbCheck ''chk_po_unit_cost_nonnegative'')) (\<lambda>_.
     bindE (ensure (num \<notin> po_number ` set (orders db)) (DbUnique ''purchase_orders_po_number_key'')) (\<lambda>_.
     bindE (ensure (sid \<in> set (supplier_ids db)) (DbForeignKey ''purchase_orders_supplier_id_fkey'')) (\<lambda>_.
     bindE (ensure (pid \<in> prod_id ` set (products db)) (DbForeignKey ''purchase_orders_product_id_fkey'')) (\<lambda>_.
     Ok (next_po db, db\<lparr>next_po := next_po db + 1, orders := orders db @
       [\<lparr>po_id = next_po db, po_number = num, po_supplier = sid, po_product = pid, po_quantity = q,
         po_unit_cost = cost, po_status = s, po_eta = eta, po_received = 0, po_deleted = False\<rparr>]\<rparr>))))))))"

definition sp_po_create ::
  "string \<Rightarrow> int \<Rightarrow> int \<Rightarrow> int \<Rightarrow> real \<Rightarrow> string \<Rightarrow> string option \<Rightarrow> 'a po_db_scheme \<Rightarrow>
   (int \<times> 'a po_db_scheme) result" where
  "sp_po_create num sid pid q cost st eta db =
     bindE (ensure (int4 q) out_of_range) (\<lambda>_.
     bindE (insert_order num sid pid q cost st eta db) (\<lambda>(i, db).
       if st = ''approved'' \<or> st = ''in_transit''
       then bindE (add_on_order pid q db) (\<lambda>db. Ok (i, db)) else Ok (i, db)))"

text \<open>The receipt insert returns no id when the key is already there.\<close>

definition sp_goods_receipt_create ::
  "int \<Rightarrow> int \<Rightarrow> int \<Rightarrow> string option \<Rightarrow> string option \<Rightarrow> string option \<Rightarrow> 'a po_db_scheme \<Rightarrow>
   (int option \<times> 'a po_db_scheme) result" where
  "sp_goods_receipt_create i q by_user notes loc key db =
     bindE (ensure (case find_order i db of Some r \<Rightarrow> po_status r = InTransit | None \<Rightarrow> False)
        (DbRaise (''Purchase order '' @ int_str i @ '' not found or not in_transit''))) (\<lambda>_.
     bindE (ensure (by_user \<in> set (user_ids db)) (DbRaise (''User '' @ int_str by_user @ '' not found''))) (\<lambda>_.
     bindE (ensure (conflict_inferred (gr_index_partial db) False) (OtherExc
        ''there is no unique or exclusion constraint matching the ON CONFLICT specification'')) (\<lambda>_.
     bindE (ensure ((case loc of Some l \<Rightarrow> length l \<le> 100 | None \<Rightarrow> True) \<and>
        (case key of Some k \<Rightarrow> length k \<le> 64 | None \<Rightarrow> True)) (OtherExc ''value too long'')) (\<lambda>_.
     bindE (ensure (0 < q) (DbCheck ''chk_gr_quantity_positive'')) (\<lambda>_.
     if key \<noteq> None \<and> key \<in> gr_key ` set (receipts db) then Ok (None, db)
     else Ok (Some (next_receipt db), db\<lparr>next_receipt := next_receipt db + 1, receipts := receipts db @
       [\<lparr>gr_id = next_receipt db, gr_po = i, gr_quantity = q, gr_received_by = by_user, gr_notes = notes,
         gr_location = loc, gr_key = key\<rparr>]\<rparr>))))))"

definition allowed_transition :: "po_status \<Rightarrow> po_status \<Rightarrow> bool" where
  "allowed_transition a b =
     ((a = Draft \<and> (b = Approved \<or> b = Cancelled)) \<or>
      (a = Approved \<and> (b = InTransit \<or> b = Cancelled)) \<or>
      (a = InTransit \<and> (b = Received \<or> b = Cancelled)))"

text \<open>The receive branch of \<open>sp_po_transition\<close>: the receipt first (a replayed key ends the procedure
  with no effect), then the received quantity, the movement funnel, the release of \<open>on_order\<close> and
  the conditional status.\<close>

definition receive_effects ::
  "purchase_order \<Rightarrow> int \<Rightarrow> int option \<Rightarrow> 'a po_db_scheme \<Rightarrow> 'a po_db_scheme result" where
  "receive_effects r v by_user db =
     (let db1 = set_order (po_id r) (\<lambda>x. x\<lparr>po_received := po_received r + v\<rparr>) db in
      bindE (sp_movement_record (po_product r) ''IN'' v (Some (po_number r)) (Some ''PO received'') by_user db1)
        (\<lambda>(m, db2).
      bindE (release_on_order (po_product r) v db2) (\<lambda>db3.
      Ok (set_order (po_id r) (\<lambda>x. x\<lparr>po_status :=
            (if po_quantity r \<le> po_received r + v then Received else InTransit)\<rparr>) db3))))"

definition receive_order ::
  "purchase_order \<Rightarrow> int option \<Rightarrow> int option \<Rightarrow> string option \<Rightarrow> string option \<Rightarrow> string option \<Rightarrow>
   'a po_db_scheme \<Rightarrow> 'a po_db_scheme result" where
  "receive_order r received_qty by_user notes loc key db =
     (let v = (case received_qty of Some q \<Rightarrow> q | None \<Rightarrow> po_quantity r);
          outstanding = po_quantity r - po_received r in
      bindE (ensure (0 < v) (DbRaise ''Receive quantity must be positive'')) (\<lambda>_.
      bindE (ensure (v \<le> outstanding) (DbRaise (''Receive quantity '' @ int_str v
          @ '' exceeds outstanding '' @ int_str outstanding))) (\<lambda>_.
      case by_user of
        None \<Rightarrow> receive_effects r v None db
      | Some u \<Rightarrow>
          bindE (sp_goods_receipt_create (po_id r) v u notes loc key db) (\<lambda>(receipt, db1).
          if key \<noteq> None \<and> receipt = None then
            (if \<exists>g\<in>set (receipts db). gr_key g = key \<and> gr_po g = po_id r \<and> gr_quantity g = v
             then Ok db
             else Err (DbRaise (''Idempotency key '' @ the key @ '' reused with different PO/quantity'')))
          else receive_effects r v (Some u) db1))))"

definition sp_po_transition ::
  "int \<Rightarrow> string \<Rightarrow> int option \<Rightarrow> int option \<Rightarrow> string option \<Rightarrow> string option \<Rightarrow> string option \<Rightarrow>
   'a po_db_scheme \<Rightarrow> 'a po_db_scheme result" where
  "sp_po_transition i new_status received_qty by_user notes loc key db = (case find_order i db of
      None \<Rightarrow> Err (DbRaise (''Purchase order '' @ int_str i @ '' not found''))
    | Some r \<Rightarrow>
        if status_text (po_status r) = new_status then Ok db
        else (case status_of new_status of
            None \<Rightarrow> Err (DbRaise (''Invalid PO transition: '' @ status_text (po_status r) @ '' -> '' @ new_status))
          | Some st \<Rightarrow>
              if \<not> allowed_transition (po_status r) st
              then Err (DbRaise (''Invalid PO transition: '' @ status_text (po_status r) @ '' -> '' @ new_status))
              else if st = Received then receive_order r received_qty by_user notes loc key db
              else
                bindE (if st = Approved then add_on_order (po_product r) (po_quantity r) db
                       else if st = Cancelled \<and> (po_status r = Approved \<or> po_status r = InTransit)
                       then release_on_order (po_product r) (po_quantity r - po_received r) db
                       else Ok db) (\<lambda>db1.
                Ok (set_order i (\<lambda>x. x\<lparr>po_status := st\<rparr>) db1))))"

section \<open>Repository and service\<close>

definition po_create :: "(string \<Rightarrow> bool) \<Rightarrow> payload \<Rightarrow> 'a po_db_scheme \<Rightarrow> (int \<times> 'a po_db_scheme) result" where
  "po_create date_ok payload db =
     bindE (to_int (py_or (dget payload ''quantity'') (PInt 0))) (\<lambda>q.
     bindE (to_float (py_or (dget payload ''unit_cost'') (PInt 0))) (\<lambda>cost.
     bindE (to_int (dget payload ''supplier_id'')) (\<lambda>sid.
     bindE (to_int (dget payload ''product_id'')) (\<lambda>pid.
     bindE (ensure (int4 q \<and> int4 sid \<and> int4 pid) out_of_range) (\<lambda>_.
     bindE (case cost of Fin c \<Rightarrow> Ok c | _ \<Rightarrow> Err (OtherExc ''numeric field overflow'')) (\<lambda>c.
     bindE (case dget payload ''po_number'' of PStr n \<Rightarrow> Ok n | _ \<Rightarrow> Err (TypeError ''po_number'')) (\<lambda>num.
     bindE (case py_or (dget payload ''status'') (PStr ''draft'') of PStr s \<Rightarrow> Ok s
            | _ \<Rightarrow> Err (TypeError ''status'')) (\<lambda>st.
     bindE (case dget payload ''eta_date'' of PNone \<Rightarrow> Ok None
            | PStr d \<Rightarrow> if date_ok d then Ok (Some d) else Err (OtherExc ''invalid input syntax for type date'')
            | _ \<Rightarrow> Err (TypeError ''eta_date'')) (\<lambda>eta.
     (case sp_po_create num sid pid q c st eta db of
        Inl e \<Rightarrow> if is_unique_violation e then Err (POError (''PO number '' @ num @ '' already exists.''))
                 else Err e
      | Inr r \<Rightarrow> Ok r))))))))))"

definition po_guards :: "string list" where "po_guards = [''Invalid PO transition'', ''Purchase order'']"

definition po_transition :: "int \<Rightarrow> string \<Rightarrow> 'a po_db_scheme \<Rightarrow> 'a po_db_scheme result" where
  "po_transition i status db = (case sp_po_transition i status None None None None None db of
      Inl e \<Rightarrow> if is_guard_error e po_guards
               then Err (POError (db_error_message (Some (''ERROR:  '' @ exc_text e)) [])) else Err e
    | Inr db' \<Rightarrow> Ok db')"

text \<open>\<open>fresh_key\<close> is the hexadecimal uuid of the fallback key.\<close>

definition po_receive ::
  "string \<Rightarrow> int \<Rightarrow> int \<Rightarrow> int \<Rightarrow> string \<Rightarrow> string \<Rightarrow> string option \<Rightarrow> 'a po_db_scheme \<Rightarrow>
   'a po_db_scheme result" where
  "po_receive fresh_key i q uid notes loc key db =
     (let key = (case key of Some k \<Rightarrow> k | None \<Rightarrow> ''recv-'' @ int_str i @ ''-'' @ take 16 fresh_key) in
      case sp_po_transition i ''received'' (Some q) (Some uid) (Some notes) (Some loc) (Some key) db of
        Inr db' \<Rightarrow> Ok db'
      | Inl e \<Rightarrow>
          if is_guard_error e po_guards
          then Err (POError (db_error_message (Some (''ERROR:  '' @ exc_text e)) []))
          else if contains (exc_text e) ''exceeds outstanding''
          then Err (POError (''Receive quantity exceeds outstanding: '' @ exc_text e))
          else if contains (exc_text e) ''not found or not in_transit''
          then Err (POError (''PO not found or not in in_transit status: '' @ exc_text e))
          else if contains (exc_text e) ''User'' \<and> contains (exc_text e) ''not found''
          then Err (POError (''User not found: '' @ exc_text e))
          else Err e)"

abbreviation POServiceError :: "string \<Rightarrow> pyexc" where
  "POServiceError m \<equiv> DomainError ''POServiceError'' m"

definition is_blank :: "pyval \<Rightarrow> bool" where "is_blank v = (v = PNone \<or> v = PStr [])"

text \<open>\<open>except ValidationError as exc: raise ServiceError(str(exc))\<close>: other errors pass through.\<close>

definition wrap_validation :: "(string \<Rightarrow> pyexc) \<Rightarrow> 'a result \<Rightarrow> 'a result" where
  "wrap_validation mk r = (case r of Inl (ValidationError m) \<Rightarrow> Err (mk m) | _ \<Rightarrow> r)"

definition po_validate_payload :: "payload \<Rightarrow> payload result" where
  "po_validate_payload p = wrap_validation POServiceError (
     bindE (if truthy (dget p ''po_number'') then py_strip (dget p ''po_number'') else Ok []) (\<lambda>num.
     bindE (ensure (num \<noteq> []) (ValidationError ''PO number is required.'')) (\<lambda>_.
     bindE (ensure (length num \<le> 50) (ValidationError ''PO number must be at most 50 characters.'')) (\<lambda>_.
     let p = dput ''po_number'' (PStr num) p in
     bindE (ensure (\<not> is_blank (dget p ''supplier_id'')) (ValidationError ''Supplier is required.'')) (\<lambda>_.
     bindE (to_int (dget p ''supplier_id'')) (\<lambda>sid.
     let p = dput ''supplier_id'' (PInt sid) p in
     bindE (ensure (\<not> is_blank (dget p ''product_id'')) (ValidationError ''Product is required.'')) (\<lambda>_.
     bindE (to_int (dget p ''product_id'')) (\<lambda>pid.
     let p = dput ''product_id'' (PInt pid) p in
     bindE (ensure (\<not> is_blank (dget p ''quantity'')) (ValidationError ''Quantity is required.'')) (\<lambda>_.
     bindE (validate_positive_number (dget p ''quantity'') ''Quantity'' False) (\<lambda>q.
     let p = dput ''quantity'' (PFloat q) p in
     bindE (ensure (\<not> is_blank (dget p ''unit_cost'')) (ValidationError ''Unit cost is required.'')) (\<lambda>_.
     bindE (validate_positive_number (dget p ''unit_cost'') ''Unit cost'' True) (\<lambda>c.
     let p = dput ''unit_cost'' (PFloat c) p in
     bindE (py_strip (dget_or p ''status'' (PStr ''draft''))) (\<lambda>st.
     bindE (ensure (status_of (lower st) \<noteq> None) (ValidationError (''Invalid status. Must be one of: ''
        @ joins '', '' (map status_text all_statuses)))) (\<lambda>_.
     let p = dput ''status'' (PStr (lower st)) p in
     Ok (if dget p ''eta_date'' = PStr [] then dput ''eta_date'' PNone p else p)))))))))))))))"

definition po_service_create ::
  "(string \<Rightarrow> bool) \<Rightarrow> payload \<Rightarrow> 'a po_db_scheme \<Rightarrow> (int \<times> 'a po_db_scheme) result" where
  "po_service_create date_ok payload db =
     bindE (po_validate_payload payload) (\<lambda>p. case po_create date_ok p db of
        Inl (DbUnique m) \<Rightarrow> Err (POServiceError (''PO number '' @
          (case dget p ''po_number'' of PStr n \<Rightarrow> n | _ \<Rightarrow> []) @ '' already exists.''))
      | r \<Rightarrow> r)"

definition po_service_receive ::
  "string \<Rightarrow> int \<Rightarrow> int \<Rightarrow> int \<Rightarrow> string \<Rightarrow> string \<Rightarrow> string option \<Rightarrow> 'a po_db_scheme \<Rightarrow>
   'a po_db_scheme result" where
  "po_service_receive fresh_key i q uid notes loc key db =
     bindE (ensure (0 < q) (POServiceError ''Quantity must be positive.'')) (\<lambda>_.
     bindE (ensure (uid \<in> set (user_ids db)) (POServiceError (''User '' @ int_str uid @ '' not found.''))) (\<lambda>_.
     case find_order i db of
       None \<Rightarrow> Err (POServiceError (''Purchase order '' @ int_str i @ '' not found.''))
     | Some r \<Rightarrow>
         bindE (ensure (po_status r = InTransit) (POServiceError (''Invalid PO transition: ''
            @ status_text (po_status r) @ '' -> received''))) (\<lambda>_.
         let outstanding = po_quantity r - po_received r in
         bindE (ensure (q \<le> outstanding) (POServiceError (''Receive quantity '' @ int_str q
            @ '' exceeds outstanding '' @ int_str outstanding @ ''.''))) (\<lambda>_.
         case po_receive fresh_key i q uid notes loc key db of
           Inr db' \<Rightarrow> Ok db'
         | Inl (POError m) \<Rightarrow> Err (POServiceError m)
         | Inl e \<Rightarrow> if contains (exc_text e) ''Idempotency key'' \<and> contains (exc_text e) ''reused with different''
             then Err (POServiceError (exc_text e)) else Err e))))"

section \<open>Routes\<close>

datatype flash = Flash string string

text \<open>The status route; the notification after it cannot fail the request.  An exception that is not
  a POError is a server error.\<close>

definition update_po_status :: "int \<Rightarrow> string option \<Rightarrow> 'a po_db_scheme \<Rightarrow> flash list result \<times> 'a po_db_scheme" where
  "update_po_status i status db = (case status of None \<Rightarrow> (Ok [], db) | Some s \<Rightarrow>
     if status_of s = None then (Ok [], db)
     else (case po_transition i s db of
         Inr db' \<Rightarrow> (Ok [Flash (''Purchase order status updated to '' @ s) ''success''], db')
       | Inl (POError m) \<Rightarrow> (Ok [Flash m ''error''], db)
       | Inl e \<Rightarrow> (Err e, db)))"

definition receive_po ::
  "string \<Rightarrow> int \<Rightarrow> int option \<Rightarrow> int \<Rightarrow> string \<Rightarrow> string \<Rightarrow> string option \<Rightarrow> 'a po_db_scheme \<Rightarrow>
   flash list \<times> 'a po_db_scheme" where
  "receive_po fresh_key i quantity uid notes loc key db =
     (let q = (case quantity of Some q \<Rightarrow> Some q
         | None \<Rightarrow> map_option (\<lambda>r. po_quantity r - po_received r) (find_order i db)) in
      case q of None \<Rightarrow> ([Flash ''Purchase order not found.'' ''error''], db)
      | Some q \<Rightarrow>
          if q \<le> 0 then ([Flash ''Quantity must be a positive integer.'' ''error''], db)
          else (case po_service_receive fresh_key i q uid (strip notes) (strip loc) key db of
              Inr db' \<Rightarrow> ([Flash (''Received '' @ int_str q @ '' unit(s) for PO.'') ''success''], db')
            | Inl (POError m) \<Rightarrow> ([Flash m ''error''], db)
            | Inl (DomainError c m) \<Rightarrow> (if c = ''POServiceError'' then ([Flash m ''error''], db)
                else ([Flash ''Failed to receive goods. Please try again.'' ''error''], db))
            | Inl e \<Rightarrow> ([Flash ''Failed to receive goods. Please try again.'' ''error''], db)))"

text \<open>The form route: the status is limited to draft or approved; \<open>today\<close> is the ISO date,
  \<open>random_number\<close> the generated order number.\<close>

definition purchase_orders_create ::
  "(string \<Rightarrow> bool) \<Rightarrow> string \<Rightarrow> string \<Rightarrow> payload \<Rightarrow> 'a po_db_scheme \<Rightarrow>
   flash list result \<times> 'a po_db_scheme" where
  "purchase_orders_create date_ok today_iso random_number form db =
     (let num = py_or (dget form ''po_number'') (PStr random_number);
          st = (if dget form ''status'' = PStr ''draft'' \<or> dget form ''status'' = PStr ''approved''
                then dget form ''status'' else PStr ''draft'');
          p = [(''po_number'', num), (''supplier_id'', py_or (dget form ''supplier_id'') PNone),
               (''product_id'', py_or (dget form ''product_id'') PNone),
               (''quantity'', py_or (dget form ''quantity'') (PInt 0)),
               (''unit_cost'', py_or (dget form ''unit_cost'') (PInt 0)),
               (''status'', st), (''eta_date'', py_or (dget form ''eta_date'') PNone)] in
      if \<not> truthy (dget p ''supplier_id'') then (Ok [Flash ''Please select a supplier.'' ''error''], db)
      else if \<not> truthy (dget p ''product_id'') then (Ok [Flash ''Please select a product.'' ''error''], db)
      else (case to_int (dget p ''quantity'') of Inl e \<Rightarrow> (Err e, db) | Inr q \<Rightarrow>
        if q \<le> 0 then (Ok [Flash ''Quantity must be at least 1.'' ''error''], db)
        else (case to_float (dget p ''unit_cost'') of Inl e \<Rightarrow> (Err e, db) | Inr c \<Rightarrow>
          if xlt c (Fin 0) then (Ok [Flash ''Unit cost cannot be negative.'' ''error''], db)
          else if (case dget p ''eta_date'' of PStr d \<Rightarrow> map code_of d < map code_of today_iso | _ \<Rightarrow> False)
          then (Ok [Flash ''ETA date cannot be in the past.'' ''error''], db)
          else (case po_create date_ok p db of
              Inr (i, db') \<Rightarrow> (Ok [Flash (''Purchase order '' @
                 (case num of PStr n \<Rightarrow> n | _ \<Rightarrow> []) @ '' created'') ''success''], db')
            | Inl (POError m) \<Rightarrow> (Ok [Flash m ''error''], db)
            | Inl e \<Rightarrow> (Err e, db)))))"

text \<open>Reordering from the alerts page: the products at or below their reorder point with nothing on
  order, worst first, and the drafted quantity.\<close>

definition sp_product_low_stock :: "'a inv_db_scheme \<Rightarrow> product list" where
  "sp_product_low_stock db = sort_key (\<lambda>p. current_stock p - reorder_point p)
     (filter (\<lambda>p. current_stock p \<le> reorder_point p \<and> on_order p \<le> 0 \<and> \<not> prod_deleted p) (products db))"

definition reorder_quantity :: "product \<Rightarrow> int" where
  "reorder_quantity p =
     (let deficit = max (reorder_point p - current_stock p) 1 in
      max (case calculate_eoq (demand_rate p) (ordering_cost p) (holding_cost p) of
             Some q \<Rightarrow> if q = 0 then deficit else round_even q | None \<Rightarrow> deficit) deficit)"

definition capped_quantity :: "product \<Rightarrow> int" where
  "capped_quantity p = (if 0 < demand_rate p then min (reorder_quantity p) (round_even (demand_rate p / 2))
     else reorder_quantity p)"

definition auto_number :: "string \<Rightarrow> product \<Rightarrow> string" where
  "auto_number yyyymmdd p = ''AUTO-'' @ yyyymmdd @ ''-'' @ sku p"

definition sp_product_set_on_order :: "int \<Rightarrow> int \<Rightarrow> 'a inv_db_scheme \<Rightarrow> 'a inv_db_scheme" where
  "sp_product_set_on_order pid q db = set_product pid (\<lambda>p. p\<lparr>on_order := q\<rparr>) db"

text \<open>One transaction: the draft order and the overwrite of \<open>on_order\<close>.  Database errors are not
  POErrors, so the handlers' except clauses never apply to them.\<close>

definition draft_and_mark :: "string \<Rightarrow> product \<Rightarrow> int \<Rightarrow> 'a po_db_scheme \<Rightarrow> (int \<times> 'a po_db_scheme) result" where
  "draft_and_mark yyyymmdd p q db =
     bindE (case supplier_id p of Some s \<Rightarrow> Ok s | None \<Rightarrow> Err (DbCheck ''null value in column supplier_id''))
       (\<lambda>s.
     bindE (sp_po_create (auto_number yyyymmdd p) s (prod_id p) q (unit_price p) ''draft'' None db)
       (\<lambda>(i, db). Ok (i, sp_product_set_on_order (prod_id p) q db)))"

fun auto_draft_loop :: "string \<Rightarrow> product list \<Rightarrow> nat \<Rightarrow> 'a po_db_scheme \<Rightarrow> nat result \<times> 'a po_db_scheme" where
  "auto_draft_loop d [] created db = (Ok created, db)"
| "auto_draft_loop d (p # ps) created db =
     (if 0 < on_order p then auto_draft_loop d ps created db
      else (case draft_and_mark d p (capped_quantity p) db of
          Inl e \<Rightarrow> (Err e, db)
        | Inr (i, db') \<Rightarrow> auto_draft_loop d ps (Suc created) db'))"

definition auto_draft_pos ::
  "bool \<Rightarrow> string \<Rightarrow> real \<Rightarrow> real \<Rightarrow> 'a po_db_scheme \<Rightarrow> nat result \<times> 'a po_db_scheme" where
  "auto_draft_pos auto_reorder d low crit db =
     (if \<not> auto_reorder then (Ok 0, db)
      else auto_draft_loop d (filter (\<lambda>p. fst (stock_status (current_stock p) (reorder_point p) low crit)
             = ''critical'') (sp_product_low_stock db)) 0 db)"

definition mark_ordered :: "string \<Rightarrow> int \<Rightarrow> 'a po_db_scheme \<Rightarrow> int option result \<times> 'a po_db_scheme" where
  "mark_ordered d pid db = (case live_product pid db of
      None \<Rightarrow> (Ok None, db)
    | Some p \<Rightarrow> (case draft_and_mark d p (reorder_quantity p) db of
          Inl e \<Rightarrow> (Err e, db)
        | Inr (i, db') \<Rightarrow> (Ok (Some i), db')))"

section \<open>The on-order contract\<close>

definition is_open :: "purchase_order \<Rightarrow> bool" where
  "is_open r = (\<not> po_deleted r \<and> (po_status r = Approved \<or> po_status r = InTransit))"

definition contrib :: "int \<Rightarrow> purchase_order \<Rightarrow> int" where
  "contrib k r = (if po_product r = k \<and> is_open r then po_quantity r - po_received r else 0)"

definition outstanding :: "int \<Rightarrow> 'a po_db_scheme \<Rightarrow> int" where
  "outstanding k db = sum_list (map (contrib k) (orders db))"

definition on_order_of :: "int \<Rightarrow> 'a inv_db_scheme \<Rightarrow> int" where
  "on_order_of k db = (case find_product k db of Some p \<Rightarrow> on_order p | None \<Rightarrow> 0)"

text \<open>The amount by which \<open>on_order\<close> exceeds what is really outstanding: zero is the contract.\<close>

definition phantom :: "int \<Rightarrow> 'a po_db_scheme \<Rightarrow> int" where
  "phantom k db = on_order_of k db - outstanding k db"

definition order_ok :: "purchase_order \<Rightarrow> bool" where
  "order_ok r \<longleftrightarrow> 0 < po_quantity r \<and> 0 \<le> po_received r \<and> po_received r \<le> po_quantity r \<and>
     (po_status r = Draft \<longrightarrow> po_received r = 0)"

definition po_db_ok :: "'a po_db_scheme \<Rightarrow> bool" where
  "po_db_ok db \<longleftrightarrow> inv_db_ok db \<and> distinct (map po_id (orders db)) \<and>
     (\<forall>r\<in>set (orders db). order_ok r \<and> po_id r < next_po db \<and> po_product r \<in> prod_id ` set (products db)) \<and>
     (\<forall>k. 0 \<le> phantom k db)"

lemma contrib_nonneg: "order_ok r \<Longrightarrow> 0 \<le> contrib k r"
  by (auto simp: contrib_def order_ok_def)

lemma find_order_Some: "find_order i db = Some r \<Longrightarrow> r \<in> set (orders db) \<and> po_id r = i \<and> \<not> po_deleted r"
  unfolding find_order_def by (drule find_row_Some) auto

lemma sum_list_member_le:
  fixes f :: "'r \<Rightarrow> int"
  shows "r \<in> set xs \<Longrightarrow> (\<And>x. x \<in> set xs \<Longrightarrow> 0 \<le> f x) \<Longrightarrow> f r \<le> sum_list (map f xs)"
proof (induction xs)
  case (Cons x xs)
  have "0 \<le> sum_list (map f xs)" using Cons.prems(2) by (intro sum_list_nonneg) auto
  then show ?case using Cons by (cases "r = x") (auto simp: add_increasing add_increasing2)
qed simp

lemma contrib_le_outstanding:
  assumes "po_db_ok db" and "r \<in> set (orders db)" shows "contrib k r \<le> outstanding k db"
  unfolding outstanding_def
  by (rule sum_list_member_le[OF assms(2)]) (use assms(1) in \<open>auto simp: po_db_ok_def intro: contrib_nonneg\<close>)

lemma set_order_outstanding:
  assumes "find_order i db = Some r" and "distinct (map po_id (orders db))"
  shows "outstanding k (set_order i f db) = outstanding k db + (contrib k (f r) - contrib k r)"
proof -
  have "r \<in> set (orders db)" "po_id r = i" using find_order_Some[OF assms(1)] by auto
  then show ?thesis using sum_list_update_one[OF assms(2), of r "contrib k" f]
    by (simp add: outstanding_def set_order_def)
qed

lemma set_order_simps [simp]:
  "products (set_order i f db) = products db" "movements (set_order i f db) = movements db"
  "find_product k (set_order i f db) = find_product k db" "next_po (set_order i f db) = next_po db"
  "user_ids (set_order i f db) = user_ids db" "receipts (set_order i f db) = receipts db"
  by (simp_all add: set_order_def find_product_def)

lemma inv_db_ok_set_order [simp]: "inv_db_ok (set_order i f db) = inv_db_ok db"
  by (simp add: inv_db_ok_def set_order_def)

lemma on_order_of_set_order [simp]: "on_order_of k (set_order i f db) = on_order_of k db"
  by (simp add: on_order_of_def)

section \<open>Every procedure keeps the contract\<close>

lemma find_product_mem: "k \<in> prod_id ` set (products db) \<longleftrightarrow> (\<exists>p. find_product k db = Some p)"
  using find_row_None[of "\<lambda>p. prod_id p = k" "products db"] unfolding find_product_def by (auto simp: image_iff)

lemma set_product_ids [simp]:
  "(\<And>p. prod_id (f p) = prod_id p) \<Longrightarrow> prod_id ` set (products (set_product pid f db)) = prod_id ` set (products db)"
  by (metis (no_types, lifting) list.set_map set_product_def update_where_keys inv_db.select_convs(1)
      inv_db.surjective inv_db.update_convs(1))

lemma orders_set_product [simp]:
  fixes db :: "'a po_db_scheme"
  shows "orders (set_product pid f db) = orders db" "next_po (set_product pid f db) = next_po db"
    "receipts (set_product pid f db) = receipts db"
  by (simp_all add: set_product_def)

lemma on_order_of_set_product:
  assumes "\<And>p. prod_id (f p) = prod_id p" and "find_product pid db = Some p"
  shows "on_order_of k (set_product pid f db) = (if k = pid then on_order (f p) else on_order_of k db)"
  by (simp add: on_order_of_def find_set_product[OF assms(1)] assms(2))

text \<open>An update that keeps the well-formedness of the parts keeps the whole.\<close>

lemma po_db_okI:
  assumes "po_db_ok db" and "inv_db_ok db'" and "prod_id ` set (products db') = prod_id ` set (products db)"
    and "distinct (map po_id (orders db'))"
    and "\<And>r. r \<in> set (orders db') \<Longrightarrow> order_ok r \<and> po_id r < next_po db' \<and> po_product r \<in> prod_id ` set (products db')"
    and "\<And>k. phantom k db' = phantom k db"
  shows "po_db_ok db' \<and> (\<forall>k. phantom k db' = phantom k db)"
  using assms unfolding po_db_ok_def by auto

lemma set_order_rows:
  assumes "po_db_ok db" and "find_order i db = Some r" and "\<And>x. po_id (f x) = po_id x"
    and "\<And>x. po_product (f x) = po_product x" and "order_ok (f r)"
  shows "distinct (map po_id (orders (set_order i f db)))"
    and "x \<in> set (orders (set_order i f db)) \<Longrightarrow>
      order_ok x \<and> po_id x < next_po db \<and> po_product x \<in> prod_id ` set (products db)"
proof -
  have d: "distinct (map po_id (orders db))" using assms(1) by (simp add: po_db_ok_def)
  show "distinct (map po_id (orders (set_order i f db)))"
    using d update_where_keys[of po_id f _ "orders db", OF assms(3)] by (simp add: set_order_def)
  assume "x \<in> set (orders (set_order i f db))"
  then obtain y where y: "y \<in> set (orders db)" "x = (if po_id y = i then f y else y)"
    by (auto simp: set_order_def update_where_def)
  have "y = r" if "po_id y = i"
    using that y(1) d find_order_Some[OF assms(2)] by (metis distinct_map inj_on_eq_iff)
  then show "order_ok x \<and> po_id x < next_po db \<and> po_product x \<in> prod_id ` set (products db)"
    using y assms by (auto simp: po_db_ok_def)
qed

lemma set_product_on_order_ok:
  "inv_db_ok db \<Longrightarrow> inv_db_ok (set_product pid (\<lambda>p. p\<lparr>on_order := g p\<rparr>) db)"
  by (rule set_product_ok) (auto simp: inv_db_ok_def)

text \<open>A status change of an order together with the matching change of \<open>on_order\<close>.\<close>

lemma status_change_ok:
  fixes db :: "'a po_db_scheme"
  assumes ok: "po_db_ok db" and r: "find_order i db = Some r"
    and f: "\<And>x. po_id (f x) = po_id x" "\<And>x. po_product (f x) = po_product x" "order_ok (f r)"
    and p: "find_product (po_product r) db = Some p"
    and bal: "g p - on_order p = contrib (po_product r) (f r) - contrib (po_product r) r"
  shows "po_db_ok (set_order i f (set_product (po_product r) (\<lambda>p. p\<lparr>on_order := g p\<rparr>) db)) \<and>
    (\<forall>k. phantom k (set_order i f (set_product (po_product r) (\<lambda>p. p\<lparr>on_order := g p\<rparr>) db)) = phantom k db)"
proof -
  let ?db1 = "set_product (po_product r) (\<lambda>p. p\<lparr>on_order := g p\<rparr>) db"
  have r1: "find_order i ?db1 = Some r" using r by (simp add: find_order_def)
  have d: "distinct (map po_id (orders ?db1))" using ok by (simp add: po_db_ok_def)
  have ph: "phantom k (set_order i f ?db1) = phantom k db" for k
  proof -
    have "contrib k (f r) = 0 \<and> contrib k r = 0" if "k \<noteq> po_product r"
      using that f(2)[of r] by (simp add: contrib_def)
    moreover have "on_order_of k ?db1 = (if k = po_product r then g p else on_order_of k db)"
      using on_order_of_set_product[of "\<lambda>p. p\<lparr>on_order := g p\<rparr>", OF _ p, of k] by simp
    moreover have "on_order_of (po_product r) db = on_order p" using p by (simp add: on_order_of_def)
    moreover have "outstanding k ?db1 = outstanding k db" by (simp add: outstanding_def)
    ultimately show ?thesis using set_order_outstanding[OF r1 d, of k f] bal
      by (auto simp: phantom_def)
  qed
  have rows: "set_order i f ?db1 = set_order i f ?db1" ..
  have o: "orders (set_order i f ?db1) = orders (set_order i f db)" by (simp add: set_order_def)
  show ?thesis
    by (rule po_db_okI[OF ok _ _ _ _ ph])
      (use set_order_rows[OF ok r f] ok in \<open>auto simp: o set_product_on_order_ok po_db_ok_def\<close>)
qed

text \<open>The single steps of the receive branch, each with its effect on the excess.\<close>

lemma set_order_ok:
  fixes db :: "'a po_db_scheme"
  assumes ok: "po_db_ok db" and r: "find_order i db = Some r"
    and f: "\<And>x. po_id (f x) = po_id x" "\<And>x. po_product (f x) = po_product x" "order_ok (f r)"
    and le: "\<And>k. contrib k (f r) \<le> contrib k r"
  shows "po_db_ok (set_order i f db) \<and>
    (\<forall>k. phantom k (set_order i f db) = phantom k db + (contrib k r - contrib k (f r)))"
proof -
  have d: "distinct (map po_id (orders db))" using ok by (simp add: po_db_ok_def)
  have ph: "phantom k (set_order i f db) = phantom k db + (contrib k r - contrib k (f r))" for k
    using set_order_outstanding[OF r d, of k f] by (simp add: phantom_def)
  moreover have "0 \<le> phantom k (set_order i f db)" for k
    using ph[of k] le[of k] ok by (simp add: po_db_ok_def)
  ultimately show ?thesis
    using set_order_rows[OF ok r f] ok by (auto simp: po_db_ok_def)
qed

lemma set_on_order_ok:
  fixes db :: "'a po_db_scheme"
  assumes ok: "po_db_ok db" and p: "find_product pid db = Some p" and le: "on_order p - g p \<le> phantom pid db"
  shows "po_db_ok (set_product pid (\<lambda>p. p\<lparr>on_order := g p\<rparr>) db) \<and>
    (\<forall>k. phantom k (set_product pid (\<lambda>p. p\<lparr>on_order := g p\<rparr>) db)
      = phantom k db + (if k = pid then g p - on_order p else 0))"
proof -
  let ?db1 = "set_product pid (\<lambda>p. p\<lparr>on_order := g p\<rparr>) db"
  have ph: "phantom k ?db1 = phantom k db + (if k = pid then g p - on_order p else 0)" for k
    using on_order_of_set_product[of "\<lambda>p. p\<lparr>on_order := g p\<rparr>", OF _ p, of k] p
    by (simp add: phantom_def outstanding_def on_order_of_def)
  moreover have "0 \<le> phantom k ?db1" for k
    using ph[of k] le ok by (auto simp: po_db_ok_def)
  ultimately show ?thesis using ok by (auto simp: po_db_ok_def set_product_on_order_ok)
qed

lemma sp_movement_record_frame:
  fixes db :: "'a po_db_scheme"
  assumes ok: "po_db_ok db" and m: "sp_movement_record pid ty q ref notes uid db = Ok (i, db')"
  shows "po_db_ok db'" "phantom k db' = phantom k db" "orders db' = orders db"
    "find_product pid db' \<noteq> None" "on_order_of k db' = on_order_of k db"
proof -
  from m obtain p where p: "live_product pid db = Some p" "i = next_movement db" "0 < q"
    "ty \<in> set ALLOWED_TYPES" "0 \<le> current_stock p + movement_delta ty q"
    "db' = set_product pid (\<lambda>r. r\<lparr>current_stock := current_stock p + movement_delta ty q\<rparr>)
      (add_movement pid ty q ref notes uid db)"
    by (rule sp_movement_record_Ok)
  have fp: "find_product pid db = Some p"
    using p(1) ok by (auto simp: po_db_ok_def inv_db_ok_def intro: live_product_find)
  let ?f = "\<lambda>r. r\<lparr>current_stock := current_stock p + movement_delta ty q\<rparr>"
  let ?am = "add_movement pid ty q ref notes uid db"
  have am: "products ?am = products db" "orders ?am = orders db" "next_po ?am = next_po db"
    by (simp_all add: add_movement_def)
  show o: "orders db' = orders db" by (simp add: p(6) am)
  show "find_product pid db' \<noteq> None" using fp by (simp add: p(6) find_set_product)
  have oo: "on_order_of k db' = on_order_of k db" for k
    unfolding p(6) using fp by (auto simp: on_order_of_def find_set_product)
  show "on_order_of k db' = on_order_of k db" by (rule oo)
  have ph: "phantom k db' = phantom k db" for k using oo by (simp add: phantom_def outstanding_def o)
  show "phantom k db' = phantom k db" by (rule ph)
  have ids: "prod_id ` set (products db') = prod_id ` set (products db)"
    unfolding p(6) by (subst set_product_ids) (simp_all add: am)
  have n: "next_po db' = next_po db" by (simp add: p(6) am)
  have "inv_db_ok db'" using sp_movement_record_ok[OF m] ok by (simp add: po_db_ok_def)
  then show "po_db_ok db'" using ok by (simp add: po_db_ok_def o ids ph n)
qed

lemma find_order_set_order:
  assumes "find_order i db = Some r" and "po_db_ok db" and "po_id (f r) = i" and "\<not> po_deleted (f r)"
    and "\<And>x. po_id (f x) = po_id x"
  shows "find_order i (set_order i f db) = Some (f r)"
proof -
  have d: "distinct (map po_id (orders db))" using assms(2) by (simp add: po_db_ok_def)
  have "r \<in> set (orders db)" "po_id r = i" using find_order_Some[OF assms(1)] by auto
  then have "find_row (\<lambda>x. po_id x = i) (orders db) = Some r" using find_row_unique[OF d] by blast
  then have m: "find_row (\<lambda>x. po_id x = i) (orders (set_order i f db)) = Some (f r)"
    by (simp add: set_order_def find_row_update_same[where key = po_id and f = f, OF assms(5)])
  have "x = f r" if "x \<in> set (orders (set_order i f db))" "po_id x = i" for x
    using that m find_row_unique[of po_id "orders (set_order i f db)" x] d
      update_where_keys[of po_id f _ "orders db", OF assms(5)] by (simp add: set_order_def)
  then show ?thesis
    using m assms(3,4) find_row_Some[OF m]
    by (cases "find_order i (set_order i f db)") (auto simp: find_order_def find_row_None dest: find_row_Some)
qed

lemma find_order_cong: "orders db' = orders db \<Longrightarrow> find_order i db' = find_order i db"
  by (simp add: find_order_def)

lemma receive_effects_ok:
  fixes db :: "'a po_db_scheme"
  assumes ok: "po_db_ok db" and r: "find_order (po_id r) db = Some r" and st: "po_status r = InTransit"
    and v: "0 < v" "v \<le> po_quantity r - po_received r"
    and e: "receive_effects r v by_user db = Ok db'"
  shows "po_db_ok db' \<and> (\<forall>k. phantom k db' = phantom k db)"
proof -
  let ?i = "po_id r" and ?pid = "po_product r"
  let ?f = "\<lambda>x. x\<lparr>po_received := po_received r + v\<rparr>"
  let ?g = "\<lambda>x. x\<lparr>po_status := (if po_quantity r \<le> po_received r + v then Received else InTransit)\<rparr>"
  have ro: "order_ok r" "\<not> po_deleted r"
    using ok find_order_Some[OF r] by (auto simp: po_db_ok_def)
  define db1 where "db1 = set_order ?i ?f db"
  obtain m db2 db3 where m: "sp_movement_record ?pid ''IN'' v (Some (po_number r)) (Some ''PO received'') by_user db1
      = Ok (m, db2)" and rel: "release_on_order ?pid v db2 = Ok db3" and fin: "db' = set_order ?i ?g db3"
    using e by (auto simp: receive_effects_def bindE_Ok_iff Let_def db1_def)
  have fr: "order_ok (?f r)" using ro v st by (auto simp: order_ok_def)
  have c1: "contrib k r - contrib k (?f r) = (if k = ?pid then v else 0)" for k
    using ro st by (auto simp: contrib_def is_open_def)
  have s1: "po_db_ok db1 \<and> (\<forall>k. phantom k db1 = phantom k db + (if k = ?pid then v else 0))"
  proof -
    have le: "contrib k (?f r) \<le> contrib k r" for k using c1[of k] v(1) by (cases "k = ?pid") auto
    have "po_db_ok (set_order ?i ?f db) \<and>
        (\<forall>k. phantom k (set_order ?i ?f db) = phantom k db + (contrib k r - contrib k (?f r)))"
      by (rule set_order_ok[where f = ?f, OF ok r]) (use fr le in simp_all)
    then show ?thesis unfolding db1_def c1 .
  qed
  have r1: "find_order ?i db1 = Some (?f r)"
    unfolding db1_def by (rule find_order_set_order[OF r ok]) (use ro in auto)
  note s2 = sp_movement_record_frame[OF s1[THEN conjunct1] m]
  obtain p where p: "find_product ?pid db2 = Some p" using s2(4) by auto
  have d3: "db3 = set_product ?pid (\<lambda>p. p\<lparr>on_order := max (on_order p - v) 0\<rparr>) db2"
    using rel by (auto simp: release_on_order_def bindE_Ok_iff)
  have "v \<le> phantom ?pid db2" using s1 s2(2)[of ?pid] ok by (simp add: po_db_ok_def)
  moreover have "0 \<le> outstanding ?pid db2"
    unfolding outstanding_def
    by (rule sum_list_nonneg) (use s2(1) in \<open>auto simp: po_db_ok_def intro: contrib_nonneg\<close>)
  moreover have "phantom ?pid db2 = on_order p - outstanding ?pid db2"
    using p by (simp add: phantom_def on_order_of_def)
  ultimately have noclip: "max (on_order p - v) 0 = on_order p - v" and le: "on_order p - max (on_order p - v) 0 \<le> phantom ?pid db2"
    by simp_all
  have s3: "po_db_ok db3 \<and> (\<forall>k. phantom k db3 = phantom k db2 + (if k = ?pid then - v else 0))"
    using set_on_order_ok[OF s2(1) p, of "\<lambda>p. max (on_order p - v) 0", OF le] noclip unfolding d3 by simp
  have r3: "find_order ?i db3 = Some (?f r)"
    using r1 s2(3) by (simp add: d3 find_order_def)
  have c4: "contrib k (?g (?f r)) = contrib k (?f r)" for k
    using ro v by (auto simp: contrib_def is_open_def st)
  have s4: "po_db_ok db' \<and> (\<forall>k. phantom k db' = phantom k db3)"
  proof -
    have go: "order_ok (?g (?f r))" using fr by (auto simp: order_ok_def)
    have "po_db_ok (set_order ?i ?g db3) \<and> (\<forall>k. phantom k (set_order ?i ?g db3)
        = phantom k db3 + (contrib k (?f r) - contrib k (?g (?f r))))"
      by (rule set_order_ok[where f = ?g, OF s3[THEN conjunct1] r3]) (use go c4 in auto)
    then show ?thesis unfolding fin c4 by simp
  qed
  show ?thesis using s1 s2(2) s3 s4 by simp
qed

lemma receipt_frame:
  fixes db :: "'a po_db_scheme"
  assumes "sp_goods_receipt_create i q u notes loc key db = Ok (rid, db')"
  shows "po_db_ok db' = po_db_ok db" "phantom k db' = phantom k db" "find_order j db' = find_order j db"
    "orders db' = orders db" "products db' = products db" "movements db' = movements db"
proof -
  have "db' = db \<or> (\<exists>n rs. db' = db\<lparr>next_receipt := n, receipts := rs\<rparr>)"
    using assms by (auto simp: sp_goods_receipt_create_def bindE_Ok_iff split: if_splits)
  then have *: "orders db' = orders db" "products db' = products db" "movements db' = movements db"
    "next_po db' = next_po db" "next_movement db' = next_movement db" by auto
  then have "phantom k db' = phantom k db" for k
    by (simp add: phantom_def on_order_of_def outstanding_def find_product_def)
  moreover have "inv_db_ok db' = inv_db_ok db" using * by (simp add: inv_db_ok_def)
  ultimately show "po_db_ok db' = po_db_ok db" "phantom k db' = phantom k db"
    "find_order j db' = find_order j db" "orders db' = orders db" "products db' = products db"
    "movements db' = movements db"
    using * by (simp_all add: po_db_ok_def find_order_def)
qed

lemma receive_order_ok:
  fixes db :: "'a po_db_scheme"
  assumes ok: "po_db_ok db" and r: "find_order i db = Some r" and st: "po_status r = InTransit"
    and e: "receive_order r rq u notes loc key db = Ok db'"
  shows "po_db_ok db' \<and> (\<forall>k. phantom k db' = phantom k db)"
proof -
  define v where "v = (case rq of Some q \<Rightarrow> q | None \<Rightarrow> po_quantity r)"
  have i: "po_id r = i" using find_order_Some[OF r] by simp
  have v: "0 < v" "v \<le> po_quantity r - po_received r"
    using e by (auto simp: receive_order_def bindE_Ok_iff Let_def v_def)
  have rr: "find_order (po_id r) db = Some r" using r i by simp
  show ?thesis
  proof (cases u)
    case None
    then have "receive_effects r v None db = Ok db'"
      using e by (auto simp: receive_order_def bindE_Ok_iff Let_def v_def)
    then show ?thesis by (rule receive_effects_ok[OF ok rr st v])
  next
    case (Some w)
    obtain x where x: "sp_goods_receipt_create (po_id r) v w notes loc key db = Ok x"
      and y: "(case x of (receipt, db1) \<Rightarrow> if key \<noteq> None \<and> receipt = None then
            (if \<exists>g\<in>set (receipts db). gr_key g = key \<and> gr_po g = po_id r \<and> gr_quantity g = v
             then Ok db
             else Err (DbRaise (''Idempotency key '' @ the key @ '' reused with different PO/quantity'')))
          else receive_effects r v (Some w) db1) = Ok db'"
      using e unfolding receive_order_def Let_def v_def[symmetric] Some bindE_Ok_iff option.case
      by blast
    obtain rid db1 where xx: "x = (rid, db1)" by (cases x)
    have g: "sp_goods_receipt_create (po_id r) v w notes loc key db = Ok (rid, db1)"
      and rest: "(if key \<noteq> None \<and> rid = None then
            (if \<exists>g\<in>set (receipts db). gr_key g = key \<and> gr_po g = po_id r \<and> gr_quantity g = v
             then Ok db
             else Err (DbRaise (''Idempotency key '' @ the key @ '' reused with different PO/quantity'')))
          else receive_effects r v (Some w) db1) = Ok db'"
      using x y by (simp_all add: xx)
    show ?thesis
    proof (cases "key \<noteq> None \<and> rid = None")
      case True then show ?thesis using rest ok by (simp split: if_splits)
    next
      case False
      have "receive_effects r v (Some w) db1 = Ok db'" using rest unfolding if_not_P[OF False] .
      moreover have "po_db_ok db1" "find_order (po_id r) db1 = Some r"
        using receipt_frame[OF g] ok rr by auto
      ultimately show ?thesis
        using receive_effects_ok[of db1 r v "Some w" db'] st v receipt_frame(2)[OF g] by simp
    qed
  qed
qed

lemma order_product:
  assumes "po_db_ok db" and "find_order i db = Some r"
  obtains p where "find_product (po_product r) db = Some p"
  using assms find_order_Some[OF assms(2)] unfolding po_db_ok_def find_product_mem by blast

lemma sp_po_transition_ok:
  fixes db :: "'a po_db_scheme"
  assumes ok: "po_db_ok db" and t: "sp_po_transition i new rq u notes loc key db = Ok db'"
  shows "po_db_ok db' \<and> (\<forall>k. phantom k db' = phantom k db)"
proof -
  obtain r where r: "find_order i db = Some r" using t by (auto simp: sp_po_transition_def split: option.splits)
  have ro: "order_ok r" "\<not> po_deleted r" using ok find_order_Some[OF r] by (auto simp: po_db_ok_def)
  obtain p where p: "find_product (po_product r) db = Some p" using order_product[OF ok r] .
  show ?thesis
  proof (cases "status_text (po_status r) = new")
    case True then show ?thesis using t r ok by (simp add: sp_po_transition_def)
  next
    case False
    then obtain st where st: "status_of new = Some st" "allowed_transition (po_status r) st"
      using t r by (auto simp: sp_po_transition_def split: option.splits if_splits)
    let ?f = "\<lambda>x. x\<lparr>po_status := st\<rparr>"
    have g: "\<And>x. po_id (?f x) = po_id x" "\<And>x. po_product (?f x) = po_product x" by simp_all
    consider "st = Received" | "st = Approved" | "st = Cancelled" "po_status r = Approved \<or> po_status r = InTransit"
      | "st = Cancelled" "po_status r = Draft" | "st = InTransit" "po_status r = Approved"
      using st(2) by (auto simp: allowed_transition_def)
    then show ?thesis
    proof cases
      case 1
      then have "po_status r = InTransit" using st(2) by (simp add: allowed_transition_def)
      then show ?thesis using t r False st 1
        by (intro receive_order_ok[OF ok r]) (auto simp: sp_po_transition_def)
    next
      case 2
      then have d: "po_status r = Draft" "po_received r = 0" using st(2) ro by (auto simp: allowed_transition_def order_ok_def)
      have "db' = set_order i ?f (set_product (po_product r) (\<lambda>p. p\<lparr>on_order := on_order p + po_quantity r\<rparr>) db)"
        using t r False st 2 by (auto simp: sp_po_transition_def bindE_Ok_iff add_on_order_def)
      then show ?thesis
        using status_change_ok[OF ok r g _ p, of "\<lambda>p. on_order p + po_quantity r"] ro d 2
        by (auto simp: order_ok_def contrib_def is_open_def)
    next
      case 3
      have c: "contrib (po_product r) r = po_quantity r - po_received r"
        using 3 ro by (auto simp: contrib_def is_open_def)
      have "contrib (po_product r) r \<le> outstanding (po_product r) db"
        using contrib_le_outstanding[OF ok] find_order_Some[OF r] by blast
      also have "outstanding (po_product r) db \<le> on_order p"
      proof -
        have "0 \<le> phantom (po_product r) db" using ok by (simp add: po_db_ok_def)
        then show ?thesis using p by (simp add: phantom_def on_order_of_def)
      qed
      finally have noclip: "max (on_order p - (po_quantity r - po_received r)) 0
        = on_order p - (po_quantity r - po_received r)" using c by simp
      have "db' = set_order i ?f (set_product (po_product r)
          (\<lambda>p. p\<lparr>on_order := max (on_order p - (po_quantity r - po_received r)) 0\<rparr>) db)"
        using t r False st 3 by (auto simp: sp_po_transition_def bindE_Ok_iff release_on_order_def)
      then show ?thesis
        using status_change_ok[OF ok r g _ p, of "\<lambda>p. max (on_order p - (po_quantity r - po_received r)) 0"]
          ro 3 noclip c by (auto simp: order_ok_def contrib_def is_open_def)
    next
      case 4
      then have "db' = set_order i ?f db" using t r False st by (auto simp: sp_po_transition_def)
      then show ?thesis using set_order_ok[where f = ?f, OF ok r] ro 4
        by (auto simp: order_ok_def contrib_def is_open_def)
    next
      case 5
      then have "db' = set_order i ?f db" using t r False st by (auto simp: sp_po_transition_def)
      then show ?thesis using set_order_ok[where f = ?f, OF ok r] ro 5
        by (auto simp: order_ok_def contrib_def is_open_def)
    qed
  qed
qed

lemma insert_order_Ok:
  "insert_order num sid pid q cost st eta db = Ok (i, db') \<Longrightarrow>
   \<exists>s. status_of st = Some s \<and> i = next_po db \<and> 0 < q \<and> pid \<in> prod_id ` set (products db) \<and>
     num \<notin> po_number ` set (orders db) \<and> length num \<le> 40 \<and>
     db' = db\<lparr>next_po := next_po db + 1, orders := orders db @
       [\<lparr>po_id = next_po db, po_number = num, po_supplier = sid, po_product = pid, po_quantity = q,
         po_unit_cost = cost, po_status = s, po_eta = eta, po_received = 0, po_deleted = False\<rparr>]\<rparr>"
  by (auto simp: insert_order_def bindE_Ok_iff split: option.splits)

lemma status_of_text: "status_of st = Some s \<longleftrightarrow> status_text s = st"
  by (cases s) (auto simp: status_of_def all_statuses_def split: if_splits)

lemma po_db_ok_insert:
  fixes db :: "'a po_db_scheme"
  assumes ok: "po_db_ok db" and "insert_order num sid pid q cost st eta db = Ok (i, db1)"
  shows "outstanding k db1 = outstanding k db
      + (if k = pid \<and> (st = ''approved'' \<or> st = ''in_transit'') then q else 0)"
    and "inv_db_ok db1" and "distinct (map po_id (orders db1))" and "products db1 = products db"
    and "r \<in> set (orders db1) \<Longrightarrow> order_ok r \<and> po_id r < next_po db1 \<and> po_product r \<in> prod_id ` set (products db1)"
proof -
  from insert_order_Ok[OF assms(2)] obtain s where s: "status_of st = Some s" "0 < q"
    "pid \<in> prod_id ` set (products db)" and db1: "db1 = db\<lparr>next_po := next_po db + 1, orders := orders db @
       [\<lparr>po_id = next_po db, po_number = num, po_supplier = sid, po_product = pid, po_quantity = q,
         po_unit_cost = cost, po_status = s, po_eta = eta, po_received = 0, po_deleted = False\<rparr>]\<rparr>" by blast
  have "(s = Approved \<or> s = InTransit) \<longleftrightarrow> (st = ''approved'' \<or> st = ''in_transit'')"
    using s(1) by (cases s) (auto simp: status_of_text)
  then show "outstanding k db1 = outstanding k db
      + (if k = pid \<and> (st = ''approved'' \<or> st = ''in_transit'') then q else 0)"
    by (auto simp: outstanding_def db1 contrib_def is_open_def)
  show "inv_db_ok db1" using ok by (simp add: po_db_ok_def inv_db_ok_def db1)
  show "distinct (map po_id (orders db1))" using ok by (fastforce simp: po_db_ok_def db1)
  show "products db1 = products db" by (simp add: db1)
  show "r \<in> set (orders db1) \<Longrightarrow> order_ok r \<and> po_id r < next_po db1 \<and> po_product r \<in> prod_id ` set (products db1)"
    using ok s by (fastforce simp: po_db_ok_def db1 order_ok_def)
qed

lemma sp_po_create_ok:
  fixes db :: "'a po_db_scheme"
  assumes ok: "po_db_ok db" and c: "sp_po_create num sid pid q cost st eta db = Ok (i, db')"
  shows "po_db_ok db' \<and> (\<forall>k. phantom k db' = phantom k db)"
proof -
  obtain db1 where ins: "insert_order num sid pid q cost st eta db = Ok (i, db1)"
    and fin: "db' = (if st = ''approved'' \<or> st = ''in_transit''
      then set_product pid (\<lambda>p. p\<lparr>on_order := on_order p + q\<rparr>) db1 else db1)"
    using c by (auto simp: sp_po_create_def bindE_Ok_iff add_on_order_def split: if_splits)
  note I = po_db_ok_insert[OF ok ins]
  have "pid \<in> prod_id ` set (products db1)" using insert_order_Ok[OF ins] by auto
  then obtain p where p: "find_product pid db1 = Some p" unfolding find_product_mem by blast
  have same: "on_order_of k db1 = on_order_of k db" for k using I(4) by (simp add: on_order_of_def find_product_def)
  have pp: "on_order_of pid db = on_order p" using p same[of pid] by (simp add: on_order_of_def)
  have oo: "on_order_of k db' = on_order_of k db + (if k = pid \<and> (st = ''approved'' \<or> st = ''in_transit'') then q else 0)" for k
    unfolding fin using on_order_of_set_product[of "\<lambda>p. p\<lparr>on_order := on_order p + q\<rparr>", OF _ p, of k] same pp by auto
  have or: "orders db' = orders db1" and n: "next_po db' = next_po db1" by (simp_all add: fin)
  have ph: "phantom k db' = phantom k db" for k
    using oo[of k] I(1)[of k] by (simp add: phantom_def outstanding_def or)
  have ids: "prod_id ` set (products db') = prod_id ` set (products db)"
    unfolding fin using I(4) by simp
  have "inv_db_ok db'" unfolding fin using I(2) set_product_on_order_ok[of db1 pid "\<lambda>p. on_order p + q"] by simp
  then show ?thesis
    by (rule po_db_okI[OF ok _ ids _ _ ph]) (use I(3,4,5) ids in \<open>auto simp: or n\<close>)
qed

section \<open>The procedures as a system\<close>

datatype po_op =
    OpCreate string int int int real string "string option"
  | OpTransition int string "int option" "int option" "string option" "string option" "string option"
  | OpMovement int string int "string option" "string option" "int option"

definition or_same :: "'s result \<Rightarrow> 's \<Rightarrow> 's" where
  "or_same r s = (case r of Inr s' \<Rightarrow> s' | Inl e \<Rightarrow> s)"

fun po_step :: "po_op \<Rightarrow> 'a po_db_scheme \<Rightarrow> 'a po_db_scheme" where
  "po_step (OpCreate num sid pid q c st eta) db =
     or_same (bindE (sp_po_create num sid pid q c st eta db) (\<lambda>(i, d). Ok d)) db"
| "po_step (OpTransition i st rq u notes loc key) db =
     or_same (sp_po_transition i st rq u notes loc key db) db"
| "po_step (OpMovement pid ty q ref notes uid) db =
     or_same (bindE (sp_movement_record pid ty q ref notes uid db) (\<lambda>(i, d). Ok d)) db"

lemma po_step_ok:
  fixes db :: "'a po_db_scheme"
  assumes "po_db_ok db" shows "po_db_ok (po_step x db) \<and> (\<forall>k. phantom k (po_step x db) = phantom k db)"
proof (cases x)
  case (OpCreate num sid pid q c st eta)
  then show ?thesis using assms sp_po_create_ok[OF assms, of num sid pid q c st eta]
    by (cases "sp_po_create num sid pid q c st eta db") (auto simp: or_same_def)
next
  case (OpTransition i st rq u nt loc key)
  then show ?thesis using assms sp_po_transition_ok[OF assms, of i st rq u nt loc key]
    by (cases "sp_po_transition i st rq u nt loc key db") (auto simp: or_same_def)
next
  case (OpMovement pid ty q ref nt uid)
  then show ?thesis using assms sp_movement_record_frame[OF assms, of pid ty q ref nt uid]
    by (cases "sp_movement_record pid ty q ref nt uid db") (auto simp: or_same_def)
qed

interpretation on_order_account: accounted_system po_step po_db_ok phantom "\<lambda>k x db. 0"
  by unfold_locales (use po_step_ok in auto)

lemma phantom_run: "po_db_ok db \<Longrightarrow> phantom k (run po_step xs db) = phantom k db"
proof -
  have "on_order_account.effects k xs d = 0" for d :: "'a po_db_scheme" by (induction xs arbitrary: d) simp_all
  then show "po_db_ok db \<Longrightarrow> ?thesis" using on_order_account.level_run[of db k xs] by simp
qed

section \<open>Properties\<close>

fun status_rank :: "po_status \<Rightarrow> nat" where
  "status_rank Draft = 0"
| "status_rank Approved = 1"
| "status_rank InTransit = 2"
| "status_rank Received = 3"
| "status_rank Cancelled = 3"

interpretation po_life: lifecycle allowed_transition status_rank 3
proof unfold_locales
  fix a b show "allowed_transition a b \<Longrightarrow> status_rank a < status_rank b"
    by (auto simp: allowed_transition_def)
  show "status_rank a \<le> 3" by (cases a) simp_all
qed

text \<open>C2: The on-order contract.  When the on-order figure of a product is right at the start, it is
  right after any sequence of order creations, status changes, partial and full receipts and stock
  movements, successful or refused: it is the unreceived quantity of the product's approved and
  in-transit orders, so the clipping at zero in the procedures never has an effect; and stock is never
  negative.\<close>

theorem on_order_contract:
  fixes db :: "'a po_db_scheme"
  assumes "po_db_ok db" and "phantom k db = 0"
  shows "on_order_of k (run po_step ops db) = outstanding k (run po_step ops db) \<and>
    0 \<le> outstanding k (run po_step ops db) \<and> 0 \<le> stock_of k (run po_step ops db)"
proof -
  note i = on_order_account.inv_run[OF assms(1), of ops]
  have "0 \<le> outstanding k (run po_step ops db)" unfolding outstanding_def
    by (rule sum_list_nonneg) (use i in \<open>auto simp: po_db_ok_def intro: contrib_nonneg\<close>)
  moreover have "0 \<le> stock_of k (run po_step ops db)"
    using i by (intro stock_of_nonneg) (simp add: po_db_ok_def)
  ultimately show ?thesis using phantom_run[OF assms(1), of k ops] assms(2) by (simp add: phantom_def)
qed

definition shop :: "bool \<Rightarrow> product \<Rightarrow> po_db" where
  "shop partial_index p = \<lparr>products = [p], movements = [], next_movement = 1, user_ids = [1], audit_log = [],
     today = 0, orders = [], receipts = [], next_po = 1, next_receipt = 1, supplier_ids = [1],
     gr_index_partial = partial_index\<rparr>"

lemma shop_ok: "0 \<le> n \<Longrightarrow> po_db_ok (shop b (demo_product n))"
  by (simp add: po_db_ok_def inv_db_ok_def shop_def demo_product_def phantom_def on_order_of_def
      outstanding_def find_product_def find_row_def)

lemma shop_phantom: "phantom 1 (shop b (demo_product n)) = 0"
  by (simp add: shop_def demo_product_def phantom_def on_order_of_def outstanding_def find_product_def
      find_row_def)

theorem on_order_contract_witness:
  "on_order_of 1 (run po_step [OpCreate ''PO-1'' 1 1 8 2 ''approved'' None,
       OpTransition 1 ''in_transit'' None None None None None] (shop True (demo_product 5)))
   = outstanding 1 (run po_step [OpCreate ''PO-1'' 1 1 8 2 ''approved'' None,
       OpTransition 1 ''in_transit'' None None None None None] (shop True (demo_product 5)))"
  using on_order_contract[OF shop_ok[of 5] shop_phantom] by (metis zero_le_numeral)

lemma draft_and_mark_Ok:
  fixes db :: "'a po_db_scheme"
  assumes ok: "po_db_ok db" and p: "find_product (prod_id p) db = Some p" and q: "0 < q"
    and out: "outstanding (prod_id p) db = 0"
    and m: "draft_and_mark d p q db = Ok (i, db')"
  shows "po_db_ok db' \<and> phantom (prod_id p) db' = q"
proof -
  obtain s db1 where c: "sp_po_create (auto_number d p) s (prod_id p) q (unit_price p) ''draft'' None db = Ok (i, db1)"
    and fin: "db' = set_product (prod_id p) (\<lambda>p. p\<lparr>on_order := q\<rparr>) db1"
    using m by (auto simp: draft_and_mark_def bindE_Ok_iff sp_product_set_on_order_def)
  have ok1: "po_db_ok db1 \<and> (\<forall>k. phantom k db1 = phantom k db)" using sp_po_create_ok[OF ok c] .
  have ins: "insert_order (auto_number d p) s (prod_id p) q (unit_price p) ''draft'' None db = Ok (i, db1)"
    using c by (auto simp: sp_po_create_def bindE_Ok_iff)
  note I = po_db_ok_insert[OF ok ins]
  have p1: "find_product (prod_id p) db1 = Some p" using p I(4) by (simp add: find_product_def)
  have "phantom (prod_id p) db1 = on_order p" using ok1 p out by (simp add: phantom_def on_order_of_def)
  then show ?thesis
    using set_on_order_ok[of db1 "prod_id p" p "\<lambda>_. q"] ok1 p1 q unfolding fin by simp
qed

lemma reorder_quantity_pos: "0 < reorder_quantity p"
  by (auto simp: reorder_quantity_def Let_def max_def)

text \<open>C6: Marking a product as ordered breaks the contract for good.  The handler drafts an order of
  \<open>q\<close> units and also sets on-order to \<open>q\<close>, although drafts count only from their approval: when
  nothing was outstanding, then in every later state reached through the procedures (approval,
  shipment, full receipt, cancellation, ...) on-order exceeds the really outstanding quantity by \<open>q\<close>,
  and the product never appears in the low-stock list again.\<close>

theorem mark_ordered_phantom:
  fixes db :: "'a po_db_scheme"
  assumes "po_db_ok db" and "live_product pid db = Some p" and "outstanding pid db = 0"
    and "mark_ordered d pid db = (Ok (Some i), db')"
  shows "on_order_of pid (run po_step ops db')
      = outstanding pid (run po_step ops db') + reorder_quantity p \<and>
    pid \<notin> prod_id ` set (sp_product_low_stock (run po_step ops db'))"
proof -
  let ?e = "run po_step ops db'"
  have find: "find_product pid db = Some p"
    using assms(1,2) by (auto simp: po_db_ok_def inv_db_ok_def intro: live_product_find)
  then have id: "prod_id p = pid" by (auto simp: find_product_def dest: find_row_Some)
  have m: "draft_and_mark d p (reorder_quantity p) db = Ok (i, db')"
    using assms(2,4) by (auto simp: mark_ordered_def split: sum.splits)
  have r: "po_db_ok db' \<and> phantom pid db' = reorder_quantity p"
    using draft_and_mark_Ok[OF assms(1) _ reorder_quantity_pos _ m] find assms(3) id by simp
  have e: "po_db_ok ?e" "phantom pid ?e = reorder_quantity p"
    using on_order_account.inv_run[of db' ops] phantom_run[of db' pid ops] r by simp_all
  have "0 \<le> outstanding pid ?e" unfolding outstanding_def
    by (rule sum_list_nonneg) (use e in \<open>auto simp: po_db_ok_def intro: contrib_nonneg\<close>)
  then have pos: "0 < on_order_of pid ?e" using e(2) reorder_quantity_pos[of p] by (simp add: phantom_def)
  have "\<not> on_order x \<le> 0" if "x \<in> set (products ?e)" "prod_id x = pid" for x
    using that pos e(1) find_row_unique[of prod_id "products ?e" x]
    by (auto simp: on_order_of_def find_product_def po_db_ok_def inv_db_ok_def)
  then show ?thesis using e(2) by (auto simp: phantom_def sp_product_low_stock_def)
qed

theorem mark_ordered_phantom_witness:
  "on_order_of 1 (run po_step [OpTransition 1 ''approved'' None None None None None,
       OpTransition 1 ''in_transit'' None None None None None,
       OpTransition 1 ''received'' None None None None None]
       (snd (mark_ordered ''20260101'' 1 (shop True (demo_product 5)))))
   = outstanding 1 (run po_step [OpTransition 1 ''approved'' None None None None None,
       OpTransition 1 ''in_transit'' None None None None None,
       OpTransition 1 ''received'' None None None None None]
       (snd (mark_ordered ''20260101'' 1 (shop True (demo_product 5))))) + 5"
proof -
  have l: "live_product 1 (shop True (demo_product 5)) = Some (demo_product 5)"
    by (simp add: live_product_def shop_def find_row_def demo_product_def)
  have q: "reorder_quantity (demo_product 5) = 5"
    by (simp add: reorder_quantity_def calculate_eoq_def demo_product_def)
  have o: "outstanding 1 (shop True (demo_product 5)) = 0" by (simp add: outstanding_def shop_def)
  have "case draft_and_mark ''20260101'' (demo_product 5) 5 (shop True (demo_product 5)) of
      Inr (i, db) \<Rightarrow> i = 1 | Inl _ \<Rightarrow> False" by code_simp
  then have "fst (mark_ordered ''20260101'' 1 (shop True (demo_product 5))) = Ok (Some 1)"
    by (simp add: mark_ordered_def l q split: sum.splits prod.splits)
  then have m: "mark_ordered ''20260101'' 1 (shop True (demo_product 5))
      = (Ok (Some 1), snd (mark_ordered ''20260101'' 1 (shop True (demo_product 5))))"
    by (simp add: prod_eq_iff)
  have ok: "po_db_ok (shop True (demo_product 5))" by (rule shop_ok) simp
  show ?thesis using mark_ordered_phantom[OF ok l o m, THEN conjunct1] unfolding q by blast
qed

text \<open>An order along a run: its identity stays, its status moves along allowed transitions.\<close>

definition same_order :: "purchase_order \<Rightarrow> purchase_order \<Rightarrow> bool" where
  "same_order r r' \<longleftrightarrow> po_number r' = po_number r \<and> po_product r' = po_product r \<and>
     po_quantity r' = po_quantity r \<and> po_received r \<le> po_received r' \<and>
     (po_status r' = po_status r \<or> allowed_transition (po_status r) (po_status r'))"

lemma find_order_other:
  assumes f: "\<And>x. po_id (f x) = po_id x" and ij: "j \<noteq> i"
  shows "find_order j (set_order i f db) = find_order j db"
proof -
  have "find_row (\<lambda>r. po_id r = j \<and> \<not> po_deleted r) (update_where (\<lambda>r. po_id r = i) f rows)
      = find_row (\<lambda>r. po_id r = j \<and> \<not> po_deleted r) rows" for rows
    using f ij by (induction rows) (auto simp: find_row_def update_where_def)
  then show ?thesis by (simp add: find_order_def set_order_def)
qed

lemma same_order_refl: "same_order r r" by (simp add: same_order_def)

definition after_receipt :: "purchase_order \<Rightarrow> int \<Rightarrow> purchase_order" where
  "after_receipt r v = r\<lparr>po_received := po_received r + v, po_status :=
      (if po_quantity r \<le> po_received r + v then Received else InTransit)\<rparr>"

lemma receive_effects_order:
  fixes db :: "'a po_db_scheme"
  assumes ok: "po_db_ok db" and r: "find_order (po_id r) db = Some r" and st: "po_status r = InTransit"
    and v: "0 < v" "v \<le> po_quantity r - po_received r"
    and e: "receive_effects r v by_user db = Ok db'"
  shows "find_order j db' = (if j = po_id r then Some (after_receipt r v) else find_order j db)"
    and "stock_of k db' = stock_of k db + (if k = po_product r then v else 0)"
proof -
  let ?i = "po_id r" and ?pid = "po_product r"
  let ?f = "\<lambda>x. x\<lparr>po_received := po_received r + v\<rparr>"
  let ?g = "\<lambda>x. x\<lparr>po_status := (if po_quantity r \<le> po_received r + v then Received else InTransit)\<rparr>"
  have ro: "order_ok r" "\<not> po_deleted r"
    using ok find_order_Some[OF r] by (auto simp: po_db_ok_def)
  define db1 where "db1 = set_order ?i ?f db"
  obtain m db2 db3 where m: "sp_movement_record ?pid ''IN'' v (Some (po_number r)) (Some ''PO received'') by_user db1
      = Ok (m, db2)" and rel: "release_on_order ?pid v db2 = Ok db3" and fin: "db' = set_order ?i ?g db3"
    using e by (auto simp: receive_effects_def bindE_Ok_iff Let_def db1_def)
  have d3: "db3 = set_product ?pid (\<lambda>p. p\<lparr>on_order := max (on_order p - v) 0\<rparr>) db2"
    using rel by (auto simp: release_on_order_def bindE_Ok_iff)
  have i1: "inv_db_ok db1" using ok by (simp add: db1_def po_db_ok_def)
  have o2: "orders db2 = orders db1" by (rule sp_movement_record_Ok[OF m]) (simp add: add_movement_def)
  then have o: "orders db3 = orders db1" by (simp add: d3)
  have d: "distinct (map po_id (orders db))" using ok by (simp add: po_db_ok_def)
  have s1: "find_order ?i db1 = Some (?f r)"
    unfolding db1_def by (rule find_order_set_order[OF r ok]) (use ro in auto)
  have fo: "find_order j db' = find_order j (set_order ?i ?g db1)"
    unfolding fin by (simp add: find_order_def set_order_def o)
  have rows: "orders (set_order ?i ?g db1) = orders (set_order ?i (\<lambda>x. ?g (?f x)) db)"
    by (simp add: db1_def set_order_def update_where_def)
  show "find_order j db' = (if j = po_id r then Some (after_receipt r v) else find_order j db)"
  proof (cases "j = ?i")
    case True
    have "find_order ?i (set_order ?i (\<lambda>x. ?g (?f x)) db) = Some (?g (?f r))"
      by (rule find_order_set_order[OF r ok]) (use ro in auto)
    then show ?thesis using True fo rows by (simp add: find_order_def after_receipt_def)
  next
    case False
    then show ?thesis using fo rows find_order_other[where f = "\<lambda>x. ?g (?f x)" and j = j and i = ?i and db = db]
      by (simp add: find_order_def)
  qed
  have "stock_of k db' = stock_of k db2"
    unfolding fin d3 by (simp add: stock_of_def find_set_product split: option.split)
  then show "stock_of k db' = stock_of k db + (if k = po_product r then v else 0)"
    using sp_movement_record_stock(1)[OF m i1, of k]
    by (simp add: movement_delta_def db1_def stock_of_def)
qed

lemma receive_order_order:
  fixes db :: "'a po_db_scheme"
  assumes ok: "po_db_ok db" and r: "find_order i db = Some r" and st: "po_status r = InTransit"
    and e: "receive_order r rq u notes loc key db = Ok db'"
  shows "find_order j db' = find_order j db \<or> (j = i \<and> (\<exists>v>0. v \<le> po_quantity r - po_received r \<and>
    find_order j db' = Some (after_receipt r v)))"
proof -
  define v where "v = (case rq of Some q \<Rightarrow> q | None \<Rightarrow> po_quantity r)"
  have i: "po_id r = i" using find_order_Some[OF r] by simp
  have v: "0 < v" "v \<le> po_quantity r - po_received r"
    using e by (auto simp: receive_order_def bindE_Ok_iff Let_def v_def)
  have rr: "find_order (po_id r) db = Some r" using r i by simp
  have eff: "find_order j db' = find_order j db \<or> (j = i \<and> (\<exists>v>0. v \<le> po_quantity r - po_received r \<and>
    find_order j db' = Some (after_receipt r v)))"
    if "receive_effects r v u' db1 = Ok db'" "po_db_ok db1" "orders db1 = orders db" for u' and db1 :: "'a po_db_scheme"
  proof -
    have f: "find_order k db1 = find_order k db" for k using that(3) by (rule find_order_cong)
    show ?thesis
      using receive_effects_order(1)[OF that(2) _ st v that(1), of j] f rr i v by auto
  qed
  show ?thesis
  proof (cases u)
    case None
    then have "receive_effects r v None db = Ok db'"
      using e by (auto simp: receive_order_def bindE_Ok_iff Let_def v_def)
    then show ?thesis using eff[of None db] ok by simp
  next
    case (Some w)
    obtain x where x: "sp_goods_receipt_create (po_id r) v w notes loc key db = Ok x"
      and y: "(case x of (receipt, db1) \<Rightarrow> if key \<noteq> None \<and> receipt = None then
            (if \<exists>g\<in>set (receipts db). gr_key g = key \<and> gr_po g = po_id r \<and> gr_quantity g = v
             then Ok db
             else Err (DbRaise (''Idempotency key '' @ the key @ '' reused with different PO/quantity'')))
          else receive_effects r v (Some w) db1) = Ok db'"
      using e unfolding receive_order_def Let_def v_def[symmetric] Some bindE_Ok_iff option.case
      by blast
    obtain rid db1 where xx: "x = (rid, db1)" by (cases x)
    note fr = receipt_frame[OF x[unfolded xx]]
    have "db' = db \<or> receive_effects r v (Some w) db1 = Ok db'"
      using y unfolding xx by (auto split: if_splits)
    then show ?thesis
    proof
      assume "receive_effects r v (Some w) db1 = Ok db'"
      then show ?thesis by (rule eff) (use fr ok in auto)
    qed simp
  qed
qed

lemma sp_po_transition_order:
  fixes db :: "'a po_db_scheme"
  assumes ok: "po_db_ok db" and t: "sp_po_transition i new rq u notes loc key db = Ok db'"
    and s: "find_order j db = Some s"
  shows "\<exists>s'. find_order j db' = Some s' \<and> same_order s s'"
proof -
  obtain r where r: "find_order i db = Some r" using t by (auto simp: sp_po_transition_def split: option.splits)
  have rid: "po_id r = i" "\<not> po_deleted r" using find_order_Some[OF r] by auto
  show ?thesis
  proof (cases "status_text (po_status r) = new")
    case True then show ?thesis using t r s by (auto simp: sp_po_transition_def intro: same_order_refl)
  next
    case False
    then obtain st where st: "status_of new = Some st" "allowed_transition (po_status r) st"
      using t r by (auto simp: sp_po_transition_def split: option.splits if_splits)
    show ?thesis
    proof (cases "st = Received")
      case True
      then have it: "po_status r = InTransit" using st(2) by (simp add: allowed_transition_def)
      have "receive_order r rq u notes loc key db = Ok db'"
        using t r False st True by (simp add: sp_po_transition_def)
      from receive_order_order[OF ok r it this, of j] show ?thesis
        using s r it by (auto simp: same_order_def allowed_transition_def after_receipt_def)
    next
      case nr: False
      let ?f = "\<lambda>x. x\<lparr>po_status := st\<rparr>"
      obtain db1 where c: "(if st = Approved then add_on_order (po_product r) (po_quantity r) db
          else if st = Cancelled \<and> (po_status r = Approved \<or> po_status r = InTransit)
          then release_on_order (po_product r) (po_quantity r - po_received r) db else Ok db) = Ok db1"
        and d: "db' = set_order i ?f db1"
        using t r False st nr by (simp add: sp_po_transition_def bindE_Ok_iff) blast
      have o: "orders db1 = orders db"
        using c by (auto simp: bindE_Ok_iff add_on_order_def release_on_order_def split: if_splits)
      have e: "find_order j db' = find_order j (set_order i ?f db)"
        using o by (simp add: d find_order_def set_order_def)
      show ?thesis
      proof (cases "j = i")
        case True
        then have "find_order j db' = Some (?f r)" unfolding e
          using find_order_set_order[where f = ?f, OF r ok] rid by simp
        then show ?thesis using s r True st(2) by (auto simp: same_order_def)
      next
        case other: False
        then have "find_order j db' = Some s"
          unfolding e using find_order_other[where f = ?f and j = j and i = i and db = db] s by simp
        then show ?thesis using same_order_refl by blast
      qed
    qed
  qed
qed

lemma po_step_order:
  fixes db :: "'a po_db_scheme"
  assumes ok: "po_db_ok db" and s: "find_order j db = Some s"
  shows "\<exists>s'. find_order j (po_step x db) = Some s' \<and> same_order s s'"
proof (cases x)
  case (OpCreate num sid pid q c st eta)
  show ?thesis
  proof (cases "sp_po_create num sid pid q c st eta db")
    case (Inl e) then show ?thesis using s same_order_refl by (auto simp: OpCreate or_same_def)
  next
    case (Inr w)
    obtain i d where w: "w = (i, d)" by (cases w)
    obtain db1 where ins: "insert_order num sid pid q c st eta db = Ok (i, db1)" and o: "orders d = orders db1"
      using Inr w by (auto simp: sp_po_create_def bindE_Ok_iff add_on_order_def split: if_splits)
    have "find_order j d = find_order j db1" using o by (rule find_order_cong)
    also have "\<dots> = Some s"
      using insert_order_Ok[OF ins] s by (auto simp: find_order_def find_row_append)
    finally show ?thesis using same_order_refl by (auto simp: OpCreate Inr w or_same_def)
  qed
next
  case (OpTransition i st rq u nt loc key)
  then show ?thesis
    using sp_po_transition_order[OF ok, of i st rq u nt loc key _ j s] s same_order_refl
    by (cases "sp_po_transition i st rq u nt loc key db") (auto simp: or_same_def)
next
  case (OpMovement pid ty q ref nt uid)
  show ?thesis
  proof (cases "sp_movement_record pid ty q ref nt uid db")
    case (Inl e) then show ?thesis using s same_order_refl by (auto simp: OpMovement or_same_def)
  next
    case (Inr w)
    obtain i d where w: "w = (i, d)" by (cases w)
    then have "find_order j d = Some s"
      using sp_movement_record_frame(3)[OF ok Inr[unfolded w]] s find_order_cong by metis
    then show ?thesis using same_order_refl by (auto simp: OpMovement Inr w or_same_def)
  qed
qed

lemma terminal_order: "status_rank a = 3 \<Longrightarrow> \<not> allowed_transition a b"
  using po_life.terminal_stays[of a b] by simp

text \<open>C4: Along any run an order keeps its number, product and quantity, its received quantity only
  grows and stays within the ordered quantity, and its status moves only along the machine's
  transitions: it never climbs down, and a received or cancelled order never changes status again.\<close>

theorem order_life_cycle:
  fixes db :: "'a po_db_scheme"
  assumes "po_db_ok db" and "find_order i db = Some r"
  shows "\<exists>r'. find_order i (run po_step ops db) = Some r' \<and>
    po_number r' = po_number r \<and> po_product r' = po_product r \<and> po_quantity r' = po_quantity r \<and>
    po_received r \<le> po_received r' \<and> po_received r' \<le> po_quantity r' \<and>
    allowed_transition\<^sup>*\<^sup>* (po_status r) (po_status r') \<and>
    status_rank (po_status r) \<le> status_rank (po_status r') \<and>
    (status_rank (po_status r) = 3 \<longrightarrow> po_status r' = po_status r)"
proof -
  have "\<exists>r'. find_order i (run po_step ops d) = Some r' \<and>
    po_number r' = po_number r \<and> po_product r' = po_product r \<and> po_quantity r' = po_quantity r \<and>
    po_received r \<le> po_received r' \<and> allowed_transition\<^sup>*\<^sup>* (po_status r) (po_status r')"
    if "po_db_ok d" "find_order i d = Some r" for d :: "'a po_db_scheme" and r
    using that
  proof (induction ops arbitrary: d r)
    case (Cons x ops)
    obtain s where s: "find_order i (po_step x d) = Some s" "same_order r s"
      using po_step_order[OF Cons.prems] by blast
    have "po_db_ok (po_step x d)" using po_step_ok[OF Cons.prems(1)] by simp
    from Cons.IH[OF this s(1)] obtain r' where r': "find_order i (run po_step ops (po_step x d)) = Some r'"
      "po_number r' = po_number s" "po_product r' = po_product s" "po_quantity r' = po_quantity s"
      "po_received s \<le> po_received r'" "allowed_transition\<^sup>*\<^sup>* (po_status s) (po_status r')" by blast
    have "allowed_transition\<^sup>*\<^sup>* (po_status r) (po_status s)" using s(2) by (auto simp: same_order_def)
    with r'(6) have "allowed_transition\<^sup>*\<^sup>* (po_status r) (po_status r')" by (meson rtranclp_trans)
    then show ?case using r' s(2) by (intro exI[of _ r']) (simp add: same_order_def)
  qed auto
  then obtain r' where r': "find_order i (run po_step ops db) = Some r'"
    "po_number r' = po_number r" "po_product r' = po_product r" "po_quantity r' = po_quantity r"
    "po_received r \<le> po_received r'" "allowed_transition\<^sup>*\<^sup>* (po_status r) (po_status r')"
    using assms by blast
  have "order_ok r'"
    using on_order_account.inv_run[OF assms(1), of ops] find_order_Some[OF r'(1)] by (simp add: po_db_ok_def)
  moreover have "status_rank a \<le> status_rank b" if "allowed_transition\<^sup>*\<^sup>* a b" for a b
    using that by (induction rule: rtranclp_induct) (auto dest: po_life.climbs)
  moreover have "po_status r' = po_status r" if "status_rank (po_status r) = 3"
    using r'(6) terminal_order[OF that] by (metis converse_rtranclpE)
  ultimately show ?thesis using r' by (auto simp: order_ok_def)
qed

definition demo_order :: purchase_order where
  "demo_order = \<lparr>po_id = 1, po_number = ''PO-1'', po_supplier = 1, po_product = 1, po_quantity = 8,
     po_unit_cost = 2, po_status = InTransit, po_eta = None, po_received = 0, po_deleted = False\<rparr>"

definition demo_shop :: "bool \<Rightarrow> po_db" where
  "demo_shop partial_index = (shop partial_index ((demo_product 5)\<lparr>on_order := 8\<rparr>))
     \<lparr>orders := [demo_order], next_po := 2\<rparr>"

lemma demo_shop_ok: "po_db_ok (demo_shop b)"
  by (simp add: po_db_ok_def inv_db_ok_def demo_shop_def shop_def demo_product_def phantom_def
      on_order_of_def outstanding_def find_product_def find_row_def demo_order_def order_ok_def contrib_def
      is_open_def)

lemma demo_shop_order: "find_order 1 (demo_shop b) = Some demo_order"
  by (simp add: find_order_def demo_shop_def find_row_def demo_order_def)

theorem order_life_cycle_witness:
  "\<exists>r'. find_order 1 (run po_step [OpTransition 1 ''received'' None None None None None] (demo_shop True)) = Some r' \<and>
    po_quantity r' = 8 \<and> po_received r' \<le> 8 \<and> 2 \<le> status_rank (po_status r')"
proof -
  obtain r' where "find_order 1 (run po_step [OpTransition 1 ''received'' None None None None None] (demo_shop True)) = Some r'"
    "po_quantity r' = po_quantity demo_order" "po_received r' \<le> po_quantity r'"
    "status_rank (po_status demo_order) \<le> status_rank (po_status r')"
    using order_life_cycle[OF demo_shop_ok demo_shop_order] by blast
  then show ?thesis by (auto simp: demo_order_def)
qed

text \<open>With the schema's partial unique index no goods can be received through the application.
  The receipt insert says \<open>ON CONFLICT (idempotency_key)\<close> without the index predicate, so no index
  matches and the statement fails: \<open>PurchaseOrderRepository.receive\<close> never changes the database,
  and the receive route answers every attempt on an in-transit order with an error flash.\<close>

theorem receive_fails_with_partial_index:
  fixes db :: "'a po_db_scheme"
  assumes "gr_index_partial db"
  shows "(po_receive fk i q uid notes loc key db = Ok db' \<longrightarrow> db' = db) \<and>
    snd (receive_po fk i quantity uid notes loc key db) = db \<and>
    (\<exists>m. fst (receive_po fk i quantity uid notes loc key db) = [Flash m ''error''])"
proof -
  have rec: "receive_order r rq (Some u) nt lc ky db \<noteq> Ok d" for r rq u nt lc ky d
    using assms by (auto simp: receive_order_def bindE_Ok_iff Let_def sp_goods_receipt_create_def
        conflict_inferred_def)
  have tr: "d = db \<and> (\<exists>r. find_order i db = Some r \<and> po_status r = Received)"
    if T: "sp_po_transition i ''received'' rq (Some u) nt lc ky db = Ok d" for rq u nt lc ky d
  proof -
    obtain r where r: "find_order i db = Some r" using T by (auto simp: sp_po_transition_def split: option.splits)
    have "status_of ''received'' = Some Received" by (simp add: status_of_text)
    then have "status_text (po_status r) = ''received''"
      using T r rec by (auto simp: sp_po_transition_def split: if_splits)
    then show ?thesis using T r by (cases "po_status r") (auto simp: sp_po_transition_def)
  qed
  have one: "po_receive fk i q' uid nt lc ky db = Ok d \<Longrightarrow>
      d = db \<and> (\<exists>r. find_order i db = Some r \<and> po_status r = Received)" for q' nt lc ky d
    by (auto simp: po_receive_def Let_def split: sum.splits if_splits dest: tr)
  have two: "po_service_receive fk i q' uid nt lc ky db \<noteq> Ok d" for q' nt lc ky d
    using one[of q' nt lc ky d]
    by (auto simp: po_service_receive_def bindE_Ok_iff Let_def split: option.splits sum.splits pyexc.splits if_splits)
  have "snd (receive_po fk i quantity uid notes loc key db) = db \<and>
    (\<exists>m. fst (receive_po fk i quantity uid notes loc key db) = [Flash m ''error''])"
    using two by (auto simp: receive_po_def Let_def split: option.splits sum.splits pyexc.splits if_splits)
  then show ?thesis using one by blast
qed

theorem receive_fails_with_partial_index_witness:
  "snd (receive_po ''0'' 1 (Some 3) 1 [] [] (Some ''k'') (demo_shop True)) = demo_shop True"
proof -
  have "gr_index_partial (demo_shop True)" by (simp add: demo_shop_def shop_def)
  from receive_fails_with_partial_index[OF this, THEN conjunct2, THEN conjunct1]
  show ?thesis .
qed

lemma receive_effects_frame:
  fixes db :: "'a po_db_scheme"
  assumes e: "receive_effects r v by_user db = Ok db'"
  shows "receipts db' = receipts db" "user_ids db' = user_ids db" "gr_index_partial db' = gr_index_partial db"
proof -
  let ?pid = "po_product r"
  define db1 where "db1 = set_order (po_id r) (\<lambda>x. x\<lparr>po_received := po_received r + v\<rparr>) db"
  obtain m db2 db3 where m: "sp_movement_record ?pid ''IN'' v (Some (po_number r)) (Some ''PO received'') by_user db1
      = Ok (m, db2)" and rel: "release_on_order ?pid v db2 = Ok db3"
    and fin: "\<exists>g. db' = set_order (po_id r) g db3"
    using e by (auto simp: receive_effects_def bindE_Ok_iff Let_def db1_def)
  have "receipts db2 = receipts db1" "user_ids db2 = user_ids db1" "gr_index_partial db2 = gr_index_partial db1"
    by (rule sp_movement_record_Ok[OF m], simp add: add_movement_def set_product_def)+
  moreover have "receipts db3 = receipts db2" "user_ids db3 = user_ids db2" "gr_index_partial db3 = gr_index_partial db2"
    using rel by (auto simp: release_on_order_def bindE_Ok_iff set_product_def)
  ultimately show "receipts db' = receipts db" "user_ids db' = user_ids db" "gr_index_partial db' = gr_index_partial db"
    using fin by (auto simp: db1_def set_order_def)
qed

lemma receive_key_Ok:
  fixes db :: "'a po_db_scheme"
  assumes "po_receive fk i q uid notes loc (Some k) db = Ok db'" and "find_order i db = Some r"
    and "po_status r = InTransit" and "Some k \<notin> gr_key ` set (receipts db)"
  obtains db1 where "0 < q" "q \<le> po_quantity r - po_received r" "uid \<in> set (user_ids db)"
    "\<not> gr_index_partial db" "length loc \<le> 100" "length k \<le> 64"
    "db1 = db\<lparr>next_receipt := next_receipt db + 1, receipts := receipts db @
       [\<lparr>gr_id = next_receipt db, gr_po = i, gr_quantity = q, gr_received_by = uid, gr_notes = Some notes,
         gr_location = Some loc, gr_key = Some k\<rparr>]\<rparr>"
    "receive_effects r q (Some uid) db1 = Ok db'"
proof -
  have i: "po_id r = i" using find_order_Some[OF assms(2)] by simp
  have "status_of ''received'' = Some Received" by (simp add: status_of_text)
  then have ro: "receive_order r (Some q) (Some uid) (Some notes) (Some loc) (Some k) db = Ok db'"
    using assms by (auto simp: po_receive_def Let_def sp_po_transition_def allowed_transition_def
        split: sum.splits if_splits)
  then obtain x where v: "0 < q" "q \<le> po_quantity r - po_received r"
    and x: "sp_goods_receipt_create i q uid (Some notes) (Some loc) (Some k) db = Ok x"
    and y: "(case x of (receipt, db1) \<Rightarrow> if Some k \<noteq> None \<and> receipt = None then
            (if \<exists>g\<in>set (receipts db). gr_key g = Some k \<and> gr_po g = po_id r \<and> gr_quantity g = q
             then Ok db
             else Err (DbRaise (''Idempotency key '' @ the (Some k) @ '' reused with different PO/quantity'')))
          else receive_effects r q (Some uid) db1) = Ok db'"
    unfolding receive_order_def Let_def bindE_Ok_iff option.case i by auto
  show ?thesis
    using that[OF v] x y assms(4)
    by (auto simp: sp_goods_receipt_create_def bindE_Ok_iff conflict_inferred_def)
qed

lemma receive_books_facts:
  fixes db :: "'a po_db_scheme"
  assumes "po_db_ok db" and "find_order i db = Some r" and "po_status r = InTransit"
    and "Some k \<notin> gr_key ` set (receipts db)"
    and "po_receive fk i q uid notes loc (Some k) db = Ok db'"
  shows "stock_of (po_product r) db' = stock_of (po_product r) db + q \<and>
    find_order i db' = Some (after_receipt r q) \<and>
    (let left = po_quantity r - po_received r - q in 0 \<le> left \<and>
      po_receive fk' i q uid notes loc (Some k) db' =
       (if left = 0 \<or> q \<le> left then Ok db'
        else Err (POError (''Receive quantity exceeds outstanding: Receive quantity '' @ int_str q
          @ '' exceeds outstanding '' @ int_str left))))"
proof -
  have i: "po_id r = i" using find_order_Some[OF assms(2)] by simp
  from receive_key_Ok[OF assms(5,2,3,4)] obtain db1 where v: "0 < q" "q \<le> po_quantity r - po_received r"
    and c: "uid \<in> set (user_ids db)" "\<not> gr_index_partial db" "length loc \<le> 100" "length k \<le> 64"
    and db1: "db1 = db\<lparr>next_receipt := next_receipt db + 1, receipts := receipts db @
       [\<lparr>gr_id = next_receipt db, gr_po = i, gr_quantity = q, gr_received_by = uid, gr_notes = Some notes,
         gr_location = Some loc, gr_key = Some k\<rparr>]\<rparr>" and e: "receive_effects r q (Some uid) db1 = Ok db'" .
  have ok1: "po_db_ok db1" using assms(1)
    by (simp add: db1 po_db_ok_def inv_db_ok_def phantom_def on_order_of_def outstanding_def find_product_def)
  have r1: "find_order (po_id r) db1 = Some r" using assms(2) i by (simp add: db1 find_order_def)
  note E = receive_effects_order[OF ok1 r1 assms(3) v e] receive_effects_frame[OF e]
  have stock: "stock_of (po_product r) db' = stock_of (po_product r) db + q"
    using E(2)[of "po_product r"] by (simp add: db1 stock_of_def find_product_def)
  have fo: "find_order i db' = Some (after_receipt r q)" using E(1)[of i] i by simp
  define left where "left = po_quantity r - po_received r - q"
  have rest: "po_quantity (after_receipt r q) - po_received (after_receipt r q) = left" "po_id (after_receipt r q) = i"
    "po_status (after_receipt r q) = (if left = 0 then Received else InTransit)"
    using v i by (auto simp: after_receipt_def left_def)
  have "status_of ''received'' = Some Received" by (simp add: status_of_text)
  moreover have "\<exists>g\<in>set (receipts db'). gr_key g = Some k \<and> gr_po g = i \<and> gr_quantity g = q"
    using E(3) by (simp add: db1)
  moreover have "Some k \<in> gr_key ` set (receipts db')" using E(3) by (simp add: db1)
  moreover have "user_ids db' = user_ids db" "gr_index_partial db' = gr_index_partial db"
    using E(4,5) by (simp_all add: db1)
  ultimately have tr: "sp_po_transition i ''received'' (Some q) (Some uid) (Some notes) (Some loc) (Some k) db' =
      (if left = 0 \<or> q \<le> left then Ok db' else Err (DbRaise (''Receive quantity '' @ int_str q
          @ '' exceeds outstanding '' @ int_str left)))"
    using v c fo rest
    by (simp add: sp_po_transition_def allowed_transition_def receive_order_def Let_def
        sp_goods_receipt_create_def conflict_inferred_def)
  have "\<not> is_guard_error (DbRaise (''Receive quantity '' @ int_str q @ '' exceeds outstanding ''
      @ int_str left)) po_guards"
  proof -
    let ?m = "''Receive quantity '' @ int_str q @ '' exceeds outstanding '' @ int_str left"
    have "db_error_message (Some (''ERROR:  '' @ ?m)) [] = ?m"
    proof (rule db_error_message_raise)
      show "\<not> is_space (hd ?m)" by (simp add: is_space_def)
    qed (auto simp: int_str_last int_str_chars)
    then show ?thesis by (simp add: po_guards_def)
  qed
  moreover have "contains (''Receive quantity '' @ int_str q @ '' exceeds outstanding '' @ y) ''exceeds outstanding''" for y
  proof -
    have "''Receive quantity '' @ int_str q @ '' exceeds outstanding '' @ y
        = (''Receive quantity '' @ int_str q @ '' '') @ ''exceeds outstanding'' @ ('' '' @ y)" by simp
    then show ?thesis unfolding contains_iff by blast
  qed
  moreover have "0 \<le> left" using v by (simp add: left_def)
  ultimately show ?thesis using stock fo tr
    by (simp add: po_receive_def left_def[symmetric] Let_def)
qed

text \<open>C5: With a full unique index a receipt is booked exactly once: stock rises by the received
  quantity, the order's received quantity with it, the order is received when nothing is left; and
  sending the same request with the same key again changes nothing.  But the replay is recognised only
  when the order is complete or its remainder still covers the quantity: otherwise the check of the
  outstanding quantity comes first and the replay of an accepted receipt is refused with an error.\<close>

theorem receive_books_once:
  fixes db :: "'a po_db_scheme"
  assumes "po_db_ok db" and "find_order i db = Some r" and "po_status r = InTransit"
    and "Some k \<notin> gr_key ` set (receipts db)"
    and "po_receive fk i q uid notes loc (Some k) db = Ok db'"
  shows "stock_of (po_product r) db' = stock_of (po_product r) db + q \<and>
    find_order i db' = Some (after_receipt r q) \<and>
    (let left = po_quantity r - po_received r - q in 0 \<le> left \<and>
      po_receive fk' i q uid notes loc (Some k) db' =
       (if left = 0 \<or> q \<le> left then Ok db'
        else Err (POError (''Receive quantity exceeds outstanding: Receive quantity '' @ int_str q
          @ '' exceeds outstanding '' @ int_str left))))"
  using assms by (rule receive_books_facts)

theorem receive_books_once_witness:
  "\<exists>db'. po_receive ''0'' 1 5 1 [] [] (Some ''k'') (demo_shop False) = Ok db' \<and>
     stock_of 1 db' = 10 \<and>
     po_receive ''0'' 1 5 1 [] [] (Some ''k'') db' = Err (POError
       (''Receive quantity exceeds outstanding: Receive quantity '' @ int_str 5 @ '' exceeds outstanding '' @ int_str 3))"
proof -
  have "case po_receive ''0'' 1 5 1 [] [] (Some ''k'') (demo_shop False) of Inr _ \<Rightarrow> True | Inl _ \<Rightarrow> False"
    by code_simp
  then obtain db' where d: "po_receive ''0'' 1 5 1 [] [] (Some ''k'') (demo_shop False) = Ok db'"
    by (auto split: sum.splits)
  have n: "Some ''k'' \<notin> gr_key ` set (receipts (demo_shop False))" by (simp add: demo_shop_def shop_def)
  have s: "po_status demo_order = InTransit" by (simp add: demo_order_def)
  have st: "stock_of 1 (demo_shop False) = 5"
    by (simp add: stock_of_def find_product_def demo_shop_def shop_def find_row_def demo_product_def)
  show ?thesis
    using receive_books_once[OF demo_shop_ok demo_shop_order s n d, of "''0''"] d st
    by (simp add: demo_order_def)
qed

lemma po_number_of_validated:
  assumes "po_validate_payload p = Ok p'"
  shows "\<exists>n. dget p' ''po_number'' = PStr n \<and> n \<noteq> [] \<and> length n \<le> 50 \<and> strip n = n"
proof -
  have st: "py_strip v = Ok n \<Longrightarrow> strip n = n" for v n by (cases v) auto
  show ?thesis using assms
    unfolding po_validate_payload_def wrap_validation_def
    by (auto simp: bindE_Ok_iff Let_def dest!: st split: sum.splits pyexc.splits if_splits)
qed

text \<open>The service's width check does not match the column: a payload it accepts has a stripped,
  non-empty order number of at most 50 characters, but a number of 41 to 50 characters is always
  refused by the database, with a driver error instead of a POError or POServiceError.\<close>

theorem po_number_width_mismatch:
  fixes db :: "'a po_db_scheme"
  assumes "po_validate_payload p = Ok p'"
  shows "\<exists>n. dget p' ''po_number'' = PStr n \<and> n \<noteq> [] \<and> strip n = n \<and> length n \<le> 50 \<and>
    (40 < length n \<longrightarrow> (\<exists>e. po_service_create date_ok p db = Err e \<and> (\<forall>m. e \<noteq> POError m \<and> e \<noteq> POServiceError m)))"
proof -
  obtain n where n: "dget p' ''po_number'' = PStr n" "n \<noteq> []" "length n \<le> 50" "strip n = n"
    using po_number_of_validated[OF assms] by blast
  let ?raw = "\<lambda>e. (\<forall>m. e \<noteq> POError m \<and> e \<noteq> POServiceError m) \<and> (\<forall>m. e \<noteq> DbUnique m)"
  have no: "\<exists>e. po_create date_ok p' db = Err e \<and> ?raw e" if l: "40 < length n"
  proof -
    have sp: "sp_po_create n sid pid q c st eta db
        = Err (if int4 q then OtherExc ''value too long for type character varying(40)'' else out_of_range)" for sid pid q c st eta
      using l by (simp add: sp_po_create_def insert_order_def ensure_def)
    have fl: "errs ?raw (to_float v)" for v
      by (cases v rule: to_float.cases) (auto split: option.splits)
    have il: "errs ?raw (to_int v)" for v
      by (cases v rule: to_int.cases) (auto split: option.splits)
    have "errs ?raw (po_create date_ok p' db)"
      unfolding po_create_def n(1)
      by (intro errs_bindE fl il) (auto simp: sp split: xfloat.splits pyval.splits)
    moreover have "po_create date_ok p' db \<noteq> Ok w" for w
      unfolding po_create_def n(1) by (simp add: bindE_Ok_iff sp)
    ultimately show ?thesis by (cases "po_create date_ok p' db") auto
  qed
  have "\<exists>e. po_service_create date_ok p db = Err e \<and> (\<forall>m. e \<noteq> POError m \<and> e \<noteq> POServiceError m)"
    if l: "40 < length n"
    using no[OF l] by (auto simp: po_service_create_def assms split: pyexc.splits)
  then show ?thesis using n by blast
qed

definition wide_payload :: payload where
  "wide_payload = [(''po_number'', PStr (replicate 41 CHR ''A'')), (''supplier_id'', PInt 1),
     (''product_id'', PInt 1), (''quantity'', PInt 1), (''unit_cost'', PInt 1)]"

theorem po_number_width_mismatch_witness:
  "\<exists>p' e. po_validate_payload wide_payload = Ok p' \<and>
     po_service_create (\<lambda>_. True) wide_payload (demo_shop True) = Err e \<and> (\<forall>m. e \<noteq> POServiceError m)"
proof -
  have "case po_validate_payload wide_payload of
      Inr p' \<Rightarrow> dget p' ''po_number'' = PStr (replicate 41 CHR ''A'') | Inl _ \<Rightarrow> False" by code_simp
  then obtain p' where p: "po_validate_payload wide_payload = Ok p'"
    "dget p' ''po_number'' = PStr (replicate 41 CHR ''A'')" by (auto split: sum.splits)
  from po_number_width_mismatch[OF p(1), of "\<lambda>_. True" "demo_shop True"] p show ?thesis by auto
qed

end
