(* ===== verification/Idempotency.thy ===== *)
theory Idempotency
  imports Helpers
begin

text \<open>The idempotency decorator (\<open>app/utils/idempotency.py\<close>) over the table
  \<open>idempotency_keys\<close> and its stored procedures.  A view is a function on an abstract world
  that answers with one of the three kinds of value a Flask view returns: a response object, the pair
  \<open>(body, status)\<close> of the JSON envelopes, or a rendered text.  The requests run one after
  another in \<open>idempotent\<close>, and interleaved at the granularity of the database transactions in
  \<open>idem_step\<close>.\<close>

section \<open>The key table\<close>

record idem_row =
  ik_key :: string
  ik_user :: int
  ik_response :: "payload option"
  ik_created :: int

type_synonym idem_table = "idem_row list"

definition ik :: "idem_row \<Rightarrow> string \<times> int" where "ik r = (ik_key r, ik_user r)"

definition sp_idempotency_check :: "string \<Rightarrow> int \<Rightarrow> idem_table \<Rightarrow> payload option" where
  "sp_idempotency_check key uid tab =
     (case find_row (\<lambda>r. ik r = (key, uid)) tab of Some r \<Rightarrow> ik_response r | None \<Rightarrow> None)"

definition sp_idempotency_reserve :: "int \<Rightarrow> string \<Rightarrow> int \<Rightarrow> idem_table \<Rightarrow> (bool \<times> idem_table) result" where
  "sp_idempotency_reserve now key uid tab =
     (if 128 < length key then Err (OtherExc ''value too long for type character varying(128)'')
      else if find_row (\<lambda>r. ik r = (key, uid)) tab \<noteq> None then Ok (False, tab)
      else Ok (True, tab @ [\<lparr>ik_key = key, ik_user = uid, ik_response = None, ik_created = now\<rparr>]))"

definition sp_idempotency_record :: "int \<Rightarrow> string \<Rightarrow> int \<Rightarrow> payload \<Rightarrow> idem_table \<Rightarrow> idem_table" where
  "sp_idempotency_record now key uid resp tab =
     (if find_row (\<lambda>r. ik r = (key, uid)) tab \<noteq> None
      then update_where (\<lambda>r. ik r = (key, uid)) (\<lambda>r. r\<lparr>ik_response := Some resp\<rparr>) tab
      else tab @ [\<lparr>ik_key = key, ik_user = uid, ik_response = Some resp, ik_created = now\<rparr>])"

definition release_idempotency :: "string \<Rightarrow> int \<Rightarrow> idem_table \<Rightarrow> idem_table" where
  "release_idempotency key uid tab = filter (\<lambda>r. \<not> (ik r = (key, uid) \<and> ik_response r = None)) tab"

definition cleanup_idempotency_keys :: "int \<Rightarrow> int \<Rightarrow> idem_table \<Rightarrow> nat \<times> idem_table" where
  "cleanup_idempotency_keys now days tab =
     (let old = (\<lambda>r. ik_created r < now - days)
      in (length (filter old tab), filter (\<lambda>r. \<not> old r) tab))"

lemma ik_row [simp]: "ik \<lparr>ik_key = key, ik_user = uid, ik_response = x, ik_created = now\<rparr> = (key, uid)"
  by (simp add: ik_def)

lemma ik_response_update [simp]: "ik (r\<lparr>ik_response := x\<rparr>) = ik r"
  by (simp add: ik_def)

abbreviation row_of :: "string \<times> int \<Rightarrow> idem_table \<Rightarrow> idem_row option" where
  "row_of k tab \<equiv> find_row (\<lambda>r. ik r = k) tab"

lemma check_row: "sp_idempotency_check key uid tab = Option.bind (row_of (key, uid) tab) ik_response"
  by (simp add: sp_idempotency_check_def split: option.split)

lemma row_of_reserve:
  "sp_idempotency_reserve now key uid tab = Inr (own, tab') \<Longrightarrow>
   own = (row_of (key, uid) tab = None) \<and>
   row_of k tab' = (if own \<and> k = (key, uid)
     then Some \<lparr>ik_key = key, ik_user = uid, ik_response = None, ik_created = now\<rparr> else row_of k tab)"
  by (auto simp: sp_idempotency_reserve_def find_row_append split: if_splits option.splits)

lemma row_of_record:
  "row_of k (sp_idempotency_record now key uid resp tab) = (if k = (key, uid)
     then Some (case row_of k tab of Some r \<Rightarrow> r\<lparr>ik_response := Some resp\<rparr>
       | None \<Rightarrow> \<lparr>ik_key = key, ik_user = uid, ik_response = Some resp, ik_created = now\<rparr>)
     else row_of k tab)"
proof (cases "find_row (\<lambda>r. ik r = (key, uid)) tab")
  case None
  then show ?thesis
    by (auto simp: sp_idempotency_record_def find_row_append split: option.splits)
next
  case (Some r)
  then show ?thesis
    using find_row_update_same[of ik "\<lambda>r. r\<lparr>ik_response := Some resp\<rparr>" "(key, uid)" tab]
      find_row_update_other[of ik "\<lambda>r. r\<lparr>ik_response := Some resp\<rparr>" k "(key, uid)" tab]
    by (auto simp: sp_idempotency_record_def)
qed

lemma row_of_release:
  "distinct (map ik tab) \<Longrightarrow>
   row_of k (release_idempotency key uid tab) =
     (case row_of k tab of Some r \<Rightarrow> if k = (key, uid) \<and> ik_response r = None then None else Some r
      | None \<Rightarrow> None)"
proof (induction tab)
  case (Cons r tab)
  have "row_of (ik r) tab = None" using Cons.prems
    by (metis (mono_tags, lifting) distinct.simps(2) find_row_None image_eqI list.map(2) list.set_map)
  then show ?case using Cons by (auto simp: release_idempotency_def split: option.splits)
qed (simp add: release_idempotency_def)

lemma distinct_record: "distinct (map ik tab) \<Longrightarrow> distinct (map ik (sp_idempotency_record now key uid resp tab))"
  by (auto simp: sp_idempotency_record_def find_row_None)

lemma distinct_release: "distinct (map ik tab) \<Longrightarrow> distinct (map ik (release_idempotency key uid tab))"
  by (simp add: release_idempotency_def distinct_map_filter)

lemma distinct_reserve:
  "sp_idempotency_reserve now key uid tab = Inr (own, tab') \<Longrightarrow> distinct (map ik tab) \<Longrightarrow> distinct (map ik tab')"
  by (force simp: sp_idempotency_reserve_def find_row_None split: if_splits)

section \<open>The decorator\<close>

datatype view_result =
    RespObj int "pyval option" "(string \<times> string) list"  \<comment> \<open>status, \<open>get_json()\<close>, headers\<close>
  | RespTuple payload int
  | RespText string

record http_request =
  rq_headers :: "(string \<times> string) list"
  rq_form :: "(string \<times> string) list"
  rq_user :: "int option"

fun header_of :: "(string \<times> string) list \<Rightarrow> string \<Rightarrow> string option" where
  "header_of [] name = None"
| "header_of ((k, v) # hs) name = (if lower k = lower name then Some v else header_of hs name)"

definition or_text :: "string option \<Rightarrow> string option \<Rightarrow> string option" where
  "or_text a b = (case a of Some s \<Rightarrow> if s = [] then b else a | None \<Rightarrow> b)"

definition get_idempotency_key :: "http_request \<Rightarrow> string option" where
  "get_idempotency_key rq = or_text (or_text (header_of (rq_headers rq) ''Idempotency-Key'')
     (header_of (rq_headers rq) ''X-Idempotency-Key'')) (map_of (rq_form rq) ''idempotency_key'')"

text \<open>What the decorator stores of a result: an empty answer means it is not recordable.\<close>

definition recordable :: "view_result \<Rightarrow> payload option" where
  "recordable v = (case v of
      RespObj status json hs \<Rightarrow>
        if 200 \<le> status \<and> status < 300 then
          (case json of
             Some (PDict d) \<Rightarrow>
               if truthy (PDict d) \<and> truthy (dget d ''success'')
               then Some [(''data'', dget d ''data''), (''status'', PInt status), (''message'', dget d ''message'')]
               else None
           | _ \<Rightarrow> None)
        else if status \<in> {301, 302, 303, 307, 308} then
          (case header_of hs ''Location'' of
             Some loc \<Rightarrow> if loc = [] then None else Some [(''redirect'', PStr loc)]
           | None \<Rightarrow> None)
        else None
    | RespTuple body status \<Rightarrow> None
    | RespText t \<Rightarrow> None)"

text \<open>The end of an execution: an exception releases the key and is raised again, a recordable result
  is stored, everything else releases the key.  \<open>rec_up\<close> and \<open>rel_up\<close> say whether the
  statements of this request that record and release reach the database.\<close>

definition settle ::
  "int \<Rightarrow> bool \<Rightarrow> bool \<Rightarrow> string \<Rightarrow> int \<Rightarrow> view_result result \<Rightarrow> idem_table \<Rightarrow> view_result result \<times> idem_table" where
  "settle now rec_up rel_up key uid r tab =
     (let released = (if rel_up then release_idempotency key uid tab else tab)
      in case r of
        Inl e \<Rightarrow> (if rel_up then Err e else Err (DbOperational ''release_idempotency''), released)
      | Inr v \<Rightarrow> (Ok v, case recordable v of
            Some resp \<Rightarrow> if rec_up then sp_idempotency_record now key uid resp tab else released
          | None \<Rightarrow> released))"

text \<open>The answer to a request that lost the reservation.  The envelope function returns a pair, which
  has no attribute \<open>headers\<close>.\<close>

definition replay :: "string \<Rightarrow> int \<Rightarrow> idem_table \<Rightarrow> view_result result" where
  "replay key uid tab = (case sp_idempotency_check key uid tab of
      Some cached \<Rightarrow>
        (case map_of cached ''redirect'' of
           Some loc \<Rightarrow> (case loc of
               PStr l \<Rightarrow> Ok (RespObj 302 None [(''Location'', l), (''Idempotency-Replayed'', ''true'')])
             | _ \<Rightarrow> Err (TypeError ''redirect''))
         | None \<Rightarrow> Err (AttributeError ''tuple object has no attribute headers''))
    | None \<Rightarrow> (case api_error ''DUPLICATE_REQUEST_IN_PROGRESS''
         ''An identical request is already being processed.'' 409 None of (b, st) \<Rightarrow> Ok (RespTuple b st)))"

definition idempotent ::
  "bool \<Rightarrow> int \<Rightarrow> bool \<Rightarrow> bool \<Rightarrow> ('w \<Rightarrow> view_result result \<times> 'w) \<Rightarrow> http_request \<Rightarrow>
   idem_table \<times> 'w \<Rightarrow> view_result result \<times> idem_table \<times> 'w" where
  "idempotent required now rec_up rel_up f rq s = (case s of (tab, w) \<Rightarrow>
     (case or_text (get_idempotency_key rq) None of
        None \<Rightarrow>
          if required
          then (case api_error ''IDEMPOTENCY_KEY_REQUIRED''
                   ''Idempotency-Key header is required for this endpoint.'' 422 None of (b, st) \<Rightarrow>
                 (Ok (RespTuple b st), tab, w))
          else (case f w of (r, w') \<Rightarrow> (r, tab, w'))
      | Some key \<Rightarrow>
          (case rq_user rq of
             None \<Rightarrow> (case api_error ''UNAUTHORIZED''
                   ''Authentication required for idempotent operations.'' 401 None of (b, st) \<Rightarrow>
                 (Ok (RespTuple b st), tab, w))
           | Some uid \<Rightarrow>
               (case sp_idempotency_reserve now key uid tab of
                  Inl e \<Rightarrow> (Inl e, tab, w)
                | Inr (own, tab1) \<Rightarrow>
                    if \<not> own then (replay key uid tab1, tab1, w)
                    else (case f w of (r, w') \<Rightarrow>
                      (case settle now rec_up rel_up key uid r tab1 of (r', tab2) \<Rightarrow> (r', tab2, w')))))))"

section \<open>Requests one after another\<close>

definition keyed :: "http_request \<Rightarrow> string \<Rightarrow> int \<Rightarrow> bool" where
  "keyed rq key uid \<longleftrightarrow> or_text (get_idempotency_key rq) None = Some key \<and> rq_user rq = Some uid"

lemma idempotent_lost:
  assumes "keyed rq key uid" and "length key \<le> 128" and "row_of (key, uid) tab \<noteq> None"
  shows "idempotent required now a b f rq (tab, w) = (replay key uid tab, tab, w)"
  using assms by (simp add: keyed_def idempotent_def sp_idempotency_reserve_def)

lemma idempotent_owned:
  assumes "keyed rq key uid" and "length key \<le> 128" and "row_of (key, uid) tab = None" and "f w = (r, w')"
  shows "idempotent required now a b f rq (tab, w) =
    (case settle now a b key uid r
       (tab @ [\<lparr>ik_key = key, ik_user = uid, ik_response = None, ik_created = now\<rparr>]) of
       (r', tab2) \<Rightarrow> (r', tab2, w'))"
  using assms by (simp add: keyed_def idempotent_def sp_idempotency_reserve_def)

lemma release_reserved:
  assumes "row_of (key, uid) tab = None"
  shows "release_idempotency key uid
    (tab @ [\<lparr>ik_key = key, ik_user = uid, ik_response = None, ik_created = now\<rparr>]) = tab"
proof -
  have "\<forall>r\<in>set tab. ik r \<noteq> (key, uid)" using assms by (simp add: find_row_None)
  then show ?thesis by (simp add: release_idempotency_def)
qed

lemma row_of_snoc:
  "row_of k (tab @ [r]) = (case row_of k tab of Some x \<Rightarrow> Some x | None \<Rightarrow> if ik r = k then Some r else None)"
  unfolding find_row_append by (simp split: option.split)

text \<open>A served request: the parameters of the decorator, the view and the request.\<close>

type_synonym 'w served =
  "bool \<times> int \<times> bool \<times> bool \<times> ('w \<Rightarrow> view_result result \<times> 'w) \<times> http_request"

definition serve :: "'w served \<Rightarrow> idem_table \<times> 'w \<Rightarrow> idem_table \<times> 'w" where
  "serve x s = (case x of (required, now, a, b, f, rq) \<Rightarrow> snd (idempotent required now a b f rq s))"

lemma settle_table:
  assumes d: "distinct (map ik tab)" and r: "row_of (key, uid) tab = Some row"
  shows "distinct (map ik (snd (settle now a b key uid res tab))) \<and>
    (k \<noteq> (key, uid) \<longrightarrow> row_of k (snd (settle now a b key uid res tab)) = row_of k tab)"
  using d distinct_record[OF d] distinct_release[OF d] row_of_release[OF d]
  by (auto simp: settle_def row_of_record Let_def split: sum.splits option.splits)

text \<open>Serving keeps the key unique, and a recorded answer in place.\<close>

definition keys_unique :: "idem_table \<times> 'w \<Rightarrow> bool" where
  "keys_unique s = distinct (map ik (fst s))"

definition recorded :: "string \<times> int \<Rightarrow> payload \<Rightarrow> idem_table \<times> 'w \<Rightarrow> bool" where
  "recorded k resp s \<longleftrightarrow> distinct (map ik (fst s)) \<and> Option.bind (row_of k (fst s)) ik_response = Some resp"

lemma serve_cases:
  obtains (same) "fst (serve x s) = fst s"
  | (own) key uid now a b r tab1 where
      "sp_idempotency_reserve now key uid (fst s) = Inr (True, tab1)"
      "fst (serve x s) = snd (settle now a b key uid r tab1)"
proof -
  obtain required now a b f rq where x: "x = (required, now, a, b, f, rq)" by (cases x)
  obtain tab w where s: "s = (tab, w)" by (cases s)
  show thesis
  proof (cases "\<exists>key uid tab1. keyed rq key uid \<and> sp_idempotency_reserve now key uid tab = Inr (True, tab1)")
    case True
    then obtain key uid tab1 where
      k: "keyed rq key uid" and r: "sp_idempotency_reserve now key uid tab = Inr (True, tab1)" by blast
    have "fst (serve x s) = snd (settle now a b key uid (fst (f w)) tab1)"
      using k r by (simp add: serve_def x s idempotent_def keyed_def split: prod.splits)
    with r own[of now key uid tab1] show thesis by (simp add: s)
  next
    case False
    have "tab1 = tab" if "sp_idempotency_reserve now key uid tab = Inr (False, tab1)" for key uid tab1
      using that by (simp add: sp_idempotency_reserve_def split: if_splits)
    then have "fst (serve x s) = fst s" using False
      by (auto simp: serve_def x s idempotent_def keyed_def split: option.splits sum.splits prod.splits)
    then show thesis by (rule same)
  qed
qed

lemma serve_keys_unique: "keys_unique s \<Longrightarrow> keys_unique (serve x s)"
proof (cases x s rule: serve_cases)
  case (own key uid now a b r tab1)
  assume "keys_unique s"
  then have d: "distinct (map ik tab1)" using own(1) distinct_reserve by (auto simp: keys_unique_def)
  have "row_of (key, uid) tab1 \<noteq> None" using row_of_reserve[OF own(1)] by simp
  then obtain row where row: "row_of (key, uid) tab1 = Some row" by blast
  show ?thesis using settle_table[OF d row] by (simp add: keys_unique_def own(2))
qed (simp add: keys_unique_def)

interpretation idem_serving: op_system serve keys_unique
  by unfold_locales (rule serve_keys_unique)

lemma serve_recorded: "recorded k resp s \<Longrightarrow> recorded k resp (serve x s)"
proof (cases x s rule: serve_cases)
  case (own key uid now a b r tab1)
  assume rec: "recorded k resp s"
  then have d: "distinct (map ik tab1)" using own(1) distinct_reserve by (auto simp: recorded_def)
  have new: "row_of (key, uid) tab1 \<noteq> None" "row_of (key, uid) (fst s) = None"
    using row_of_reserve[OF own(1)] by simp_all
  have k: "k \<noteq> (key, uid)" using rec new(2) by (auto simp: recorded_def)
  then have "row_of k tab1 = row_of k (fst s)" using row_of_reserve[OF own(1), of k] by simp
  moreover obtain row where row: "row_of (key, uid) tab1 = Some row" using new(1) by blast
  ultimately show ?thesis using settle_table[where k = k, OF d row] k rec
    unfolding recorded_def own(2) by simp
qed (simp add: recorded_def)

interpretation idem_memory: op_system serve "recorded k resp" for k resp
  by unfold_locales (rule serve_recorded)

lemma recorded_replays:
  assumes "recorded (key, uid) resp (tab, w)" and "keyed rq key uid" and "length key \<le> 128"
  shows "idempotent required now a b f rq (tab, w) = (replay key uid tab, tab, w)"
    and "sp_idempotency_check key uid tab = Some resp"
  using assms idempotent_lost[of rq key uid tab] by (auto simp: recorded_def check_row split: bind_splits)

lemma idempotent_recorded:
  assumes "keyed rq key uid" and "length key \<le> 128" and "row_of (key, uid) tab = None"
    and "distinct (map ik tab)" and "f w = (Inr v, w1)" and "recordable v = Some resp"
  shows "\<exists>tab1. idempotent required now True b f rq (tab, w) = (Inr v, tab1, w1) \<and>
    recorded (key, uid) resp (tab1, w1)"
proof -
  define tab1 where "tab1 = tab @ [\<lparr>ik_key = key, ik_user = uid, ik_response = None, ik_created = now\<rparr>]"
  have d: "distinct (map ik tab1)"
    using assms(3,4) by (auto simp: tab1_def find_row_None)
  have "idempotent required now True b f rq (tab, w) =
      (Inr v, sp_idempotency_record now key uid resp tab1, w1)"
    using idempotent_owned[of rq key uid tab f w "Inr v" w1] assms
    by (simp add: settle_def tab1_def)
  moreover have "recorded (key, uid) resp (sp_idempotency_record now key uid resp tab1, w1)"
    using distinct_record[OF d] by (auto simp: recorded_def row_of_record split: option.split)
  ultimately show ?thesis by blast
qed

lemma recordable_redirect:
  "status \<in> {301, 302, 303, 307, 308} \<Longrightarrow> header_of hs ''Location'' = Some loc \<Longrightarrow> loc \<noteq> [] \<Longrightarrow>
   recordable (RespObj status json hs) = Some [(''redirect'', PStr loc)]"
  by (auto simp: recordable_def)

text \<open>A stored JSON answer is never replayed: the pair that \<open>api_response\<close> returns has no headers.\<close>

lemma json_replay_raises:
  assumes "recordable (RespObj status json hs) = Some resp" and "200 \<le> status" and "status < 300"
    and "sp_idempotency_check key uid tab = Some resp"
  shows "replay key uid tab = Err (AttributeError ''tuple object has no attribute headers'')"
  using assms by (auto simp: recordable_def replay_def split: option.splits pyval.splits if_splits)

text \<open>A form post that answered with a redirect is executed once per key and user: after the first
  request, and after any further requests whatsoever, a request with the same key and user gets the
  stored redirect again, marked as replayed, and neither the table nor the application's data change.\<close>
theorem idem_redirect_replay:
  assumes "keyed rq key uid" and "length key \<le> 128" and "distinct (map ik tab)"
    and "sp_idempotency_reserve now key uid tab = Inr (True, tab0)"
    and "f w = (Inr (RespObj status json hs), w1)" and "status \<in> {301, 302, 303, 307, 308}"
    and "header_of hs ''Location'' = Some loc" and "loc \<noteq> []"
    and "idempotent required now True b f rq (tab, w) = (r1, s1)" and "(tab', w') = run serve xs s1"
    and "keyed rq' key uid"
  shows "r1 = Inr (RespObj status json hs) \<and> snd s1 = w1 \<and>
    idempotent required' now' a' b' g rq' (tab', w') =
      (Inr (RespObj 302 None [(''Location'', loc), (''Idempotency-Replayed'', ''true'')]), tab', w')"
proof -
  have free: "row_of (key, uid) tab = None" using row_of_reserve[OF assms(4)] by simp
  obtain tab1 where one: "idempotent required now True b f rq (tab, w) = (Inr (RespObj status json hs), tab1, w1)"
    and rec: "recorded (key, uid) [(''redirect'', PStr loc)] (tab1, w1)"
    using idempotent_recorded[where f = f and w = w, OF assms(1,2) free assms(3,5) recordable_redirect[OF assms(6,7,8)]] by blast
  then have "recorded (key, uid) [(''redirect'', PStr loc)] (tab', w')"
    using idem_memory.inv_run[OF rec, of xs] assms(9,10) by simp
  from recorded_replays[OF this assms(11,2)] one show ?thesis using assms(9) by (simp add: replay_def)
qed

definition demo_rq :: http_request where
  "demo_rq = \<lparr>rq_headers = [], rq_form = [(''idempotency_key'', ''k1'')], rq_user = Some 7\<rparr>"

definition demo_post :: "nat \<Rightarrow> view_result result \<times> nat" where
  "demo_post n = (Ok (RespObj 302 None [(''Location'', ''/products'')]), n + 1)"

definition demo_api :: "nat \<Rightarrow> view_result result \<times> nat" where
  "demo_api n = (case api_response PNone 201 None [] of (b, st) \<Rightarrow> (Ok (RespTuple b st), n + 1))"

theorem idem_redirect_replay_witness:
  "case idempotent False 0 True True demo_post demo_rq ([], 0) of (r, s1) \<Rightarrow>
     snd s1 = 1 \<and> snd (snd (idempotent False 0 True True demo_post demo_rq
       (run serve [(False, 0, True, True, demo_post, demo_rq)] s1))) = 1"
proof -
  define s1 where "s1 = snd (idempotent False 0 True True demo_post demo_rq ([], 0))"
  define s2 where "s2 = run serve [(False, 0, True, True, demo_post, demo_rq)] s1"
  have k: "keyed demo_rq ''k1'' 7" by code_simp
  have free: "sp_idempotency_reserve 0 ''k1'' 7 [] =
      Inr (True, [\<lparr>ik_key = ''k1'', ik_user = 7, ik_response = None, ik_created = 0\<rparr>])" by code_simp
  have h: "header_of [(''Location'', ''/products'')] ''Location'' = Some ''/products''" by code_simp
  have v: "demo_post 0 = (Inr (RespObj 302 None [(''Location'', ''/products'')]), 1)"
    by (simp add: demo_post_def)
  have "snd s1 = 1 \<and> idempotent False 0 True True demo_post demo_rq (fst s2, snd s2) =
      (Inr (RespObj 302 None [(''Location'', ''/products''), (''Idempotency-Replayed'', ''true'')]), fst s2, snd s2)"
    using idem_redirect_replay[where f = demo_post and w = 0, OF k _ _ free v _ h, of False True "fst (idempotent False 0 True True demo_post demo_rq ([], 0))" s1
        "fst s2" "snd s2" "[(False, 0, True, True, demo_post, demo_rq)]" demo_rq False 0 True True demo_post] k
    by (simp add: s1_def s2_def)
  moreover have "snd s2 = 1" unfolding s2_def s1_def by code_simp
  ultimately show ?thesis by (simp add: s1_def s2_def split_beta)
qed

text \<open>The JSON endpoints are not idempotent: their views return the pair of
  \<open>api_response\<close>, which the decorator cannot record, so it releases the key and a retry with the
  same key executes the view again.\<close>
theorem idem_envelope_runs_again:
  assumes "keyed rq key uid" and "length key \<le> 128" and "sp_idempotency_reserve now key uid tab = Inr (True, tab0)"
    and "f w = (Inr (RespTuple body st), w1)" and "f w1 = (Inr (RespTuple body' st'), w2)"
  shows "idempotent required now a True f rq (tab, w) = (Inr (RespTuple body st), tab, w1) \<and>
    idempotent required now a True f rq (tab, w1) = (Inr (RespTuple body' st'), tab, w2)"
proof -
  have free: "row_of (key, uid) tab = None" using row_of_reserve[OF assms(3)] by simp
  show ?thesis
    using idempotent_owned[where f = f and w = w, OF assms(1,2) free assms(4)]
      idempotent_owned[where f = f and w = w1, OF assms(1,2) free assms(5)]
    by (simp add: settle_def recordable_def release_reserved[OF free])
qed

theorem idem_envelope_runs_again_witness:
  "snd (snd (idempotent False 0 True True demo_api demo_rq
     (snd (idempotent False 0 True True demo_api demo_rq ([], 0))))) = 2"
proof -
  have k: "keyed demo_rq ''k1'' 7" by code_simp
  have free: "sp_idempotency_reserve 0 ''k1'' 7 [] =
      Inr (True, [\<lparr>ik_key = ''k1'', ik_user = 7, ik_response = None, ik_created = 0\<rparr>])" by code_simp
  obtain b st where e: "api_response PNone 201 None [] = (b, st)" by (cases "api_response PNone 201 None []")
  have v: "demo_api 0 = (Inr (RespTuple b st), 1)" "demo_api 1 = (Inr (RespTuple b st), 2)"
    by (simp_all add: demo_api_def e)
  show ?thesis using idem_envelope_runs_again[where f = demo_api and w = 0, OF k _ free v, of False True] by simp
qed

section \<open>Concurrent requests\<close>

text \<open>Each request of a set of concurrent ones is at one point of the decorator.  A step is one
  transaction on the table, or the end of the view; the view's answer is arbitrary.  The retention job
  deletes the keys that are older than thirty days, which is longer than a request runs: its cutoff lies
  before every reservation of a request that is still in its view.\<close>

definition sp_idempotency_cleanup :: "int \<Rightarrow> idem_table \<Rightarrow> idem_table" where
  "sp_idempotency_cleanup cutoff tab = filter (\<lambda>r. \<not> ik_created r < cutoff) tab"

lemma row_of_cleanup:
  "row_of k tab = Some row \<Longrightarrow> cutoff \<le> ik_created row \<Longrightarrow> row_of k (sp_idempotency_cleanup cutoff tab) = Some row"
  by (induction tab) (auto simp: sp_idempotency_cleanup_def split: if_splits)

datatype idem_pc = BeforeReserve | BeforeCheck | InView | Answered "view_result result"

record idem_system =
  idem_keys :: idem_table
  idem_requests :: "nat \<Rightarrow> (string \<times> int) \<times> idem_pc"

definition req_at :: "idem_system \<Rightarrow> nat \<Rightarrow> string \<Rightarrow> int \<Rightarrow> idem_pc \<Rightarrow> bool" where
  "req_at s i key uid p \<longleftrightarrow> idem_requests s i = ((key, uid), p)"

definition proceed :: "nat \<Rightarrow> idem_pc \<Rightarrow> idem_system \<Rightarrow> idem_system" where
  "proceed i p s = s\<lparr>idem_requests := (idem_requests s)(i := (fst (idem_requests s i), p))\<rparr>"

inductive idem_step :: "idem_system \<Rightarrow> idem_system \<Rightarrow> bool" where
  win: "req_at s i key uid BeforeReserve \<Longrightarrow>
     sp_idempotency_reserve now key uid (idem_keys s) = Inr (True, tab) \<Longrightarrow>
     idem_step s (proceed i InView (s\<lparr>idem_keys := tab\<rparr>))"
| lose: "req_at s i key uid BeforeReserve \<Longrightarrow>
     sp_idempotency_reserve now key uid (idem_keys s) = Inr (False, tab) \<Longrightarrow>
     idem_step s (proceed i BeforeCheck (s\<lparr>idem_keys := tab\<rparr>))"
| fail: "req_at s i key uid BeforeReserve \<Longrightarrow>
     sp_idempotency_reserve now key uid (idem_keys s) = Inl e \<Longrightarrow> idem_step s (proceed i (Answered (Inl e)) s)"
| check: "req_at s i key uid BeforeCheck \<Longrightarrow>
     idem_step s (proceed i (Answered (replay key uid (idem_keys s))) s)"
| finish: "req_at s i key uid InView \<Longrightarrow> settle now a b key uid r (idem_keys s) = (r', tab) \<Longrightarrow>
     idem_step s (proceed i (Answered r') (s\<lparr>idem_keys := tab\<rparr>))"
| purge: "(\<And>i key uid row. req_at s i key uid InView \<Longrightarrow> row_of (key, uid) (idem_keys s) = Some row \<Longrightarrow>
       cutoff \<le> ik_created row) \<Longrightarrow>
     idem_step s (s\<lparr>idem_keys := sp_idempotency_cleanup cutoff (idem_keys s)\<rparr>)"

inductive idem_reach :: "idem_system \<Rightarrow> idem_system \<Rightarrow> bool" for s0 where
  idem_refl: "idem_reach s0 s0"
| idem_more: "idem_reach s0 s \<Longrightarrow> idem_step s s' \<Longrightarrow> idem_reach s0 s'"

definition idem_inv :: "idem_system \<Rightarrow> bool" where
  "idem_inv s \<longleftrightarrow> distinct (map ik (idem_keys s)) \<and>
     (\<forall>i k. idem_requests s i = (k, InView) \<longrightarrow>
        (\<exists>row. row_of k (idem_keys s) = Some row \<and> ik_response row = None) \<and>
        (\<forall>j. idem_requests s j = (k, InView) \<longrightarrow> j = i))"

lemma proceed_simps [simp]:
  "idem_keys (proceed i p s) = idem_keys s"
  "idem_requests (proceed i p s) j = (if j = i then (fst (idem_requests s i), p) else idem_requests s j)"
  by (simp_all add: proceed_def)

lemma idem_inv_step: "idem_step s s' \<Longrightarrow> idem_inv s \<Longrightarrow> idem_inv s'"
proof (induction rule: idem_step.induct)
  case (win s i key uid now tab)
  note r = row_of_reserve[OF win(2)]
  have "distinct (map ik tab)" using win distinct_reserve by (auto simp: idem_inv_def)
  moreover have "k \<noteq> (key, uid)" if "idem_requests s j = (k, InView)" for j k
    using win(3) r that unfolding idem_inv_def by (metis option.distinct(1))
  ultimately show ?case using win(1,3) r unfolding idem_inv_def req_at_def by auto
next
  case (lose s i key uid now tab)
  then have "tab = idem_keys s" by (simp add: sp_idempotency_reserve_def split: if_splits)
  with lose show ?case by (auto simp: idem_inv_def)
next
  case (finish s i key uid now a b r r' tab)
  have d: "distinct (map ik (idem_keys s))" using finish(3) by (simp add: idem_inv_def)
  obtain row where row: "row_of (key, uid) (idem_keys s) = Some row"
    using finish(1,3) unfolding idem_inv_def req_at_def by blast
  have t: "snd (settle now a b key uid r (idem_keys s)) = tab" using finish(2) by simp
  have d': "distinct (map ik tab)" using settle_table[OF d row, of now a b r] t by simp
  have other: "row_of k tab = row_of k (idem_keys s)" if "k \<noteq> (key, uid)" for k
    using settle_table[where k = k, OF d row, of now a b r] t that by simp
  have alone: "k \<noteq> (key, uid)" if "idem_requests s j = (k, InView)" "j \<noteq> i" for j k
    using finish(1,3) that unfolding idem_inv_def req_at_def by blast
  show ?case using finish(3) d' other alone unfolding idem_inv_def by auto
next
  case (purge s cutoff)
  have "distinct (map ik (sp_idempotency_cleanup cutoff (idem_keys s)))"
    using purge(2) by (simp add: idem_inv_def sp_idempotency_cleanup_def distinct_map_filter)
  moreover have "\<exists>row. row_of k (sp_idempotency_cleanup cutoff (idem_keys s)) = Some row \<and> ik_response row = None"
    if q: "idem_requests s i = (k, InView)" for i k
  proof -
    obtain row where row: "row_of k (idem_keys s) = Some row" "ik_response row = None"
      using purge(2) q unfolding idem_inv_def by blast
    have "cutoff \<le> ik_created row" using purge(1)[of i "fst k" "snd k" row] q row(1) by (simp add: req_at_def)
    then show ?thesis using row row_of_cleanup by blast
  qed
  ultimately show ?case using purge(2) by (simp add: idem_inv_def)
qed (auto simp: idem_inv_def)

lemma idem_inv_reach: "idem_reach s0 s \<Longrightarrow> idem_inv s0 \<Longrightarrow> idem_inv s"
  by (induction rule: idem_reach.induct) (auto dest: idem_inv_step)

text \<open>C15: Under every interleaving of concurrent requests with the same or different keys, and of deletions
  of keys older than any request in its view, at most one
  request per key and user is inside its view, and as long as one is, no recorded answer exists for the
  key: the reservation closes the check-then-act race.\<close>
theorem idem_exclusive:
  assumes "idem_reach s0 s" and "distinct (map ik (idem_keys s0))"
    and "\<forall>i. snd (idem_requests s0 i) = BeforeReserve"
  shows "\<forall>i key uid. req_at s i key uid InView \<longrightarrow>
    sp_idempotency_check key uid (idem_keys s) = None \<and> (\<forall>j. req_at s j key uid InView \<longrightarrow> j = i)"
proof -
  have "idem_inv s0" using assms(2,3) unfolding idem_inv_def by (metis idem_pc.distinct(3) snd_conv)
  then have "idem_inv s" using assms(1) idem_inv_reach by blast
  then show ?thesis unfolding idem_inv_def req_at_def check_row by fastforce
qed

definition demo_race :: idem_system where
  "demo_race = \<lparr>idem_keys = [], idem_requests = (\<lambda>i. ((''k1'', 7), BeforeReserve))\<rparr>"

theorem idem_exclusive_witness:
  "\<exists>s. idem_reach demo_race s \<and> req_at s 1 ''k1'' 7 InView \<and> \<not> req_at s 2 ''k1'' 7 InView"
proof -
  define tab where "tab = [\<lparr>ik_key = ''k1'', ik_user = 7, ik_response = None, ik_created = 0\<rparr>]"
  define s where "s = proceed 1 InView (demo_race\<lparr>idem_keys := tab\<rparr>)"
  have "idem_step demo_race s"
    unfolding s_def tab_def by (rule idem_step.win[of _ _ "''k1''" 7 0])
      (simp_all add: req_at_def demo_race_def sp_idempotency_reserve_def)
  then have r: "idem_reach demo_race s" using idem_more idem_refl by blast
  have one: "req_at s 1 ''k1'' 7 InView" by (simp add: s_def req_at_def demo_race_def)
  have "\<not> req_at s 2 ''k1'' 7 InView"
    using idem_exclusive[OF r] one by (force simp: demo_race_def)
  with r one show ?thesis by blast
qed

end
