(* ===== verification/Users.thy ===== *)
theory Users
  imports Helpers "HOL-Library.List_Lexorder"
begin

text \<open>The user store (\<open>app/repositories/user_repo.py\<close> over the user, session and reset-token
  procedures), the reporting hierarchy (\<open>app/services/user_service.py\<close>) and the admin routes that
  change accounts (\<open>app/routes/admin/user_management_routes.py\<close>).  Password hashing is a
  parameter: \<open>gen\<close> produces the stored hash of a password and \<open>chk\<close> checks one; hashes fit
  their column.  The clock is an argument.\<close>

section \<open>The store\<close>

record account =
  ac_id :: int
  ac_username :: string
  ac_email :: string
  ac_password :: "string option"
  ac_role :: string
  ac_active :: bool
  ac_deleted :: bool
  ac_full_name :: "string option"
  ac_department :: "string option"
  ac_job_role :: "string option"
  ac_manager :: "int option"
  ac_last_login :: "int option"

record session_row =
  ss_user :: int
  ss_token :: string
  ss_ip :: "string option"
  ss_agent :: "string option"
  ss_active :: bool

record reset_token =
  rt_id :: int
  rt_user :: int
  rt_hash :: string
  rt_expires :: int
  rt_used :: bool

record user_db =
  accounts :: "account list"
  next_account :: int
  sessions :: "session_row list"
  reset_tokens :: "reset_token list"
  next_token :: int
  user_audit :: "(int option \<times> string \<times> int option) list"

definition account :: "int \<Rightarrow> user_db \<Rightarrow> account option" where
  "account uid db = find_row (\<lambda>r. ac_id r = uid) (accounts db)"

definition set_account :: "int \<Rightarrow> (account \<Rightarrow> account) \<Rightarrow> user_db \<Rightarrow> user_db" where
  "set_account uid f db = db\<lparr>accounts := update_where (\<lambda>r. ac_id r = uid) f (accounts db)\<rparr>"

definition too_long :: "nat \<Rightarrow> pyexc" where
  "too_long n = OtherExc (''value too long for type character varying('' @ nat_str n @ '')'')"

definition fits :: "nat \<Rightarrow> string option \<Rightarrow> bool" where
  "fits n v = (case v of Some s \<Rightarrow> length s \<le> n | None \<Rightarrow> True)"

definition user_create :: "(string \<Rightarrow> string) \<Rightarrow> string \<Rightarrow> string \<Rightarrow> string \<Rightarrow> string \<Rightarrow> user_db \<Rightarrow> int result \<times> user_db" where
  "user_create gen username email password rl db =
     (if 60 < length username then (Err (too_long 60), db)
      else if 150 < length email then (Err (too_long 150), db)
      else if rl \<notin> {''admin'', ''manager'', ''viewer''} then (Err (DbCheck ''users_role_chk''), db)
      else if \<exists>r\<in>set (accounts db). ac_username r = lower username
      then (Err (DbUnique ''users_username_key''), db)
      else if \<exists>r\<in>set (accounts db). ac_email r = lower email
      then (Err (DbUnique ''users_email_key''), db)
      else (Ok (next_account db), db\<lparr>next_account := next_account db + 1,
        accounts := accounts db @ [\<lparr>ac_id = next_account db, ac_username = lower username,
          ac_email = lower email, ac_password = Some (gen password), ac_role = rl, ac_active = True,
          ac_deleted = False, ac_full_name = None, ac_department = None, ac_job_role = None,
          ac_manager = None, ac_last_login = None\<rparr>]\<rparr>))"

definition find_by_username :: "string \<Rightarrow> user_db \<Rightarrow> account option" where
  "find_by_username username db =
     find_row (\<lambda>r. ac_username r = lower username \<and> \<not> ac_deleted r) (accounts db)"

definition find_by_email :: "string \<Rightarrow> user_db \<Rightarrow> account option" where
  "find_by_email email db = find_row (\<lambda>r. ac_email r = lower email \<and> \<not> ac_deleted r) (accounts db)"

definition find_by_id :: "int \<Rightarrow> user_db \<Rightarrow> account option" where
  "find_by_id uid db = find_row (\<lambda>r. ac_id r = uid \<and> \<not> ac_deleted r) (accounts db)"

definition find_by_ids :: "int list \<Rightarrow> user_db \<Rightarrow> (int \<times> string) list" where
  "find_by_ids uids db = map (\<lambda>u. (ac_id u, ac_username u)) (List.map_filter (\<lambda>i. find_by_id i db) uids)"

definition record_login :: "int \<Rightarrow> int \<Rightarrow> user_db \<Rightarrow> user_db" where
  "record_login now uid db = set_account uid (\<lambda>r. r\<lparr>ac_last_login := Some now\<rparr>) db"

definition set_active :: "int \<Rightarrow> bool \<Rightarrow> user_db \<Rightarrow> user_db" where
  "set_active uid b db = set_account uid (\<lambda>r. r\<lparr>ac_active := b\<rparr>) db"

definition set_role :: "int \<Rightarrow> string \<Rightarrow> user_db \<Rightarrow> unit result \<times> user_db" where
  "set_role uid rl db =
     (if rl \<notin> {''admin'', ''manager'', ''viewer''} \<and> account uid db \<noteq> None
      then (Err (DbCheck ''users_role_chk''), db)
      else (Ok (), set_account uid (\<lambda>r. r\<lparr>ac_role := rl\<rparr>) db))"

definition set_password :: "(string \<Rightarrow> string) \<Rightarrow> int \<Rightarrow> string \<Rightarrow> user_db \<Rightarrow> user_db" where
  "set_password gen uid pw db = set_account uid (\<lambda>r. r\<lparr>ac_password := Some (gen pw)\<rparr>) db"

definition create_reset_token :: "int \<Rightarrow> string \<Rightarrow> int \<Rightarrow> user_db \<Rightarrow> unit result \<times> user_db" where
  "create_reset_token uid h expires db =
     (if \<exists>t\<in>set (reset_tokens db). rt_hash t = h then (Err (DbUnique ''password_reset_tokens_token_hash_key''), db)
      else (Ok (), db\<lparr>next_token := next_token db + 1, reset_tokens := reset_tokens db @
        [\<lparr>rt_id = next_token db, rt_user = uid, rt_hash = h, rt_expires = expires, rt_used = False\<rparr>]\<rparr>))"

definition find_valid_reset_token :: "int \<Rightarrow> string \<Rightarrow> user_db \<Rightarrow> reset_token option" where
  "find_valid_reset_token now h db =
     find_row (\<lambda>t. rt_hash t = h \<and> \<not> rt_used t \<and> now < rt_expires t) (reset_tokens db)"

definition consume_reset_token :: "int \<Rightarrow> user_db \<Rightarrow> user_db" where
  "consume_reset_token i db =
     db\<lparr>reset_tokens := update_where (\<lambda>t. rt_id t = i) (\<lambda>t. t\<lparr>rt_used := True\<rparr>) (reset_tokens db)\<rparr>"

definition purge_reset_tokens :: "int \<Rightarrow> user_db \<Rightarrow> user_db" where
  "purge_reset_tokens uid db = db\<lparr>reset_tokens := filter (\<lambda>t. rt_user t \<noteq> uid) (reset_tokens db)\<rparr>"

definition create_session :: "string \<Rightarrow> int \<Rightarrow> string option \<Rightarrow> string option \<Rightarrow> user_db \<Rightarrow> string result \<times> user_db" where
  "create_session token uid ip agent db =
     (if \<not> fits 45 ip then (Err (too_long 45), db)
      else if \<exists>s\<in>set (sessions db). ss_token s = token
      then (Err (DbUnique ''user_sessions_session_token_key''), db)
      else (Ok token, db\<lparr>sessions := sessions db @
        [\<lparr>ss_user = uid, ss_token = token, ss_ip = ip, ss_agent = agent, ss_active = True\<rparr>]\<rparr>))"

definition end_session :: "string \<Rightarrow> user_db \<Rightarrow> user_db" where
  "end_session token db =
     db\<lparr>sessions := update_where (\<lambda>s. ss_token s = token) (\<lambda>s. s\<lparr>ss_active := False\<rparr>) (sessions db)\<rparr>"

definition is_session_active :: "int \<Rightarrow> string \<Rightarrow> user_db \<Rightarrow> bool" where
  "is_session_active uid token db =
     list_ex (\<lambda>s. ss_user s = uid \<and> ss_token s = token \<and> ss_active s) (sessions db)"

definition delete_sessions_for_user :: "int \<Rightarrow> user_db \<Rightarrow> user_db" where
  "delete_sessions_for_user uid db = db\<lparr>sessions :=
     update_where (\<lambda>s. ss_user s = uid \<and> ss_active s) (\<lambda>s. s\<lparr>ss_active := False\<rparr>) (sessions db)\<rparr>"

definition update_profile ::
  "int \<Rightarrow> string option \<Rightarrow> string option \<Rightarrow> string option \<Rightarrow> user_db \<Rightarrow> unit result \<times> user_db" where
  "update_profile uid fname dept jrole db =
     (if account uid db = None then (Ok (), db)
      else if \<not> fits 150 fname then (Err (too_long 150), db)
      else if \<not> fits 40 dept \<or> \<not> fits 40 jrole then (Err (too_long 40), db)
      else (Ok (), set_account uid (\<lambda>r. r\<lparr>
        ac_full_name := (if fname = None then ac_full_name r else fname),
        ac_department := (if dept = None then ac_department r else dept),
        ac_job_role := (if jrole = None then ac_job_role r else jrole)\<rparr>) db))"

definition user_audit_record :: "int option \<Rightarrow> string \<Rightarrow> int option \<Rightarrow> user_db \<Rightarrow> user_db" where
  "user_audit_record actor action target db = db\<lparr>user_audit := user_audit db @ [(actor, action, target)]\<rparr>"

text \<open>Deactivating a user's sessions deactivates all of them and nobody else's.\<close>

lemma list_ex_update_where:
  "list_ex Q (update_where P f rows) \<longleftrightarrow> list_ex (\<lambda>r. if P r then Q (f r) else Q r) rows"
  unfolding update_where_def by (induction rows) auto

lemma delete_sessions_kills [simp]: "\<not> is_session_active uid token (delete_sessions_for_user uid db)"
  unfolding is_session_active_def delete_sessions_for_user_def
  by (simp add: list_ex_update_where) (auto simp: list_ex_iff)

lemma delete_sessions_others:
  "uid' \<noteq> uid \<Longrightarrow> is_session_active uid' token (delete_sessions_for_user uid db) = is_session_active uid' token db"
  unfolding is_session_active_def delete_sessions_for_user_def
  by (simp add: list_ex_update_where) (auto simp: list_ex_iff)

section \<open>The reporting hierarchy\<close>

definition manager_of :: "int \<Rightarrow> user_db \<Rightarrow> int option" where
  "manager_of uid db = Option.bind (account uid db) ac_manager"

definition get_reporting_manager :: "int \<Rightarrow> user_db \<Rightarrow> account option" where
  "get_reporting_manager uid db = Option.bind (manager_of uid db) (\<lambda>m. account m db)"

definition direct_reports :: "int \<Rightarrow> user_db \<Rightarrow> account list" where
  "direct_reports mid db = sort_key (\<lambda>r. map code_of (ac_username r))
     (filter (\<lambda>r. ac_manager r = Some mid \<and> \<not> ac_deleted r) (accounts db))"

definition list_managers :: "user_db \<Rightarrow> account list" where
  "list_managers db = sort_key (\<lambda>r. map code_of (ac_username r))
     (filter (\<lambda>r. ac_active r \<and> \<not> ac_deleted r) (accounts db))"

fun chain_walk :: "nat \<Rightarrow> int \<Rightarrow> int list \<Rightarrow> user_db \<Rightarrow> int list" where
  "chain_walk 0 current chain db = chain"
| "chain_walk (Suc n) current chain db = (case manager_of current db of
      None \<Rightarrow> chain
    | Some nxt \<Rightarrow> if nxt \<in> set chain then chain else chain_walk n nxt (chain @ [nxt]) db)"

definition manager_chain :: "int \<Rightarrow> nat \<Rightarrow> user_db \<Rightarrow> int list" where
  "manager_chain uid max_depth db = chain_walk max_depth uid [] db"

definition repo_set_reporting_manager :: "int \<Rightarrow> int option \<Rightarrow> user_db \<Rightarrow> user_db" where
  "repo_set_reporting_manager uid mid db = set_account uid (\<lambda>r. r\<lparr>ac_manager := mid\<rparr>) db"

definition set_reporting_manager :: "int \<Rightarrow> int option \<Rightarrow> user_db \<Rightarrow> unit result \<times> user_db" where
  "set_reporting_manager uid mid db =
     (if mid = Some uid then (Err (ValueError ''A user cannot report to themselves.''), db)
      else (case Option.bind mid (\<lambda>m. find_by_id m db) of
          None \<Rightarrow> (Err (ValueError ''Reporting manager not found.''), db)
        | Some manager \<Rightarrow>
            if \<not> ac_active manager
            then (Err (ValueError ''Reporting manager must be an active user.''), db)
            else if uid \<in> set (manager_chain (ac_id manager) 50 db)
            then (Err (ValueError
              ''Invalid reporting relationship: this assignment would create a circular hierarchy.''), db)
            else (Ok (), repo_set_reporting_manager uid mid db)))"

definition mgr_edges :: "user_db \<Rightarrow> (int \<times> int) set" where
  "mgr_edges db = {(a, b). manager_of a db = Some b}"

lemma account_set_account:
  "(\<And>r. ac_id (f r) = ac_id r) \<Longrightarrow>
   account uid' (set_account uid f db) = (if uid' = uid then map_option f (account uid db) else account uid' db)"
  using find_row_update_same[of ac_id f uid "accounts db"] find_row_update_other[of ac_id f uid' uid "accounts db"]
  by (simp add: account_def set_account_def)

lemma manager_of_set:
  "manager_of a (repo_set_reporting_manager uid mid db) =
    (if a = uid then (if account uid db = None then None else mid) else manager_of a db)"
  by (auto simp: manager_of_def repo_set_reporting_manager_def account_set_account split: bind_splits)

lemma chain_walk_prefix: "set chain \<subseteq> set (chain_walk n current chain db)"
proof (induction n arbitrary: current chain)
  case (Suc n)
  have "set chain \<subseteq> set (chain_walk n nxt (chain @ [nxt]) db)" for nxt
    using Suc[of "chain @ [nxt]" nxt] by auto
  then show ?case by (simp split: option.split)
qed simp

lemma chain_walk_closed:
  assumes "length (chain_walk n current chain db) < length chain + n"
    and "\<forall>c\<in>insert start (set chain) - {current}. \<forall>m. manager_of c db = Some m \<longrightarrow> m \<in> set chain"
  shows "\<forall>c\<in>insert start (set (chain_walk n current chain db)) \<union> {current}.
    \<forall>m. manager_of c db = Some m \<longrightarrow> m \<in> set (chain_walk n current chain db)"
  using assms
proof (induction n arbitrary: current chain)
  case (Suc n)
  show ?case
  proof (cases "manager_of current db")
    case None
    have "m \<in> set chain" if "c \<in> insert start (set chain) \<union> {current}" "manager_of c db = Some m" for c m
    proof -
      have "c \<noteq> current" using that(2) None by auto
      then show ?thesis using Suc.prems(2) that by blast
    qed
    then show ?thesis using None by simp
  next
    case (Some nxt)
    show ?thesis
    proof (cases "nxt \<in> set chain")
      case True
      have "m \<in> set chain" if "c \<in> insert start (set chain) \<union> {current}" "manager_of c db = Some m" for c m
      proof (cases "c = current")
        case False then show ?thesis using Suc.prems(2) that by blast
      qed (use that Some True in simp)
      then show ?thesis using Some True by simp
    next
      case False
      have "m \<in> set (chain @ [nxt])"
        if "c \<in> insert start (set (chain @ [nxt])) - {nxt}" "manager_of c db = Some m" for c m
      proof (cases "c = current")
        case False
        then have "c \<in> insert start (set chain) - {current}" using that(1) by auto
        then have "m \<in> set chain" using Suc.prems(2) that(2) by blast
        then show ?thesis by simp
      qed (use that Some in simp)
      then have "\<forall>c\<in>insert start (set (chain @ [nxt])) - {nxt}. \<forall>m. manager_of c db = Some m \<longrightarrow> m \<in> set (chain @ [nxt])"
        by blast
      moreover have "length (chain_walk n nxt (chain @ [nxt]) db) < length (chain @ [nxt]) + n"
        using Suc.prems(1) Some False by simp
      moreover have "nxt \<in> set (chain_walk n nxt (chain @ [nxt]) db)"
        using chain_walk_prefix[of "chain @ [nxt]" n nxt db] by simp
      ultimately show ?thesis using Suc.IH[of nxt "chain @ [nxt]"] Some False by auto
    qed
  qed
next
  case 0
  from 0(1) show ?case by simp
qed

lemma manager_chain_complete:
  assumes "length (manager_chain m k db) < k" and "(m, x) \<in> (mgr_edges db)\<^sup>+"
  shows "x \<in> set (manager_chain m k db)"
proof -
  have closed: "\<forall>c\<in>insert m (set (manager_chain m k db)).
      \<forall>y. manager_of c db = Some y \<longrightarrow> y \<in> set (manager_chain m k db)"
    using chain_walk_closed[of k m "[]" db m] assms(1) by (simp add: manager_chain_def)
  from assms(2) show ?thesis
    by (induction rule: trancl_induct) (use closed in \<open>auto simp: mgr_edges_def\<close>)
qed

text \<open>C16: Assigning a reporting manager keeps the hierarchy free of cycles, provided the chain above
  the proposed manager is shorter than the 50 steps that the cycle check walks.\<close>
theorem hierarchy_acyclic:
  assumes "acyclic (mgr_edges db)" and "set_reporting_manager uid mid db = (r, db')"
    and "\<forall>m. mid = Some m \<longrightarrow> length (manager_chain m 50 db) < 50"
  shows "acyclic (mgr_edges db') \<and> (r = Ok () \<longrightarrow> manager_of uid db' = mid \<or> account uid db = None)"
proof (cases r)
  case (Inl e)
  then have "db' = db" using assms(2) by (auto simp: set_reporting_manager_def split: if_splits option.splits)
  then show ?thesis using assms(1) Inl by simp
next
  case (Inr u)
  then obtain m manager where m: "mid = Some m" "m \<noteq> uid" "find_by_id m db = Some manager"
      "uid \<notin> set (manager_chain (ac_id manager) 50 db)" "db' = repo_set_reporting_manager uid (Some m) db"
    using assms(2) by (auto simp: set_reporting_manager_def split: if_splits option.splits bind_splits)
  have "ac_id manager = m" using m(3) find_row_Some by (fastforce simp: find_by_id_def)
  then have "uid \<notin> set (manager_chain m 50 db)" using m(4) by simp
  then have no: "(m, uid) \<notin> (mgr_edges db)\<^sup>*"
    using manager_chain_complete[of m 50 db uid] assms(3) m(1,2) by (auto simp: rtrancl_eq_or_trancl)
  define E where "E = mgr_edges db - {uid} \<times> UNIV"
  have E: "E \<subseteq> mgr_edges db" by (auto simp: E_def)
  have "mgr_edges db' \<subseteq> insert (uid, m) E"
    by (auto simp: m(5) mgr_edges_def E_def manager_of_set split: if_splits)
  moreover have "acyclic E" using assms(1) E acyclic_subset by blast
  moreover have "(m, uid) \<notin> E\<^sup>*" using no rtrancl_mono[OF E] by blast
  ultimately have "acyclic (mgr_edges db')" by (metis acyclic_insert acyclic_subset)
  then show ?thesis using m by (simp add: manager_of_set)
qed

definition org_row :: "nat \<Rightarrow> nat \<Rightarrow> account" where
  "org_row n i = \<lparr>ac_id = int i, ac_username = nat_str i, ac_email = nat_str i, ac_password = None,
     ac_role = ''viewer'', ac_active = True, ac_deleted = False, ac_full_name = None, ac_department = None,
     ac_job_role = None, ac_manager = (if Suc i < n then Some (int (Suc i)) else None), ac_last_login = None\<rparr>"

definition org :: "nat \<Rightarrow> user_db" where
  "org n = \<lparr>accounts = map (org_row n) [0..<n], next_account = int n, sessions = [], reset_tokens = [],
     next_token = 1, user_audit = []\<rparr>"

lemma account_org: "account (int i) (org n) = (if i < n then Some (org_row n i) else None)"
proof (cases "i < n")
  case True
  have "find_row (\<lambda>r. ac_id r = ac_id (org_row n i)) (map (org_row n) [0..<n]) = Some (org_row n i)"
    by (rule find_row_unique) (use True in \<open>auto simp: comp_def distinct_map inj_on_def org_row_def\<close>)
  then show ?thesis using True by (simp add: account_def org_def org_row_def)
qed (auto simp: account_def org_def find_row_None org_row_def)

lemma find_by_id_org: "i < n \<Longrightarrow> find_by_id (int i) (org n) = Some (org_row n i)"
proof -
  have "find_by_id (int i) (org n) = account (int i) (org n)"
    unfolding find_by_id_def account_def org_def find_row_def
    by (simp, rule find_cong) (auto simp: org_row_def)
  then show "i < n \<Longrightarrow> ?thesis" by (simp add: account_org)
qed

lemma manager_of_org: "manager_of (int i) (org n) = (if Suc i < n then Some (int (Suc i)) else None)"
  by (simp add: manager_of_def account_org org_row_def)

lemma chain_walk_org:
  "a + k < n \<Longrightarrow> chain_walk k (int a) (map int [1..<Suc a]) (org n) = map int [1..<Suc (a + k)]"
proof (induction k arbitrary: a)
  case (Suc k)
  have "map int [1..<Suc a] @ [int (Suc a)] = map int [1..<Suc (Suc a)]" by simp
  then show ?case using Suc.IH[of "Suc a"] Suc.prems by (auto simp: manager_of_org simp del: upt_Suc of_nat_Suc)
qed simp

definition less_than_int :: "(int \<times> int) set" where "less_than_int = {(a, b). a < b}"

lemma acyclic_less_than_int: "acyclic less_than_int"
proof -
  have "trans less_than_int" by (auto simp: less_than_int_def trans_def)
  then show ?thesis by (auto simp: acyclic_def less_than_int_def)
qed

lemma acyclic_org: "acyclic (mgr_edges (org n))"
proof -
  have "mgr_edges (org n) \<subseteq> less_than_int"
  proof (clarsimp simp: mgr_edges_def)
    fix a b assume e: "manager_of a (org n) = Some b"
    have "account a (org n) = None" if "a < 0"
      unfolding account_def find_row_None using that by (auto simp: org_def org_row_def)
    then have "0 \<le> a" using e by (cases "a < 0") (simp_all add: manager_of_def)
    then obtain i where "a = int i" using zero_le_imp_eq_int by blast
    then show "(a, b) \<in> less_than_int" using e by (auto simp: manager_of_org less_than_int_def split: if_splits)
  qed
  then show ?thesis using acyclic_subset acyclic_less_than_int by blast
qed

theorem hierarchy_acyclic_witness:
  "acyclic (mgr_edges (snd (set_reporting_manager 0 (Some 2) (org 4)))) \<and>
   isl (fst (set_reporting_manager 2 (Some 0) (org 4)))"
proof -
  have "length (manager_chain 2 50 (org 4)) < 50" by code_simp
  moreover have "isl (fst (set_reporting_manager 2 (Some 0) (org 4)))" by code_simp
  ultimately show ?thesis
    using hierarchy_acyclic[OF acyclic_org, of 0 "Some 2" 4 "fst (set_reporting_manager 0 (Some 2) (org 4))"
        "snd (set_reporting_manager 0 (Some 2) (org 4))"] by simp
qed

text \<open>The 50-step limit of the cycle check is a real gap: in a chain of 52 accounts the bottom
  account is accepted as the manager of the top one, and the hierarchy then has a cycle.\<close>
theorem hierarchy_depth_gap:
  "acyclic (mgr_edges (org 52)) \<and> fst (set_reporting_manager 51 (Some 0) (org 52)) = Ok () \<and>
   (0, 0) \<in> (mgr_edges (snd (set_reporting_manager 51 (Some 0) (org 52))))\<^sup>+"
proof -
  let ?db = "snd (set_reporting_manager 51 (Some 0) (org 52))"
  have "manager_chain 0 50 (org 52) = map int [1..<Suc 50]"
    using chain_walk_org[of 0 50 52] by (simp add: manager_chain_def del: upt_Suc)
  then have "51 \<notin> set (manager_chain 0 50 (org 52))" by (auto simp del: upt_Suc)
  then have s: "set_reporting_manager 51 (Some 0) (org 52) = (Ok (), repo_set_reporting_manager 51 (Some 0) (org 52))"
    using find_by_id_org[of 0 52] by (simp add: set_reporting_manager_def org_row_def)
  then have c: "fst (set_reporting_manager 51 (Some 0) (org 52)) = Ok ()"
    and db: "?db = repo_set_reporting_manager 51 (Some 0) (org 52)" by simp_all
  have "account 51 (org 52) \<noteq> None" using account_org[of 51 52] by simp
  then have edge: "(51, 0) \<in> mgr_edges ?db" by (auto simp: mgr_edges_def db manager_of_set)
  have up: "(0, int k) \<in> (mgr_edges ?db)\<^sup>*" if "k \<le> 51" for k
    using that
  proof (induction k)
    case (Suc k)
    then have "(int k, int (Suc k)) \<in> mgr_edges ?db" by (auto simp: mgr_edges_def db manager_of_set manager_of_org)
    then show ?case using Suc by (metis Suc_leD rtrancl.rtrancl_into_rtrancl)
  qed simp
  show ?thesis using acyclic_org c rtrancl_into_trancl1[OF up[of 51], of 0] edge by simp
qed

end
