(* ===== verification/Auth.thy ===== *)
theory Auth
  imports Users Roles
begin

text \<open>Authentication (\<open>app/services/auth_service.py\<close>) with its two lockout counters, the session
  check of \<open>load_user\<close> (\<open>app/__init__.py\<close>) and the admin routes on accounts
  (\<open>app/routes/admin/user_management_routes.py\<close>).  Instants are microseconds; a request reads
  the clock once.  The advisory lock around each counter statement is the atomicity of the model's
  operations; the in-process lock makes an attempt one step.\<close>

definition MAX_FAILED_ATTEMPTS :: nat where "MAX_FAILED_ATTEMPTS = 5"
definition LOCKOUT_MINUTES :: int where "LOCKOUT_MINUTES = 15"
definition minutes :: "int \<Rightarrow> int" where "minutes m = m * 60000000"

text \<open>\<open>math.ceil(us / 60 s)\<close> of a duration in microseconds.\<close>

definition ceil_minutes :: "int \<Rightarrow> int" where "ceil_minutes us = - ((- us) div 60000000)"

record rate_row =
  rl_count :: nat
  rl_window :: int
  rl_expires :: int

record auth_state =
  store :: user_db
  rate_limits :: "(string \<times> rate_row) list"
  failed_logins :: "(int \<times> int list) list"

section \<open>The rate limit table\<close>

definition get_rate_limit_key :: "string \<Rightarrow> string" where
  "get_rate_limit_key username = ''login:'' @ lower username"

definition check_rate_limit :: "int \<Rightarrow> string \<Rightarrow> auth_state \<Rightarrow> int option" where
  "check_rate_limit now key st = (case map_of (rate_limits st) key of
      None \<Rightarrow> None
    | Some row \<Rightarrow>
        let c1 = (if rl_window row < now - minutes LOCKOUT_MINUTES then 0 else rl_count row);
            c2 = (if rl_expires row < now then 0 else c1)
        in if MAX_FAILED_ATTEMPTS \<le> c2
           then (let remaining = (rl_expires row - now) div 1000000 + 1
                 in Some (max 1 (- ((- remaining) div 60))))
           else None)"

definition record_failed_attempt :: "int \<Rightarrow> string \<Rightarrow> auth_state \<Rightarrow> nat \<times> auth_state" where
  "record_failed_attempt now key st =
     (let cutoff = now - minutes LOCKOUT_MINUTES; expires = now + minutes LOCKOUT_MINUTES;
          row' = (case map_of (rate_limits st) key of
              None \<Rightarrow> \<lparr>rl_count = 1, rl_window = now, rl_expires = expires\<rparr>
            | Some row \<Rightarrow> \<lparr>rl_count = (if rl_window row < cutoff then 1 else rl_count row + 1),
                rl_window = (if rl_window row < cutoff then now else rl_window row), rl_expires = expires\<rparr>)
      in (rl_count row', st\<lparr>rate_limits := AList.update key row' (rate_limits st)\<rparr>))"

definition clear_rate_limit :: "string \<Rightarrow> auth_state \<Rightarrow> auth_state" where
  "clear_rate_limit key st = st\<lparr>rate_limits := AList.delete key (rate_limits st)\<rparr>"

section \<open>Login\<close>

definition invalid_login :: pyexc where "invalid_login = AuthError ''Invalid username or password.''"

definition lockout_error :: "int \<Rightarrow> int \<Rightarrow> auth_state \<Rightarrow> 'a result \<times> auth_state" where
  "lockout_error uid mins st =
     (Err (AuthError (''Account locked. Try again in '' @ int_str mins @ '' minutes.'')),
      st\<lparr>store := user_audit_record (Some uid) ''user.account_locked'' (Some uid) (store st)\<rparr>)"

definition entries_of :: "int \<Rightarrow> auth_state \<Rightarrow> int list" where
  "entries_of uid st = (case map_of (failed_logins st) uid of Some es \<Rightarrow> es | None \<Rightarrow> [])"

definition forget_failures :: "int \<Rightarrow> auth_state \<Rightarrow> auth_state" where
  "forget_failures uid st = st\<lparr>failed_logins := AList.delete uid (failed_logins st)\<rparr>"

text \<open>Gate 1, the in-process counter: the minutes left when the account is locked, and the state with
  an elapsed window dropped.\<close>

definition process_gate :: "int \<Rightarrow> int \<Rightarrow> auth_state \<Rightarrow> int option \<times> auth_state" where
  "process_gate now uid st = (case entries_of uid st of
      [] \<Rightarrow> (None, st)
    | first # rest \<Rightarrow>
        if first < now - minutes LOCKOUT_MINUTES then (None, forget_failures uid st)
        else if MAX_FAILED_ATTEMPTS \<le> length (first # rest)
        then (Some (max 1 (ceil_minutes (first + minutes LOCKOUT_MINUTES - now))), st)
        else (None, st))"

record login_request =
  lg_now :: int
  lg_username :: string
  lg_password :: string
  lg_ip :: "string option"
  lg_agent :: "string option"
  lg_token :: string  \<comment> \<open>the value that \<open>secrets.token_urlsafe(32)\<close> returns\<close>

definition login_success :: "int \<Rightarrow> string \<Rightarrow> login_request \<Rightarrow> auth_state \<Rightarrow> string result \<times> auth_state" where
  "login_success uid key rq st =
     (let st1 = forget_failures uid (clear_rate_limit key st);
          db1 = user_audit_record (Some uid) ''user.login'' (Some uid) (record_login (lg_now rq) uid (store st1))
      in (case create_session (lg_token rq) uid (lg_ip rq) (lg_agent rq) db1 of
            (r, db2) \<Rightarrow> (r, st1\<lparr>store := db2\<rparr>)))"

definition login_failure :: "int \<Rightarrow> string \<Rightarrow> int \<Rightarrow> auth_state \<Rightarrow> string result \<times> auth_state" where
  "login_failure uid key now st =
     (let st1 = snd (record_failed_attempt now key st)
      in (Err invalid_login, st1\<lparr>
        failed_logins := AList.update uid (entries_of uid st1 @ [now]) (failed_logins st1),
        store := user_audit_record (Some uid) ''user.login_failed'' (Some uid) (store st1)\<rparr>))"

definition authenticate ::
  "(string \<Rightarrow> string \<Rightarrow> bool) \<Rightarrow> login_request \<Rightarrow> auth_state \<Rightarrow> string result \<times> auth_state" where
  "authenticate chk rq st = (case find_by_username (lg_username rq) (store st) of
      None \<Rightarrow> (Err invalid_login, st)
    | Some user \<Rightarrow>
        if \<not> ac_active user then (Err invalid_login, st)
        else (case ac_password user of
            None \<Rightarrow> (Err invalid_login, st)
          | Some stored \<Rightarrow>
              if stored = [] then (Err invalid_login, st)
              else let uid = ac_id user; key = get_rate_limit_key (lg_username rq) in
                (case process_gate (lg_now rq) uid st of
                   (Some mins, st1) \<Rightarrow> lockout_error uid mins st1
                 | (None, st1) \<Rightarrow>
                     (case check_rate_limit (lg_now rq) key st1 of
                        Some mins \<Rightarrow> lockout_error uid mins st1
                      | None \<Rightarrow>
                          if chk stored (lg_password rq) then login_success uid key rq st1
                          else login_failure uid key (lg_now rq) st1))))"

section \<open>Registration and password reset\<close>

definition auth_err :: "'a result \<Rightarrow> 'a result" where
  "auth_err r = (case r of Inl (ValidationError m) \<Rightarrow> Err (AuthError m) | _ \<Rightarrow> r)"

definition register :: "(string \<Rightarrow> string) \<Rightarrow> string \<Rightarrow> string \<Rightarrow> string \<Rightarrow> user_db \<Rightarrow> int result \<times> user_db" where
  "register gen username email password db =
     (case auth_err (bindE (validate_username username) (\<lambda>u. bindE (validate_email email) (\<lambda>e.
         bindE (validate_password_strength password) (\<lambda>p. Ok (u, e, p))))) of
        Inl e \<Rightarrow> (Err e, db)
      | Inr (u, e, p) \<Rightarrow>
          if find_by_username u db \<noteq> None then (Err (AuthError ''Username is already taken.''), db)
          else if find_by_email e db \<noteq> None then (Err (AuthError ''Email is already registered.''), db)
          else (case user_create gen u e p ''viewer'' db of
              (Inl x, db1) \<Rightarrow>
                (if is_unique_violation x then Err (AuthError ''Email is already registered.'') else Err x, db1)
            | (Inr uid, db1) \<Rightarrow> (Ok uid, user_audit_record (Some uid) ''user.register'' (Some uid) db1)))"

record reset_answer =
  ra_delivered :: bool
  ra_link :: string
  ra_user_found :: bool

definition rstrip_slash :: "string \<Rightarrow> string" where
  "rstrip_slash s = rev (dropWhile (\<lambda>c. c = CHR ''/'') (rev s))"

text \<open>\<open>sha\<close> is the hexadecimal SHA-256 digest, \<open>token\<close> the fresh random token, \<open>send\<close> the
  mailer: whether the mail with this address, name and link was sent.\<close>

definition request_password_reset ::
  "(string \<Rightarrow> string) \<Rightarrow> (string \<Rightarrow> string \<Rightarrow> string \<Rightarrow> bool) \<Rightarrow> int \<Rightarrow> int \<Rightarrow> string \<Rightarrow> string \<Rightarrow> string \<Rightarrow>
   user_db \<Rightarrow> reset_answer result \<times> user_db" where
  "request_password_reset sha send ttl now token email host db =
     (case auth_err (validate_email email) of
        Inl e \<Rightarrow> (Err e, db)
      | Inr em \<Rightarrow>
          (case find_by_email em db of
             None \<Rightarrow> (Ok \<lparr>ra_delivered = False, ra_link = [], ra_user_found = False\<rparr>,
               user_audit_record None ''user.password_reset_requested_unknown'' None db)
           | Some user \<Rightarrow>
               if \<not> ac_active user
               then (Ok \<lparr>ra_delivered = False, ra_link = [], ra_user_found = False\<rparr>,
                 user_audit_record None ''user.password_reset_requested_unknown'' None db)
               else (case create_reset_token (ac_id user) (sha token) (now + minutes ttl)
                       (purge_reset_tokens (ac_id user) db) of
                   (Inl e, db1) \<Rightarrow> (Err e, db1)
                 | (Inr _, db1) \<Rightarrow>
                     let link = rstrip_slash host @ ''/auth/reset-password/'' @ token;
                         sent = send (ac_email user) (ac_username user) link
                     in (Ok \<lparr>ra_delivered = sent, ra_link = (if sent then [] else link), ra_user_found = True\<rparr>,
                       user_audit_record (Some (ac_id user)) ''user.password_reset_requested''
                         (Some (ac_id user)) db1))))"

definition reset_password ::
  "(string \<Rightarrow> string) \<Rightarrow> (string \<Rightarrow> string) \<Rightarrow> int \<Rightarrow> string \<Rightarrow> string \<Rightarrow> user_db \<Rightarrow> unit result \<times> user_db" where
  "reset_password sha gen now token new_password db =
     (case auth_err (validate_password_strength new_password) of
        Inl e \<Rightarrow> (Err e, db)
      | Inr pw \<Rightarrow>
          (case find_valid_reset_token now (sha token) db of
             None \<Rightarrow> (Err (AuthError ''This reset link is invalid or has already been used.''), db)
           | Some row \<Rightarrow>
               if rt_used row then (Err (AuthError ''This reset link has already been used.''), db)
               else if rt_expires row \<le> now
               then (Err (AuthError ''This reset link has expired. Please request a new one.''), db)
               else (Ok (), user_audit_record (Some (rt_user row)) ''user.password_reset_completed'' (Some (rt_user row))
                 (purge_reset_tokens (rt_user row) (consume_reset_token (rt_id row)
                   (delete_sessions_for_user (rt_user row) (set_password gen (rt_user row) pw db)))))))"

text \<open>The user loader: the id of the cookie, and the session token of the cookie when it has one.\<close>

definition load_user :: "string \<Rightarrow> string option \<Rightarrow> user_db \<Rightarrow> account option" where
  "load_user cookie_id token db = (case parse_int cookie_id of
      None \<Rightarrow> None
    | Some uid \<Rightarrow> (case find_by_id uid db of
        None \<Rightarrow> None
      | Some user \<Rightarrow> (case token of
          None \<Rightarrow> Some user
        | Some t \<Rightarrow> if t \<noteq> [] \<and> \<not> is_session_active (ac_id user) t db then None else Some user)))"

section \<open>The admin routes on accounts\<close>

text \<open>A route answers with its redirect and the messages it flashes.  The rate limiter and the audit
  decorator of theory \<open>Roles\<close> wrap it.\<close>

type_synonym flashed = "string \<times> (string \<times> string) list"

abbreviation users_page :: string where "users_page \<equiv> ''admin_user_management.index''"
abbreviation edit_page :: string where "edit_page \<equiv> ''admin_user_management.edit''"
abbreviation create_page :: string where "create_page \<equiv> ''admin_user_management.create''"

definition fget :: "(string \<times> string) list \<Rightarrow> string \<Rightarrow> string \<Rightarrow> string" where
  "fget form k d = strip (case map_of form k of Some v \<Rightarrow> v | None \<Rightarrow> d)"

definition fget_opt :: "(string \<times> string) list \<Rightarrow> string \<Rightarrow> string option" where
  "fget_opt form k = (let v = fget form k [] in if v = [] then None else Some v)"

definition form_manager :: "int \<Rightarrow> string option \<Rightarrow> user_db \<Rightarrow> unit result \<times> user_db" where
  "form_manager uid m db = (case m of
      None \<Rightarrow> set_reporting_manager uid None db
    | Some t \<Rightarrow> (case to_int (PStr t) of
        Inl e \<Rightarrow> (Err e, db) | Inr i \<Rightarrow> set_reporting_manager uid (Some i) db))"

definition admin_create :: "(string \<Rightarrow> string) \<Rightarrow> user \<Rightarrow> (string \<times> string) list \<Rightarrow> user_db \<Rightarrow> flashed outcome \<times> user_db" where
  "admin_create gen actor form = roles_required [''admin''] actor (\<lambda>db.
     let username = fget form ''username'' []; email = fget form ''email'' [];
         password = fget form ''password'' []; rl = fget form ''role'' ''viewer'';
         fname = fget_opt form ''full_name''; dept = fget_opt form ''department'';
         jrole = fget_opt form ''job_role''; mgr = fget_opt form ''reporting_manager_id''
     in if username = [] \<or> email = [] \<or> password = []
        then (Returned (create_page, [(''error'', ''Username, email, and password are required.'')]), db)
        else if rl \<notin> {''admin'', ''manager'', ''viewer''}
        then (Returned (create_page, [(''error'', ''Invalid role.'')]), db)
        else (case validate_password_strength password of
          Inl e \<Rightarrow> (Returned (create_page, [(''error'', exc_text e)]), db)
        | Inr pw \<Rightarrow> (case user_create gen username email pw rl db of
            (Inl e, db1) \<Rightarrow> (Returned (create_page, [(''error'', ''Error creating user: '' @ exc_text e)]), db1)
          | (Inr uid, db1) \<Rightarrow>
              (case (if fname \<noteq> None \<or> dept \<noteq> None \<or> jrole \<noteq> None
                     then update_profile uid fname dept jrole db1 else (Ok (), db1)) of
                 (Inl e, db2) \<Rightarrow> (Returned (create_page, [(''error'', ''Error creating user: '' @ exc_text e)]), db2)
               | (Inr _, db2) \<Rightarrow>
                   (case (if mgr \<noteq> None then form_manager uid mgr db2 else (Ok (), db2)) of
                      (m, db3) \<Rightarrow> (Returned (users_page,
                        (case m of Inl e \<Rightarrow> [(''warning'', ''User created, but reporting manager not set: '' @ exc_text e)]
                          | Inr _ \<Rightarrow> []) @
                        [(''success'', ''User '' @ [CHR 39] @ username @ [CHR 39] @ '' created successfully.'')]), db3))))))"

definition admin_target ::
  "string \<Rightarrow> int \<Rightarrow> user \<Rightarrow> int \<Rightarrow> (account \<Rightarrow> user_db \<Rightarrow> flashed outcome \<times> user_db) \<Rightarrow> user_db \<Rightarrow>
   flashed outcome \<times> user_db" where
  "admin_target self_message actor_id actor uid body db =
     (if uid = actor_id then (Returned (users_page, [(''error'', self_message)]), db)
      else (case find_by_id uid db of
          None \<Rightarrow> (Returned (users_page, [(''error'', ''User not found.'')]), db)
        | Some u \<Rightarrow> if ac_role u = ''admin'' \<and> role actor \<noteq> Some ''admin'' then (Aborted 403, db) else body u db))"

definition edit_account ::
  "(string \<Rightarrow> string) \<Rightarrow> (string \<times> string) list \<Rightarrow> account \<Rightarrow> user_db \<Rightarrow> flashed outcome \<times> user_db" where
  "edit_account gen form u db =
     (let uid = ac_id u; rl = fget form ''role'' (ac_role u); active = (map_of form ''is_active'' = Some ''on'');
          pw = fget form ''password'' []; fname = fget_opt form ''full_name''; dept = fget_opt form ''department'';
          jrole = fget_opt form ''job_role''; mgr = fget_opt form ''reporting_manager_id''
      in if rl \<notin> {''admin'', ''manager'', ''viewer''}
         then (Returned (edit_page, [(''error'', ''Invalid role.'')]), db)
         else (case (if pw \<noteq> [] then validate_password_strength pw else Ok pw) of
             Inl e \<Rightarrow> (Returned (edit_page, [(''error'', exc_text e)]), db)
           | Inr _ \<Rightarrow>
             (case set_role uid rl db of
                (Inl e, db1) \<Rightarrow> (Returned (edit_page, [(''error'', ''Error updating user: '' @ exc_text e)]), db1)
              | (Inr _, db1) \<Rightarrow>
                let db2 = delete_sessions_for_user uid (set_active uid active db1);
                    db3 = (if pw \<noteq> [] then set_password gen uid pw db2 else db2);
                    fl = (if pw \<noteq> [] then [(''success'', ''User password updated.'')] else [])
                in (case update_profile uid fname dept jrole db3 of
                      (Inl e, db4) \<Rightarrow>
                        (Returned (edit_page, fl @ [(''error'', ''Error updating user: '' @ exc_text e)]), db4)
                    | (Inr _, db4) \<Rightarrow>
                        (case form_manager uid mgr db4 of (m, db5) \<Rightarrow> (Returned (users_page, fl @
                          (case m of Inl e \<Rightarrow> [(''warning'', ''User updated, but reporting manager not set: '' @ exc_text e)]
                            | Inr _ \<Rightarrow> []) @
                          [(''success'', ''User '' @ [CHR 39] @ ac_username u @ [CHR 39] @ '' updated successfully.'')]), db5))))))"

definition admin_edit ::
  "(string \<Rightarrow> string) \<Rightarrow> int \<Rightarrow> user \<Rightarrow> int \<Rightarrow> (string \<times> string) list \<Rightarrow> user_db \<Rightarrow> flashed outcome \<times> user_db" where
  "admin_edit gen actor_id actor uid form = roles_required [''admin''] actor
     (admin_target ''You cannot modify your own account.'' actor_id actor uid (edit_account gen form))"

definition admin_toggle_active :: "int \<Rightarrow> user \<Rightarrow> int \<Rightarrow> user_db \<Rightarrow> flashed outcome \<times> user_db" where
  "admin_toggle_active actor_id actor uid = roles_required [''admin''] actor
     (admin_target ''You cannot disable your own account.'' actor_id actor uid (\<lambda>u db.
        let new_status = (\<not> ac_active u)
        in (Returned (users_page, [(''success'', ''User '' @ [CHR 39] @ ac_username u @ [CHR 39, CHR 32]
              @ (if new_status then ''activated.'' else ''deactivated.''))]),
            delete_sessions_for_user uid (set_active uid new_status db))))"

definition admin_change_role :: "int \<Rightarrow> user \<Rightarrow> int \<Rightarrow> (string \<times> string) list \<Rightarrow> user_db \<Rightarrow> flashed outcome \<times> user_db" where
  "admin_change_role actor_id actor uid form = roles_required [''admin''] actor
     (admin_target ''You cannot change your own role.'' actor_id actor uid (\<lambda>u db.
        let rl = fget form ''role'' []
        in if rl \<notin> {''admin'', ''manager'', ''viewer''}
           then (Returned (users_page, [(''error'', ''Invalid role.'')]), db)
           else (case set_role uid rl db of
             (Inl e, db1) \<Rightarrow> (Returned (users_page, [(''error'', ''Error changing role: '' @ exc_text e)]), db1)
           | (Inr _, db1) \<Rightarrow> (Returned (users_page, [(''success'', ''User '' @ [CHR 39] @ ac_username u
               @ [CHR 39] @ '' role changed to '' @ rl @ ''.'')]), delete_sessions_for_user uid db1))))"

section \<open>The lockout bound\<close>

definition audit_count :: "int \<Rightarrow> string \<Rightarrow> auth_state \<Rightarrow> nat" where
  "audit_count uid action st = length (filter (\<lambda>a. a = (Some uid, action, Some uid)) (user_audit (store st)))"

definition attempt :: "(string \<Rightarrow> string \<Rightarrow> bool) \<Rightarrow> login_request \<Rightarrow> auth_state \<Rightarrow> auth_state" where
  "attempt chk rq st = snd (authenticate chk rq st)"

lemma audit_record_simps [simp]:
  "user_audit (user_audit_record a act t db) = user_audit db @ [(a, act, t)]"
  "user_audit (record_login now uid db) = user_audit db"
  "user_audit (snd (create_session tok uid ip ag db)) = user_audit db"
  by (simp_all add: user_audit_record_def record_login_def set_account_def create_session_def)

lemma authenticate_cases:
  obtains (refused) "attempt chk rq st = st"
  | (locked) uid st1 g m where "process_gate (lg_now rq) uid st = (g, st1)"
      "attempt chk rq st = snd (lockout_error uid m st1 :: string result \<times> auth_state)"
  | (success) uid key st1 where "process_gate (lg_now rq) uid st = (None, st1)"
      "attempt chk rq st = snd (login_success uid key rq st1)"
  | (failure) uid key st1 where "process_gate (lg_now rq) uid st = (None, st1)"
      "attempt chk rq st = snd (login_failure uid key (lg_now rq) st1)"
proof (cases "find_by_username (lg_username rq) (store st)")
  case None then show thesis using refused by (simp add: attempt_def authenticate_def)
next
  case (Some user)
  let ?uid = "ac_id user" and ?key = "get_rate_limit_key (lg_username rq)"
  obtain g st1 where g: "process_gate (lg_now rq) ?uid st = (g, st1)" by fastforce
  show thesis
  proof (cases "ac_active user \<and> (\<exists>h. ac_password user = Some h \<and> h \<noteq> [])")
    case False
    then show thesis using refused Some by (auto simp: attempt_def authenticate_def split: option.splits)
  next
    case True
    then obtain h where h: "ac_active user" "ac_password user = Some h" "h \<noteq> []" by blast
    show thesis
    proof (cases g)
      case (Some m)
      then show thesis
        using locked[OF g] \<open>find_by_username _ _ = _\<close> h g by (simp add: attempt_def authenticate_def)
    next
      case None
      then have st: "attempt chk rq st = snd (case check_rate_limit (lg_now rq) ?key st1 of
            Some mins \<Rightarrow> lockout_error ?uid mins st1
          | None \<Rightarrow> if chk h (lg_password rq) then login_success ?uid ?key rq st1
                    else login_failure ?uid ?key (lg_now rq) st1)"
        using Some h g by (simp add: attempt_def authenticate_def Let_def)
      show thesis
      proof (cases "check_rate_limit (lg_now rq) ?key st1")
        case None
        then show thesis using st success failure g \<open>g = None\<close> by (auto split: if_splits)
      qed (use st locked[OF g] in simp)
    qed
  qed
qed

definition lockout_inv :: "int \<Rightarrow> int \<Rightarrow> nat \<Rightarrow> auth_state \<Rightarrow> bool" where
  "lockout_inv uid t0 base st \<longleftrightarrow> length (entries_of uid st) \<le> MAX_FAILED_ATTEMPTS \<and>
     (\<forall>t\<in>set (entries_of uid st). t0 \<le> t) \<and>
     audit_count uid ''user.login_failed'' st = base + length (entries_of uid st)"

lemma entries_forget: "entries_of uid (forget_failures uid' st) = (if uid = uid' then [] else entries_of uid st)"
  by (simp add: entries_of_def forget_failures_def delete_conv')

lemma store_simps [simp]:
  "store (forget_failures uid st) = store st" "store (clear_rate_limit key st) = store st"
  "store (snd (record_failed_attempt now key st)) = store st"
  "failed_logins (clear_rate_limit key st) = failed_logins st"
  "failed_logins (snd (record_failed_attempt now key st)) = failed_logins st"
  by (simp_all add: forget_failures_def clear_rate_limit_def record_failed_attempt_def Let_def)

lemma entries_store [simp]: "entries_of uid (st\<lparr>store := db\<rparr>) = entries_of uid st"
  by (simp add: entries_of_def)

lemma lockout_result:
  "entries_of u (snd (lockout_error uid m st :: string result \<times> auth_state)) = entries_of u st"
  "audit_count u ''user.login_failed'' (snd (lockout_error uid m st :: string result \<times> auth_state)) =
     audit_count u ''user.login_failed'' st"
  "audit_count u ''user.login'' (snd (lockout_error uid m st :: string result \<times> auth_state)) =
     audit_count u ''user.login'' st"
  by (simp_all add: lockout_error_def audit_count_def)

lemma success_result:
  "entries_of u (snd (login_success uid key rq st)) = (if u = uid then [] else entries_of u st)"
  "audit_count u ''user.login_failed'' (snd (login_success uid key rq st)) = audit_count u ''user.login_failed'' st"
  "audit_count u ''user.login'' (snd (login_success uid key rq st)) =
     audit_count u ''user.login'' st + (if u = uid then 1 else 0)"
proof -
  have s: "snd (login_success uid key rq st) = (forget_failures uid (clear_rate_limit key st))\<lparr>store :=
      snd (create_session (lg_token rq) uid (lg_ip rq) (lg_agent rq)
        (user_audit_record (Some uid) ''user.login'' (Some uid) (record_login (lg_now rq) uid (store st))))\<rparr>"
    by (simp add: login_success_def Let_def split: prod.split)
  have "entries_of u (clear_rate_limit key st) = entries_of u st" by (simp add: entries_of_def)
  then show "entries_of u (snd (login_success uid key rq st)) = (if u = uid then [] else entries_of u st)"
    by (simp add: s entries_forget)
  show "audit_count u ''user.login_failed'' (snd (login_success uid key rq st)) = audit_count u ''user.login_failed'' st"
    "audit_count u ''user.login'' (snd (login_success uid key rq st)) =
     audit_count u ''user.login'' st + (if u = uid then 1 else 0)"
    by (simp_all add: s audit_count_def)
qed

lemma failure_result:
  "entries_of u (snd (login_failure uid key now st)) =
     (if u = uid then entries_of u st @ [now] else entries_of u st)"
  "audit_count u ''user.login_failed'' (snd (login_failure uid key now st)) =
     audit_count u ''user.login_failed'' st + (if u = uid then 1 else 0)"
  "audit_count u ''user.login'' (snd (login_failure uid key now st)) = audit_count u ''user.login'' st"
  by (auto simp: login_failure_def audit_count_def Let_def entries_of_def update_conv')

lemma gate_result:
  assumes "process_gate now uid st = (g, st1)"
  shows "audit_count u a st1 = audit_count u a st"
    and "u \<noteq> uid \<Longrightarrow> entries_of u st1 = entries_of u st"
    and "\<forall>t\<in>set (entries_of uid st). now - minutes LOCKOUT_MINUTES \<le> t \<Longrightarrow>
      st1 = st \<and> (g = None \<longrightarrow> length (entries_of uid st) < MAX_FAILED_ATTEMPTS)"
  using assms
  by (auto simp: process_gate_def audit_count_def entries_forget MAX_FAILED_ATTEMPTS_def split: list.splits if_splits)

lemma logins_mono: "audit_count uid ''user.login'' st \<le> audit_count uid ''user.login'' (attempt chk rq st)"
proof (cases chk rq st rule: authenticate_cases)
  case (locked uid' st1 g m)
  then show ?thesis using gate_result(1)[OF locked(1), of uid] by (simp add: lockout_result)
next
  case (success uid' key st1)
  then show ?thesis using gate_result(1)[OF success(1), of uid] by (simp add: success_result)
next
  case (failure uid' key st1)
  then show ?thesis using gate_result(1)[OF failure(1), of uid] by (simp add: failure_result)
qed simp

lemma logins_run_mono: "audit_count uid ''user.login'' st \<le> audit_count uid ''user.login'' (run (attempt chk) rqs st)"
proof (induction rqs arbitrary: st)
  case (Cons rq rqs) then show ?case using logins_mono le_trans by (simp, blast)
qed simp

lemma lockout_step:
  assumes inv: "lockout_inv uid t0 base st" and t: "t0 \<le> lg_now rq" "lg_now rq \<le> t0 + minutes LOCKOUT_MINUTES"
    and no: "audit_count uid ''user.login'' (attempt chk rq st) = audit_count uid ''user.login'' st"
  shows "lockout_inv uid t0 base (attempt chk rq st)"
proof -
  have young: "\<forall>t\<in>set (entries_of uid st). lg_now rq - minutes LOCKOUT_MINUTES \<le> t"
    using inv t(2) by (fastforce simp: lockout_inv_def)
  show ?thesis
  proof (cases chk rq st rule: authenticate_cases)
    case refused then show ?thesis using inv by simp
  next
    case (locked uid' st1 g m)
    show ?thesis using inv gate_result[OF locked(1)] young locked(2)
      by (cases "uid' = uid") (auto simp: lockout_inv_def lockout_result)
  next
    case (success uid' key st1)
    have "uid' \<noteq> uid" using no gate_result(1)[OF success(1)] success(2) by (auto simp: success_result)
    then show ?thesis using inv gate_result[OF success(1)] success(2)
      by (auto simp: lockout_inv_def success_result)
  next
    case (failure uid' key st1)
    show ?thesis using inv gate_result[OF failure(1)] young failure(2) t(1)
      by (cases "uid' = uid") (auto simp: lockout_inv_def failure_result)
  qed
qed

text \<open>A full counter answers every attempt on the account before the password is looked at.\<close>

lemma full_counter:
  assumes inv: "lockout_inv uid t0 base st" and full: "length (entries_of uid st) = MAX_FAILED_ATTEMPTS"
    and now: "lg_now rq \<le> t0 + minutes LOCKOUT_MINUTES"
    and u: "find_by_username (lg_username rq) (store st) = Some u" "ac_id u = uid"
  shows "\<exists>e st'. \<forall>chk pw. authenticate chk (rq\<lparr>lg_password := pw\<rparr>) st = (Err e, st')"
proof -
  obtain first rest where es: "entries_of uid st = first # rest"
    using full by (cases "entries_of uid st") (simp_all add: MAX_FAILED_ATTEMPTS_def)
  have "\<not> first < lg_now rq - minutes LOCKOUT_MINUTES" using inv now es by (auto simp: lockout_inv_def)
  then obtain m where gate: "process_gate (lg_now rq) uid st = (Some m, st)"
    using full es by (auto simp: process_gate_def)
  show ?thesis
  proof (cases "ac_active u \<and> (\<exists>h. ac_password u = Some h \<and> h \<noteq> [])")
    case False
    then have "authenticate chk (rq\<lparr>lg_password := pw\<rparr>) st = (Err invalid_login, st)" for chk pw
      using u by (auto simp: authenticate_def split: option.split)
    then show ?thesis by blast
  next
    case True
    then have "authenticate chk (rq\<lparr>lg_password := pw\<rparr>) st = lockout_error uid m st" for chk pw
      using u gate by (auto simp: authenticate_def Let_def)
    then show ?thesis by (auto simp: lockout_error_def)
  qed
qed

text \<open>C13: The lockout holds against any stream of login requests, for this and for other accounts:
  within 15 minutes of a clean counter, and as long as no login of the account has succeeded, at most five
  passwords are checked and rejected for it; and once five were, every further attempt on the account in that
  time, even one with the right password, is refused with the same answer and the same effect whatever the
  password and the check of passwords are.\<close>
theorem lockout_bound:
  assumes "entries_of uid st = []"
    and "\<forall>rq\<in>set rqs. t0 \<le> lg_now rq \<and> lg_now rq \<le> t0 + minutes LOCKOUT_MINUTES"
    and "audit_count uid ''user.login'' (run (attempt chk) rqs st) = audit_count uid ''user.login'' st"
  shows "audit_count uid ''user.login_failed'' (run (attempt chk) rqs st)
      \<le> audit_count uid ''user.login_failed'' st + MAX_FAILED_ATTEMPTS \<and>
    (audit_count uid ''user.login_failed'' (run (attempt chk) rqs st)
      = audit_count uid ''user.login_failed'' st + MAX_FAILED_ATTEMPTS \<longrightarrow>
     (\<forall>rq u. lg_now rq \<le> t0 + minutes LOCKOUT_MINUTES \<longrightarrow>
        find_by_username (lg_username rq) (store (run (attempt chk) rqs st)) = Some u \<longrightarrow> ac_id u = uid \<longrightarrow>
        (\<exists>e st'. \<forall>chk' pw. authenticate chk' (rq\<lparr>lg_password := pw\<rparr>) (run (attempt chk) rqs st) = (Err e, st'))))"
proof -
  have "lockout_inv uid t0 base (run (attempt chk) rqs st)"
    if "lockout_inv uid t0 base st" "\<forall>rq\<in>set rqs. t0 \<le> lg_now rq \<and> lg_now rq \<le> t0 + minutes LOCKOUT_MINUTES"
      "audit_count uid ''user.login'' (run (attempt chk) rqs st) = audit_count uid ''user.login'' st" for base
    using that
  proof (induction rqs arbitrary: st)
    case (Cons rq rqs)
    have same: "audit_count uid ''user.login'' (attempt chk rq st) = audit_count uid ''user.login'' st"
      using Cons.prems(3) logins_mono[of uid st chk rq] logins_run_mono[of uid "attempt chk rq st" chk rqs] by simp
    have "lockout_inv uid t0 base (attempt chk rq st)"
      using lockout_step[OF Cons.prems(1) _ _ same] Cons.prems(2) by simp
    then show ?case using Cons.IH Cons.prems(2,3) same by simp
  qed simp
  from this[of "audit_count uid ''user.login_failed'' st"] assms
  have inv: "lockout_inv uid t0 (audit_count uid ''user.login_failed'' st) (run (attempt chk) rqs st)"
    by (simp add: lockout_inv_def)
  then show ?thesis using full_counter[OF inv] by (simp add: lockout_inv_def)
qed

definition demo_users :: user_db where
  "demo_users = \<lparr>accounts = [\<lparr>ac_id = 7, ac_username = ''ann'', ac_email = ''a@b.co'', ac_password = Some ''h:pw'',
       ac_role = ''viewer'', ac_active = True, ac_deleted = False, ac_full_name = None, ac_department = None,
       ac_job_role = None, ac_manager = None, ac_last_login = None\<rparr>],
     next_account = 8, sessions = [\<lparr>ss_user = 7, ss_token = ''s1'', ss_ip = None, ss_agent = None, ss_active = True\<rparr>],
     reset_tokens = [\<lparr>rt_id = 1, rt_user = 7, rt_hash = ''#t1'', rt_expires = 900, rt_used = False\<rparr>],
     next_token = 2, user_audit = []\<rparr>"

definition demo_auth :: auth_state where
  "demo_auth = \<lparr>store = demo_users, rate_limits = [], failed_logins = []\<rparr>"

definition demo_chk :: "string \<Rightarrow> string \<Rightarrow> bool" where "demo_chk h p = (h = ''h:'' @ p)"

definition demo_login :: "int \<Rightarrow> string \<Rightarrow> login_request" where
  "demo_login t p = \<lparr>lg_now = t, lg_username = ''Ann'', lg_password = p, lg_ip = None, lg_agent = None, lg_token = ''s2''\<rparr>"

theorem lockout_bound_witness:
  "audit_count 7 ''user.login_failed'' (run (attempt demo_chk) (map (\<lambda>t. demo_login t ''no'') [0..6]) demo_auth) = 5 \<and>
   (\<exists>e st'. \<forall>chk' pw. authenticate chk' ((demo_login 7 ''x'')\<lparr>lg_password := pw\<rparr>)
     (run (attempt demo_chk) (map (\<lambda>t. demo_login t ''no'') [0..6]) demo_auth) = (Err e, st'))"
proof -
  let ?rqs = "map (\<lambda>t. demo_login t ''no'') [0..6]"
  let ?st = "run (attempt demo_chk) ?rqs demo_auth"
  have "entries_of 7 demo_auth = []" by code_simp
  moreover have "\<forall>rq\<in>set ?rqs. 0 \<le> lg_now rq \<and> lg_now rq \<le> 0 + minutes LOCKOUT_MINUTES"
    by (simp add: demo_login_def minutes_def LOCKOUT_MINUTES_def)
  moreover have "audit_count 7 ''user.login'' ?st = audit_count 7 ''user.login'' demo_auth"
    by code_simp
  ultimately have bound: "audit_count 7 ''user.login_failed'' ?st \<le> audit_count 7 ''user.login_failed'' demo_auth + MAX_FAILED_ATTEMPTS \<and>
    (audit_count 7 ''user.login_failed'' ?st = audit_count 7 ''user.login_failed'' demo_auth + MAX_FAILED_ATTEMPTS \<longrightarrow>
     (\<forall>rq u. lg_now rq \<le> 0 + minutes LOCKOUT_MINUTES \<longrightarrow> find_by_username (lg_username rq) (store ?st) = Some u \<longrightarrow> ac_id u = 7 \<longrightarrow>
        (\<exists>e st'. \<forall>chk' pw. authenticate chk' (rq\<lparr>lg_password := pw\<rparr>) ?st = (Err e, st'))))"
    by (rule lockout_bound)
  have n: "audit_count 7 ''user.login_failed'' ?st = 5" "audit_count 7 ''user.login_failed'' demo_auth = 0" by code_simp+
  have "map_option ac_id (find_by_username ''Ann'' (store ?st)) = Some 7" by code_simp
  then obtain u where u: "find_by_username ''Ann'' (store ?st) = Some u" "ac_id u = 7" by auto
  have "lg_username (demo_login 7 ''x'') = ''Ann''" "lg_now (demo_login 7 ''x'') \<le> 0 + minutes LOCKOUT_MINUTES"
    by (simp_all add: demo_login_def minutes_def LOCKOUT_MINUTES_def)
  then show ?thesis using bound n u unfolding MAX_FAILED_ATTEMPTS_def by auto
qed

section \<open>Revocation\<close>

text \<open>What it means that every session of an account has ended: no cookie that carries a session token, as every cookie
  set by the login page does, loads the account.  The loader also lets cookies without a token in, and those
  are not revoked by anything.\<close>

definition sessions_ended :: "int \<Rightarrow> user_db \<Rightarrow> bool" where
  "sessions_ended uid db \<longleftrightarrow> (\<forall>cookie t u. t \<noteq> [] \<longrightarrow> load_user cookie (Some t) db = Some u \<longrightarrow> ac_id u \<noteq> uid)"

lemma sessions_endedI: "(\<And>t. \<not> is_session_active uid t db) \<Longrightarrow> sessions_ended uid db"
  by (auto simp: sessions_ended_def load_user_def split: option.splits if_splits)

lemma session_simps [simp]:
  "is_session_active uid t (user_audit_record a b c db) = is_session_active uid t db"
  "is_session_active uid t (purge_reset_tokens u db) = is_session_active uid t db"
  "is_session_active uid t (consume_reset_token i db) = is_session_active uid t db"
  "is_session_active uid t (set_account u f db) = is_session_active uid t db"
  "is_session_active uid t (set_password gen u pw db) = is_session_active uid t db"
  by (simp_all add: is_session_active_def user_audit_record_def purge_reset_tokens_def consume_reset_token_def
      set_account_def set_password_def)

lemma session_update_profile [simp]:
  "is_session_active uid t (snd (update_profile u a b c db)) = is_session_active uid t db"
  by (simp add: update_profile_def)

lemma session_form_manager [simp]:
  "is_session_active uid t (snd (form_manager u m db)) = is_session_active uid t db"
  by (auto simp: form_manager_def set_reporting_manager_def repo_set_reporting_manager_def
      split: option.splits sum.splits)

lemma find_by_id_id: "find_by_id uid db = Some u \<Longrightarrow> ac_id u = uid"
  unfolding find_by_id_def by (drule find_row_Some) simp

text \<open>The states an edit can end in: nothing done, stopped by the profile, or finished.\<close>

definition edit_base :: "(string \<Rightarrow> string) \<Rightarrow> (string \<times> string) list \<Rightarrow> account \<Rightarrow> user_db \<Rightarrow> user_db" where
  "edit_base gen form u db =
     (let db2 = delete_sessions_for_user (ac_id u) (set_active (ac_id u) (map_of form ''is_active'' = Some ''on'')
        (set_account (ac_id u) (\<lambda>r. r\<lparr>ac_role := fget form ''role'' (ac_role u)\<rparr>) db))
      in if fget form ''password'' [] \<noteq> [] then set_password gen (ac_id u) (fget form ''password'' []) db2 else db2)"

definition edit_profile :: "(string \<Rightarrow> string) \<Rightarrow> (string \<times> string) list \<Rightarrow> account \<Rightarrow> user_db \<Rightarrow> unit result \<times> user_db" where
  "edit_profile gen form u db = update_profile (ac_id u) (fget_opt form ''full_name'') (fget_opt form ''department'')
     (fget_opt form ''job_role'') (edit_base gen form u db)"

lemma edit_account_states:
  "snd (edit_account gen form u db) \<in> {db, snd (edit_profile gen form u db),
     snd (form_manager (ac_id u) (fget_opt form ''reporting_manager_id'') (snd (edit_profile gen form u db)))}"
proof (cases "fget form ''role'' (ac_role u) \<in> {''admin'', ''manager'', ''viewer''} \<and>
    \<not> isl (if fget form ''password'' [] \<noteq> [] then validate_password_strength (fget form ''password'' []) else Ok (fget form ''password'' []))")
  case True
  then obtain w where w: "(if fget form ''password'' [] \<noteq> [] then validate_password_strength (fget form ''password'' [])
      else Ok (fget form ''password'' [])) = Inr w" by (auto simp: isl_def split: sum.splits) (metis sum.exhaust)+
  have role: "set_role (ac_id u) (fget form ''role'' (ac_role u)) db =
      (Ok (), set_account (ac_id u) (\<lambda>r. r\<lparr>ac_role := fget form ''role'' (ac_role u)\<rparr>) db)"
    using True unfolding set_role_def by argo
  obtain ur db4 where ur: "edit_profile gen form u db = (ur, db4)" by (cases "edit_profile gen form u db")
  obtain m db5 where m: "form_manager (ac_id u) (fget_opt form ''reporting_manager_id'') db4 = (m, db5)"
    by (cases "form_manager (ac_id u) (fget_opt form ''reporting_manager_id'') db4")
  note up = ur[unfolded edit_profile_def edit_base_def Let_def]
  show ?thesis unfolding edit_account_def Let_def using True w role up m by (cases ur) (simp_all add: ur)
next
  case False
  then show ?thesis unfolding edit_account_def Let_def
    by (cases "if fget form ''password'' [] \<noteq> [] then validate_password_strength (fget form ''password'' [])
      else Ok (fget form ''password'' [])") auto
qed

lemma edit_account_revokes:
  "snd (edit_account gen form u db) = db \<or> \<not> is_session_active (ac_id u) t (snd (edit_account gen form u db))"
proof -
  have "\<not> is_session_active (ac_id u) t (edit_base gen form u db)" by (simp add: edit_base_def Let_def)
  then show ?thesis using edit_account_states[of gen form u db] by (auto simp: edit_profile_def)
qed

text \<open>A cookie without a token depends on the number of the account and on whether it was deleted, nothing else.\<close>

definition living :: "user_db \<Rightarrow> (int \<times> bool) list" where
  "living db = map (\<lambda>r. (ac_id r, ac_deleted r)) (accounts db)"

lemma living_set_account:
  "(\<And>r. ac_id (f r) = ac_id r \<and> ac_deleted (f r) = ac_deleted r) \<Longrightarrow> living (set_account u f db) = living db"
  by (simp add: living_def set_account_def update_where_def comp_def if_distrib cong: if_cong)

lemma living_accounts: "accounts db' = accounts db \<Longrightarrow> living db' = living db"
  by (simp add: living_def)

lemma living_simps [simp]:
  "living (user_audit_record a b c db) = living db" "living (purge_reset_tokens u db) = living db"
  "living (consume_reset_token i db) = living db" "living (delete_sessions_for_user u db) = living db"
  "living (set_password gen u pw db) = living db" "living (set_active u active db) = living db"
  "living (snd (update_profile u x y z db)) = living db" "living (snd (form_manager u m db)) = living db"
proof -
  show "living (user_audit_record a b c db) = living db" "living (purge_reset_tokens u db) = living db"
    "living (consume_reset_token i db) = living db" "living (delete_sessions_for_user u db) = living db"
    by (rule living_accounts; simp add: user_audit_record_def purge_reset_tokens_def consume_reset_token_def
      delete_sessions_for_user_def)+
  show "living (set_password gen u pw db) = living db" "living (set_active u active db) = living db"
    by (simp_all add: set_password_def set_active_def living_set_account)
  show "living (snd (update_profile u x y z db)) = living db"
    by (simp add: update_profile_def living_set_account)
  show "living (snd (form_manager u m db)) = living db"
    by (simp add: form_manager_def set_reporting_manager_def repo_set_reporting_manager_def living_set_account
      split: option.split sum.split)
qed

lemma living_edit: "living (snd (edit_account gen form u db)) = living db"
proof -
  have "living (edit_base gen form u db) = living db" by (simp add: edit_base_def Let_def living_set_account)
  then show ?thesis using edit_account_states[of gen form u db] by (auto simp: edit_profile_def)
qed

lemma load_without_token: "(load_user cookie None db = None) = (case parse_int cookie of None \<Rightarrow> True | Some i \<Rightarrow> (i, False) \<notin> set (living db))"
proof (cases "parse_int cookie")
  case (Some i)
  have "(load_user cookie None db = None) = (find_by_id i db = None)" by (simp add: load_user_def Some split: option.split)
  also have "\<dots> = ((i, False) \<notin> set (living db))" by (auto simp: find_by_id_def find_row_None living_def)
  finally show ?thesis by (simp add: Some)
qed (simp add: load_user_def)

lemma same_living: "living d = living db \<Longrightarrow> (load_user cookie None d = None) = (load_user cookie None db = None)"
  by (simp only: load_without_token)

text \<open>C14: Sessions end at once: when a password reset succeeds, when an administrator toggles an account,
  changes its role or gets past the validation of the edit form, no cookie with a session token of that account
  loads it any more; and after a reset no reset link of the account is valid.  What none of them ends is a
  cookie without a token (the login page sets none): it loads an account afterwards exactly when it did before.\<close>
theorem access_revoked:
  "(case reset_password sha gen now token pw db of
      (Inr _, db') \<Rightarrow> (case find_valid_reset_token now (sha token) db of
         Some row \<Rightarrow> sessions_ended (rt_user row) db' \<and>
           list_all (\<lambda>t. rt_user t \<noteq> rt_user row) (reset_tokens db')
       | None \<Rightarrow> False)
    | (Inl _, db') \<Rightarrow> db' = db) \<and>
   (case admin_toggle_active actor_id actor uid db of
      (Returned (_, [(''success'', _)]), db') \<Rightarrow> sessions_ended uid db' | (_, db') \<Rightarrow> db' = db) \<and>
   (case admin_change_role actor_id actor uid form db of
      (Returned (_, [(''success'', _)]), db') \<Rightarrow> sessions_ended uid db' | (_, db') \<Rightarrow> db' = db) \<and>
   (case admin_edit gen actor_id actor uid form db of (_, db') \<Rightarrow> sessions_ended uid db' \<or> db' = db) \<and>
   list_all (\<lambda>db'. (load_user cookie None db' = None) = (load_user cookie None db = None))
     [snd (reset_password sha gen now token pw db), snd (admin_toggle_active actor_id actor uid db),
      snd (admin_change_role actor_id actor uid form db), snd (admin_edit gen actor_id actor uid form db)]"
proof (intro conjI)
  have "living (snd (reset_password sha gen now token pw db)) = living db"
    by (simp add: reset_password_def split: sum.split option.split)
  moreover have "living (snd (admin_toggle_active actor_id actor uid db)) = living db"
    by (simp add: admin_toggle_active_def roles_required_def admin_target_def Let_def split: option.split)
  moreover have "living (snd (admin_change_role actor_id actor uid form db)) = living db"
    by (simp add: admin_change_role_def roles_required_def admin_target_def Let_def set_role_def living_set_account split: option.split)
  moreover have "living (snd (admin_edit gen actor_id actor uid form db)) = living db"
    by (simp add: admin_edit_def roles_required_def admin_target_def living_edit split: option.split)
  ultimately show "list_all (\<lambda>db'. (load_user cookie None db' = None) = (load_user cookie None db = None))
     [snd (reset_password sha gen now token pw db), snd (admin_toggle_active actor_id actor uid db),
      snd (admin_change_role actor_id actor uid form db), snd (admin_edit gen actor_id actor uid form db)]"
    unfolding list_all_iff list.set ball_simps by (intro conjI TrueI same_living)
  show "case reset_password sha gen now token pw db of
      (Inr _, db') \<Rightarrow> (case find_valid_reset_token now (sha token) db of
         Some row \<Rightarrow> sessions_ended (rt_user row) db' \<and>
           list_all (\<lambda>t. rt_user t \<noteq> rt_user row) (reset_tokens db')
       | None \<Rightarrow> False)
    | (Inl _, db') \<Rightarrow> db' = db"
    unfolding reset_password_def
    by (auto split: sum.split option.split intro!: sessions_endedI)
      (auto simp: user_audit_record_def purge_reset_tokens_def list_all_iff)
  show "case admin_toggle_active actor_id actor uid db of
      (Returned (_, [(''success'', _)]), db') \<Rightarrow> sessions_ended uid db' | (_, db') \<Rightarrow> db' = db"
    by (auto simp: admin_toggle_active_def roles_required_def admin_target_def Let_def
        split: option.split intro!: sessions_endedI)
  show "case admin_change_role actor_id actor uid form db of
      (Returned (_, [(''success'', _)]), db') \<Rightarrow> sessions_ended uid db' | (_, db') \<Rightarrow> db' = db"
    by (auto simp: admin_change_role_def roles_required_def admin_target_def Let_def set_role_def
        split: option.split intro!: sessions_endedI)
  show "case admin_edit gen actor_id actor uid form db of (_, db') \<Rightarrow> sessions_ended uid db' \<or> db' = db"
  proof -
    have "sessions_ended uid (snd (edit_account gen form u db)) \<or> snd (edit_account gen form u db) = db"
      if "find_by_id uid db = Some u" for u
      using edit_account_revokes[of gen form u db] find_by_id_id[OF that] by (metis sessions_endedI)
    then have "sessions_ended uid (snd (admin_edit gen actor_id actor uid form db)) \<or>
        snd (admin_edit gen actor_id actor uid form db) = db"
      unfolding admin_edit_def roles_required_def admin_target_def by (simp split: option.split)
    then show ?thesis by (simp add: split_beta)
  qed
qed

end
