(* ===== verification/Jobs.thy ===== *)
theory Jobs
  imports Helpers Roles "HOL-Library.Multiset"
begin

text \<open>The persistent job queue: \<open>app/services/job_queue_service.py\<close>, \<open>app/worker.py\<close> and the
  \<open>job_queue_*\<close> procedures.  Instants are microseconds.  What a handler does to the rest
  of the system is a parameter: the model sees whether it exists, what it returned or raised.\<close>

section \<open>The queue table\<close>

datatype job_status = JPending | JRunning | JCompleted | JFailed | JDead

record job =
  j_id :: int
  j_task :: string
  j_payload :: payload
  j_status :: job_status
  j_attempts :: int
  j_max :: int
  j_priority :: int
  j_next_run :: int
  j_locked_by :: "string option"
  j_locked_at :: "int option"
  j_created :: int
  j_started :: "int option"
  j_completed :: "int option"
  j_error :: "string option"
  j_result :: "pyval option"

record job_queue =
  jobs :: "job list"
  next_job :: int

definition us_of_seconds :: "int \<Rightarrow> int" where "us_of_seconds s = s * 1000000"
definition us_of_minutes :: "int \<Rightarrow> int" where "us_of_minutes m = m * 60000000"

definition STALE_MINUTES :: int where "STALE_MINUTES = 10"

text \<open>Handlers by task name; registering a name twice is an error.\<close>

definition register_handler :: "string \<Rightarrow> 'h \<Rightarrow> (string \<times> 'h) list \<Rightarrow> (string \<times> 'h) list result" where
  "register_handler task h hs =
     (if map_of hs task \<noteq> None
      then Err (ValueError (''Handler for '' @ [CHR 39] @ task @ [CHR 39] @ '' already registered''))
      else Ok (hs @ [(task, h)]))"

definition enqueue :: "int \<Rightarrow> string \<Rightarrow> payload \<Rightarrow> int \<Rightarrow> int \<Rightarrow> int \<Rightarrow> job_queue \<Rightarrow> int \<times> job_queue" where
  "enqueue now task pl priority max_attempts delay q =
     (next_job q, q\<lparr>next_job := next_job q + 1, jobs := jobs q @ [\<lparr>j_id = next_job q, j_task = task,
        j_payload = pl, j_status = JPending, j_attempts = 0, j_max = max_attempts, j_priority = priority,
        j_next_run = (if 0 < delay then now + us_of_seconds delay else now), j_locked_by = None,
        j_locked_at = None, j_created = now, j_started = None, j_completed = None, j_error = None,
        j_result = None\<rparr>]\<rparr>)"

definition get_job_status :: "int \<Rightarrow> job_queue \<Rightarrow> job option" where
  "get_job_status i q = find_row (\<lambda>r. j_id r = i) (jobs q)"

definition on_job :: "int \<Rightarrow> (job \<Rightarrow> bool) \<Rightarrow> (job \<Rightarrow> job) \<Rightarrow> job_queue \<Rightarrow> job_queue" where
  "on_job i guard f q = q\<lparr>jobs := update_where (\<lambda>r. j_id r = i \<and> guard r) f (jobs q)\<rparr>"

section \<open>Execution\<close>

datatype handler_outcome = NoHandler | HandlerReturned pyval | HandlerRaised pyexc

fun safe_error :: "(pyexc \<Rightarrow> string) \<Rightarrow> pyexc \<Rightarrow> string" where
  "safe_error txt (DbOperational m) = ''OperationalError''"
| "safe_error txt e = txt e"

text \<open>The statements after the handler ended, on the row's own values except for the decision between
  retry and death, which is taken on the snapshot of the claim.\<close>

definition mark_running :: "int \<Rightarrow> int \<Rightarrow> job_queue \<Rightarrow> job_queue" where
  "mark_running now i q = on_job i (\<lambda>r. j_status r = JPending) (\<lambda>r. r\<lparr>j_status := JRunning, j_started := Some now\<rparr>) q"

definition mark_completed :: "int \<Rightarrow> int \<Rightarrow> pyval \<Rightarrow> job_queue \<Rightarrow> job_queue" where
  "mark_completed now i v q = on_job i (\<lambda>r. j_status r = JRunning)
     (\<lambda>r. r\<lparr>j_status := JCompleted, j_completed := Some now, j_result := Some v\<rparr>) q"

definition mark_dead :: "int \<Rightarrow> int \<Rightarrow> string \<Rightarrow> job_queue \<Rightarrow> job_queue" where
  "mark_dead now i msg q = on_job i (\<lambda>r. j_status r = JRunning)
     (\<lambda>r. r\<lparr>j_status := JDead, j_completed := Some now, j_error := Some msg\<rparr>) q"

definition mark_retry :: "int \<Rightarrow> int \<Rightarrow> job_queue \<Rightarrow> job_queue" where
  "mark_retry now i q = on_job i (\<lambda>r. j_status r = JRunning)
     (\<lambda>r. r\<lparr>j_status := JPending, j_attempts := j_attempts r + 1,
        j_next_run := now + us_of_minutes (j_attempts r + 1)\<rparr>) q"

definition settle_job :: "(pyexc \<Rightarrow> string) \<Rightarrow> int \<Rightarrow> job \<Rightarrow> pyexc + pyval \<Rightarrow> job_queue \<Rightarrow> job_queue" where
  "settle_job txt now snap r q = (case r of
      Inr v \<Rightarrow> mark_completed now (j_id snap) v q
    | Inl e \<Rightarrow>
        if j_max snap \<le> j_attempts snap + 1 then mark_dead now (j_id snap) (safe_error txt e) q
        else mark_retry now (j_id snap) q)"

definition execute_job :: "(pyexc \<Rightarrow> string) \<Rightarrow> int \<Rightarrow> job \<Rightarrow> handler_outcome \<Rightarrow> job_queue \<Rightarrow> unit result \<times> job_queue" where
  "execute_job txt now snap r q = (case r of
      NoHandler \<Rightarrow> (Err (ValueError (''No handler for task: '' @ j_task snap)), q)
    | HandlerReturned v \<Rightarrow> (Ok (), settle_job txt now snap (Inr v) (mark_running now (j_id snap) q))
    | HandlerRaised e \<Rightarrow> (Ok (), settle_job txt now snap (Inl e) (mark_running now (j_id snap) q)))"

section \<open>The worker\<close>

definition is_stale :: "int \<Rightarrow> job \<Rightarrow> bool" where
  "is_stale now r \<longleftrightarrow> j_status r = JRunning \<and>
     (case j_started r of Some t \<Rightarrow> t < now - us_of_minutes STALE_MINUTES | None \<Rightarrow> False)"

definition requeue_row :: "int \<Rightarrow> job \<Rightarrow> job" where
  "requeue_row now r =
     (let dead = (j_max r \<le> j_attempts r + 1)
      in r\<lparr>j_status := (if dead then JDead else JPending), j_attempts := j_attempts r + 1, j_next_run := now,
        j_locked_by := None, j_locked_at := None,
        j_error := (if dead then Some ''stale: running exceeded 10 minutes'' else j_error r),
        j_completed := (if dead then Some now else j_completed r)\<rparr>)"

definition requeue_stale :: "int \<Rightarrow> job_queue \<Rightarrow> nat \<times> job_queue" where
  "requeue_stale now q = (length (filter (is_stale now) (jobs q)),
     q\<lparr>jobs := update_where (is_stale now) (requeue_row now) (jobs q)\<rparr>)"

definition due :: "int \<Rightarrow> job \<Rightarrow> bool" where
  "due now r \<longleftrightarrow> j_status r = JPending \<and> j_next_run r \<le> now"

text \<open>\<open>ORDER BY priority DESC, created_at LIMIT n\<close>\<close>

definition claimable :: "int \<Rightarrow> nat \<Rightarrow> job_queue \<Rightarrow> job list" where
  "claimable now n q =
     take n (sort_key (\<lambda>r. - j_priority r) (sort_key j_created (filter (due now) (jobs q))))"

definition claim_row :: "int \<Rightarrow> string \<Rightarrow> job \<Rightarrow> job" where
  "claim_row now w r = r\<lparr>j_status := JRunning, j_locked_by := Some w, j_locked_at := Some now, j_started := Some now\<rparr>"

definition claim_jobs :: "int \<Rightarrow> string \<Rightarrow> nat \<Rightarrow> job_queue \<Rightarrow> job list \<times> job_queue" where
  "claim_jobs now w n q =
     (let rows = claimable now n q
      in (rows, q\<lparr>jobs := update_where (\<lambda>r. j_id r \<in> j_id ` set rows) (claim_row now w) (jobs q)\<rparr>))"

definition execute_all ::
  "(pyexc \<Rightarrow> string) \<Rightarrow> (job \<Rightarrow> handler_outcome) \<Rightarrow> int \<Rightarrow> job list \<Rightarrow> job_queue \<Rightarrow> job_queue" where
  "execute_all txt h now rows q = fold (\<lambda>r q. snd (execute_job txt now r (h r) q)) rows q"

definition tick ::
  "(pyexc \<Rightarrow> string) \<Rightarrow> (job \<Rightarrow> handler_outcome) \<Rightarrow> string \<Rightarrow> int \<Rightarrow> nat \<Rightarrow> job_queue \<Rightarrow> nat \<times> job_queue" where
  "tick txt h w now n q = (case claim_jobs now w n (snd (requeue_stale now q)) of
      (rows, q1) \<Rightarrow> (length rows, execute_all txt h now rows q1))"

text \<open>The stored dispatcher \<open>job_queue_process_batch\<close> marks due rows running and notifies; its
  advisory lock is \<open>got\<close>.  The clean-up procedure ends in \<open>RETURN ROW_COUNT\<close>, which is not a
  variable of the function, so a call always fails and its deletion is rolled back.\<close>

definition process_batch :: "(job \<Rightarrow> bool) \<Rightarrow> int \<Rightarrow> string \<Rightarrow> nat \<Rightarrow> job_queue \<Rightarrow> nat \<times> job_queue" where
  "process_batch got now w n q =
     (let rows = filter got (claimable now n q)
      in (length rows, q\<lparr>jobs := update_where (\<lambda>r. j_id r \<in> j_id ` set rows \<and> j_status r = JPending)
            (\<lambda>r. r\<lparr>j_status := JRunning, j_locked_by := Some w, j_started := Some now\<rparr>) (jobs q)\<rparr>))"

definition job_queue_cleanup :: "int \<Rightarrow> job_queue \<Rightarrow> nat result \<times> job_queue" where
  "job_queue_cleanup retention q = (Err (OtherExc ''column row_count does not exist''), q)"

lemma job_count_kept [simp]:
  "map j_id (jobs (on_job i g f q)) = map j_id (jobs q)" if "\<And>r. j_id (f r) = j_id r"
  using that by (simp add: on_job_def)

section \<open>Several workers at once\<close>

text \<open>A fleet of workers: the claimed snapshots that no worker has finished, with whether the handler has
  been called, and the log of handler calls.  Workers may be arbitrarily slow, so a snapshot may be
  executed long after its row was requeued as stale, and they may die.\<close>

record fleet =
  queue :: job_queue
  inflight :: "(job \<times> bool) multiset"
  runs :: "int list"

datatype fleet_op =
    FEnqueue int string payload int int int
  | FClaim int string nat
  | FBegin int job bool
  | FFinish int job "pyexc + pyval"
  | FCrash job bool
  | FStale int

fun fleet_step :: "(pyexc \<Rightarrow> string) \<Rightarrow> fleet_op \<Rightarrow> fleet \<Rightarrow> fleet" where
  "fleet_step txt (FEnqueue now task pl prio m delay) s = s\<lparr>queue := snd (enqueue now task pl prio m delay (queue s))\<rparr>"
| "fleet_step txt (FClaim now w n) s = (case claim_jobs now w n (queue s) of (rows, q) \<Rightarrow>
     s\<lparr>queue := q, inflight := inflight s + image_mset (\<lambda>r. (r, False)) (mset rows)\<rparr>)"
| "fleet_step txt (FBegin now snap handled) s =
     (if (snap, False) \<in># inflight s
      then if handled
        then s\<lparr>queue := mark_running now (j_id snap) (queue s),
          inflight := inflight s - {#(snap, False)#} + {#(snap, True)#}, runs := j_id snap # runs s\<rparr>
        else s\<lparr>inflight := inflight s - {#(snap, False)#}\<rparr>
      else s)"
| "fleet_step txt (FFinish now snap r) s =
     (if (snap, True) \<in># inflight s
      then s\<lparr>queue := settle_job txt now snap r (queue s), inflight := inflight s - {#(snap, True)#}\<rparr> else s)"
| "fleet_step txt (FCrash snap b) s = s\<lparr>inflight := inflight s - {#(snap, b)#}\<rparr>"
| "fleet_step txt (FStale now) s = s\<lparr>queue := snd (requeue_stale now (queue s))\<rparr>"

definition waiting :: "int \<Rightarrow> fleet \<Rightarrow> int" where
  "waiting i s = int (size (filter_mset (\<lambda>(r, b). j_id r = i \<and> \<not> b) (inflight s)))"

definition retriers :: "int \<Rightarrow> fleet \<Rightarrow> int" where
  "retriers i s = int (size (filter_mset (\<lambda>(r, b). j_id r = i \<and> j_attempts r + 1 < j_max r) (inflight s)))"

definition calls :: "int \<Rightarrow> fleet \<Rightarrow> int" where "calls i s = int (count_list (runs s) i)"

definition open_job :: "job \<Rightarrow> bool" where "open_job r \<longleftrightarrow> j_status r = JPending \<or> j_status r = JRunning"
definition pend :: "job \<Rightarrow> int" where "pend r = (if j_status r = JPending then 1 else 0)"

abbreviation cap :: "job \<Rightarrow> int" where "cap r \<equiv> max 1 (j_max r)"

definition row_inv :: "int \<Rightarrow> int \<Rightarrow> job \<Rightarrow> bool" where
  "row_inv used low r \<longleftrightarrow> 0 \<le> j_attempts r \<and> used + pend r \<le> 2 * cap r - 1 \<and>
     (open_job r \<longrightarrow> used + pend r \<le> j_attempts r + 1 \<and>
        (j_attempts r \<le> cap r - 1 \<longrightarrow> low \<le> j_attempts r + 1 - pend r \<and> low \<le> cap r - 1) \<and>
        (cap r - 1 \<le> j_attempts r \<longrightarrow> j_attempts r - (cap r - 1) + low \<le> cap r - 1))"

definition used :: "int \<Rightarrow> fleet \<Rightarrow> int" where "used i s = calls i s + waiting i s"

definition fleet_inv :: "fleet \<Rightarrow> bool" where
  "fleet_inv s \<longleftrightarrow> distinct (map j_id (jobs (queue s))) \<and>
     (\<forall>r\<in>set (jobs (queue s)). j_id r < next_job (queue s) \<and> row_inv (used (j_id r) s) (retriers (j_id r) s) r) \<and>
     (\<forall>snap b. (snap, b) \<in># inflight s \<longrightarrow> 0 \<le> j_attempts snap \<and>
        (\<exists>r\<in>set (jobs (queue s)). j_id r = j_id snap \<and> j_max r = j_max snap)) \<and>
     (\<forall>i\<in>set (runs s). \<exists>r\<in>set (jobs (queue s)). j_id r = i)"

text \<open>The row facts behind each transition.\<close>

lemma row_inv_less: "row_inv u l r \<Longrightarrow> u' \<le> u \<Longrightarrow> l' \<le> l \<Longrightarrow> row_inv u' l' r"
  by (auto simp: row_inv_def)

lemma row_inv_close: "row_inv u l r \<Longrightarrow> row_inv u l' (r\<lparr>j_status := st\<rparr>)" if "st \<noteq> JPending" "st \<noteq> JRunning"
  using that by (auto simp: row_inv_def open_job_def pend_def split: if_splits)

lemma row_inv_run: "row_inv u l r \<Longrightarrow> j_status r = JPending \<Longrightarrow> row_inv u l (r\<lparr>j_status := JRunning\<rparr>)"
  by (auto simp: row_inv_def open_job_def pend_def)

lemma row_inv_claim:
  "row_inv u l r \<Longrightarrow> j_status r = JPending \<Longrightarrow>
   row_inv (u + 1) (if j_attempts r + 1 < j_max r then l + 1 else l) (r\<lparr>j_status := JRunning\<rparr>)"
  by (auto simp: row_inv_def open_job_def pend_def)

lemma row_inv_retry:
  "row_inv u (l + 1) r \<Longrightarrow> 0 \<le> l \<Longrightarrow> j_status r = JRunning \<Longrightarrow>
   row_inv u l (r\<lparr>j_status := JPending, j_attempts := j_attempts r + 1\<rparr>)"
  by (auto simp: row_inv_def open_job_def pend_def)

lemma row_inv_stale:
  "row_inv u l r \<Longrightarrow> 0 \<le> l \<Longrightarrow> j_status r = JRunning \<Longrightarrow> \<not> j_max r \<le> j_attempts r + 1 \<Longrightarrow>
   row_inv u l (r\<lparr>j_status := JPending, j_attempts := j_attempts r + 1\<rparr>)"
  by (auto simp: row_inv_def open_job_def pend_def)

lemma row_inv_frame [simp]:
  "row_inv u l (r\<lparr>j_started := a\<rparr>) = row_inv u l r" "row_inv u l (r\<lparr>j_completed := b\<rparr>) = row_inv u l r"
  "row_inv u l (r\<lparr>j_error := c\<rparr>) = row_inv u l r" "row_inv u l (r\<lparr>j_result := d\<rparr>) = row_inv u l r"
  "row_inv u l (r\<lparr>j_next_run := e\<rparr>) = row_inv u l r" "row_inv u l (r\<lparr>j_locked_by := f\<rparr>) = row_inv u l r"
  "row_inv u l (r\<lparr>j_locked_at := g\<rparr>) = row_inv u l r"
  by (simp_all add: row_inv_def open_job_def pend_def)

lemma row_inv_dead:
  "row_inv u l r \<Longrightarrow> j_status r = JRunning \<Longrightarrow> row_inv u l (r\<lparr>j_status := JDead, j_attempts := j_attempts r + 1\<rparr>)"
  by (auto simp: row_inv_def open_job_def pend_def)

text \<open>An update of rows that keeps their identity keeps the invariant if it does so row by row.\<close>

lemma fleet_inv_update:
  assumes inv: "fleet_inv s"
    and jobs: "jobs (queue s') = update_where P f (jobs (queue s))" "next_job (queue s') = next_job (queue s)"
    and f: "\<And>r. j_id (f r) = j_id r" "\<And>r. j_max (f r) = j_max r"
    and snaps: "\<And>snap b. (snap, b) \<in># inflight s' \<Longrightarrow> 0 \<le> j_attempts snap \<and>
      (\<exists>r\<in>set (jobs (queue s)). j_id r = j_id snap \<and> j_max r = j_max snap)"
    and runs: "\<And>i. i \<in> set (runs s') \<Longrightarrow> \<exists>r\<in>set (jobs (queue s)). j_id r = i"
    and rows: "\<And>r. r \<in> set (jobs (queue s)) \<Longrightarrow>
      row_inv (used (j_id r) s') (retriers (j_id r) s') (if P r then f r else r)"
  shows "fleet_inv s'"
proof -
  have set': "set (jobs (queue s')) = (\<lambda>r. if P r then f r else r) ` set (jobs (queue s))"
    by (simp add: jobs update_where_def)
  have id: "j_id (if P r then f r else r) = j_id r" "j_max (if P r then f r else r) = j_max r" for r
    using f by simp_all
  have "distinct (map j_id (jobs (queue s')))" using inv f(1) by (simp add: jobs fleet_inv_def)
  moreover have "\<forall>r\<in>set (jobs (queue s')). j_id r < next_job (queue s') \<and>
      row_inv (used (j_id r) s') (retriers (j_id r) s') r"
  proof
    fix r' assume "r' \<in> set (jobs (queue s'))"
    then obtain r where r: "r \<in> set (jobs (queue s))" and r': "r' = (if P r then f r else r)"
      unfolding set' by blast
    have "j_id r' = j_id r" using id unfolding r' by blast
    then show "j_id r' < next_job (queue s') \<and> row_inv (used (j_id r') s') (retriers (j_id r') s') r'"
      using rows[OF r] inv r unfolding r'[symmetric] fleet_inv_def jobs(2) by simp
  qed
  moreover have "\<exists>r'\<in>set (jobs (queue s')). j_id r' = i \<and> j_max r' = m"
    if "r \<in> set (jobs (queue s))" "j_id r = i" "j_max r = m" for r i m
    using that id unfolding set' by blast
  then have "\<forall>snap b. (snap, b) \<in># inflight s' \<longrightarrow> 0 \<le> j_attempts snap \<and>
      (\<exists>r\<in>set (jobs (queue s')). j_id r = j_id snap \<and> j_max r = j_max snap)"
    and "\<forall>i\<in>set (runs s'). \<exists>r\<in>set (jobs (queue s')). j_id r = i"
    using snaps runs by (blast, blast)
  ultimately show ?thesis unfolding fleet_inv_def by blast
qed

lemma fleet_invD:
  assumes "fleet_inv s"
  shows "distinct (map j_id (jobs (queue s)))"
    and "r \<in> set (jobs (queue s)) \<Longrightarrow> row_inv (used (j_id r) s) (retriers (j_id r) s) r"
    and "(snap, b) \<in># inflight s \<Longrightarrow> 0 \<le> j_attempts snap \<and>
      (\<exists>r\<in>set (jobs (queue s)). j_id r = j_id snap \<and> j_max r = j_max snap)"
    and "i \<in> set (runs s) \<Longrightarrow> \<exists>r\<in>set (jobs (queue s)). j_id r = i"
  using assms unfolding fleet_inv_def by blast+

lemma update_where_none: "update_where (\<lambda>r. False) f rows = rows"
  by (simp add: update_where_def)

lemma on_job_jobs: "jobs (on_job i g f q) = update_where (\<lambda>r. j_id r = i \<and> g r) f (jobs q)"
  "next_job (on_job i g f q) = next_job q"
  by (simp_all add: on_job_def)

text \<open>The counts after an entry has left or joined.\<close>

lemma waiting_minus:
  "(snap, b) \<in># inflight s \<Longrightarrow> waiting i (s\<lparr>inflight := inflight s - {#(snap, b)#}\<rparr>) =
     waiting i s - (if j_id snap = i \<and> \<not> b then 1 else 0)"
  unfolding waiting_def by (auto dest!: multi_member_split)

lemma retriers_minus:
  "(snap, b) \<in># inflight s \<Longrightarrow> retriers i (s\<lparr>inflight := inflight s - {#(snap, b)#}\<rparr>) =
     retriers i s - (if j_id snap = i \<and> j_attempts snap + 1 < j_max snap then 1 else 0)"
  unfolding retriers_def by (auto dest!: multi_member_split)

lemma count_simps [simp]:
  "waiting i (s\<lparr>queue := q\<rparr>) = waiting i s" "retriers i (s\<lparr>queue := q\<rparr>) = retriers i s"
  "calls i (s\<lparr>queue := q\<rparr>) = calls i s" "calls i (s\<lparr>inflight := m\<rparr>) = calls i s"
  "waiting i (s\<lparr>runs := x\<rparr>) = waiting i s" "retriers i (s\<lparr>runs := x\<rparr>) = retriers i s"
  "calls i (s\<lparr>runs := j # runs s\<rparr>) = calls i s + (if j = i then 1 else 0)"
  "used i (s\<lparr>queue := q\<rparr>) = used i s"
  "0 \<le> retriers i s" "0 \<le> waiting i s" "0 \<le> calls i s"
  by (simp_all add: waiting_def retriers_def calls_def used_def)

lemma fleet_inv_crash:
  assumes inv: "fleet_inv s"
  shows "fleet_inv (s\<lparr>inflight := inflight s - {#(snap, b)#}\<rparr>)"
proof (cases "(snap, b) \<in># inflight s")
  case True
  show ?thesis
  proof (rule fleet_inv_update[OF inv, of _ "\<lambda>r. False" id])
    fix r assume "r \<in> set (jobs (queue s))"
    from fleet_invD(2)[OF inv this] show "row_inv (used (j_id r) (s\<lparr>inflight := inflight s - {#(snap, b)#}\<rparr>))
        (retriers (j_id r) (s\<lparr>inflight := inflight s - {#(snap, b)#}\<rparr>)) (if False then id r else r)"
      by (rule_tac row_inv_less) (auto simp: used_def waiting_minus[OF True] retriers_minus[OF True])
  qed (use fleet_invD[OF inv] in \<open>auto simp: update_where_none dest: in_diffD\<close>)
next
  case False
  then have "inflight s - {#(snap, b)#} = inflight s" by (simp add: diff_single_trivial)
  then show ?thesis using inv by simp
qed

lemma fleet_inv_enqueue:
  assumes inv: "fleet_inv s"
  shows "fleet_inv (s\<lparr>queue := snd (enqueue now task pl prio m delay (queue s))\<rparr>)"
proof -
  have fresh: "j_id r \<noteq> next_job (queue s)" if "r \<in> set (jobs (queue s))" for r
    using inv that by (auto simp: fleet_inv_def)
  have "count_list (runs s) (next_job (queue s)) = 0"
    using fleet_invD(4)[OF inv] fresh by (metis count_list_0_iff)
  moreover have "j_id r \<noteq> next_job (queue s)" if "(r, b) \<in># inflight s" for r b
    using fleet_invD(3)[OF inv that] fresh by fastforce
  ultimately have zero: "used (next_job (queue s)) s = 0" "retriers (next_job (queue s)) s = 0"
    by (auto simp: used_def calls_def waiting_def retriers_def)
  show ?thesis using inv fresh zero
    unfolding fleet_inv_def enqueue_def used_def
    by (auto simp: row_inv_def open_job_def pend_def)
qed

lemma fleet_inv_mark_running:
  assumes inv: "fleet_inv s"
  shows "fleet_inv (s\<lparr>queue := mark_running now i (queue s)\<rparr>)"
proof (rule fleet_inv_update[OF inv])
  show "jobs (queue (s\<lparr>queue := mark_running now i (queue s)\<rparr>)) = update_where
     (\<lambda>r. j_id r = i \<and> j_status r = JPending) (\<lambda>r. r\<lparr>j_status := JRunning, j_started := Some now\<rparr>) (jobs (queue s))"
    by (simp add: mark_running_def on_job_jobs)
  show "row_inv (used (j_id r) (s\<lparr>queue := mark_running now i (queue s)\<rparr>))
      (retriers (j_id r) (s\<lparr>queue := mark_running now i (queue s)\<rparr>))
      (if j_id r = i \<and> j_status r = JPending then r\<lparr>j_status := JRunning, j_started := Some now\<rparr> else r)"
    if "r \<in> set (jobs (queue s))" for r
    using fleet_invD(2)[OF inv that] row_inv_run[of "used (j_id r) s" "retriers (j_id r) s" r]
    by (auto simp: used_def)
qed (use fleet_invD[OF inv] in \<open>auto simp: mark_running_def on_job_jobs\<close>)

lemma fleet_inv_begin:
  assumes inv: "fleet_inv s" and m: "(snap, False) \<in># inflight s"
  shows "fleet_inv (s\<lparr>inflight := inflight s - {#(snap, False)#} + {#(snap, True)#}, runs := j_id snap # runs s\<rparr>)"
    (is "fleet_inv ?s")
proof (rule fleet_inv_update[OF inv, of _ "\<lambda>r. False" id])
  obtain M where M: "inflight s = add_mset (snap, False) M" using m by (meson multi_member_split)
  have "used i ?s = used i s" "retriers i ?s = retriers i s" for i
    by (simp_all add: used_def calls_def waiting_def retriers_def M)
  then show "row_inv (used (j_id r) ?s) (retriers (j_id r) ?s) (if False then id r else r)"
    if "r \<in> set (jobs (queue s))" for r using fleet_invD(2)[OF inv that] by simp
  have "\<exists>r\<in>set (jobs (queue s)). j_id r = j_id snap" using fleet_invD(3)[OF inv m] by blast
  then show "\<exists>r\<in>set (jobs (queue s)). j_id r = i" if "i \<in> set (runs ?s)" for i
    using that fleet_invD(4)[OF inv] by auto
qed (use fleet_invD(3)[OF inv] m in \<open>auto simp: update_where_none dest: in_diffD\<close>)

lemma fleet_inv_settle:
  assumes inv: "fleet_inv s" and m: "(snap, True) \<in># inflight s"
  shows "fleet_inv (s\<lparr>queue := settle_job txt now snap r (queue s), inflight := inflight s - {#(snap, True)#}\<rparr>)"
    (is "fleet_inv ?s")
proof -
  define f :: "job \<Rightarrow> job" where "f = (case r of
      Inr v \<Rightarrow> (\<lambda>x. x\<lparr>j_status := JCompleted, j_completed := Some now, j_result := Some v\<rparr>)
    | Inl e \<Rightarrow> if j_max snap \<le> j_attempts snap + 1
        then (\<lambda>x. x\<lparr>j_status := JDead, j_completed := Some now, j_error := Some (safe_error txt e)\<rparr>)
        else (\<lambda>x. x\<lparr>j_status := JPending, j_attempts := j_attempts x + 1,
                j_next_run := now + us_of_minutes (j_attempts x + 1)\<rparr>))"
  have q: "settle_job txt now snap r (queue s) = on_job (j_id snap) (\<lambda>x. j_status x = JRunning) f (queue s)"
    by (simp add: settle_job_def f_def mark_completed_def mark_dead_def mark_retry_def split: sum.split)
  have id: "j_id (f x) = j_id x" "j_max (f x) = j_max x" for x by (auto simp: f_def split: sum.split)
  show ?thesis
  proof (rule fleet_inv_update[OF inv _ _ id])
    show "jobs (queue ?s) = update_where (\<lambda>x. j_id x = j_id snap \<and> j_status x = JRunning) f (jobs (queue s))"
      by (simp add: q on_job_jobs)
    fix x assume x: "x \<in> set (jobs (queue s))"
    have row: "row_inv (used (j_id x) s) (retriers (j_id x) s) x" using fleet_invD(2)[OF inv x] .
    have u: "used (j_id x) ?s = used (j_id x) s"
      using waiting_minus[OF m, of "j_id x"] by (simp add: used_def waiting_def calls_def)
    have l: "retriers (j_id x) ?s = retriers (j_id x) s -
        (if j_id snap = j_id x \<and> j_attempts snap + 1 < j_max snap then 1 else 0)"
      using retriers_minus[OF m, of "j_id x"] by (simp add: retriers_def)
    show "row_inv (used (j_id x) ?s) (retriers (j_id x) ?s) (if j_id x = j_id snap \<and> j_status x = JRunning then f x else x)"
    proof (cases "j_id x = j_id snap \<and> j_status x = JRunning")
      case False
      show ?thesis using row_inv_less[OF row, of "used (j_id x) ?s" "retriers (j_id x) ?s"] False u l by auto
    next
      case True
      show ?thesis
      proof (cases "isl r \<and> j_attempts snap + 1 < j_max snap")
        case True
        note retry = this
        have "row_inv (used (j_id x) ?s) (retriers (j_id x) ?s)
            (x\<lparr>j_status := JPending, j_attempts := j_attempts x + 1\<rparr>)"
          by (rule row_inv_retry) (use row u l retry \<open>j_id x = j_id snap \<and> j_status x = JRunning\<close> in
            \<open>auto simp: retriers_def\<close>)
        then show ?thesis using retry \<open>j_id x = j_id snap \<and> j_status x = JRunning\<close>
          by (auto simp: f_def split: sum.splits)
      next
        case dead: False
        have "row_inv (used (j_id x) ?s) (retriers (j_id x) ?s) (x\<lparr>j_status := st\<rparr>)"
          if "st \<in> {JCompleted, JDead}" for st
          using row_inv_close[OF _ _ row, of st] that by (auto simp: u)
        from this[of JCompleted] this[of JDead] show ?thesis using dead True
          by (auto simp: f_def split: sum.splits)
      qed
    qed
  qed (use fleet_invD[OF inv] in \<open>auto simp: q on_job_jobs dest: in_diffD\<close>)
qed

lemma fleet_inv_stale:
  assumes inv: "fleet_inv s"
  shows "fleet_inv (s\<lparr>queue := snd (requeue_stale now (queue s))\<rparr>)"
proof (rule fleet_inv_update[OF inv, of _ "is_stale now" "requeue_row now"])
  show "row_inv (used (j_id r) (s\<lparr>queue := snd (requeue_stale now (queue s))\<rparr>))
      (retriers (j_id r) (s\<lparr>queue := snd (requeue_stale now (queue s))\<rparr>))
      (if is_stale now r then requeue_row now r else r)"
    if "r \<in> set (jobs (queue s))" for r
    using fleet_invD(2)[OF inv that] row_inv_dead[of "used (j_id r) s" "retriers (j_id r) s" r]
      row_inv_stale[of "used (j_id r) s" "retriers (j_id r) s" r]
    by (auto simp: is_stale_def requeue_row_def Let_def)
qed (use fleet_invD[OF inv] in \<open>auto simp: requeue_stale_def requeue_row_def Let_def\<close>)

lemma claimable_rows:
  assumes "distinct (map j_id (jobs q))"
  shows "set (claimable now n q) \<subseteq> {r \<in> set (jobs q). due now r}" and "distinct (map j_id (claimable now n q))"
proof -
  let ?rows = "sort_key (\<lambda>r. - j_priority r) (sort_key j_created (filter (due now) (jobs q)))"
  have "set ?rows = {r \<in> set (jobs q). due now r}" by auto
  then show "set (claimable now n q) \<subseteq> {r \<in> set (jobs q). due now r}"
    unfolding claimable_def by (metis set_take_subset)
  have "mset (map j_id ?rows) = mset (map j_id (filter (due now) (jobs q)))" by simp
  moreover have "distinct (map j_id (filter (due now) (jobs q)))" using assms by (simp add: distinct_map_filter)
  ultimately have "distinct (map j_id ?rows)" by (metis mset_eq_imp_distinct_iff)
  then show "distinct (map j_id (claimable now n q))" unfolding claimable_def take_map[symmetric] by simp
qed

lemma size_filter_one:
  "distinct (map j_id rows) \<Longrightarrow> size (filter_mset (\<lambda>x. j_id x = i \<and> P x) (mset rows)) =
     (if \<exists>x\<in>set rows. j_id x = i \<and> P x then 1 else 0)"
proof (induction rows)
  case (Cons a rows)
  then have ih: "size (filter_mset (\<lambda>x. j_id x = i \<and> P x) (mset rows)) =
      (if \<exists>x\<in>set rows. j_id x = i \<and> P x then 1 else 0)" by simp
  show ?case
  proof (cases "j_id a = i \<and> P a")
    case True
    then have "\<not> (\<exists>x\<in>set rows. j_id x = i \<and> P x)" using Cons.prems by (auto simp: image_iff)
    then show ?thesis using True ih by simp
  qed (use ih in auto)
qed simp

lemma fleet_inv_claim:
  assumes inv: "fleet_inv s" and c: "claim_jobs now w n (queue s) = (rows, q)"
  shows "fleet_inv (s\<lparr>queue := q, inflight := inflight s + image_mset (\<lambda>r. (r, False)) (mset rows)\<rparr>)"
    (is "fleet_inv ?s")
proof -
  have rows: "rows = claimable now n (queue s)"
    and q: "q = (queue s)\<lparr>jobs := update_where (\<lambda>r. j_id r \<in> j_id ` set rows) (claim_row now w) (jobs (queue s))\<rparr>"
    using c by (auto simp: claim_jobs_def Let_def)
  have sub: "r \<in> set (jobs (queue s)) \<and> j_status r = JPending" if "r \<in> set rows" for r
    using claimable_rows(1)[OF fleet_invD(1)[OF inv]] that unfolding rows due_def by blast
  have dist: "distinct (map j_id rows)" unfolding rows by (rule claimable_rows(2)[OF fleet_invD(1)[OF inv]])
  have same: "x = r" if "x \<in> set rows" "r \<in> set (jobs (queue s))" "j_id x = j_id r" for x r
    using sub[OF that(1)] that(2,3) fleet_invD(1)[OF inv] by (auto simp: distinct_map inj_on_def)
  have img: "filter_mset P (image_mset (\<lambda>r. (r, False)) M) = image_mset (\<lambda>r. (r, False)) (filter_mset (\<lambda>r. P (r, False)) M)"
    for P and M :: "job multiset"
    by (induction M) auto
  have u: "used (j_id r) ?s = used (j_id r) s + (if r \<in> set rows then 1 else 0)" if "r \<in> set (jobs (queue s))" for r
    using size_filter_one[OF dist, of "j_id r" "\<lambda>x. True"] same[OF _ that]
    by (auto simp: used_def waiting_def calls_def img)
  have l: "retriers (j_id r) ?s = retriers (j_id r) s +
      (if r \<in> set rows \<and> j_attempts r + 1 < j_max r then 1 else 0)" if "r \<in> set (jobs (queue s))" for r
    using size_filter_one[OF dist, of "j_id r" "\<lambda>x. j_attempts x + 1 < j_max x"] same[OF _ that]
    by (auto simp: retriers_def img)
  show ?thesis
  proof (rule fleet_inv_update[OF inv, of _ "\<lambda>r. j_id r \<in> j_id ` set rows" "claim_row now w"])
    fix r assume r: "r \<in> set (jobs (queue s))"
    have mem: "j_id r \<in> j_id ` set rows \<longleftrightarrow> r \<in> set rows" using same[OF _ r] by force
    show "row_inv (used (j_id r) ?s) (retriers (j_id r) ?s) (if j_id r \<in> j_id ` set rows then claim_row now w r else r)"
      using fleet_invD(2)[OF inv r] sub[of r] row_inv_claim[of "used (j_id r) s" "retriers (j_id r) s" r]
      unfolding mem u[OF r] l[OF r] by (auto simp: claim_row_def split: if_splits)
  next
    fix snap b assume "(snap, b) \<in># inflight ?s"
    then show "0 \<le> j_attempts snap \<and> (\<exists>r\<in>set (jobs (queue s)). j_id r = j_id snap \<and> j_max r = j_max snap)"
      using fleet_invD(3)[OF inv] fleet_invD(2)[OF inv, of snap] sub[of snap] by (auto simp: row_inv_def)
  qed (use fleet_invD(4)[OF inv] in \<open>auto simp: q claim_row_def\<close>)
qed

lemma fleet_inv_step: "fleet_inv s \<Longrightarrow> fleet_inv (fleet_step txt x s)"
proof (cases x)
  case (FBegin now snap handled)
  assume inv: "fleet_inv s"
  show ?thesis
  proof (cases "(snap, False) \<in># inflight s \<and> handled")
    case True
    then show ?thesis using fleet_inv_mark_running[OF fleet_inv_begin[OF inv, of snap], of now "j_id snap"]
      by (cases s) (simp add: FBegin)
  next
    case False
    then show ?thesis using fleet_inv_crash[OF inv, of snap False] inv by (auto simp: FBegin)
  qed
qed (auto simp: fleet_inv_enqueue fleet_inv_claim fleet_inv_settle fleet_inv_crash fleet_inv_stale split: prod.split)

interpretation job_fleet: op_system "fleet_step err_text" fleet_inv for err_text
  by unfold_locales (rule fleet_inv_step)

definition no_jobs :: fleet where
  "no_jobs = \<lparr>queue = \<lparr>jobs = [], next_job = 1\<rparr>, inflight = {#}, runs = []\<rparr>"

text \<open>C17: However the workers interleave, are delayed past the stale limit or crash, the handler of a job
  is called at most \<open>2 * max_attempts - 1\<close> times.\<close>
theorem job_runs_bounded:
  "list_all (\<lambda>r. calls (j_id r) (run (fleet_step txt) ops no_jobs) \<le> 2 * max 1 (j_max r) - 1)
     (jobs (queue (run (fleet_step txt) ops no_jobs)))"
proof -
  have "fleet_inv no_jobs" by (simp add: fleet_inv_def no_jobs_def)
  then have inv: "fleet_inv (run (fleet_step txt) ops no_jobs)" by (rule job_fleet.inv_run)
  have "calls (j_id r) (run (fleet_step txt) ops no_jobs) \<le> 2 * max 1 (j_max r) - 1"
    if "r \<in> set (jobs (queue (run (fleet_step txt) ops no_jobs)))" for r
  proof -
    have "used (j_id r) (run (fleet_step txt) ops no_jobs) + pend r \<le> 2 * max 1 (j_max r) - 1"
      using fleet_invD(2)[OF inv that] by (simp add: row_inv_def)
    moreover have "0 \<le> pend r" by (simp add: pend_def)
    moreover have "0 \<le> waiting (j_id r) (run (fleet_step txt) ops no_jobs)" by simp
    ultimately show ?thesis unfolding used_def by linarith
  qed
  then show ?thesis by (simp add: list_all_iff)
qed

definition slow_workers :: "fleet_op list" where
  "slow_workers =
    (let snap = (\<lambda>a. \<lparr>j_id = 1, j_task = ''t'', j_payload = [], j_status = JPending, j_attempts = a, j_max = 2,
          j_priority = 0, j_next_run = a * 700000000, j_locked_by = None, j_locked_at = None, j_created = 0,
          j_started = (if a = 0 then None else Some 0), j_completed = None, j_error = None, j_result = None\<rparr>)
     in [FEnqueue 0 ''t'' [] 0 2 0, FClaim 0 ''A'' 10, FBegin 0 (snap 0) True, FStale 700000000,
         FClaim 700000000 ''B'' 10, FBegin 700000000 (snap 1) True,
         FFinish 800000000 (snap 0) (Inl (ValueError ''x'')), FClaim 1000000000 ''C'' 10])"

text \<open>The retry limit itself is not kept when a worker outlives the stale limit: it decides between
  retry and death on the attempts it read when it claimed the job, so a job with
  \<open>max_attempts = 2\<close> is claimed a third time with two attempts already used up.\<close>
theorem retry_limit_exceeded:
  "let s = run (fleet_step exc_text) slow_workers no_jobs in
     calls 1 s = 2 \<and> waiting 1 s = 1 \<and> map (\<lambda>r. (j_attempts r, j_max r, j_status r)) (jobs (queue s)) = [(2, 2, JRunning)]"
  by code_simp

section \<open>Every job settles\<close>

definition row_exec :: "(pyexc \<Rightarrow> string) \<Rightarrow> int \<Rightarrow> job \<Rightarrow> handler_outcome \<Rightarrow> job \<Rightarrow> job" where
  "row_exec err_text now snap r x = (case r of
      NoHandler \<Rightarrow> x
    | HandlerReturned v \<Rightarrow>
        let y = (if j_status x = JPending then x\<lparr>j_status := JRunning, j_started := Some now\<rparr> else x)
        in if j_status y = JRunning then y\<lparr>j_status := JCompleted, j_completed := Some now, j_result := Some v\<rparr> else y
    | HandlerRaised e \<Rightarrow>
        let y = (if j_status x = JPending then x\<lparr>j_status := JRunning, j_started := Some now\<rparr> else x)
        in if j_status y = JRunning
           then if j_max snap \<le> j_attempts snap + 1
             then y\<lparr>j_status := JDead, j_completed := Some now, j_error := Some (safe_error err_text e)\<rparr>
             else y\<lparr>j_status := JPending, j_attempts := j_attempts y + 1, j_next_run := now + us_of_minutes (j_attempts y + 1)\<rparr>
           else y)"

lemma row_exec_id [simp]: "j_id (row_exec e now snap r x) = j_id x" "j_max (row_exec e now snap r x) = j_max x"
  by (auto simp: row_exec_def Let_def split: handler_outcome.split)

lemma execute_job_rows:
  "jobs (snd (execute_job e now snap r q)) = map (\<lambda>x. if j_id x = j_id snap then row_exec e now snap r x else x) (jobs q)"
  by (cases r) (auto simp: execute_job_def settle_job_def row_exec_def mark_running_def mark_completed_def mark_dead_def
      mark_retry_def on_job_def update_where_def Let_def cong: if_cong)

lemma execute_all_rows:
  "distinct (map j_id rows) \<Longrightarrow> jobs (execute_all e h now rows q) =
     map (\<lambda>x. case find_row (\<lambda>r. j_id r = j_id x) rows of Some snap \<Rightarrow> row_exec e now snap (h snap) x | None \<Rightarrow> x) (jobs q)"
proof (induction rows arbitrary: q)
  case (Cons a rows)
  have none: "find_row (\<lambda>r. j_id r = j_id a) rows = None" using Cons.prems
    by (simp add: find_row_None) (metis image_eqI)
  have "jobs (execute_all e h now (a # rows) q) =
      jobs (execute_all e h now rows (snd (execute_job e now a (h a) q)))" by (simp add: execute_all_def)
  then show ?case using Cons none by (auto simp: execute_job_rows split: option.split)
qed (simp add: execute_all_def)

definition tick_row :: "(pyexc \<Rightarrow> string) \<Rightarrow> (job \<Rightarrow> handler_outcome) \<Rightarrow> string \<Rightarrow> int \<Rightarrow> job \<Rightarrow> job" where
  "tick_row e h w now r =
     (let r1 = (if is_stale now r then requeue_row now r else r)
      in if due now r1 then row_exec e now r1 (h r1) (claim_row now w r1) else r1)"

text \<open>A batch that covers the queue: a tick works on every row by itself.\<close>

lemma tick_rows:
  assumes d: "distinct (map j_id (jobs q))" and n: "length (jobs q) \<le> n"
  shows "jobs (snd (tick e h w now n q)) = map (tick_row e h w now) (jobs q)"
proof -
  define q1 where "q1 = snd (requeue_stale now q)"
  have q1: "jobs q1 = map (\<lambda>r. if is_stale now r then requeue_row now r else r) (jobs q)"
    by (simp add: q1_def requeue_stale_def update_where_def)
  have d1: "distinct (map j_id (jobs q1))"
    using d by (auto simp: q1 requeue_row_def Let_def comp_def distinct_map inj_on_def)
  define rows where "rows = claimable now n q1"
  have "length (jobs q1) \<le> n" using n by (simp add: q1)
  then have "length (filter (due now) (jobs q1)) \<le> n" using length_filter_le le_trans by blast
  then have set_rows: "set rows = {r \<in> set (jobs q1). due now r}" by (auto simp: rows_def claimable_def)
  have dr: "distinct (map j_id rows)" unfolding rows_def by (rule claimable_rows(2)[OF d1])
  have found: "find_row (\<lambda>r'. j_id r' = j_id r) rows = (if due now r then Some r else None)" if "r \<in> set (jobs q1)" for r
  proof (cases "due now r")
    case True
    then show ?thesis using find_row_unique[OF dr, of r] that set_rows by auto
  next
    case False
    have "j_id r' \<noteq> j_id r" if "r' \<in> set rows" for r'
      using that \<open>r \<in> set (jobs q1)\<close> False set_rows d1 by (auto simp: distinct_map inj_on_def)
    then show ?thesis using False by (auto simp: find_row_None)
  qed
  have mem: "j_id r \<in> j_id ` set rows \<longleftrightarrow> due now r" if "r \<in> set (jobs q1)" for r
    using found[OF that] by (force simp: find_row_None set_rows that split: if_splits)
  have "snd (tick e h w now n q) = execute_all e h now rows
      (q1\<lparr>jobs := update_where (\<lambda>r. j_id r \<in> j_id ` set rows) (claim_row now w) (jobs q1)\<rparr>)"
    by (simp add: tick_def claim_jobs_def rows_def q1_def Let_def)
  then have "jobs (snd (tick e h w now n q)) = map (\<lambda>r. case find_row (\<lambda>r'. j_id r' = j_id r) rows of
        Some snap \<Rightarrow> row_exec e now snap (h snap) (if j_id r \<in> j_id ` set rows then claim_row now w r else r)
      | None \<Rightarrow> (if j_id r \<in> j_id ` set rows then claim_row now w r else r)) (jobs q1)"
    by (auto simp: execute_all_rows[OF dr] update_where_def claim_row_def)
  also have "\<dots> = map (\<lambda>r. if due now r then row_exec e now r (h r) (claim_row now w r) else r) (jobs q1)"
    by (rule map_cong) (auto simp: found mem)
  finally show ?thesis by (simp add: q1 tick_row_def Let_def comp_def)
qed

text \<open>Readiness of an open row at instant \<open>t\<close>, for jobs of at most \<open>M\<close> attempts, and its progress:
  the attempts, plus one while it runs.\<close>

definition ready :: "int \<Rightarrow> int \<Rightarrow> job \<Rightarrow> bool" where
  "ready M t r \<longleftrightarrow> (open_job r \<longrightarrow> j_max r \<le> M \<and> 0 \<le> j_attempts r \<and> j_attempts r < M \<and>
     (j_status r = JPending \<longrightarrow> j_next_run r \<le> t + us_of_minutes M) \<and>
     (j_status r = JRunning \<longrightarrow> (\<exists>u. j_started r = Some u \<and> u \<le> t)))"

definition progress :: "job \<Rightarrow> int" where
  "progress r = j_attempts r + (if j_status r = JRunning then 1 else 0)"

definition tick_gap :: "int \<Rightarrow> int" where "tick_gap M = us_of_minutes (STALE_MINUTES + M + 1)"

lemma tick_row_progress:
  assumes r: "ready M t r" and g: "t + tick_gap M \<le> now" and M: "1 \<le> M"
  shows "ready M now (tick_row e h w now r) \<and> (\<not> open_job r \<longrightarrow> \<not> open_job (tick_row e h w now r)) \<and>
    (open_job (tick_row e h w now r) \<longrightarrow> progress r + 1 \<le> progress (tick_row e h w now r))"
proof (cases "j_status r")
  case JRunning
  then have stale: "is_stale now r" using r g M
    by (auto simp: ready_def is_stale_def open_job_def tick_gap_def us_of_minutes_def STALE_MINUTES_def)
  show ?thesis
  proof (cases "j_max r \<le> j_attempts r + 1")
    case True
    then show ?thesis using stale r JRunning
      by (simp add: tick_row_def requeue_row_def due_def ready_def open_job_def)
  next
    case False
    then show ?thesis using stale r JRunning
      by (cases "h (requeue_row now r)")
        (auto simp: tick_row_def requeue_row_def due_def ready_def open_job_def row_exec_def claim_row_def progress_def
          us_of_minutes_def Let_def)
  qed
next
  case JPending
  then have "due now r" and "\<not> is_stale now r" using r g M
    by (auto simp: ready_def due_def is_stale_def open_job_def tick_gap_def us_of_minutes_def STALE_MINUTES_def)
  then show ?thesis using r JPending
    by (cases "h r") (auto simp: tick_row_def due_def ready_def open_job_def row_exec_def claim_row_def progress_def
        us_of_minutes_def Let_def)
qed (use r in \<open>auto simp: tick_row_def is_stale_def due_def ready_def open_job_def\<close>)

fun spaced :: "int \<Rightarrow> int \<Rightarrow> int list \<Rightarrow> bool" where
  "spaced g t [] = True"
| "spaced g t (x # xs) = (t + g \<le> x \<and> spaced g x xs)"

definition ticks ::
  "(pyexc \<Rightarrow> string) \<Rightarrow> (int \<Rightarrow> job \<Rightarrow> handler_outcome) \<Rightarrow> string \<Rightarrow> nat \<Rightarrow> int list \<Rightarrow> job_queue \<Rightarrow> job_queue" where
  "ticks e h w n ts q = run (\<lambda>t q. snd (tick e (h t) w t n q)) ts q"

lemma ticks_settle:
  assumes "distinct (map j_id (jobs q))" and "length (jobs q) \<le> n" and "1 \<le> M"
    and "\<forall>r\<in>set (jobs q). ready M t r \<and> (open_job r \<longrightarrow> M + 1 \<le> progress r + int (length ts))"
    and "spaced (tick_gap M) t ts"
  shows "\<forall>r\<in>set (jobs (ticks e h w n ts q)). \<not> open_job r"
  using assms
proof (induction ts arbitrary: t q)
  case Nil
  then have "\<not> open_job r" if "r \<in> set (jobs q)" for r
    using that by (fastforce simp: ready_def progress_def open_job_def split: if_splits)
  then show ?case by (simp add: ticks_def)
next
  case (Cons x ts)
  let ?q = "snd (tick e (h x) w x n q)"
  have rows: "jobs ?q = map (tick_row e (h x) w x) (jobs q)" by (rule tick_rows[OF Cons.prems(1,2)])
  have id: "j_id (tick_row e (h x) w x r) = j_id r" for r
    by (simp add: tick_row_def requeue_row_def claim_row_def Let_def)
  have "distinct (map j_id (jobs ?q))" using Cons.prems(1) by (simp add: rows comp_def id)
  moreover have "length (jobs ?q) \<le> n" using Cons.prems(2) by (simp add: rows)
  moreover have "ready M x r' \<and> (open_job r' \<longrightarrow> M + 1 \<le> progress r' + int (length ts))" if mem: "r' \<in> set (jobs ?q)" for r'
  proof -
    obtain r where r: "r \<in> set (jobs q)" "r' = tick_row e (h x) w x r" 
      using mem unfolding rows set_map by blast
    have "t + tick_gap M \<le> x" using Cons.prems(5) by simp
    then show ?thesis using tick_row_progress[of M t r x e "h x" w] Cons.prems(3,4) r by fastforce
  qed
  ultimately have "\<forall>r\<in>set (jobs (ticks e h w n ts ?q)). \<not> open_job r"
    using Cons.IH[of ?q x] Cons.prems(3,5) by simp
  then show ?case by (simp add: ticks_def)
qed

text \<open>C18: With one worker at the queue and nothing enqueued in between, every open job settles.  The queue
  may hold settled jobs, pending jobs with fewer than \<open>M\<close> attempts that are due at most \<open>M\<close>
  minutes after \<open>t\<close>, and running jobs that a dead worker left behind at some time up to \<open>t\<close>; an open
  job may take at most \<open>M\<close> attempts.  Whatever the handler of a job does at each call (return, raise, be
  missing), after \<open>M + 1\<close> ticks that are at least the stale time and \<open>M + 1\<close> minutes apart and whose
  batch covers the queue, every job is completed, dead or failed: none is pending or running.\<close>
theorem every_job_settles:
  assumes "distinct (map j_id (jobs q))" and "length (jobs q) \<le> n" and "1 \<le> M"
    and "\<forall>r\<in>set (jobs q). (j_status r = JPending \<or> j_status r = JRunning) \<longrightarrow>
      j_max r \<le> M \<and> 0 \<le> j_attempts r \<and> j_attempts r < M"
    and "\<forall>r\<in>set (jobs q). j_status r = JPending \<longrightarrow> j_next_run r \<le> t + us_of_minutes M"
    and "\<forall>r\<in>set (jobs q). j_status r = JRunning \<longrightarrow> (\<exists>u. j_started r = Some u \<and> u \<le> t)"
    and "spaced (tick_gap M) t ts" and "nat M + 1 \<le> length ts"
  shows "\<forall>r\<in>set (jobs (ticks err_text handler worker n ts q)).
    j_status r \<noteq> JPending \<and> j_status r \<noteq> JRunning"
proof -
  have "\<forall>r\<in>set (jobs q). ready M t r \<and> (open_job r \<longrightarrow> M + 1 \<le> progress r + int (length ts))"
    using assms(3-6,8) by (fastforce simp: ready_def progress_def open_job_def)
  from ticks_settle[OF assms(1-3) this assms(7)] show ?thesis by (simp add: open_job_def)
qed

theorem every_job_settles_witness:
  "j_status (hd (jobs (ticks exc_text (\<lambda>t r. HandlerRaised (ValueError ''x'')) ''w'' 10
     (map (\<lambda>k. k * tick_gap 2) [1, 2, 3]) (snd (enqueue 0 ''t'' [] 0 2 0 \<lparr>jobs = [], next_job = 1\<rparr>))))) = JDead"
  (is "j_status (hd (jobs ?q)) = _")
proof -
  have "\<forall>r\<in>set (jobs ?q). j_status r \<noteq> JPending \<and> j_status r \<noteq> JRunning"
    by (rule every_job_settles[of _ _ 2 0]) (simp_all add: enqueue_def tick_gap_def us_of_minutes_def STALE_MINUTES_def)
  moreover have "j_status (hd (jobs ?q)) = JDead" by code_simp
  ultimately show ?thesis by simp
qed

end
