(* ===== verification/Etl.thy ===== *)
theory Etl
  imports Helpers "HOL-Library.List_Lexorder"
begin

text \<open>The star-schema build (\<open>app/database/etl.py\<close>).  Dates are proleptic ordinals
  (\<open>date.toordinal\<close>); a table is the list of its rows, a serial key the next value of its
  sequence.  The operational tables are read only.  The stages commit one by one, and a stage that
  fails leaves the state of the last commit; where a failure strikes is an argument.  The warehouse
  layer (the stored procedure \<open>etl_full_build\<close>) is a parameter of which only success or
  failure reaches the summary.\<close>

section \<open>Tables\<close>

record etl_product =
  ep_id :: int
  ep_sku :: string
  ep_name :: string
  ep_category :: "string option"
  ep_supplier :: "int option"
  ep_price :: real
  ep_stock :: int
  ep_reorder :: int
  ep_warehouse :: "string option"

record etl_movement =
  em_id :: int
  em_product :: int
  em_type :: string
  em_qty :: int
  em_day :: int
  em_deleted :: bool

record etl_supplier =
  es_id :: int
  es_name :: string
  es_location :: "string option"
  es_reliability :: real
  es_lead :: int

record dim_date =
  dd_key :: int
  dd_year :: int
  dd_quarter :: int
  dd_month :: int
  dd_month_name :: string
  dd_day :: int
  dd_weekday :: int
  dd_week :: int
  dd_weekend :: bool

record dim_wh =
  dw_key :: int
  dw_code :: string
  dw_name :: string
  dw_city :: string
  dw_region :: string

record dim_prod =
  dp_key :: int
  dp_sku :: string
  dp_name :: string
  dp_category :: "string option"
  dp_supplier :: "int option"
  dp_price :: real

record fact_movement =
  fm_day :: int
  fm_wh :: int
  fm_prod :: int
  fm_in :: int
  fm_out :: int
  fm_net :: int
  fm_in_value :: real
  fm_out_value :: real

record fact_inventory =
  fi_day :: int
  fi_wh :: int
  fi_prod :: int
  fi_stock :: real
  fi_reorder :: real
  fi_value :: real

record etl_db =
  e_products :: "etl_product list"
  e_movements :: "etl_movement list"
  e_suppliers :: "etl_supplier list"
  e_dates :: "dim_date list"
  e_whs :: "dim_wh list"
  e_next_wh :: int
  e_prods :: "dim_prod list"
  e_next_prod :: int
  e_sups :: "etl_supplier list"
  e_mfacts :: "fact_movement list"
  e_ifacts :: "fact_inventory list"
  e_state :: "(string \<times> string) list"
  e_wh_state :: "(string \<times> string) list"

section \<open>Calendar\<close>

text \<open>Year, month and day of an ordinal (day 1 is 0001-01-01).\<close>

definition civil :: "int \<Rightarrow> int \<times> int \<times> int" where
  "civil n = (let z = n + 305; era = z div 146097; doe = z mod 146097;
      yoe = (doe - doe div 1460 + doe div 36524 - doe div 146096) div 365;
      doy = doe - (365 * yoe + yoe div 4 - yoe div 100);
      mp = (5 * doy + 2) div 153;
      m = (if mp < 10 then mp + 3 else mp - 9)
    in (yoe + era * 400 + (if m \<le> 2 then 1 else 0), m, doy - (153 * mp + 2) div 5 + 1))"

definition leap :: "int \<Rightarrow> bool" where
  "leap y = (y mod 4 = 0 \<and> (y mod 100 \<noteq> 0 \<or> y mod 400 = 0))"

definition year_day :: "int \<times> int \<times> int \<Rightarrow> int" where
  "year_day c = (case c of (y, m, d) \<Rightarrow>
     [0, 31, 59, 90, 120, 151, 181, 212, 243, 273, 304, 334] ! nat (m - 1) + d +
     (if leap y \<and> 2 < m then 1 else 0))"

definition isoweekday :: "int \<Rightarrow> int" where "isoweekday n = (n + 6) mod 7 + 1"

definition month_names :: "string list" where
  "month_names = [''Jan'', ''Feb'', ''Mar'', ''Apr'', ''May'', ''Jun'', ''Jul'', ''Aug'', ''Sep'', ''Oct'',
     ''Nov'', ''Dec'']"

text \<open>The row that the loop of \<open>_build_dim_dates\<close> builds; \<open>%U\<close> counts weeks from the first Sunday.\<close>

definition date_row :: "int \<Rightarrow> dim_date" where
  "date_row n = (case civil n of (y, m, d) \<Rightarrow>
     \<lparr>dd_key = n, dd_year = y, dd_quarter = (m - 1) div 3 + 1, dd_month = m,
      dd_month_name = month_names ! nat (m - 1), dd_day = d, dd_weekday = isoweekday n,
      dd_week = (year_day (y, m, d) - 1 + 7 - isoweekday n mod 7) div 7,
      dd_weekend = (6 \<le> isoweekday n)\<rparr>)"

definition build_dim_dates :: "int \<Rightarrow> int \<Rightarrow> etl_db \<Rightarrow> nat \<times> etl_db" where
  "build_dim_dates start stop db =
     (let existing = map dd_key (filter (\<lambda>r. start \<le> dd_key r \<and> dd_key r \<le> stop) (e_dates db));
          rows = map date_row (filter (\<lambda>d. d \<notin> set existing) [start..stop])
      in (length rows, db\<lparr>e_dates := e_dates db @ rows\<rparr>))"

section \<open>Dimensions\<close>

text \<open>\<open>s.split(\" - \", 1)[1]\<close> when the separator occurs.\<close>

fun after_dash :: "string \<Rightarrow> string option" where
  "after_dash [] = None"
| "after_dash (c # s) = (if startswith (c # s) '' - '' then Some (drop 3 (c # s)) else after_dash s)"

definition region_hint :: "string \<Rightarrow> string" where
  "region_hint city = (case map_of [(''Pune'', ''Central''), (''Mumbai'', ''West''), (''Delhi'', ''North''),
      (''Bengaluru'', ''South''), (''Chennai'', ''South'')] city of Some r \<Rightarrow> r | None \<Rightarrow> ''General'')"

definition parse_warehouse :: "string \<Rightarrow> string \<times> string \<times> string" where
  "parse_warehouse name =
     (let body = (case after_dash name of Some b \<Rightarrow> strip b | None \<Rightarrow> name);
          unknown = (\<lambda>s. if s = [] then ''Unknown'' else s);
          city = (if startswith body ''WH-'' then unknown (strip (drop 3 body)) else unknown body);
          ds = filter is_digit name;
          digits = (if ds = [] then ''00'' else ds);
          code = (if startswith name ''WH-'' then ''WH-'' @ upper (take 3 city)
                  else ''WH'' @ zfill 2 (take 2 digits))
      in (code, city, region_hint city))"

text \<open>The loop that makes a code unique: the least suffix from 2 on that is not used.\<close>

definition suffixed :: "string \<Rightarrow> nat \<Rightarrow> string" where "suffixed code n = code @ ''-'' @ nat_str n"

function free_suffix :: "string list \<Rightarrow> string \<Rightarrow> nat \<Rightarrow> nat" where
  "free_suffix used code n = (if suffixed code n \<in> set used then free_suffix used code (Suc n) else n)"
  by auto

lemma suffixed_inj: "suffixed code n = suffixed code m \<longleftrightarrow> n = m"
  unfolding suffixed_def using parse_int_nat_str by (metis append_same_eq of_nat_eq_iff option.inject same_append_eq)

lemma finite_suffixed: "finite {k. n \<le> k \<and> suffixed code k \<in> set used}"
proof -
  have "inj_on (suffixed code) {k. n \<le> k \<and> suffixed code k \<in> set used}"
    by (simp add: inj_on_def suffixed_inj)
  moreover have "suffixed code ` {k. n \<le> k \<and> suffixed code k \<in> set used} \<subseteq> set used" by auto
  ultimately show ?thesis by (meson finite_set inj_on_finite)
qed

termination free_suffix
proof (relation "measure (\<lambda>(used, code, n). card {k. n \<le> k \<and> suffixed code k \<in> set used})")
  fix used code n assume "suffixed code n \<in> set used"
  then have n: "n \<in> {k. n \<le> k \<and> suffixed code k \<in> set used}" by simp
  have "{k. Suc n \<le> k \<and> suffixed code k \<in> set used} \<subset> {k. n \<le> k \<and> suffixed code k \<in> set used}"
  proof (rule psubsetI)
    show "{k. Suc n \<le> k \<and> suffixed code k \<in> set used} \<noteq> {k. n \<le> k \<and> suffixed code k \<in> set used}"
    proof
      assume "{k. Suc n \<le> k \<and> suffixed code k \<in> set used} = {k. n \<le> k \<and> suffixed code k \<in> set used}"
      then have "n \<in> {k. Suc n \<le> k \<and> suffixed code k \<in> set used}" using n by (rule ssubst)
      then show False by simp
    qed
  qed auto
  then have "card {k. Suc n \<le> k \<and> suffixed code k \<in> set used} < card {k. n \<le> k \<and> suffixed code k \<in> set used}"
    by (rule psubset_card_mono[OF finite_suffixed])
  then show "((used, code, Suc n), used, code, n) \<in>
      measure (\<lambda>(used, code, n). card {k. n \<le> k \<and> suffixed code k \<in> set used})" by simp
qed simp

declare free_suffix.simps [simp del]

lemma free_suffix_free: "n \<le> free_suffix used code n \<and> suffixed code (free_suffix used code n) \<notin> set used"
proof (induction used code n rule: free_suffix.induct)
  case (1 used code n)
  then show ?case by (subst (1 2) free_suffix.simps) (auto simp: Suc_le_eq)
qed

definition unique_code :: "string list \<Rightarrow> string \<Rightarrow> string" where
  "unique_code used code = (if code \<in> set used then suffixed code (free_suffix used code 2) else code)"

text \<open>New warehouse rows for the names that have no key yet.  The names are stripped one by one, and
  \<open>known\<close> is not extended by the loop.\<close>

fun new_warehouses :: "string list \<Rightarrow> string list \<Rightarrow> string list \<Rightarrow> (string \<times> string \<times> string \<times> string) list" where
  "new_warehouses known used [] = []"
| "new_warehouses known used (name # names) =
     (if name \<in> set known then new_warehouses known used names
      else (case parse_warehouse name of (c, city, region) \<Rightarrow>
        let code = unique_code used c
        in (code, name, city, region) # new_warehouses known (used @ [code]) names))"

text \<open>\<open>SELECT DISTINCT warehouse ... ORDER BY warehouse\<close> of the non-blank names, stripped.\<close>

definition warehouse_names :: "etl_product list \<Rightarrow> string list" where
  "warehouse_names ps = map strip (sort_key (map code_of)
     (remdups (filter (\<lambda>w. dropWhile (\<lambda>c. c = CHR '' '') w \<noteq> []) (List.map_filter ep_warehouse ps))))"

definition insert_warehouses ::
  "(string \<times> string \<times> string \<times> string) list \<Rightarrow> etl_db \<Rightarrow> unit result \<times> etl_db" where
  "insert_warehouses rows db =
     (if list_ex (\<lambda>(code, name, city, region). 12 < length code \<or> 120 < length name \<or> 60 < length city) rows
      then (Err (OtherExc ''value too long for type character varying''), db)
      else if \<not> distinct (map dw_code (e_whs db) @ map fst rows)
      then (Err (DbUnique ''dim_warehouse_warehouse_code_key''), db)
      else if \<not> distinct (map dw_name (e_whs db) @ map (fst \<circ> snd) rows)
      then (Err (DbUnique ''dim_warehouse_warehouse_name_key''), db)
      else (Ok (), db\<lparr>e_next_wh := e_next_wh db + int (length rows),
        e_whs := e_whs db @ map (\<lambda>(i, code, name, city, region). \<lparr>dw_key = e_next_wh db + int i, dw_code = code,
          dw_name = name, dw_city = city, dw_region = region\<rparr>) (enumerate 0 rows)\<rparr>))"

definition insert_products :: "etl_product list \<Rightarrow> etl_db \<Rightarrow> etl_db" where
  "insert_products rows db = db\<lparr>e_next_prod := e_next_prod db + int (length rows),
     e_prods := e_prods db @ map (\<lambda>(i, p). \<lparr>dp_key = e_next_prod db + int i, dp_sku = ep_sku p, dp_name = ep_name p,
       dp_category = ep_category p, dp_supplier = ep_supplier p, dp_price = ep_price p\<rparr>) (enumerate 0 rows)\<rparr>"

definition build_dims :: "etl_db \<Rightarrow> (nat \<times> nat \<times> nat) result \<times> etl_db" where
  "build_dims db =
     (let new_wh = new_warehouses (map dw_name (e_whs db)) (map dw_code (e_whs db)) (warehouse_names (e_products db))
      in case insert_warehouses new_wh db of
        (Inl e, db1) \<Rightarrow> (Inl e, db1)
      | (Inr _, db1) \<Rightarrow>
          let new_prod = filter (\<lambda>p. ep_sku p \<notin> set (map dp_sku (e_prods db1))) (e_products db1);
              db2 = insert_products new_prod db1;
              new_sup = filter (\<lambda>s. es_id s \<notin> set (map es_id (e_sups db2))) (e_suppliers db2)
          in (Ok (length new_wh, length new_prod, length new_sup), db2\<lparr>e_sups := e_sups db2 @ new_sup\<rparr>))"

lemma unique_code_fresh: "unique_code used code \<notin> set used"
  using free_suffix_free[of 2 used code] by (simp add: unique_code_def)

lemma new_warehouses_codes:
  "distinct used \<Longrightarrow> distinct (used @ map fst (new_warehouses known used names))"
proof (induction names arbitrary: used)
  case (Cons name names)
  obtain c city region where p: "parse_warehouse name = (c, city, region)" by (cases "parse_warehouse name")
  have "distinct (used @ [unique_code used c])" using Cons.prems unique_code_fresh[of used c] by simp
  then show ?case using Cons.IH[of "used @ [unique_code used c]"] Cons.IH[OF Cons.prems]
    by (simp add: p Let_def)
qed simp

lemma new_warehouses_names:
  "map (fst \<circ> snd) (new_warehouses known used names) = filter (\<lambda>n. n \<notin> set known) names"
  by (induction names arbitrary: used) (auto simp: Let_def split: prod.split)

section \<open>Facts\<close>

definition signed :: "etl_movement \<Rightarrow> int" where
  "signed m = (if em_type m = ''IN'' then em_qty m else if em_type m = ''OUT'' then - em_qty m else 0)"

text \<open>The joined rows of the movement query: day, warehouse key, product key, price and movement.\<close>

definition joined :: "int \<Rightarrow> int \<Rightarrow> etl_db \<Rightarrow> ((int \<times> int \<times> int) \<times> real \<times> etl_movement) list" where
  "joined start stop db = concat (map (\<lambda>m. concat (map (\<lambda>p. concat (map (\<lambda>dp.
      map (\<lambda>dw. ((em_day m, dw_key dw, dp_key dp), dp_price dp, m))
        (filter (\<lambda>dw. Some (dw_name dw) = ep_warehouse p) (e_whs db)))
      (filter (\<lambda>dp. dp_sku dp = ep_sku p) (e_prods db))))
      (filter (\<lambda>p. ep_id p = em_product m) (e_products db))))
    (filter (\<lambda>m. start \<le> em_day m \<and> em_day m \<le> stop \<and> \<not> em_deleted m) (e_movements db)))"

definition group_fact :: "((int \<times> int \<times> int) \<times> real \<times> etl_movement) list \<Rightarrow> int \<times> int \<times> int \<Rightarrow> fact_movement" where
  "group_fact rows k = (case k of (day, wh, pk) \<Rightarrow>
     let g = map snd (filter (\<lambda>r. fst r = k) rows);
         qty = (\<lambda>ty m. if em_type m = ty then em_qty m else 0)
     in \<lparr>fm_day = day, fm_wh = wh, fm_prod = pk,
        fm_in = sum_list (map (\<lambda>(pr, m). qty ''IN'' m) g),
        fm_out = sum_list (map (\<lambda>(pr, m). qty ''OUT'' m) g),
        fm_net = sum_list (map (\<lambda>(pr, m). signed m) g),
        fm_in_value = sum_list (map (\<lambda>(pr, m). real_of_int (qty ''IN'' m) * pr) g),
        fm_out_value = sum_list (map (\<lambda>(pr, m). real_of_int (qty ''OUT'' m) * pr) g)\<rparr>)"

definition fact_key :: "fact_movement \<Rightarrow> int \<times> int \<times> int" where
  "fact_key f = (fm_day f, fm_wh f, fm_prod f)"

definition build_movement_facts :: "int \<Rightarrow> int \<Rightarrow> etl_db \<Rightarrow> nat result \<times> etl_db" where
  "build_movement_facts start stop db =
     (let kept = filter (\<lambda>f. \<not> (start \<le> fm_day f \<and> fm_day f \<le> stop)) (e_mfacts db);
          rows = joined start stop db;
          groups = map (group_fact rows) (remdups (map fst rows));
          new = filter (\<lambda>f. fact_key f \<notin> set (map fact_key kept)) groups
      in if list_ex (\<lambda>f. fm_day f \<notin> set (map dd_key (e_dates db))) new
         then (Err (DbForeignKey ''fact_movement_daily_date_key_fkey''), db)
         else (Ok (length new), db\<lparr>e_mfacts := kept @ new\<rparr>))"

definition INVENTORY_HISTORY_DAYS :: int where "INVENTORY_HISTORY_DAYS = 30"

text \<open>The stock of a product at the end of a day: today's stock less the net movement of the later
  days of the range.  The lookup of the product key is by the product's id in a dictionary keyed by
  SKU text.\<close>

definition daily_net :: "etl_db \<Rightarrow> int \<Rightarrow> int \<Rightarrow> int" where
  "daily_net db pid day = sum_list (map signed (filter (\<lambda>m. em_product m = pid \<and> em_day m = day) (e_movements db)))"

definition inventory_query :: "int \<Rightarrow> int \<Rightarrow> int list \<Rightarrow> etl_db \<Rightarrow> (int \<times> etl_product \<times> int) list" where
  "inventory_query start stop ids db = concat (map (\<lambda>p. map (\<lambda>day. (day, p, ep_stock p -
      sum_list (map (daily_net db (ep_id p)) [day + 1..stop]))) [start..stop])
    (sort_key ep_id (filter (\<lambda>p. ep_id p \<in> set ids) (e_products db))))"

definition build_inventory_facts :: "int \<Rightarrow> int option \<Rightarrow> etl_db \<Rightarrow> nat result \<times> etl_db" where
  "build_inventory_facts stop start_opt db =
     (let start = (case start_opt of Some s \<Rightarrow> s | None \<Rightarrow> stop - (INVENTORY_HISTORY_DAYS - 1));
          db1 = db\<lparr>e_ifacts := filter (\<lambda>f. \<not> (start \<le> fi_day f \<and> fi_day f \<le> stop)) (e_ifacts db)\<rparr>;
          wh_keys = map (\<lambda>w. (PStr (dw_name w), dw_key w)) (e_whs db);
          prod_keys = map (\<lambda>p. (PStr (dp_sku p), dp_key p)) (e_prods db)
      in if wh_keys = [] \<or> prod_keys = [] then (Ok 0, db1)
         else (let rows = List.map_filter (\<lambda>(day, p, stock).
                   case (map_of wh_keys (case ep_warehouse p of Some w \<Rightarrow> PStr w | None \<Rightarrow> PNone),
                         map_of prod_keys (PInt (ep_id p))) of
                     (Some wk, Some pk) \<Rightarrow> let s = max (real_of_int stock) 0 in
                       Some \<lparr>fi_day = day, fi_wh = wk, fi_prod = pk, fi_stock = s,
                         fi_reorder = real_of_int (ep_reorder p), fi_value = s * ep_price p\<rparr>
                   | _ \<Rightarrow> None)
                 (inventory_query start stop (map snd prod_keys) db1)
               in (Ok (length rows), db1\<lparr>e_ifacts := e_ifacts db1 @ rows\<rparr>)))"

text \<open>C19: The stock history is never built: the keys of the product dimension are looked up by product id
  in a dictionary keyed by SKU, so every build reports zero rows, inserts none and still deletes the
  rows of its days.\<close>
theorem inventory_facts_never_built:
  "build_inventory_facts stop start_opt db =
     (Ok 0, db\<lparr>e_ifacts := filter (\<lambda>f. \<not> ((case start_opt of Some s \<Rightarrow> s | None \<Rightarrow> stop - 29) \<le> fi_day f \<and>
        fi_day f \<le> stop)) (e_ifacts db)\<rparr>)"
proof -
  have none: "map_of (map (\<lambda>p. (PStr (dp_sku p), dp_key p)) ps) (PInt i) = None" for ps :: "dim_prod list" and i
    by (induction ps) auto
  have "List.map_filter (\<lambda>(day, p, stock). case (f p, map_of (map (\<lambda>p. (PStr (dp_sku p), dp_key p)) (e_prods db))
      (PInt (ep_id p))) of (Some wk, Some pk) \<Rightarrow> g day p stock wk pk | _ \<Rightarrow> None) rows = []"
    for f :: "etl_product \<Rightarrow> int option" and g :: "int \<Rightarrow> etl_product \<Rightarrow> int \<Rightarrow> int \<Rightarrow> int \<Rightarrow> fact_inventory option" and rows
    by (induction rows) (auto simp: map_filter_def none split: option.split)
  note empty = this
  have days: "INVENTORY_HISTORY_DAYS - 1 = 29" by (simp add: INVENTORY_HISTORY_DAYS_def)
  show ?thesis unfolding build_inventory_facts_def Let_def days using empty by simp
qed

section \<open>Incremental builds\<close>

text \<open>The join on a list of movements; the query joins the live movements of its days.\<close>

definition join_all :: "etl_movement list \<Rightarrow> etl_db \<Rightarrow> ((int \<times> int \<times> int) \<times> real \<times> etl_movement) list" where
  "join_all ms db = concat (map (\<lambda>m. concat (map (\<lambda>p. concat (map (\<lambda>dp.
      map (\<lambda>dw. ((em_day m, dw_key dw, dp_key dp), dp_price dp, m))
        (filter (\<lambda>dw. Some (dw_name dw) = ep_warehouse p) (e_whs db)))
      (filter (\<lambda>dp. dp_sku dp = ep_sku p) (e_prods db))))
      (filter (\<lambda>p. ep_id p = em_product m) (e_products db)))) ms)"

definition live :: "int \<Rightarrow> int \<Rightarrow> etl_db \<Rightarrow> etl_movement list" where
  "live start stop db = filter (\<lambda>m. start \<le> em_day m \<and> em_day m \<le> stop \<and> \<not> em_deleted m) (e_movements db)"

lemma joined_join_all: "joined start stop db = join_all (live start stop db) db"
  by (simp add: joined_def join_all_def live_def)

lemma join_all_day: "r \<in> set (join_all ms db) \<Longrightarrow> \<exists>m\<in>set ms. fst (fst r) = em_day m"
  by (auto simp: join_all_def)

lemma join_all_append: "join_all (xs @ ys) db = join_all xs db @ join_all ys db"
  by (simp add: join_all_def)

lemma filter_join_all:
  "filter (\<lambda>r. fst r = k) (join_all ms db) = filter (\<lambda>r. fst r = k) (join_all (filter (\<lambda>m. em_day m = fst k) ms) db)"
proof (induction ms)
  case (Cons m ms)
  have one: "join_all (m # ms) db = join_all [m] db @ join_all ms db" for ms
    using join_all_append[of "[m]" ms db] by simp
  have "filter (\<lambda>r. fst r = k) (join_all [m] db) = []" if "em_day m \<noteq> fst k"
    using join_all_day[of _ "[m]" db] that by (fastforce simp: filter_empty_conv)
  then show ?case using Cons one[of ms] one[of "filter (\<lambda>m. em_day m = fst k) ms"] by (cases "em_day m = fst k") simp_all
qed simp

definition aggregate :: "etl_movement list \<Rightarrow> etl_db \<Rightarrow> fact_movement set" where
  "aggregate ms db = group_fact (join_all ms db) ` fst ` set (join_all ms db)"

lemma group_fact_cong:
  "filter (\<lambda>r. fst r = k) rows = filter (\<lambda>r. fst r = k) rows' \<Longrightarrow> group_fact rows k = group_fact rows' k"
  by (simp add: group_fact_def split: prod.split)

lemma group_fact_day: "fm_day (group_fact rows k) = fst k" and group_fact_key: "fact_key (group_fact rows k) = k"
  by (cases k; simp add: group_fact_def fact_key_def)+

lemma keys_filter: "k \<in> fst ` set rows \<longleftrightarrow> filter (\<lambda>r. fst r = k) rows \<noteq> []"
  by (force simp: filter_empty_conv)

text \<open>The aggregate is determined day by day.\<close>

lemma aggregate_day:
  assumes "filter (\<lambda>m. em_day m = d) ms = filter (\<lambda>m. em_day m = d) ms'"
  shows "{f \<in> aggregate ms db. fm_day f = d} = {f \<in> aggregate ms' db. fm_day f = d}"
proof -
  have "{f \<in> aggregate ms db. fm_day f = d} \<subseteq> {f \<in> aggregate ms' db. fm_day f = d}"
    if eq: "filter (\<lambda>m. em_day m = d) ms = filter (\<lambda>m. em_day m = d) ms'" for ms ms'
  proof (clarsimp simp: aggregate_def group_fact_day)
    fix wh pk a b m assume "((d, wh, pk), a, m) \<in> set (join_all ms db)"
    let ?k = "(d, wh, pk)"
    have same: "filter (\<lambda>r. fst r = ?k) (join_all ms db) = filter (\<lambda>r. fst r = ?k) (join_all ms' db)"
      using filter_join_all[of ?k ms db] filter_join_all[of ?k ms' db] eq by simp
    have "?k \<in> fst ` set (join_all ms db)" using \<open>_ \<in> set (join_all ms db)\<close> by force
    then have "?k \<in> fst ` set (join_all ms' db)" using same by (simp add: keys_filter)
    then show "group_fact (join_all ms db) ?k \<in> group_fact (join_all ms' db) ` fst ` set (join_all ms' db)"
      using group_fact_cong[OF same] by blast
  qed
  then show ?thesis using assms by (metis (no_types, lifting) subset_antisym)
qed

lemma build_movement_facts_set:
  assumes "build_movement_facts start stop db = (Ok n, db')"
  shows "set (e_mfacts db') = {f \<in> set (e_mfacts db). \<not> (start \<le> fm_day f \<and> fm_day f \<le> stop)} \<union>
      aggregate (live start stop db) db"
    and "db' = db\<lparr>e_mfacts := e_mfacts db'\<rparr>"
proof -
  let ?kept = "filter (\<lambda>f. \<not> (start \<le> fm_day f \<and> fm_day f \<le> stop)) (e_mfacts db)"
  let ?rows = "join_all (live start stop db) db"
  let ?groups = "map (group_fact ?rows) (remdups (map fst ?rows))"
  have day: "start \<le> fm_day f \<and> fm_day f \<le> stop" if "f \<in> set ?groups" for f
    using that join_all_day[of _ "live start stop db" db] by (fastforce simp: group_fact_day live_def)
  have "fact_key f \<notin> fact_key ` set ?kept" if "f \<in> set ?groups" for f
    using day[OF that] by (auto simp: fact_key_def)
  then have new: "filter (\<lambda>f. fact_key f \<notin> set (map fact_key ?kept)) ?groups = ?groups"
    by (subst filter_id_conv) (simp add: image_iff)
  have db': "db' = db\<lparr>e_mfacts := ?kept @ ?groups\<rparr>"
    using assms new unfolding build_movement_facts_def Let_def joined_join_all by (auto split: if_splits)
  then show "db' = db\<lparr>e_mfacts := e_mfacts db'\<rparr>" by simp
  show "set (e_mfacts db') = {f \<in> set (e_mfacts db). \<not> (start \<le> fm_day f \<and> fm_day f \<le> stop)} \<union>
      aggregate (live start stop db) db"
    by (auto simp: db' aggregate_def)
qed

text \<open>C20: An incremental build computes what a full rebuild computes: when the facts are those of the
  movements seen so far and the new movements lie in the rebuilt days, the facts after the build are
  the aggregate of all live movements.\<close>
theorem incremental_equals_rebuild:
  assumes "e_movements db = old @ new"
    and "set (e_mfacts db) = aggregate (filter (\<lambda>m. \<not> em_deleted m) old) db"
    and "\<forall>m\<in>set new. first \<le> em_day m \<and> em_day m \<le> last_day"
    and "build_movement_facts first last_day db = (Ok n, db')"
  shows "set (e_mfacts db') = aggregate (filter (\<lambda>m. \<not> em_deleted m) (e_movements db)) db"
proof -
  let ?live = "\<lambda>ms. filter (\<lambda>m. \<not> em_deleted m) ms"
  have slice: "{f \<in> set (e_mfacts db'). fm_day f = d} = {f \<in> aggregate (?live (e_movements db)) db. fm_day f = d}" for d
  proof (cases "first \<le> d \<and> d \<le> last_day")
    case True
    have "filter (\<lambda>m. em_day m = d) (live first last_day db) = filter (\<lambda>m. em_day m = d) (?live (e_movements db))"
      using True by (auto simp: live_def intro: filter_cong)
    from aggregate_day[OF this] show ?thesis
      using True by (auto simp: build_movement_facts_set(1)[OF assms(4)])
  next
    case False
    have "filter (\<lambda>m. em_day m = d) (?live new) = []" using assms(3) False by (auto simp: filter_empty_conv)
    then have "filter (\<lambda>m. em_day m = d) (?live old) = filter (\<lambda>m. em_day m = d) (?live (e_movements db))"
      by (simp add: assms(1))
    from aggregate_day[OF this, of db] have old: "{f \<in> set (e_mfacts db). fm_day f = d} =
        {f \<in> aggregate (?live (e_movements db)) db. fm_day f = d}" by (simp add: assms(2))
    have "fm_day f \<noteq> d" if "f \<in> aggregate (live first last_day db) db" for f
      using that join_all_day[of _ "live first last_day db" db] False
      by (fastforce simp: aggregate_def group_fact_day live_def)
    then have "{f \<in> set (e_mfacts db'). fm_day f = d} = {f \<in> set (e_mfacts db). fm_day f = d}"
      using False by (auto simp: build_movement_facts_set(1)[OF assms(4)])
    with old show ?thesis by simp
  qed
  show ?thesis
  proof (rule set_eqI)
    fix f show "f \<in> set (e_mfacts db') \<longleftrightarrow> f \<in> aggregate (?live (e_movements db)) db"
      using slice[of "fm_day f"] by blast
  qed
qed

definition demo_etl :: etl_db where
  "demo_etl = \<lparr>e_products = [\<lparr>ep_id = 1, ep_sku = ''A'', ep_name = ''a'', ep_category = None, ep_supplier = None,
       ep_price = 2, ep_stock = 5, ep_reorder = 1, ep_warehouse = Some ''WH-Pune''\<rparr>],
     e_movements = [\<lparr>em_id = 1, em_product = 1, em_type = ''IN'', em_qty = 5, em_day = 739000, em_deleted = False\<rparr>],
     e_suppliers = [], e_dates = [], e_whs = [], e_next_wh = 1, e_prods = [], e_next_prod = 1, e_sups = [],
     e_mfacts = [], e_ifacts = [], e_state = [], e_wh_state = []\<rparr>"

definition demo_dims :: etl_db where
  "demo_dims = snd (build_dims (snd (build_dim_dates 738999 739001 demo_etl)))"

theorem incremental_equals_rebuild_witness:
  "\<exists>n db'. build_movement_facts 739000 739000 demo_dims = (Ok n, db') \<and> n = 1 \<and>
     set (e_mfacts db') = aggregate (e_movements demo_dims) demo_dims"
proof -
  obtain r db' where b: "build_movement_facts 739000 739000 demo_dims = (r, db')" by fastforce
  have r: "fst (build_movement_facts 739000 739000 demo_dims) = Ok 1" by code_simp
  with b have "r = Ok 1" by simp
  moreover have m: "e_movements demo_dims = [] @ e_movements demo_dims" by simp
  have "e_mfacts demo_dims = []" by code_simp
  then have "set (e_mfacts demo_dims) = aggregate (filter (\<lambda>m. \<not> em_deleted m) []) demo_dims"
    by (simp add: aggregate_def join_all_def)
  moreover have "list_all (\<lambda>m. 739000 \<le> em_day m \<and> em_day m \<le> 739000 \<and> \<not> em_deleted m) (e_movements demo_dims)" by code_simp
  then have "\<forall>m\<in>set (e_movements demo_dims). 739000 \<le> em_day m \<and> em_day m \<le> 739000"
    and live: "filter (\<lambda>m. \<not> em_deleted m) (e_movements demo_dims) = e_movements demo_dims"
    by (auto simp: list_all_iff)
  ultimately have "set (e_mfacts db') = aggregate (filter (\<lambda>m. \<not> em_deleted m) (e_movements demo_dims)) demo_dims"
    using incremental_equals_rebuild[OF m, of 739000 739000 1 db'] b by simp
  then show ?thesis using b \<open>r = Ok 1\<close> live by (intro exI[of _ 1] exI[of _ db']) simp
qed

section \<open>The run\<close>

text \<open>\<open>retry_loop left attempt f\<close>: attempt number \<open>attempt\<close> of \<open>f\<close> with \<open>left\<close> attempts
  after it; the second component collects the delays.  Only connection errors are retried.\<close>

fun retry_loop :: "nat \<Rightarrow> nat \<Rightarrow> (nat \<Rightarrow> 'a result) \<Rightarrow> 'a result \<times> int list" where
  "retry_loop left attempt f = (case f attempt of
      Inr v \<Rightarrow> (Ok v, [])
    | Inl (DbOperational m) \<Rightarrow>
        (case left of
           0 \<Rightarrow> (Err (DbOperational m), [])
         | Suc n \<Rightarrow> (case retry_loop n (Suc attempt) f of (r, ds) \<Rightarrow> (r, min (2 ^ attempt) 10 # ds)))
    | Inl e \<Rightarrow> (Err e, []))"

declare retry_loop.simps [simp del]

definition retry_operation :: "(nat \<Rightarrow> 'a result) \<Rightarrow> 'a result" where
  "retry_operation f = fst (retry_loop 2 0 f)"

lemma retry_operation_Ok: "retry_operation f = Ok v \<Longrightarrow> \<exists>k\<le>2. f k = Ok v"
  unfolding retry_operation_def
  by (auto simp: retry_loop.simps numeral_2_eq_2 split: sum.splits pyexc.splits prod.splits nat.splits)

lemma retry_delays: "length (snd (retry_loop n k f)) \<le> n"
proof (induction n arbitrary: k)
  case (Suc n) then show ?case
    by (subst retry_loop.simps) (auto split: sum.splits pyexc.splits prod.splits, metis snd_conv)
next
  case 0 show ?case by (subst retry_loop.simps) (simp split: sum.splits pyexc.splits)
qed

definition read_state :: "string \<Rightarrow> etl_db \<Rightarrow> string option" where "read_state k db = map_of (e_state db) k"

definition write_state :: "string \<Rightarrow> string \<Rightarrow> etl_db \<Rightarrow> etl_db" where
  "write_state k v db = db\<lparr>e_state := AList.update k v (e_state db)\<rparr>"

definition read_mark :: "etl_db \<Rightarrow> int result" where
  "read_mark db = (case read_state ''last_movement_id'' db of
      None \<Rightarrow> Ok 0
    | Some v \<Rightarrow> if v = [] then Ok 0 else to_int (PStr v))"

definition write_mark :: "int \<Rightarrow> etl_db \<Rightarrow> etl_db" where
  "write_mark i db = write_state ''last_movement_id'' (int_str i) db"

text \<open>A stage with its retries, its checkpoint and its commit: \<open>fault k\<close> is the error that strikes attempt
  \<open>k\<close>, if one does, and \<open>fault 3\<close> the one that strikes the checkpoint or the commit after them; a failed stage
  is rolled back, and a commit that fails has not happened.\<close>

definition stage ::
  "(nat \<Rightarrow> pyexc option) \<Rightarrow> int \<Rightarrow> (etl_db \<Rightarrow> 'a result \<times> etl_db) \<Rightarrow> etl_db \<Rightarrow> ('a \<times> etl_db) result" where
  "stage fault mark body db =
     bindE (retry_operation (\<lambda>k. case fault k of
         Some e \<Rightarrow> Err e
       | None \<Rightarrow> (case body db of (Inl e, _) \<Rightarrow> Err e | (Inr v, db1) \<Rightarrow> Ok (v, db1))))
       (\<lambda>(v, db1). case fault 3 of Some e \<Rightarrow> Err e | None \<Rightarrow> Ok (v, write_mark mark db1))"

record etl_summary =
  sm_skipped :: bool
  sm_incremental :: bool
  sm_dates :: nat
  sm_dims :: "nat \<times> nat \<times> nat"
  sm_movements :: nat
  sm_inventory :: nat
  sm_warehouse_ok :: bool

definition empty_summary :: etl_summary where
  "empty_summary = \<lparr>sm_skipped = False, sm_incremental = False, sm_dates = 0, sm_dims = (0, 0, 0),
     sm_movements = 0, sm_inventory = 0, sm_warehouse_ok = True\<rparr>"

text \<open>The four stages: they stop at the first that fails, and the second component is the state of the
  last commit.\<close>

definition four_stages ::
  "(nat \<Rightarrow> nat \<Rightarrow> pyexc option) \<Rightarrow> int \<Rightarrow> int \<Rightarrow> (etl_db \<Rightarrow> etl_db) \<Rightarrow> int \<Rightarrow> int \<Rightarrow> int \<Rightarrow> int option \<Rightarrow> etl_db \<Rightarrow>
   (nat \<times> (nat \<times> nat \<times> nat) \<times> nat \<times> nat) result \<times> etl_db" where
  "four_stages fault mark max_id prep first last_day inv_stop inv_start db =
     (case stage (fault 1) mark (\<lambda>s. case build_dim_dates first last_day (prep s) of (n, s1) \<Rightarrow> (Ok n, s1)) db of
        Inl e \<Rightarrow> (Err e, db)
      | Inr (n1, db1) \<Rightarrow> (case stage (fault 2) mark build_dims db1 of
        Inl e \<Rightarrow> (Err e, db1)
      | Inr (n2, db2) \<Rightarrow> (case stage (fault 3) mark (build_movement_facts first last_day) db2 of
        Inl e \<Rightarrow> (Err e, db2)
      | Inr (n3, db3) \<Rightarrow> (case stage (fault 4) max_id (build_inventory_facts inv_stop inv_start) db3 of
        Inl e \<Rightarrow> (Err e, db3)
      | Inr (n4, db4) \<Rightarrow> (Ok (n1, n2, n3, n4), db4)))))"

definition max_movement_id :: "etl_db \<Rightarrow> int" where
  "max_movement_id db = (case e_movements db of [] \<Rightarrow> 0 | m # ms \<Rightarrow> Max (set (map em_id (m # ms))))"

definition first_new_day :: "int \<Rightarrow> int \<Rightarrow> etl_db \<Rightarrow> int" where
  "first_new_day last_id today db = (case map em_day (filter (\<lambda>m. last_id < em_id m) (e_movements db)) of
      [] \<Rightarrow> today | d # ds \<Rightarrow> Min (set (d # ds)))"

definition last_new_day :: "int \<Rightarrow> int \<Rightarrow> etl_db \<Rightarrow> int" where
  "last_new_day last_id today db = (case map em_day (filter (\<lambda>m. last_id < em_id m) (e_movements db)) of
      [] \<Rightarrow> today | d # ds \<Rightarrow> max (Max (set (d # ds))) today)"

definition truncate_warehouse :: "etl_db \<Rightarrow> etl_db" where
  "truncate_warehouse db = db\<lparr>e_dates := [], e_whs := [], e_next_wh := 1, e_prods := [], e_next_prod := 1,
     e_sups := [], e_mfacts := [], e_ifacts := [], e_wh_state := AList.delete ''last_audit_daily_at'' (e_wh_state db)\<rparr>"

definition first_day_of :: "int \<Rightarrow> etl_db \<Rightarrow> int" where
  "first_day_of today db = (case map em_day (e_movements db) of [] \<Rightarrow> today - 90 | d # ds \<Rightarrow> Min (set (d # ds)))"

definition run_stamp :: "int \<Rightarrow> etl_db \<Rightarrow> etl_db" where
  "run_stamp today = write_state ''last_run_at'' (case civil today of (y, m, d) \<Rightarrow> iso_date (nat y) (nat m) (nat d))"

text \<open>After the stages: the validation only logs; an error of the write of \<open>last_run_at\<close> or of its commit
  (\<open>failed\<close>) fails the run, after the stages were committed; an error of the warehouse layer does not.\<close>

definition finish_run ::
  "pyexc option \<Rightarrow> bool \<Rightarrow> int \<Rightarrow> bool \<Rightarrow> nat \<times> (nat \<times> nat \<times> nat) \<times> nat \<times> nat \<Rightarrow> etl_db \<Rightarrow> etl_summary result \<times> etl_db" where
  "finish_run failed wh_ok today inc ns db = (case failed of
      Some e \<Rightarrow> (Err e, db)
    | None \<Rightarrow> (case ns of (n1, n2, n3, n4) \<Rightarrow>
       (Ok \<lparr>sm_skipped = False, sm_incremental = inc, sm_dates = n1, sm_dims = n2, sm_movements = n3,
         sm_inventory = n4, sm_warehouse_ok = wh_ok\<rparr>, run_stamp today db)))"

text \<open>\<open>fault 0 0\<close> strikes the connection or the queries before the first stage, \<open>fault 5 0\<close> the bookkeeping at the
  end.\<close>

definition run_etl ::
  "bool \<Rightarrow> bool \<Rightarrow> (nat \<Rightarrow> nat \<Rightarrow> pyexc option) \<Rightarrow> bool \<Rightarrow> int \<Rightarrow> etl_db \<Rightarrow> etl_summary result \<times> etl_db" where
  "run_etl lock_free force fault wh_ok today db = (case fault 0 0 of Some e \<Rightarrow> (Err e, db) | None \<Rightarrow>
     if \<not> lock_free then (Ok (empty_summary\<lparr>sm_skipped := True\<rparr>), db)
     else if e_mfacts db \<noteq> [] \<and> \<not> force then
        (case read_mark db of
           Inl e \<Rightarrow> (Err e, db)
         | Inr last_id \<Rightarrow>
             if max_movement_id db \<le> last_id then (Ok (empty_summary\<lparr>sm_skipped := True\<rparr>), db)
             else let first = first_new_day last_id today db in
               (case four_stages fault last_id (max_movement_id db) id first (last_new_day last_id today db)
                  today (Some first) db of
                 (Inl e, db1) \<Rightarrow> (Err e, db1)
               | (Inr ns, db1) \<Rightarrow> finish_run (fault 5 0) wh_ok today True ns db1))
     else
        (case four_stages fault 0 (max_movement_id db) truncate_warehouse (first_day_of today db) today today None db of
           (Inl e, db1) \<Rightarrow> (Err e, db1)
         | (Inr ns, db1) \<Rightarrow> finish_run (fault 5 0) wh_ok today False ns db1))"

lemma read_mark_write [simp]: "read_mark (write_mark i db) = Ok i"
proof -
  have "int_str i \<noteq> []" using parse_int_int_str[of i] by (auto simp: parse_int_def split_sign_def digits_def strip_def lstrip_def rstrip_def)
  then show ?thesis by (simp add: read_mark_def write_mark_def write_state_def read_state_def update_conv' parse_int_int_str)
qed

lemma read_mark_cong: "e_state db = e_state db' \<Longrightarrow> read_mark db = read_mark db'"
  by (simp add: read_mark_def read_state_def)

lemma read_mark_run_at [simp]: "read_mark (run_stamp today db) = read_mark db"
  by (simp add: run_stamp_def read_mark_def read_state_def write_state_def update_conv')

lemma stage_mark: "stage fault mark body db = Ok (v, db') \<Longrightarrow> read_mark db' = Ok mark"
  by (auto simp: stage_def bindE_Ok_iff split: option.splits)

text \<open>The stages do not look at the fault of the bookkeeping.\<close>

lemma fault_update:
  "(fault(5 := f)) 0 = fault 0" "(fault(5 := f)) 1 = fault 1" "(fault(5 := f)) 2 = fault 2" "(fault(5 := f)) 3 = fault 3"
  "(fault(5 := f)) 4 = fault 4" "(fault(5 := f)) 5 = f" for fault :: "nat \<Rightarrow> 'b"
  by simp_all

lemma four_stages_fault: "four_stages (fault(5 := f)) = four_stages fault"
  by (intro ext) (simp only: four_stages_def fault_update)

lemma four_stages_mark:
  assumes "four_stages fault mark max_id prep first last_day a b db = (r, db')"
  shows "case r of Inr ns \<Rightarrow> read_mark db' = Ok max_id | Inl e \<Rightarrow> db' = db \<or> read_mark db' = Ok mark"
  using assms unfolding four_stages_def
  by (auto split: sum.splits prod.splits dest!: stage_mark)

text \<open>C21: The watermark is safe under failures at any stage and attempt, at the checkpoints, before the
  stages and after them.  An incremental run that fails in a stage leaves it where it was; a full rebuild (forced, or
  because there are no facts) leaves it where it was or at zero.  Only when the bookkeeping after the last stage fails
  does a failed run leave it at the greatest movement id, and then everything else was done: without that
  failure the same run succeeds and adds its time stamp.  A run that succeeds moves it to the greatest movement id;
  a skipped run changes nothing, and there was another run or no new movement.\<close>
theorem etl_watermark_safe:
  assumes "read_mark db = Ok mark" and "run_etl lock_free force fault wh_ok today db = (r, db')"
  shows "case r of
      Inl e \<Rightarrow> read_mark db' = Ok mark \<or> (force \<or> e_mfacts db = []) \<and> read_mark db' = Ok 0 \<or>
        fault 5 0 = Some e \<and> read_mark db' = Ok (max_movement_id db) \<and>
          (\<exists>s. run_etl lock_free force (fault(5 := \<lambda>k. None)) wh_ok today db = (Ok s, run_stamp today db') \<and> \<not> sm_skipped s)
    | Inr s \<Rightarrow> if sm_skipped s then db' = db \<and> (lock_free \<longrightarrow> max_movement_id db \<le> mark)
        else read_mark db' = Ok (max_movement_id db)"
proof (cases "fault 0 0 = None \<and> lock_free \<and> \<not> (e_mfacts db \<noteq> [] \<and> \<not> force \<and> max_movement_id db \<le> mark)")
  case False
  then show ?thesis using assms by (auto simp: run_etl_def empty_summary_def split: option.splits if_splits)
next
  case True
  define inc where "inc \<longleftrightarrow> e_mfacts db \<noteq> [] \<and> \<not> force"
  define stages where "stages = (if inc then four_stages fault mark (max_movement_id db) id (first_new_day mark today db)
      (last_new_day mark today db) today (Some (first_new_day mark today db)) db
    else four_stages fault 0 (max_movement_id db) truncate_warehouse (first_day_of today db) today today None db)"
  have run: "run_etl lock_free force (fault(5 := f)) wh_ok today db = (case stages of
      (Inl e, db1) \<Rightarrow> (Err e, db1) | (Inr ns, db1) \<Rightarrow> finish_run (f 0) wh_ok today inc ns db1)" for f
  proof -
    have "run_etl lock_free force (fault(5 := f)) wh_ok today db = (if inc then (case stages of
        (Inl e, db1) \<Rightarrow> (Err e, db1) | (Inr ns, db1) \<Rightarrow> finish_run (f 0) wh_ok today True ns db1)
      else (case stages of (Inl e, db1) \<Rightarrow> (Err e, db1) | (Inr ns, db1) \<Rightarrow> finish_run (f 0) wh_ok today False ns db1))"
      using True assms(1) unfolding run_etl_def stages_def four_stages_fault fault_update Let_def by (auto simp: inc_def)
    then show ?thesis by (auto split: prod.split sum.split)
  qed
  obtain x db1 where x: "stages = (x, db1)" by (cases stages)
  have mark: "case x of Inr ns \<Rightarrow> read_mark db1 = Ok (max_movement_id db)
      | Inl e \<Rightarrow> db1 = db \<or> read_mark db1 = Ok (if inc then mark else 0)"
    using x four_stages_mark unfolding stages_def by (cases inc) (auto split: if_splits)
  have res: "(r, db') = (case x of Inl e \<Rightarrow> (Err e, db1) | Inr ns \<Rightarrow> finish_run (fault 5 0) wh_ok today inc ns db1)"
    using run[of "fault 5"] assms(2) x by simp
  show ?thesis
  proof (cases x)
    case (Inl e)
    then show ?thesis using res mark assms(1) by (auto simp: inc_def split: if_splits)
  next
    case (Inr ns)
    have clean: "\<exists>s. run_etl lock_free force (fault(5 := \<lambda>k. None)) wh_ok today db = (Ok s, run_stamp today db1) \<and> \<not> sm_skipped s"
      unfolding run x Inr by (simp add: finish_run_def split: prod.split)
    show ?thesis
    proof (cases "fault 5 0")
      case None
      then show ?thesis using res mark Inr by (simp add: finish_run_def split: prod.splits)
    next
      case (Some e)
      then show ?thesis using res mark Inr clean by (simp add: finish_run_def)
    qed
  qed
qed

theorem etl_watermark_safe_witness:
  "read_mark (snd (run_etl True False (\<lambda>s k. if s = 3 then Some (ValueError ''x'') else None) True 739000 demo_etl)) = Ok 0 \<and>
   read_mark (snd (run_etl True False (\<lambda>s k. if s = 3 \<and> k = 0 then Some (DbOperational ''x'') else None) True 739000 demo_etl)) = Ok 1"
proof -
  have z: "read_mark demo_etl = Ok 0" by (simp add: read_mark_def read_state_def demo_etl_def)
  define f where "f = (\<lambda>(s :: nat) (k :: nat). if s = 3 then Some (ValueError ''x'') else None)"
  define g where "g = (\<lambda>(s :: nat) (k :: nat). if s = 3 \<and> k = 0 then Some (DbOperational ''x'') else None)"
  obtain r db1 where r: "run_etl True False f True 739000 demo_etl = (r, db1)" by fastforce
  obtain s db2 where s: "run_etl True False g True 739000 demo_etl = (s, db2)" by fastforce
  have "isl (fst (run_etl True False f True 739000 demo_etl))" unfolding f_def by code_simp
  then obtain e where e: "r = Inl e" using r by (cases r) auto
  have "\<not> isl (fst (run_etl True False g True 739000 demo_etl)) \<and>
      \<not> sm_skipped (projr (fst (run_etl True False g True 739000 demo_etl)))" unfolding g_def by code_simp
  then obtain t where t: "s = Inr t" "\<not> sm_skipped t" using s by (cases s) auto
  have f5: "f 5 0 = None" by (simp add: f_def)
  have "max_movement_id demo_etl = 1" by code_simp
  then have "read_mark db1 = Ok 0" "read_mark db2 = Ok 1"
    using etl_watermark_safe[OF z r] etl_watermark_safe[OF z s] e t f5 by auto
  then show ?thesis using r s by (simp add: f_def g_def)
qed

section \<open>Validation and the queue handler\<close>

definition orphaned_products :: "etl_db \<Rightarrow> nat" where
  "orphaned_products db = length (filter (\<lambda>p. case ep_warehouse p of
      None \<Rightarrow> False
    | Some w \<Rightarrow> dropWhile (\<lambda>c. c = CHR '' '') w \<noteq> [] \<and> w \<notin> set (map dw_name (e_whs db))) (e_products db))"

definition validate_warehouse_consistency :: "etl_db \<Rightarrow> bool" where
  "validate_warehouse_consistency db = (orphaned_products db = 0)"

definition validate_product_consistency :: "etl_db \<Rightarrow> bool" where
  "validate_product_consistency db = (filter (\<lambda>m. \<not> (\<exists>p\<in>set (e_products db). ep_id p = em_product m \<and>
     ep_sku p \<in> set (map dp_sku (e_prods db)))) (e_movements db) = [])"

definition persist_etl_state :: "string \<Rightarrow> string option \<Rightarrow> etl_db \<Rightarrow> etl_db" where
  "persist_etl_state k v db = db\<lparr>e_wh_state := (case v of
      None \<Rightarrow> AList.delete k (e_wh_state db) | Some x \<Rightarrow> AList.update k x (e_wh_state db))\<rparr>"

definition etl_handler ::
  "(pyexc \<Rightarrow> string) \<Rightarrow> (etl_db \<Rightarrow> etl_summary result \<times> etl_db) \<Rightarrow> etl_db \<Rightarrow> etl_summary result \<times> etl_db" where
  "etl_handler err_text job db =
     (case job (persist_etl_state ''etl_job_error'' None (persist_etl_state ''etl_job_status'' (Some ''running'') db)) of
        (Inl e, db1) \<Rightarrow> (Err e, persist_etl_state ''etl_job_error'' (Some (err_text e))
           (persist_etl_state ''etl_job_status'' (Some ''failed'') db1))
      | (Inr s, db1) \<Rightarrow> (Ok s, persist_etl_state ''etl_job_error'' None
           (persist_etl_state ''warehouse_etl_ok'' (Some (if sm_warehouse_ok s then ''True'' else ''False''))
             (persist_etl_state ''etl_job_status'' (Some ''success'') db1))))"

lemma persist_read [simp]:
  "map_of (e_wh_state (persist_etl_state k v db)) k' = (if k' = k then v else map_of (e_wh_state db) k')"
  by (auto simp: persist_etl_state_def update_conv' delete_conv' split: option.split)

text \<open>The handler leaves the status and the error of the run it reports.\<close>

lemma etl_handler_status:
  "etl_handler err_text job db = (r, db') \<Longrightarrow>
   map_of (e_wh_state db') ''etl_job_status'' = Some (if isl r then ''failed'' else ''success'') \<and>
   map_of (e_wh_state db') ''etl_job_error'' = (case r of Inl e \<Rightarrow> Some (err_text e) | Inr s \<Rightarrow> None)"
  by (auto simp: etl_handler_def split: sum.splits prod.splits)

lemma inserted_codes:
  "map dw_code (map (\<lambda>(i, code, name, city, region). \<lparr>dw_key = n + int i, dw_code = code, dw_name = name, dw_city = city,
     dw_region = region\<rparr>) (enumerate k rows)) = map fst rows"
  by (induction rows arbitrary: k) auto

lemma insert_warehouses_result:
  "insert_warehouses rows db = (Inr u, db') \<Longrightarrow> map dw_code (e_whs db') = map dw_code (e_whs db) @ map fst rows"
  "insert_warehouses rows db = (Inl e, db') \<Longrightarrow> db' = db"
proof -
  show "insert_warehouses rows db = (Inl e, db') \<Longrightarrow> db' = db" by (simp add: insert_warehouses_def split: if_splits)
  assume "insert_warehouses rows db = (Inr u, db')"
  then have "e_whs db' = e_whs db @ map (\<lambda>(i, code, name, city, region). \<lparr>dw_key = e_next_wh db + int i, dw_code = code,
      dw_name = name, dw_city = city, dw_region = region\<rparr>) (enumerate 0 rows)"
    by (auto simp: insert_warehouses_def split: if_splits)
  then show "map dw_code (e_whs db') = map dw_code (e_whs db) @ map fst rows" by (simp only: map_append inserted_codes)
qed

text \<open>Two texts that differ but are the same without their blanks give the same name twice.\<close>

lemma names_repeat:
  assumes "p \<in> set ps" "q \<in> set ps" "ep_warehouse p = Some v" "ep_warehouse q = Some w" "v \<noteq> w" "strip v = strip w"
    "dropWhile (\<lambda>c. c = CHR '' '') v \<noteq> []" "dropWhile (\<lambda>c. c = CHR '' '') w \<noteq> []"
  shows "\<not> distinct (filter (\<lambda>n. n = strip v) (warehouse_names ps))"
proof -
  let ?ws = "sort_key (map code_of) (remdups (filter (\<lambda>w. dropWhile (\<lambda>c. c = CHR '' '') w \<noteq> []) (List.map_filter ep_warehouse ps)))"
  have "v \<in> set ?ws" "w \<in> set ?ws" using assms by (force simp: List.map_filter_def image_iff)+
  then have "\<not> inj_on strip (set ?ws)" using assms(5,6) by (auto simp: inj_on_def)
  have two: "2 \<le> card {x \<in> set ?ws. strip x = strip v}"
    using card_mono[of "{x \<in> set ?ws. strip x = strip v}" "{v, w}"] \<open>v \<in> set ?ws\<close> \<open>w \<in> set ?ws\<close> assms(5,6) by auto
  have "length (filter (\<lambda>n. n = strip v) (warehouse_names ps)) = length (filter (\<lambda>x. strip x = strip v) ?ws)"
    by (simp add: warehouse_names_def filter_map comp_def)
  also have "\<dots> = card {x \<in> set ?ws. strip x = strip v}"
    by (subst distinct_card[symmetric]) (simp_all add: distinct_filter)
  finally have len: "2 \<le> length (filter (\<lambda>n. n = strip v) (warehouse_names ps))" using two by simp
  have "set (filter (\<lambda>n. n = strip v) (warehouse_names ps)) \<subseteq> {strip v}" by auto
  then have "card (set (filter (\<lambda>n. n = strip v) (warehouse_names ps))) \<le> 1"
    using card_mono[of "{strip v}"] by fastforce
  then show ?thesis using len distinct_card by fastforce
qed

text \<open>C22: The dimension build gives every warehouse a code of its own: when the codes of the dimension differ,
  the build never fails on a code (the loop that tries suffixes always finds a free one) and leaves codes that differ.
  But it can fail on a name: as soon as two products have warehouse texts that differ only in surrounding
  blanks, and that warehouse is new, every build fails (on the repeated name, unless a text is too long) and
  leaves the dimensions as they were.\<close>
theorem warehouse_codes_unique:
  assumes "distinct (map dw_code (e_whs db))"
  shows "fst (build_dims db) \<noteq> Err (DbUnique ''dim_warehouse_warehouse_code_key'') \<and>
    distinct (map dw_code (e_whs (snd (build_dims db)))) \<and>
    (\<forall>p\<in>set (e_products db). \<forall>q\<in>set (e_products db). \<forall>v w.
       ep_warehouse p = Some v \<longrightarrow> ep_warehouse q = Some w \<longrightarrow> v \<noteq> w \<longrightarrow> strip v = strip w \<longrightarrow>
       dropWhile (\<lambda>c. c = CHR '' '') v \<noteq> [] \<longrightarrow> dropWhile (\<lambda>c. c = CHR '' '') w \<noteq> [] \<longrightarrow> strip v \<notin> set (map dw_name (e_whs db)) \<longrightarrow>
       fst (build_dims db) \<in> {Err (DbUnique ''dim_warehouse_warehouse_name_key''), Err (OtherExc ''value too long for type character varying'')} \<and>
       snd (build_dims db) = db)"
proof -
  let ?names = "warehouse_names (e_products db)"
  let ?rows = "new_warehouses (map dw_name (e_whs db)) (map dw_code (e_whs db)) ?names"
  have codes: "distinct (map dw_code (e_whs db) @ map fst ?rows)" by (rule new_warehouses_codes[OF assms])
  have one: "fst (build_dims db) \<noteq> Err (DbUnique ''dim_warehouse_warehouse_code_key'')"
    using codes by (auto simp: build_dims_def insert_warehouses_def Let_def split: sum.splits prod.splits if_splits)
  have two: "distinct (map dw_code (e_whs (snd (build_dims db))))"
  proof -
    obtain r db1 where i: "insert_warehouses ?rows db = (r, db1)" by fastforce
    have e: "e_whs (snd (build_dims db)) = e_whs db1"
      by (cases r) (simp_all add: build_dims_def i Let_def insert_products_def)
    show ?thesis
    proof (cases r)
      case (Inl x)
      then show ?thesis using insert_warehouses_result(2)[of ?rows db x db1] i e assms by simp
    next
      case (Inr u)
      then have "map dw_code (e_whs db1) = map dw_code (e_whs db) @ map fst ?rows"
        using insert_warehouses_result(1)[of ?rows db u db1] i by simp
      then show ?thesis using codes unfolding e by (simp only:)
    qed
  qed
  have three: "fst (build_dims db) \<in> {Err (DbUnique ''dim_warehouse_warehouse_name_key''), Err (OtherExc ''value too long for type character varying'')} \<and>
       snd (build_dims db) = db"
    if p: "p \<in> set (e_products db)" "q \<in> set (e_products db)" "ep_warehouse p = Some v" "ep_warehouse q = Some w" "v \<noteq> w"
      "strip v = strip w" "dropWhile (\<lambda>c. c = CHR '' '') v \<noteq> []" "dropWhile (\<lambda>c. c = CHR '' '') w \<noteq> []" "strip v \<notin> set (map dw_name (e_whs db))"
    for p q v w
  proof -
    have "filter (\<lambda>n. n = strip v) (filter (\<lambda>n. n \<notin> set (map dw_name (e_whs db))) ?names) = filter (\<lambda>n. n = strip v) ?names"
      unfolding filter_filter using p(9) by (intro filter_cong) auto
    then have "\<not> distinct (filter (\<lambda>n. n \<notin> set (map dw_name (e_whs db))) ?names)"
      using names_repeat[OF p(1-8)] distinct_filter by metis
    then have "\<not> distinct (map dw_name (e_whs db) @ map (fst \<circ> snd) ?rows)"
      unfolding new_warehouses_names by simp
    then show ?thesis using codes by (simp add: build_dims_def insert_warehouses_def Let_def)
  qed
  show ?thesis using one two three by blast
qed

definition blank_twins :: etl_db where
  "blank_twins = demo_etl\<lparr>e_products := map (\<lambda>(i, w). (hd (e_products demo_etl))\<lparr>ep_id := i, ep_sku := nat_str (nat i),
      ep_warehouse := Some w\<rparr>) [(1, ''WH-Pune''), (2, ''WH-Pune '')]\<rparr>"

theorem warehouse_codes_unique_witness:
  "isl (fst (build_dims blank_twins)) \<and> snd (build_dims blank_twins) = blank_twins"
proof -
  let ?p = "e_products blank_twins ! 0" and ?q = "e_products blank_twins ! 1"
  have "distinct (map dw_code (e_whs blank_twins))" by (simp add: blank_twins_def demo_etl_def)
  moreover have "?p \<in> set (e_products blank_twins)" "?q \<in> set (e_products blank_twins)"
      "ep_warehouse ?p = Some ''WH-Pune''" "ep_warehouse ?q = Some ''WH-Pune ''"
    by (simp_all add: blank_twins_def demo_etl_def)
  moreover have "strip ''WH-Pune'' = strip ''WH-Pune ''" "strip ''WH-Pune'' \<notin> set (map dw_name (e_whs blank_twins))"
    by code_simp+
  moreover have "dropWhile (\<lambda>c. c = CHR '' '') ''WH-Pune'' \<noteq> []" "dropWhile (\<lambda>c. c = CHR '' '') ''WH-Pune '' \<noteq> []"
      "''WH-Pune'' \<noteq> ''WH-Pune ''" by simp_all
  ultimately have "fst (build_dims blank_twins) \<in> {Err (DbUnique ''dim_warehouse_warehouse_name_key''), Err (OtherExc ''value too long for type character varying'')} \<and>
       snd (build_dims blank_twins) = blank_twins"
    using warehouse_codes_unique[of blank_twins] by blast
  then show ?thesis by auto
qed

end
