(* ===== verification/Alerts.thy ===== *)
theory Alerts
  imports Cache Ledger Users Roles
begin

text \<open>System alerts and user notifications: \<open>app/monitoring/alerts.py\<close>,
  \<open>app/services/monitoring_service.py\<close>, \<open>app/services/alert_notifier.py\<close>,
  \<open>app/services/notification_service.py\<close>, \<open>app/services/nnotification_center_service.py\<close>
  and the repositories of the two tables.  Days and instants are integers; mail and web delivery are
  parameters.\<close>

section \<open>System alerts\<close>

record alert =
  al_sku :: string
  al_model :: string
  al_day :: int
  al_type :: string
  al_severity :: string
  al_metric :: string
  al_baseline :: "real option"
  al_current :: "real option"
  al_change :: real
  al_message :: string
  al_action :: string
  al_status :: string

record alert_row = alert +
  al_id :: int
  al_created :: int

record alert_table =
  m_alerts :: "alert_row list"
  m_next :: int

definition generate_etl_failure_alert :: "int \<Rightarrow> string \<Rightarrow> string option \<Rightarrow> real option \<Rightarrow> alert" where
  "generate_etl_failure_alert day msg stage dur =
     (let stage_info = (case stage of Some s \<Rightarrow> if s = [] then [] else '' (stage: '' @ s @ '')'' | None \<Rightarrow> []);
          dur_info = (case dur of Some d \<Rightarrow> if d = 0 then [] else '' (duration: '' @ fmt_fixed 1 d @ ''s)'' | None \<Rightarrow> [])
      in \<lparr>al_sku = ''SYSTEM'', al_model = ''ETL_PIPELINE'', al_day = day, al_type = ''etl_failure'',
          al_severity = ''critical'', al_metric = ''etl_status'', al_baseline = None, al_current = None,
          al_change = 0, al_message = ''ETL pipeline failed'' @ stage_info @ dur_info @ '': '' @ msg,
          al_action = ''ETL pipeline has failed. Check the monitoring dashboard for details. '' @
            ''Review the error logs and consider re-running the ETL pipeline manually if needed.'',
          al_status = ''new''\<rparr>)"

definition generate_backup_failure_alert :: "int \<Rightarrow> string \<Rightarrow> string option \<Rightarrow> alert" where
  "generate_backup_failure_alert day msg name =
     (let name_info = (case name of Some s \<Rightarrow> if s = [] then [] else '' '' @ [CHR 0x27] @ s @ [CHR 0x27] | None \<Rightarrow> [])
      in \<lparr>al_sku = ''SYSTEM'', al_model = ''BACKUP_SERVICE'', al_day = day, al_type = ''backup_failure'',
          al_severity = ''critical'', al_metric = ''backup_status'', al_baseline = None, al_current = None,
          al_change = 0, al_message = ''Database backup'' @ name_info @ '' failed: '' @ msg,
          al_action = ''Database backup has failed. Verify pg_dump availability and database '' @
            ''connectivity, then create a backup manually. Data is at risk until a '' @ ''verified backup exists.'',
          al_status = ''new''\<rparr>)"

definition generate_pool_exhaustion_alert :: "int \<Rightarrow> nat \<Rightarrow> nat \<Rightarrow> alert" where
  "generate_pool_exhaustion_alert day active cap =
     \<lparr>al_sku = ''SYSTEM'', al_model = ''DB_POOL'', al_day = day, al_type = ''pool_exhaustion'',
      al_severity = ''critical'', al_metric = ''pool_usage'', al_baseline = Some (real cap),
      al_current = Some (real active), al_change = 0,
      al_message = ''Database connection pool exhausted ('' @ nat_str active @ ''/'' @ nat_str cap @ '' connections '' @
        ''in use). Requests will fail with PoolError until connections free up.'',
      al_action = ''Connection pool is exhausted. Check for connection leaks (long checkouts), '' @
        ''slow queries holding connections, or increase DB_POOL_SIZE.'',
      al_status = ''new''\<rparr>"

definition unresolved :: "string \<Rightarrow> bool" where "unresolved st \<longleftrightarrow> st = ''new'' \<or> st = ''acknowledged''"

text \<open>Only the three keys identify an alert.\<close>

definition alert_key :: "'a alert_scheme \<Rightarrow> string \<times> string \<times> string" where
  "alert_key a = (al_sku a, al_model a, al_type a)"

fun deduplicate_alerts :: "'a alert_scheme list \<Rightarrow> 'b alert_scheme \<Rightarrow> bool" where
  "deduplicate_alerts [] a = True"
| "deduplicate_alerts (x # xs) a =
     (if alert_key x = alert_key a \<and> unresolved (al_status x) then False else deduplicate_alerts xs a)"

definition unresolved_alerts :: "string \<Rightarrow> string \<Rightarrow> string \<Rightarrow> alert_table \<Rightarrow> alert_row list" where
  "unresolved_alerts s m t tab =
     filter (\<lambda>a. alert_key a = (s, m, t) \<and> unresolved (al_status a)) (m_alerts tab)"

text \<open>The table has a unique index on the key and the day.\<close>

definition save_alert :: "int \<Rightarrow> alert \<Rightarrow> alert_table \<Rightarrow> int result \<times> alert_table" where
  "save_alert now a tab =
     (if list_ex (\<lambda>x. alert_key x = alert_key a \<and> al_day x = al_day a) (m_alerts tab)
      then (Err (DbUnique ''uq_monitoring_alert_dedup''), tab)
      else (Ok (m_next tab), tab\<lparr>m_alerts := m_alerts tab @ [alert.extend a \<lparr>al_id = m_next tab, al_created = now\<rparr>],
        m_next := m_next tab + 1\<rparr>))"

definition get_alerts ::
  "string option \<Rightarrow> string option \<Rightarrow> string option \<Rightarrow> string option \<Rightarrow> nat \<Rightarrow> nat \<Rightarrow> alert_table \<Rightarrow> alert_row list \<times> nat" where
  "get_alerts s m st ty limit offset tab =
     (let given = (\<lambda>w v. case w of Some x \<Rightarrow> x = [] \<or> v = x | None \<Rightarrow> True);
          rows = filter (\<lambda>a. given s (al_sku a) \<and> given m (al_model a) \<and> given st (al_status a)
                  \<and> given ty (al_type a)) (m_alerts tab)
      in (take limit (drop offset (sort_key (\<lambda>a. - al_created a) rows)), length rows))"

section \<open>Routing\<close>

record notifier_config =
  cf_email_enabled :: bool
  cf_recipients :: string
  cf_slack_url :: string
  cf_webhook_url :: string

definition alert_subject_and_body :: "'a alert_scheme \<Rightarrow> string \<times> string" where
  "alert_subject_and_body a =
     (let sev = upper (if al_severity a = [] then ''info'' else al_severity a);
          nl = [CHR 0x0A]
      in (''[InventoryLogix]['' @ sev @ ''] '' @ al_type a,
          al_message a @ nl @ nl @ ''Severity: '' @ sev @ nl @ ''Type: '' @ al_type a @ nl @
          ''Recommended action: '' @ al_action a @ nl))"

text \<open>What leaves the process: a mail per recipient list, a Slack text or the alert itself as JSON.\<close>

datatype web_payload = SlackText string | AlertJson alert

definition send_email ::
  "notifier_config \<Rightarrow> (string list \<Rightarrow> string \<Rightarrow> string \<Rightarrow> bool result) \<Rightarrow> alert \<Rightarrow> string result" where
  "send_email cfg mail a =
     (if \<not> cf_email_enabled cfg then Ok ''skipped''
      else let recipients = filter (\<lambda>e. e \<noteq> []) (map strip (split_on CHR '','' (cf_recipients cfg)))
        in if recipients = [] then Ok ''skipped''
        else (case alert_subject_and_body a of (subject, body) \<Rightarrow>
          bindE (mail recipients subject body) (\<lambda>sent. Ok (if sent then ''sent'' else ''failed''))))"

text \<open>\<open>post\<close> answers the status code; \<open>requests.RequestException\<close> is caught here, any other
  exception by the caller.\<close>

definition post_json :: "(string \<Rightarrow> web_payload \<Rightarrow> int result) \<Rightarrow> string \<Rightarrow> alert \<Rightarrow> bool \<Rightarrow> string result" where
  "post_json post url a slack =
     (let p = (if slack then SlackText (''*'' @ al_type a @ ''*'' @ [CHR 0x0A] @ snd (alert_subject_and_body a))
               else AlertJson a)
      in case post url p of
        Inr code \<Rightarrow> Ok (if code < 300 then ''sent'' else ''failed('' @ int_str code @ '')'')
      | Inl (DomainError c m) \<Rightarrow> if c = ''RequestException'' then Ok ''failed'' else Err (DomainError c m)
      | Inl e \<Rightarrow> Err e)"

definition or_failed :: "string result \<Rightarrow> string" where
  "or_failed r = (case r of Inr s \<Rightarrow> s | Inl e \<Rightarrow> ''failed'')"

definition notify_alert ::
  "notifier_config \<Rightarrow> (string list \<Rightarrow> string \<Rightarrow> string \<Rightarrow> bool result) \<Rightarrow> (string \<Rightarrow> web_payload \<Rightarrow> int result) \<Rightarrow>
   alert \<Rightarrow> (string \<times> string) list" where
  "notify_alert cfg mail post a =
     [(''email'', or_failed (send_email cfg mail a)),
      (''slack'', or_failed (if cf_slack_url cfg \<noteq> [] then post_json post (cf_slack_url cfg) a True else Ok ''skipped'')),
      (''webhook'', or_failed (if cf_webhook_url cfg \<noteq> [] then post_json post (cf_webhook_url cfg) a False
         else Ok ''skipped''))]"

text \<open>The alert is stored only when no unresolved one of its key exists; then it is routed.  The second
  component of the result says what was routed.\<close>

definition maybe_create_system_alert ::
  "(alert \<Rightarrow> (string \<times> string) list) \<Rightarrow> int \<Rightarrow> alert \<Rightarrow> alert_table \<Rightarrow> (string \<times> string) list option result \<times> alert_table" where
  "maybe_create_system_alert notify now a tab =
     (if deduplicate_alerts (unresolved_alerts (al_sku a) (al_model a) (al_type a) tab) a
      then (case save_alert now a tab of
          (Inl e, tab1) \<Rightarrow> (Err e, tab1)
        | (Inr i, tab1) \<Rightarrow> (Ok (Some (notify a)), tab1))
      else (Ok None, tab))"

definition maybe_create_etl_failure_alert where
  "maybe_create_etl_failure_alert notify now day msg stage dur =
     maybe_create_system_alert notify now (generate_etl_failure_alert day msg stage dur)"

definition maybe_create_backup_failure_alert where
  "maybe_create_backup_failure_alert notify now day msg name =
     maybe_create_system_alert notify now (generate_backup_failure_alert day msg name)"

text \<open>The pool-exhaustion alert writes by a connection of its own, and swallows every error.\<close>

definition alert_pool_exhausted :: "bool \<Rightarrow> int \<Rightarrow> int \<Rightarrow> nat \<Rightarrow> nat \<Rightarrow> alert_table \<Rightarrow> alert_table" where
  "alert_pool_exhausted conn_ok now day active cap tab =
     (let a = generate_pool_exhaustion_alert day active cap in
      if conn_ok \<and> \<not> list_ex (\<lambda>x. alert_key x = alert_key a \<and> unresolved (al_status x)) (m_alerts tab)
      then snd (save_alert now a tab) else tab)"

section \<open>What is stored and routed\<close>

definition pending :: "alert_table \<Rightarrow> 'a alert_scheme \<Rightarrow> bool" where
  "pending tab a = list_ex (\<lambda>x. alert_key x = alert_key a \<and> unresolved (al_status x)) (m_alerts tab)"

definition same_day :: "alert_table \<Rightarrow> 'a alert_scheme \<Rightarrow> bool" where
  "same_day tab a = list_ex (\<lambda>x. alert_key x = alert_key a \<and> al_day x = al_day a) (m_alerts tab)"

definition alerts_ok :: "alert_table \<Rightarrow> bool" where
  "alerts_ok tab \<longleftrightarrow>
     distinct (map alert_key (filter (\<lambda>x. unresolved (al_status x)) (m_alerts tab))) \<and>
     distinct (map (\<lambda>x. (alert_key x, al_day x)) (m_alerts tab))"

lemma alert_key_extend [simp]:
  "alert_key (alert.extend a x) = alert_key a" "al_day (alert.extend a x) = al_day a"
  "al_status (alert.extend a x) = al_status a"
  by (simp_all add: alert_key_def alert.defs)

lemma dedup_iff: "deduplicate_alerts xs a \<longleftrightarrow> \<not> list_ex (\<lambda>x. alert_key x = alert_key a \<and> unresolved (al_status x)) xs"
  by (induction xs) auto

lemma dedup_pending: "deduplicate_alerts (unresolved_alerts (al_sku a) (al_model a) (al_type a) tab) a \<longleftrightarrow> \<not> pending tab a"
  by (auto simp: dedup_iff unresolved_alerts_def pending_def list_ex_iff alert_key_def)

lemma alerts_ok_save:
  assumes "alerts_ok tab" and "\<not> pending tab a" and "save_alert now a tab = (r, tab')"
  shows "alerts_ok tab'"
  using assms by (auto simp: alerts_ok_def save_alert_def pending_def list_ex_iff split: if_splits) metis

lemma maybe_create_cases:
  "maybe_create_system_alert notify now a tab =
     (if pending tab a then (Ok None, tab)
      else if same_day tab a then (Err (DbUnique ''uq_monitoring_alert_dedup''), tab)
      else (Ok (Some (notify a)), snd (save_alert now a tab)))"
  by (simp add: maybe_create_system_alert_def dedup_pending save_alert_def same_day_def split: prod.split)

text \<open>The writers of the table: the two services, the pool alert, and an operator who sets a status
  (the program itself never resolves an alert).\<close>

datatype alert_op =
    RaiseAlert int alert
  | PoolExhausted bool int int nat nat
  | OperatorResolves int

fun alert_step :: "alert_op \<Rightarrow> alert_table \<Rightarrow> alert_table" where
  "alert_step (RaiseAlert now a) tab = snd (maybe_create_system_alert (\<lambda>a. []) now a tab)"
| "alert_step (PoolExhausted up now day active cap) tab = alert_pool_exhausted up now day active cap tab"
| "alert_step (OperatorResolves i) tab =
     tab\<lparr>m_alerts := update_where (\<lambda>x. al_id x = i) (\<lambda>x. x\<lparr>al_status := ''resolved''\<rparr>) (m_alerts tab)\<rparr>"

lemma resolve_keys:
  "map (\<lambda>x. (alert_key x, al_day x)) (update_where P (\<lambda>x. x\<lparr>al_status := st\<rparr>) xs) = map (\<lambda>x. (alert_key x, al_day x)) xs"
  by (induction xs) (auto simp: update_where_def alert_key_def)

lemma resolve_unresolved:
  "\<exists>Q. map alert_key (filter (\<lambda>x. unresolved (al_status x)) (update_where P (\<lambda>x. x\<lparr>al_status := ''resolved''\<rparr>) xs)) =
     map alert_key (filter (\<lambda>x. unresolved (al_status x) \<and> Q x) xs)"
proof
  show "map alert_key (filter (\<lambda>x. unresolved (al_status x)) (update_where P (\<lambda>x. x\<lparr>al_status := ''resolved''\<rparr>) xs)) =
     map alert_key (filter (\<lambda>x. unresolved (al_status x) \<and> \<not> P x) xs)"
    by (induction xs) (auto simp: update_where_def unresolved_def)
qed

lemma alerts_ok_resolve:
  assumes "alerts_ok tab"
  shows "alerts_ok (alert_step (OperatorResolves i) tab)"
proof -
  obtain Q where "map alert_key (filter (\<lambda>x. unresolved (al_status x)) (m_alerts (alert_step (OperatorResolves i) tab))) =
     map alert_key (filter (\<lambda>x. unresolved (al_status x) \<and> Q x) (m_alerts tab))"
    using resolve_unresolved[of "\<lambda>x. al_id x = i" "m_alerts tab"] by auto
  moreover have "distinct (map alert_key (filter (\<lambda>x. unresolved (al_status x) \<and> Q x) (m_alerts tab)))"
    using assms distinct_map_filter[of alert_key "filter (\<lambda>x. unresolved (al_status x)) (m_alerts tab)" Q]
    by (simp add: alerts_ok_def conj_commute)
  ultimately show ?thesis using assms by (simp add: alerts_ok_def resolve_keys)
qed

lemma alerts_ok_step: "alerts_ok tab \<Longrightarrow> alerts_ok (alert_step x tab)"
proof (cases x)
  case (RaiseAlert now a)
  assume "alerts_ok tab"
  then show ?thesis using RaiseAlert alerts_ok_save[of tab a now]
    by (auto simp: maybe_create_cases split: if_splits) (metis prod.collapse)
next
  case (PoolExhausted up now day active cap)
  assume "alerts_ok tab"
  then show ?thesis using PoolExhausted alerts_ok_save[of tab "generate_pool_exhaustion_alert day active cap" now]
    by (auto simp: alert_pool_exhausted_def pending_def Let_def split: if_splits) (metis prod.collapse)
qed (use alerts_ok_resolve in blast)

interpretation alerting: op_system alert_step alerts_ok
  by unfold_locales (rule alerts_ok_step)

text \<open>At most one unresolved alert per key exists after any sequence of failures, pool exhaustions
  and resolutions; and a new alert is dropped while one is unresolved, stored and routed when there is
  none of the key on that day, and lost with a unique violation (neither stored nor routed) when the one
  of that day has been resolved.\<close>
theorem alerts_deduplicated:
  assumes "alerts_ok tab0" and "tab = run alert_step ops tab0"
  shows "distinct (map alert_key (filter (\<lambda>x. unresolved (al_status x)) (m_alerts tab))) \<and>
    maybe_create_system_alert notify now a tab =
     (if pending tab a then (Ok None, tab)
      else if same_day tab a then (Err (DbUnique ''uq_monitoring_alert_dedup''), tab)
      else (Ok (Some (notify a)), tab\<lparr>m_alerts := m_alerts tab @
        [alert.extend a \<lparr>al_id = m_next tab, al_created = now\<rparr>], m_next := m_next tab + 1\<rparr>))"
  using alerting.inv_run[OF assms(1), of ops] assms(2)
  by (auto simp: maybe_create_cases alerts_ok_def save_alert_def same_day_def)

text \<open>An ETL failure, its resolution, and the next failure of the same day.\<close>

theorem alerts_deduplicated_witness:
  "let a = generate_etl_failure_alert 9 ''x'' None None;
       tab = run alert_step [RaiseAlert 1 a, OperatorResolves 1] \<lparr>m_alerts = [], m_next = 1\<rparr>
   in maybe_create_system_alert (\<lambda>a. []) 2 a tab = (Err (DbUnique ''uq_monitoring_alert_dedup''), tab)"
proof -
  let ?a = "generate_etl_failure_alert 9 ''x'' None None"
  let ?tab = "run alert_step [RaiseAlert 1 ?a, OperatorResolves 1] \<lparr>m_alerts = [], m_next = 1\<rparr>"
  have "alerts_ok \<lparr>m_alerts = [], m_next = 1\<rparr>" by (simp add: alerts_ok_def)
  from alerts_deduplicated[OF this refl, where notify = "\<lambda>a. []" and now = 2 and a = ?a] have
    "maybe_create_system_alert (\<lambda>a. []) 2 ?a ?tab = (if pending ?tab ?a then (Ok None, ?tab)
      else if same_day ?tab ?a then (Err (DbUnique ''uq_monitoring_alert_dedup''), ?tab)
      else (Ok (Some []), ?tab\<lparr>m_alerts := m_alerts ?tab @
        [alert.extend ?a \<lparr>al_id = m_next ?tab, al_created = 2\<rparr>], m_next := m_next ?tab + 1\<rparr>))" by blast
  moreover have "\<not> pending ?tab ?a" "same_day ?tab ?a" by code_simp+
  ultimately show ?thesis by simp
qed

text \<open>Routing reports every channel once and never raises, whatever mail and web delivery do; an
  unconfigured channel is skipped.\<close>

lemma notify_alert_channels:
  "map fst (notify_alert cfg mail post a) = [''email'', ''slack'', ''webhook''] \<and>
   (\<not> cf_email_enabled cfg \<and> cf_slack_url cfg = [] \<and> cf_webhook_url cfg = [] \<longrightarrow>
     map snd (notify_alert cfg mail post a) = [''skipped'', ''skipped'', ''skipped''])"
  by (simp add: notify_alert_def send_email_def or_failed_def)

section \<open>User notifications\<close>

record notif =
  nt_id :: int
  nt_user :: int
  nt_title :: string
  nt_message :: string
  nt_icon :: string
  nt_link :: "string option"
  nt_read :: bool
  nt_key :: "string option"
  nt_created :: int

record notif_db =
  nt_rows :: "notif list"
  nt_next :: int
  nt_accounts :: "account list"
  nt_products :: "product list"

text \<open>The row constraints: the user exists and the texts fit their columns.\<close>

definition notif_check :: "int \<Rightarrow> string \<Rightarrow> string \<Rightarrow> string option \<Rightarrow> notif_db \<Rightarrow> unit result" where
  "notif_check uid title icon link db =
     bindE (ensure (length title \<le> 200) (too_long 200)) (\<lambda>_.
     bindE (ensure (length icon \<le> 10) (too_long 10)) (\<lambda>_.
     bindE (ensure (fits 300 link) (too_long 300)) (\<lambda>_.
     ensure (uid \<in> set (map ac_id (nt_accounts db))) (DbForeignKey ''notifications_user_id_fkey''))))"

definition notif_insert :: "int \<Rightarrow> int \<Rightarrow> string \<Rightarrow> string \<Rightarrow> string \<Rightarrow> string option \<Rightarrow> string option \<Rightarrow> notif_db \<Rightarrow> notif_db" where
  "notif_insert now uid title msg icon link key db =
     db\<lparr>nt_rows := nt_rows db @ [\<lparr>nt_id = nt_next db, nt_user = uid, nt_title = title, nt_message = msg,
          nt_icon = icon, nt_link = link, nt_read = False, nt_key = key, nt_created = now\<rparr>],
        nt_next := nt_next db + 1\<rparr>"

definition repo_notif_list :: "int \<Rightarrow> nat \<Rightarrow> nat \<Rightarrow> notif_db \<Rightarrow> notif list" where
  "repo_notif_list uid limit offset db =
     take limit (drop offset (sort_key (\<lambda>r. - nt_created r) (filter (\<lambda>r. nt_user r = uid) (nt_rows db))))"

definition owned :: "int \<Rightarrow> int \<Rightarrow> notif \<Rightarrow> bool" where
  "owned i uid r \<longleftrightarrow> nt_id r = i \<and> nt_user r = uid"

definition repo_notif_get :: "int \<Rightarrow> int \<Rightarrow> notif_db \<Rightarrow> notif option" where
  "repo_notif_get i uid db = find_row (owned i uid) (nt_rows db)"

definition repo_mark_read :: "int \<Rightarrow> int \<Rightarrow> notif_db \<Rightarrow> notif_db" where
  "repo_mark_read i uid db = db\<lparr>nt_rows := update_where (owned i uid) (\<lambda>r. r\<lparr>nt_read := True\<rparr>) (nt_rows db)\<rparr>"

definition repo_mark_all_read :: "int \<Rightarrow> notif_db \<Rightarrow> notif_db" where
  "repo_mark_all_read uid db =
     db\<lparr>nt_rows := update_where (\<lambda>r. nt_user r = uid \<and> \<not> nt_read r) (\<lambda>r. r\<lparr>nt_read := True\<rparr>) (nt_rows db)\<rparr>"

definition repo_count_unread :: "int \<Rightarrow> notif_db \<Rightarrow> nat" where
  "repo_count_unread uid db = length (filter (\<lambda>r. nt_user r = uid \<and> \<not> nt_read r) (nt_rows db))"

definition repo_count_all :: "int \<Rightarrow> notif_db \<Rightarrow> nat" where
  "repo_count_all uid db = length (filter (\<lambda>r. nt_user r = uid) (nt_rows db))"

text \<open>An insert with a key that the user already has rewrites that notification (it keeps its read
  mark).\<close>

definition repo_notif_create ::
  "int \<Rightarrow> int \<Rightarrow> string \<Rightarrow> string \<Rightarrow> string \<Rightarrow> string option \<Rightarrow> string option \<Rightarrow> notif_db \<Rightarrow> int result \<times> notif_db" where
  "repo_notif_create now uid title msg icon link key db =
     (case notif_check uid title icon link db of
        Inl e \<Rightarrow> (Err e, db)
      | Inr _ \<Rightarrow>
          if \<not> fits 128 key then (Err (too_long 128), db)
          else (case (if key = None then None else find_row (\<lambda>r. nt_user r = uid \<and> nt_key r = key) (nt_rows db)) of
              Some old \<Rightarrow> (Ok (nt_id old), db\<lparr>nt_rows := update_where (\<lambda>r. nt_user r = uid \<and> nt_key r = key)
                (\<lambda>r. r\<lparr>nt_title := title, nt_message := msg, nt_icon := icon, nt_link := link, nt_created := now\<rparr>) (nt_rows db)\<rparr>)
            | None \<Rightarrow> (Ok (nt_next db), notif_insert now uid title msg icon link key db)))"

definition repo_notif_delete :: "int \<Rightarrow> int \<Rightarrow> notif_db \<Rightarrow> notif_db" where
  "repo_notif_delete i uid db = db\<lparr>nt_rows := filter (\<lambda>r. \<not> owned i uid r) (nt_rows db)\<rparr>"

subsection \<open>The notification centre\<close>

datatype center_op =
    CListNotifications nat nat
  | CGetNotification int
  | CMarkRead int
  | CMarkAllRead
  | CDeleteNotification int
  | CUnreadCount

datatype center_answer = CRows "notif list" | CRow "notif option" | CCount nat | CDone

definition authentication_required :: pyexc where "authentication_required = ValueError ''Authentication required''"

fun center :: "int option \<Rightarrow> center_op \<Rightarrow> notif_db \<Rightarrow> center_answer result \<times> notif_db" where
  "center None op db = (Err authentication_required, db)"
| "center (Some u) (CListNotifications limit offset) db = (Ok (CRows (repo_notif_list u limit offset db)), db)"
| "center (Some u) (CGetNotification i) db = (Ok (CRow (repo_notif_get i u db)), db)"
| "center (Some u) (CMarkRead i) db = (Ok CDone, repo_mark_read i u db)"
| "center (Some u) CMarkAllRead db = (Ok CDone, repo_mark_all_read u db)"
| "center (Some u) (CDeleteNotification i) db = (Ok CDone, repo_notif_delete i u db)"
| "center (Some u) CUnreadCount db = (Ok (CCount (repo_count_unread u db)), db)"

subsection \<open>Monitoring checks\<close>

definition admin_manager_ids :: "notif_db \<Rightarrow> int list" where
  "admin_manager_ids db = map ac_id (filter (\<lambda>a. ac_role a \<in> {''admin'', ''manager''} \<and> ac_active a) (nt_accounts db))"

text \<open>One transaction per title: all users get the notification or none.\<close>

definition bulk_create :: "int \<Rightarrow> int list \<Rightarrow> string \<Rightarrow> string \<Rightarrow> string \<Rightarrow> string option \<Rightarrow> notif_db \<Rightarrow> nat result \<times> notif_db" where
  "bulk_create now uids title msg icon link db =
     (if uids = [] then (Ok 0, db)
      else (case filter (\<lambda>r. isl r) (map (\<lambda>u. notif_check u title icon link db) uids) of
          Inl e # _ \<Rightarrow> (Err e, db)
        | _ \<Rightarrow> (Ok (length uids), fold (\<lambda>u. notif_insert now u title msg icon link None) uids db)))"

fun bulk_each :: "int \<Rightarrow> int list \<Rightarrow> (string \<times> string \<times> string \<times> string) list \<Rightarrow> notif_db \<Rightarrow> nat result \<times> notif_db" where
  "bulk_each now uids [] db = (Ok 0, db)"
| "bulk_each now uids ((title, msg, icon, link) # items) db =
     (case bulk_create now uids title msg icon (Some link) db of
        (Inl e, db1) \<Rightarrow> (Err e, db1)
      | (Inr n, db1) \<Rightarrow> (case bulk_each now uids items db1 of
          (Inl e, db2) \<Rightarrow> (Err e, db2)
        | (Inr m, db2) \<Rightarrow> (Ok (n + m), db2)))"

definition clear_stale_notifications :: "int \<Rightarrow> notif_db \<Rightarrow> nat \<times> notif_db" where
  "clear_stale_notifications now db =
     (let stale = (\<lambda>r. nt_created r < now - 30 * 86400)
      in (length (filter stale (nt_rows db)), db\<lparr>nt_rows := filter (\<lambda>r. \<not> stale r) (nt_rows db)\<rparr>))"

definition em_dash :: string where "em_dash = [CHR 0xE2, CHR 0x80, CHR 0x94]"

definition check_reorder_alerts :: "int \<Rightarrow> notif_db \<Rightarrow> nat result \<times> notif_db" where
  "check_reorder_alerts now db =
     (let low = filter (\<lambda>p. current_stock p \<le> reorder_point p \<and> on_order p \<le> 0) (nt_products db);
          users = admin_manager_ids db
      in if low = [] \<or> users = [] then (Ok 0, db)
         else bulk_each now users (map (\<lambda>p.
           (''Reorder: '' @ sku p,
            prod_name p @ '' ('' @ sku p @ '') '' @ em_dash @ '' stock '' @ int_str (current_stock p) @
              '', reorder at '' @ int_str (reorder_point p) @ ''.'',
            if current_stock p = 0 then ''&#9888;'' else ''&#9650;'',
            ''/inventory?search='' @ sku p)) low) db)"

definition check_out_of_stock :: "int \<Rightarrow> notif_db \<Rightarrow> nat result \<times> notif_db" where
  "check_out_of_stock now db =
     (let items = filter (\<lambda>p. current_stock p = 0) (nt_products db); users = admin_manager_ids db
      in if items = [] \<or> users = [] then (Ok 0, db)
         else bulk_each now users (map (\<lambda>p.
           (''Out of stock: '' @ sku p,
            prod_name p @ '' ('' @ sku p @ '') in '' @ warehouse p @ '' is out of stock.'',
            ''&#9888;'', ''/inventory?search='' @ sku p)) items) db)"

definition notify_movement :: "int \<Rightarrow> string \<Rightarrow> string \<Rightarrow> string \<Rightarrow> int \<Rightarrow> string \<Rightarrow> notif_db \<Rightarrow> nat result \<times> notif_db" where
  "notify_movement now code name ty qty wh db =
     (let direction = (if ty = ''OUT'' then ''OUT'' else ''IN'');
          icon = (if direction = ''OUT'' then ''&#8595;'' else ''&#8593;'')
      in bulk_create now (admin_manager_ids db) (''Movement '' @ direction @ '': '' @ code)
           (int_str qty @ ''x '' @ name @ '' ('' @ code @ '') moved '' @ direction @ '' in '' @ wh @ ''.'')
           icon (Some (''/inventory?search='' @ code)) db)"

definition spaces_for_underscores :: "string \<Rightarrow> string" where
  "spaces_for_underscores s = map (\<lambda>c. if c = CHR ''_'' then CHR '' '' else c) s"

fun title_case :: "bool \<Rightarrow> string \<Rightarrow> string" where
  "title_case after [] = []"
| "title_case after (c # s) = (if after then to_lower c else to_upper c) # title_case (is_letter c) s"

definition po_icon :: "string \<Rightarrow> string" where
  "po_icon st = (case map_of [(''approved'', ''&#10003;''), (''in_transit'', ''&#9992;''), (''received'', ''&#10004;''),
     (''draft'', ''&#9998;'')] st of Some i \<Rightarrow> i | None \<Rightarrow> ''&#9675;'')"

definition notify_po_status :: "int \<Rightarrow> string \<Rightarrow> string \<Rightarrow> string \<Rightarrow> notif_db \<Rightarrow> nat result \<times> notif_db" where
  "notify_po_status now number st supplier db =
     bulk_create now (admin_manager_ids db)
       (''PO '' @ title_case False (spaces_for_underscores st) @ '': '' @ number)
       (''PO '' @ number @ '' ('' @ supplier @ '') is now '' @ spaces_for_underscores st @ ''.'')
       (po_icon st) (Some ''/purchase-orders'') db"

definition run_checks :: "int \<Rightarrow> notif_db \<Rightarrow> (nat \<times> nat) result \<times> notif_db" where
  "run_checks now db =
     (case check_reorder_alerts now (snd (clear_stale_notifications now db)) of
        (Inl e, db1) \<Rightarrow> (Err e, db1)
      | (Inr n, db1) \<Rightarrow> (case check_out_of_stock now db1 of
          (Inl e, db2) \<Rightarrow> (Err e, db2)
        | (Inr m, db2) \<Rightarrow> (Ok (n, m), db2)))"

text \<open>The checks run inside a read-through of the global cache: a live entry suppresses them.\<close>

definition run_monitoring_checks ::
  "int \<Rightarrow> (nat \<times> nat) ttl_cache \<Rightarrow> notif_db \<Rightarrow> (nat \<times> nat) result \<times> (nat \<times> nat) ttl_cache \<times> notif_db" where
  "run_monitoring_checks now c db =
     (let t = real_of_int now; live = (cache_lookup c t ''notif_monitor_last'' \<noteq> None) in
      case run_checks now db of (r, db1) \<Rightarrow>
        (case cache_get_or_set t t t ''notif_monitor_last'' r c of (v, c1) \<Rightarrow> (v, c1, if live then db else db1)))"

section \<open>Isolation and throttling\<close>

lemma filter_update_where:
  "(\<And>r. P r \<Longrightarrow> \<not> Q r \<and> \<not> Q (f r)) \<Longrightarrow> filter Q (update_where P f rows) = filter Q rows"
  by (induction rows) (auto simp: update_where_def)

lemma center_others:
  "u \<noteq> Some v \<Longrightarrow> filter (\<lambda>r. nt_user r = v) (nt_rows (snd (center u op db))) = filter (\<lambda>r. nt_user r = v) (nt_rows db)"
proof (cases u)
  case (Some w)
  moreover assume "u \<noteq> Some v"
  ultimately show ?thesis
    by (cases op) (auto simp: repo_mark_read_def repo_mark_all_read_def repo_notif_delete_def owned_def
        filter_filter intro!: filter_update_where filter_cong)
qed simp

text \<open>Notifications are private: whatever the other users (and callers without a login) do in the
  notification centre, with any notification id, a user's notifications stay as they are, and every row
  that a user is shown is the user's own.\<close>
theorem notifications_isolated:
  assumes "\<forall>(u, op)\<in>set ops. u \<noteq> Some v"
  shows "filter (\<lambda>r. nt_user r = v) (nt_rows (run (\<lambda>(u, op) db. snd (center u op db)) ops db)) =
      filter (\<lambda>r. nt_user r = v) (nt_rows db) \<and>
    (case fst (center (Some w) op db) of
        Inr (CRows rs) \<Rightarrow> \<forall>r\<in>set rs. nt_user r = w
      | Inr (CRow (Some r)) \<Rightarrow> nt_user r = w
      | _ \<Rightarrow> True)"
proof
  show "filter (\<lambda>r. nt_user r = v) (nt_rows (run (\<lambda>(u, op) db. snd (center u op db)) ops db)) =
      filter (\<lambda>r. nt_user r = v) (nt_rows db)"
    using assms
  proof (induction ops arbitrary: db)
    case (Cons x ops)
    then show ?case using center_others[of "fst x" v "snd x" db] by (auto split: prod.splits)
  qed simp
  show "case fst (center (Some w) op db) of
        Inr (CRows rs) \<Rightarrow> \<forall>r\<in>set rs. nt_user r = w
      | Inr (CRow (Some r)) \<Rightarrow> nt_user r = w
      | _ \<Rightarrow> True"
    by (cases op) (auto simp: repo_notif_list_def repo_notif_get_def owned_def
        dest!: in_set_takeD in_set_dropD find_row_Some split: option.split)
qed

definition demo_notifs :: notif_db where
  "demo_notifs = \<lparr>nt_rows = [], nt_next = 1, nt_accounts = map (\<lambda>i. \<lparr>ac_id = i, ac_username = ''u'', ac_email = ''e'',
     ac_password = None, ac_role = ''manager'', ac_active = True, ac_deleted = False, ac_full_name = None,
     ac_department = None, ac_job_role = None, ac_manager = None, ac_last_login = None\<rparr>) [1, 2],
     nt_products = [demo_product 0]\<rparr>"

theorem notifications_isolated_witness:
  "let db = snd (run_checks 0 demo_notifs)
   in filter (\<lambda>r. nt_user r = 1) (nt_rows (run (\<lambda>(u, op) db. snd (center u op db))
        [(Some 2, CDeleteNotification 1), (Some 2, CMarkAllRead), (None, CMarkRead 1)] db)) =
      filter (\<lambda>r. nt_user r = 1) (nt_rows db) \<and> length (filter (\<lambda>r. nt_user r = 1) (nt_rows db)) = 2"
proof -
  let ?db = "snd (run_checks 0 demo_notifs)"
  have "length (filter (\<lambda>r. nt_user r = 1) (nt_rows ?db)) = 2" by code_simp
  then show ?thesis
    using notifications_isolated[of "[(Some 2, CDeleteNotification 1), (Some 2, CMarkAllRead), (None, CMarkRead 1)]" 1 ?db]
    by simp
qed

lemma get_keeps_limit [simp]: "max_entries (snd (cache_get t k c)) = max_entries c" "ttl (snd (cache_get t k c)) = ttl c"
  by (auto simp: cache_get_def split: option.split)

text \<open>After a successful round the global cache suppresses the next ones for its time to live: they
  answer the same counts and write nothing.\<close>

lemma monitoring_once_per_window:
  assumes "run_monitoring_checks now c db = (Ok v, c1, db1)" and "cache_lookup c now ''notif_monitor_last'' = None"
    and "0 < max_entries c" and "now \<le> now'" and "now' < now + ttl c"
  shows "\<exists>c2. run_monitoring_checks now' c1 db1 = (Ok v, c2, db1)"
proof -
  let ?k = "''notif_monitor_last''"
  define c0 where "c0 = snd (cache_get now ?k (snd (cache_get now ?k c)))"
  have "cache_lookup (snd (cache_get now ?k c)) now ?k = None"
    using assms(2) lookup_touch_same[of c now ?k now] by (simp add: cache_touch_def)
  then obtain r db2 where r: "run_checks now db = (r, db2)" and "(v, c1) = (projr r, cache_set now ?k v None c0)"
    using assms(1,2) get_value[of now ?k c] get_value[of now ?k "snd (cache_get now ?k c)"]
    by (auto simp: run_monitoring_checks_def cache_get_or_set_def c0_def Let_def split: prod.splits sum.splits option.splits)
  then have c1: "c1 = cache_set now ?k v None c0" by simp
  have "0 < max_entries c0" "ttl c0 = ttl c" using assms(3) by (simp_all add: c0_def)
  then have "fst (cache_get now' ?k c1) = Some v"
    using cache_set_then_get[of c0 now' ?k now v None] assms(5) unfolding c1 by simp
  then show ?thesis
    by (auto simp: run_monitoring_checks_def cache_get_or_set_def Let_def get_value[symmetric] split: prod.split option.split)
qed

end
