(* ===== verification/Connection.thy ===== *)
theory Connection
  imports Alerts
begin

text \<open>Connections: \<open>app/database/connection.py\<close>.  A connection is the integer \<open>id(conn)\<close>;
  psycopg2's pool and the server are parameters.  The model has one pool and one request at a time, and
  the clock is read once per operation.\<close>

section \<open>State\<close>

datatype stmt = SetUser string | Sql string

datatype db_event = Attempt int stmt | CommitOn int | RollbackOn int | CloseConn int

text \<open>\<open>ev_db\<close> is \<open>g.db\<close> (with \<open>g.db_pool\<close>); \<open>ev_out\<close> and \<open>ev_born\<close> are \<open>_CHECKOUT_TIMES\<close>
  and \<open>_CONN_BORN\<close>; \<open>ev_log\<close> is what was sent to the server, oldest first.\<close>

record 'p dbenv =
  ev_pool :: 'p
  ev_db :: "int option"
  ev_out :: "(int \<times> real) list"
  ev_born :: "(int \<times> real) list"
  ev_log :: "db_event list"
  ev_alerts :: alert_table

record 'p pool_api =
  pl_get :: "'p \<Rightarrow> (int \<times> 'p) result"
  pl_put :: "int \<Rightarrow> bool \<Rightarrow> 'p \<Rightarrow> unit result \<times> 'p"

text \<open>What the server answers may depend on everything sent before.\<close>

record server =
  sv_cursor :: "int \<Rightarrow> db_event list \<Rightarrow> unit result"
  sv_exec :: "int \<Rightarrow> stmt \<Rightarrow> db_event list \<Rightarrow> unit result"
  sv_commit :: "int \<Rightarrow> db_event list \<Rightarrow> unit result"
  sv_rollback :: "int \<Rightarrow> db_event list \<Rightarrow> unit result"

record pool_config =
  POOL_SIZE :: nat
  POOL_RECYCLE :: real
  STATEMENT_TIMEOUT_MS :: int
  LOCK_TIMEOUT_MS :: int

definition default_pool_config :: pool_config where
  "default_pool_config = \<lparr>POOL_SIZE = 20, POOL_RECYCLE = 1800, STATEMENT_TIMEOUT_MS = 60000, LOCK_TIMEOUT_MS = 5000\<rparr>"

definition db_options :: "pool_config \<Rightarrow> string" where
  "db_options cfg = ''-c statement_timeout='' @ int_str (STATEMENT_TIMEOUT_MS cfg) @ '' '' @
     ''-c lock_timeout='' @ int_str (LOCK_TIMEOUT_MS cfg) @ '' -c TimeZone=UTC''"

text \<open>\<open>repr\<close> of the sorted items is injective, so the key is the sorted list itself.\<close>

definition pool_key :: "payload \<Rightarrow> payload" where "pool_key params = sort_key (\<lambda>p. map code_of (fst p)) params"

definition make_conn_kwargs :: "pool_config \<Rightarrow> payload \<Rightarrow> payload" where
  "make_conn_kwargs cfg params =
     (let common = [(''cursor_factory'', PStr ''RealDictCursor''), (''connect_timeout'', PInt 15), (''keepalives'', PInt 1),
        (''keepalives_idle'', PInt 300), (''keepalives_interval'', PInt 30), (''options'', PStr (db_options cfg))];
          kwargs = (case map_of params ''dsn'' of Some d \<Rightarrow> (''dsn'', d) # common
                    | None \<Rightarrow> fold (\<lambda>(k, v). dput k v) common params)
      in if truthy (dget params ''sslmode'') then dput ''sslmode'' (dget params ''sslmode'') kwargs else kwargs)"

definition get_pool ::
  "(nat \<Rightarrow> payload \<Rightarrow> 'p) \<Rightarrow> pool_config \<Rightarrow> payload \<Rightarrow> (payload \<times> 'p) list \<Rightarrow> 'p \<times> (payload \<times> 'p) list" where
  "get_pool create cfg params pools = (case map_of pools (pool_key params) of
      Some p \<Rightarrow> (p, pools)
    | None \<Rightarrow> let p = create (POOL_SIZE cfg) (make_conn_kwargs cfg params) in (p, pools @ [(pool_key params, p)]))"

section \<open>Checkout and check-in\<close>

definition record_checkout :: "real \<Rightarrow> int \<Rightarrow> 'p dbenv \<Rightarrow> 'p dbenv" where
  "record_checkout now c env = env\<lparr>ev_out := AList.update c now (ev_out env),
     ev_born := (if map_of (ev_born env) c = None then AList.update c now (ev_born env) else ev_born env)\<rparr>"

text \<open>The second component is the warning for a checkout of more than five minutes.\<close>

definition record_checkin :: "real \<Rightarrow> int option \<Rightarrow> 'p dbenv \<Rightarrow> 'p dbenv \<times> bool" where
  "record_checkin now c env = (case c of None \<Rightarrow> (env, False)
    | Some c \<Rightarrow> (env\<lparr>ev_out := AList.delete c (ev_out env)\<rparr>,
        case map_of (ev_out env) c of Some t \<Rightarrow> 300 < now - t | None \<Rightarrow> False))"

text \<open>Too old a connection is closed and replaced; any error on the way is swallowed, and then the
  caller goes on with the old one.\<close>

definition validate_and_recycle :: "'p pool_api \<Rightarrow> pool_config \<Rightarrow> real \<Rightarrow> int \<Rightarrow> 'p dbenv \<Rightarrow> int \<times> 'p dbenv" where
  "validate_and_recycle api cfg now c env = (case map_of (ev_born env) c of
      None \<Rightarrow> (c, env)
    | Some born \<Rightarrow>
        if now - born \<le> POOL_RECYCLE cfg then (c, env)
        else (case pl_put api c True (ev_pool env) of
            (Inl e, p) \<Rightarrow> (c, env\<lparr>ev_pool := p\<rparr>)
          | (Inr _, p) \<Rightarrow>
              (let env1 = env\<lparr>ev_pool := p, ev_born := AList.delete c (ev_born env)\<rparr> in
               case pl_get api p of
                 Inl e \<Rightarrow> (c, env1)
               | Inr (c', p') \<Rightarrow> (c', record_checkout now c' (env1\<lparr>ev_pool := p'\<rparr>)))))"

abbreviation PoolError :: "string \<Rightarrow> pyexc" where "PoolError m \<equiv> DomainError ''PoolError'' m"

fun is_pool_error :: "pyexc \<Rightarrow> bool" where
  "is_pool_error (DomainError c m) = (c = ''PoolError'')"
| "is_pool_error e = False"

text \<open>\<open>alert_conn\<close>: whether the dedicated connection of the pool alert works.\<close>

definition get_connection ::
  "'p pool_api \<Rightarrow> pool_config \<Rightarrow> bool \<Rightarrow> real \<Rightarrow> 'p dbenv \<Rightarrow> int result \<times> 'p dbenv" where
  "get_connection api cfg alert_conn now env = (case ev_db env of
      Some c \<Rightarrow> (Ok c, env)
    | None \<Rightarrow> (case pl_get api (ev_pool env) of
        Inl e \<Rightarrow> (Err e, if is_pool_error e
           then env\<lparr>ev_alerts := alert_pool_exhausted alert_conn \<lfloor>now\<rfloor> (\<lfloor>now\<rfloor> div 86400) (length (ev_out env))
             (POOL_SIZE cfg) (ev_alerts env)\<rparr> else env)
      | Inr (c, p) \<Rightarrow>
          (case validate_and_recycle api cfg now c (record_checkout now c (env\<lparr>ev_pool := p\<rparr>)) of
             (c', env1) \<Rightarrow> (Ok c', env1\<lparr>ev_db := Some c'\<rparr>))))"

definition validate_connection :: "server \<Rightarrow> int \<Rightarrow> db_event list \<Rightarrow> bool" where
  "validate_connection srv c h = (\<not> isl (sv_exec srv c (Sql ''SELECT 1'') h))"

definition close_connection :: "'p pool_api \<Rightarrow> server \<Rightarrow> real \<Rightarrow> bool \<Rightarrow> 'p dbenv \<Rightarrow> 'p dbenv" where
  "close_connection api srv now exc env = (case ev_db env of
      None \<Rightarrow> env
    | Some c \<Rightarrow>
        (let env0 = env\<lparr>ev_db := None\<rparr>;
             give_up = (\<lambda>e. e\<lparr>ev_born := AList.delete c (ev_born e), ev_log := ev_log e @ [CloseConn c]\<rparr>);
             rolled = (if exc then env0\<lparr>ev_log := ev_log env0 @ [RollbackOn c]\<rparr> else env0)
         in if exc \<and> isl (sv_rollback srv c (ev_log env0)) then give_up rolled
            else let env1 = fst (record_checkin now (Some c) rolled) in
              (case pl_put api c False (ev_pool env1) of
                 (Inr _, p) \<Rightarrow> env1\<lparr>ev_pool := p\<rparr>
               | (Inl e, p) \<Rightarrow> give_up (env1\<lparr>ev_pool := p\<rparr>))))"

section \<open>The retry-once cursor\<close>

record proxy =
  px_conn :: int
  px_executed :: bool

text \<open>\<open>InterfaceError\<close> and \<open>OperationalError\<close>, but not a cancelled query.\<close>

fun is_stale_error :: "pyexc \<Rightarrow> bool" where
  "is_stale_error (DbOperational m) = True"
| "is_stale_error (DomainError c m) = (c = ''InterfaceError'')"
| "is_stale_error e = False"

definition send :: "server \<Rightarrow> int \<Rightarrow> stmt \<Rightarrow> 'p dbenv \<Rightarrow> unit result \<times> 'p dbenv" where
  "send srv c q env = (sv_exec srv c q (ev_log env), env\<lparr>ev_log := ev_log env @ [Attempt c q]\<rparr>)"

text \<open>The bad connection is rolled back and evicted, every error of it swallowed; a new one is drawn.\<close>

definition evict :: "'p pool_api \<Rightarrow> real \<Rightarrow> 'p dbenv \<Rightarrow> 'p dbenv" where
  "evict api now env = (case ev_db env of
      None \<Rightarrow> env
    | Some g \<Rightarrow> (fst (record_checkin now (Some g) env))\<lparr>ev_pool := snd (pl_put api g True (ev_pool env))\<rparr>)"

definition redraw :: "'p pool_api \<Rightarrow> pool_config \<Rightarrow> bool \<Rightarrow> real \<Rightarrow> 'p dbenv \<Rightarrow> int result \<times> 'p dbenv" where
  "redraw api cfg alert_conn now env = (case ev_db env of
      None \<Rightarrow> get_connection api cfg alert_conn now env
    | Some g \<Rightarrow> (case pl_get api (ev_pool env) of Inl e \<Rightarrow> (Err e, env) | Inr (c, p) \<Rightarrow> (Ok c, env\<lparr>ev_pool := p\<rparr>)))"

definition maybe_retry ::
  "'p pool_api \<Rightarrow> server \<Rightarrow> pool_config \<Rightarrow> bool \<Rightarrow> real \<Rightarrow> stmt \<Rightarrow> proxy \<Rightarrow> 'p dbenv \<Rightarrow> unit result \<times> proxy \<times> 'p dbenv" where
  "maybe_retry api srv cfg alert_conn now q px env =
     (if px_executed px then (case send srv (px_conn px) q env of (r, env1) \<Rightarrow> (r, px, env1))
      else (case send srv (px_conn px) q env of
          (Inr _, env1) \<Rightarrow> (Ok (), px\<lparr>px_executed := True\<rparr>, env1)
        | (Inl e, env1) \<Rightarrow>
            if \<not> is_stale_error e then (Err e, px\<lparr>px_executed := True\<rparr>, env1)
            else (case redraw api cfg alert_conn now
                    (evict api now (env1\<lparr>ev_log := ev_log env1 @ [RollbackOn (px_conn px)]\<rparr>)) of
                (Inl e', env2) \<Rightarrow> (Err e', px\<lparr>px_executed := True\<rparr>, env2)
              | (Inr c, env2) \<Rightarrow>
                  (let env3 = record_checkout now c (env2\<lparr>ev_db := Some c\<rparr>); px1 = \<lparr>px_conn = c, px_executed = True\<rparr>
                   in case sv_cursor srv c (ev_log env3) of
                        Inl e' \<Rightarrow> (Err e', px1, env3)
                      | Inr _ \<Rightarrow> (case send srv c q env3 of (r, env4) \<Rightarrow> (r, px1, env4))))))"

section \<open>\<open>get_cursor\<close>\<close>

text \<open>The body of the \<open>with\<close> block: statements, and the exceptions its own code raises.\<close>

datatype body_step = Execute string | RaiseHere pyexc

fun run_body ::
  "'p pool_api \<Rightarrow> server \<Rightarrow> pool_config \<Rightarrow> bool \<Rightarrow> real \<Rightarrow> body_step list \<Rightarrow> proxy \<Rightarrow> 'p dbenv \<Rightarrow> unit result \<times> proxy \<times> 'p dbenv" where
  "run_body api srv cfg ac now [] px env = (Ok (), px, env)"
| "run_body api srv cfg ac now (RaiseHere e # xs) px env = (Err e, px, env)"
| "run_body api srv cfg ac now (Execute q # xs) px env =
     (case maybe_retry api srv cfg ac now (Sql q) px env of
        (Inl e, px1, env1) \<Rightarrow> (Err e, px1, env1)
      | (Inr _, px1, env1) \<Rightarrow> run_body api srv cfg ac now xs px1 env1)"

text \<open>Commit on success, roll back and raise on any error; a rollback that fails raises its own error.\<close>

definition finish_cursor :: "server \<Rightarrow> bool \<Rightarrow> unit result \<Rightarrow> int \<Rightarrow> 'p dbenv \<Rightarrow> unit result \<times> 'p dbenv" where
  "finish_cursor srv commit r c env =
     (let (r1, env1) = (if r = Ok () \<and> commit
            then (sv_commit srv c (ev_log env), env\<lparr>ev_log := ev_log env @ [CommitOn c]\<rparr>) else (r, env))
      in case r1 of
           Inr _ \<Rightarrow> (Ok (), env1)
         | Inl e \<Rightarrow> (case sv_rollback srv c (ev_log env1) of Inl e' \<Rightarrow> Err e' | Inr _ \<Rightarrow> Err e,
             env1\<lparr>ev_log := ev_log env1 @ [RollbackOn c]\<rparr>))"

definition with_cursor ::
  "'p pool_api \<Rightarrow> server \<Rightarrow> pool_config \<Rightarrow> bool \<Rightarrow> real \<Rightarrow> int option \<Rightarrow> bool \<Rightarrow> body_step list \<Rightarrow> 'p dbenv \<Rightarrow>
   unit result \<times> 'p dbenv" where
  "with_cursor api srv cfg ac now uid commit body env =
     (case get_connection api cfg ac now env of
        (Inl e, env1) \<Rightarrow> (Err e, env1)
      | (Inr c, env1) \<Rightarrow>
          (case sv_cursor srv c (ev_log env1) of
             Inl e \<Rightarrow> (Err e, env1)
           | Inr _ \<Rightarrow>
               (let user = (case uid of Some u \<Rightarrow> int_str u | None \<Rightarrow> []);
                    (r, px, env2) = (case maybe_retry api srv cfg ac now (SetUser user) \<lparr>px_conn = c, px_executed = False\<rparr> env1 of
                        (Inl e, px1, env2) \<Rightarrow> (Err e, px1, env2)
                      | (Inr _, px1, env2) \<Rightarrow> run_body api srv cfg ac now body px1 env2);
                    (r', env3) = finish_cursor srv commit r (px_conn px) env2
                in (r', fst (record_checkin now (Some (px_conn px)) env3)))))"

section \<open>No statement is sent twice\<close>

definition statements :: "body_step list \<Rightarrow> string list" where
  "statements body = concat (map (\<lambda>x. case x of Execute q \<Rightarrow> [q] | RaiseHere e \<Rightarrow> []) body)"

definition completes :: "body_step list \<Rightarrow> bool" where
  "completes body = list_all (\<lambda>x. case x of Execute q \<Rightarrow> True | RaiseHere e \<Rightarrow> False) body"

fun preparatory :: "db_event \<Rightarrow> bool" where
  "preparatory (Attempt c (SetUser u)) = True"
| "preparatory (RollbackOn c) = True"
| "preparatory e = False"

lemma statements_simps [simp]:
  "statements [] = []" "statements (Execute q # xs) = q # statements xs" "statements (RaiseHere e # xs) = statements xs"
  by (simp_all add: statements_def)

lemma log_frame [simp]:
  "ev_log (record_checkout now c env) = ev_log env" "ev_log (fst (record_checkin now k env)) = ev_log env"
  by (simp_all add: record_checkout_def record_checkin_def split: option.split)

lemma recycle_log [simp]: "ev_log (snd (validate_and_recycle api cfg now c env)) = ev_log env"
  by (simp add: validate_and_recycle_def Let_def split: option.split sum.split prod.split)

lemma recycle_log': "validate_and_recycle api cfg now c env = (c', env') \<Longrightarrow> ev_log env' = ev_log env"
  using recycle_log[of api cfg now c env] by simp

lemma get_connection_log [simp]: "ev_log (snd (get_connection api cfg ac now env)) = ev_log env"
  unfolding get_connection_def by (auto split: option.split sum.split prod.split dest: recycle_log')

lemma get_connection_log': "get_connection api cfg ac now env = (r, env') \<Longrightarrow> ev_log env' = ev_log env"
  using get_connection_log[of api cfg ac now env] by simp

lemma maybe_retry_later:
  "px_executed px \<Longrightarrow> maybe_retry api srv cfg ac now q px env =
     (sv_exec srv (px_conn px) q (ev_log env), px, env\<lparr>ev_log := ev_log env @ [Attempt (px_conn px) q]\<rparr>)"
  by (simp add: maybe_retry_def send_def)

lemma evict_log [simp]: "ev_log (evict api now env) = ev_log env"
  by (simp add: evict_def split: option.split)

lemma redraw_log: "redraw api cfg ac now env = (r, env') \<Longrightarrow> ev_log env' = ev_log env"
  by (auto simp: redraw_def dest: get_connection_log' split: option.splits sum.splits prod.splits)

lemma maybe_retry_first:
  assumes "maybe_retry api srv cfg ac now q px env = (r, px', env')" and "\<not> px_executed px"
  shows "px_executed px' \<and> (\<exists>d. ev_log env' = ev_log env @ d \<and>
    (\<forall>e\<in>set d. (\<exists>c. e = Attempt c q \<or> e = RollbackOn c)))"
  using assms
  by (auto simp: maybe_retry_def send_def Let_def split: sum.splits prod.splits if_splits dest!: redraw_log)

lemma run_body_log:
  assumes "run_body api srv cfg ac now body px env = (r, px', env')" and "px_executed px"
  shows "px' = px \<and> (\<exists>n. ev_log env' = ev_log env @ map (\<lambda>q. Attempt (px_conn px) (Sql q)) (take n (statements body)) \<and>
    (r = Ok () \<longrightarrow> n = length (statements body) \<and> completes body))"
  using assms
proof (induction body arbitrary: env)
  case Nil then show ?case by (simp add: completes_def)
next
  case (Cons x xs)
  show ?case
  proof (cases x)
    case (RaiseHere e)
    then show ?thesis using Cons.prems by (auto intro: exI[of _ 0])
  next
    case (Execute q)
    show ?thesis
    proof (cases "sv_exec srv (px_conn px) (Sql q) (ev_log env)")
      case (Inl e)
      then show ?thesis using Cons.prems Execute by (auto simp: maybe_retry_later intro: exI[of _ 1])
    next
      case (Inr v)
      then have "run_body api srv cfg ac now xs px (env\<lparr>ev_log := ev_log env @ [Attempt (px_conn px) (Sql q)]\<rparr>) = (r, px', env')"
        using Cons.prems Execute by (simp add: maybe_retry_later)
      from Cons.IH[OF this Cons.prems(2)] obtain n where "px' = px"
        "ev_log env' = ev_log env @ Attempt (px_conn px) (Sql q) # map (\<lambda>q. Attempt (px_conn px) (Sql q)) (take n (statements xs))"
        "r = Ok () \<longrightarrow> n = length (statements xs) \<and> completes xs" by auto
      then show ?thesis using Execute by (intro conjI exI[of _ "Suc n"]) (auto simp: completes_def)
    qed
  qed
qed

lemma finish_cursor_log:
  assumes "finish_cursor srv commit r c env = (r', env')"
  shows "\<exists>fin\<in>{[], [CommitOn c], [RollbackOn c], [CommitOn c, RollbackOn c]}. ev_log env' = ev_log env @ fin \<and>
    (CommitOn c \<in> set fin \<longrightarrow> commit \<and> r = Ok ()) \<and>
    (r' = Ok () \<longrightarrow> r = Ok () \<and> fin = (if commit then [CommitOn c] else []))"
  using assms by (auto simp: finish_cursor_def Let_def split: if_splits sum.splits prod.splits)

text \<open>C23: The retry proxy never sends a statement of the program twice: whatever the server and the pool
  do, a \<open>get_cursor\<close> block sends, after preparatory \<open>set_config\<close> attempts and rollbacks, a
  prefix of its statements, each once, in order and on one connection; it commits only after all of
  them, on that connection, and when the block returns normally every statement was sent and, if asked
  for, the commit too.\<close>
theorem statements_sent_once:
  assumes "with_cursor api srv cfg ac now uid commit body env = (r, env')"
  shows "\<exists>setup c n fin. ev_log env' =
      ev_log env @ setup @ map (\<lambda>q. Attempt c (Sql q)) (take n (statements body)) @ fin \<and>
    list_all preparatory setup \<and> fin \<in> {[], [CommitOn c], [RollbackOn c], [CommitOn c, RollbackOn c]} \<and>
    (CommitOn c \<in> set fin \<longrightarrow> commit \<and> n = length (statements body) \<and> completes body) \<and>
    (r = Ok () \<longrightarrow> n = length (statements body) \<and> completes body \<and> fin = (if commit then [CommitOn c] else []))"
  (is "\<exists>setup c n fin. ?P setup c n fin")
proof -
  obtain g env1 where g: "get_connection api cfg ac now env = (g, env1)" by fastforce
  have l1: "ev_log env1 = ev_log env" using get_connection_log[of api cfg ac now env] g by simp
  consider (none) e where "g = Inl e" | (dead) c e where "g = Inr c" "sv_cursor srv c (ev_log env1) = Inl e"
    | (live) c v where "g = Inr c" "sv_cursor srv c (ev_log env1) = Inr v"
    by (metis sum.exhaust)
  then show ?thesis
  proof cases
    case none
    then have "?P [] 0 0 []" using assms g l1 by (auto simp: with_cursor_def)
    then show ?thesis by blast
  next
    case dead
    then have "?P [] 0 0 []" using assms g l1 by (auto simp: with_cursor_def)
    then show ?thesis by blast
  next
    case live
    note c = live
    define user where "user = (case uid of Some u \<Rightarrow> int_str u | None \<Rightarrow> [])"
    obtain r1 px env2 where m: "maybe_retry api srv cfg ac now (SetUser user) \<lparr>px_conn = c, px_executed = False\<rparr> env1 = (r1, px, env2)"
      by (metis prod_cases3)
    from maybe_retry_first[OF m] obtain d where d: "px_executed px" "ev_log env2 = ev_log env @ d" "list_all preparatory d"
      using l1 by (auto simp: list_all_iff) (metis preparatory.simps(1,2))
    define mid where "mid = (case r1 of Inl e \<Rightarrow> (Err e, px, env2) | Inr _ \<Rightarrow> run_body api srv cfg ac now body px env2)"
    obtain r2 px2 env3 where mid: "mid = (r2, px2, env3)" by (metis prod_cases3)
    obtain r3 env4 where fin: "finish_cursor srv commit r2 (px_conn px2) env3 = (r3, env4)" by fastforce
    have e: "r = r3" "ev_log env' = ev_log env4"
      using assms g c m mid fin unfolding with_cursor_def mid_def user_def by (auto simp: Let_def split: sum.splits)
    have "\<exists>n. px2 = px \<and> ev_log env3 = ev_log env2 @ map (\<lambda>q. Attempt (px_conn px) (Sql q)) (take n (statements body)) \<and>
      (r2 = Ok () \<longrightarrow> n = length (statements body) \<and> completes body)"
      using mid run_body_log[of api srv cfg ac now body px env2 r2 px2 env3] d(1)
      by (cases r1) (auto simp: mid_def intro: exI[of _ 0])
    then obtain n where n: "px2 = px" "ev_log env3 = ev_log env2 @ map (\<lambda>q. Attempt (px_conn px) (Sql q)) (take n (statements body))"
      "r2 = Ok () \<longrightarrow> n = length (statements body) \<and> completes body" by blast
    from finish_cursor_log[OF fin] obtain fin where f: "fin \<in> {[], [CommitOn (px_conn px)], [RollbackOn (px_conn px)],
        [CommitOn (px_conn px), RollbackOn (px_conn px)]}" "ev_log env4 = ev_log env3 @ fin"
      "CommitOn (px_conn px) \<in> set fin \<longrightarrow> commit \<and> r2 = Ok ()"
      "r3 = Ok () \<longrightarrow> r2 = Ok () \<and> fin = (if commit then [CommitOn (px_conn px)] else [])" using n(1) by blast
    have logged: "ev_log env' = ev_log env @ d @ map (\<lambda>q. Attempt (px_conn px) (Sql q)) (take n (statements body)) @ fin"
      using d(2) n(2) f(2) e(2) by simp
    have "?P d (px_conn px) n fin" using f(3,4) n(3) e(1) by (intro conjI logged d(3) f(1)) blast+
    then show ?thesis by (intro exI)
  qed
qed

text \<open>A small pool for the examples: ids are never reused, at most \<open>cap\<close> connections are out.\<close>

record small_pool =
  sp_cap :: nat
  sp_last :: int
  sp_used :: "int list"

definition small_api :: "small_pool pool_api" where
  "small_api = \<lparr>pl_get = (\<lambda>p. if length (sp_used p) < sp_cap p
       then let c = fold max (sp_used p) (sp_last p) + 1 in Ok (c, p\<lparr>sp_last := c, sp_used := c # sp_used p\<rparr>)
       else Err (PoolError ''connection pool exhausted'')),
     pl_put = (\<lambda>c cl p. if c \<in> set (sp_used p) then (Ok (), p\<lparr>sp_used := removeAll c (sp_used p)\<rparr>)
       else (Err (PoolError ''trying to put unkeyed connection''), p))\<rparr>"

definition env_start :: "nat \<Rightarrow> small_pool dbenv" where
  "env_start cap = \<lparr>ev_pool = \<lparr>sp_cap = cap, sp_last = 0, sp_used = []\<rparr>, ev_db = None, ev_out = [], ev_born = [],
     ev_log = [], ev_alerts = \<lparr>m_alerts = [], m_next = 1\<rparr>\<rparr>"

text \<open>Connection 1 is stale: whatever is sent on it fails, and it cannot be rolled back.\<close>

definition stale_server :: server where
  "stale_server = (let dead = (\<lambda>c h. if c = 1 then Err (DbOperational ''server closed the connection'') else Ok ())
     in \<lparr>sv_cursor = (\<lambda>c h. Ok ()), sv_exec = (\<lambda>c q h. dead c h), sv_commit = dead, sv_rollback = dead\<rparr>)"

theorem statements_sent_once_witness:
  "let body = [Execute ''UPDATE'', Execute ''INSERT''];
       (r, env') = with_cursor small_api stale_server default_pool_config True 0 (Some 7) True body (env_start 2)
   in r = Ok () \<and> ev_log env' = [Attempt 1 (SetUser ''7''), RollbackOn 1, Attempt 2 (SetUser ''7''),
        Attempt 2 (Sql ''UPDATE''), Attempt 2 (Sql ''INSERT''), CommitOn 2] \<and>
      (\<exists>setup c n fin. ev_log env' = setup @ map (\<lambda>q. Attempt c (Sql q)) (take n (statements body)) @ fin \<and>
        n = 2 \<and> fin = [CommitOn c])"
proof -
  let ?body = "[Execute ''UPDATE'', Execute ''INSERT'']"
  let ?run = "with_cursor small_api stale_server default_pool_config True 0 (Some 7) True ?body (env_start 2)"
  obtain r env' where e: "?run = (r, env')" by fastforce
  have run: "fst ?run = Ok () \<and> ev_log (snd ?run) = [Attempt 1 (SetUser ''7''), RollbackOn 1, Attempt 2 (SetUser ''7''),
        Attempt 2 (Sql ''UPDATE''), Attempt 2 (Sql ''INSERT''), CommitOn 2]" by code_simp
  then have "r = Ok ()" using e by simp
  with statements_sent_once[OF e] obtain pre c n fin where
    "ev_log env' = ev_log (env_start 2) @ pre @ map (\<lambda>q. Attempt c (Sql q)) (take n (statements ?body)) @ fin"
    "n = 2" "fin = [CommitOn c]" by auto
  moreover have "ev_log (env_start 2) = []" by (simp add: env_start_def)
  ultimately show ?thesis using run e by (auto simp: Let_def)
qed

section \<open>Every connection goes back to the pool\<close>

definition pool_laws :: "'p pool_api \<Rightarrow> ('p \<Rightarrow> int set) \<Rightarrow> bool" where
  "pool_laws api held \<longleftrightarrow>
     (\<forall>p c p'. pl_get api p = Inr (c, p') \<longrightarrow> c \<notin> held p \<and> held p' = insert c (held p)) \<and>
     (\<forall>p c b. if c \<in> held p then \<exists>p'. pl_put api c b p = (Inr (), p') \<and> held p' = held p - {c}
              else \<exists>e p'. pl_put api c b p = (Inl e, p') \<and> held p' = held p)"

text \<open>The request holds \<open>g.db\<close>, or nothing: \<open>H\<close> is what others hold.\<close>

definition balanced :: "('p \<Rightarrow> int set) \<Rightarrow> int set \<Rightarrow> 'p dbenv \<Rightarrow> bool" where
  "balanced held H env \<longleftrightarrow> (ev_db env = None \<longrightarrow> held (ev_pool env) = H) \<and>
     (\<forall>c. ev_db env = Some c \<longrightarrow> c \<notin> H \<and> (held (ev_pool env) = H \<or> held (ev_pool env) = insert c H))"

lemma balanced_frame [simp]:
  "balanced held H (env\<lparr>ev_log := l\<rparr>) = balanced held H env"
  "balanced held H (env\<lparr>ev_alerts := a\<rparr>) = balanced held H env"
  by (simp_all add: balanced_def)

lemma pool_get: "pool_laws api held \<Longrightarrow> pl_get api p = Inr (c, p') \<Longrightarrow> c \<notin> held p \<and> held p' = insert c (held p)"
  by (simp add: pool_laws_def)

lemma pool_put:
  assumes "pool_laws api held" and "pl_put api c b p = (r, p')" and "c \<notin> H" and "held p = H \<or> held p = insert c H"
  shows "held p' = H \<and> (isl r \<longleftrightarrow> held p = H)"
proof (cases "c \<in> held p")
  case True
  then obtain q where "pl_put api c b p = (Inr (), q)" "held q = held p - {c}"
    using assms(1) unfolding pool_laws_def by metis
  then show ?thesis using assms(2-4) True by auto
next
  case False
  then obtain e q where "pl_put api c b p = (Inl e, q)" "held q = held p"
    using assms(1) unfolding pool_laws_def by metis
  then show ?thesis using assms(2-4) False by auto
qed

lemma env_frame [simp]:
  "ev_pool (record_checkout now c env) = ev_pool env" "ev_db (record_checkout now c env) = ev_db env"
  "ev_pool (fst (record_checkin now k env)) = ev_pool env" "ev_db (fst (record_checkin now k env)) = ev_db env"
  by (simp_all add: record_checkout_def record_checkin_def split: option.split)

lemma balanced_checkin [simp]:
  "balanced held H (fst (record_checkin now k env)) = balanced held H env"
  "balanced held H (record_checkout now c env) = balanced held H env"
  by (simp_all add: balanced_def)

lemma recycle_balanced:
  assumes "pool_laws api held" and "validate_and_recycle api cfg now c env = (c', env')"
    and "c \<notin> H" and "held (ev_pool env) = insert c H"
  shows "ev_db env' = ev_db env \<and> c' \<notin> H \<and> (held (ev_pool env') = H \<or> held (ev_pool env') = insert c' H)"
proof -
  obtain r p where p: "pl_put api c True (ev_pool env) = (r, p)" by fastforce
  from pool_put[OF assms(1) this assms(3)] assms(3,4) obtain v where H: "held p = H" "r = Inr v"
    by (cases r) auto
  define E where "E = env\<lparr>ev_pool := p, ev_born := AList.delete c (ev_born env)\<rparr>"
  have E: "ev_pool E = p" "ev_db E = ev_db env" by (simp_all add: E_def)
  have v: "validate_and_recycle api cfg now c env = (c, env) \<or> validate_and_recycle api cfg now c env =
      (case pl_get api p of Inl e \<Rightarrow> (c, E) | Inr (k, q) \<Rightarrow> (k, record_checkout now k (E\<lparr>ev_pool := q\<rparr>)))"
    unfolding E_def by (simp add: validate_and_recycle_def p H(2) Let_def split: option.split)
  show ?thesis
  proof (cases "pl_get api p")
    case (Inl e)
    then have "(c', env') = (c, env) \<or> (c', env') = (c, E)" using v assms(2) by simp
    then show ?thesis using assms(3,4) E H(1) by (elim disjE) simp_all
  next
    case (Inr x)
    obtain k q where x: "x = (k, q)" by fastforce
    have "k \<notin> H" "held q = insert k H" using pool_get[OF assms(1)] Inr x H(1) by auto
    moreover have "(c', env') = (c, env) \<or> (c', env') = (k, record_checkout now k (E\<lparr>ev_pool := q\<rparr>))"
      using v assms(2) Inr x by simp
    ultimately show ?thesis using assms(3,4) E by (elim disjE) simp_all
  qed
qed

lemma get_connection_balanced:
  assumes "pool_laws api held" and "balanced held H env" and "get_connection api cfg ac now env = (r, env')"
  shows "balanced held H env' \<and> (case r of Inr c \<Rightarrow> ev_db env' = Some c | Inl e \<Rightarrow> ev_db env' = None)"
proof (cases "ev_db env")
  case None
  then have H: "held (ev_pool env) = H" using assms(2) by (simp add: balanced_def)
  show ?thesis
  proof (cases "pl_get api (ev_pool env)")
    case (Inl e)
    then show ?thesis using None H assms(3) by (cases "is_pool_error e") (auto simp: get_connection_def balanced_def)
  next
    case (Inr cp)
    obtain c p where cp: "cp = (c, p)" by fastforce
    obtain c' env1 where v: "validate_and_recycle api cfg now c (record_checkout now c (env\<lparr>ev_pool := p\<rparr>)) = (c', env1)" by fastforce
    have "c \<notin> H" "held p = insert c H" using pool_get[OF assms(1)] Inr cp H by auto
    with recycle_balanced[OF assms(1) v, of H] show ?thesis
      using None Inr cp v assms(3) by (auto simp: get_connection_def balanced_def)
  qed
qed (use assms in \<open>auto simp: get_connection_def\<close>)

lemma evict_balanced:
  assumes "pool_laws api held" and "balanced held H env"
  shows "balanced held H (evict api now env) \<and> ev_db (evict api now env) = ev_db env \<and> held (ev_pool (evict api now env)) = H"
proof (cases "ev_db env")
  case (Some g)
  obtain r p where p: "pl_put api g True (ev_pool env) = (r, p)" by fastforce
  show ?thesis using Some assms(2) pool_put[OF assms(1) p, of H] p
    by (auto simp: evict_def balanced_def)
qed (use assms(2) in \<open>simp add: evict_def balanced_def\<close>)

lemma redraw_balanced:
  assumes "pool_laws api held" and "balanced held H env" and "held (ev_pool env) = H" and "redraw api cfg ac now env = (r, env')"
  shows "case r of Inr c \<Rightarrow> balanced held H (env'\<lparr>ev_db := Some c\<rparr>) | Inl e \<Rightarrow> balanced held H env'"
proof (cases "ev_db env")
  case None
  then show ?thesis using get_connection_balanced[OF assms(1,2), of cfg ac now r env'] assms(4)
    by (cases r) (auto simp: redraw_def balanced_def)
next
  case (Some g)
  show ?thesis using Some assms(2-4) pool_get[OF assms(1)]
    by (auto simp: redraw_def balanced_def split: sum.splits prod.splits)
qed

lemma maybe_retry_balanced:
  assumes "pool_laws api held" and "balanced held H env" and "maybe_retry api srv cfg ac now q px env = (r, px', env')"
  shows "balanced held H env'"
proof -
  let ?env1 = "env\<lparr>ev_log := (ev_log env @ [Attempt (px_conn px) q]) @ [RollbackOn (px_conn px)]\<rparr>"
  have b: "balanced held H ?env1" using assms(2) by simp
  obtain g env2 where g: "redraw api cfg ac now (evict api now ?env1) = (g, env2)" by fastforce
  from redraw_balanced[OF assms(1) _ _ g, of H] evict_balanced[OF assms(1) b]
  have "case g of Inr c \<Rightarrow> balanced held H (env2\<lparr>ev_db := Some c\<rparr>) | Inl e \<Rightarrow> balanced held H env2" by blast
  then show ?thesis
    using assms(2,3) g by (auto simp: maybe_retry_def send_def Let_def split: sum.splits if_splits)
qed

lemma run_body_balanced:
  assumes "pool_laws api held"
  shows "balanced held H env \<Longrightarrow> run_body api srv cfg ac now body px env = (r, px', env') \<Longrightarrow> balanced held H env'"
proof (induction body arbitrary: px env)
  case (Cons x xs)
  show ?case
  proof (cases x)
    case (Execute q)
    obtain r1 px1 env1 where m: "maybe_retry api srv cfg ac now (Sql q) px env = (r1, px1, env1)" by (metis prod_cases3)
    show ?thesis using Cons Execute m maybe_retry_balanced[OF assms Cons.prems(1) m] by (cases r1) auto
  qed (use Cons.prems in auto)
qed simp

lemma with_cursor_balanced:
  assumes "pool_laws api held" and "balanced held H env"
  shows "balanced held H (snd (with_cursor api srv cfg ac now uid commit body env))"
proof -
  obtain g env1 where g: "get_connection api cfg ac now env = (g, env1)" by fastforce
  have b1: "balanced held H env1" using get_connection_balanced[OF assms g] by simp
  have fin: "balanced held H (snd (finish_cursor srv commit r c e)) = balanced held H e" for r c e
    by (simp add: finish_cursor_def Let_def split: sum.split prod.split)
  show ?thesis
  proof (cases g)
    case (Inl e) then show ?thesis using g b1 by (simp add: with_cursor_def)
  next
    case (Inr c)
    define user where "user = (case uid of Some u \<Rightarrow> int_str u | None \<Rightarrow> [])"
    obtain r1 px env2 where m: "maybe_retry api srv cfg ac now (SetUser user) \<lparr>px_conn = c, px_executed = False\<rparr> env1 = (r1, px, env2)"
      by (metis prod_cases3)
    have b2: "balanced held H env2" by (rule maybe_retry_balanced[OF assms(1) b1 m])
    define mid where "mid = (case r1 of Inl e \<Rightarrow> (Err e, px, env2) | Inr _ \<Rightarrow> run_body api srv cfg ac now body px env2)"
    obtain r2 px2 env3 where mid: "mid = (r2, px2, env3)" by (metis prod_cases3)
    have b3: "balanced held H env3"
      using mid b2 run_body_balanced[OF assms(1) b2] by (cases r1) (auto simp: mid_def)
    obtain r3 env4 where f: "finish_cursor srv commit r2 (px_conn px2) env3 = (r3, env4)" by fastforce
    have "snd (with_cursor api srv cfg ac now uid commit body env) =
        (case sv_cursor srv c (ev_log env1) of Inl e \<Rightarrow> env1 | Inr _ \<Rightarrow> fst (record_checkin now (Some (px_conn px2)) env4))"
      using g Inr m mid f by (cases r1) (auto simp: with_cursor_def user_def[symmetric] mid_def split: sum.split)
    moreover have "balanced held H env4" using fin[of r2 "px_conn px2" env3] f b3 by simp
    ultimately show ?thesis using b1 by (simp split: sum.split)
  qed
qed

definition requests_db ::
  "'p pool_api \<Rightarrow> server \<Rightarrow> pool_config \<Rightarrow> bool \<Rightarrow> real \<Rightarrow> int option \<Rightarrow> (bool \<times> body_step list) list \<Rightarrow> 'p dbenv \<Rightarrow> 'p dbenv" where
  "requests_db api srv cfg ac now uid uses =
     run (\<lambda>(commit, body) env. snd (with_cursor api srv cfg ac now uid commit body env)) uses"

lemma requests_balanced:
  "pool_laws api held \<Longrightarrow> balanced held H env \<Longrightarrow> balanced held H (requests_db api srv cfg ac now uid uses env)"
  by (induction uses arbitrary: env) (auto simp: requests_db_def with_cursor_balanced split: prod.split)

text \<open>A request returns every connection it drew: after any sequence of \<open>get_cursor\<close> blocks,
  with recycling, retries, failing statements and a pool that runs dry, the teardown leaves the pool with
  the connections in use that it had before the request, with one exception: when the request ended with
  an exception and the teardown's own rollback fails, the connection is closed without being given back,
  and the pool counts it as in use for ever.\<close>
theorem connections_returned:
  assumes "pool_laws api held" and "ev_db env = None"
    and "env1 = requests_db api srv cfg ac now uid uses env"
  shows "ev_db (close_connection api srv now exc env1) = None \<and>
    (if exc \<and> (\<exists>c. ev_db env1 = Some c \<and> isl (sv_rollback srv c (ev_log env1)))
     then ev_pool (close_connection api srv now exc env1) = ev_pool env1
     else held (ev_pool (close_connection api srv now exc env1)) = held (ev_pool env))"
proof -
  define H where "H = held (ev_pool env)"
  have "balanced held H env" using assms(2) by (simp add: balanced_def H_def)
  then have b: "balanced held H env1" unfolding assms(3) by (rule requests_balanced[OF assms(1)])
  show ?thesis
  proof (cases "ev_db env1")
    case None
    then show ?thesis using b by (simp add: close_connection_def balanced_def H_def)
  next
    case (Some c)
    obtain r p where p: "pl_put api c False (ev_pool env1) = (r, p)" by fastforce
    have "held p = H" using b Some pool_put[OF assms(1) p, of H] by (auto simp: balanced_def)
    then show ?thesis using Some p
      by (cases r) (auto simp: close_connection_def Let_def H_def)
  qed
qed

lemma fold_max_start: "m \<le> fold max xs m" for m :: "'a::linorder"
  by (induction xs arbitrary: m) (simp, metis fold_simps(2) max.boundedE)

lemma fold_max_ge: "x \<in> set xs \<Longrightarrow> x \<le> fold max xs m" for x :: "'a::linorder"
proof (induction xs arbitrary: m)
  case (Cons y ys)
  show ?case using Cons fold_max_start[of "max y m" ys] by auto
qed simp

lemma small_pool_laws: "pool_laws small_api (\<lambda>p. set (sp_used p))"
proof -
  have "fold max (sp_used p) (sp_last p) + 1 \<notin> set (sp_used p)" for p
    using fold_max_ge[of "fold max (sp_used p) (sp_last p) + 1" "sp_used p" "sp_last p"] by linarith
  then show ?thesis by (auto simp: pool_laws_def small_api_def Let_def split: if_splits)
qed

theorem connections_returned_witness:
  "sp_used (ev_pool (close_connection small_api stale_server 0 False
     (requests_db small_api stale_server default_pool_config True 0 None
       [(True, [Execute ''UPDATE'']), (False, [Execute ''SELECT'', RaiseHere ZeroDivisionError])] (env_start 2)))) = []"
proof -
  have n: "ev_db (env_start 2) = None" by (simp add: env_start_def)
  have "sp_used (ev_pool (env_start 2)) = []" by (simp add: env_start_def)
  then show ?thesis using connections_returned[OF small_pool_laws n refl, where exc = False] by simp
qed

text \<open>The exception: the server goes away during a request.  Its one pool slot is lost, and the next
  request cannot get a connection.\<close>

definition lost_server :: server where
  "lost_server = (let gone = (\<lambda>h. list_ex (\<lambda>e. case e of Attempt c (Sql q) \<Rightarrow> True | _ \<Rightarrow> False) h);
       answer = (\<lambda>h. if gone h then Err (DomainError ''InterfaceError'' ''connection already closed'') else Ok ())
     in \<lparr>sv_cursor = (\<lambda>c h. Ok ()), sv_exec = (\<lambda>c q h. if q = Sql ''SELECT'' then Err (DbOperational ''terminating connection'') else answer h),
         sv_commit = (\<lambda>c h. answer h), sv_rollback = (\<lambda>c h. answer h)\<rparr>)"

lemma broken_connection_loses_slot:
  "let env1 = requests_db small_api lost_server default_pool_config False 0 None [(False, [Execute ''SELECT''])] (env_start 1);
       env2 = close_connection small_api lost_server 0 True env1
   in ev_db env2 = None \<and> sp_used (ev_pool env2) = [1] \<and>
      isl (fst (get_connection small_api default_pool_config False 1 env2))"
  by code_simp

text \<open>Recycling an old connection leaves its checkout entry behind: after the request nothing is in use,
  and one connection is still counted.\<close>

lemma recycle_leaves_checkout:
  "let env = (env_start 1)\<lparr>ev_born := [(1, 0)]\<rparr>;
       env' = close_connection small_api lost_server 5000 False
         (requests_db small_api lost_server default_pool_config False 5000 None [(False, [Execute ''UPDATE''])] env)
   in sp_used (ev_pool env') = [] \<and> map fst (ev_out env') = [1]"
  by code_simp

section \<open>Monitoring\<close>

record utilization =
  ut_pool_size :: nat
  ut_active :: nat
  ut_usage :: real
  ut_oldest_checkout :: real
  ut_oldest_age :: real
  ut_pools :: nat
  ut_statement_timeout :: int
  ut_lock_timeout :: int

text \<open>\<open>if oldest\<close> also takes the instant zero for no instant.\<close>

definition age_of :: "real \<Rightarrow> real option \<Rightarrow> real" where
  "age_of now t = (case t of None \<Rightarrow> 0 | Some x \<Rightarrow> if x = 0 then 0 else round_to 1 (now - x))"

fun list_best :: "(real \<Rightarrow> real \<Rightarrow> real) \<Rightarrow> real list \<Rightarrow> real option" where
  "list_best f [] = None"
| "list_best f (x # xs) = Some (fold f xs x)"

definition get_pool_utilization :: "pool_config \<Rightarrow> nat \<Rightarrow> real \<Rightarrow> 'p dbenv \<Rightarrow> utilization" where
  "get_pool_utilization cfg pools now env =
     \<lparr>ut_pool_size = POOL_SIZE cfg, ut_active = length (ev_out env),
      ut_usage = round_to 1 (real (length (ev_out env)) / real (max (POOL_SIZE cfg) 1) * 100),
      ut_oldest_checkout = age_of now (list_best max (map snd (ev_out env))),
      ut_oldest_age = age_of now (list_best min (map snd (ev_born env))),
      ut_pools = pools, ut_statement_timeout = STATEMENT_TIMEOUT_MS cfg, ut_lock_timeout = LOCK_TIMEOUT_MS cfg\<rparr>"

text \<open>The statistics name the pools by their position, never by their key, which holds the password.\<close>

definition get_pool_stats :: "pool_config \<Rightarrow> (payload \<times> 'p) list \<Rightarrow> 'q dbenv \<Rightarrow> (string \<times> nat \<times> nat \<times> nat) list" where
  "get_pool_stats cfg pools env =
     map (\<lambda>i. (''pool_'' @ nat_str i, POOL_SIZE cfg, POOL_SIZE cfg, length (ev_out env))) [0..<length pools]"

lemma pool_stats_hide_keys:
  "length pools = length pools' \<Longrightarrow> get_pool_stats cfg pools env = get_pool_stats cfg pools' env"
  by (simp add: get_pool_stats_def)

text \<open>What is reported as the oldest checkout is the youngest one: no connection is out for less.\<close>

lemma oldest_checkout_is_youngest:
  assumes "ev_out env = (c, t) # out" and "\<forall>(k, x)\<in>set (ev_out env). 0 < x"
  shows "\<exists>x. x \<in> snd ` set (ev_out env) \<and> (\<forall>y\<in>snd ` set (ev_out env). now - x \<le> now - y) \<and>
    ut_oldest_checkout (get_pool_utilization cfg n now env) = round_to 1 (now - x)"
proof -
  let ?m = "fold max (map snd out) t"
  have mem: "fold max xs m \<in> set (m # xs)" for xs and m :: real
    by (induction xs arbitrary: m) (auto simp: max_def)
  have in_out: "?m \<in> snd ` set (ev_out env)" using mem[of "map snd out" t] assms(1) by auto
  moreover have "now - ?m \<le> now - y" if "y \<in> snd ` set (ev_out env)" for y
    using fold_max_ge[of y "map snd out" t] fold_max_start[of t "map snd out"] that assms(1) by auto
  moreover have "?m \<noteq> 0" using in_out assms(2) by fastforce
  ultimately show ?thesis using assms(1)
    by (intro exI[of _ ?m]) (simp add: get_pool_utilization_def age_of_def)
qed

section \<open>Bootstrap\<close>

text \<open>The SQL files run in one transaction, missing files are skipped, and an error leaves the database
  as it was.\<close>

fun apply_files :: "(string \<Rightarrow> 's \<Rightarrow> 's result) \<Rightarrow> (string \<times> string option) list \<Rightarrow> 's \<Rightarrow> 's result" where
  "apply_files exec [] s = Ok s"
| "apply_files exec ((name, None) # fs) s = apply_files exec fs s"
| "apply_files exec ((name, Some text) # fs) s = bindE (exec text s) (\<lambda>s1. apply_files exec fs s1)"

definition sql_files :: "(string \<Rightarrow> string option) \<Rightarrow> (string \<times> string option) list" where
  "sql_files read = map (\<lambda>(n, p). (n, read p)) [(''schema'', ''schema.sql''), (''procedures'', ''procedures.sql''),
     (''warehouse'', ''warehouse.sql''), (''etl_procedures'', ''etl_procedures.sql''), (''triggers'', ''triggers.sql'')]"

definition init_schema :: "(string \<Rightarrow> 's \<Rightarrow> 's result) \<Rightarrow> (string \<Rightarrow> string option) \<Rightarrow> 's \<Rightarrow> unit result \<times> 's" where
  "init_schema exec read s = (case apply_files exec (sql_files read) s of
      Inl e \<Rightarrow> (Err e, s) | Inr s' \<Rightarrow> (Ok (), s'))"

definition schema_exists :: "bool \<Rightarrow> ('s \<Rightarrow> bool result) \<Rightarrow> 's \<Rightarrow> bool" where
  "schema_exists conn_ok query s \<longleftrightarrow> conn_ok \<and> query s = Ok True"

definition bootstrap_database ::
  "('s \<Rightarrow> bool) \<Rightarrow> bool \<Rightarrow> ('s \<Rightarrow> unit result \<times> 's) \<Rightarrow> ('s \<Rightarrow> unit result \<times> 's) \<Rightarrow> ('s \<Rightarrow> unit result \<times> 's) \<Rightarrow>
   bool \<times> 's \<Rightarrow> unit result \<times> bool \<times> 's" where
  "bootstrap_database exists run_etl init seed etl st = (case st of (booted, s) \<Rightarrow>
     if booted then (Ok (), True, s)
     else if exists s then (Ok (), True, s)
     else (case init s of
         (Inl e, s1) \<Rightarrow> (Err e, False, s1)
       | (Inr _, s1) \<Rightarrow> (case seed s1 of
         (Inl e, s2) \<Rightarrow> (Err e, False, s2)
       | (Inr _, s2) \<Rightarrow>
           if run_etl then (case etl s2 of (Inl e, s3) \<Rightarrow> (Err e, False, s3) | (Inr _, s3) \<Rightarrow> (Ok (), True, s3))
           else (Ok (), True, s2))))"

text \<open>A bootstrap that succeeded is never repeated; one that failed is tried again, but after the schema
  was committed the retry finds it and skips seed and ETL.\<close>

lemma bootstrap_once:
  "bootstrap_database ex re i sd et st = (Ok (), st') \<Longrightarrow> bootstrap_database ex re i sd et st' = (Ok (), st')"
  by (auto simp: bootstrap_database_def split: prod.splits sum.splits if_splits)

lemma bootstrap_seed_failure_skips:
  assumes "\<not> ex s" and "i s = (Ok (), s1)" and "sd s1 = (Err e, s2)" and "ex s2"
  shows "bootstrap_database ex re i sd et (snd (bootstrap_database ex re i sd et (False, s))) = (Ok (), True, s2)"
  using assms by (simp add: bootstrap_database_def)

end
