(* ===== verification/Reports.thy ===== *)
theory Reports
  imports Auth
begin

text \<open>The report workflow: \<open>app/services/report_service.py\<close> and
  \<open>app/routes/reports_workflow.py\<close>.  Whether a text is a date of the database, and mail delivery, are
  parameters.\<close>

section \<open>The table\<close>

definition REPORT_STATUSES :: "string list" where
  "REPORT_STATUSES = [''draft'', ''submitted'', ''under_review'', ''approved'', ''rejected'', ''completed'']"

definition PRIORITIES :: "string list" where "PRIORITIES = [''low'', ''medium'', ''high'', ''critical'']"

definition REPORT_TYPES :: "string list" where
  "REPORT_TYPES = [''general'', ''procurement'', ''warehouse'', ''analytics'', ''forecast'', ''incident'']"

abbreviation ReportError :: "string \<Rightarrow> pyexc" where "ReportError m \<equiv> DomainError ''ReportError'' m"

record report =
  rp_id :: int
  rp_title :: string
  rp_type :: string
  rp_description :: "string option"
  rp_priority :: string
  rp_module :: "string option"
  rp_due :: "string option"
  rp_status :: string
  rp_submitter :: int
  rp_manager :: int
  rp_submitted :: int
  rp_reviewed :: "int option"
  rp_comment :: "string option"

text \<open>\<open>rd_mails\<close> are the notifications handed to the mailer, in order: address and report.\<close>

record report_db =
  rd_users :: user_db
  rd_reports :: "report list"
  rd_next :: int
  rd_mails :: "(string \<times> int) list"

definition find_report :: "int \<Rightarrow> report_db \<Rightarrow> report option" where
  "find_report i db = find_row (\<lambda>r. rp_id r = i) (rd_reports db)"

section \<open>Submission\<close>

text \<open>\<open>(payload.get(k) or dflt).strip()\<close>\<close>

definition text_field :: "payload \<Rightarrow> string \<Rightarrow> string \<Rightarrow> string result" where
  "text_field p k dflt = py_strip (py_or (dget p k) (PStr dflt))"

definition or_none :: "string \<Rightarrow> string option" where "or_none s = (if s = [] then None else Some s)"

definition report_insert ::
  "(pyval \<Rightarrow> string option result) \<Rightarrow> int \<Rightarrow> string \<Rightarrow> string \<Rightarrow> string option \<Rightarrow> string \<Rightarrow> string option \<Rightarrow> pyval \<Rightarrow>
   string \<Rightarrow> int \<Rightarrow> int \<Rightarrow> report_db \<Rightarrow> int result \<times> report_db" where
  "report_insert to_date now title ty descr prio mdl due status submitter manager db =
     (if \<not> fits 40 mdl then (Err (too_long 40), db)
      else (case to_date due of
          Inl e \<Rightarrow> (Err e, db)
        | Inr d \<Rightarrow> (Ok (rd_next db), db\<lparr>rd_next := rd_next db + 1, rd_reports := rd_reports db @
            [\<lparr>rp_id = rd_next db, rp_title = title, rp_type = ty, rp_description = descr, rp_priority = prio,
              rp_module = mdl, rp_due = d, rp_status = status, rp_submitter = submitter, rp_manager = manager,
              rp_submitted = now, rp_reviewed = None, rp_comment = None\<rparr>]\<rparr>)))"

definition display_name :: "account \<Rightarrow> string" where
  "display_name a = (case ac_full_name a of Some n \<Rightarrow> if n = [] then ac_username a else n | None \<Rightarrow> ac_username a)"

text \<open>The checks of the payload, in the order of the code.\<close>

definition check_submission ::
  "payload \<Rightarrow> (string \<times> string \<times> string \<times> string option \<times> string option \<times> string) result" where
  "check_submission p =
     bindE (text_field p ''title'' []) (\<lambda>title.
     bindE (ensure (title \<noteq> []) (ReportError ''Report title is required.'')) (\<lambda>_.
     bindE (ensure (length title \<le> 200) (ReportError ''Report title must be at most 200 characters.'')) (\<lambda>_.
     bindE (text_field p ''report_type'' ''general'') (\<lambda>ty0. let ty = lower ty0 in
     bindE (ensure (ty \<in> set REPORT_TYPES)
       (ReportError (''Invalid report type. Must be one of: '' @ joins '', '' REPORT_TYPES))) (\<lambda>_.
     bindE (text_field p ''priority'' ''medium'') (\<lambda>prio0. let prio = lower prio0 in
     bindE (ensure (prio \<in> set PRIORITIES)
       (ReportError (''Invalid priority. Must be one of: '' @ joins '', '' PRIORITIES))) (\<lambda>_.
     bindE (text_field p ''description'' []) (\<lambda>descr.
     bindE (text_field p ''related_module'' []) (\<lambda>mdl.
     bindE (text_field p ''status'' ''submitted'') (\<lambda>st0. let st = lower st0 in
     bindE (ensure (st = ''draft'' \<or> st = ''submitted'')
       (ReportError (''Initial status must be '' @ [CHR 39] @ ''draft'' @ [CHR 39] @ '' or '' @ [CHR 39] @
         ''submitted'' @ [CHR 39] @ ''.''))) (\<lambda>_.
     Ok (title, ty, prio, or_none descr, or_none mdl, st))))))))))))"

text \<open>The manager comes from the organisation, never from the payload; the mail is best-effort.\<close>

definition submit_report ::
  "(pyval \<Rightarrow> string option result) \<Rightarrow> int \<Rightarrow> payload \<Rightarrow> account \<Rightarrow> report_db \<Rightarrow> (int \<times> string \<times> string) result \<times> report_db" where
  "submit_report to_date now p user db =
     (case check_submission p of
        Inl e \<Rightarrow> (Err e, db)
      | Inr (title, ty, prio, descr, mdl, st) \<Rightarrow>
          (case get_reporting_manager (ac_id user) (rd_users db) of
             None \<Rightarrow> (Err (ReportError (''No reporting manager assigned. Ask an administrator to set your '' @
               ''reporting manager before submitting reports.'')), db)
           | Some m \<Rightarrow>
               (case report_insert to_date now title ty descr prio mdl (py_or (dget p ''due_date'') PNone) st
                       (ac_id user) (ac_id m) db of
                  (Inl e, db1) \<Rightarrow> (Err e, db1)
                | (Inr i, db1) \<Rightarrow> (Ok (i, st, display_name m),
                    if st = ''submitted'' then db1\<lparr>rd_mails := rd_mails db1 @ [(ac_email m, i)]\<rparr> else db1))))"

section \<open>Reading\<close>

definition is_admin :: "account \<Rightarrow> bool" where "is_admin a \<longleftrightarrow> ac_role a = ''admin''"

definition get_report :: "int \<Rightarrow> account \<Rightarrow> report_db \<Rightarrow> report option" where
  "get_report i user db = (case find_report i db of
      None \<Rightarrow> None
    | Some r \<Rightarrow>
        if account (rp_submitter r) (rd_users db) = None \<or> account (rp_manager r) (rd_users db) = None then None
        else if rp_submitter r = ac_id user \<or> rp_manager r = ac_id user \<or> is_admin user then Some r else None)"

definition my_submissions :: "account \<Rightarrow> nat \<Rightarrow> report_db \<Rightarrow> report list" where
  "my_submissions user limit db = take limit (sort_key (\<lambda>r. - rp_submitted r)
     (filter (\<lambda>r. account (rp_manager r) (rd_users db) \<noteq> None \<and> rp_submitter r = ac_id user) (rd_reports db)))"

definition list_team_reports :: "int \<Rightarrow> string option \<Rightarrow> string option \<Rightarrow> int option \<Rightarrow> nat \<Rightarrow> report_db \<Rightarrow> report list" where
  "list_team_reports manager st prio sub limit db =
     (let given = (\<lambda>w v. case w of Some x \<Rightarrow> x = [] \<or> v = x | None \<Rightarrow> True);
          by = (\<lambda>v. case sub of Some x \<Rightarrow> x = 0 \<or> v = x | None \<Rightarrow> True)
      in take limit (sort_key (\<lambda>r. - rp_submitted r)
        (filter (\<lambda>r. account (rp_submitter r) (rd_users db) \<noteq> None \<and> rp_manager r = manager \<and>
           given st (rp_status r) \<and> given prio (rp_priority r) \<and> by (rp_submitter r)) (rd_reports db))))"

definition status_count :: "int \<Rightarrow> string \<Rightarrow> report_db \<Rightarrow> nat" where
  "status_count manager st db = length (filter (\<lambda>r. rp_manager r = manager \<and> rp_status r = st) (rd_reports db))"

definition team_summary :: "int \<Rightarrow> report_db \<Rightarrow> (string \<times> nat) list" where
  "team_summary manager db =
     (''pending'', status_count manager ''submitted'' db + status_count manager ''under_review'' db) #
     map (\<lambda>st. (st, status_count manager st db)) [''submitted'', ''under_review'', ''approved'', ''rejected'', ''completed'']"

section \<open>Review\<close>

definition may_review :: "account \<Rightarrow> report \<Rightarrow> bool" where
  "may_review user r \<longleftrightarrow> rp_manager r = ac_id user \<or> is_admin user"

definition set_report :: "int \<Rightarrow> (report \<Rightarrow> report) \<Rightarrow> report_db \<Rightarrow> report_db" where
  "set_report i f db = db\<lparr>rd_reports := update_where (\<lambda>r. rp_id r = i) f (rd_reports db)\<rparr>"

definition guarded_change :: "int \<Rightarrow> string \<Rightarrow> account \<Rightarrow> (report \<Rightarrow> report) \<Rightarrow> report_db \<Rightarrow> unit result \<times> report_db" where
  "guarded_change i st user f db =
     (if st \<notin> set REPORT_STATUSES
      then (Err (ReportError (''Invalid status. Must be one of: '' @ joins '', '' REPORT_STATUSES)), db)
      else (case get_report i user db of
          None \<Rightarrow> (Err (ReportError ''Report not found.''), db)
        | Some r \<Rightarrow> if \<not> may_review user r
            then (Err (ReportError ''Only the reporting manager can review this report.''), db)
            else (Ok (), set_report i f db)))"

definition update_report_status :: "int \<Rightarrow> int \<Rightarrow> string \<Rightarrow> account \<Rightarrow> report_db \<Rightarrow> unit result \<times> report_db" where
  "update_report_status now i st user db =
     guarded_change i st user (\<lambda>r. r\<lparr>rp_status := st, rp_reviewed := Some now\<rparr>) db"

definition review_report :: "int \<Rightarrow> int \<Rightarrow> string \<Rightarrow> account \<Rightarrow> string option \<Rightarrow> report_db \<Rightarrow> unit result \<times> report_db" where
  "review_report now i st user comment db =
     guarded_change i st user (\<lambda>r. r\<lparr>rp_status := st, rp_reviewed := Some now, rp_comment := comment\<rparr>) db"

section \<open>Routes\<close>

definition my_team ::
  "user \<Rightarrow> account \<Rightarrow> string \<Rightarrow> string \<Rightarrow> report_db \<Rightarrow> (report list \<times> (string \<times> nat) list \<times> account list) outcome \<times> report_db" where
  "my_team u acc st prio = permission_required ''reports.review'' u (\<lambda>db.
     (Returned (filter (\<lambda>r. (st = [] \<or> rp_status r = st) \<and> (prio = [] \<or> rp_priority r = prio))
        (list_team_reports (ac_id acc) None None None 100 db),
        team_summary (ac_id acc) db, direct_reports (ac_id acc) (rd_users db)), db))"

definition form_or :: "(string \<times> string) list \<Rightarrow> string \<Rightarrow> string \<Rightarrow> string" where
  "form_or form k dflt = (case map_of form k of Some v \<Rightarrow> v | None \<Rightarrow> dflt)"

definition submit_page :: string where "submit_page = ''reports_workflow.submit_report''"

definition form_payload :: "(string \<times> string) list \<Rightarrow> payload" where
  "form_payload form =
     [(''title'', PStr (form_or form ''title'' [])), (''report_type'', PStr (form_or form ''report_type'' ''general'')),
      (''description'', PStr (form_or form ''description'' [])), (''priority'', PStr (form_or form ''priority'' ''medium'')),
      (''related_module'', PStr (form_or form ''related_module'' [])),
      (''due_date'', if form_or form ''due_date'' [] = [] then PNone else PStr (form_or form ''due_date'' [])),
      (''status'', PStr ''submitted'')]"

text \<open>A \<open>ReportError\<close> is shown, any other exception is logged and hidden.\<close>

definition flash_error :: "string \<Rightarrow> pyexc \<Rightarrow> string \<times> string" where
  "flash_error hidden e = (''error'', case e of DomainError c m \<Rightarrow> if c = ''ReportError'' then m else hidden | _ \<Rightarrow> hidden)"

definition submit_report_route ::
  "(pyval \<Rightarrow> string option result) \<Rightarrow> int \<Rightarrow> account \<Rightarrow> (string \<times> string) list \<Rightarrow> report_db \<Rightarrow> flashed \<times> report_db" where
  "submit_report_route to_date now acc form db =
     (case submit_report to_date now (form_payload form) acc db of
        (Inl e, db1) \<Rightarrow> ((submit_page, [flash_error ''Report submission failed. Please try again.'' e]), db1)
      | (Inr (i, st, m), db1) \<Rightarrow> ((submit_page, [(''success'', ''Report submitted to '' @ m @ ''.'')]), db1))"

datatype detail_page = NotFoundPage | DetailPage report bool

definition report_detail :: "account \<Rightarrow> int \<Rightarrow> report_db \<Rightarrow> detail_page" where
  "report_detail acc i db = (case get_report i acc db of
      None \<Rightarrow> NotFoundPage | Some r \<Rightarrow> DetailPage r (rp_manager r = ac_id acc))"

definition report_status_route ::
  "int \<Rightarrow> account \<Rightarrow> int \<Rightarrow> (string \<times> string) list \<Rightarrow> report_db \<Rightarrow> flashed \<times> report_db" where
  "report_status_route now acc i form db =
     (let st = form_or form ''status'' []; comment = or_none (form_or form ''comment'' [])
      in case review_report now i st acc comment db of
           (Inl e, db1) \<Rightarrow> ((''reports_workflow.report_detail'', [flash_error ''Failed to update report status.'' e]), db1)
         | (Inr _, db1) \<Rightarrow> ((''reports_workflow.report_detail'',
             [(''success'', ''Report marked '' @ map (\<lambda>c. if c = CHR ''_'' then CHR '' '' else c) st @ ''.'')]), db1))"

lemma submit_route_state: "snd (submit_report_route td now acc form db) = snd (submit_report td now (form_payload form) acc db)"
  by (simp add: submit_report_route_def split: sum.split prod.split)

lemma status_route_state: "snd (report_status_route now acc i form db) =
    snd (review_report now i (form_or form ''status'' []) acc (or_none (form_or form ''comment'' [])) db)"
  by (simp add: report_status_route_def Let_def split: sum.split prod.split)

section \<open>Who can change what\<close>

datatype workflow_op =
    WSubmit "(string \<times> string) list"
  | WSubmitApi payload
  | WUpdate int string
  | WReview int "(string \<times> string) list"

fun workflow_step ::
  "(pyval \<Rightarrow> string option result) \<Rightarrow> int \<times> account \<times> workflow_op \<Rightarrow> report_db \<Rightarrow> report_db" where
  "workflow_step td (now, acc, WSubmit form) db = snd (submit_report_route td now acc form db)"
| "workflow_step td (now, acc, WSubmitApi p) db = snd (submit_report td now p acc db)"
| "workflow_step td (now, acc, WUpdate i st) db = snd (update_report_status now i st acc db)"
| "workflow_step td (now, acc, WReview i form) db = snd (report_status_route now acc i form db)"

text \<open>Ids are unique and below the sequence, statuses and priorities satisfy the table's checks, every
  report's manager is a user, and nobody manages himself.\<close>

definition reports_ok :: "report_db \<Rightarrow> bool" where
  "reports_ok db \<longleftrightarrow> distinct (map rp_id (rd_reports db)) \<and>
     (\<forall>r\<in>set (rd_reports db). rp_id r < rd_next db \<and> rp_status r \<in> set REPORT_STATUSES \<and>
        rp_priority r \<in> set PRIORITIES \<and> rp_type r \<in> set REPORT_TYPES \<and> rp_manager r \<noteq> rp_submitter r \<and>
        rp_title r \<noteq> [] \<and> length (rp_title r) \<le> 200) \<and>
     (\<forall>a\<in>set (accounts (rd_users db)). ac_manager a \<noteq> Some (ac_id a))"

lemma check_submission_Ok:
  "check_submission p = Ok (title, ty, prio, d, m, st) \<Longrightarrow>
    title \<noteq> [] \<and> length title \<le> 200 \<and> ty \<in> set REPORT_TYPES \<and> prio \<in> set PRIORITIES \<and> st \<in> set REPORT_STATUSES"
  by (auto simp: check_submission_def bindE_Ok_iff ensure_def Let_def REPORT_STATUSES_def split: if_splits)

lemma guarded_change_cases:
  "guarded_change i st user f db = (r, db') \<Longrightarrow>
    (r = Inr () \<and> db' = set_report i f db \<and> st \<in> set REPORT_STATUSES \<and>
       (\<exists>x. find_report i db = Some x \<and> may_review user x)) \<or> (isl r \<and> db' = db)"
  by (auto simp: guarded_change_def get_report_def split: if_splits option.splits)

lemma manager_not_self:
  "reports_ok db \<Longrightarrow> get_reporting_manager u (rd_users db) = Some m \<Longrightarrow> ac_id m \<noteq> u"
  unfolding get_reporting_manager_def manager_of_def account_def reports_ok_def
  by (auto simp: bind_eq_Some_conv dest!: find_row_Some)

lemma submit_reports:
  assumes "submit_report td now p user db = (r, db')"
  shows "(isl r \<and> db' = db) \<or> (\<exists>x m. rd_reports db' = rd_reports db @ [x] \<and> rd_next db' = rd_next db + 1 \<and>
     rd_users db' = rd_users db \<and> rp_id x = rd_next db \<and> rp_submitter x = ac_id user \<and>
     get_reporting_manager (ac_id user) (rd_users db) = Some m \<and> rp_manager x = ac_id m \<and>
     rp_title x \<noteq> [] \<and> length (rp_title x) \<le> 200 \<and> rp_type x \<in> set REPORT_TYPES \<and>
     rp_priority x \<in> set PRIORITIES \<and> rp_status x \<in> set REPORT_STATUSES)"
  using assms
  by (auto simp: submit_report_def report_insert_def split: sum.splits prod.splits option.splits if_splits
      dest!: check_submission_Ok)

lemma reports_ok_submit:
  assumes "reports_ok db" and "submit_report td now p user db = (r, db')"
  shows "reports_ok db'"
  using submit_reports[OF assms(2)]
proof (elim disjE exE conjE)
  fix x m
  assume x: "rd_reports db' = rd_reports db @ [x]" "rd_next db' = rd_next db + 1" "rd_users db' = rd_users db"
    "rp_id x = rd_next db" "rp_submitter x = ac_id user" "get_reporting_manager (ac_id user) (rd_users db) = Some m"
    "rp_manager x = ac_id m" "rp_title x \<noteq> []" "length (rp_title x) \<le> 200" "rp_type x \<in> set REPORT_TYPES"
    "rp_priority x \<in> set PRIORITIES" "rp_status x \<in> set REPORT_STATUSES"
  have "rp_manager x \<noteq> rp_submitter x" using manager_not_self[OF assms(1) x(6)] x by simp
  then show ?thesis using assms(1) x by (fastforce simp: reports_ok_def)
qed (use assms(1) in simp)

lemma reports_ok_change:
  assumes "reports_ok db" and "guarded_change i st user f db = (r, db')"
    and "\<And>x. f x = x\<lparr>rp_status := st, rp_reviewed := rv, rp_comment := rp_comment (f x)\<rparr>"
  shows "reports_ok db'"
proof -
  have keep: "rp_id (f x) = rp_id x" "rp_priority (f x) = rp_priority x" "rp_type (f x) = rp_type x"
    "rp_manager (f x) = rp_manager x" "rp_submitter (f x) = rp_submitter x" "rp_title (f x) = rp_title x"
    "rp_status (f x) = st" for x
    by (subst assms(3), simp)+
  have ids: "map rp_id (update_where (\<lambda>r. rp_id r = i) f rows) = map rp_id rows" for rows
    by (rule update_where_keys) (simp add: keep)
  show ?thesis
    using guarded_change_cases[OF assms(2)]
  proof (elim disjE conjE)
    assume st: "st \<in> set REPORT_STATUSES" and db': "db' = set_report i f db"
    show ?thesis
      unfolding reports_ok_def
    proof (intro conjI)
      show "distinct (map rp_id (rd_reports db'))" using assms(1) by (simp add: db' set_report_def ids reports_ok_def)
    qed (use assms(1) st in \<open>auto simp: db' set_report_def update_where_def keep reports_ok_def\<close>)
  qed (use assms(1) in simp)
qed

lemma reports_ok_step: "reports_ok db \<Longrightarrow> reports_ok (workflow_step td x db)"
proof -
  assume ok: "reports_ok db"
  obtain now acc y where x: "x = (now, acc, y)" by (metis prod_cases3)
  have submit: "reports_ok (snd (submit_report td now p acc db))" for p
    using reports_ok_submit[OF ok, of td now p acc] by (metis prod.collapse)
  have change: "reports_ok (snd (guarded_change i st acc f db))"
    if "\<And>x. f x = x\<lparr>rp_status := st, rp_reviewed := Some now, rp_comment := rp_comment (f x)\<rparr>" for i st f
    using reports_ok_change[OF ok _ that, of i acc] by (metis prod.collapse)
  show ?thesis unfolding x
    by (cases y) (simp_all add: submit submit_route_state status_route_state update_report_status_def review_report_def change)
qed

interpretation workflow: op_system "workflow_step td" reports_ok
  by unfold_locales (rule reports_ok_step)

lemma guarded_change_other:
  assumes "find_report i db = Some r" and "\<not> may_review user r" and "\<And>x. rp_id (f x) = rp_id x"
  shows "find_report i (snd (guarded_change j st user f db)) = Some r"
proof -
  obtain u db' where g: "guarded_change j st user f db = (u, db')" by fastforce
  have "find_report i (set_report j f db) = Some r" if "i \<noteq> j"
    using assms(1) that unfolding find_report_def set_report_def
    by (simp add: find_row_update_other assms(3))
  then show ?thesis using guarded_change_cases[OF g] g assms(1,2) by (cases "i = j") auto
qed

lemma submit_report_other:
  assumes "reports_ok db" and "find_report i db = Some r"
  shows "find_report i (snd (submit_report td now p user db)) = Some r"
  using submit_reports[OF prod.collapse[symmetric], of td now p user db] assms(2)
  by (auto simp: find_report_def find_row_append)

lemma untouched_step:
  assumes "reports_ok db" and "find_report i db = Some r" and "\<not> may_review (fst (snd x)) r"
  shows "find_report i (workflow_step td x db) = Some r"
proof -
  obtain now acc y where x: "x = (now, acc, y)" by (metis prod_cases3)
  show ?thesis using assms unfolding x
    by (cases y) (simp_all add: submit_route_state status_route_state update_report_status_def review_report_def
        submit_report_other guarded_change_other)
qed

text \<open>Only its reviewers change a report: as long as neither its reporting manager nor an admin
  acts, no sequence of submissions, status changes and reviews by others (the submitter included, with any
  report id) changes it; only its submitter, its manager and admins can read it; and its manager, taken
  from the organisation, is never its submitter.\<close>
theorem report_review_rights:
  assumes "reports_ok db" and "find_report i db = Some r"
    and "\<forall>(now, acc, op)\<in>set ops. rp_manager r \<noteq> ac_id acc \<and> \<not> is_admin acc"
  shows "find_report i (run (workflow_step td) ops db) = Some r \<and> rp_manager r \<noteq> rp_submitter r \<and>
    (get_report i acc db \<noteq> None \<longrightarrow> rp_submitter r = ac_id acc \<or> rp_manager r = ac_id acc \<or> is_admin acc)"
proof (intro conjI)
  show "find_report i (run (workflow_step td) ops db) = Some r"
    using assms
  proof (induction ops arbitrary: db)
    case (Cons x ops)
    have "find_report i (workflow_step td x db) = Some r"
      using Cons.prems by (intro untouched_step) (auto simp: may_review_def split: prod.splits)
    then show ?case using Cons.IH[of "workflow_step td x db"] Cons.prems reports_ok_step[of db td x] by simp
  qed simp
  show "rp_manager r \<noteq> rp_submitter r" using assms(1,2) by (auto simp: reports_ok_def find_report_def dest!: find_row_Some)
  show "get_report i acc db \<noteq> None \<longrightarrow> rp_submitter r = ac_id acc \<or> rp_manager r = ac_id acc \<or> is_admin acc"
    using assms(2) by (auto simp: get_report_def split: if_splits)
qed

definition team :: report_db where
  "team = \<lparr>rd_users = org 3, rd_reports = [], rd_next = 1, rd_mails = []\<rparr>"

definition no_date :: "pyval \<Rightarrow> string option result" where "no_date v = Ok None"

text \<open>Employee 0 reports to 1; neither the submitter nor the colleague 2 can complete the report, 1 can.\<close>

theorem report_review_rights_witness:
  "let db = snd (submit_report no_date 5 [(''title'', PStr ''Count'')] (org_row 3 0) team);
       done = [(''status'', ''completed'')]
   in map rp_status (rd_reports (run (workflow_step no_date)
        [(6, org_row 3 0, WReview 1 done), (7, org_row 3 2, WUpdate 1 ''completed'')] db)) = [''submitted''] \<and>
      map rp_status (rd_reports (run (workflow_step no_date) [(8, org_row 3 1, WReview 1 done)] db)) = [''completed'']"
proof -
  let ?db = "snd (submit_report no_date 5 [(''title'', PStr ''Count'')] (org_row 3 0) team)"
  let ?ops = "[(6, org_row 3 0, WReview 1 [(''status'', ''completed'')]), (7, org_row 3 2, WUpdate 1 ''completed'')]"
  have "reports_ok team" by code_simp
  then have ok: "reports_ok ?db"
    using reports_ok_submit[of team no_date 5 "[(''title'', PStr ''Count'')]" "org_row 3 0"] by (metis prod.collapse)
  have facts: "map (\<lambda>r. (rp_id r, rp_status r, rp_manager r)) (rd_reports ?db) = [(1, ''submitted'', 1)]" by code_simp
  then obtain r where r: "find_report 1 ?db = Some r" "rp_status r = ''submitted''" "rp_manager r = 1"
    by (cases "rd_reports ?db") (auto simp: find_report_def)
  have "\<forall>(now, acc, op)\<in>set ?ops. rp_manager r \<noteq> ac_id acc \<and> \<not> is_admin acc"
    using r(3) by (simp add: org_row_def is_admin_def)
  from report_review_rights[OF ok r(1) this, of no_date]
  have "find_report 1 (run (workflow_step no_date) ?ops ?db) = Some r" by blast
  moreover have "map rp_id (rd_reports (run (workflow_step no_date) ?ops ?db)) = [1]" by code_simp
  ultimately have "map rp_status (rd_reports (run (workflow_step no_date) ?ops ?db)) = [''submitted'']"
    using r(2) by (cases "rd_reports (run (workflow_step no_date) ?ops ?db)") (auto simp: find_report_def)
  moreover have "map rp_status (rd_reports (run (workflow_step no_date) [(8, org_row 3 1, WReview 1 [(''status'', ''completed'')])] ?db))
      = [''completed'']" by code_simp
  ultimately show ?thesis by simp
qed

text \<open>There is no life cycle: a reviewer may set any status at any time, a completed report becomes a
  draft again.\<close>

lemma report_any_status:
  assumes "reports_ok db" and "get_report i user db = Some r" and "may_review user r" and "st \<in> set REPORT_STATUSES"
  shows "fst (review_report now i st user c db) = Ok () \<and>
    map_option rp_status (find_report i (snd (review_report now i st user c db))) = Some st"
proof -
  have "find_report i db = Some r" using assms(2) by (auto simp: get_report_def split: option.splits if_splits)
  then show ?thesis using assms(2-4)
    by (auto simp: review_report_def guarded_change_def find_report_def set_report_def find_row_update_same)
qed

end
