(* ===== verification/Settings.thy ===== *)
theory Settings
  imports Cache Users Roles
begin

text \<open>User settings and configuration overrides: \<open>app/services/settings_service.py\<close>,
  \<open>app/services/system_config_service.py\<close>, their repositories and procedures, the settings routes of
  \<open>app/routes/api.py\<close> and \<open>app/routes/admin/system_config_routes.py\<close>.  \<open>str()\<close> of floats and
  containers is a parameter.\<close>

section \<open>User settings\<close>

type_synonym texts = "(string \<times> string) list"

definition DEFAULTS :: texts where
  "DEFAULTS = [(''dark_mode'', ''''), (''live_data'', ''on''), (''sound_alerts'', ''off''),
     (''ai_recommendations'', ''on''), (''auto_reorder'', ''off''), (''low_stock_threshold'', ''20''),
     (''critical_threshold'', ''10''), (''slack_connected'', ''off''), (''email_alerts'', ''on'')]"

definition BOOL_KEYS :: "string list" where
  "BOOL_KEYS = [''dark_mode'', ''live_data'', ''sound_alerts'', ''ai_recommendations'', ''auto_reorder'',
     ''slack_connected'', ''email_alerts'']"

text \<open>\<open>g.user_settings\<close> lives as long as the request; \<open>us_rows\<close> is the table.\<close>

record settings_state =
  us_rows :: "((int \<times> string) \<times> string) list"
  us_cache :: "texts ttl_cache"
  us_user :: "int option"
  us_g :: "texts option"

fun py_str :: "(pyval \<Rightarrow> string) \<Rightarrow> pyval \<Rightarrow> string" where
  "py_str other (PStr s) = s"
| "py_str other (PInt i) = int_str i"
| "py_str other (PBool b) = (if b then ''True'' else ''False'')"
| "py_str other PNone = ''None''"
| "py_str other v = other v"

definition int_or :: "string \<Rightarrow> int \<Rightarrow> int" where
  "int_or v d = (case to_int (PStr v) of Inr i \<Rightarrow> i | Inl e \<Rightarrow> d)"

definition float_or :: "pyval \<Rightarrow> real \<Rightarrow> xfloat" where
  "float_or v d = (case to_float v of Inr x \<Rightarrow> x | Inl e \<Rightarrow> Fin d)"

definition ON_TEXTS :: "string list" where "ON_TEXTS = [''1'', ''true'', ''yes'', ''on'', ''True'']"
definition OFF_TEXTS :: "string list" where "OFF_TEXTS = [''0'', ''false'', ''no'', ''off'', ''False'']"

definition validate :: "(pyval \<Rightarrow> string) \<Rightarrow> string \<Rightarrow> pyval \<Rightarrow> string" where
  "validate other key raw =
     (let value = strip (py_str other raw) in
      if key \<in> set BOOL_KEYS then
        if value \<in> set ON_TEXTS then ''on''
        else if value \<in> set OFF_TEXTS then ''off'' else value
      else if key = ''low_stock_threshold'' then int_str (max 1 (min 100 (int_or value 20)))
      else if key = ''critical_threshold'' then int_str (max 0 (min 99 (int_or value 10)))
      else value)"

definition sp_settings_all :: "int \<Rightarrow> ((int \<times> string) \<times> string) list \<Rightarrow> texts" where
  "sp_settings_all u rows = map (\<lambda>((_, k), v). (k, v)) (filter (\<lambda>((u', _), _). u' = u) rows)"

definition sp_settings_set_many :: "int \<Rightarrow> string \<Rightarrow> string \<Rightarrow> ((int \<times> string) \<times> string) list \<Rightarrow> ((int \<times> string) \<times> string) list" where
  "sp_settings_set_many u k v rows = AList.update (u, k) v rows"

definition set_many :: "int \<Rightarrow> texts \<Rightarrow> ((int \<times> string) \<times> string) list \<Rightarrow> ((int \<times> string) \<times> string) list" where
  "set_many u kvs rows = fold (\<lambda>(k, v). sp_settings_set_many u k v) kvs rows"

definition known :: "string \<Rightarrow> bool" where "known k \<longleftrightarrow> k \<in> fst ` set DEFAULTS"

text \<open>\<open>dict(DEFAULTS)\<close> updated with the known stored keys\<close>

definition merge_defaults :: "texts \<Rightarrow> texts" where
  "merge_defaults stored = fold (\<lambda>(k, v). AList.update k v) (filter (\<lambda>(k, v). known k) stored) DEFAULTS"

definition settings_key :: "int \<Rightarrow> string" where "settings_key u = ''settings:'' @ int_str u"

text \<open>\<open>db_up\<close>: whether the database answers; its errors are swallowed.  The request's own copy is
  returned whatever user is asked for.\<close>

definition get_settings :: "bool \<Rightarrow> real \<Rightarrow> int option \<Rightarrow> settings_state \<Rightarrow> texts \<times> settings_state" where
  "get_settings db_up now arg st = (case us_g st of
      Some data \<Rightarrow> (data, st)
    | None \<Rightarrow>
        (case (case arg of None \<Rightarrow> us_user st | Some u \<Rightarrow> Some u) of
           None \<Rightarrow> (DEFAULTS, st\<lparr>us_g := Some DEFAULTS\<rparr>)
         | Some u \<Rightarrow>
             if u = 0 then (DEFAULTS, st\<lparr>us_g := Some DEFAULTS\<rparr>)
             else (case cache_get now (settings_key u) (us_cache st) of
                 (Some stored, c) \<Rightarrow> (merge_defaults stored, st\<lparr>us_cache := c, us_g := Some (merge_defaults stored)\<rparr>)
               | (None, c) \<Rightarrow>
                   if db_up then
                     (let stored = sp_settings_all u (us_rows st)
                      in (merge_defaults stored, st\<lparr>us_cache := cache_set now (settings_key u) stored None c,
                            us_g := Some (merge_defaults stored)\<rparr>))
                   else (DEFAULTS, st\<lparr>us_cache := c, us_g := Some DEFAULTS\<rparr>))))"

definition cleaned_settings :: "(pyval \<Rightarrow> string) \<Rightarrow> payload \<Rightarrow> texts" where
  "cleaned_settings other vals = map (\<lambda>(k, raw). (k, validate other k raw)) (filter (\<lambda>(k, raw). known k) vals)"

definition save_settings :: "(pyval \<Rightarrow> string) \<Rightarrow> real \<Rightarrow> payload \<Rightarrow> settings_state \<Rightarrow> texts result \<times> settings_state" where
  "save_settings other now vals st = (case us_user st of
      None \<Rightarrow> (Err (ValueError ''Authentication required''), st)
    | Some u \<Rightarrow>
        (let cleaned = cleaned_settings other vals in
         if cleaned \<noteq> [] then
           (let rows = set_many u cleaned (us_rows st); merged = merge_defaults (sp_settings_all u rows)
            in (Ok merged, st\<lparr>us_rows := rows, us_g := Some merged\<rparr>))
         else (case get_settings True now None st of (data, st1) \<Rightarrow> (Ok data, st1))))"

definition setting :: "texts \<Rightarrow> string \<Rightarrow> pyval" where
  "setting data k = (case map_of data k of Some v \<Rightarrow> PStr v | None \<Rightarrow> PNone)"

definition is_on :: "bool \<Rightarrow> real \<Rightarrow> string \<Rightarrow> settings_state \<Rightarrow> bool \<times> settings_state" where
  "is_on db_up now k st = (case get_settings db_up now None st of (data, st1) \<Rightarrow> (map_of data k = Some ''on'', st1))"

text \<open>Python's \<open>max(a, b)\<close> answers \<open>b\<close> only when it is greater, \<open>min(a, b)\<close> only when it is less.\<close>

definition threshold_pcts :: "bool \<Rightarrow> real \<Rightarrow> settings_state \<Rightarrow> (xfloat \<times> xfloat) \<times> settings_state" where
  "threshold_pcts db_up now st = (case get_settings db_up now None st of (data, st1) \<Rightarrow>
     (let low = float_or (setting data ''low_stock_threshold'') 20;
          critical = float_or (setting data ''critical_threshold'') 10
      in ((if xlt low critical then critical else low, if xlt low critical then low else critical), st1)))"

text \<open>\<open>PUT /settings\<close>, after the role check: the global cache is emptied after a save.\<close>

datatype api_answer = Saved texts | InvalidInput | AuthRequired string

definition update_settings ::
  "(pyval \<Rightarrow> string) \<Rightarrow> user \<Rightarrow> real \<Rightarrow> pyval option \<Rightarrow> settings_state \<Rightarrow> api_answer outcome \<times> settings_state" where
  "update_settings other actor now body = write_roles_required actor (\<lambda>st.
     case body of
       Some (PDict (kv # kvs)) \<Rightarrow>
         (case save_settings other now (kv # kvs) st of
            (Inl (ValueError m), st1) \<Rightarrow> (Returned (AuthRequired m), st1)
          | (Inl e, st1) \<Rightarrow> (Raised e, st1)
          | (Inr saved, st1) \<Rightarrow> (Returned (Saved saved), st1\<lparr>us_cache := snd (cache_invalidate [] (us_cache st1))\<rparr>))
     | _ \<Rightarrow> (Returned InvalidInput, st))"

definition new_request :: "int option \<Rightarrow> settings_state \<Rightarrow> settings_state" where
  "new_request u st = st\<lparr>us_user := u, us_g := None\<rparr>"

section \<open>What is saved is read\<close>

lemma map_of_fold_update:
  "distinct (map fst kvs) \<Longrightarrow> map_of (fold (\<lambda>(k, v). AList.update k v) kvs d) k =
    (case map_of kvs k of Some v \<Rightarrow> Some v | None \<Rightarrow> map_of d k)"
proof (induction kvs arbitrary: d)
  case (Cons kv kvs)
  obtain a b where kv: "kv = (a, b)" by fastforce
  have "map_of kvs a = None" using Cons.prems kv by (simp add: map_of_eq_None_iff)
  then show ?case using Cons.IH[of "AList.update a b d"] Cons.prems kv
    by (auto simp: update_conv' split: option.split)
qed simp

lemma map_of_all: "map_of (sp_settings_all u rows) k = map_of rows (u, k)"
  by (induction rows) (auto simp: sp_settings_all_def)

lemma distinct_all: "distinct (map fst rows) \<Longrightarrow> distinct (map fst (sp_settings_all u rows))"
  by (induction rows) (force simp: sp_settings_all_def)+

lemma distinct_filter_keys: "distinct (map fst kvs) \<Longrightarrow> distinct (map fst (filter P kvs))"
  by (rule distinct_map_filter)

lemma map_of_filter_known:
  "map_of (filter (\<lambda>(k, v). known k) kvs) k = (if known k then map_of kvs k else None)"
  by (induction kvs) auto

lemma merge_defaults_lookup:
  "distinct (map fst stored) \<Longrightarrow> known k \<Longrightarrow>
    map_of (merge_defaults stored) k = (case map_of stored k of Some v \<Rightarrow> Some v | None \<Rightarrow> map_of DEFAULTS k)"
  by (simp add: merge_defaults_def map_of_fold_update distinct_filter_keys map_of_filter_known split: option.split)

lemma set_many_lookup:
  "distinct (map fst kvs) \<Longrightarrow> map_of (set_many u kvs rows) (u, k) =
    (case map_of kvs k of Some v \<Rightarrow> Some v | None \<Rightarrow> map_of rows (u, k))"
proof (induction kvs arbitrary: rows)
  case (Cons kv kvs)
  obtain a b where kv: "kv = (a, b)" by fastforce
  have "map_of kvs a = None" using Cons.prems kv by (simp add: map_of_eq_None_iff)
  then show ?case using Cons.IH[of "AList.update (u, a) b rows"] Cons.prems kv
    by (auto simp: set_many_def sp_settings_set_many_def update_conv' split: option.split)
qed (simp add: set_many_def)

lemma set_many_distinct: "distinct (map fst rows) \<Longrightarrow> distinct (map fst (set_many u kvs rows))"
  by (induction kvs arbitrary: rows)
    (auto simp: set_many_def sp_settings_set_many_def distinct_update split: prod.splits)

lemma cleaned_lookup:
  "map_of (cleaned_settings other vals) k = (if known k then map_option (validate other k) (map_of vals k) else None)"
  by (induction vals) (auto simp: cleaned_settings_def)

lemma distinct_cleaned: "distinct (map fst vals) \<Longrightarrow> distinct (map fst (cleaned_settings other vals))"
  by (induction vals) (force simp: cleaned_settings_def)+

lemma int_or_int_str [simp]: "int_or (int_str i) d = i"
  by (simp add: int_or_def parse_int_int_str)

lemma strip_int_str [simp]: "strip (int_str i) = int_str i"
  using int_str_last[of i] by (intro strip_fix) auto

lemma validate_idem: "validate other k (PStr (validate other k raw)) = validate other k raw"
proof (cases "k \<in> set BOOL_KEYS")
  case True
  have "strip ''on'' = ''on''" "strip ''off'' = ''off''" "''on'' \<in> set ON_TEXTS" "''off'' \<notin> set ON_TEXTS"
    "''off'' \<in> set OFF_TEXTS" by code_simp+
  then show ?thesis using True by (simp add: validate_def Let_def)
next
  case False
  then show ?thesis
    by (cases "k = ''low_stock_threshold''"; cases "k = ''critical_threshold''") (simp_all add: validate_def Let_def)
qed

text \<open>A setting that was saved through the API is what the next request reads, whatever the caches
  held before: the validated value (a switch normalised to on or off, a threshold clamped), and
  validation is idempotent, so saving what was read changes nothing.\<close>
theorem settings_round_trip:
  assumes "distinct (map fst (us_rows st))" and "us_user st = Some u" and "u \<noteq> 0"
    and "distinct (map fst vals)" and "map_of vals k = Some raw" and "known k"
    and "update_settings other actor now (Some (PDict vals)) st = (Returned (Saved saved), st1)"
  shows "map_of saved k = Some (validate other k raw) \<and>
    map_of (fst (get_settings True now' None (new_request (Some u) st1))) k = Some (validate other k raw) \<and>
    validate other k (PStr (validate other k raw)) = validate other k raw"
proof -
  define rows where "rows = set_many u (cleaned_settings other vals) (us_rows st)"
  have v: "map_of (cleaned_settings other vals) k = Some (validate other k raw)"
    using assms(5,6) by (simp add: cleaned_lookup)
  then have "cleaned_settings other vals \<noteq> []" by auto
  then have saved: "save_settings other now vals st = (Ok (merge_defaults (sp_settings_all u rows)),
      st\<lparr>us_rows := rows, us_g := Some (merge_defaults (sp_settings_all u rows))\<rparr>)"
    using assms(2) by (simp add: save_settings_def rows_def Let_def)
  obtain kv kvs where "vals = kv # kvs" using assms(5) by (cases vals) auto
  then have st1: "saved = merge_defaults (sp_settings_all u rows)"
    "us_rows st1 = rows" "us_cache st1 = cache_drop [] (us_cache st)"
    using assms(7) saved
    by (auto simp: update_settings_def write_roles_required_def roles_required_def cache_drop_def split: if_splits)
  have d: "distinct (map fst rows)" unfolding rows_def by (rule set_many_distinct[OF assms(1)])
  have m: "map_of (merge_defaults (sp_settings_all u rows)) k = Some (validate other k raw)"
    using merge_defaults_lookup[OF distinct_all[OF d] assms(6)]
      set_many_lookup[OF distinct_cleaned[OF assms(4)], of u other "us_rows st" k] v
    by (simp add: map_of_all rows_def)
  have "fst (cache_get now' (settings_key u) (us_cache st1)) = None"
    by (simp add: get_value st1(3) lookup_drop_cache)
  then have "fst (get_settings True now' None (new_request (Some u) st1)) = merge_defaults (sp_settings_all u rows)"
    using assms(3) st1(2) by (auto simp: get_settings_def new_request_def Let_def split: prod.split option.split)
  then show ?thesis using m st1(1) validate_idem by simp
qed

definition fresh_settings :: "settings_state" where
  "fresh_settings = \<lparr>us_rows = [], us_cache = new_cache 600 20, us_user = Some 3, us_g = None\<rparr>"

definition manager_role :: user where "manager_role = \<lparr>role = Some ''manager'', job_role = None\<rparr>"

theorem settings_round_trip_witness:
  "let vals = [(''low_stock_threshold'', PInt 250), (''dark_mode'', PBool True)];
       st1 = snd (update_settings (\<lambda>v. []) manager_role 5 (Some (PDict vals)) (snd (get_settings True 0 None fresh_settings)))
   in map_of (fst (get_settings True 9 None (new_request (Some 3) st1))) ''low_stock_threshold'' = Some ''100''"
proof -
  let ?vals = "[(''low_stock_threshold'', PInt 250), (''dark_mode'', PBool True)]"
  let ?st = "snd (get_settings True 0 None fresh_settings)"
  let ?run = "update_settings (\<lambda>v. []) manager_role 5 (Some (PDict ?vals)) ?st"
  have "us_rows ?st = []" "us_user ?st = Some 3" by code_simp+
  moreover have "case fst ?run of Returned (Saved s) \<Rightarrow> True | _ \<Rightarrow> False" by code_simp
  then have "\<exists>saved. fst ?run = Returned (Saved saved)" by (simp split: outcome.splits api_answer.splits)
  moreover have "known ''low_stock_threshold''" by code_simp
  ultimately obtain saved where s: "?run = (Returned (Saved saved), snd ?run)" and
    p: "distinct (map fst (us_rows ?st))" "us_user ?st = Some 3" "known ''low_stock_threshold''"
    by (metis distinct.simps(1) list.map(1) prod.collapse)
  have "map_of (fst (get_settings True 9 None (new_request (Some 3) (snd ?run)))) ''low_stock_threshold'' =
      Some (validate (\<lambda>v. []) ''low_stock_threshold'' (PInt 250))"
    using settings_round_trip[OF p(1,2) _ _ _ p(3) s, of "PInt 250" 9] by simp
  moreover have "validate (\<lambda>v. []) ''low_stock_threshold'' (PInt 250) = ''100''" by code_simp
  ultimately show ?thesis by (simp add: Let_def)
qed

text \<open>The saved row alone is not enough: a request that does not go through the route's cache bust reads
  the cached old value for up to ten minutes.\<close>

lemma save_without_bust_is_stale:
  "let st = new_request (Some 3) (snd (get_settings True 0 None fresh_settings));
       st1 = snd (save_settings (\<lambda>v. []) 1 [(''auto_reorder'', PStr ''on'')] st)
   in fst (is_on True 2 ''auto_reorder'' (new_request (Some 3) st1)) = False \<and>
      fst (is_on True 601 ''auto_reorder'' (new_request (Some 3) st1)) = True"
  by code_simp

section \<open>Thresholds stay in range\<close>

definition text_in_range :: "string \<times> string \<Rightarrow> bool" where
  "text_in_range kv = (case kv of (k, v) \<Rightarrow>
     (k = ''low_stock_threshold'' \<longrightarrow> v \<in> int_str ` {1..100}) \<and> (k = ''critical_threshold'' \<longrightarrow> v \<in> int_str ` {0..99}))"

definition in_range :: "texts \<Rightarrow> bool" where "in_range kvs = list_all text_in_range kvs"

definition settings_inv :: "settings_state \<Rightarrow> bool" where
  "settings_inv st \<longleftrightarrow> list_all (\<lambda>((u, k), v). text_in_range (k, v)) (us_rows st) \<and>
     list_all (\<lambda>(k, e, d). in_range d) (store (us_cache st)) \<and> (case us_g st of Some d \<Rightarrow> in_range d | None \<Rightarrow> True)"

lemma validate_in_range: "text_in_range (k, validate other k raw)"
proof -
  have "k \<notin> set BOOL_KEYS" if "k = ''low_stock_threshold'' \<or> k = ''critical_threshold''"
    using that by (auto simp: BOOL_KEYS_def)
  then show ?thesis by (auto simp: text_in_range_def validate_def Let_def)
qed

lemma update_Ball: "(\<forall>x\<in>set d. P x) \<Longrightarrow> P (k, v) \<Longrightarrow> \<forall>x\<in>set (AList.update k v d). P x"
  by (induction d) auto

lemma fold_update_Ball:
  "(\<forall>x\<in>set kvs. P x) \<Longrightarrow> (\<forall>x\<in>set d. P x) \<Longrightarrow> \<forall>x\<in>set (fold (\<lambda>(k, v). AList.update k v) kvs d). P x"
proof (induction kvs arbitrary: d)
  case (Cons kv kvs)
  obtain a b where "kv = (a, b)" by fastforce
  then show ?case using Cons.IH[of "AList.update a b d"] Cons.prems update_Ball[of d P a b] by simp
qed simp

lemma defaults_in_range: "in_range DEFAULTS"
proof -
  have "''20'' = int_str 20" "''10'' = int_str 10" by code_simp+
  then show ?thesis by (auto simp: in_range_def DEFAULTS_def text_in_range_def)
qed

lemma merge_in_range: "in_range stored \<Longrightarrow> in_range (merge_defaults stored)"
  unfolding in_range_def merge_defaults_def list_all_iff
  by (intro fold_update_Ball) (use defaults_in_range in \<open>simp_all add: in_range_def list_all_iff\<close>)

lemma all_in_range:
  "list_all (\<lambda>((u, k), v). text_in_range (k, v)) rows \<Longrightarrow> in_range (sp_settings_all w rows)"
  by (induction rows) (auto simp: sp_settings_all_def in_range_def)

lemma set_many_in_range:
  "list_all (\<lambda>((u, k), v). text_in_range (k, v)) rows \<Longrightarrow> in_range kvs \<Longrightarrow>
    list_all (\<lambda>((u, k), v). text_in_range (k, v)) (set_many w kvs rows)"
proof (induction kvs arbitrary: rows)
  case (Cons kv kvs)
  obtain a b where kv: "kv = (a, b)" by fastforce
  have "list_all (\<lambda>((u, k), v). text_in_range (k, v)) (AList.update (w, a) b rows)"
    using Cons.prems kv update_Ball[of rows "\<lambda>((u, k), v). text_in_range (k, v)" "(w, a)" b]
    by (simp add: list_all_iff in_range_def)
  then show ?case using Cons kv by (simp add: set_many_def sp_settings_set_many_def in_range_def)
qed (simp add: set_many_def)

lemma cleaned_in_range: "in_range (cleaned_settings other vals)"
  by (auto simp: cleaned_settings_def in_range_def list_all_iff validate_in_range)

text \<open>The cache holds what was put into it.\<close>

lemma get_store: "set (store (snd (cache_get now k c))) \<subseteq> set (store c)"
  by (auto simp: cache_get_def delete_filter dest: map_of_SomeD split: option.split)

lemma get_found: "fst (cache_get now k c) = Some v \<Longrightarrow> \<exists>e. (k, e, v) \<in> set (store c)"
  by (auto simp: cache_get_def dest!: map_of_SomeD split: option.splits if_splits)

lemma set_store: "x \<in> set (store (cache_set now k v t c)) \<Longrightarrow> x \<in> set (store c) \<or> (\<exists>e. x = (k, e, v))"
  by (auto simp: cache_set_def Let_def popitems_drop delete_filter dest!: in_set_dropD)

lemma get_settings_inv:
  assumes "settings_inv st" and "get_settings up now arg st = (data, st')"
  shows "settings_inv st' \<and> in_range data"
proof (cases "us_g st")
  case (Some d)
  then show ?thesis using assms by (auto simp: get_settings_def settings_inv_def)
next
  case None
  let ?u = "case arg of None \<Rightarrow> us_user st | Some u \<Rightarrow> Some u"
  show ?thesis
  proof (cases "\<exists>u. ?u = Some u \<and> u \<noteq> 0")
    case False
    then have "(data, st') = (DEFAULTS, st\<lparr>us_g := Some DEFAULTS\<rparr>)"
      using None assms(2) by (cases ?u) (auto simp: get_settings_def)
    then show ?thesis using assms(1) defaults_in_range by (simp add: settings_inv_def)
  next
    case True
    then obtain u where u: "?u = Some u" "u \<noteq> 0" by blast
    obtain g c where g: "cache_get now (settings_key u) (us_cache st) = (g, c)" by fastforce
    have c: "list_all (\<lambda>(k, e, d). in_range d) (store c)"
      using assms(1) get_store[of now "settings_key u" "us_cache st"] g by (auto simp: settings_inv_def list_all_iff)
    have all: "in_range (sp_settings_all u (us_rows st))"
      using assms(1) by (intro all_in_range) (simp add: settings_inv_def)
    show ?thesis
    proof (cases g)
      case (Some d)
      then obtain e where "(settings_key u, e, d) \<in> set (store (us_cache st))"
        using get_found[of now "settings_key u" "us_cache st" d] g by auto
      then have "in_range d" using assms(1) by (auto simp: settings_inv_def list_all_iff)
      then show ?thesis using None u g Some c assms merge_in_range by (auto simp: get_settings_def settings_inv_def)
    next
      case n: None
      have "list_all (\<lambda>(k, e, d). in_range d) (store (cache_set now (settings_key u) (sp_settings_all u (us_rows st)) None c))"
        using c all by (auto simp: list_all_iff dest!: set_store)
      then show ?thesis using None u g n c assms merge_in_range[OF all] defaults_in_range
        by (cases up) (auto simp: get_settings_def settings_inv_def Let_def)
    qed
  qed
qed

lemma save_settings_inv:
  assumes "settings_inv st" and "save_settings other now vals st = (r, st')"
  shows "settings_inv st'"
proof (cases "us_user st")
  case (Some u)
  let ?rows = "set_many u (cleaned_settings other vals) (us_rows st)"
  have rows: "list_all (\<lambda>((u, k), v). text_in_range (k, v)) ?rows"
    using assms(1) by (intro set_many_in_range cleaned_in_range) (simp add: settings_inv_def)
  show ?thesis
  proof (cases "cleaned_settings other vals = []")
    case True
    then show ?thesis using Some assms get_settings_inv[OF assms(1), of True now None]
      by (auto simp: save_settings_def split: prod.splits)
  next
    case False
    then have "st' = st\<lparr>us_rows := ?rows, us_g := Some (merge_defaults (sp_settings_all u ?rows))\<rparr>"
      using Some assms(2) by (simp add: save_settings_def Let_def)
    then show ?thesis using assms(1) rows merge_in_range[OF all_in_range[OF rows]] by (simp add: settings_inv_def)
  qed
qed (use assms in \<open>auto simp: save_settings_def\<close>)

datatype settings_op =
    PutSettings user real "pyval option"
  | ReadSettings bool real "int option"
  | NewRequest "int option"
  | DropCached string

fun settings_step :: "(pyval \<Rightarrow> string) \<Rightarrow> settings_op \<Rightarrow> settings_state \<Rightarrow> settings_state" where
  "settings_step other (PutSettings actor now body) st = snd (update_settings other actor now body st)"
| "settings_step other (ReadSettings up now arg) st = snd (get_settings up now arg st)"
| "settings_step other (NewRequest u) st = new_request u st"
| "settings_step other (DropCached p) st = st\<lparr>us_cache := cache_drop p (us_cache st)\<rparr>"

lemma drop_inv: "settings_inv st \<Longrightarrow> settings_inv (st\<lparr>us_cache := cache_drop p (us_cache st)\<rparr>)"
  by (auto simp: settings_inv_def drop_store list_all_iff)

lemma update_settings_inv: "settings_inv st \<Longrightarrow> settings_inv (snd (update_settings other actor now body st))"
proof -
  assume inv: "settings_inv st"
  show ?thesis
  proof (cases "\<exists>kv kvs. body = Some (PDict (kv # kvs)) \<and> role actor \<in> Some ` set WRITE_ROLES")
    case False
    then have "snd (update_settings other actor now body st) = st"
      by (auto simp: update_settings_def write_roles_required_def roles_required_def split: option.split pyval.split list.split)
    then show ?thesis using inv by simp
  next
    case True
    then obtain kv kvs where b: "body = Some (PDict (kv # kvs))" "role actor \<in> Some ` set WRITE_ROLES" by blast
    obtain r st1 where s: "save_settings other now (kv # kvs) st = (r, st1)" by fastforce
    have i: "settings_inv st1" by (rule save_settings_inv[OF inv s])
    have "snd (update_settings other actor now body st) =
        (case r of Inl e \<Rightarrow> st1 | Inr v \<Rightarrow> st1\<lparr>us_cache := cache_drop [] (us_cache st1)\<rparr>)"
      using b s by (auto simp: update_settings_def write_roles_required_def roles_required_def cache_drop_def
          split: sum.split pyexc.split)
    then show ?thesis using i drop_inv[OF i, of "[]"] by (simp split: sum.split)
  qed
qed

interpretation preferences: op_system "settings_step other" settings_inv
proof
  fix st x assume inv: "settings_inv st"
  show "settings_inv (settings_step other x st)"
  proof (cases x)
    case (ReadSettings up now arg)
    then show ?thesis using get_settings_inv[OF inv, of up now arg] by (cases "get_settings up now arg st") simp
  next
    case (NewRequest u)
    then show ?thesis using inv by (simp add: new_request_def settings_inv_def)
  qed (simp_all add: inv update_settings_inv drop_inv)
qed

lemma split_at_first_none: "\<forall>c\<in>set t. \<not> P c \<Longrightarrow> split_at_first P t = (t, None)"
  by (induction t) auto

lemma parse_float_nat_str: "parse_float (nat_str n) = Some (Fin (real n))"
proof -
  let ?s = "nat_str n"
  have d: "is_digit c" if "c \<in> set ?s" for c using that by (rule nat_str_digits)
  have not_e: "\<not> is_digit CHR ''e''" "\<not> is_digit CHR ''.''" "\<not> is_digit CHR ''i''" "\<not> is_digit CHR ''n''"
    by code_simp+
  obtain c cs where s: "?s = c # cs" using nat_str_nonempty[of n] by (cases ?s) auto
  have c: "is_digit c" using d s by auto
  have "to_lower x = x" if "is_digit x" for x
    using that by (auto simp: to_lower_def is_digit_def is_upper_def)
  then have l: "lower ?s = ?s" using d unfolding lower_def by (simp add: map_idI)
  have sg: "split_sign ?s = (False, ?s)" using is_digit_not[OF c] by (simp add: s split_sign_def)
  have ne: "?s \<noteq> ''inf''" "?s \<noteq> ''infinity''" "?s \<noteq> ''nan''" using c not_e by (auto simp: s)
  have e: "split_at_first (\<lambda>c. c = CHR ''e'') ?s = (?s, None)" "split_at_first (\<lambda>c. c = CHR ''.'') ?s = (?s, None)"
    using d not_e by (auto intro!: split_at_first_none)
  obtain k where k: "digits ?s = Some (n, k)" using digits_nat_str by blast
  show ?thesis by (simp add: parse_float_def strip_nat_str sg l ne e parse_mantissa_def k Let_def)
qed

lemma float_of_text: "0 \<le> i \<Longrightarrow> float_or (PStr (int_str i)) d = Fin (of_int i)"
  using parse_float_nat_str[of "nat i"] by (simp add: float_or_def int_str_def)

text \<open>The alert thresholds are always usable: whatever JSON the users send, with whatever cache hits,
  busts and database failures, the low threshold read is a number between the critical one and 100, and
  the critical one is not negative.\<close>
theorem settings_thresholds_bounded:
  assumes "settings_inv st"
  shows "\<exists>low critical. fst (threshold_pcts up now (run (settings_step other) ops st)) = (Fin low, Fin critical) \<and>
    0 \<le> critical \<and> critical \<le> low \<and> low \<le> 100"
proof -
  let ?st = "run (settings_step other) ops st"
  obtain data st' where g: "get_settings up now None ?st = (data, st')" by fastforce
  have r: "in_range data" using get_settings_inv[OF preferences.inv_run[OF assms] g] by simp
  have val: "\<exists>i\<in>{0..100}. float_or (setting data k) (of_int d) = Fin (of_int i)"
    if kk: "k = ''low_stock_threshold'' \<or> k = ''critical_threshold''" and dd: "d \<in> {0..100}" for k d
  proof (cases "map_of data k")
    case None
    then show ?thesis using dd by (auto simp: setting_def float_or_def intro!: bexI[of _ d])
  next
    case (Some v)
    then have "text_in_range (k, v)" using r by (auto simp: in_range_def list_all_iff dest: map_of_SomeD)
    then obtain i where "v = int_str i" "i \<in> {0..100}" using kk by (fastforce simp: text_in_range_def)
    then show ?thesis using Some float_of_text[of i "of_int d"] by (auto simp: setting_def)
  qed
  obtain i j where "i \<in> {0..100}" "float_or (setting data ''low_stock_threshold'') 20 = Fin (of_int i)"
    "j \<in> {0..100}" "float_or (setting data ''critical_threshold'') 10 = Fin (of_int j)"
    using val[of "''low_stock_threshold''" 20] val[of "''critical_threshold''" 10] by auto
  then show ?thesis using g by (auto simp: threshold_pcts_def Let_def)
qed

theorem settings_thresholds_bounded_witness:
  "\<exists>low critical. fst (threshold_pcts True 9 (run (settings_step (\<lambda>v. ''nan''))
     [PutSettings manager_role 1 (Some (PDict [(''critical_threshold'', PFloat NaN), (''low_stock_threshold'', PInt (-4))])),
      NewRequest (Some 3)] fresh_settings)) = (Fin low, Fin critical) \<and> 0 \<le> critical \<and> critical \<le> low \<and> low \<le> 100"
  by (rule settings_thresholds_bounded) (simp add: settings_inv_def fresh_settings_def new_cache_def)

section \<open>Configuration overrides\<close>

record key_info =
  ki_type :: string
  ki_min :: "(real \<times> string) option"
  ki_max :: "(real \<times> string) option"

definition ALLOWED_KEYS :: "(string \<times> key_info) list" where
  "ALLOWED_KEYS = [(''RUN_ETL_ON_STARTUP'', \<lparr>ki_type = ''bool'', ki_min = None, ki_max = None\<rparr>)]"

definition SENSITIVE_KEY_PATTERNS :: "string list" where
  "SENSITIVE_KEY_PATTERNS = [''SECRET_KEY'', ''PASSWORD'', ''TOKEN'', ''KEY'', ''SECRET'', ''API_KEY'', ''PRIVATE'',
     ''DB_PASSWORD'', ''DATABASE_URL'', ''SMTP_PASSWORD'', ''SENDGRID_API_KEY'', ''NVIDIA_API_KEY'']"

definition is_sensitive_key :: "string \<Rightarrow> bool" where
  "is_sensitive_key key = list_ex (\<lambda>p. contains (upper key) p) SENSITIVE_KEY_PATTERNS"

definition quoted :: "string \<Rightarrow> string" where "quoted s = [CHR 39] @ s @ [CHR 39]"

definition validate_key :: "string \<Rightarrow> unit result" where
  "validate_key key = ensure (map_of ALLOWED_KEYS key \<noteq> None)
     (ValueError (''Configuration key '' @ quoted key @ '' is not allowed. Only predefined keys can be overridden.''))"

definition BOOL_TEXTS :: "string list" where
  "BOOL_TEXTS = [''true'', ''false'', ''1'', ''0'', ''yes'', ''no'', ''on'', ''off'']"

text \<open>The handler of a failed conversion raises its message again when the text itself contains
  ``must be''.  A limit comes with its printed form; \<open>small\<close> and \<open>big\<close> compare the value with it.\<close>

definition not_number :: "string \<Rightarrow> string \<Rightarrow> string \<Rightarrow> string \<Rightarrow> bool result" where
  "not_number key kind what v = (if contains v ''must be'' then Err (ValueError (what @ quoted v))
     else Err (ValueError (''Key '' @ quoted key @ '' requires '' @ kind @ '' value'')))"

definition check_bounds :: "string \<Rightarrow> key_info \<Rightarrow> (real \<Rightarrow> bool) \<Rightarrow> (real \<Rightarrow> bool) \<Rightarrow> bool result" where
  "check_bounds key info small big =
     (let too = (\<lambda>op txt. Err (ValueError (''Key '' @ quoted key @ '' value must be '' @ op @ '' '' @ txt)));
          upper_ok = (case ki_max info of Some (x, t) \<Rightarrow> if big x then too ''<='' t else Ok True | None \<Rightarrow> Ok True)
      in case ki_min info of Some (m, t) \<Rightarrow> if small m then too ''>='' t else upper_ok | None \<Rightarrow> upper_ok)"

definition validate_value_in :: "(string \<times> key_info) list \<Rightarrow> string \<Rightarrow> string \<Rightarrow> bool result" where
  "validate_value_in table key v = (case map_of table key of
      None \<Rightarrow> Err (ValueError (''Unknown configuration key: '' @ key))
    | Some info \<Rightarrow>
        if ki_type info = ''bool'' then
          bindE (ensure (lower v \<in> set BOOL_TEXTS)
            (ValueError (''Key '' @ quoted key @ '' requires a boolean value (true/false)''))) (\<lambda>_. Ok True)
        else if ki_type info = ''int'' then
          (case parse_int v of
             None \<Rightarrow> not_number key ''an integer'' ''invalid literal for int() with base 10: '' v
           | Some i \<Rightarrow> check_bounds key info (\<lambda>m. real_of_int i < m) (\<lambda>x. x < real_of_int i))
        else if ki_type info = ''float'' then
          (case parse_float v of
             None \<Rightarrow> not_number key ''a numeric'' ''could not convert string to float: '' v
           | Some x \<Rightarrow> check_bounds key info (\<lambda>m. xlt x (Fin m)) (\<lambda>m. xlt (Fin m) x))
        else Ok True)"

definition validate_value :: "string \<Rightarrow> string \<Rightarrow> bool result" where "validate_value = validate_value_in ALLOWED_KEYS"

record override_row =
  co_id :: int
  co_key :: string
  co_value :: string
  co_description :: "string option"
  co_sensitive :: bool
  co_updated :: int
  co_by :: int
  co_deleted :: "int option"

record config_db =
  co_rows :: "override_row list"
  co_next :: int
  co_users :: "int list"

definition shown :: "bool \<Rightarrow> override_row \<Rightarrow> bool" where "shown include_deleted r \<longleftrightarrow> include_deleted \<or> co_deleted r = None"

definition repo_config_all :: "bool \<Rightarrow> config_db \<Rightarrow> override_row list" where
  "repo_config_all inc db = sort_key (\<lambda>r. map code_of (co_key r)) (filter (shown inc) (co_rows db))"

definition repo_config_by_key :: "string \<Rightarrow> bool \<Rightarrow> config_db \<Rightarrow> override_row option" where
  "repo_config_by_key key inc db = find_row (\<lambda>r. co_key r = key \<and> shown inc r) (co_rows db)"

definition repo_config_by_id :: "int \<Rightarrow> bool \<Rightarrow> config_db \<Rightarrow> override_row option" where
  "repo_config_by_id i inc db = find_row (\<lambda>r. co_id r = i \<and> shown inc r) (co_rows db)"

definition repo_config_list :: "nat \<Rightarrow> nat \<Rightarrow> bool \<Rightarrow> config_db \<Rightarrow> override_row list" where
  "repo_config_list limit offset inc db =
     take limit (drop offset (sort_key (\<lambda>r. - co_updated r) (filter (shown inc) (co_rows db))))"

definition repo_set_override :: "int \<Rightarrow> string \<Rightarrow> string \<Rightarrow> string option \<Rightarrow> int \<Rightarrow> config_db \<Rightarrow> unit result \<times> config_db" where
  "repo_set_override now key v descr uid db =
     (if uid \<notin> set (co_users db) then (Err (DbForeignKey ''system_config_overrides_updated_by_fkey''), db)
      else if list_ex (\<lambda>r. co_key r = key) (co_rows db)
      then (Ok (), db\<lparr>co_rows := update_where (\<lambda>r. co_key r = key) (\<lambda>r. r\<lparr>co_value := v, co_description := descr,
             co_sensitive := is_sensitive_key key, co_updated := now, co_by := uid, co_deleted := None\<rparr>) (co_rows db)\<rparr>)
      else if 80 < length key then (Err (too_long 80), db)
      else (Ok (), db\<lparr>co_next := co_next db + 1, co_rows := co_rows db @ [\<lparr>co_id = co_next db, co_key = key, co_value = v,
             co_description = descr, co_sensitive = is_sensitive_key key, co_updated = now, co_by = uid, co_deleted = None\<rparr>]\<rparr>))"

definition repo_delete_override :: "int \<Rightarrow> string \<Rightarrow> config_db \<Rightarrow> config_db" where
  "repo_delete_override now key db =
     db\<lparr>co_rows := update_where (\<lambda>r. co_key r = key) (\<lambda>r. r\<lparr>co_deleted := Some now\<rparr>) (co_rows db)\<rparr>"

definition repo_delete_override_id :: "int \<Rightarrow> int \<Rightarrow> config_db \<Rightarrow> config_db" where
  "repo_delete_override_id now i db =
     db\<lparr>co_rows := update_where (\<lambda>r. co_id r = i) (\<lambda>r. r\<lparr>co_deleted := Some now\<rparr>) (co_rows db)\<rparr>"

text \<open>What the admin pages show: sensitivity is computed when a row is read.\<close>

definition display_value :: "override_row \<Rightarrow> string" where
  "display_value r = (if is_sensitive_key (co_key r) then ''********'' else co_value r)"

definition config_get_all :: "config_db \<Rightarrow> (override_row \<times> string) list" where
  "config_get_all db = map (\<lambda>r. (r\<lparr>co_sensitive := is_sensitive_key (co_key r)\<rparr>, display_value r)) (repo_config_all False db)"

definition config_get_by_key :: "string \<Rightarrow> config_db \<Rightarrow> (override_row \<times> string) option" where
  "config_get_by_key key db =
     map_option (\<lambda>r. (r\<lparr>co_sensitive := is_sensitive_key (co_key r)\<rparr>, display_value r)) (repo_config_by_key key False db)"

definition set_override :: "int \<Rightarrow> int option \<Rightarrow> string \<Rightarrow> string \<Rightarrow> string option \<Rightarrow> config_db \<Rightarrow> unit result \<times> config_db" where
  "set_override now uid key v descr db = (case uid of
      None \<Rightarrow> (Err (ValueError ''Authentication required''), db) | Some u \<Rightarrow> repo_set_override now key v descr u db)"

definition delete_override :: "int \<Rightarrow> int option \<Rightarrow> string \<Rightarrow> config_db \<Rightarrow> unit result \<times> config_db" where
  "delete_override now uid key db = (case uid of
      None \<Rightarrow> (Err (ValueError ''Authentication required''), db) | Some u \<Rightarrow> (Ok (), repo_delete_override now key db))"

text \<open>The routes, behind the role check: the page to go to and what is flashed.\<close>

type_synonym config_answer = "(string \<times> string \<times> string) outcome"

definition stripped :: "texts \<Rightarrow> string \<Rightarrow> string" where
  "stripped form k = strip (case map_of form k of Some v \<Rightarrow> v | None \<Rightarrow> [])"

definition config_save :: "string \<Rightarrow> string \<Rightarrow> string \<Rightarrow> int \<Rightarrow> int option \<Rightarrow> string \<Rightarrow> string \<Rightarrow> string \<Rightarrow> config_db \<Rightarrow> config_answer \<times> config_db" where
  "config_save page verb doing now uid key v descr db = (case validate_value key v of
      Inl e \<Rightarrow> (Returned (page, ''error'', exc_text e), db)
    | Inr _ \<Rightarrow> (case set_override now uid key v (Some descr) db of
        (Inl e, db1) \<Rightarrow> (Returned (page, ''error'', ''Error '' @ doing @ '' override: '' @ exc_text e), db1)
      | (Inr _, db1) \<Rightarrow> (Returned (''index'', ''success'', ''Override '' @ quoted key @ '' '' @ verb @ '' successfully.''), db1)))"

definition config_create :: "user \<Rightarrow> int \<Rightarrow> int option \<Rightarrow> texts \<Rightarrow> config_db \<Rightarrow> config_answer \<times> config_db" where
  "config_create actor now uid form = roles_required [''admin''] actor (\<lambda>db.
     let key = stripped form ''key'' in
     if key = [] then (Returned (''create'', ''error'', ''Key is required.''), db)
     else (case validate_key key of
        Inl e \<Rightarrow> (Returned (''create'', ''error'', exc_text e), db)
      | Inr _ \<Rightarrow> config_save ''create'' ''set'' ''setting'' now uid key (stripped form ''value'') (stripped form ''description'') db))"

definition config_edit :: "user \<Rightarrow> int \<Rightarrow> int option \<Rightarrow> string \<Rightarrow> texts \<Rightarrow> config_db \<Rightarrow> config_answer \<times> config_db" where
  "config_edit actor now uid key form = roles_required [''admin''] actor (\<lambda>db.
     case config_get_by_key key db of
       None \<Rightarrow> (Returned (''index'', ''error'', ''Override '' @ quoted key @ '' not found.''), db)
     | Some _ \<Rightarrow> config_save ''edit'' ''updated'' ''updating'' now uid key (stripped form ''value'') (stripped form ''description'') db)"

definition config_delete :: "user \<Rightarrow> int \<Rightarrow> int option \<Rightarrow> string \<Rightarrow> config_db \<Rightarrow> config_answer \<times> config_db" where
  "config_delete actor now uid key = roles_required [''admin''] actor (\<lambda>db.
     case delete_override now uid key db of
       (Inl e, db1) \<Rightarrow> (Returned (''index'', ''error'', ''Error deleting override: '' @ exc_text e), db1)
     | (Inr _, db1) \<Rightarrow> (Returned (''index'', ''success'', ''Override '' @ quoted key @ '' deleted successfully.''), db1))"

datatype config_op = CCreate texts | CEdit string texts | CDelete string

fun config_step :: "user \<times> int \<times> int option \<times> config_op \<Rightarrow> config_db \<Rightarrow> config_db" where
  "config_step (actor, now, uid, CCreate form) db = snd (config_create actor now uid form db)"
| "config_step (actor, now, uid, CEdit key form) db = snd (config_edit actor now uid key form db)"
| "config_step (actor, now, uid, CDelete key) db = snd (config_delete actor now uid key db)"

definition override_ok :: "override_row \<Rightarrow> bool" where
  "override_ok r \<longleftrightarrow> validate_value (co_key r) (co_value r) = Ok True"

definition config_ok :: "config_db \<Rightarrow> bool" where
  "config_ok db \<longleftrightarrow> distinct (map co_key (co_rows db)) \<and> list_all override_ok (co_rows db)"

lemma validate_value_Ok: "validate_value key v = Ok x \<Longrightarrow> x = True"
  by (auto simp: validate_value_def validate_value_in_def bindE_Ok_iff not_number_def check_bounds_def Let_def
      split: option.splits if_splits prod.splits)

lemma config_ok_set:
  assumes "config_ok db" and "validate_value key v = Ok True" and "repo_set_override now key v descr uid db = (r, db')"
  shows "config_ok db'"
proof -
  let ?f = "\<lambda>r. r\<lparr>co_value := v, co_description := descr, co_sensitive := is_sensitive_key key, co_updated := now,
    co_by := uid, co_deleted := None\<rparr>"
  have "map co_key (update_where (\<lambda>r. co_key r = key) ?f rows) = map co_key rows" for rows
    by (rule update_where_keys) simp
  moreover have "list_all override_ok (update_where (\<lambda>r. co_key r = key) ?f rows)" if "list_all override_ok rows" for rows
    using that assms(2) by (auto simp: update_where_def list_all_iff override_ok_def)
  ultimately show ?thesis
    using assms by (auto simp: repo_set_override_def config_ok_def list_ex_iff override_ok_def split: if_splits)
qed

lemma config_ok_delete: "config_ok db \<Longrightarrow> config_ok (repo_delete_override now key db)"
proof -
  assume ok: "config_ok db"
  have "map co_key (update_where (\<lambda>r. co_key r = key) (\<lambda>r. r\<lparr>co_deleted := Some now\<rparr>) rows) = map co_key rows" for rows
    by (rule update_where_keys) simp
  moreover have "list_all override_ok (update_where (\<lambda>r. co_key r = key) (\<lambda>r. r\<lparr>co_deleted := Some now\<rparr>) rows)"
    if "list_all override_ok rows" for rows
    using that by (auto simp: update_where_def list_all_iff override_ok_def)
  ultimately show ?thesis using ok by (simp add: config_ok_def repo_delete_override_def)
qed

lemma config_save_cases:
  "config_save page verb doing now uid key v descr db = (a, db') \<Longrightarrow> db' = db \<or>
    (validate_value key v = Ok True \<and> (\<exists>u r. uid = Some u \<and> repo_set_override now key v (Some descr) u db = (r, db')))"
  by (auto simp: config_save_def set_override_def split: sum.splits prod.splits option.splits dest: validate_value_Ok)

lemma config_ok_save: "config_ok db \<Longrightarrow> config_ok (snd (config_save page verb doing now uid key v descr db))"
  using config_save_cases[of page verb doing now uid key v descr db] config_ok_set by (metis prod.collapse)

lemma config_ok_step: "config_ok db \<Longrightarrow> config_ok (config_step x db)"
proof -
  assume ok: "config_ok db"
  obtain actor now uid y where x: "x = (actor, now, uid, y)" by (metis prod_cases4)
  show ?thesis
  proof (cases y)
    case (CCreate form)
    then show ?thesis using ok config_ok_save[OF ok]
      by (simp add: x config_create_def roles_required_def Let_def split: sum.split)
  next
    case (CEdit key form)
    then show ?thesis using ok config_ok_save[OF ok]
      by (simp add: x config_edit_def roles_required_def split: option.split)
  next
    case (CDelete key)
    then show ?thesis using ok config_ok_delete[OF ok]
      by (auto simp: x config_delete_def roles_required_def delete_override_def split: option.split)
  qed
qed

interpretation overrides: op_system config_step config_ok
  by unfold_locales (rule config_ok_step)

lemma config_step_denied: "role (fst x) \<noteq> Some ''admin'' \<Longrightarrow> config_step x db = db"
proof -
  assume "role (fst x) \<noteq> Some ''admin''"
  moreover obtain actor now uid y where "x = (actor, now, uid, y)" by (metis prod_cases4)
  ultimately show ?thesis
    by (cases y) (simp_all add: config_create_def config_edit_def config_delete_def roles_required_def)
qed

text \<open>Overrides are always valid: after any sequence of create, edit and delete requests each key has
  one row, is an allowed key, and has a value of the key's type; requests of users who are not admins
  change nothing; and no value of a sensitive key is displayed.\<close>
theorem config_overrides_valid:
  assumes "config_ok db"
  shows "distinct (map co_key (co_rows (run config_step ops db))) \<and>
    (\<forall>r\<in>set (co_rows (run config_step ops db)).
      co_key r \<in> set (map fst ALLOWED_KEYS) \<and> lower (co_value r) \<in> set BOOL_TEXTS) \<and>
    run config_step (filter (\<lambda>x. role (fst x) = Some ''admin'') ops) db = run config_step ops db \<and>
    (\<forall>(r, shown)\<in>set (config_get_all (run config_step ops db)). is_sensitive_key (co_key r) \<longrightarrow> shown = ''********'')"
proof (intro conjI)
  have ok: "config_ok (run config_step ops db)" by (rule overrides.inv_run[OF assms])
  then show "distinct (map co_key (co_rows (run config_step ops db)))" by (simp add: config_ok_def)
  have "co_key r \<in> set (map fst ALLOWED_KEYS) \<and> lower (co_value r) \<in> set BOOL_TEXTS" if "override_ok r" for r
    using that by (auto simp: override_ok_def validate_value_def validate_value_in_def ALLOWED_KEYS_def bindE_Ok_iff ensure_def
        split: if_splits option.splits)
  then show "\<forall>r\<in>set (co_rows (run config_step ops db)).
      co_key r \<in> set (map fst ALLOWED_KEYS) \<and> lower (co_value r) \<in> set BOOL_TEXTS"
    using ok by (auto simp: config_ok_def list_all_iff)
  show "run config_step (filter (\<lambda>x. role (fst x) = Some ''admin'') ops) db = run config_step ops db"
    by (induction ops arbitrary: db) (auto simp: config_step_denied)
  show "\<forall>(r, shown)\<in>set (config_get_all (run config_step ops db)). is_sensitive_key (co_key r) \<longrightarrow> shown = ''********''"
    by (auto simp: config_get_all_def display_value_def)
qed

definition admin_role :: user where "admin_role = \<lparr>role = Some ''admin'', job_role = None\<rparr>"

theorem config_overrides_valid_witness:
  "let ops = [(admin_role, 1, Some 1, CCreate [(''key'', ''RUN_ETL_ON_STARTUP''), (''value'', '' Yes '')]),
        (admin_role, 2, Some 1, CDelete ''RUN_ETL_ON_STARTUP''),
        (admin_role, 3, Some 1, CCreate [(''key'', ''SECRET_KEY''), (''value'', ''true'')]),
        (admin_role, 4, Some 1, CEdit ''RUN_ETL_ON_STARTUP'' [(''value'', ''no'')])];
       db = run config_step ops \<lparr>co_rows = [], co_next = 1, co_users = [1]\<rparr>
   in map (\<lambda>r. (co_id r, co_value r, co_deleted r)) (co_rows db) = [(1, ''Yes'', Some 2)] \<and>
      (\<forall>r\<in>set (co_rows db). lower (co_value r) \<in> set BOOL_TEXTS)"
proof -
  let ?ops = "[(admin_role, 1, Some 1, CCreate [(''key'', ''RUN_ETL_ON_STARTUP''), (''value'', '' Yes '')]),
        (admin_role, 2, Some 1, CDelete ''RUN_ETL_ON_STARTUP''),
        (admin_role, 3, Some 1, CCreate [(''key'', ''SECRET_KEY''), (''value'', ''true'')]),
        (admin_role, 4, Some 1, CEdit ''RUN_ETL_ON_STARTUP'' [(''value'', ''no'')])]"
  have "map (\<lambda>r. (co_id r, co_value r, co_deleted r))
      (co_rows (run config_step ?ops \<lparr>co_rows = [], co_next = 1, co_users = [1]\<rparr>)) = [(1, ''Yes'', Some 2)]" by code_simp
  moreover have "config_ok \<lparr>co_rows = [], co_next = 1, co_users = [1]\<rparr>" by (simp add: config_ok_def)
  ultimately show ?thesis using config_overrides_valid[of "\<lparr>co_rows = [], co_next = 1, co_users = [1]\<rparr>" ?ops]
    unfolding Let_def by blast
qed

text \<open>A deleted override is no longer read, and creating it again revives its row.\<close>

lemma update_where_mem: "r \<in> set (update_where P f rows) \<longleftrightarrow> (\<exists>x\<in>set rows. r = (if P x then f x else x))"
  by (auto simp: update_where_def image_iff)

lemma delete_then_read: "repo_config_by_key key False (repo_delete_override now key db) = None"
  unfolding repo_config_by_key_def repo_delete_override_def find_row_None
proof (intro ballI notI)
  fix r assume "r \<in> set (co_rows (db\<lparr>co_rows := update_where (\<lambda>r. co_key r = key) (\<lambda>r. r\<lparr>co_deleted := Some now\<rparr>) (co_rows db)\<rparr>))"
  then have "r \<in> set (update_where (\<lambda>r. co_key r = key) (\<lambda>r. r\<lparr>co_deleted := Some now\<rparr>) (co_rows db))" by simp
  then obtain x where r: "r = (if co_key x = key then x\<lparr>co_deleted := Some now\<rparr> else x)"
    unfolding update_where_mem by blast
  assume "co_key r = key \<and> shown False r"
  then show False unfolding r by (cases "co_key x = key") (simp_all add: shown_def)
qed

lemma set_then_read:
  assumes "repo_set_override now key v descr uid db = (Ok (), db')"
  shows "\<exists>r. repo_config_by_key key False db' = Some r \<and> co_value r = v \<and> co_description r = descr"
proof -
  define good where "good r \<longleftrightarrow> co_deleted r = None \<and> co_value r = v \<and> co_description r = descr" for r :: override_row
  have "(\<forall>r\<in>set (co_rows db'). co_key r = key \<longrightarrow> good r) \<and> key \<in> set (map co_key (co_rows db'))"
  proof (cases "list_ex (\<lambda>r. co_key r = key) (co_rows db)")
    case True
    define f where "f r = r\<lparr>co_value := v, co_description := descr, co_sensitive := is_sensitive_key key,
      co_updated := now, co_by := uid, co_deleted := None\<rparr>" for r :: override_row
    have f: "good (f x)" "co_key (f x) = co_key x" for x by (simp_all add: good_def f_def)
    have "co_rows db' = update_where (\<lambda>r. co_key r = key) f (co_rows db)"
      using assms True by (simp add: repo_set_override_def f_def[abs_def] split: if_splits) auto
    moreover have "key \<in> set (map co_key (co_rows db))" using True by (auto simp: list_ex_iff)
    moreover have "good r" if "r \<in> set (update_where (\<lambda>r. co_key r = key) f (co_rows db))" "co_key r = key" for r
      using that f unfolding update_where_mem by metis
    moreover have "map co_key (update_where (\<lambda>r. co_key r = key) f (co_rows db)) = map co_key (co_rows db)"
      by (rule update_where_keys) (rule f(2))
    ultimately show ?thesis by metis
  next
    case False
    then obtain n where "co_rows db' = co_rows db @ [n]" and n: "good n" "co_key n = key"
      using assms by (simp add: repo_set_override_def good_def split: if_splits) auto
    moreover have "co_key r \<noteq> key" if "r \<in> set (co_rows db)" for r using False that by (auto simp: list_ex_iff)
    ultimately show ?thesis by auto
  qed
  then show ?thesis
    by (cases "repo_config_by_key key False db'")
      (auto simp: repo_config_by_key_def find_row_None shown_def good_def dest!: find_row_Some)
qed

end
