(* ===== verification/Catalog.thy ===== *)
theory Catalog
  imports Ledger Users Roles
begin

text \<open>Products and suppliers: \<open>app/services/product_service.py\<close>,
  \<open>app/services/supplier_service.py\<close>, their repositories and the stored procedures
  \<open>sp_product_*\<close> and \<open>sp_supplier_*\<close> with the tables' constraints.  The theory Ledger
  has the stock of a product and the movements; here a product is the row of its table with every
  column, and \<open>stock_view\<close> is what the ledger sees of it.

  A payload is the JSON object or form dictionary of the request.  The arrangement of rows by a
  text column depends on the server's collation, so it is an argument.\<close>

section \<open>The tables\<close>

record product_row =
  pr_id :: int
  pr_sku :: string
  pr_name :: string
  pr_category :: "string option"
  pr_warehouse :: "string option"
  pr_stock :: int
  pr_reorder :: int
  pr_demand :: "real option"
  pr_ordering :: "real option"
  pr_holding :: "real option"
  pr_price :: "real option"
  pr_supplier :: "int option"
  pr_on_order :: int
  pr_deleted :: bool

record supplier_row =
  su_id :: int
  su_name :: string
  su_initials :: "string option"
  su_location :: "string option"
  su_lead :: int
  su_spend :: real
  su_reliability :: real
  su_tone :: string
  su_deleted :: bool

record catalog =
  product_rows :: "product_row list"
  next_product :: int
  supplier_rows :: "supplier_row list"
  next_supplier :: int
  trail :: "(string \<times> int) list"  \<comment> \<open>action and target of the audit triggers' rows\<close>

section \<open>SQL parameters\<close>

text \<open>The driver writes a value into the statement as a literal.  A text that is no str, an integer
  beyond four bytes, inf and nan get a type for which the procedure has no overload; the empty list
  becomes the literal \<open>'{}'\<close>.\<close>

abbreviation no_function :: pyexc where "no_function \<equiv> OtherExc ''function does not exist''"

fun sql_text :: "pyval \<Rightarrow> string option result" where
  "sql_text PNone = Ok None"
| "sql_text (PStr s) = Ok (Some s)"
| "sql_text (PList []) = Ok (Some ''{}'')"
| "sql_text _ = Err no_function"

fun sql_int :: "pyval \<Rightarrow> int option result" where
  "sql_int PNone = Ok None"
| "sql_int (PInt i) = (if int4 i then Ok (Some i) else Err no_function)"
| "sql_int _ = Err no_function"

fun sql_numeric :: "pyval \<Rightarrow> real option result" where
  "sql_numeric PNone = Ok None"
| "sql_numeric (PInt i) = Ok (Some (of_int i))"
| "sql_numeric (PFloat (Fin x)) = Ok (Some x)"
| "sql_numeric (PDecimal x) = Ok (Some x)"
| "sql_numeric (PStr s) = Err (OtherExc ''invalid input syntax for type numeric'')"
| "sql_numeric _ = Err no_function"

text \<open>A column \<open>NUMERIC(p, 2)\<close>: two decimals, halves away from zero, below \<open>10 ^ (p - 2)\<close>.\<close>

definition num2 :: "real \<Rightarrow> real" where
  "num2 x = (if x < 0 then - of_int \<lfloor>- x * 100 + 1 / 2\<rfloor> else of_int \<lfloor>x * 100 + 1 / 2\<rfloor>) / 100"

definition numeric_column :: "nat \<Rightarrow> real option \<Rightarrow> real option result" where
  "numeric_column k v = (case v of None \<Rightarrow> Ok None
     | Some x \<Rightarrow> if \<bar>num2 x\<bar> < 10 ^ k then Ok (Some (num2 x))
         else Err (OtherExc ''numeric field overflow''))"

section \<open>Validation of a product\<close>

abbreviation ProductError :: "string \<Rightarrow> pyexc" where
  "ProductError m \<equiv> DomainError ''ProductError'' m"

text \<open>\<open>except ValidationError as exc: raise Cls(str(exc))\<close>; every other error passes.\<close>

fun rewrap :: "(string \<Rightarrow> pyexc) \<Rightarrow> 'a result \<Rightarrow> 'a result" where
  "rewrap cls (Inl (ValidationError m)) = Err (cls m)"
| "rewrap cls r = r"

definition filled :: "pyval \<Rightarrow> bool" where "filled v = (v \<noteq> PNone \<and> v \<noteq> PStr [])"

text \<open>\<open>(payload.get(k) or \"\").strip()\<close>.\<close>

definition stripped :: "payload \<Rightarrow> string \<Rightarrow> string result" where
  "stripped p k = py_strip (py_or (dget p k) (PStr []))"

definition none_if_empty :: "string \<Rightarrow> pyval" where
  "none_if_empty s = (if s = [] then PNone else PStr s)"

definition sku_field :: "payload \<Rightarrow> payload result" where
  "sku_field p = bindE
     (let v = dget p ''sku'' in
      if truthy v then bindE (py_strip v) (\<lambda>s. Ok (PStr (upper s))) else Ok v) (\<lambda>v.
     bindE (case v of
         PStr s \<Rightarrow> bindE (ensure (s = [] \<or> 2 \<le> length s) (ValidationError ''SKU must be at least 2 characters.''))
           (\<lambda>_. ensure (s = [] \<or> length s \<le> 50) (ValidationError ''SKU must be at most 50 characters.''))
       | _ \<Rightarrow> Ok ()) (\<lambda>_.
     Ok (dput ''sku'' v p)))"

text \<open>\<open>if key in payload: payload[key] = int(payload.get(key) or 0)\<close>, not negative.\<close>

definition count_field :: "string \<Rightarrow> string \<Rightarrow> payload \<Rightarrow> payload result" where
  "count_field k msg p = (case map_of p k of None \<Rightarrow> Ok p
     | Some v \<Rightarrow> bindE (to_int (py_or v (PInt 0))) (\<lambda>i.
         bindE (ensure (0 \<le> i) (ValidationError msg)) (\<lambda>_. Ok (dput k (PInt i) p))))"

definition cost_field :: "string \<Rightarrow> string \<Rightarrow> payload \<Rightarrow> payload result" where
  "cost_field k title p = (if filled (dget p k)
     then bindE (validate_positive_number (dget p k) title True) (\<lambda>x. Ok (dput k (PFloat x) p))
     else Ok p)"

definition eoq_keys :: "(string \<times> string) list" where
  "eoq_keys = [(''demand_rate'', ''Demand Rate''), (''ordering_cost'', ''Ordering Cost''),
     (''holding_cost'', ''Holding Cost'')]"

definition eoq_trio :: "payload \<Rightarrow> unit result" where
  "eoq_trio p = (let missing = map snd (filter (\<lambda>(k, t). \<not> filled (dget p k)) eoq_keys) in
     ensure (missing = [] \<or> length missing = 3)
       (ValidationError (''All EOQ fields required. Missing: '' @ joins '', '' missing)))"

definition supplier_field :: "payload \<Rightarrow> payload result" where
  "supplier_field p = bindE
     (let v = dget p ''supplier_id'' in if truthy v then bindE (to_int v) (\<lambda>i. Ok (PInt i)) else Ok PNone)
     (\<lambda>v. Ok (dput ''supplier_id'' v p))"

definition product_validate :: "bool \<Rightarrow> payload \<Rightarrow> payload result" where
  "product_validate is_update p = rewrap ProductError (
     bindE (sku_field p) (\<lambda>p.
     bindE (validate_string_length (dget_or p ''name'' (PStr [])) ''Name'' 2 150) (\<lambda>n.
     let p = dput ''name'' (PStr n) p in
     bindE (stripped p ''category'') (\<lambda>c.
     let p = dput ''category'' (none_if_empty c) p in
     bindE (stripped p ''warehouse'') (\<lambda>w.
     let p = dput ''warehouse'' (PStr w) p in
     bindE (ensure (w \<noteq> []) (ValidationError ''Warehouse is required.'')) (\<lambda>_.
     bindE (validate_positive_number (dget p ''unit_price'') ''Unit price'' False) (\<lambda>x.
     let p = dput ''unit_price'' (PFloat x) p in
     bindE (ensure (\<not> (map_of p ''current_stock'' \<noteq> None \<and> is_update))
       (ValidationError ''current_stock cannot be updated directly. Use movement recording.'')) (\<lambda>_.
     bindE (count_field ''current_stock'' ''Current stock cannot be negative.'' p) (\<lambda>p.
     bindE (count_field ''reorder_point'' ''Reorder point cannot be negative.'' p) (\<lambda>p.
     bindE (cost_field ''demand_rate'' ''Demand Rate'' p) (\<lambda>p.
     bindE (cost_field ''ordering_cost'' ''Ordering Cost'' p) (\<lambda>p.
     bindE (cost_field ''holding_cost'' ''Holding Cost'' p) (\<lambda>p.
     bindE (eoq_trio p) (\<lambda>_. supplier_field p))))))))))))))"

section \<open>The product procedures\<close>

record product_args =
  pa_sku :: "string option"
  pa_name :: "string option"
  pa_category :: "string option"
  pa_warehouse :: "string option"
  pa_stock :: "int option"
  pa_reorder :: "int option"
  pa_demand :: "real option"
  pa_ordering :: "real option"
  pa_holding :: "real option"
  pa_price :: "real option"
  pa_supplier :: "int option"

definition product_at :: "int \<Rightarrow> catalog \<Rightarrow> product_row option" where
  "product_at i db = find_row (\<lambda>r. pr_id r = i) (product_rows db)"

definition sp_product_find :: "int \<Rightarrow> catalog \<Rightarrow> product_row option" where
  "sp_product_find i db = find_row (\<lambda>r. pr_id r = i \<and> \<not> pr_deleted r) (product_rows db)"

definition sp_product_find_by_sku :: "string option \<Rightarrow> catalog \<Rightarrow> product_row option" where
  "sp_product_find_by_sku s db = find_row (\<lambda>r. Some (pr_sku r) = s \<and> \<not> pr_deleted r) (product_rows db)"

text \<open>What every column does to the value it is assigned: the widths of the text columns, the scale
  and range of the numeric ones.\<close>

definition column_values :: "product_args \<Rightarrow> product_args result" where
  "column_values a =
     bindE (ensure (fits 50 (pa_sku a)) (too_long 50)) (\<lambda>_.
     bindE (ensure (fits 150 (pa_name a)) (too_long 150)) (\<lambda>_.
     bindE (ensure (fits 80 (pa_category a)) (too_long 80)) (\<lambda>_.
     bindE (ensure (fits 80 (pa_warehouse a)) (too_long 80)) (\<lambda>_.
     bindE (numeric_column 10 (pa_demand a)) (\<lambda>d.
     bindE (numeric_column 10 (pa_ordering a)) (\<lambda>oc.
     bindE (numeric_column 10 (pa_holding a)) (\<lambda>h.
     bindE (numeric_column 10 (pa_price a)) (\<lambda>u.
     Ok (a\<lparr>pa_demand := d, pa_ordering := oc, pa_holding := h, pa_price := u\<rparr>)))))))))"

definition at_least0 :: "real option \<Rightarrow> bool" where
  "at_least0 v = (case v of None \<Rightarrow> True | Some x \<Rightarrow> 0 \<le> x)"

definition not_null :: "string \<Rightarrow> 'a option \<Rightarrow> 'a result" where
  "not_null col v = (case v of Some x \<Rightarrow> Ok x
     | None \<Rightarrow> Err (OtherExc (''null value in column '' @ col @ '' violates not-null constraint'')))"

text \<open>The CHECK constraints, in the order of their names.\<close>

definition product_checks :: "int \<Rightarrow> int \<Rightarrow> product_args \<Rightarrow> unit result" where
  "product_checks stock reorder a =
     bindE (ensure (0 \<le> stock) (DbCheck ''chk_current_stock_nonnegative'')) (\<lambda>_.
     bindE (ensure (at_least0 (pa_demand a)) (DbCheck ''chk_demand_rate_nonnegative'')) (\<lambda>_.
     bindE (ensure (at_least0 (pa_holding a)) (DbCheck ''chk_holding_cost_nonnegative'')) (\<lambda>_.
     bindE (ensure (at_least0 (pa_ordering a)) (DbCheck ''chk_ordering_cost_nonnegative'')) (\<lambda>_.
     bindE (ensure (0 \<le> reorder) (DbCheck ''chk_reorder_point_nonnegative'')) (\<lambda>_.
     ensure (at_least0 (pa_price a)) (DbCheck ''chk_unit_price_nonnegative''))))))"

definition supplier_known :: "int option \<Rightarrow> catalog \<Rightarrow> bool" where
  "supplier_known s db = (case s of None \<Rightarrow> True | Some i \<Rightarrow> i \<in> set (map su_id (supplier_rows db)))"

definition sku_live :: "string \<Rightarrow> catalog \<Rightarrow> bool" where
  "sku_live s db = list_ex (\<lambda>r. pr_sku r = s \<and> \<not> pr_deleted r) (product_rows db)"

text \<open>A failed insert consumes a sequence number, which the model does not show.\<close>

definition sp_product_create :: "product_args \<Rightarrow> catalog \<Rightarrow> (int \<times> catalog) result" where
  "sp_product_create a0 db =
     bindE (column_values a0) (\<lambda>a.
     bindE (not_null ''sku'' (pa_sku a)) (\<lambda>s.
     bindE (not_null ''name'' (pa_name a)) (\<lambda>n.
     bindE (not_null ''current_stock'' (pa_stock a)) (\<lambda>q.
     bindE (not_null ''reorder_point'' (pa_reorder a)) (\<lambda>rp.
     bindE (product_checks q rp a) (\<lambda>_.
     bindE (ensure (\<not> sku_live s db) (DbUnique ''products_sku_live_key'')) (\<lambda>_.
     bindE (ensure (supplier_known (pa_supplier a) db) (DbForeignKey ''products_supplier_id_fkey'')) (\<lambda>_.
     Ok (next_product db, db\<lparr>next_product := next_product db + 1, product_rows := product_rows db @
       [\<lparr>pr_id = next_product db, pr_sku = s, pr_name = n, pr_category = pa_category a,
         pr_warehouse = pa_warehouse a, pr_stock = q, pr_reorder = rp, pr_demand = pa_demand a,
         pr_ordering = pa_ordering a, pr_holding = pa_holding a, pr_price = pa_price a,
         pr_supplier = pa_supplier a, pr_on_order = 0, pr_deleted = False\<rparr>],
       trail := trail db @ [(''product_created'', next_product db)]\<rparr>)))))))))"

text \<open>\<open>UPDATE products ... WHERE id = i\<close> with the audit trigger of the row: setting \<open>deleted_at\<close> on a
  live row is logged as a deletion.\<close>

definition product_action :: "product_row \<Rightarrow> product_row \<Rightarrow> string" where
  "product_action old new = (if pr_deleted new \<and> \<not> pr_deleted old then ''product_deleted'' else ''product_updated'')"

definition set_product_row :: "int \<Rightarrow> (product_row \<Rightarrow> product_row) \<Rightarrow> catalog \<Rightarrow> catalog" where
  "set_product_row i f db = (case product_at i db of None \<Rightarrow> db
     | Some r \<Rightarrow> db\<lparr>product_rows := update_where (\<lambda>r. pr_id r = i) f (product_rows db),
         trail := trail db @ [(product_action r (f r), i)]\<rparr>)"

text \<open>An update of no row evaluates no column and succeeds.  It does not test \<open>deleted_at\<close>.\<close>

definition sp_product_update :: "int \<Rightarrow> product_args \<Rightarrow> catalog \<Rightarrow> catalog result" where
  "sp_product_update i a0 db = (case product_at i db of None \<Rightarrow> Ok db
     | Some r \<Rightarrow>
        bindE (column_values a0) (\<lambda>a.
        bindE (not_null ''name'' (pa_name a)) (\<lambda>n.
        bindE (not_null ''reorder_point'' (pa_reorder a)) (\<lambda>rp.
        bindE (product_checks (pr_stock r) rp a) (\<lambda>_.
        bindE (ensure (supplier_known (pa_supplier a) db) (DbForeignKey ''products_supplier_id_fkey'')) (\<lambda>_.
        Ok (set_product_row i (\<lambda>r. r\<lparr>pr_name := n, pr_category := pa_category a,
          pr_warehouse := pa_warehouse a, pr_price := pa_price a, pr_supplier := pa_supplier a,
          pr_reorder := rp, pr_demand := pa_demand a, pr_ordering := pa_ordering a,
          pr_holding := pa_holding a\<rparr>) db)))))))"

definition sp_product_delete :: "int \<Rightarrow> catalog \<Rightarrow> catalog" where
  "sp_product_delete i db = set_product_row i (\<lambda>r. r\<lparr>pr_deleted := True\<rparr>) db"

definition repo_set_stock :: "int \<Rightarrow> int \<Rightarrow> catalog \<Rightarrow> catalog result" where
  "repo_set_stock i v db = (if product_at i db \<noteq> None \<and> v < 0
     then Err (DbCheck ''chk_current_stock_nonnegative'')
     else Ok (set_product_row i (\<lambda>r. r\<lparr>pr_stock := v\<rparr>) db))"

definition repo_set_on_order :: "int \<Rightarrow> int \<Rightarrow> catalog \<Rightarrow> catalog" where
  "repo_set_on_order i q db = set_product_row i (\<lambda>r. r\<lparr>pr_on_order := q\<rparr>) db"

section \<open>The product repository\<close>

text \<open>\<open>int(payload.get(k) or 0)\<close>.\<close>

definition int_or0 :: "payload \<Rightarrow> string \<Rightarrow> int result" where
  "int_or0 p k = to_int (py_or (dget p k) (PInt 0))"

definition repo_product_create :: "payload \<Rightarrow> catalog \<Rightarrow> (int \<times> catalog) result" where
  "repo_product_create p db =
     bindE (int_or0 p ''current_stock'') (\<lambda>q.
     bindE (int_or0 p ''reorder_point'') (\<lambda>rp.
     bindE (sql_text (dget p ''sku'')) (\<lambda>s.
     bindE (sql_text (dget p ''name'')) (\<lambda>n.
     bindE (sql_text (dget p ''category'')) (\<lambda>c.
     bindE (sql_text (py_or (dget p ''warehouse'') (PStr ''WH-Pune''))) (\<lambda>w.
     bindE (sql_int (PInt q)) (\<lambda>q.
     bindE (sql_int (PInt rp)) (\<lambda>rp.
     bindE (sql_numeric (dget p ''demand_rate'')) (\<lambda>d.
     bindE (sql_numeric (dget p ''ordering_cost'')) (\<lambda>oc.
     bindE (sql_numeric (dget p ''holding_cost'')) (\<lambda>h.
     bindE (sql_numeric (dget p ''unit_price'')) (\<lambda>u.
     bindE (sql_int (dget p ''supplier_id'')) (\<lambda>su.
     sp_product_create \<lparr>pa_sku = s, pa_name = n, pa_category = c, pa_warehouse = w, pa_stock = q,
       pa_reorder = rp, pa_demand = d, pa_ordering = oc, pa_holding = h, pa_price = u,
       pa_supplier = su\<rparr> db)))))))))))))"

definition repo_product_update :: "int \<Rightarrow> payload \<Rightarrow> catalog \<Rightarrow> catalog result" where
  "repo_product_update i p db =
     bindE (int_or0 p ''reorder_point'') (\<lambda>rp.
     bindE (sql_text (dget p ''name'')) (\<lambda>n.
     bindE (sql_text (dget p ''category'')) (\<lambda>c.
     bindE (sql_text (dget p ''warehouse'')) (\<lambda>w.
     bindE (sql_numeric (dget p ''unit_price'')) (\<lambda>u.
     bindE (sql_int (dget p ''supplier_id'')) (\<lambda>su.
     bindE (sql_int (PInt rp)) (\<lambda>rp.
     bindE (sql_numeric (dget p ''demand_rate'')) (\<lambda>d.
     bindE (sql_numeric (dget p ''ordering_cost'')) (\<lambda>oc.
     bindE (sql_numeric (dget p ''holding_cost'')) (\<lambda>h.
     sp_product_update i \<lparr>pa_sku = None, pa_name = n, pa_category = c, pa_warehouse = w, pa_stock = None,
       pa_reorder = rp, pa_demand = d, pa_ordering = oc, pa_holding = h, pa_price = u,
       pa_supplier = su\<rparr> db))))))))))"

section \<open>The product service\<close>

text \<open>\<open>seen\<close> is the database as the duplicate check of \<open>create\<close> found it, \<open>db\<close> as the insert finds it;
  another request may have written in between.\<close>

definition product_create :: "catalog \<Rightarrow> payload \<Rightarrow> catalog \<Rightarrow> int result \<times> catalog" where
  "product_create seen p db = (case bindE (product_validate False p) (\<lambda>p.
       bindE (sql_text (dget p ''sku'')) (\<lambda>s.
       bindE (ensure (sp_product_find_by_sku s seen = None) (ProductError ''SKU already exists.'')) (\<lambda>_.
       case repo_product_create p db of
         Inl e \<Rightarrow> Err (if is_unique_violation e then ProductError ''SKU already exists.'' else e)
       | Inr r \<Rightarrow> Ok r))) of
       Inl e \<Rightarrow> (Err e, db)
     | Inr (i, db') \<Rightarrow> (Ok i, db'))"

definition product_update :: "int \<Rightarrow> payload \<Rightarrow> catalog \<Rightarrow> unit result \<times> catalog" where
  "product_update i p db = (case bindE (product_validate True p) (\<lambda>p. repo_product_update i p db) of
       Inl e \<Rightarrow> (Err e, db)
     | Inr db' \<Rightarrow> (Ok (), db'))"

definition product_delete :: "int \<Rightarrow> catalog \<Rightarrow> catalog" where
  "product_delete i db = sp_product_delete i db"

section \<open>Suppliers\<close>

abbreviation SupplierError :: "string \<Rightarrow> pyexc" where
  "SupplierError m \<equiv> DomainError ''SupplierError'' m"

definition xgt :: "xfloat \<Rightarrow> real \<Rightarrow> bool" where "xgt x b = xlt (Fin b) x"

definition supplier_validate :: "payload \<Rightarrow> payload result" where
  "supplier_validate p = rewrap SupplierError (
     bindE (validate_string_length (dget_or p ''name'' (PStr [])) ''Supplier name'' 2 150) (\<lambda>n.
     let p = dput ''name'' (PStr n) p in
     bindE (stripped p ''location'') (\<lambda>l.
     let p = dput ''location'' (none_if_empty l) p in
     bindE (ensure (length l \<le> 100) (ValidationError ''Location must be at most 100 characters.'')) (\<lambda>_.
     bindE (to_int (py_or (dget p ''lead_days'') (PInt 0))) (\<lambda>d.
     let p = dput ''lead_days'' (PInt d) p in
     bindE (ensure (0 \<le> d) (ValidationError ''Lead time cannot be negative.'')) (\<lambda>_.
     bindE (ensure (d \<le> 365) (ValidationError ''Lead time cannot exceed 365 days.'')) (\<lambda>_.
     bindE (validate_positive_number (dget p ''spend_amount'') ''YTD spend'' True) (\<lambda>x.
     let p = dput ''spend_amount'' (PFloat x) p in
     bindE (validate_positive_number (py_or (dget p ''reliability'') (PFloat (Fin 90))) ''Reliability'' True) (\<lambda>r.
     let p = dput ''reliability'' (PFloat r) p in
     bindE (ensure (\<not> xgt r 100) (ValidationError ''Reliability cannot exceed 100.'')) (\<lambda>_.
     Ok (dput ''tone'' (py_or (dget p ''tone'') (PStr ''amber'')) p)))))))))))"

record supplier_args =
  sa_name :: "string option"
  sa_initials :: "string option"
  sa_location :: "string option"
  sa_lead :: "int option"
  sa_spend :: "real option"
  sa_reliability :: "real option"
  sa_tone :: "string option"

definition sp_supplier_find :: "int \<Rightarrow> catalog \<Rightarrow> supplier_row option" where
  "sp_supplier_find i db = find_row (\<lambda>r. su_id r = i \<and> \<not> su_deleted r) (supplier_rows db)"

definition supplier_live :: "string \<Rightarrow> int \<Rightarrow> catalog \<Rightarrow> bool" where
  "supplier_live n i db = list_ex (\<lambda>r. su_name r = n \<and> su_id r \<noteq> i \<and> \<not> su_deleted r) (supplier_rows db)"

text \<open>The assignment to the columns and the CHECK constraints.  The repository always passes a lead
  time, an amount, a reliability and a tone.\<close>

definition supplier_values ::
  "supplier_args \<Rightarrow> (string \<times> string option \<times> int \<times> real \<times> real \<times> string) result" where
  "supplier_values a =
     bindE (ensure (fits 150 (sa_name a)) (too_long 150)) (\<lambda>_.
     bindE (ensure (fits 200 (sa_location a)) (too_long 200)) (\<lambda>_.
     bindE (numeric_column 10 (sa_spend a)) (\<lambda>x.
     bindE (numeric_column 3 (sa_reliability a)) (\<lambda>r.
     bindE (ensure (fits 20 (sa_tone a)) (too_long 20)) (\<lambda>_.
     bindE (not_null ''name'' (sa_name a)) (\<lambda>n.
     bindE (not_null ''lead_days'' (sa_lead a)) (\<lambda>d.
     bindE (not_null ''spend_amount'' x) (\<lambda>x.
     bindE (not_null ''reliability'' r) (\<lambda>r.
     bindE (not_null ''tone'' (sa_tone a)) (\<lambda>t.
     bindE (ensure (0 \<le> d) (DbCheck ''chk_lead_days_nonnegative'')) (\<lambda>_.
     bindE (ensure (0 \<le> r \<and> r \<le> 100) (DbCheck ''chk_reliability_range'')) (\<lambda>_.
     bindE (ensure (0 \<le> x) (DbCheck ''chk_spend_amount_nonnegative'')) (\<lambda>_.
     Ok (n, sa_location a, d, x, r, t))))))))))))))"

definition sp_supplier_create :: "supplier_args \<Rightarrow> catalog \<Rightarrow> (int \<times> catalog) result" where
  "sp_supplier_create a db =
     bindE (ensure (fits 10 (sa_initials a)) (too_long 10)) (\<lambda>_.
     bindE (supplier_values a) (\<lambda>(n, l, d, x, r, t).
     bindE (ensure (\<not> supplier_live n (next_supplier db) db) (DbUnique ''uq_suppliers_name_live'')) (\<lambda>_.
     Ok (next_supplier db, db\<lparr>next_supplier := next_supplier db + 1, supplier_rows := supplier_rows db @
       [\<lparr>su_id = next_supplier db, su_name = n, su_initials = sa_initials a, su_location = l,
         su_lead = d, su_spend = x, su_reliability = r, su_tone = t, su_deleted = False\<rparr>],
       trail := trail db @ [(''supplier_created'', next_supplier db)]\<rparr>))))"

text \<open>The audit trigger of the suppliers has no case for the soft delete: every update is logged as
  \<open>supplier_updated\<close>.\<close>

definition set_supplier_row :: "int \<Rightarrow> (supplier_row \<Rightarrow> supplier_row) \<Rightarrow> catalog \<Rightarrow> catalog" where
  "set_supplier_row i f db = (if i \<notin> set (map su_id (supplier_rows db)) then db
     else db\<lparr>supplier_rows := update_where (\<lambda>r. su_id r = i) f (supplier_rows db),
            trail := trail db @ [(''supplier_updated'', i)]\<rparr>)"

text \<open>The partial unique index holds the live rows only: updating a deleted row cannot conflict.\<close>

definition sp_supplier_update :: "int \<Rightarrow> supplier_args \<Rightarrow> catalog \<Rightarrow> catalog result" where
  "sp_supplier_update i a db = (case find_row (\<lambda>r. su_id r = i) (supplier_rows db) of
      None \<Rightarrow> Ok db
    | Some row \<Rightarrow>
        bindE (supplier_values a) (\<lambda>(n, l, d, x, r, t).
        bindE (ensure (su_deleted row \<or> \<not> supplier_live n i db) (DbUnique ''uq_suppliers_name_live'')) (\<lambda>_.
        Ok (set_supplier_row i (\<lambda>s. s\<lparr>su_name := n, su_location := l, su_lead := d, su_spend := x,
          su_reliability := r, su_tone := t\<rparr>) db))))"

definition sp_supplier_delete :: "int \<Rightarrow> catalog \<Rightarrow> catalog" where
  "sp_supplier_delete i db = set_supplier_row i (\<lambda>s. s\<lparr>su_deleted := True\<rparr>) db"

text \<open>The initials: the first letters of the first two words.\<close>

definition supplier_initials :: "string \<Rightarrow> string" where
  "supplier_initials n = take 2 (upper (map hd (take 2 (split_words n))))"

text \<open>\<open>float(payload.get(k) or d)\<close>.\<close>

definition float_or :: "payload \<Rightarrow> string \<Rightarrow> real \<Rightarrow> pyval result" where
  "float_or p k d = bindE (to_float (py_or (dget p k) (PFloat (Fin d)))) (\<lambda>x. Ok (PFloat x))"

definition repo_supplier_args :: "payload \<Rightarrow> supplier_args result" where
  "repo_supplier_args p =
     bindE (to_int (py_or (dget p ''lead_days'') (PInt 0))) (\<lambda>d.
     bindE (float_or p ''spend_amount'' 0) (\<lambda>x.
     bindE (float_or p ''reliability'' 90) (\<lambda>r.
     bindE (sql_text (dget p ''name'')) (\<lambda>n.
     bindE (sql_text (dget p ''location'')) (\<lambda>l.
     bindE (sql_int (PInt d)) (\<lambda>d.
     bindE (sql_numeric x) (\<lambda>x.
     bindE (sql_numeric r) (\<lambda>r.
     bindE (sql_text (py_or (dget p ''tone'') (PStr ''amber''))) (\<lambda>t.
     Ok \<lparr>sa_name = n, sa_initials = None, sa_location = l, sa_lead = d, sa_spend = x,
       sa_reliability = r, sa_tone = t\<rparr>)))))))))"

definition repo_supplier_create :: "payload \<Rightarrow> catalog \<Rightarrow> (int \<times> catalog) result" where
  "repo_supplier_create p db =
     bindE (case py_or (dget p ''name'') (PStr []) of PStr n \<Rightarrow> Ok (supplier_initials n)
        | _ \<Rightarrow> Err (AttributeError ''object has no attribute split'')) (\<lambda>ini.
     bindE (repo_supplier_args p) (\<lambda>a. sp_supplier_create (a\<lparr>sa_initials := Some ini\<rparr>) db))"

definition repo_supplier_update :: "int \<Rightarrow> payload \<Rightarrow> catalog \<Rightarrow> catalog result" where
  "repo_supplier_update i p db = bindE (repo_supplier_args p) (\<lambda>a. sp_supplier_update i a db)"

definition supplier_create :: "payload \<Rightarrow> catalog \<Rightarrow> int result \<times> catalog" where
  "supplier_create p db = (case bindE (supplier_validate p) (\<lambda>p. repo_supplier_create p db) of
       Inl e \<Rightarrow> (Err e, db) | Inr (i, db') \<Rightarrow> (Ok i, db'))"

definition supplier_update :: "int \<Rightarrow> payload \<Rightarrow> catalog \<Rightarrow> unit result \<times> catalog" where
  "supplier_update i p db = (case bindE (supplier_validate p) (\<lambda>p. repo_supplier_update i p db) of
       Inl e \<Rightarrow> (Err e, db) | Inr db' \<Rightarrow> (Ok (), db'))"

definition supplier_delete :: "int \<Rightarrow> catalog \<Rightarrow> catalog" where
  "supplier_delete i db = sp_supplier_delete i db"

section \<open>What a product looks like to the pages\<close>

record decorated = product_row +
  status :: string
  status_label :: string
  eoq :: "int option"
  initials :: string
  runway_ratio :: int
  rop_ratio :: int

definition amount :: "real option \<Rightarrow> real" where
  "amount v = (case v of None \<Rightarrow> 0 | Some x \<Rightarrow> x)"

definition product_initials :: "string \<Rightarrow> string" where
  "product_initials n = (case split_words n of
      w1 # w2 # ws \<Rightarrow> upper [hd w1, hd w2]
    | _ \<Rightarrow> upper (if take 2 n = [] then ''??'' else take 2 n))"

text \<open>\<open>pcts\<close> is the outcome of \<open>SettingsService.threshold_pcts()\<close>, replaced by 20 and 10 when it
  raises.  A product without a name gets no initials; the column is never empty.\<close>

definition decorate :: "(real \<times> real) result \<Rightarrow> product_row \<Rightarrow> decorated" where
  "decorate pcts r =
     (let (low, crit) = (case pcts of Inl e \<Rightarrow> (20, 10) | Inr p \<Rightarrow> p);
          (st, label) = stock_status (pr_stock r) (pr_reorder r) low crit;
          q = calculate_eoq (amount (pr_demand r)) (amount (pr_ordering r)) (amount (pr_holding r));
          stock = real_of_int (pr_stock r); rop = real_of_int (pr_reorder r);
          denom = (let m = max (rop * 1.65) stock in if m = 0 then 1 else m)
      in product_row.extend r \<lparr>status = st, status_label = label,
          eoq = (case q of None \<Rightarrow> None | Some x \<Rightarrow> if x = 0 then None else Some (round_even x)),
          initials = product_initials (pr_name r),
          runway_ratio = round_even (min 100 (max 4 ((stock / denom) * 100))),
          rop_ratio = round_even (min 94 (max 8 ((rop / denom) * 100)))\<rparr>)"

section \<open>Searching and paging\<close>

text \<open>\<open>text LIKE pattern\<close>: the percent sign stands for any text, the underscore for any character, a
  backslash takes the next character literally.\<close>

function like_pat :: "string \<Rightarrow> string \<Rightarrow> bool" where
  "like_pat s [] = (s = [])"
| "like_pat s (c # p) =
     (if c = CHR ''%'' then like_pat s p \<or> (case s of [] \<Rightarrow> False | _ # s' \<Rightarrow> like_pat s' (c # p))
      else if c = CHR 0x5C then (case p of [] \<Rightarrow> False
        | d # p' \<Rightarrow> (case s of [] \<Rightarrow> False | x # s' \<Rightarrow> x = d \<and> like_pat s' p'))
      else (case s of [] \<Rightarrow> False | x # s' \<Rightarrow> (c = CHR ''_'' \<or> x = c) \<and> like_pat s' p))"
  by pat_completeness auto
termination by (relation "measure (\<lambda>(s, p). length s + length p)") auto

declare like_pat.simps [simp del]

text \<open>\<open>v ILIKE '%' || needle || '%'\<close>, where a NULL compares as not matching.\<close>

definition ilike_any :: "string option \<Rightarrow> string \<Rightarrow> bool" where
  "ilike_any v needle = (case v of None \<Rightarrow> False
     | Some s \<Rightarrow> like_pat (lower s) (''%'' @ lower needle @ ''%''))"

record list_query =
  lq_search :: string
  lq_category :: string
  lq_warehouse :: string
  lq_status :: string

definition supplier_name_of :: "catalog \<Rightarrow> product_row \<Rightarrow> string option" where
  "supplier_name_of db r = Option.bind (pr_supplier r) (\<lambda>i.
     map_option su_name (find_row (\<lambda>s. su_id s = i) (supplier_rows db)))"

definition any_of :: "string option \<Rightarrow> string \<Rightarrow> bool" where
  "any_of v ws = (case v of None \<Rightarrow> False | Some s \<Rightarrow> s \<in> set (split_on CHR '','' ws))"

definition listed :: "list_query \<Rightarrow> catalog \<Rightarrow> product_row \<Rightarrow> bool" where
  "listed q db r =
     ((lq_search q = [] \<or> ilike_any (Some (pr_sku r)) (lq_search q) \<or> ilike_any (Some (pr_name r)) (lq_search q)
        \<or> ilike_any (pr_category r) (lq_search q) \<or> ilike_any (supplier_name_of db r) (lq_search q)) \<and>
      (lq_category q = [] \<or> any_of (pr_category r) (lq_category q)) \<and>
      (lq_warehouse q = [] \<or> any_of (pr_warehouse r) (lq_warehouse q)) \<and>
      (lq_status q = [] \<or>
        (lq_status q = ''ok'' \<and> pr_reorder r < pr_stock r) \<or>
        (lq_status q = ''low'' \<and> pr_stock r \<le> pr_reorder r \<and> 0 < pr_stock r) \<or>
        (lq_status q = ''out'' \<and> pr_stock r \<le> 0)) \<and>
      \<not> pr_deleted r)"

text \<open>The procedure puts the number of all matching rows into every row it returns; the repository
  reads it from the first one.\<close>

definition sp_product_list ::
  "(product_row list \<Rightarrow> product_row list) \<Rightarrow> list_query \<Rightarrow> nat \<Rightarrow> nat \<Rightarrow> catalog \<Rightarrow> (product_row \<times> int) list" where
  "sp_product_list by_sku q limit offset db =
     (let rows = filter (listed q db) (product_rows db)
      in map (\<lambda>r. (r, int (length rows))) (take limit (drop offset (by_sku rows))))"

definition repo_product_list ::
  "(product_row list \<Rightarrow> product_row list) \<Rightarrow> (real \<times> real) result \<Rightarrow> list_query \<Rightarrow> nat \<Rightarrow> nat \<Rightarrow> catalog \<Rightarrow>
   decorated list \<times> int" where
  "repo_product_list by_sku pcts q limit offset db =
     (let rows = sp_product_list by_sku q limit offset db
      in (map (decorate pcts \<circ> fst) rows, (case rows of [] \<Rightarrow> 0 | r # _ \<Rightarrow> snd r)))"

record product_page =
  pg_rows :: "decorated list"
  pg_page :: int
  pg_per_page :: int
  pg_total :: int
  pg_pages :: int
  pg_has_prev :: bool
  pg_has_next :: bool
  pg_prev :: int
  pg_next :: int

definition strip_query :: "list_query \<Rightarrow> list_query" where
  "strip_query q = \<lparr>lq_search = strip (lq_search q), lq_category = strip (lq_category q),
     lq_warehouse = strip (lq_warehouse q), lq_status = strip (lq_status q)\<rparr>"

definition list_products ::
  "(product_row list \<Rightarrow> product_row list) \<Rightarrow> (real \<times> real) result \<Rightarrow> list_query \<Rightarrow> int \<Rightarrow> int \<Rightarrow> catalog \<Rightarrow>
   product_page" where
  "list_products by_sku pcts q page per_page db =
     (let page = max 1 page; per_page = min 100 (max 5 per_page); offset = (page - 1) * per_page;
          (rows, total) = repo_product_list by_sku pcts (strip_query q) (nat per_page) (nat offset) db
      in \<lparr>pg_rows = rows, pg_page = page, pg_per_page = per_page, pg_total = total,
          pg_pages = (total + per_page - 1) div per_page, pg_has_prev = 1 < page,
          pg_has_next = page * per_page < total, pg_prev = page - 1, pg_next = page + 1\<rparr>)"

text \<open>The reorder queue and the filter menus.  The menus read deleted rows too.\<close>

definition low_stock ::
  "(product_row list \<Rightarrow> product_row list) \<Rightarrow> (real \<times> real) result \<Rightarrow> catalog \<Rightarrow> decorated list" where
  "low_stock by_gap pcts db = map (decorate pcts)
     (by_gap (filter (\<lambda>r. pr_stock r \<le> pr_reorder r \<and> pr_on_order r \<le> 0 \<and> \<not> pr_deleted r) (product_rows db)))"

definition categories :: "(string list \<Rightarrow> string list) \<Rightarrow> catalog \<Rightarrow> string list" where
  "categories order db = order (remdups (List.map_filter pr_category (product_rows db)))"

definition warehouses :: "(string list \<Rightarrow> string list) \<Rightarrow> catalog \<Rightarrow> string list" where
  "warehouses order db = order (remdups (List.map_filter pr_warehouse (product_rows db)))"

definition repo_product_find :: "(real \<times> real) result \<Rightarrow> int \<Rightarrow> catalog \<Rightarrow> decorated option" where
  "repo_product_find pcts i db = map_option (decorate pcts) (sp_product_find i db)"

text \<open>The supplier list counts every product that refers to the supplier, deleted ones included.\<close>

definition active_skus :: "supplier_row \<Rightarrow> catalog \<Rightarrow> nat" where
  "active_skus s db = length (filter (\<lambda>r. pr_supplier r = Some (su_id s)) (product_rows db))"

definition supplier_list ::
  "(supplier_row list \<Rightarrow> supplier_row list) \<Rightarrow> catalog \<Rightarrow> (supplier_row \<times> nat \<times> string result \<times> string) list" where
  "supplier_list by_name db = map (\<lambda>s. (s, active_skus s db, format_money_display (PDecimal (su_spend s)),
       int_str (su_lead s) @ '' days'')) (by_name (filter (\<lambda>s. \<not> su_deleted s) (supplier_rows db)))"

definition repo_supplier_find :: "int \<Rightarrow> catalog \<Rightarrow> (supplier_row \<times> string result \<times> string) option" where
  "repo_supplier_find i db = map_option (\<lambda>s. (s, format_money_display (PDecimal (su_spend s)),
       int_str (su_lead s) @ '' days'')) (sp_supplier_find i db)"

section \<open>What a validated payload looks like\<close>

lemma rewrap_Ok [simp]: "rewrap cls r = Inr x \<longleftrightarrow> r = Inr x"
  by (cases "(cls, r)" rule: rewrap.cases) auto

definition trio_ok :: "payload \<Rightarrow> bool" where
  "trio_ok p = (filled (dget p ''demand_rate'') = filled (dget p ''ordering_cost'') \<and>
     filled (dget p ''ordering_cost'') = filled (dget p ''holding_cost''))"

lemma eoq_trio_Ok: "eoq_trio p = Inr u \<longleftrightarrow> trio_ok p"
  by (auto simp: eoq_trio_def eoq_keys_def trio_ok_def Let_def)

lemma trio_dput [simp]: "k \<notin> {''demand_rate'', ''ordering_cost'', ''holding_cost''} \<Longrightarrow>
    trio_ok (dput k v p) = trio_ok p"
  by (auto simp: trio_ok_def)

lemma supplier_field_trio: "supplier_field p = Inr q \<Longrightarrow> trio_ok q = trio_ok p"
  by (auto simp: supplier_field_def bindE_Ok_iff)

lemma product_validate_trio: "product_validate u p = Inr q \<Longrightarrow> trio_ok q"
  by (auto simp: product_validate_def bindE_Ok_iff Let_def eoq_trio_Ok dest: supplier_field_trio)

lemma sql_numeric_filled: "sql_numeric v = Inr x \<Longrightarrow> (x \<noteq> None) = filled v"
  by (cases v rule: sql_numeric.cases) (auto simp: filled_def)

lemma numeric_column_some: "numeric_column k v = Inr w \<Longrightarrow> (w = None) = (v = None)"
  by (auto simp: numeric_column_def split: option.splits if_splits)

definition args_trio :: "product_args \<Rightarrow> bool" where
  "args_trio a = ((pa_demand a = None) = (pa_ordering a = None) \<and> (pa_ordering a = None) = (pa_holding a = None))"

lemma column_values_trio: "column_values a0 = Inr a \<Longrightarrow> args_trio a0 \<Longrightarrow> args_trio a"
  by (auto simp: column_values_def bindE_Ok_iff args_trio_def dest!: numeric_column_some)

lemma column_values_supplier: "column_values a0 = Inr a \<Longrightarrow> pa_supplier a = pa_supplier a0"
  by (auto simp: column_values_def bindE_Ok_iff)

lemma repo_create_args:
  assumes "repo_product_create p db = Inr r" "trio_ok p"
  obtains a where "sp_product_create a db = Inr r" "args_trio a"
proof -
  obtain d oc h a where n: "sql_numeric (dget p ''demand_rate'') = Inr d"
      "sql_numeric (dget p ''ordering_cost'') = Inr oc" "sql_numeric (dget p ''holding_cost'') = Inr h"
    and a: "sp_product_create a db = Inr r" "pa_demand a = d" "pa_ordering a = oc" "pa_holding a = h"
    using assms(1) unfolding repo_product_create_def bindE_Ok_iff
    by (elim exE conjE) (rule that, assumption+, simp_all)
  have "args_trio a"
    using assms(2) n[THEN sql_numeric_filled] a(2-4) unfolding args_trio_def trio_ok_def by metis
  then show ?thesis using a(1) that by blast
qed

lemma repo_update_args:
  assumes "repo_product_update i p db = Inr db'" "trio_ok p"
  obtains a where "sp_product_update i a db = Inr db'" "args_trio a"
proof -
  obtain d oc h a where n: "sql_numeric (dget p ''demand_rate'') = Inr d"
      "sql_numeric (dget p ''ordering_cost'') = Inr oc" "sql_numeric (dget p ''holding_cost'') = Inr h"
    and a: "sp_product_update i a db = Inr db'" "pa_demand a = d" "pa_ordering a = oc" "pa_holding a = h"
    using assms(1) unfolding repo_product_update_def bindE_Ok_iff
    by (elim exE conjE) (rule that, assumption+, simp_all)
  have "args_trio a"
    using assms(2) n[THEN sql_numeric_filled] a(2-4) unfolding args_trio_def trio_ok_def by metis
  then show ?thesis using a(1) that by blast
qed

section \<open>The invariant of the catalog\<close>

text \<open>Identifiers are unique and below the sequences; live rows have distinct SKUs; counts and amounts
  are not negative; a product has all three EOQ inputs or none; its supplier exists; live suppliers
  have distinct names, and their figures are in range.\<close>

definition product_row_ok :: "product_row \<Rightarrow> bool" where
  "product_row_ok r = (0 \<le> pr_stock r \<and> 0 \<le> pr_reorder r \<and> at_least0 (pr_demand r) \<and>
     at_least0 (pr_ordering r) \<and> at_least0 (pr_holding r) \<and> at_least0 (pr_price r) \<and>
     (pr_demand r = None) = (pr_ordering r = None) \<and> (pr_ordering r = None) = (pr_holding r = None))"

definition supplier_row_ok :: "supplier_row \<Rightarrow> bool" where
  "supplier_row_ok s = (0 \<le> su_lead s \<and> 0 \<le> su_spend s \<and> 0 \<le> su_reliability s \<and> su_reliability s \<le> 100)"

definition unique_live :: "('r \<Rightarrow> int) \<Rightarrow> ('r \<Rightarrow> 'k) \<Rightarrow> ('r \<Rightarrow> bool) \<Rightarrow> 'r list \<Rightarrow> bool" where
  "unique_live key val dead rows = (\<forall>r\<in>set rows. \<forall>s\<in>set rows.
     val r = val s \<and> \<not> dead r \<and> \<not> dead s \<longrightarrow> key r = key s)"

definition catalog_ok :: "catalog \<Rightarrow> bool" where
  "catalog_ok db =
     (distinct (map pr_id (product_rows db)) \<and> (\<forall>r\<in>set (product_rows db). pr_id r < next_product db) \<and>
      unique_live pr_id pr_sku pr_deleted (product_rows db) \<and>
      (\<forall>r\<in>set (product_rows db). product_row_ok r \<and> supplier_known (pr_supplier r) db) \<and>
      distinct (map su_id (supplier_rows db)) \<and> (\<forall>s\<in>set (supplier_rows db). su_id s < next_supplier db) \<and>
      unique_live su_id su_name su_deleted (supplier_rows db) \<and>
      (\<forall>s\<in>set (supplier_rows db). supplier_row_ok s))"

lemma unique_live_snoc:
  assumes "unique_live key val dead rows" "\<And>r. r \<in> set rows \<Longrightarrow> val r = val x \<Longrightarrow> dead r"
  shows "unique_live key val dead (rows @ [x])"
  unfolding unique_live_def
proof (intro ballI impI)
  fix r s assume m: "r \<in> set (rows @ [x])" "s \<in> set (rows @ [x])" "val r = val s \<and> \<not> dead r \<and> \<not> dead s"
  then consider "r \<in> set rows" "s \<in> set rows" | "r = x" "s = x" | "r = x" "s \<in> set rows" | "r \<in> set rows" "s = x"
    by auto
  then show "key r = key s"
    by cases (use m assms unique_live_def in \<open>metis\<close>)+
qed

lemma unique_live_update:
  assumes u: "unique_live key val dead rows"
    and k: "\<And>r. r \<in> set rows \<Longrightarrow> key r = i \<Longrightarrow> key (f r) = i"
    and v: "\<And>r s. r \<in> set rows \<Longrightarrow> s \<in> set rows \<Longrightarrow> key r = i \<Longrightarrow> \<not> dead (f r) \<Longrightarrow>
      val s = val (f r) \<Longrightarrow> \<not> dead s \<Longrightarrow> key s = i"
  shows "unique_live key val dead (update_where (\<lambda>r. key r = i) f rows)"
  unfolding unique_live_def
proof (intro ballI impI)
  fix r' s' assume m: "r' \<in> set (update_where (\<lambda>r. key r = i) f rows)" "s' \<in> set (update_where (\<lambda>r. key r = i) f rows)"
    and e: "val r' = val s' \<and> \<not> dead r' \<and> \<not> dead s'"
  from m(1) obtain r where r: "r \<in> set rows" "r' = (if key r = i then f r else r)"
    unfolding update_where_def set_map by blast
  from m(2) obtain s where s: "s \<in> set rows" "s' = (if key s = i then f s else s)"
    unfolding update_where_def set_map by blast
  have old: "val r = val s \<and> \<not> dead r \<and> \<not> dead s \<longrightarrow> key r = key s"
    using u r(1) s(1) unfolding unique_live_def by blast
  consider "key r \<noteq> i" "key s \<noteq> i" | "key r = i" "key s \<noteq> i" | "key r \<noteq> i" "key s = i" | "key r = i" "key s = i"
    by blast
  then show "key r' = key s'"
  proof cases
    case 1 then show ?thesis using old e r(2) s(2) by metis
  next
    case 2 then show ?thesis using v[OF r(1) s(1)] e r(2) s(2) by metis
  next
    case 3 then show ?thesis using v[OF s(1) r(1)] e r(2) s(2) by metis
  next
    case 4 then show ?thesis using k[OF r(1)] k[OF s(1)] r(2) s(2) by metis
  qed
qed

lemma sku_live_iff: "sku_live s db \<longleftrightarrow> (\<exists>r\<in>set (product_rows db). pr_sku r = s \<and> \<not> pr_deleted r)"
  by (simp add: sku_live_def list_ex_iff)

lemma supplier_live_iff: "supplier_live n i db \<longleftrightarrow>
    (\<exists>r\<in>set (supplier_rows db). su_name r = n \<and> su_id r \<noteq> i \<and> \<not> su_deleted r)"
  by (simp add: supplier_live_def list_ex_iff)

lemma set_product_row_rows: "product_rows (set_product_row i f db) = update_where (\<lambda>r. pr_id r = i) f (product_rows db)"
proof (cases "product_at i db")
  case None
  then have "\<forall>r\<in>set (product_rows db). pr_id r \<noteq> i" by (simp add: product_at_def find_row_None)
  then show ?thesis using None by (simp add: set_product_row_def update_where_def map_idI)
qed (simp add: set_product_row_def)

lemma set_product_row_rest [simp]:
  "next_product (set_product_row i f db) = next_product db"
  "supplier_rows (set_product_row i f db) = supplier_rows db"
  "next_supplier (set_product_row i f db) = next_supplier db"
  by (auto simp: set_product_row_def split: option.split)

lemma supplier_known_cong: "map su_id (supplier_rows a) = map su_id (supplier_rows b) \<Longrightarrow>
    supplier_known s a = supplier_known s b"
  by (simp only: supplier_known_def)

lemma catalog_ok_set_product:
  assumes ok: "catalog_ok db"
    and f: "\<And>r. r \<in> set (product_rows db) \<Longrightarrow> pr_id r = i \<Longrightarrow>
      pr_id (f r) = i \<and> pr_sku (f r) = pr_sku r \<and> (pr_deleted r \<longrightarrow> pr_deleted (f r)) \<and>
      product_row_ok (f r) \<and> supplier_known (pr_supplier (f r)) db"
  shows "catalog_ok (set_product_row i f db)"
proof -
  let ?rows = "update_where (\<lambda>r. pr_id r = i) f (product_rows db)"
  have ids: "map pr_id ?rows = map pr_id (product_rows db)" using f by (auto simp: update_where_def)
  have u: "unique_live pr_id pr_sku pr_deleted (product_rows db)" using ok by (simp add: catalog_ok_def)
  have "unique_live pr_id pr_sku pr_deleted ?rows"
  proof (rule unique_live_update[OF u])
    fix r s assume "r \<in> set (product_rows db)" "s \<in> set (product_rows db)" "pr_id r = i" "\<not> pr_deleted (f r)"
      "pr_sku s = pr_sku (f r)" "\<not> pr_deleted s"
    then show "pr_id s = i" using u f[of r] unfolding unique_live_def by metis
  qed (use f in auto)
  moreover have "\<forall>r\<in>set ?rows. pr_id r < next_product db \<and> product_row_ok r \<and> supplier_known (pr_supplier r) db"
    using ok f by (auto simp: catalog_ok_def update_where_def)
  moreover have "distinct (map pr_id ?rows)" using ok ids by (simp add: catalog_ok_def)
  moreover have "supplier_known s (set_product_row i f db) = supplier_known s db" for s
    by (rule supplier_known_cong) simp
  ultimately show ?thesis using ok
    by (simp add: catalog_ok_def set_product_row_rows)
qed

lemma catalog_ok_set_supplier:
  assumes ok: "catalog_ok db"
    and f: "\<And>r. r \<in> set (supplier_rows db) \<Longrightarrow> su_id r = i \<Longrightarrow> su_id (f r) = i \<and> supplier_row_ok (f r) \<and>
      (\<not> su_deleted (f r) \<longrightarrow> su_deleted r = False \<and> (su_name (f r) = su_name r \<or> \<not> supplier_live (su_name (f r)) i db))"
  shows "catalog_ok (set_supplier_row i f db)"
proof -
  let ?rows = "update_where (\<lambda>r. su_id r = i) f (supplier_rows db)"
  have ids: "map su_id ?rows = map su_id (supplier_rows db)" using f by (auto simp: update_where_def)
  have u: "unique_live su_id su_name su_deleted (supplier_rows db)" using ok by (simp add: catalog_ok_def)
  have "unique_live su_id su_name su_deleted ?rows"
  proof (rule unique_live_update[OF u])
    fix r s assume a: "r \<in> set (supplier_rows db)" "s \<in> set (supplier_rows db)" "su_id r = i" "\<not> su_deleted (f r)"
      "su_name s = su_name (f r)" "\<not> su_deleted s"
    show "su_id s = i"
    proof (cases "su_name (f r) = su_name r")
      case True then show ?thesis using a u f[of r] unfolding unique_live_def by metis
    next
      case False then show ?thesis using a f[of r] by (auto simp: supplier_live_iff)
    qed
  qed (use f in auto)
  moreover have "\<forall>r\<in>set ?rows. su_id r < next_supplier db \<and> supplier_row_ok r"
    using ok f by (auto simp: catalog_ok_def update_where_def)
  moreover have "distinct (map su_id ?rows)" using ok ids by (simp add: catalog_ok_def)
  moreover have "supplier_known s (db\<lparr>supplier_rows := ?rows, trail := t\<rparr>) = supplier_known s db" for s t
    by (rule supplier_known_cong) (simp add: ids)
  ultimately show ?thesis using ok unfolding set_supplier_row_def
    by (simp add: catalog_ok_def)
qed

lemma product_checks_Ok: "product_checks q rp a = Inr u \<longleftrightarrow> 0 \<le> q \<and> 0 \<le> rp \<and> at_least0 (pa_demand a) \<and>
    at_least0 (pa_ordering a) \<and> at_least0 (pa_holding a) \<and> at_least0 (pa_price a)"
  by (auto simp: product_checks_def bindE_Ok_iff)

lemma not_null_Ok [simp]: "not_null c v = Inr x \<longleftrightarrow> v = Some x"
  by (cases v) (auto simp: not_null_def)

lemma catalog_ok_product_create:
  assumes ok: "catalog_ok db" and c: "sp_product_create a0 db = Inr (i, db')" and t: "args_trio a0"
  shows "catalog_ok db'"
proof -
  obtain a s n q rp where a: "column_values a0 = Inr a" and ck: "product_checks q rp a = Inr ()"
    and live: "\<not> sku_live s db" and known: "supplier_known (pa_supplier a) db"
    and db': "db' = db\<lparr>next_product := next_product db + 1, product_rows := product_rows db @
       [\<lparr>pr_id = next_product db, pr_sku = s, pr_name = n, pr_category = pa_category a,
         pr_warehouse = pa_warehouse a, pr_stock = q, pr_reorder = rp, pr_demand = pa_demand a,
         pr_ordering = pa_ordering a, pr_holding = pa_holding a, pr_price = pa_price a,
         pr_supplier = pa_supplier a, pr_on_order = 0, pr_deleted = False\<rparr>],
       trail := trail db @ [(''product_created'', next_product db)]\<rparr>"
    using c unfolding sp_product_create_def bindE_Ok_iff by auto
  let ?x = "\<lparr>pr_id = next_product db, pr_sku = s, pr_name = n, pr_category = pa_category a,
         pr_warehouse = pa_warehouse a, pr_stock = q, pr_reorder = rp, pr_demand = pa_demand a,
         pr_ordering = pa_ordering a, pr_holding = pa_holding a, pr_price = pa_price a,
         pr_supplier = pa_supplier a, pr_on_order = 0, pr_deleted = False\<rparr>"
  have "args_trio a" using column_values_trio[OF a t] .
  then have x: "product_row_ok ?x" using ck by (simp add: product_row_ok_def product_checks_Ok args_trio_def)
  have u: "unique_live pr_id pr_sku pr_deleted (product_rows db @ [?x])"
    by (rule unique_live_snoc) (use ok live in \<open>auto simp: catalog_ok_def sku_live_iff\<close>)
  have known': "supplier_known z db' = supplier_known z db" for z by (rule supplier_known_cong) (simp add: db')
  have new: "next_product db \<notin> pr_id ` set (product_rows db)" using ok by (auto simp: catalog_ok_def)
  have rows: "\<forall>r\<in>set (product_rows db @ [?x]). pr_id r < next_product db + 1"
    using ok by (auto simp: catalog_ok_def intro: less_trans)
  have good: "\<forall>r\<in>set (product_rows db @ [?x]). product_row_ok r \<and> supplier_known (pr_supplier r) db"
    using ok x known by (simp add: catalog_ok_def)
  show ?thesis using ok u new rows good unfolding catalog_ok_def known'
    by (simp add: db')
qed

lemma catalog_ok_product_update:
  assumes ok: "catalog_ok db" and c: "sp_product_update i a0 db = Inr db'" and t: "args_trio a0"
  shows "catalog_ok db'"
proof (cases "product_at i db")
  case None then show ?thesis using ok c by (simp add: sp_product_update_def)
next
  case (Some r)
  then obtain a n rp where a: "column_values a0 = Inr a" and ck: "product_checks (pr_stock r) rp a = Inr ()"
    and known: "supplier_known (pa_supplier a) db"
    and db': "db' = set_product_row i (\<lambda>r. r\<lparr>pr_name := n, pr_category := pa_category a,
          pr_warehouse := pa_warehouse a, pr_price := pa_price a, pr_supplier := pa_supplier a,
          pr_reorder := rp, pr_demand := pa_demand a, pr_ordering := pa_ordering a,
          pr_holding := pa_holding a\<rparr>) db"
    using c unfolding sp_product_update_def by (auto simp: bindE_Ok_iff)
  have "args_trio a" using column_values_trio[OF a t] .
  then show ?thesis unfolding db'
    using ck known ok
    by (intro catalog_ok_set_product[OF ok])
      (simp add: product_row_ok_def product_checks_Ok args_trio_def catalog_ok_def)
qed

lemma supplier_values_Ok:
  "supplier_values a = Inr (n, l, d, x, r, t) \<Longrightarrow> 0 \<le> d \<and> 0 \<le> x \<and> 0 \<le> r \<and> r \<le> 100"
  unfolding supplier_values_def bindE_Ok_iff by auto

lemma catalog_ok_supplier_create:
  assumes ok: "catalog_ok db" and c: "sp_supplier_create a db = Inr (i, db')"
  shows "catalog_ok db'"
proof -
  obtain n l d x r t where v: "supplier_values a = Inr (n, l, d, x, r, t)"
    and live: "\<not> supplier_live n (next_supplier db) db"
    and db': "db' = db\<lparr>next_supplier := next_supplier db + 1, supplier_rows := supplier_rows db @
       [\<lparr>su_id = next_supplier db, su_name = n, su_initials = sa_initials a, su_location = l,
         su_lead = d, su_spend = x, su_reliability = r, su_tone = t, su_deleted = False\<rparr>],
       trail := trail db @ [(''supplier_created'', next_supplier db)]\<rparr>"
    using c unfolding sp_supplier_create_def by (auto simp: bindE_Ok_iff split: prod.splits)
  let ?x = "\<lparr>su_id = next_supplier db, su_name = n, su_initials = sa_initials a, su_location = l,
         su_lead = d, su_spend = x, su_reliability = r, su_tone = t, su_deleted = False\<rparr>"
  have lt: "\<forall>s\<in>set (supplier_rows db). su_id s < next_supplier db" using ok by (simp add: catalog_ok_def)
  have u: "unique_live su_id su_name su_deleted (supplier_rows db @ [?x])"
    by (rule unique_live_snoc) (use ok live lt in \<open>fastforce simp: catalog_ok_def supplier_live_iff\<close>)+
  have known: "supplier_known z db \<Longrightarrow> supplier_known z db'" for z
    by (cases z) (auto simp: supplier_known_def db')
  have new: "next_supplier db \<notin> su_id ` set (supplier_rows db)" using lt by auto
  have rows: "\<forall>s\<in>set (supplier_rows db @ [?x]). su_id s < next_supplier db + 1 \<and> supplier_row_ok s"
    using ok lt supplier_values_Ok[OF v] by (auto simp: catalog_ok_def supplier_row_ok_def intro: less_trans)
  have good: "\<forall>r\<in>set (product_rows db). product_row_ok r \<and> supplier_known (pr_supplier r) db'"
    using ok known by (simp add: catalog_ok_def)
  show ?thesis using ok u new rows good unfolding catalog_ok_def
    by (simp add: db')
qed

lemma catalog_ok_supplier_update:
  assumes ok: "catalog_ok db" and c: "sp_supplier_update i a db = Inr db'"
  shows "catalog_ok db'"
proof (cases "find_row (\<lambda>r. su_id r = i) (supplier_rows db)")
  case None then show ?thesis using ok c by (simp add: sp_supplier_update_def)
next
  case (Some row)
  then obtain n l d x r t where v: "supplier_values a = Inr (n, l, d, x, r, t)"
    and live: "su_deleted row \<or> \<not> supplier_live n i db"
    and db': "db' = set_supplier_row i (\<lambda>s. s\<lparr>su_name := n, su_location := l, su_lead := d, su_spend := x,
          su_reliability := r, su_tone := t\<rparr>) db"
    using c unfolding sp_supplier_update_def by (auto simp: bindE_Ok_iff split: prod.splits)
  have "row' = row" if "row' \<in> set (supplier_rows db)" "su_id row' = i" for row'
    using find_row_unique[of su_id "supplier_rows db" row'] that Some ok by (simp add: catalog_ok_def)
  then show ?thesis unfolding db' using live supplier_values_Ok[OF v]
    by (intro catalog_ok_set_supplier[OF ok]) (auto simp: supplier_row_ok_def)
qed

datatype catalog_op =
    CreateProduct catalog payload  \<comment> \<open>the database its duplicate check saw, and the payload\<close>
  | UpdateProduct int payload
  | DeleteProduct int
  | CreateSupplier payload
  | UpdateSupplier int payload
  | DeleteSupplier int

fun catalog_step :: "catalog_op \<Rightarrow> catalog \<Rightarrow> catalog" where
  "catalog_step (CreateProduct seen p) db = snd (product_create seen p db)"
| "catalog_step (UpdateProduct i p) db = snd (product_update i p db)"
| "catalog_step (DeleteProduct i) db = product_delete i db"
| "catalog_step (CreateSupplier p) db = snd (supplier_create p db)"
| "catalog_step (UpdateSupplier i p) db = snd (supplier_update i p db)"
| "catalog_step (DeleteSupplier i) db = supplier_delete i db"

lemma product_create_cases:
  obtains (refused) e where "product_create seen p db = (Inl e, db)"
  | (created) i db' a where "product_create seen p db = (Inr i, db')" "sp_product_create a db = Inr (i, db')" "args_trio a"
proof (cases "product_create seen p db")
  case (Pair r db')
  show ?thesis
  proof (cases r)
    case (Inl e)
    then show ?thesis using Pair refused unfolding product_create_def by (auto split: sum.splits)
  next
    case (Inr i)
    then obtain q where "product_validate False p = Inr q" "repo_product_create q db = Inr (i, db')"
      using Pair unfolding product_create_def
      by (auto simp: bindE_Ok_iff split: sum.splits) (metis sum.exhaust surj_pair)
    then show ?thesis using repo_create_args[of q db "(i, db')"] product_validate_trio created Pair Inr by metis
  qed
qed

lemma product_update_cases:
  obtains (refused) e where "product_update i p db = (Inl e, db)"
  | (updated) db' a where "product_update i p db = (Inr (), db')" "sp_product_update i a db = Inr db'" "args_trio a"
proof (cases "bindE (product_validate True p) (\<lambda>p. repo_product_update i p db)")
  case (Inl e) then show ?thesis using refused by (simp add: product_update_def)
next
  case (Inr db')
  then obtain q where "product_validate True p = Inr q" "repo_product_update i q db = Inr db'"
    by (auto simp: bindE_Ok_iff)
  then show ?thesis using repo_update_args[of i q db db'] product_validate_trio updated Inr
    unfolding product_update_def by (metis sum.case(2))
qed

lemma catalog_step_ok: "catalog_ok db \<Longrightarrow> catalog_ok (catalog_step x db)"
proof (induction x)
  case (CreateProduct seen p)
  then show ?case
    by (cases rule: product_create_cases[of seen p db]) (auto intro: catalog_ok_product_create)
next
  case (UpdateProduct i p)
  then show ?case
    by (cases rule: product_update_cases[of i p db]) (auto intro: catalog_ok_product_update)
next
  case (DeleteProduct i)
  then show ?case unfolding catalog_step.simps product_delete_def sp_product_delete_def
    by (intro catalog_ok_set_product) (auto simp: catalog_ok_def product_row_ok_def)
next
  case (CreateSupplier p)
  then show ?case
    by (auto simp: supplier_create_def bindE_Ok_iff repo_supplier_create_def split: sum.splits
        intro: catalog_ok_supplier_create)
next
  case (UpdateSupplier i p)
  then show ?case
    by (auto simp: supplier_update_def bindE_Ok_iff repo_supplier_update_def split: sum.splits
        intro: catalog_ok_supplier_update)
next
  case (DeleteSupplier i)
  then show ?case unfolding catalog_step.simps supplier_delete_def sp_supplier_delete_def
    by (intro catalog_ok_set_supplier) (auto simp: catalog_ok_def supplier_row_ok_def)
qed

interpretation catalog_sys: op_system catalog_step catalog_ok
  by unfold_locales (rule catalog_step_ok)

section \<open>What the catalog leaves to the ledger\<close>

definition stock_view :: "product_row \<Rightarrow> product" where
  "stock_view r = \<lparr>prod_id = pr_id r, sku = pr_sku r, prod_name = pr_name r,
     warehouse = (case pr_warehouse r of None \<Rightarrow> [] | Some w \<Rightarrow> w), current_stock = pr_stock r,
     reorder_point = pr_reorder r, on_order = pr_on_order r, demand_rate = amount (pr_demand r),
     ordering_cost = amount (pr_ordering r), holding_cost = amount (pr_holding r),
     unit_price = amount (pr_price r), supplier_id = pr_supplier r, prod_deleted = pr_deleted r\<rparr>"

definition ledger_with :: "catalog \<Rightarrow> inv_db \<Rightarrow> inv_db" where
  "ledger_with db l = l\<lparr>products := map stock_view (product_rows db)\<rparr>"

definition row_kept :: "product_row \<Rightarrow> product_row \<Rightarrow> bool" where
  "row_kept r r' = (pr_id r' = pr_id r \<and> pr_sku r' = pr_sku r \<and> pr_stock r' = pr_stock r \<and>
     pr_on_order r' = pr_on_order r \<and> (pr_deleted r \<longrightarrow> pr_deleted r'))"

definition rows_kept :: "catalog \<Rightarrow> catalog \<Rightarrow> bool" where
  "rows_kept db db' = (\<exists>new. list_all2 row_kept (product_rows db) (take (length (product_rows db)) (product_rows db')) \<and>
     product_rows db' = take (length (product_rows db)) (product_rows db') @ new)"

lemma rows_kept_refl [simp]: "product_rows db' = product_rows db \<Longrightarrow> rows_kept db db'"
  by (simp add: rows_kept_def list_all2_refl row_kept_def)

lemma rows_kept_iff: "rows_kept db db' \<longleftrightarrow>
    (\<exists>old new. product_rows db' = old @ new \<and> list_all2 row_kept (product_rows db) old)"
proof
  assume "\<exists>old new. product_rows db' = old @ new \<and> list_all2 row_kept (product_rows db) old"
  then obtain old new where o: "product_rows db' = old @ new" "list_all2 row_kept (product_rows db) old" by blast
  then show "rows_kept db db'" using list_all2_lengthD[OF o(2)] by (simp add: rows_kept_def)
qed (auto simp: rows_kept_def)

lemma rows_kept_trans: "rows_kept a b \<Longrightarrow> rows_kept b c \<Longrightarrow> rows_kept a c"
proof -
  assume "rows_kept a b" "rows_kept b c"
  then obtain o1 n1 o2 n2 where b: "product_rows b = o1 @ n1" "list_all2 row_kept (product_rows a) o1"
    and c: "product_rows c = o2 @ n2" "list_all2 row_kept (product_rows b) o2"
    unfolding rows_kept_iff by blast
  from c(2) b(1) obtain p q where p: "o2 = p @ q" "list_all2 row_kept o1 p"
    by (auto simp: list_all2_append1)
  have "list_all2 row_kept (product_rows a) p"
    by (rule list_all2_trans[OF _ b(2) p(2)]) (auto simp: row_kept_def)
  then show ?thesis unfolding rows_kept_iff using c(1) p(1) by auto
qed

lemma rows_kept_update: "(\<And>r. row_kept r (f r)) \<Longrightarrow> rows_kept db (set_product_row i f db)"
  unfolding rows_kept_iff set_product_row_rows
  by (intro exI[of _ "update_where (\<lambda>r. pr_id r = i) f (product_rows db)"] exI[of _ "[]"])
    (simp add: update_where_def list_all2_map2 list_all2_refl row_kept_def list.rel_refl)

lemma rows_kept_create: "sp_product_create a db = Inr (i, db') \<Longrightarrow> rows_kept db db'"
proof -
  assume "sp_product_create a db = Inr (i, db')"
  then obtain x where "product_rows db' = product_rows db @ [x]"
    by (auto simp: sp_product_create_def bindE_Ok_iff)
  moreover have "list_all2 row_kept (product_rows db) (product_rows db)"
    by (rule list_all2_refl) (simp add: row_kept_def)
  ultimately show ?thesis unfolding rows_kept_iff by blast
qed

lemma set_supplier_row_products [simp]: "product_rows (set_supplier_row i f db) = product_rows db"
  by (simp add: set_supplier_row_def)

lemma catalog_step_rows: "rows_kept db (catalog_step x db)"
proof (induction x)
  case (CreateProduct seen p)
  then show ?case
    by (cases rule: product_create_cases[of seen p db]) (auto intro: rows_kept_create)
next
  case (UpdateProduct i p)
  then show ?case
  proof (cases rule: product_update_cases[of i p db])
    case (updated db' a)
    then show ?thesis
      by (auto simp: sp_product_update_def bindE_Ok_iff row_kept_def intro!: rows_kept_update split: option.splits)
  qed simp
next
  case (DeleteProduct i)
  then show ?case by (auto simp: product_delete_def sp_product_delete_def row_kept_def intro!: rows_kept_update)
next
  case (CreateSupplier p)
  then show ?case
    by (auto simp: supplier_create_def bindE_Ok_iff repo_supplier_create_def sp_supplier_create_def split: sum.splits prod.splits)
next
  case (UpdateSupplier i p)
  then show ?case
    by (auto simp: supplier_update_def bindE_Ok_iff repo_supplier_update_def sp_supplier_update_def
        split: sum.splits prod.splits option.splits)
next
  case (DeleteSupplier i)
  then show ?case by (simp add: supplier_delete_def sp_supplier_delete_def)
qed

lemma catalog_run_rows: "rows_kept db (run catalog_step ops db)"
proof (induction ops arbitrary: db)
  case (Cons x ops) then show ?case using rows_kept_trans[OF catalog_step_rows Cons.IH] by simp
qed simp

lemma find_row_map: "find_row P (map f xs) = map_option f (find_row (P \<circ> f) xs)"
  by (induction xs) auto

lemma find_row_all2:
  "list_all2 R xs ys \<Longrightarrow> (\<And>x y. R x y \<Longrightarrow> P x = P y) \<Longrightarrow> find_row P xs = Some x \<Longrightarrow>
   \<exists>y. find_row P (ys @ zs) = Some y \<and> R x y"
  by (induction xs ys rule: list_all2_induct) (auto split: if_splits)

lemma find_product_ledger: "find_product k (ledger_with db l) = map_option stock_view (product_at k db)"
  by (simp add: find_product_def ledger_with_def find_row_map product_at_def comp_def stock_view_def)

lemma product_at_kept: "rows_kept db db' \<Longrightarrow> product_at k db = Some r \<Longrightarrow> \<exists>r'. product_at k db' = Some r' \<and> row_kept r r'"
proof -
  assume "rows_kept db db'" and r: "product_at k db = Some r"
  then obtain old new where o: "product_rows db' = old @ new" "list_all2 row_kept (product_rows db) old"
    unfolding rows_kept_iff by blast
  have "\<exists>y. find_row (\<lambda>r. pr_id r = k) (old @ new) = Some y \<and> row_kept r y"
    by (rule find_row_all2[OF o(2) _ r[unfolded product_at_def]]) (simp add: row_kept_def)
  then show ?thesis by (simp add: product_at_def o(1))
qed

text \<open>Every change is in the audit trail.\<close>

lemma trail_set_product: "set_product_row i f db \<noteq> db \<Longrightarrow> \<exists>e. trail (set_product_row i f db) = trail db @ [e]"
  by (auto simp: set_product_row_def split: option.splits)

lemma trail_set_supplier: "set_supplier_row i f db \<noteq> db \<Longrightarrow>
    trail (set_supplier_row i f db) = trail db @ [(''supplier_updated'', i)]"
  by (auto simp: set_supplier_row_def split: if_splits)

section \<open>Counting pages\<close>

lemma ceil_div_less:
  fixes i L n :: int
  assumes "0 < n" shows "i < (L + n - 1) div n \<longleftrightarrow> i * n < L"
proof -
  let ?a = "L + n - 1" let ?q = "?a div n"
  have a: "?a = ?q * n + ?a mod n" "0 \<le> ?a mod n" "?a mod n < n" using assms by auto
  show ?thesis
  proof
    assume "i < ?q"
    then have "(i + 1) * n \<le> ?q * n" using assms by (intro mult_right_mono) auto
    then have "i * n + n \<le> ?q * n" by (simp add: distrib_right)
    then show "i * n < L" using a by linarith
  next
    assume l: "i * n < L"
    show "i < ?q"
    proof (rule ccontr)
      assume "\<not> i < ?q"
      then have "?q * n \<le> i * n" using assms by (intro mult_right_mono) auto
      then show False using a l by linarith
    qed
  qed
qed

section \<open>Searching for plain text\<close>

lemma like_pat_nil [simp]: "like_pat s [] = (s = [])"
  by (simp add: like_pat.simps)

lemma like_pat_percent: "like_pat s (CHR ''%'' # p) \<longleftrightarrow> (\<exists>a b. s = a @ b \<and> like_pat b p)"
proof (induction s)
  case Nil then show ?case by (simp add: like_pat.simps(2)[of "[]"])
next
  case (Cons x s)
  have "like_pat (x # s) (CHR ''%'' # p) \<longleftrightarrow> like_pat (x # s) p \<or> (\<exists>a b. s = a @ b \<and> like_pat b p)"
    using Cons by (simp add: like_pat.simps(2)[of "x # s"])
  also have "\<dots> \<longleftrightarrow> (\<exists>a b. x # s = a @ b \<and> like_pat b p)"
    by (auto simp: Cons_eq_append_conv)
  finally show ?case .
qed

definition plain :: "string \<Rightarrow> bool" where
  "plain s = (\<forall>c\<in>set s. c \<noteq> CHR ''%'' \<and> c \<noteq> CHR ''_'' \<and> c \<noteq> CHR 0x5C)"

lemma like_pat_plain: "plain p \<Longrightarrow> like_pat s (p @ q) \<longleftrightarrow> (\<exists>t. s = p @ t \<and> like_pat t q)"
proof (induction p arbitrary: s)
  case (Cons c p)
  then have c: "c \<noteq> CHR ''%''" "c \<noteq> CHR ''_''" "c \<noteq> CHR 0x5C" and p: "plain p" by (auto simp: plain_def)
  show ?case using c Cons.IH[OF p] by (cases s) (auto simp: like_pat.simps(2))
qed simp

lemma like_pat_all: "like_pat s ''%''"
  by (simp add: like_pat_percent)

lemma like_pat_contains: "plain p \<Longrightarrow> like_pat s (''%'' @ p @ ''%'') \<longleftrightarrow> contains s p"
  by (auto simp: like_pat_percent like_pat_plain like_pat_all contains_iff)

lemma to_lower_code: "is_upper c \<Longrightarrow> 97 \<le> code_of (to_lower c)"
  by (simp add: to_lower_def is_upper_def)

lemma plain_lower: "plain s \<Longrightarrow> plain (lower s)"
proof -
  assume p: "plain s"
  have "to_lower c \<noteq> CHR ''%'' \<and> to_lower c \<noteq> CHR ''_'' \<and> to_lower c \<noteq> CHR 0x5C" if "c \<in> set s" for c
  proof (cases "is_upper c")
    case True then show ?thesis using to_lower_code[OF True] by auto
  next
    case False then show ?thesis using p that by (simp add: to_lower_def plain_def)
  qed
  then show ?thesis by (simp add: plain_def lower_def)
qed

lemma like_pat_wild: "like_pat s (''%'' @ ''%'' @ ''%'')"
  by (simp add: like_pat_percent) (metis append_Nil)

section \<open>Bounds of the gauges\<close>

lemma round_even_between: "of_int a \<le> x \<Longrightarrow> x \<le> of_int b \<Longrightarrow> a \<le> round_even x \<and> round_even x \<le> b"
proof -
  assume x: "of_int a \<le> x" "x \<le> of_int b"
  have f: "a \<le> \<lfloor>x\<rfloor>" "\<lfloor>x\<rfloor> \<le> b" using x by (auto simp: le_floor_iff floor_le_iff)
  have "x = of_int \<lfloor>x\<rfloor> \<or> \<lfloor>x\<rfloor> + 1 \<le> b" using x by linarith
  then show ?thesis using f unfolding round_even_def Let_def by auto
qed

lemma gauges_bounded:
  "4 \<le> runway_ratio (decorate pcts r) \<and> runway_ratio (decorate pcts r) \<le> 100 \<and>
   8 \<le> rop_ratio (decorate pcts r) \<and> rop_ratio (decorate pcts r) \<le> 94"
  using round_even_between[of 4 _ 100] round_even_between[of 8 _ 94]
  by (simp add: decorate_def Let_def product_row.defs split: prod.split)

section \<open>Properties\<close>

text \<open>The catalog stays consistent under any sequence of creating, editing and deleting products
  and suppliers, each duplicate check reading an arbitrary other database: identifiers are unique and
  below their sequence, no two live products share a SKU and no two live suppliers a name, stock,
  reorder points and amounts are not negative, a product has all three EOQ inputs or none of them,
  its supplier exists, and a supplier's lead time, spend and reliability are in range.\<close>

theorem catalog_invariant:
  assumes "catalog_ok db"
  shows "catalog_ok (run catalog_step ops db)"
  by (rule catalog_sys.inv_run[OF assms])

definition no_catalog :: catalog where
  "no_catalog = \<lparr>product_rows = [], next_product = 1, supplier_rows = [], next_supplier = 1, trail = []\<rparr>"

definition bolt :: payload where
  "bolt = [(''sku'', PStr '' b-1 ''), (''name'', PStr ''Bolt''), (''warehouse'', PStr ''WH-Pune''),
     (''unit_price'', PInt 3), (''current_stock'', PInt 5)]"

lemma no_catalog_ok: "catalog_ok no_catalog"
  by (simp add: catalog_ok_def no_catalog_def unique_live_def)

theorem catalog_invariant_witness:
  "catalog_ok (run catalog_step [CreateProduct no_catalog bolt, CreateProduct no_catalog bolt, DeleteProduct 1] no_catalog)"
  by (rule catalog_invariant[OF no_catalog_ok])

text \<open>Stock belongs to the ledger (DB-021): no sequence of catalog operations changes the stock or
  the on-order quantity that the ledger sees of a product that exists, nor its SKU, none removes a
  product row or revives a deleted one, and the ledger's own invariant survives.\<close>

theorem catalog_keeps_ledger:
  assumes "catalog_ok db" and "inv_db_ok (ledger_with db l)"
  shows "inv_db_ok (ledger_with (run catalog_step ops db) l) \<and>
    (\<forall>k p. find_product k (ledger_with db l) = Some p \<longrightarrow>
      (\<exists>q. find_product k (ledger_with (run catalog_step ops db) l) = Some q \<and>
        current_stock q = current_stock p \<and> on_order q = on_order p \<and> sku q = sku p \<and>
        (prod_deleted p \<longrightarrow> prod_deleted q)))"
proof (intro conjI allI impI)
  let ?db = "run catalog_step ops db"
  have ok: "catalog_ok ?db" by (rule catalog_sys.inv_run[OF assms(1)])
  have "prod_id \<circ> stock_view = pr_id" by (rule ext) (simp add: stock_view_def)
  then show "inv_db_ok (ledger_with ?db l)"
    using ok assms(2) by (auto simp: inv_db_ok_def ledger_with_def catalog_ok_def product_row_ok_def stock_view_def)
next
  fix k p assume "find_product k (ledger_with db l) = Some p"
  then obtain r where r: "product_at k db = Some r" "p = stock_view r" by (auto simp: find_product_ledger)
  from product_at_kept[OF catalog_run_rows r(1)] obtain r' where
    "product_at k (run catalog_step ops db) = Some r'" "row_kept r r'" by blast
  then show "\<exists>q. find_product k (ledger_with (run catalog_step ops db) l) = Some q \<and>
      current_stock q = current_stock p \<and> on_order q = on_order p \<and> sku q = sku p \<and>
      (prod_deleted p \<longrightarrow> prod_deleted q)"
    by (simp add: find_product_ledger r(2) stock_view_def row_kept_def)
qed

definition nut_row :: product_row where
  "nut_row = \<lparr>pr_id = 1, pr_sku = ''NUT-1'', pr_name = ''Nut'', pr_category = None, pr_warehouse = Some ''WH-Pune'',
     pr_stock = 5, pr_reorder = 10, pr_demand = None, pr_ordering = None, pr_holding = None,
     pr_price = Some 2, pr_supplier = None, pr_on_order = 0, pr_deleted = False\<rparr>"

definition nut_catalog :: catalog where
  "nut_catalog = no_catalog\<lparr>product_rows := [nut_row], next_product := 2\<rparr>"

lemma nut_catalog_ok: "catalog_ok nut_catalog"
  by (simp add: catalog_ok_def nut_catalog_def no_catalog_def unique_live_def nut_row_def product_row_ok_def
      at_least0_def supplier_known_def)

lemma nut_ledger_ok: "inv_db_ok (ledger_with nut_catalog (demo_db 5))"
  by (simp add: inv_db_ok_def ledger_with_def nut_catalog_def no_catalog_def demo_db_def stock_view_def nut_row_def)

theorem catalog_keeps_ledger_witness:
  "inv_db_ok (ledger_with (run catalog_step [UpdateProduct 1 bolt, DeleteProduct 1] nut_catalog) (demo_db 5)) \<and>
   (\<exists>q. find_product 1 (ledger_with (run catalog_step [UpdateProduct 1 bolt, DeleteProduct 1] nut_catalog) (demo_db 5))
      = Some q \<and> current_stock q = 5)"
proof -
  have f: "find_product 1 (ledger_with nut_catalog (demo_db 5)) = Some (stock_view nut_row)"
    by (simp add: find_product_ledger product_at_def nut_catalog_def nut_row_def)
  have s: "current_stock (stock_view nut_row) = 5" by (simp add: stock_view_def nut_row_def)
  show ?thesis
    using catalog_keeps_ledger[OF nut_catalog_ok nut_ledger_ok, of "[UpdateProduct 1 bolt, DeleteProduct 1]"] f s
    by fastforce
qed

text \<open>One page, counted from 0, as a slice of the ordered rows.\<close>

lemma list_products_page:
  assumes len: "\<And>xs. length (by_sku xs) = length xs"
    and n: "0 < n" "int n = min 100 (max 5 per_page)"
    and rows: "rows = by_sku (filter (listed (strip_query q) db) (product_rows db))"
    and page: "page = list_products by_sku pcts q (int i + 1) per_page db"
  shows "pg_rows page = map (decorate pcts) (take n (drop (i * n) rows))"
    "pg_total page = (if i * n < length rows then int (length rows) else 0)"
    "pg_pages page = (pg_total page + int n - 1) div int n"
    "pg_has_next page = ((int i + 1) * int n < pg_total page)"
proof -
  have l: "length rows = length (filter (listed (strip_query q) db) (product_rows db))"
    by (simp add: rows len)
  have slice: "repo_product_list by_sku pcts (strip_query q) n k db =
      (map (decorate pcts) (take n (drop k rows)), if k < length rows then int (length rows) else 0)" for k
  proof (cases "k < length rows")
    case True
    then obtain r rs where "take n (drop k rows) = r # rs" using n(1)
      by (metis drop_eq_Nil2 length_0_conv less_numeral_extra(3) list.exhaust not_le take_eq_Nil2)
    then show ?thesis using True l
      by (simp add: repo_product_list_def sp_product_list_def Let_def rows[symmetric])
  qed (simp add: repo_product_list_def sp_product_list_def Let_def rows[symmetric])
  have "nat (int i * int n) = i * n" by (simp flip: of_nat_mult)
  then show "pg_rows page = map (decorate pcts) (take n (drop (i * n) rows))"
    "pg_total page = (if i * n < length rows then int (length rows) else 0)"
    "pg_pages page = (pg_total page + int n - 1) div int n"
    "pg_has_next page = ((int i + 1) * int n < pg_total page)"
    unfolding page list_products_def Let_def n(2)[symmetric] by (simp_all add: slice)
qed

text \<open>The product list tiles the matching rows: with the effective page size (5 to 100), the pages 1
  up to the page count, concatenated, are all the matching products in the server's order, each of them
  reports their number, and has a successor exactly if it is not the last.  A page beyond the last,
  however, reports a total of 0, because the count travels inside the rows.\<close>

theorem product_pages_complete:
  assumes "\<And>xs. length (by_sku xs) = length xs"
  shows "let n = min 100 (max 5 per_page); rows = by_sku (filter (listed (strip_query q) db) (product_rows db));
      page = (\<lambda>i. list_products by_sku pcts q i per_page db); pages = (int (length rows) + n - 1) div n
    in concat (map (\<lambda>i. pg_rows (page (int i + 1))) [0..<nat pages]) = map (decorate pcts) rows \<and>
      (\<forall>i. 1 \<le> i \<and> i \<le> pages \<longrightarrow> pg_total (page i) = int (length rows) \<and> pg_pages (page i) = pages \<and>
        pg_has_next (page i) = (i < pages)) \<and>
      (\<forall>i. 1 \<le> i \<and> pages < i \<longrightarrow> pg_rows (page i) = [] \<and> pg_total (page i) = 0 \<and> \<not> pg_has_next (page i))"
proof -
  define n where "n = nat (min 100 (max 5 per_page))"
  define rows where "rows = by_sku (filter (listed (strip_query q) db) (product_rows db))"
  define pages where "pages = (int (length rows) + int n - 1) div int n"
  define page where "page = (\<lambda>i. list_products by_sku pcts q i per_page db)"
  have n: "0 < n" "int n = min 100 (max 5 per_page)" by (simp_all add: n_def)
  have at_page: "page (int i + 1) = list_products by_sku pcts q (int i + 1) per_page db" for i
    by (simp add: page_def)
  note page = list_products_page[OF assms n rows_def at_page]
  have lt: "int i < pages \<longleftrightarrow> i * n < length rows" for i
    using ceil_div_less[of "int n" "int i" "int (length rows)"] n(1) unfolding pages_def
    by (simp flip: of_nat_mult)
  have tiled: "concat (map (\<lambda>i. pg_rows (page (int i + 1))) [0..<nat pages]) = map (decorate pcts) rows"
  proof -
    have "0 \<le> pages" using n(1) by (simp add: pages_def pos_imp_zdiv_nonneg_iff)
    then have "length rows \<le> nat pages * n" using lt[of "nat pages"] by simp
    moreover have "concat (map (\<lambda>i. pg_rows (page (int i + 1))) [0..<nat pages])
        = map (decorate pcts) (concat (map (\<lambda>i. take n (drop (i * n) rows)) [0..<nat pages]))"
      by (simp add: page(1) map_concat comp_def)
    ultimately show ?thesis by (simp add: pages_tile[OF n(1)])
  qed
  have inside: "pg_total (page i) = int (length rows) \<and> pg_pages (page i) = pages \<and> pg_has_next (page i) = (i < pages)"
    if "1 \<le> i" "i \<le> pages" for i
  proof -
    from that(1) obtain k where i: "i = int k + 1" by (metis nonneg_int_cases add_diff_cancel_left' diff_ge_0_iff_ge diff_add_cancel)
    then have t: "pg_total (page i) = int (length rows)" using that(2) lt[of k] by (simp add: page(2))
    have "((int k + 1) * int n < int (length rows)) = (i < pages)"
      using lt[of "Suc k"] unfolding i by (metis of_nat_Suc of_nat_less_iff of_nat_mult add.commute)
    then show ?thesis using t page(3,4)[of k] unfolding i pages_def by simp
  qed
  have outside: "pg_rows (page i) = [] \<and> pg_total (page i) = 0 \<and> \<not> pg_has_next (page i)"
    if "1 \<le> i" "pages < i" for i
  proof -
    from that(1) obtain k where i: "i = int k + 1" by (metis nonneg_int_cases add_diff_cancel_left' diff_ge_0_iff_ge diff_add_cancel)
    have "\<not> k * n < length rows" using that(2) lt[of k] unfolding i by simp
    then show ?thesis using page[of k] n(1) unfolding i by (simp add: not_less)
  qed
  show ?thesis using tiled inside outside
    unfolding Let_def page_def pages_def rows_def n(2) by blast
qed

definition nuts :: catalog where
  "nuts = nut_catalog\<lparr>product_rows := map (\<lambda>i. nut_row\<lparr>pr_id := i\<rparr>) [1..7]\<rparr>"

definition any_product :: list_query where
  "any_product = \<lparr>lq_search = [], lq_category = [], lq_warehouse = [], lq_status = []\<rparr>"

lemma strip_any_product: "strip_query any_product = any_product"
  by (simp add: strip_query_def any_product_def strip_def lstrip_def rstrip_def)

theorem product_pages_complete_witness:
  "pg_total (list_products rev (Ok (20, 10)) any_product 2 5 nuts) = 7 \<and>
   \<not> pg_has_next (list_products rev (Ok (20, 10)) any_product 2 5 nuts) \<and>
   pg_total (list_products rev (Ok (20, 10)) any_product 3 5 nuts) = 0"
proof -
  have all: "filter (listed any_product nuts) (product_rows nuts) = product_rows nuts"
    by (simp add: filter_id_conv listed_def any_product_def nuts_def nut_row_def)
  have "length (product_rows nuts) = 7" by (simp add: nuts_def)
  then show ?thesis
    using product_pages_complete[of rev 5 any_product nuts "Ok (20, 10)"] by (simp add: strip_any_product all Let_def)
qed

text \<open>A search text without the pattern characters percent, underscore and backslash finds exactly
  the live products that contain it, ignoring case, in the SKU, the name, the category or the
  supplier's name; but the text is not escaped, so that a search for a single percent sign or
  underscore lists every live product.\<close>

theorem search_finds_plain_text:
  assumes "plain (lq_search q)" and "lq_search q \<noteq> []"
    and "lq_category q = [] \<and> lq_warehouse q = [] \<and> lq_status q = []"
  shows "(listed q db r \<longleftrightarrow> \<not> pr_deleted r \<and>
      (\<exists>s. Some s \<in> {Some (pr_sku r), Some (pr_name r), pr_category r, supplier_name_of db r} \<and>
        contains (lower s) (lower (lq_search q)))) \<and>
    (listed (q\<lparr>lq_search := ''%''\<rparr>) db r \<longleftrightarrow> \<not> pr_deleted r) \<and>
    (pr_name r \<noteq> [] \<longrightarrow> (listed (q\<lparr>lq_search := ''_''\<rparr>) db r \<longleftrightarrow> \<not> pr_deleted r))"
proof -
  have "ilike_any v (lq_search q) \<longleftrightarrow> (\<exists>s. v = Some s \<and> contains (lower s) (lower (lq_search q)))" for v
    using like_pat_contains[OF plain_lower[OF assms(1)]] by (cases v) (auto simp: ilike_any_def)
  then have plain_part: "listed q db r \<longleftrightarrow> \<not> pr_deleted r \<and>
      (\<exists>s. Some s \<in> {Some (pr_sku r), Some (pr_name r), pr_category r, supplier_name_of db r} \<and>
        contains (lower s) (lower (lq_search q)))"
    using assms(2,3) unfolding listed_def by fastforce
  have low: "lower ''%'' = ''%''" "lower ''_'' = ''_''" by (simp_all add: lower_def to_lower_def is_upper_def)
  have pct: "ilike_any (Some s) ''%''" for s using like_pat_wild[of "lower s"] by (simp add: ilike_any_def low)
  have und: "ilike_any (Some s) ''_''" if ne: "s \<noteq> []" for s
  proof -
    obtain c t where "lower s = c # t" using ne by (cases "lower s") (auto simp: lower_def)
    then have "like_pat (lower s) ''_%''" by (simp add: like_pat.simps(2)[of _ "CHR ''_''"] like_pat_all)
    then show ?thesis by (simp add: ilike_any_def low like_pat_percent) (metis append_Nil)
  qed
  show ?thesis using plain_part pct und assms(3) by (simp add: listed_def)
qed

theorem search_finds_plain_text_witness:
  "listed (any_product\<lparr>lq_search := ''ut-''\<rparr>) nuts nut_row \<and> \<not> listed (any_product\<lparr>lq_search := ''x''\<rparr>) nuts nut_row"
proof -
  have p: "plain ''ut-''" "plain ''x''" by (simp_all add: plain_def)
  have l: "lower ''NUT-1'' = ''nut-1''" "lower ''Nut'' = ''nut''" "lower ''ut-'' = ''ut-''" "lower ''x'' = ''x''"
    by code_simp+
  show ?thesis
    using p l search_finds_plain_text[of "any_product\<lparr>lq_search := ''ut-''\<rparr>" nuts nut_row]
      search_finds_plain_text[of "any_product\<lparr>lq_search := ''x''\<rparr>" nuts nut_row]
    by (simp add: any_product_def nut_row_def supplier_name_of_def
        conj_disj_distribR ex_disj_distrib)
qed

definition blank_product :: payload where
  "blank_product = [(''sku'', PStr ''''), (''name'', PStr ''Bolt''), (''warehouse'', PStr ''WH-Pune''),
     (''unit_price'', PFloat (Fin (1 / 25000)))]"

lemma blank_product_validated: "product_validate False blank_product = Ok
    [(''sku'', PStr ''''), (''name'', PStr ''Bolt''), (''warehouse'', PStr ''WH-Pune''),
     (''unit_price'', PFloat (Fin 0)), (''category'', PNone), (''supplier_id'', PNone)]"
proof -
  have t: "strip ''Bolt'' = ''Bolt''" "strip ''WH-Pune'' = ''WH-Pune''" "strip [] = []" by code_simp+
  have r: "round_to 4 (1 / 25000) = 0" by (simp add: round_to_def round_even_def)
  show ?thesis
    by (simp add: product_validate_def blank_product_def sku_field_def dget_def dget_or_def dput_def
        validate_string_length_def stripped_def py_or_def none_if_empty_def validate_positive_number_def
        count_field_def cost_field_def filled_def eoq_trio_def eoq_keys_def supplier_field_def t r)
qed

text \<open>Two values the validation is meant to refuse get through.  The length test of the SKU is
  skipped for a blank one, so a product with an empty SKU is created whenever no live one exists; and
  a price is compared with zero before it is rounded, so 0.00004 is accepted as greater than zero and
  stored as 0.\<close>

theorem blank_sku_accepted:
  assumes "\<not> sku_live [] db" and "sp_product_find_by_sku (Some []) seen = None"
  shows "\<exists>r db'. product_create seen blank_product db = (Ok (next_product db), db') \<and>
    product_rows db' = product_rows db @ [r] \<and> pr_sku r = [] \<and> pr_price r = Some 0"
  using assms
  by (simp add: product_create_def blank_product_validated repo_product_create_def int_or0_def dget_def py_or_def
      int4_def sp_product_create_def column_values_def fits_def numeric_column_def num2_def product_checks_def
      at_least0_def supplier_known_def not_null_def)

theorem blank_sku_accepted_witness:
  "\<exists>r db'. product_create no_catalog blank_product no_catalog = (Ok 1, db') \<and>
    product_rows db' = [r] \<and> pr_sku r = [] \<and> pr_price r = Some 0"
  using blank_sku_accepted[of no_catalog no_catalog]
  by (simp add: sku_live_def sp_product_find_by_sku_def no_catalog_def)

end
