(* ===== verification/Backup.thy ===== *)
theory Backup
  imports Alerts Users Roles
begin

text \<open>Backups: \<open>app/services/backup_service.py\<close>, \<open>app/repositories/system_backup_repo.py\<close>
  and \<open>app/routes/admin/backup_routes.py\<close>.  The file system is a map from paths to
  contents.  The programs \<open>pg_dump\<close> and \<open>pg_restore\<close>, the cipher, the key derivation and the
  digest are not under \<open>src/\<close>: they are the fields of the record \<open>outside\<close>, and what
  a theorem uses of them is a hypothesis.\<close>

section \<open>State\<close>

record backup_row =
  bk_id :: int
  bk_name :: string
  bk_type :: string
  bk_path :: string
  bk_size :: nat
  bk_created :: int
  bk_by :: int
  bk_deleted :: bool
  bk_encrypted :: bool
  bk_key :: "string option"
  bk_checksum :: "string option"

record backup_state =
  bk_rows :: "backup_row list"
  bk_next :: int
  files :: "string \<Rightarrow> string option"
  bk_alerts :: alert_table
  state_keys :: "(string \<times> string) list"  \<comment> \<open>the table \<open>etl_warehouse_state\<close>\<close>
  mon_cache :: "string ttl_cache"

text \<open>\<open>dump cmd\<close> is the exit code, the error output and what is left in the output file;
  \<open>restore cmd content\<close> runs on the content of its input file and is None when it is killed
  after the time limit.\<close>

record outside =
  dump :: "string list \<Rightarrow> int \<times> string \<times> string option"
  restore :: "string list \<Rightarrow> string \<Rightarrow> (int \<times> string) option"
  encrypt :: "string \<Rightarrow> string \<Rightarrow> string"
  decrypt :: "string \<Rightarrow> string \<Rightarrow> string option"
  derive_key :: "string \<Rightarrow> string"
  sha256 :: "string \<Rightarrow> string"

section \<open>Paths\<close>

definition file_name :: "string \<Rightarrow> string" where
  "file_name p = rev (takeWhile (\<lambda>c. c \<noteq> CHR ''/'') (rev p))"

definition suffix :: "string \<Rightarrow> string" where
  "suffix p = (let n = file_name p; ext = rev (takeWhile (\<lambda>c. c \<noteq> CHR ''.'') (rev n)) in
     if ext \<noteq> [] \<and> length ext + 1 < length n then CHR ''.'' # ext else [])"

definition with_suffix :: "string \<Rightarrow> string \<Rightarrow> string" where
  "with_suffix p s = take (length p - length (suffix p)) p @ s"

definition safe_name :: "string \<Rightarrow> string" where
  "safe_name n = map (\<lambda>c. if is_letter c \<or> is_digit c then c else CHR ''_'') n"

definition backup_path :: "string \<Rightarrow> string \<Rightarrow> string \<Rightarrow> string" where
  "backup_path dir stamp name = dir @ ''/'' @ stamp @ ''_'' @ safe_name name @ ''.backup''"

section \<open>Commands\<close>

datatype db_params = Url string | Host string int string string string  \<comment> \<open>host, port, dbname, user, password\<close>

definition get_dump_command :: "db_params \<Rightarrow> string \<Rightarrow> string list" where
  "get_dump_command prm out = (case prm of
      Url u \<Rightarrow> [''pg_dump'', u, ''-f'', out, ''--verbose'', ''--no-owner'', ''--no-privileges'']
    | Host h port db usr pw \<Rightarrow> [''pg_dump'', ''-h'', h, ''-p'', int_str port, ''-U'', usr, ''-d'', db, ''-f'', out,
        ''--verbose'', ''--no-owner'', ''--no-privileges''])"

definition get_restore_command :: "db_params \<Rightarrow> string \<Rightarrow> string list" where
  "get_restore_command prm inp = (case prm of
      Url u \<Rightarrow> [''pg_restore'', u, ''-d'', last (split_on CHR ''/'' u), ''--verbose'', ''--clean'', ''--no-owner'',
        ''--no-privileges'', inp]
    | Host h port db usr pw \<Rightarrow> [''pg_restore'', ''-h'', h, ''-p'', int_str port, ''-U'', usr, ''-d'', db,
        ''--verbose'', ''--clean'', ''--no-owner'', ''--no-privileges'', inp])"

definition get_db_params :: "string option \<Rightarrow> db_params \<Rightarrow> db_params" where
  "get_db_params database_url config = (case database_url of
      Some u \<Rightarrow> if u = [] then config else Url u | None \<Rightarrow> config)"

section \<open>Encrypted files\<close>

abbreviation no_file :: "string \<Rightarrow> pyexc" where
  "no_file p \<equiv> OtherExc (''[Errno 2] No such file or directory: '' @ p)"

definition write_file :: "string \<Rightarrow> string \<Rightarrow> backup_state \<Rightarrow> backup_state" where
  "write_file p d st = st\<lparr>files := (files st)(p := Some d)\<rparr>"

definition unlink :: "string \<Rightarrow> backup_state \<Rightarrow> backup_state" where
  "unlink p st = st\<lparr>files := (files st)(p := None)\<rparr>"

text \<open>The encrypted path and the checksum of the plain content.\<close>

definition encrypt_file :: "outside \<Rightarrow> string \<Rightarrow> string \<Rightarrow> backup_state \<Rightarrow> (string \<times> string) result \<times> backup_state" where
  "encrypt_file out p key_id st = (case files st p of
      None \<Rightarrow> (Err (no_file p), st)
    | Some plain \<Rightarrow>
        let e = with_suffix p (suffix p @ ''.enc'')
        in (Ok (e, sha256 out plain), write_file e (encrypt out (derive_key out key_id) plain) st))"

definition dec_path :: "string \<Rightarrow> string" where
  "dec_path p = (let d = with_suffix p []; d = (if suffix d = ''.enc'' then with_suffix d [] else d) in d @ ''.dec'')"

definition decrypt_file :: "outside \<Rightarrow> string \<Rightarrow> string \<Rightarrow> backup_state \<Rightarrow> string result \<times> backup_state" where
  "decrypt_file out p key_id st = (case files st p of
      None \<Rightarrow> (Err (no_file p), st)
    | Some c \<Rightarrow> (case decrypt out (derive_key out key_id) c of
          None \<Rightarrow> (Err (DomainError ''InvalidToken'' []), st)
        | Some plain \<Rightarrow> (Ok (dec_path p), write_file (dec_path p) plain st)))"

definition verify_checksum :: "outside \<Rightarrow> string \<Rightarrow> string \<Rightarrow> backup_state \<Rightarrow> bool result" where
  "verify_checksum out p expected st = (case files st p of
      None \<Rightarrow> Err (no_file p) | Some d \<Rightarrow> Ok (sha256 out d = expected))"

section \<open>The repository\<close>

definition backup_add :: "backup_row \<Rightarrow> user_db \<Rightarrow> backup_state \<Rightarrow> (int \<times> backup_state) result" where
  "backup_add r udb st =
     bindE (ensure (length (bk_name r) \<le> 255) (too_long 255)) (\<lambda>_.
     bindE (ensure (length (bk_type r) \<le> 50) (too_long 50)) (\<lambda>_.
     bindE (ensure (length (bk_path r) \<le> 500) (too_long 500)) (\<lambda>_.
     bindE (ensure (fits 100 (bk_key r)) (too_long 100)) (\<lambda>_.
     bindE (ensure (fits 64 (bk_checksum r)) (too_long 64)) (\<lambda>_.
     bindE (ensure (bk_name r \<notin> set (map bk_name (bk_rows st))) (DbUnique ''uq_system_backups_backup_name'')) (\<lambda>_.
     bindE (ensure (account (bk_by r) udb \<noteq> None) (DbForeignKey ''system_backups_created_by_fkey'')) (\<lambda>_.
     Ok (bk_next st, st\<lparr>bk_rows := bk_rows st @ [r\<lparr>bk_id := bk_next st\<rparr>], bk_next := bk_next st + 1\<rparr>))))))))"

definition backup_get :: "int \<Rightarrow> backup_state \<Rightarrow> backup_row option" where
  "backup_get i st = find_row (\<lambda>r. bk_id r = i \<and> \<not> bk_deleted r) (bk_rows st)"

text \<open>\<open>ORDER BY created_at DESC\<close>: the order among equal instants is the server's, so the
  arrangement is an argument.\<close>

definition backup_list :: "(backup_row list \<Rightarrow> backup_row list) \<Rightarrow> nat \<Rightarrow> nat \<Rightarrow> bool \<Rightarrow> backup_state \<Rightarrow> backup_row list" where
  "backup_list newest limit offset with_deleted st =
     take limit (drop offset (newest (filter (\<lambda>r. with_deleted \<or> \<not> bk_deleted r) (bk_rows st))))"

definition backup_count :: "bool \<Rightarrow> backup_state \<Rightarrow> int" where
  "backup_count with_deleted st = int (length (filter (\<lambda>r. with_deleted \<or> \<not> bk_deleted r) (bk_rows st)))"

definition backup_delete :: "int \<Rightarrow> backup_state \<Rightarrow> backup_state" where
  "backup_delete i st = st\<lparr>bk_rows := update_where (\<lambda>r. bk_id r = i) (\<lambda>r. r\<lparr>bk_deleted := True\<rparr>) (bk_rows st)\<rparr>"

section \<open>Creating a backup\<close>

definition initiator :: "string \<Rightarrow> int option \<Rightarrow> caller \<Rightarrow> user_db \<Rightarrow> int result" where
  "initiator what uid caller udb = (case uid of Some u \<Rightarrow> Ok u
     | None \<Rightarrow> (case caller of
          NoRequest \<Rightarrow> Err (AttributeError (quoted ''NoneType'' @ '' object has no attribute '' @ quoted ''is_authenticated''))
        | LoggedIn u \<Rightarrow> Ok u
        | Anonymous \<Rightarrow> (case find_by_username ''admin'' udb of
            Some a \<Rightarrow> Ok (ac_id a)
          | None \<Rightarrow> (case find_by_id 1 udb of
              Some a \<Rightarrow> Ok (ac_id a)
            | None \<Rightarrow> Err (ValueError (''No user found to attribute the '' @ what @ '' to''))))))"

record backup_result =
  ok :: bool
  message :: string
  backup_id :: "int option"

text \<open>The failure answer, after the best-effort alert.\<close>

definition alert_backup_failure ::
  "(alert \<Rightarrow> (string \<times> string) list) \<Rightarrow> int \<Rightarrow> int \<Rightarrow> string \<Rightarrow> string \<Rightarrow> backup_state \<Rightarrow> backup_state" where
  "alert_backup_failure notify now day msg name st =
     st\<lparr>bk_alerts := snd (maybe_create_backup_failure_alert notify now day msg (Some name) (bk_alerts st))\<rparr>"

definition backup_failed ::
  "(alert \<Rightarrow> (string \<times> string) list) \<Rightarrow> int \<Rightarrow> int \<Rightarrow> string \<Rightarrow> string \<Rightarrow> backup_state \<Rightarrow> backup_result \<times> backup_state" where
  "backup_failed notify now day msg name st =
     (\<lparr>ok = False, message = msg, backup_id = None\<rparr>, alert_backup_failure notify now day msg name st)"

definition unexpected :: "pyexc \<Rightarrow> string" where
  "unexpected e = ''Unexpected error during backup: '' @ exc_text e"

record backup_ctx =
  cx_out :: outside
  cx_dir :: string
  cx_stamp :: string
  cx_now :: int
  cx_day :: int
  cx_params :: db_params
  cx_caller :: caller
  cx_users :: user_db
  cx_notify :: "alert \<Rightarrow> (string \<times> string) list"

definition create_backup ::
  "backup_ctx \<Rightarrow> string \<Rightarrow> string \<Rightarrow> int option \<Rightarrow> backup_state \<Rightarrow> backup_result \<times> backup_state" where
  "create_backup cx name ty uid st =
     (let failed = (\<lambda>msg st. backup_failed (cx_notify cx) (cx_now cx) (cx_day cx) msg name st) in
      case initiator ''backup'' uid (cx_caller cx) (cx_users cx) of Inl e \<Rightarrow> failed (unexpected e) st
      | Inr u \<Rightarrow>
        let p = backup_path (cx_dir cx) (cx_stamp cx) name;
            (code, err, written) = dump (cx_out cx) (get_dump_command (cx_params cx) p);
            st = (case written of None \<Rightarrow> st | Some d \<Rightarrow> write_file p d st)
        in if code \<noteq> 0 then failed (''Backup failed: '' @ err) st
           else let key_id = ''backup_'' @ name @ ''_'' @ cx_stamp cx in
             (case encrypt_file (cx_out cx) p key_id st of
                (Inl e, st) \<Rightarrow> failed (unexpected e) st
              | (Inr (e, digest), st) \<Rightarrow>
                  let n = (case files st e of Some d \<Rightarrow> length d | None \<Rightarrow> 0); st = unlink p st in
                  case backup_add \<lparr>bk_id = 0, bk_name = name, bk_type = ty, bk_path = e, bk_size = n,
                      bk_created = cx_now cx, bk_by = u, bk_deleted = False, bk_encrypted = True,
                      bk_key = Some key_id, bk_checksum = Some digest\<rparr> (cx_users cx) st of
                    Inl x \<Rightarrow> failed (unexpected x) st
                  | Inr (i, st) \<Rightarrow> (\<lparr>ok = True,
                      message = ''Backup '' @ quoted name @ '' created successfully (encrypted).'',
                      backup_id = Some i\<rparr>, st)))"

section \<open>Restoring\<close>

text \<open>The checks before a restore is started.  The inner option is the refusal; an error is raised
  (a damaged or foreign ciphertext raises \<open>InvalidToken\<close>).  The decrypted copy is removed again.\<close>

definition restore_check :: "outside \<Rightarrow> backup_row \<Rightarrow> backup_state \<Rightarrow> string option result \<times> backup_state" where
  "restore_check out r st =
     (if files st (bk_path r) = None then (Ok (Some (''Backup file not found: '' @ bk_path r)), st)
      else (case bk_checksum r of None \<Rightarrow> (Ok None, st)
        | Some expected \<Rightarrow>
            if expected = [] then (Ok None, st)
            else let verdict = (\<lambda>p st. bindE (verify_checksum out p expected st) (\<lambda>good.
                Ok (if good then None else Some ''Backup integrity check failed: checksum mismatch.'')))
              in if \<not> bk_encrypted r then (verdict (bk_path r) st, st)
                 else (case bk_key r of None \<Rightarrow> (Ok (Some ''Backup encryption key ID missing.''), st)
                   | Some k \<Rightarrow> if k = [] then (Ok (Some ''Backup encryption key ID missing.''), st)
                       else (case decrypt_file out (bk_path r) k st of
                           (Inl e, st) \<Rightarrow> (Err e, st)
                         | (Inr d, st) \<Rightarrow> (verdict d st, unlink d st)))))"

datatype launch = Refused | Queued int | InThread

text \<open>\<open>lock_free\<close>: the advisory lock could be taken by the short-lived connection of the pre-check,
  which releases it again at once.  \<open>queue\<close> is the identifier the job queue answers with in
  queue mode.\<close>

definition restore_backup ::
  "outside \<Rightarrow> bool \<Rightarrow> int option \<Rightarrow> int \<Rightarrow> backup_state \<Rightarrow> (launch \<times> string) result \<times> backup_state" where
  "restore_backup out lock_free queue i st = (case backup_get i st of
      None \<Rightarrow> (Ok (Refused, ''Backup with ID '' @ int_str i @ '' not found.''), st)
    | Some r \<Rightarrow> (case restore_check out r st of
        (Inl e, st) \<Rightarrow> (Err e, st)
      | (Inr (Some msg), st) \<Rightarrow> (Ok (Refused, msg), st)
      | (Inr None, st) \<Rightarrow>
          (Ok (if \<not> lock_free then (Refused, ''Another restore is already in progress.'')
               else case queue of
                 Some j \<Rightarrow> (Queued j, ''Restore queued for background processing'')
               | None \<Rightarrow> (InThread, ''Restore started in background. Check monitoring page for status.'')), st)))"

text \<open>\<open>_persist\<close>: a best-effort write of the job state; \<open>can_write\<close> tells whether it succeeds.\<close>

definition persist :: "bool \<Rightarrow> string \<Rightarrow> string option \<Rightarrow> backup_state \<Rightarrow> backup_state" where
  "persist can_write k v st = (if \<not> can_write then st
     else st\<lparr>state_keys := (case v of None \<Rightarrow> AList.delete k (state_keys st) | Some x \<Rightarrow> AList.update k x (state_keys st))\<rparr>)"

definition restore_failed :: "bool \<Rightarrow> string \<Rightarrow> backup_state \<Rightarrow> (bool \<times> string) \<times> backup_state" where
  "restore_failed w msg st =
     ((False, msg), persist w ''restore_job_error'' (Some msg) (persist w ''restore_job_status'' (Some ''failed'') st))"

definition bust_monitoring :: "backup_state \<Rightarrow> backup_state" where
  "bust_monitoring st = st\<lparr>mon_cache := snd (cache_invalidate '''' (mon_cache st))\<rparr>"

text \<open>The part of \<open>_restore_sync\<close> that runs \<open>pg_restore\<close> on the decrypted copy.  A timeout raises after
  the clean-up of the inner \<open>finally\<close>.\<close>

definition run_restore :: "bool \<Rightarrow> outside \<Rightarrow> db_params \<Rightarrow> string \<Rightarrow> backup_state \<Rightarrow> (bool \<times> string) \<times> backup_state" where
  "run_restore w out prm d st =
     (let content = (case files st d of Some c \<Rightarrow> c | None \<Rightarrow> []);
          cleanup = (\<lambda>st. bust_monitoring (unlink d st))
      in case restore out (get_restore_command prm d) content of
           None \<Rightarrow> restore_failed w (''Command '' @ quoted (py_repr_list (get_restore_command prm d)) @
             '' timed out after 600 seconds'') (cleanup st)
         | Some (code, err) \<Rightarrow>
             if code \<noteq> 0 then (let (r, st) = restore_failed w (''Restore failed: '' @ err) st in (r, cleanup st))
             else ((True, ''Restore completed successfully''),
               cleanup (persist w ''restore_job_error'' None (persist w ''restore_job_status'' (Some ''success'') st))))"

definition restore_sync ::
  "bool \<Rightarrow> bool \<Rightarrow> outside \<Rightarrow> db_params \<Rightarrow> caller \<Rightarrow> user_db \<Rightarrow> int \<Rightarrow> int option \<Rightarrow> backup_state \<Rightarrow>
   (bool \<times> string) \<times> backup_state" where
  "restore_sync w locked out prm caller udb i uid st =
     (if \<not> locked then restore_failed w ''Another restore acquired lock'' st
      else let st = persist w ''restore_job_error'' None (persist w ''restore_job_status'' (Some ''running'') st) in
      case backup_get i st of None \<Rightarrow> restore_failed w ''Backup record not found'' st
      | Some r \<Rightarrow> (case initiator ''restore'' uid caller udb of
          Inl e \<Rightarrow> restore_failed w (exc_text e) st
        | Inr u \<Rightarrow>
          if files st (bk_path r) = None then restore_failed w (''Backup file not found: '' @ bk_path r) st
          else if bk_key r = None \<or> bk_key r = Some [] then restore_failed w ''Backup encryption key ID missing.'' st
          else (case decrypt_file out (bk_path r) (the (bk_key r)) st of
              (Inl e, st) \<Rightarrow> restore_failed w (exc_text e) st
            | (Inr d, st) \<Rightarrow> run_restore w out prm d st)))"

section \<open>The advisory lock\<close>

text \<open>Every session that wants to restore opens a connection of its own, releases a lock it might hold
  (the \<open>stale lock\<close> clean-up), tries the lock, and gives it up explicitly or by closing the
  connection.  The pre-check of \<open>restore_backup\<close> is a session that closes after the attempt.
  \<open>pg_restore\<close> is a child process of the session that starts it: the session waits for it (or
  kills it when its ten minutes are over) before it gives up the lock.  When the session's process dies
  the server frees the lock and the child goes on.  The server can also end the lock's connection
  (\<open>severed\<close>): it frees the lock, and a session that is waiting for its child does not notice.\<close>

datatype phase = Idle | Opened | Cleaned | Holding | Running | Closed

record lock_world =
  holder :: "nat option"
  phase_of :: "nat \<Rightarrow> phase"
  child :: "nat \<Rightarrow> bool"
  severed :: "nat \<Rightarrow> bool"

definition enter :: "nat \<Rightarrow> phase \<Rightarrow> lock_world \<Rightarrow> lock_world" where
  "enter i p s = s\<lparr>phase_of := (phase_of s)(i := p)\<rparr>"

definition give_up :: "nat \<Rightarrow> lock_world \<Rightarrow> lock_world" where
  "give_up i s = (if holder s = Some i then s\<lparr>holder := None\<rparr> else s)"

definition spawn :: "nat \<Rightarrow> bool \<Rightarrow> lock_world \<Rightarrow> lock_world" where
  "spawn i b s = s\<lparr>child := (child s)(i := b)\<rparr>"

definition sever :: "nat \<Rightarrow> lock_world \<Rightarrow> lock_world" where
  "sever i s = s\<lparr>severed := (severed s)(i := True)\<rparr>"

inductive lock_step :: "lock_world \<Rightarrow> lock_world \<Rightarrow> bool" where
  connect: "phase_of s i = Idle \<Longrightarrow> lock_step s (enter i Opened s)"
| cleanup: "phase_of s i = Opened \<Longrightarrow> lock_step s (enter i Cleaned (give_up i s))"
| acquired: "phase_of s i = Cleaned \<Longrightarrow> holder s = None \<Longrightarrow> \<not> severed s i \<Longrightarrow>
    lock_step s (enter i Holding (s\<lparr>holder := Some i\<rparr>))"
| busy: "phase_of s i = Cleaned \<Longrightarrow> holder s \<noteq> None \<or> severed s i \<Longrightarrow> lock_step s (enter i Closed s)"
| start: "phase_of s i = Holding \<Longrightarrow> lock_step s (enter i Running (spawn i True s))"
| child_ends: "child s i \<Longrightarrow> lock_step s (spawn i False s)"
| finish: "phase_of s i \<in> {Holding, Running} \<Longrightarrow> \<not> child s i \<Longrightarrow> lock_step s (enter i Closed (give_up i s))"
| crash: "phase_of s i \<notin> {Idle, Closed} \<Longrightarrow> lock_step s (enter i Closed (give_up i s))"
| lost: "phase_of s i \<notin> {Idle, Closed} \<Longrightarrow> lock_step s (sever i (give_up i s))"

inductive_cases lock_stepE: "lock_step s s'"

inductive lock_reach :: "lock_world \<Rightarrow> lock_world \<Rightarrow> bool" for s0 where
  lock_start: "lock_reach s0 s0"
| lock_next: "lock_reach s0 s \<Longrightarrow> lock_step s s' \<Longrightarrow> lock_reach s0 s'"

lemma enter_simps [simp]: "holder (enter i p s) = holder s" "phase_of (enter i p s) j = (if j = i then p else phase_of s j)"
    "child (enter i p s) = child s" "severed (enter i p s) = severed s"
  by (simp_all add: enter_def)

lemma give_up_simps [simp]: "phase_of (give_up i s) = phase_of s" "child (give_up i s) = child s"
    "severed (give_up i s) = severed s" "holder (give_up i s) = (if holder s = Some i then None else holder s)"
  by (simp_all add: give_up_def)

lemma spawn_simps [simp]: "holder (spawn i b s) = holder s" "phase_of (spawn i b s) = phase_of s"
    "severed (spawn i b s) = severed s" "child (spawn i b s) j = (if j = i then b else child s j)"
  by (simp_all add: spawn_def)

lemma sever_simps [simp]: "holder (sever i s) = holder s" "phase_of (sever i s) = phase_of s"
    "child (sever i s) = child s" "severed (sever i s) j = (j = i \<or> severed s j)"
  by (simp_all add: sever_def)

text \<open>A session is between the lock and the end of its work; it has the lock as long as its connection
  lives.  A child whose session is gone, or whose session has lost its connection, is \<open>stray\<close>.\<close>

definition locks :: "lock_world \<Rightarrow> nat \<Rightarrow> bool" where
  "locks s i = (phase_of s i = Holding \<or> phase_of s i = Running)"

definition stray :: "lock_world \<Rightarrow> nat \<Rightarrow> bool" where
  "stray s i = (child s i \<and> (phase_of s i = Closed \<or> severed s i))"

definition keeps_lock :: "lock_world \<Rightarrow> nat \<Rightarrow> bool" where
  "keeps_lock s i = ((locks s i \<longrightarrow> severed s i \<or> holder s = Some i) \<and>
    (child s i \<longrightarrow> phase_of s i = Running \<or> phase_of s i = Closed))"

lemma keeps_lock_step: "lock_step s s' \<Longrightarrow> (\<And>i. keeps_lock s i) \<Longrightarrow> keeps_lock s' j"
proof (induction rule: lock_step.induct)
  case (crash s i) then show ?case
    by (auto simp: keeps_lock_def locks_def dest: meta_spec[of _ j])
next
  case (lost s i) then show ?case
    by (auto simp: keeps_lock_def locks_def dest: meta_spec[of _ j])
qed (force simp: keeps_lock_def locks_def)+

lemma keeps_lock_reach: "lock_reach s0 s \<Longrightarrow> (\<And>i. keeps_lock s0 i) \<Longrightarrow> keeps_lock s j"
  by (induction arbitrary: j rule: lock_reach.induct) (auto intro: keeps_lock_step)

section \<open>Verification and retention\<close>

definition verify_latest_backup ::
  "(backup_row list \<Rightarrow> backup_row list) \<Rightarrow> outside \<Rightarrow> backup_state \<Rightarrow> int result \<times> backup_state" where
  "verify_latest_backup newest out st = (case backup_list newest 100 0 False st of
      [] \<Rightarrow> (Err (ValueError ''No backups available to verify''), st)
    | r # _ \<Rightarrow>
        if files st (bk_path r) = None
        then (Err (ValueError (''Backup file missing on disk: '' @ bk_path r)), st)
        else let finish = (\<lambda>p st. bindE (case bk_checksum r of Some s \<Rightarrow> verify_checksum out p s st | None \<Rightarrow> Ok False)
            (\<lambda>good. if good then Ok (bk_id r) else Err (ValueError (''Backup '' @ int_str (bk_id r) @
               '' checksum mismatch - backup is corrupt''))))
          in if \<not> bk_encrypted r then (finish (bk_path r) st, st)
             else if bk_key r = None \<or> bk_key r = Some []
             then (Err (ValueError ''Backup encryption key ID missing''), st)
             else (case decrypt_file out (bk_path r) (the (bk_key r)) st of
                 (Inl e, st) \<Rightarrow> (Err e, st)
               | (Inr d, st) \<Rightarrow> (finish d st, unlink d st)))"

definition cleanup_old_backups ::
  "(backup_row list \<Rightarrow> backup_row list) \<Rightarrow> int \<Rightarrow> backup_state \<Rightarrow> nat \<times> backup_state" where
  "cleanup_old_backups newest cutoff st =
     (let old = filter (\<lambda>r. bk_created r < cutoff \<and> \<not> bk_deleted r) (backup_list newest 100 0 True st)
      in (length old, fold (\<lambda>r. backup_delete (bk_id r)) old st))"

section \<open>The pages\<close>

text \<open>The delete page: the record first, then the file; whether the file can be removed is the
  system's answer.\<close>

definition delete_backup_route :: "bool \<Rightarrow> int \<Rightarrow> backup_state \<Rightarrow> string \<times> backup_state" where
  "delete_backup_route can_unlink i st = (case backup_get i st of
      None \<Rightarrow> (''Backup not found.'', st)
    | Some r \<Rightarrow> (let st = backup_delete i st;
          st = (if files st (bk_path r) \<noteq> None \<and> can_unlink then unlink (bk_path r) st else st)
        in (''Backup '' @ quoted (bk_name r) @ '' deleted successfully.'', st)))"

definition create_backup_route :: "backup_ctx \<Rightarrow> string \<Rightarrow> string \<Rightarrow> int \<Rightarrow> backup_state \<Rightarrow> (bool \<times> string) \<times> backup_state" where
  "create_backup_route cx name ty uid st =
     (let name = strip name in
      if ty \<notin> {''full'', ''schema'', ''data''} then ((False, ''Invalid backup type.''), st)
      else if name = [] then ((False, ''Backup name is required.''), st)
      else (let (r, st) = create_backup cx name ty (Some uid) st in ((ok r, message r), st)))"

definition backup_pages :: "int \<Rightarrow> backup_state \<Rightarrow> int" where
  "backup_pages per_page st = (backup_count False st + per_page - 1) div per_page"

text \<open>The queue handlers.  A result, also a failed one, completes the job.\<close>

definition create_backup_handler ::
  "backup_ctx \<Rightarrow> string option \<Rightarrow> string option \<Rightarrow> int option \<Rightarrow> string \<Rightarrow> backup_state \<Rightarrow> backup_result result \<times> backup_state" where
  "create_backup_handler cx name ty uid day_stamp st =
     (let (r, st) = create_backup cx (case name of Some n \<Rightarrow> n | None \<Rightarrow> ''scheduled_'' @ day_stamp)
        (case ty of Some t \<Rightarrow> t | None \<Rightarrow> ''full'') uid st in (Ok r, st))"

section \<open>Lemmas on files\<close>

lemma takeWhile_rev_file: "CHR ''/'' \<notin> set n \<Longrightarrow> file_name (dir @ CHR ''/'' # n) = n"
  by (simp add: file_name_def takeWhile_append)

lemma suffix_of:
  assumes "CHR ''/'' \<notin> set n" "CHR ''/'' \<notin> set e" "CHR ''.'' \<notin> set e" "e \<noteq> []" "n \<noteq> []"
  shows "suffix (dir @ CHR ''/'' # n @ CHR ''.'' # e) = CHR ''.'' # e"
proof -
  have f: "file_name (dir @ CHR ''/'' # n @ CHR ''.'' # e) = n @ CHR ''.'' # e"
    using takeWhile_rev_file[of "n @ CHR ''.'' # e" dir] assms by simp
  have "takeWhile (\<lambda>c. c \<noteq> CHR ''.'') (rev (n @ CHR ''.'' # e)) = rev e"
    using assms(3) by (simp add: takeWhile_append)
  then show ?thesis using assms(4,5) unfolding suffix_def f Let_def by simp
qed

lemma with_suffix_of:
  "suffix p = x \<Longrightarrow> p = q @ x \<Longrightarrow> with_suffix p s = q @ s"
  by (simp add: with_suffix_def)

lemma set_safe_name: "c \<in> set (safe_name n) \<Longrightarrow> is_letter c \<or> is_digit c \<or> c = CHR ''_''"
  by (auto simp: safe_name_def)

lemma no_slash: "\<not> is_letter CHR ''/''" "\<not> is_digit CHR ''/''" "\<not> is_letter CHR ''.''" "\<not> is_digit CHR ''.''"
  by code_simp+

text \<open>The three paths of a backup: what \<open>pg_dump\<close> writes, the encrypted file, the decrypted copy.\<close>

lemma backup_paths:
  assumes "CHR ''/'' \<notin> set stamp" "CHR ''.'' \<notin> set stamp"
  shows "with_suffix (backup_path dir stamp name) (suffix (backup_path dir stamp name) @ ''.enc'')
      = backup_path dir stamp name @ ''.enc''"
    and "dec_path (backup_path dir stamp name @ ''.enc'') = backup_path dir stamp name @ ''.dec''"
proof -
  let ?n = "stamp @ ''_'' @ safe_name name"
  have n: "CHR ''/'' \<notin> set ?n" "CHR ''.'' \<notin> set ?n" using assms set_safe_name no_slash by auto
  have p: "backup_path dir stamp name = dir @ CHR ''/'' # ?n @ CHR ''.'' # ''backup''" by (simp add: backup_path_def)
  have s1: "suffix (backup_path dir stamp name) = ''.backup''"
    unfolding p by (rule suffix_of) (use n in auto)
  have "backup_path dir stamp name @ ''.enc'' = dir @ CHR ''/'' # (?n @ ''.backup'') @ CHR ''.'' # ''enc''" by (simp add: p)
  then have s2: "suffix (backup_path dir stamp name @ ''.enc'') = ''.enc''"
    by (simp only:) (rule suffix_of, use n in auto)
  show "with_suffix (backup_path dir stamp name) (suffix (backup_path dir stamp name) @ ''.enc'')
      = backup_path dir stamp name @ ''.enc''"
    using with_suffix_of[OF s1, of "dir @ CHR ''/'' # ?n" "''.backup.enc''"] unfolding s1 by (simp add: backup_path_def)
  have "with_suffix (backup_path dir stamp name @ ''.enc'') [] = backup_path dir stamp name"
    using with_suffix_of[OF s2] by simp
  then show "dec_path (backup_path dir stamp name @ ''.enc'') = backup_path dir stamp name @ ''.dec''"
    by (simp add: dec_path_def Let_def s1)
qed

section \<open>Lemmas on creating and restoring\<close>

lemma files_write [simp]: "files (write_file p d st) q = (if q = p then Some d else files st q)"
  by (simp add: write_file_def)

lemma files_unlink [simp]: "files (unlink p st) q = (if q = p then None else files st q)"
  by (simp add: unlink_def)

lemma unlink_write [simp]: "unlink p (write_file p d st) = unlink p st"
  by (simp add: unlink_def write_file_def)

lemma frame_files [simp]:
  "bk_rows (write_file p d st) = bk_rows st" "bk_next (write_file p d st) = bk_next st"
  "bk_rows (unlink p st) = bk_rows st" "bk_next (unlink p st) = bk_next st"
  "backup_get i (write_file p d st) = backup_get i st" "backup_get i (unlink p st) = backup_get i st"
  by (simp_all add: write_file_def unlink_def backup_get_def)

lemma frame_persist [simp]:
  "files (persist w k v st) = files st" "backup_get i (persist w k v st) = backup_get i st"
  "bk_rows (persist w k v st) = bk_rows st"
  by (auto simp: persist_def backup_get_def)

lemma fst_restore_failed [simp]: "fst (restore_failed w m st) = (False, m)"
  by (simp add: restore_failed_def)

lemma backup_add_Ok:
  "backup_add r udb st = Inr (i, st') \<Longrightarrow> i = bk_next st \<and>
    st' = st\<lparr>bk_rows := bk_rows st @ [r\<lparr>bk_id := bk_next st\<rparr>], bk_next := bk_next st + 1\<rparr>"
  by (auto simp: backup_add_def bindE_Ok_iff)

definition backup_ids :: "backup_state \<Rightarrow> bool" where
  "backup_ids st = (\<forall>r\<in>set (bk_rows st). bk_id r < bk_next st)"

lemma backup_get_new:
  assumes "backup_ids st"
  shows "backup_get (bk_next st) (st\<lparr>bk_rows := bk_rows st @ [r\<lparr>bk_id := bk_next st\<rparr>], bk_next := n\<rparr>)
    = (if bk_deleted r then None else Some (r\<lparr>bk_id := bk_next st\<rparr>))"
proof -
  have "find_row (\<lambda>r. bk_id r = bk_next st \<and> \<not> bk_deleted r) (bk_rows st) = None"
    using assms by (auto simp: find_row_None backup_ids_def)
  then show ?thesis by (simp add: backup_get_def find_row_append)
qed

text \<open>What a successful \<open>create_backup\<close> leaves: the row it inserted, the ciphertext under its path,
  and no plain copy.\<close>

lemma create_backup_Ok:
  assumes c: "create_backup cx name ty uid st = (r, st')" and ok: "ok r"
    and ids: "backup_ids st" and stamp: "CHR ''/'' \<notin> set (cx_stamp cx)" "CHR ''.'' \<notin> set (cx_stamp cx)"
    and d: "dump (cx_out cx) (get_dump_command (cx_params cx) p) = (0, err, Some plain)"
    and p: "p = backup_path (cx_dir cx) (cx_stamp cx) name"
    and k: "k = ''backup_'' @ name @ ''_'' @ cx_stamp cx"
  obtains row where "backup_id r = Some (bk_next st)" "backup_get (bk_next st) st' = Some row"
    "bk_path row = p @ ''.enc''" "bk_encrypted row" "bk_key row = Some k"
    "bk_checksum row = Some (sha256 (cx_out cx) plain)"
    "files st' (p @ ''.enc'') = Some (encrypt (cx_out cx) (derive_key (cx_out cx) k) plain)" "files st' p = None"
proof -
  let ?out = "cx_out cx"
  let ?enc = "encrypt ?out (derive_key ?out k) plain"
  let ?st1 = "write_file (p @ ''.enc'') ?enc (write_file p plain st)"
  have e: "encrypt_file ?out p k (write_file p plain st) = (Ok (p @ ''.enc'', sha256 ?out plain), ?st1)"
    unfolding encrypt_file_def using backup_paths(1)[OF stamp] by (simp add: p Let_def)
  obtain u where u: "initiator ''backup'' uid (cx_caller cx) (cx_users cx) = Inr u"
    using c ok by (cases "initiator ''backup'' uid (cx_caller cx) (cx_users cx)")
      (auto simp: create_backup_def backup_failed_def Let_def)
  define row where "row = \<lparr>bk_id = 0, bk_name = name, bk_type = ty, bk_path = p @ ''.enc'', bk_size = length ?enc,
      bk_created = cx_now cx, bk_by = u, bk_deleted = False, bk_encrypted = True,
      bk_key = Some k, bk_checksum = Some (sha256 ?out plain)\<rparr>"
  have body: "create_backup cx name ty uid st = (case backup_add row (cx_users cx) (unlink p ?st1) of
      Inl x \<Rightarrow> backup_failed (cx_notify cx) (cx_now cx) (cx_day cx) (unexpected x) name (unlink p ?st1)
    | Inr (i, st) \<Rightarrow> (\<lparr>ok = True, message = ''Backup '' @ quoted name @ '' created successfully (encrypted).'',
        backup_id = Some i\<rparr>, st))"
    unfolding create_backup_def u Let_def p[symmetric] k[symmetric] by (simp add: d e row_def)
  obtain i where a: "backup_add row (cx_users cx) (unlink p ?st1) = Inr (i, st')" and r: "backup_id r = Some i"
    using c ok unfolding body by (auto simp: backup_failed_def split: sum.splits)
  note st' = backup_add_Ok[OF a]
  have ids': "backup_ids (unlink p ?st1)" using ids by (simp add: backup_ids_def)
  have "backup_get (bk_next st) st' = Some (row\<lparr>bk_id := bk_next st\<rparr>)"
    using backup_get_new[OF ids', where r = row and n = "bk_next st + 1"] st' by (simp add: row_def)
  then show thesis
    by (intro that[of "row\<lparr>bk_id := bk_next st\<rparr>"]) (use st' r in \<open>simp_all add: row_def\<close>)
qed

lemma restore_sync_runs:
  assumes "backup_get i st = Some row" "bk_path row = p @ ''.enc''" "bk_key row = Some k" "k \<noteq> []"
    and "files st (p @ ''.enc'') = Some c" "decrypt out (derive_key out k) c = Some plain"
  shows "fst (restore_sync w True out prm caller udb i (Some u) st) =
    (case restore out (get_restore_command prm (dec_path (p @ ''.enc''))) plain of
       None \<Rightarrow> (False, ''Command '' @ quoted (py_repr_list (get_restore_command prm (dec_path (p @ ''.enc'')))) @
             '' timed out after 600 seconds'')
     | Some (code, err) \<Rightarrow> if code \<noteq> 0 then (False, ''Restore failed: '' @ err)
         else (True, ''Restore completed successfully''))"
  using assms
  by (auto simp: restore_sync_def initiator_def decrypt_file_def run_restore_def restore_failed_def Let_def
      split: option.split prod.split)

section \<open>Properties\<close>

text \<open>C24: A backup can be read back.  Given a cipher that decrypts what it encrypted with the same key, a
  backup reported as created is listed under the identifier returned, no plain copy of the dump is
  left, the integrity check before a restore passes without leaving the decrypted copy behind, and the
  restore job hands \<open>pg_restore\<close> exactly the bytes \<open>pg_dump\<close> wrote, so that it succeeds exactly
  if \<open>pg_restore\<close> exits with 0 in time.\<close>

theorem backup_round_trip:
  assumes "\<And>k d. decrypt (cx_out cx) (derive_key (cx_out cx) k) (encrypt (cx_out cx) (derive_key (cx_out cx) k) d) = Some d"
    and "CHR ''/'' \<notin> set (cx_stamp cx)" "CHR ''.'' \<notin> set (cx_stamp cx)" and "backup_ids st"
    and "dump (cx_out cx) (get_dump_command (cx_params cx) (backup_path (cx_dir cx) (cx_stamp cx) name)) = (0, err, Some plain)"
    and "create_backup cx name ty uid st = (r, st')" "ok r" and "sha256 (cx_out cx) plain \<noteq> []"
  shows "\<exists>i row. backup_id r = Some i \<and> backup_get i st' = Some row \<and>
    files st' (backup_path (cx_dir cx) (cx_stamp cx) name) = None \<and>
    restore_check (cx_out cx) row st' = (Ok None, unlink (dec_path (bk_path row)) st') \<and>
    (fst (fst (restore_sync w True (cx_out cx) (cx_params cx) caller udb i (Some u) st')) \<longleftrightarrow>
      (\<exists>e. restore (cx_out cx) (get_restore_command (cx_params cx) (dec_path (bk_path row))) plain = Some (0, e)))"
proof -
  let ?out = "cx_out cx" let ?p = "backup_path (cx_dir cx) (cx_stamp cx) name"
  define k where "k = ''backup_'' @ name @ ''_'' @ cx_stamp cx"
  obtain row where row: "backup_id r = Some (bk_next st)" "backup_get (bk_next st) st' = Some row"
    "bk_path row = ?p @ ''.enc''" "bk_encrypted row" "bk_key row = Some k" "bk_checksum row = Some (sha256 ?out plain)"
    "files st' (?p @ ''.enc'') = Some (encrypt ?out (derive_key ?out k) plain)" "files st' ?p = None"
    by (rule create_backup_Ok[OF assms(6,7,4,2,3,5) refl k_def])
  have k: "k \<noteq> []" by (simp add: k_def)
  have "restore_check ?out row st' = (Ok None, unlink (dec_path (bk_path row)) st')"
    using row(3-7) k assms(1,8)
    by (simp add: restore_check_def decrypt_file_def verify_checksum_def Let_def)
  moreover have "fst (fst (restore_sync w True ?out (cx_params cx) caller udb (bk_next st) (Some u) st')) \<longleftrightarrow>
      (\<exists>e. restore ?out (get_restore_command (cx_params cx) (dec_path (bk_path row))) plain = Some (0, e))"
    unfolding restore_sync_runs[OF row(2,3,5) k row(7) assms(1)] row(3) by (auto split: option.split prod.split)
  ultimately show ?thesis using row(1,2,8) by blast
qed

definition toy_outside :: outside where
  "toy_outside = \<lparr>dump = (\<lambda>cmd. (0, [], Some ''SELECT 1'')), restore = (\<lambda>cmd d. Some (0, [])),
     encrypt = (\<lambda>k d. k @ d),
     decrypt = (\<lambda>k c. if take (length k) c = k then Some (drop (length k) c) else None),
     derive_key = (\<lambda>k. k), sha256 = (\<lambda>d. ''sum'')\<rparr>"

definition one_user :: user_db where
  "one_user = \<lparr>accounts = [\<lparr>ac_id = 1, ac_username = ''admin'', ac_email = ''a@b.c'', ac_password = None,
     ac_role = ''admin'', ac_active = True, ac_deleted = False, ac_full_name = None, ac_department = None,
     ac_job_role = None, ac_manager = None, ac_last_login = None\<rparr>], next_account = 2, sessions = [],
     reset_tokens = [], next_token = 1, user_audit = []\<rparr>"

definition toy_ctx :: backup_ctx where
  "toy_ctx = \<lparr>cx_out = toy_outside, cx_dir = ''/b'', cx_stamp = ''20260101_020000'', cx_now = 0, cx_day = 0,
     cx_params = Url ''u'', cx_caller = LoggedIn 1, cx_users = one_user, cx_notify = (\<lambda>a. [])\<rparr>"

definition no_backups :: backup_state where
  "no_backups = \<lparr>bk_rows = [], bk_next = 1, files = (\<lambda>p. None), bk_alerts = \<lparr>m_alerts = [], m_next = 1\<rparr>,
     state_keys = [], mon_cache = new_cache 60 10\<rparr>"

lemma toy_backup: "ok (fst (create_backup toy_ctx ''nightly'' ''full'' (Some 1) no_backups))"
  by code_simp

theorem backup_round_trip_witness:
  "\<exists>i. backup_id (fst (create_backup toy_ctx ''nightly'' ''full'' (Some 1) no_backups)) = Some i \<and>
    fst (fst (restore_sync True True toy_outside (Url ''u'') NoRequest one_user i (Some 1)
      (snd (create_backup toy_ctx ''nightly'' ''full'' (Some 1) no_backups))))"
proof -
  have stamp: "CHR ''/'' \<notin> set (cx_stamp toy_ctx)" "CHR ''.'' \<notin> set (cx_stamp toy_ctx)" by (simp_all add: toy_ctx_def)
  have "\<exists>i row. backup_id (fst (create_backup toy_ctx ''nightly'' ''full'' (Some 1) no_backups)) = Some i \<and>
      backup_get i (snd (create_backup toy_ctx ''nightly'' ''full'' (Some 1) no_backups)) = Some row \<and>
      files (snd (create_backup toy_ctx ''nightly'' ''full'' (Some 1) no_backups))
        (backup_path (cx_dir toy_ctx) (cx_stamp toy_ctx) ''nightly'') = None \<and>
      restore_check (cx_out toy_ctx) row (snd (create_backup toy_ctx ''nightly'' ''full'' (Some 1) no_backups))
        = (Ok None, unlink (dec_path (bk_path row)) (snd (create_backup toy_ctx ''nightly'' ''full'' (Some 1) no_backups))) \<and>
      (fst (fst (restore_sync True True (cx_out toy_ctx) (cx_params toy_ctx) NoRequest one_user i (Some 1)
          (snd (create_backup toy_ctx ''nightly'' ''full'' (Some 1) no_backups)))) \<longleftrightarrow>
        (\<exists>e. restore (cx_out toy_ctx) (get_restore_command (cx_params toy_ctx) (dec_path (bk_path row))) ''SELECT 1'' = Some (0, e)))"
    by (rule backup_round_trip[where err = "[]" and uid = "Some 1"])
      (use stamp toy_backup in \<open>simp_all add: toy_ctx_def toy_outside_def no_backups_def backup_ids_def\<close>)
  then show ?thesis by (auto simp: toy_ctx_def toy_outside_def)
qed

text \<open>The run of one session from its connection to the start of its child, the idle system, and the
  world after a crash in the middle of a restore and a second restore.\<close>

definition quiet :: lock_world where
  "quiet = \<lparr>holder = None, phase_of = (\<lambda>i. Idle), child = (\<lambda>i. False), severed = (\<lambda>i. False)\<rparr>"

definition restoring :: "nat \<Rightarrow> lock_world \<Rightarrow> lock_world" where
  "restoring i s = enter i Running (spawn i True (enter i Holding
     ((enter i Cleaned (give_up i (enter i Opened s)))\<lparr>holder := Some i\<rparr>)))"

definition two_children :: lock_world where
  "two_children = restoring 1 (enter 0 Closed (give_up 0 (restoring 0 quiet)))"

lemma lock_reach_trans: "lock_reach s t \<Longrightarrow> lock_reach r s \<Longrightarrow> lock_reach r t"
  by (induction rule: lock_reach.induct) (auto intro: lock_reach.intros)

lemma restoring_reached:
  assumes "phase_of s i = Idle" "holder s = None" "\<not> severed s i"
  shows "lock_reach s (restoring i s)"
proof -
  let ?a = "enter i Opened s" let ?b = "enter i Cleaned (give_up i ?a)"
  let ?c = "enter i Holding (?b\<lparr>holder := Some i\<rparr>)"
  have "lock_step s ?a" by (rule lock_step.connect) (simp add: assms)
  moreover have "lock_step ?a ?b" by (rule lock_step.cleanup) simp
  moreover have "lock_step ?b ?c" by (rule lock_step.acquired) (simp_all add: assms)
  moreover have "lock_step ?c (restoring i s)" unfolding restoring_def by (rule lock_step.start) simp
  ultimately show ?thesis by (meson lock_reach.intros)
qed

lemma two_children_reached: "lock_reach quiet two_children"
proof -
  let ?r = "restoring 0 quiet" let ?c = "enter 0 Closed (give_up 0 ?r)"
  have "lock_reach quiet ?r" by (rule restoring_reached) (simp_all add: quiet_def)
  moreover have "lock_step ?r ?c" by (rule lock_step.crash) (simp add: restoring_def)
  moreover have "lock_reach ?c two_children" unfolding two_children_def
    by (rule restoring_reached) (simp_all add: restoring_def quiet_def)
  ultimately show ?thesis by (meson lock_reach.intros lock_reach_trans)
qed

lemma two_children: "child two_children 0" "child two_children 1" "stray two_children 0" "\<not> stray two_children 1"
  by (simp_all add: two_children_def restoring_def quiet_def stray_def)

text \<open>C25: The advisory lock serialises the restores of the sessions that live, and not those of the
  sessions that died.  However the sessions of any number of pre-checks, threads and queue workers
  interleave, including the clean-up of a presumed stale lock that each of them starts with, crashes at
  any point and lock connections that the server drops: a running \<open>pg_restore\<close> whose session is
  alive and connected holds the lock, and two \<open>pg_restore\<close>s run together only when at least one of
  them is the child of a session that crashed or lost its connection.  That case is real: from the idle
  system a crash leads to two of them running at once, the one that survived and the next one.\<close>

theorem one_restore_at_a_time:
  assumes "lock_reach quiet s"
  shows "(\<forall>i. child s i \<and> \<not> stray s i \<longrightarrow> phase_of s i = Running \<and> holder s = Some i) \<and>
    (\<forall>i j. child s i \<and> child s j \<and> i \<noteq> j \<longrightarrow> stray s i \<or> stray s j) \<and>
    (\<exists>t. lock_reach quiet t \<and> child t 0 \<and> child t 1 \<and> stray t 0 \<and> \<not> stray t 1)"
proof -
  have inv: "keeps_lock s i" for i
    by (rule keeps_lock_reach[OF assms]) (simp add: keeps_lock_def locks_def quiet_def)
  have alive: "phase_of s i = Running \<and> holder s = Some i" if "child s i" "\<not> stray s i" for i
    using inv[of i] that by (auto simp: keeps_lock_def locks_def stray_def)
  have "stray s i \<or> stray s j" if "child s i" "child s j" "i \<noteq> j" for i j
    using alive that by (metis option.inject)
  moreover have "\<exists>t. lock_reach quiet t \<and> child t 0 \<and> child t 1 \<and> stray t 0 \<and> \<not> stray t 1"
    using two_children_reached two_children by blast
  ultimately show ?thesis using alive by blast
qed

theorem one_restore_at_a_time_witness:
  "\<not> stray (restoring 0 quiet) 0 \<and> holder (restoring 0 quiet) = Some 0"
proof -
  have "child (restoring 0 quiet) 0" "\<not> stray (restoring 0 quiet) 0"
    by (simp_all add: restoring_def stray_def quiet_def)
  then show ?thesis using one_restore_at_a_time[OF restoring_reached[of quiet 0]] by (simp add: quiet_def)
qed


text \<open>A scheduled backup is never made.  The schedule enqueues the job without a user, the worker runs
  it outside a request, and there the look-up of the current user fails before anything is dumped: no
  row and no file appears.  The handler still returns a result, so the queue marks the job completed.\<close>

theorem scheduled_backup_never_made:
  assumes "cx_caller cx = NoRequest"
  shows "\<exists>r st'. create_backup_handler cx name ty None today_text st = (Ok r, st') \<and> \<not> ok r \<and>
    bk_rows st' = bk_rows st \<and> files st' = files st"
  using assms
  by (simp add: create_backup_handler_def create_backup_def initiator_def backup_failed_def alert_backup_failure_def
      split: option.split)

theorem scheduled_backup_never_made_witness:
  "\<exists>r st'. create_backup_handler (toy_ctx\<lparr>cx_caller := NoRequest\<rparr>) (Some ''daily_20260101'') None None ''20260101''
      no_backups = (Ok r, st') \<and> \<not> ok r \<and> bk_rows st' = []"
  using scheduled_backup_never_made[of "toy_ctx\<lparr>cx_caller := NoRequest\<rparr>" "Some ''daily_20260101''" None "''20260101''" no_backups]
  by (auto simp: no_backups_def)

section \<open>Retention\<close>

lemma fold_delete_rows: "bk_rows (fold (\<lambda>r. backup_delete (bk_id r)) old st) =
    map (\<lambda>r. r\<lparr>bk_deleted := bk_deleted r \<or> bk_id r \<in> bk_id ` set old\<rparr>) (bk_rows st)"
proof (induction old arbitrary: st)
  case Nil then show ?case by simp
next
  case (Cons a old)
  show ?case unfolding fold.simps comp_def Cons.IH
    by (auto simp: backup_delete_def update_where_def)
qed

lemma newer_outside:
  assumes "sorted_wrt (\<lambda>a b. f b \<le> (f a :: int)) xs" and "r \<in> set (take n xs)"
  shows "length (filter (\<lambda>x. f r < f x) xs) < n"
proof -
  from assms(2) obtain i where i: "i < n" "i < length xs" "xs ! i = r" by (auto simp: in_set_conv_nth)
  have "f x \<le> f r" if x: "x \<in> set (drop i xs)" for x
  proof -
    from x obtain j where "j < length xs - i" "x = xs ! (i + j)" by (auto simp: in_set_conv_nth)
    then have j: "i + j < length xs" "x = xs ! (i + j)" by simp_all
    show ?thesis
    proof (cases "j = 0")
      case True then show ?thesis using j(2) i(3) by simp
    next
      case False then show ?thesis using sorted_wrt_nth_less[OF assms(1), of i "i + j"] j i(3) by simp
    qed
  qed
  then have "filter (\<lambda>x. f r < f x) (drop i xs) = []" by (force simp: filter_empty_conv)
  then have "length (filter (\<lambda>x. f r < f x) xs) = length (filter (\<lambda>x. f r < f x) (take i xs))"
    by (metis append_Nil2 append_take_drop_id filter_append)
  also have "\<dots> \<le> i" by (rule order_trans[OF length_filter_le]) simp
  finally show ?thesis using i(1) by simp
qed

text \<open>The retention job sees the hundred most recent records only, deleted ones included.  It deletes
  exactly the live records older than the cutoff among those; so with at most a hundred records it
  does what it should, but a record with a hundred or more newer ones is never deleted, however old.\<close>

theorem retention_misses_oldest:
  assumes "\<And>xs. mset (newest xs) = mset xs" and "\<And>xs. sorted_wrt (\<lambda>a b. bk_created b \<le> bk_created a) (newest xs)"
    and "distinct (map bk_id (bk_rows st))" and "cleanup_old_backups newest cutoff st = (n, st')"
  shows "bk_rows st' = map (\<lambda>r. r\<lparr>bk_deleted := bk_deleted r \<or>
      (bk_created r < cutoff \<and> r \<in> set (take 100 (newest (bk_rows st))))\<rparr>) (bk_rows st) \<and>
    (length (bk_rows st) \<le> 100 \<longrightarrow> set (take 100 (newest (bk_rows st))) = set (bk_rows st)) \<and>
    (\<forall>r. 100 \<le> length (filter (\<lambda>x. bk_created r < bk_created x) (bk_rows st)) \<longrightarrow>
      r \<notin> set (take 100 (newest (bk_rows st))))"
proof (intro conjI allI impI)
  define seen where "seen = take 100 (newest (bk_rows st))"
  define old where "old = filter (\<lambda>r. bk_created r < cutoff \<and> \<not> bk_deleted r) seen"
  have sub: "set seen \<subseteq> set (bk_rows st)"
    using set_take_subset[of 100 "newest (bk_rows st)"] assms(1)[of "bk_rows st"] unfolding seen_def
    by (metis set_mset_mset)
  have st': "bk_rows st' = map (\<lambda>r. r\<lparr>bk_deleted := bk_deleted r \<or> bk_id r \<in> bk_id ` set old\<rparr>) (bk_rows st)"
    using assms(4) by (auto simp: cleanup_old_backups_def backup_list_def Let_def fold_delete_rows old_def seen_def)
  have "(bk_deleted r \<or> bk_id r \<in> bk_id ` set old) = (bk_deleted r \<or> (bk_created r < cutoff \<and> r \<in> set seen))"
    if "r \<in> set (bk_rows st)" for r
  proof -
    have "bk_id r \<in> bk_id ` set old \<longleftrightarrow> r \<in> set old"
      using assms(3) sub that by (auto simp: old_def distinct_map dest: inj_onD)
    then show ?thesis by (auto simp: old_def)
  qed
  then show "bk_rows st' = map (\<lambda>r. r\<lparr>bk_deleted := bk_deleted r \<or>
      (bk_created r < cutoff \<and> r \<in> set (take 100 (newest (bk_rows st))))\<rparr>) (bk_rows st)"
    unfolding st' seen_def[symmetric] by (intro map_cong) auto
next
  assume "length (bk_rows st) \<le> 100"
  then show "set (take 100 (newest (bk_rows st))) = set (bk_rows st)"
    using assms(1)[of "bk_rows st"] by (metis mset_eq_length mset_eq_setD take_all)
next
  fix r :: backup_row
  assume "100 \<le> length (filter (\<lambda>x. bk_created r < bk_created x) (bk_rows st))"
  then have "100 \<le> length (filter (\<lambda>x. bk_created r < bk_created x) (newest (bk_rows st)))"
    using assms(1)[of "bk_rows st"] by (metis mset_filter size_mset)
  then show "r \<notin> set (take 100 (newest (bk_rows st)))"
    using newer_outside[OF assms(2), of r 100 "bk_rows st"] by auto
qed

definition nightly :: "int \<Rightarrow> backup_row" where
  "nightly i = \<lparr>bk_id = i, bk_name = int_str i, bk_type = ''full'', bk_path = int_str i, bk_size = 1, bk_created = i,
     bk_by = 1, bk_deleted = False, bk_encrypted = True, bk_key = None, bk_checksum = None\<rparr>"

lemma newest_first:
  "mset (rev (sort_key bk_created xs)) = mset xs"
  "sorted_wrt (\<lambda>a b. bk_created b \<le> bk_created a) (rev (sort_key bk_created xs))"
  using sorted_sort_key[of bk_created xs] by (simp_all add: sorted_wrt_rev sorted_map)

theorem retention_misses_oldest_witness:
  "bk_rows (snd (cleanup_old_backups (\<lambda>xs. rev (sort_key bk_created xs)) 50 (no_backups\<lparr>bk_rows := [nightly 1, nightly 99]\<rparr>)))
    = [(nightly 1)\<lparr>bk_deleted := True\<rparr>, nightly 99]"
proof -
  let ?st = "no_backups\<lparr>bk_rows := [nightly 1, nightly 99]\<rparr>"
  have d: "distinct (map bk_id (bk_rows ?st))" by (simp add: nightly_def)
  show ?thesis
    using retention_misses_oldest[OF newest_first d prod.collapse[symmetric], of 50] by (simp add: nightly_def)
qed

end
