(* ===== verification/Api.thy ===== *)
theory Api
  imports Catalog Orders Idempotency Cache
begin

text \<open>The REST interface: \<open>app/routes/api.py\<close>.  A shop is the catalog, the rest of the
  database and the caches; a handler validates, calls a service, drops the cached answers and answers
  with the pair of \<open>api_response\<close> or \<open>api_error\<close>.  Writing handlers run under the role
  check and the idempotency decorator; the rate limits and the login check, which keep a request from
  reaching a handler, are not modelled.\<close>

section \<open>The shop\<close>

text \<open>What the caches hold for the handlers of this file and of the pages (theory Pages).\<close>

record live_figures =
  lv_value :: int
  lv_reorder :: nat
  lv_critical :: nat
  lv_warning :: nat
  lv_units :: int
  lv_health :: int
  lv_day :: int

text \<open>What the pages of \<open>routes/ui.py\<close> keep in the caches: the board of the purchase orders.\<close>

record board_row =
  br_order :: purchase_order
  br_supplier :: "string option"
  br_product :: "string option"
  br_sku :: "string option"

record receipt_row =
  rr_receipt :: goods_receipt
  rr_number :: string
  rr_product :: string
  rr_sku :: string
  rr_supplier :: string
  rr_user :: string

record po_board =
  bd_suppliers :: "(int \<times> string) list"
  bd_products :: "(int \<times> string \<times> string) list"
  bd_counts :: "(po_status \<times> nat) list"
  bd_draft :: "board_row list"
  bd_approved :: "board_row list"
  bd_in_transit :: "board_row list"
  bd_received :: "board_row list"
  bd_receipts :: "receipt_row list"

datatype api_value =
    AProduct "decorated option"
  | APage product_page
  | ASuppliers "(supplier_row \<times> nat \<times> string result \<times> string) list"
  | ASupplier "(supplier_row \<times> string result \<times> string) option"
  | ATotals "(int \<times> int) list"
  | AFigures live_figures
  | AInventory product_page "string list" "string list"
  | AAlerts "decorated list" nat
  | ABoard po_board
  | AMoves "movement list" int int int int

text \<open>The product and supplier tables are those of the catalog; \<open>shop_db\<close> is the database as the
  movement and order procedures see it, and \<open>with_db\<close> the shop after one of them committed.  The audit
  trigger of the products logs each row the procedure changed.\<close>

record shop_state =
  sh_catalog :: catalog
  sh_db :: po_db
  sh_caches :: "api_value caches"

definition shop_db :: "shop_state \<Rightarrow> po_db" where
  "shop_db s = (sh_db s)\<lparr>products := map stock_view (product_rows (sh_catalog s)),
     supplier_ids := map su_id (supplier_rows (sh_catalog s))\<rparr>"

definition levels_from :: "po_db \<Rightarrow> product_row \<Rightarrow> product_row" where
  "levels_from db r = (case find_product (pr_id r) db of None \<Rightarrow> r
     | Some p \<Rightarrow> r\<lparr>pr_stock := current_stock p, pr_on_order := on_order p\<rparr>)"

definition levels_differ :: "po_db \<Rightarrow> product_row \<Rightarrow> bool" where
  "levels_differ db r = (pr_stock (levels_from db r) \<noteq> pr_stock r \<or> pr_on_order (levels_from db r) \<noteq> pr_on_order r)"

definition with_db :: "po_db \<Rightarrow> shop_state \<Rightarrow> shop_state" where
  "with_db db s = (let rows = product_rows (sh_catalog s) in
     s\<lparr>sh_db := db\<lparr>products := products (sh_db s), supplier_ids := supplier_ids (sh_db s)\<rparr>,
       sh_catalog := (sh_catalog s)\<lparr>product_rows := map (levels_from db) rows,
       trail := trail (sh_catalog s) @
         map (\<lambda>r. (''product_updated'', pr_id r)) (filter (levels_differ db) rows)\<rparr>\<rparr>)"

definition with_bust :: "(api_value caches \<Rightarrow> nat \<times> api_value caches) \<Rightarrow> shop_state \<Rightarrow> shop_state" where
  "with_bust bust s = s\<lparr>sh_caches := snd (bust (sh_caches s))\<rparr>"

section \<open>Answers of the writing handlers\<close>

text \<open>\<open>request.get_json(silent=True) or {}\<close>: None stands for a body that is no JSON.\<close>

definition json_body :: "pyval option \<Rightarrow> pyval" where
  "json_body body = (case body of None \<Rightarrow> PDict [] | Some v \<Rightarrow> py_or v (PDict []))"

definition as_dict :: "pyval \<Rightarrow> payload result" where
  "as_dict v = (case v of PDict d \<Rightarrow> Ok d | _ \<Rightarrow> Err (AttributeError ''object has no attribute get''))"

definition answer :: "payload \<times> int \<Rightarrow> view_result" where
  "answer p = RespTuple (fst p) (snd p)"

definition validation_error :: "pyexc \<Rightarrow> view_result" where
  "validation_error e = answer (api_error ''VALIDATION_ERROR'' (exc_text e) 422 None)"

definition done_answer :: "int \<Rightarrow> int \<Rightarrow> string \<Rightarrow> view_result" where
  "done_answer i code message = answer (api_response (PDict [(''id'', PInt i)]) code (Some message) [])"

definition already_exists :: "pyexc \<Rightarrow> bool" where
  "already_exists e = contains (lower (exc_text e)) ''already exists''"

text \<open>\<open>except (Cls, ...)\<close>\<close>

definition of_class :: "string list \<Rightarrow> pyexc \<Rightarrow> bool" where
  "of_class names e = (case e of DomainError c m \<Rightarrow> c \<in> set names | POError m \<Rightarrow> ''POError'' \<in> set names | _ \<Rightarrow> False)"

text \<open>An id beyond int4 has no procedure to match.\<close>

definition product_by_id :: "int \<Rightarrow> shop_state \<Rightarrow> product_row option result" where
  "product_by_id i s = bindE (sql_int (PInt i)) (\<lambda>_. Ok (sp_product_find i (sh_catalog s)))"

section \<open>Products and suppliers\<close>

definition create_product :: "catalog \<Rightarrow> pyval option \<Rightarrow> shop_state \<Rightarrow> view_result result \<times> shop_state" where
  "create_product seen body s = (case as_dict (json_body body) of
       Inl e \<Rightarrow> (Ok (validation_error e), s)
     | Inr p \<Rightarrow> (case product_create seen p (sh_catalog s) of
         (Inl e, cat) \<Rightarrow> (Ok (if of_class [''ProductError''] e \<and> already_exists e
            then answer (api_error ''DUPLICATE_SKU'' (exc_text e) 409 None) else validation_error e),
            s\<lparr>sh_catalog := cat\<rparr>)
       | (Inr i, cat) \<Rightarrow> (Ok (done_answer i 201 ''Product created.''),
            with_bust cache_bust_products (s\<lparr>sh_catalog := cat\<rparr>))))"

definition product_not_found :: view_result where
  "product_not_found = answer (api_error ''PRODUCT_NOT_FOUND'' ''Product not found.'' 404 None)"

definition update_product :: "int \<Rightarrow> pyval option \<Rightarrow> shop_state \<Rightarrow> view_result result \<times> shop_state" where
  "update_product i body s = (case product_by_id i s of
       Inl e \<Rightarrow> (Err e, s)
     | Inr None \<Rightarrow> (Ok product_not_found, s)
     | Inr (Some r) \<Rightarrow> (case as_dict (json_body body) of
         Inl e \<Rightarrow> (Ok (validation_error e), s)
       | Inr p \<Rightarrow> (case product_update i p (sh_catalog s) of
           (Inl e, cat) \<Rightarrow> (Ok (validation_error e), s\<lparr>sh_catalog := cat\<rparr>)
         | (Inr u, cat) \<Rightarrow> (Ok (done_answer i 200 ''Product updated.''),
              with_bust cache_bust_products (s\<lparr>sh_catalog := cat\<rparr>)))))"

definition delete_product :: "int \<Rightarrow> shop_state \<Rightarrow> view_result result \<times> shop_state" where
  "delete_product i s = (case product_by_id i s of
       Inl e \<Rightarrow> (Err e, s)
     | Inr None \<Rightarrow> (Ok product_not_found, s)
     | Inr (Some r) \<Rightarrow> (Ok (answer (api_response PNone 204 (Some ''Product deleted.'') [])),
         with_bust cache_bust_products (s\<lparr>sh_catalog := product_delete i (sh_catalog s)\<rparr>)))"

definition create_supplier :: "pyval option \<Rightarrow> shop_state \<Rightarrow> view_result result \<times> shop_state" where
  "create_supplier body s = (case as_dict (json_body body) of
       Inl e \<Rightarrow> (Ok (validation_error e), s)
     | Inr p \<Rightarrow> (case supplier_create p (sh_catalog s) of
         (Inl e, cat) \<Rightarrow> (Ok (validation_error e), s\<lparr>sh_catalog := cat\<rparr>)
       | (Inr i, cat) \<Rightarrow> (Ok (done_answer i 201 ''Supplier created.''),
            with_bust cache_bust_suppliers (s\<lparr>sh_catalog := cat\<rparr>))))"

section \<open>Orders and movements\<close>

definition create_purchase_order ::
  "(string \<Rightarrow> bool) \<Rightarrow> pyval option \<Rightarrow> shop_state \<Rightarrow> view_result result \<times> shop_state" where
  "create_purchase_order date_ok body s =
     (case bindE (as_dict (json_body body)) (\<lambda>p. po_service_create date_ok p (shop_db s)) of
        Inl e \<Rightarrow> (Ok (if of_class [''POServiceError'', ''POError''] e \<and> already_exists e
           then answer (api_error ''DUPLICATE_PO_NUMBER'' (exc_text e) 409 None) else validation_error e), s)
      | Inr (i, db) \<Rightarrow> (Ok (done_answer i 201 ''Purchase order created.''),
           with_bust cache_bust_purchase_orders (with_db db s)))"

text \<open>The keyword arguments of \<open>MovementService.record\<close>, in the order the call evaluates them.\<close>

definition movement_args :: "payload \<Rightarrow> (int \<times> string \<times> int) result" where
  "movement_args p =
     bindE (int_or0 p ''product_id'') (\<lambda>pid.
     bindE (py_strip (dget_or p ''type'' (PStr []))) (\<lambda>ty.
     bindE (int_or0 p ''quantity'') (\<lambda>q. Ok (pid, upper ty, q))))"

text \<open>\<open>(reference or \"\").strip()\<close> is evaluated after the checks, inside the service.\<close>

definition text_arg :: "pyval \<Rightarrow> string option result" where
  "text_arg v = (case py_or v (PStr []) of PStr t \<Rightarrow> Ok (Some t)
     | _ \<Rightarrow> Err (AttributeError ''object has no attribute strip''))"

text \<open>\<open>seen\<close> is the database as the early product read found it; that read fails for an id beyond
  int4.\<close>

definition movement_call ::
  "bool \<Rightarrow> po_db \<Rightarrow> int \<Rightarrow> payload \<Rightarrow> po_db \<Rightarrow> int result \<times> po_db" where
  "movement_call audit_ok seen uid p db = (case movement_args p of
       Inl e \<Rightarrow> (Err e, db)
     | Inr (pid, ty, q) \<Rightarrow>
         (let rq = \<lparr>rq_product = Some pid, rq_type = ty, rq_quantity = Some q, rq_reference = None,
                rq_notes = None, movement_req.rq_user = Some uid\<rparr> in
          case bindE (precheck_movement rq seen) (\<lambda>_.
               bindE (text_arg (dget p ''reference'')) (\<lambda>ref.
               bindE (text_arg (dget p ''notes'')) (\<lambda>nts. Ok (ref, nts)))) of
            Inl e \<Rightarrow> (Err (if e = MovementError ''Product not found.'' \<and> \<not> int4 pid then no_function else e), db)
          | Inr (ref, nts) \<Rightarrow> record_movement audit_ok seen (rq\<lparr>rq_reference := ref, rq_notes := nts\<rparr>) db))"

definition create_movement ::
  "bool \<Rightarrow> po_db \<Rightarrow> int \<Rightarrow> pyval option \<Rightarrow> shop_state \<Rightarrow> view_result result \<times> shop_state" where
  "create_movement audit_ok seen uid body s = (case as_dict (json_body body) of
       Inl e \<Rightarrow> (Ok (validation_error e), s)
     | Inr p \<Rightarrow> (case movement_call audit_ok seen uid p (shop_db s) of
         (Inl e, db) \<Rightarrow> (Ok (validation_error e), with_db db s)
       | (Inr i, db) \<Rightarrow> (Ok (done_answer i 201 ''Movement recorded.''),
            with_bust cache_bust_movements (with_db db s))))"

section \<open>Reading through the cache\<close>

datatype 'a reply = Found 'a | Refused payload int

definition refused :: "payload \<times> int \<Rightarrow> 'a reply" where
  "refused p = Refused (fst p) (snd p)"

text \<open>The clock is read at most three times by \<open>get_or_set\<close>.\<close>

type_synonym clock = "real \<times> real \<times> real"

definition cached_read ::
  "clock \<Rightarrow> string \<Rightarrow> api_value result \<Rightarrow> shop_state \<Rightarrow> api_value result \<times> shop_state" where
  "cached_read ts k producer s = (case ts of (t1, t2, t3) \<Rightarrow>
     case cache_get_or_set t1 t2 t3 k producer (api_cache (sh_caches s)) of (r, c) \<Rightarrow>
       (r, s\<lparr>sh_caches := (sh_caches s)\<lparr>api_cache := c\<rparr>\<rparr>))"

definition absent :: "api_value \<Rightarrow> bool" where
  "absent v = (case v of AProduct None \<Rightarrow> True | ASupplier None \<Rightarrow> True | _ \<Rightarrow> False)"

text \<open>\<open>if not row: return api_error(...)\<close>; an exception of the producer is not caught.\<close>

definition found_or ::
  "payload \<times> int \<Rightarrow> api_value result \<times> shop_state \<Rightarrow> api_value reply outcome \<times> shop_state" where
  "found_or err r = ((case fst r of Inl e \<Rightarrow> Raised e
     | Inr v \<Rightarrow> Returned (if absent v then refused err else Found v)), snd r)"

definition get_product ::
  "clock \<Rightarrow> (real \<times> real) result \<Rightarrow> int \<Rightarrow> shop_state \<Rightarrow> api_value reply outcome \<times> shop_state" where
  "get_product ts pcts i s = found_or (api_error ''PRODUCT_NOT_FOUND'' ''Product not found.'' 404 None)
     (cached_read ts (''product:'' @ int_str i)
        (bindE (product_by_id i s) (\<lambda>_. Ok (AProduct (repo_product_find pcts i (sh_catalog s))))) s)"

definition get_supplier :: "clock \<Rightarrow> int \<Rightarrow> shop_state \<Rightarrow> api_value reply outcome \<times> shop_state" where
  "get_supplier ts i s = found_or (api_error ''SUPPLIER_NOT_FOUND'' ''Supplier not found.'' 404 None)
     (cached_read ts (''supplier:'' @ int_str i)
        (bindE (sql_int (PInt i)) (\<lambda>_. Ok (ASupplier (repo_supplier_find i (sh_catalog s))))) s)"

definition always :: "api_value result \<times> shop_state \<Rightarrow> api_value reply outcome \<times> shop_state" where
  "always r = ((case fst r of Inl e \<Rightarrow> Raised e | Inr v \<Rightarrow> Returned (Found v)), snd r)"

definition list_suppliers ::
  "clock \<Rightarrow> (supplier_row list \<Rightarrow> supplier_row list) \<Rightarrow> shop_state \<Rightarrow> api_value reply outcome \<times> shop_state" where
  "list_suppliers ts by_name s =
     always (cached_read ts ''suppliers:all'' (Ok (ASuppliers (supplier_list by_name (sh_catalog s)))) s)"

text \<open>Query parameters are texts; \<open>request.args.get\<close> answers the first of a name.\<close>

type_synonym query_args = "(string \<times> string) list"

definition arg_text :: "query_args \<Rightarrow> string \<Rightarrow> string \<Rightarrow> string" where
  "arg_text args k d = (case map_of args k of Some v \<Rightarrow> v | None \<Rightarrow> d)"

text \<open>\<open>int(request.args.get(k, d))\<close>, or \<open>d\<close> when it raises.\<close>

definition lenient_int :: "query_args \<Rightarrow> string \<Rightarrow> int \<Rightarrow> int" where
  "lenient_int args k d = (case map_of args k of None \<Rightarrow> d
     | Some v \<Rightarrow> (case parse_int v of Some i \<Rightarrow> i | None \<Rightarrow> d))"

definition product_query :: "query_args \<Rightarrow> list_query" where
  "product_query args = \<lparr>lq_search = arg_text args ''search'' [], lq_category = arg_text args ''category'' [],
     lq_warehouse = arg_text args ''warehouse'' [], lq_status = arg_text args ''stock_status'' []\<rparr>"

definition products_key :: "list_query \<Rightarrow> int \<Rightarrow> int \<Rightarrow> string" where
  "products_key q page per_page = make_key [(''prefix'', KStr ''products''), (''search'', KStr (lq_search q)),
     (''category'', KStr (lq_category q)), (''warehouse'', KStr (lq_warehouse q)),
     (''stock_status'', KStr (lq_status q)), (''page'', KInt page), (''per_page'', KInt per_page)]"

text \<open>The service raises the page size to five before it computes the offset, which must be an int4.\<close>

definition api_list_products ::
  "clock \<Rightarrow> (product_row list \<Rightarrow> product_row list) \<Rightarrow> (real \<times> real) result \<Rightarrow> query_args \<Rightarrow> shop_state \<Rightarrow>
   api_value reply outcome \<times> shop_state" where
  "api_list_products ts by_sku pcts args s =
     (let page = max (lenient_int args ''page'' 1) 1;
          per_page = min (max (lenient_int args ''per_page'' 20) 1) 100; q = product_query args
      in always (cached_read ts (products_key q page per_page)
           (bindE (sql_int (PInt ((page - 1) * min 100 (max 5 per_page)))) (\<lambda>_.
            Ok (APage (list_products by_sku pcts q page per_page (sh_catalog s))))) s))"

section \<open>Figures\<close>

text \<open>\<open>sp_movement_daily_totals\<close>: the movements of the last days, by day.\<close>

definition daily_totals :: "int \<Rightarrow> 'a inv_db_scheme \<Rightarrow> (int \<times> int) list" where
  "daily_totals days db =
     (let ms = filter (\<lambda>m. today db - (days - 1) \<le> mv_day m \<and> \<not> mv_deleted m) (movements db)
      in map (\<lambda>d. (d, sum_list (map mv_quantity (filter (\<lambda>m. mv_day m = d) ms))))
           (sort (remdups (map mv_day ms))))"

definition recent_movements :: "clock \<Rightarrow> query_args \<Rightarrow> shop_state \<Rightarrow> api_value reply outcome \<times> shop_state" where
  "recent_movements ts args s =
     (let days = min (max (lenient_int args ''days'' 14) 1) 365
      in always (cached_read ts (''movements:recent:'' @ int_str days)
           (Ok (ATotals (daily_totals days (sh_db s)))) s))"

text \<open>\<open>critical\<close> is the second of \<open>threshold_pcts()\<close>, in percent.  The queries read the whole table.\<close>

definition live_load :: "real \<Rightarrow> catalog \<Rightarrow> 'a inv_db_scheme \<Rightarrow> live_figures" where
  "live_load critical cat db =
     (let rows = product_rows cat; ratio = critical / 100;
          want = (\<lambda>r. pr_stock r \<le> pr_reorder r \<and> pr_on_order r \<le> 0);
          value = sum_list (map (\<lambda>r. of_int (pr_stock r) * amount (pr_price r)) rows);
          n = length rows; reorder = length (filter want rows);
          critical_n = length (filter (\<lambda>r. of_int (pr_stock r) \<le> of_int (pr_reorder r) * ratio \<and> pr_on_order r \<le> 0) rows);
          warning_n = length (filter (\<lambda>r. of_int (pr_reorder r) * ratio < of_int (pr_stock r) \<and> want r) rows);
          units = sum_list (map mv_quantity (filter (\<lambda>m. mv_day m = today db \<and> \<not> mv_deleted m) (movements db)));
          healthy = max (int n - int reorder) 0;
          health = (if n = 0 then 0 else round_even (of_int healthy / of_int (max (int n) 1) * 100))
      in \<lparr>lv_value = round_even value, lv_reorder = reorder, lv_critical = critical_n, lv_warning = warning_n,
          lv_units = units, lv_health = min health 100, lv_day = today db\<rparr>)"

definition dashboard_live :: "clock \<Rightarrow> real \<Rightarrow> shop_state \<Rightarrow> api_value reply outcome \<times> shop_state" where
  "dashboard_live ts critical s =
     always (cached_read ts ''dashboard:live'' (Ok (AFigures (live_load critical (sh_catalog s) (sh_db s)))) s)"

text \<open>The health check: the name \<open>LOGGER\<close> of its error path is not defined in the module.\<close>

definition health :: "bool \<Rightarrow> view_result result" where
  "health db_up = (if db_up
     then Ok (answer (api_response (PDict [(''status'', PStr ''healthy''), (''service'', PStr ''inventory-api''),
        (''database'', PStr ''connected'')]) 200 None []))
     else Err (NameError ''LOGGER''))"

section \<open>Movement lists and exports\<close>

text \<open>\<open>iso_ok\<close>, \<open>day_of\<close> and \<open>order_by\<close> are those of the theory Ledger; \<open>cast_ok\<close> says whether the
  server casts a text to a date.\<close>

record sql_env =
  iso_ok :: "string \<Rightarrow> bool"
  cast_ok :: "string \<Rightarrow> bool"
  day_of :: "string \<Rightarrow> int"
  order_by :: "string \<Rightarrow> bool \<Rightarrow> movement list \<Rightarrow> movement list"

definition type_args :: "query_args \<Rightarrow> string list option" where
  "type_args args =
     (let ts = map snd (filter (\<lambda>(k, v). k = ''type'') args);
          ts = (case ts of [t] \<Rightarrow> if CHR '','' \<in> set t then split_on CHR '','' t else ts | _ \<Rightarrow> ts);
          ts = filter (\<lambda>t. t \<noteq> []) ts
      in if ts = [] then None else Some ts)"

definition text_or_none :: "query_args \<Rightarrow> string \<Rightarrow> string option" where
  "text_or_none args k = (case map_of args k of Some v \<Rightarrow> if v = [] then None else Some v | None \<Rightarrow> None)"

text \<open>The handlers answer this error directly, with the code and status of a \<open>MovementError\<close>.\<close>

definition int_arg :: "query_args \<Rightarrow> string \<Rightarrow> int option result" where
  "int_arg args k = (case text_or_none args k of None \<Rightarrow> Ok None
     | Some v \<Rightarrow> (case parse_int v of Some i \<Rightarrow> Ok (Some i)
         | None \<Rightarrow> Err (MovementError (k @ '' must be an integer''))))"

definition sort_args :: "query_args \<Rightarrow> string \<times> string" where
  "sort_args args = (arg_text args ''sort_by'' ''created_at'', arg_text args ''sort_order'' ''desc'')"

definition int4_opt :: "int option \<Rightarrow> bool" where
  "int4_opt v = (case v of None \<Rightarrow> True | Some i \<Rightarrow> int4 i)"

definition casts :: "sql_env \<Rightarrow> movement_filter \<Rightarrow> bool" where
  "casts env f = (int4_opt (mf_product f) \<and> int4_opt (mf_user f) \<and>
     (case mf_from f of None \<Rightarrow> True | Some d \<Rightarrow> cast_ok env d) \<and> (case mf_to f of None \<Rightarrow> True | Some d \<Rightarrow> cast_ok env d))"

text \<open>The casts and the offset of \<open>sp_movement_list\<close> are evaluated once the service has accepted the
  parameters.\<close>

definition movement_rows ::
  "sql_env \<Rightarrow> movement_filter \<Rightarrow> int \<Rightarrow> int \<Rightarrow> string \<times> string \<Rightarrow> po_db \<Rightarrow> movement list result" where
  "movement_rows env f page per_page so db =
     bindE (Ledger.list_movements (iso_ok env) (day_of env) (order_by env) f page per_page (fst so) (snd so) db) (\<lambda>rows.
     bindE (ensure (casts env f \<and> int4 page \<and> int4 ((page - 1) * min per_page 100)) out_of_range) (\<lambda>_. Ok rows))"

definition validation_400 :: "pyexc \<Rightarrow> 'a reply" where
  "validation_400 e = refused (api_error ''VALIDATION_ERROR'' (exc_text e) 400 None)"

definition internal_error :: "string \<Rightarrow> 'a reply" where
  "internal_error what = refused (api_error ''INTERNAL_ERROR'' (''Failed to '' @ what) 500 None)"

definition movement_reply :: "string \<Rightarrow> 'a result \<Rightarrow> 'a reply" where
  "movement_reply what r = (case r of Inr x \<Rightarrow> Found x
     | Inl (MovementError m) \<Rightarrow> validation_400 (MovementError m)
     | Inl e \<Rightarrow> internal_error what)"

definition page_size :: "int option \<Rightarrow> int" where
  "page_size v = (case v of None \<Rightarrow> 20 | Some n \<Rightarrow> min n 100)"

text \<open>The rows with the total, the page and the page size of the envelope.\<close>

definition api_list_movements ::
  "sql_env \<Rightarrow> query_args \<Rightarrow> shop_state \<Rightarrow> (movement list \<times> int \<times> int \<times> int) reply" where
  "api_list_movements env args s = movement_reply ''list movements'' (
     bindE (int_arg args ''product_id'') (\<lambda>pid.
     bindE (int_arg args ''user_id'') (\<lambda>uid.
     bindE (int_arg args ''page'') (\<lambda>pg.
     bindE (int_arg args ''per_page'') (\<lambda>pp.
     let f = \<lparr>mf_types = type_args args, mf_from = text_or_none args ''date_from'',
           mf_to = text_or_none args ''date_to'', mf_product = pid, mf_user = uid\<rparr>;
         page = (case pg of None \<Rightarrow> 1 | Some n \<Rightarrow> n); per_page = page_size pp in
     bindE (movement_rows env f page per_page (sort_args args) (shop_db s)) (\<lambda>rows.
     bindE (get_movement_count (iso_ok env) (day_of env) f (shop_db s)) (\<lambda>n.
     Ok (rows, n, page, per_page))))))))"

text \<open>One product's movements; a message that says \<open>not found\<close> is answered with 404.\<close>

definition list_product_movements ::
  "sql_env \<Rightarrow> int \<Rightarrow> query_args \<Rightarrow> shop_state \<Rightarrow> movement list reply" where
  "list_product_movements env pid args s =
     (case bindE (int_arg args ''user_id'') (\<lambda>uid.
           bindE (int_arg args ''page'') (\<lambda>pg.
           bindE (int_arg args ''per_page'') (\<lambda>pp.
           let f = \<lparr>mf_types = type_args args, mf_from = text_or_none args ''date_from'',
                 mf_to = text_or_none args ''date_to'', mf_product = Some pid, mf_user = uid\<rparr>;
               page = (case pg of None \<Rightarrow> 1 | Some n \<Rightarrow> n) in
           bindE (product_by_id pid s) (\<lambda>r.
           bindE (ensure (r \<noteq> None) (MovementError (''Product '' @ int_str pid @ '' not found''))) (\<lambda>_.
           movement_rows env f page (page_size pp) (sort_args args) (shop_db s)))))) of
        Inr rows \<Rightarrow> Found rows
      | Inl (MovementError m) \<Rightarrow> if contains (lower m) ''not found''
          then refused (api_error ''NOT_FOUND'' m 404 None) else validation_400 (MovementError m)
      | Inl e \<Rightarrow> internal_error ''list product movements'')"

text \<open>An export is a streamed answer with status 200: the service is called when the stream starts, so
  its \<open>MovementError\<close> becomes the text of the file and any other error breaks the stream.\<close>

datatype stream = Rows "movement list" | ErrorText string | Broken pyexc

definition movement_stream :: "sql_env \<Rightarrow> movement_filter \<Rightarrow> string \<Rightarrow> string \<Rightarrow> int \<Rightarrow> po_db \<Rightarrow> stream" where
  "movement_stream env f sort_by sort_order limit db =
     (case bindE (Ledger.export_movements (iso_ok env) (day_of env) (order_by env) f sort_by sort_order limit db)
          (\<lambda>rows. bindE (ensure (casts env f) out_of_range) (\<lambda>_. Ok rows)) of
        Inr rows \<Rightarrow> Rows rows
      | Inl (MovementError m) \<Rightarrow> ErrorText (''Error: '' @ m @ [CHR 0x0A])
      | Inl e \<Rightarrow> Broken e)"

definition limit_arg :: "int option \<Rightarrow> int result" where
  "limit_arg v = (let limit = (case v of None \<Rightarrow> 5000 | Some n \<Rightarrow> n) in
     bindE (ensure (1 \<le> limit) (MovementError ''limit must be >= 1'')) (\<lambda>_. Ok (min limit 5000)))"

definition api_export_movements :: "sql_env \<Rightarrow> query_args \<Rightarrow> shop_state \<Rightarrow> stream reply" where
  "api_export_movements env args s = movement_reply ''export movements'' (
     bindE (int_arg args ''product_id'') (\<lambda>pid.
     bindE (int_arg args ''user_id'') (\<lambda>uid.
     bindE (int_arg args ''limit'') (\<lambda>l.
     bindE (limit_arg l) (\<lambda>limit.
     let f = \<lparr>mf_types = type_args args, mf_from = text_or_none args ''date_from'',
           mf_to = text_or_none args ''date_to'', mf_product = pid, mf_user = uid\<rparr> in
     Ok (movement_stream env f (fst (sort_args args)) (snd (sort_args args)) limit (shop_db s)))))))"

text \<open>Here an empty limit is an error, and the sort parameters have a second name.\<close>

definition export_product_movements :: "sql_env \<Rightarrow> int \<Rightarrow> query_args \<Rightarrow> shop_state \<Rightarrow> stream reply" where
  "export_product_movements env pid args s = movement_reply ''export product movements'' (
     bindE (case map_of args ''limit'' of None \<Rightarrow> Ok None
        | Some v \<Rightarrow> (case parse_int v of Some i \<Rightarrow> Ok (Some i)
            | None \<Rightarrow> Err (MovementError ''limit must be an integer''))) (\<lambda>l.
     bindE (limit_arg l) (\<lambda>limit.
     let f = \<lparr>mf_types = None, mf_from = None, mf_to = None, mf_product = Some pid, mf_user = None\<rparr> in
     Ok (movement_stream env f (arg_text args ''sort_by'' (arg_text args ''sort'' ''created_at''))
       (arg_text args ''sort_order'' (arg_text args ''dir'' ''desc'')) limit (shop_db s)))))"

section \<open>Requests\<close>

text \<open>The writing requests, with what their early reads saw and whether the audit insert of a movement
  succeeds.\<close>

datatype write_call =
    PostProduct catalog "pyval option"
  | PutProduct int "pyval option"
  | RemoveProduct int
  | PostSupplier "pyval option"
  | PostOrder "pyval option"
  | PostMovement bool po_db "pyval option"

fun write_view :: "(string \<Rightarrow> bool) \<Rightarrow> int \<Rightarrow> write_call \<Rightarrow> shop_state \<Rightarrow> view_result result \<times> shop_state" where
  "write_view date_ok uid (PostProduct seen body) s = create_product seen body s"
| "write_view date_ok uid (PutProduct i body) s = update_product i body s"
| "write_view date_ok uid (RemoveProduct i) s = delete_product i s"
| "write_view date_ok uid (PostSupplier body) s = create_supplier body s"
| "write_view date_ok uid (PostOrder body) s = create_purchase_order date_ok body s"
| "write_view date_ok uid (PostMovement audit_ok seen body) s = create_movement audit_ok seen uid body s"

text \<open>The decorators, outermost first: \<open>write_roles_required\<close>, \<open>idempotent()\<close>.  \<open>up\<close> says whether
  the key's record and release reach the database.\<close>

definition as_outcome :: "'a result \<Rightarrow> 'a outcome" where
  "as_outcome r = (case r of Inl e \<Rightarrow> Raised e | Inr v \<Rightarrow> Returned v)"

definition api_write ::
  "(string \<Rightarrow> bool) \<Rightarrow> int \<times> user \<Rightarrow> int \<Rightarrow> bool \<times> bool \<Rightarrow> http_request \<Rightarrow> write_call \<Rightarrow> idem_table \<times> shop_state \<Rightarrow>
   view_result outcome \<times> idem_table \<times> shop_state" where
  "api_write date_ok who now up rq c = write_roles_required (snd who) (\<lambda>st.
     map_prod as_outcome id (idempotent False now (fst up) (snd up) (write_view date_ok (fst who) c)
       (rq\<lparr>http_request.rq_user := Some (fst who)\<rparr>) st))"

datatype read_call =
    ReadProduct clock "(real \<times> real) result" int
  | ReadProducts clock "product_row list \<Rightarrow> product_row list" "(real \<times> real) result" query_args
  | ReadSupplier clock int
  | ReadSuppliers clock "supplier_row list \<Rightarrow> supplier_row list"
  | ReadRecent clock query_args
  | ReadFigures clock real

fun read_view :: "read_call \<Rightarrow> shop_state \<Rightarrow> api_value reply outcome \<times> shop_state" where
  "read_view (ReadProduct ts pcts i) s = get_product ts pcts i s"
| "read_view (ReadProducts ts by_sku pcts args) s = api_list_products ts by_sku pcts args s"
| "read_view (ReadSupplier ts i) s = get_supplier ts i s"
| "read_view (ReadSuppliers ts by_name) s = list_suppliers ts by_name s"
| "read_view (ReadRecent ts args) s = recent_movements ts args s"
| "read_view (ReadFigures ts critical) s = dashboard_live ts critical s"

datatype api_request =
    Write "int \<times> user" int "bool \<times> bool" http_request write_call
  | Read read_call

fun api_step :: "(string \<Rightarrow> bool) \<Rightarrow> api_request \<Rightarrow> idem_table \<times> shop_state \<Rightarrow> idem_table \<times> shop_state" where
  "api_step date_ok (Write who now up rq c) st = snd (api_write date_ok who now up rq c st)"
| "api_step date_ok (Read c) st = (fst st, snd (read_view c (snd st)))"

section \<open>The products of the catalog and of the ledger\<close>

definition same_but_levels :: "product \<Rightarrow> product \<Rightarrow> bool" where
  "same_but_levels p q = (q = p\<lparr>current_stock := current_stock q, on_order := on_order q\<rparr>)"

definition levels_only :: "po_db \<Rightarrow> po_db \<Rightarrow> bool" where
  "levels_only db db' = (list_all2 same_but_levels (products db) (products db') \<and> supplier_ids db' = supplier_ids db)"

lemma same_but_levels_refl [simp]: "same_but_levels p p"
  by (simp add: same_but_levels_def)

lemma same_but_levels_id: "same_but_levels p q \<Longrightarrow> prod_id q = prod_id p"
  unfolding same_but_levels_def by (metis product.select_convs(1) product.surjective product.update_convs(5,7))

lemma levels_only_refl [simp]: "levels_only db db"
  by (simp add: levels_only_def list_all2_refl)

lemma levels_only_set:
  assumes "levels_only db db1" and "\<And>p. same_but_levels p (f p)" and "\<And>p q. same_but_levels p q \<Longrightarrow> same_but_levels p (f q)"
  shows "levels_only db (set_product pid f db1)"
  using assms unfolding levels_only_def set_product_def update_where_def
  by (auto simp: list_all2_map2 elim!: list_all2_mono)

lemma shop_db_products [simp]: "products (shop_db s) = map stock_view (product_rows (sh_catalog s))"
  "supplier_ids (shop_db s) = map su_id (supplier_rows (sh_catalog s))"
  "orders (shop_db s) = orders (sh_db s)" "movements (shop_db s) = movements (sh_db s)"
  "next_po (shop_db s) = next_po (sh_db s)" "next_movement (shop_db s) = next_movement (sh_db s)"
  by (simp_all add: shop_db_def)

lemma stock_view_levels:
  assumes "same_but_levels (stock_view r) q"
  shows "stock_view (r\<lparr>pr_stock := current_stock q, pr_on_order := on_order q\<rparr>) = q"
  using assms unfolding same_but_levels_def by (cases q) (simp add: stock_view_def)

lemma levels_from_view:
  assumes l: "list_all2 same_but_levels (map stock_view rows) ps" and d: "distinct (map prod_id ps)"
    and ps: "products db = ps"
  shows "map (stock_view \<circ> levels_from db) rows = ps"
proof (rule nth_equalityI)
  show len: "length (map (stock_view \<circ> levels_from db) rows) = length ps"
    using list_all2_lengthD[OF l] by simp
  fix i assume "i < length (map (stock_view \<circ> levels_from db) rows)"
  then have i: "i < length rows" "i < length ps" using len by auto
  then have s: "same_but_levels (stock_view (rows ! i)) (ps ! i)" using list_all2_nthD[OF l, of i] by simp
  have "find_product (prod_id (ps ! i)) db = Some (ps ! i)"
    using find_row_unique[OF d, of "ps ! i"] i(2) by (simp add: find_product_def ps)
  then have "find_product (pr_id (rows ! i)) db = Some (ps ! i)"
    using same_but_levels_id[OF s] by (simp add: stock_view_def)
  then show "map (stock_view \<circ> levels_from db) rows ! i = ps ! i"
    using i(1) stock_view_levels[OF s] by (simp add: levels_from_def)
qed

lemma shop_db_with:
  assumes "levels_only (shop_db s) db" and "distinct (map prod_id (products db))"
  shows "shop_db (with_db db s) = db"
proof -
  have "map (stock_view \<circ> levels_from db) (product_rows (sh_catalog s)) = products db"
    using assms by (intro levels_from_view) (auto simp: levels_only_def)
  moreover have "map su_id (supplier_rows (sh_catalog s)) = supplier_ids db"
    using assms(1) by (simp add: levels_only_def)
  ultimately show ?thesis by (simp add: shop_db_def with_db_def Let_def)
qed

lemma with_bust_simps [simp]: "sh_catalog (with_bust b s) = sh_catalog s" "sh_db (with_bust b s) = sh_db s"
  "shop_db (with_bust b s) = shop_db s"
  by (simp_all add: with_bust_def shop_db_def)

lemma levels_from_self:
  assumes "distinct (map pr_id (product_rows (sh_catalog s)))" and "r \<in> set (product_rows (sh_catalog s))"
  shows "levels_from (shop_db s) r = r"
proof -
  have "find_row (\<lambda>x. pr_id x = pr_id r) (product_rows (sh_catalog s)) = Some r"
    by (rule find_row_unique[OF assms])
  then have "find_product (pr_id r) (shop_db s) = Some (stock_view r)"
    by (simp add: find_product_def find_row_map comp_def stock_view_def)
  then show ?thesis by (simp add: levels_from_def) (simp add: stock_view_def)
qed

lemma with_db_same:
  assumes "distinct (map pr_id (product_rows (sh_catalog s)))"
  shows "with_db (shop_db s) s = s"
proof -
  note self = levels_from_self[OF assms]
  have "map (levels_from (shop_db s)) (product_rows (sh_catalog s)) = product_rows (sh_catalog s)"
    using self by (intro map_idI) auto
  moreover have "filter (levels_differ (shop_db s)) (product_rows (sh_catalog s)) = []"
    using self by (auto simp: filter_empty_conv levels_differ_def)
  ultimately show ?thesis by (simp add: with_db_def Let_def shop_db_def)
qed

text \<open>The procedures the handlers call change levels only.\<close>

lemma insert_order_levels: "insert_order num sid pid q cost st eta db = Ok (i, db') \<Longrightarrow> levels_only db db'"
  by (drule insert_order_Ok) (auto simp: levels_only_def list_all2_refl)

lemma same_but_levels_update:
  "same_but_levels p q \<Longrightarrow> same_but_levels p (q\<lparr>current_stock := a, on_order := b\<rparr>)"
  "same_but_levels p q \<Longrightarrow> same_but_levels p (q\<lparr>current_stock := a\<rparr>)"
  "same_but_levels p q \<Longrightarrow> same_but_levels p (q\<lparr>on_order := b\<rparr>)"
  by (cases p; cases q; simp add: same_but_levels_def)+

lemma sp_po_create_levels: "sp_po_create num sid pid q cost st eta db = Ok (i, db') \<Longrightarrow> levels_only db db'"
  by (auto simp: sp_po_create_def bindE_Ok_iff add_on_order_def split: if_splits
      dest!: insert_order_levels intro!: levels_only_set same_but_levels_update)

lemma sp_movement_levels: "sp_movement_record pid ty q ref nts uid db = Ok (i, db') \<Longrightarrow> levels_only db db'"
proof (erule sp_movement_record_Ok)
  fix p assume "db' = set_product pid (\<lambda>r. r\<lparr>current_stock := current_stock p + movement_delta ty q\<rparr>)
      (add_movement pid ty q ref nts uid db)"
  moreover have "levels_only db (add_movement pid ty q ref nts uid db)"
    by (simp add: levels_only_def add_movement_def list_all2_refl)
  ultimately show ?thesis by (auto intro!: levels_only_set same_but_levels_update)
qed

text \<open>What an accepted order or movement does to the database.\<close>

lemma sum_case_Ok: "(case r of Inl e \<Rightarrow> f e | Inr x \<Rightarrow> Ok x) = Ok y \<Longrightarrow> (\<And>e. f e \<noteq> Ok y) \<Longrightarrow> r = Ok y"
  by (cases r) auto

lemma if_Err: "(if b then Err x else Err y) \<noteq> Ok z"
  by simp

lemma po_service_create_Ok:
  assumes "po_service_create date_ok p db = Ok (i, db')"
  obtains num sid pid q cost st eta where "sp_po_create num sid pid q cost st eta db = Ok (i, db')"
proof -
  from assms obtain p' where v: "po_validate_payload p = Ok p'"
    unfolding po_service_create_def bindE_Ok_iff by blast
  have "po_create date_ok p' db = Ok (i, db')"
  proof (cases "po_create date_ok p' db")
    case (Inl e)
    then show ?thesis using assms v by (cases e) (simp_all add: po_service_create_def)
  next
    case (Inr x) then show ?thesis using assms v by (simp add: po_service_create_def)
  qed
  then show thesis unfolding po_create_def bindE_Ok_iff
    by (elim exE conjE) (rule that, erule sum_case_Ok, rule if_Err)
qed

lemma record_movement_cases:
  obtains (refused) e where "record_movement a seen rq db = (Inl e, db)"
  | (booked) i db1 al r where "repo_record_movement (the (rq_product rq)) (rq_type rq) (the (rq_quantity rq))
        (strip_or_none (rq_reference rq)) (strip_or_none (rq_notes rq)) (movement_req.rq_user rq) db = Ok (i, db1)"
      "record_movement a seen rq db = (r, db1\<lparr>audit_log := al\<rparr>)" "a \<Longrightarrow> r = Ok i"
proof (cases "precheck_movement rq seen")
  case (Inl e) then show ?thesis by (intro refused[of e]) (simp add: record_movement_def)
next
  case pre: (Inr x)
  obtain pr n where x: "x = (pr, n)" by (cases x)
  show ?thesis
  proof (cases "repo_record_movement (the (rq_product rq)) (rq_type rq) (the (rq_quantity rq))
        (strip_or_none (rq_reference rq)) (strip_or_none (rq_notes rq)) (movement_req.rq_user rq) db")
    case (Inl e)
    have "\<exists>e'. record_movement a seen rq db = (Inl e', db)"
      by (cases e) (simp_all add: record_movement_def pre x Inl)
    then show ?thesis using refused by blast
  next
    case (Inr w)
    obtain i db1 where w: "w = (i, db1)" by (cases w)
    have keep: "db1\<lparr>audit_log := audit_log db1\<rparr> = db1" by simp
    show ?thesis
    proof (cases a)
      case True
      show ?thesis by (rule booked[OF Inr[unfolded w]]) (simp add: record_movement_def pre x Inr w True, simp add: True)
    next
      case False
      show ?thesis
        by (rule booked[OF Inr[unfolded w], of _ "audit_log db1"]) (simp add: record_movement_def pre x Inr w False, simp add: False)
    qed
  qed
qed

lemma movement_call_cases:
  obtains (refused) e where "movement_call audit_ok seen uid p db = (Inl e, db)"
  | (booked) pid ty q ref nts i db1 al r where "movement_args p = Ok (pid, ty, q)"
      "sp_movement_record pid ty q ref nts (Some uid) db = Ok (i, db1)"
      "movement_call audit_ok seen uid p db = (r, db1\<lparr>audit_log := al\<rparr>)" "audit_ok \<Longrightarrow> r = Ok i"
proof (cases "movement_args p")
  case (Inl e)
  then show ?thesis by (intro refused[of e]) (simp add: movement_call_def)
next
  case (Inr a)
  obtain pid ty q where a: "a = (pid, ty, q)" by (cases a)
  define rq where "rq = \<lparr>rq_product = Some pid, rq_type = ty, rq_quantity = Some q, rq_reference = None,
                rq_notes = None, movement_req.rq_user = Some uid\<rparr>"
  show ?thesis
  proof (cases "bindE (precheck_movement rq seen) (\<lambda>_.
               bindE (text_arg (dget p ''reference'')) (\<lambda>ref.
               bindE (text_arg (dget p ''notes'')) (\<lambda>nts. Ok (ref, nts))))")
    case e: (Inl e)
    show ?thesis by (rule refused) (simp add: movement_call_def Inr a rq_def[symmetric] e)
  next
    case rn: (Inr rn)
    obtain ref nts where [simp]: "rn = (ref, nts)" by (cases rn)
    let ?rq = "rq\<lparr>rq_reference := ref, rq_notes := nts\<rparr>"
    have call: "movement_call audit_ok seen uid p db = record_movement audit_ok seen ?rq db"
      using rn by (simp add: movement_call_def Inr a rq_def[symmetric])
    show ?thesis
    proof (cases rule: record_movement_cases[of audit_ok seen ?rq db])
      case (refused e)
      then show ?thesis using call that(1) by simp
    next
      case (booked i db1 al r)
      then show ?thesis using call repo_record_Ok[OF booked(1)] that(2) Inr a by (simp add: rq_def)
    qed
  qed
qed

section \<open>The books are kept\<close>

definition books_ok :: "shop_state \<Rightarrow> bool" where
  "books_ok s = (catalog_ok (sh_catalog s) \<and> po_db_ok (shop_db s))"

text \<open>\<open>stock_gap\<close> is what a product's stock has that its movements do not explain: the stock it was
  created with.\<close>

definition stock_gap :: "int \<Rightarrow> po_db \<Rightarrow> int" where
  "stock_gap k db = stock_of k db - ledger_sum k db"

definition books_kept :: "shop_state \<Rightarrow> shop_state \<Rightarrow> bool" where
  "books_kept s0 s = (books_ok s \<and> (\<forall>k. product_at k (sh_catalog s0) \<noteq> None \<longrightarrow> product_at k (sh_catalog s) \<noteq> None \<and>
     stock_gap k (shop_db s) = stock_gap k (shop_db s0) \<and> phantom k (shop_db s) = phantom k (shop_db s0)))"

lemma books_kept_trans: "books_kept a b \<Longrightarrow> books_kept b c \<Longrightarrow> books_kept a c"
  by (simp add: books_kept_def)

lemma books_kept_refl: "books_ok s \<Longrightarrow> books_kept s s"
  by (simp add: books_kept_def)

lemma books_kept_same:
  assumes "books_ok s" "sh_catalog s' = sh_catalog s" "sh_db s' = sh_db s"
  shows "books_kept s s'"
proof -
  have "shop_db s' = shop_db s" using assms(2,3) by (simp add: shop_db_def)
  then show ?thesis using assms by (simp add: books_kept_def books_ok_def)
qed

lemma find_product_shop: "find_product k (shop_db s) = map_option stock_view (product_at k (sh_catalog s))"
  by (simp add: find_product_def find_row_map product_at_def comp_def stock_view_def)

lemma product_ids: "prod_id ` set (products (shop_db s)) = pr_id ` set (product_rows (sh_catalog s))"
  by (simp add: image_image stock_view_def)

text \<open>Changes to the catalog: rows keep stock and on-order figures, and a new product has nothing on
  order.\<close>

definition only_new_rows :: "catalog \<Rightarrow> catalog \<Rightarrow> bool" where
  "only_new_rows db db' = (\<exists>old new. product_rows db' = old @ new \<and>
     map pr_id old = map pr_id (product_rows db) \<and> (\<forall>r\<in>set new. pr_on_order r = 0))"

lemma only_new_rows_same: "product_rows db' = product_rows db \<Longrightarrow> only_new_rows db db'"
  unfolding only_new_rows_def by (intro exI[of _ "product_rows db"] exI[of _ "[]"]) simp

lemma only_new_rows_set:
  assumes "\<And>r. pr_id (f r) = pr_id r" shows "only_new_rows db (set_product_row i f db)"
  unfolding only_new_rows_def set_product_row_rows
  by (intro exI[of _ "update_where (\<lambda>r. pr_id r = i) f (product_rows db)"] exI[of _ "[]"]) (simp add: assms)

lemma only_new_rows_create: "sp_product_create a db = Inr (i, db') \<Longrightarrow> only_new_rows db db'"
proof -
  assume "sp_product_create a db = Inr (i, db')"
  then obtain x where "product_rows db' = product_rows db @ [x]" "pr_on_order x = 0"
    by (auto simp: sp_product_create_def bindE_Ok_iff)
  then show ?thesis unfolding only_new_rows_def
    by (intro exI[of _ "product_rows db"] exI[of _ "[x]"]) simp
qed

lemma catalog_step_new_rows: "only_new_rows db (catalog_step x db)"
proof (cases x)
  case (CreateProduct seen p)
  then show ?thesis
    by (cases rule: product_create_cases[of seen p db]) (auto intro: only_new_rows_create only_new_rows_same)
next
  case (UpdateProduct i p)
  then show ?thesis
    by (cases rule: product_update_cases[of i p db])
      (auto simp: sp_product_update_def bindE_Ok_iff split: option.splits intro: only_new_rows_set only_new_rows_same)
next
  case (DeleteProduct i)
  then show ?thesis by (simp add: product_delete_def sp_product_delete_def only_new_rows_set)
next
  case (CreateSupplier p)
  then show ?thesis
    by (auto simp: supplier_create_def bindE_Ok_iff repo_supplier_create_def sp_supplier_create_def
        split: sum.splits prod.splits intro!: only_new_rows_same)
next
  case (UpdateSupplier i p)
  then show ?thesis
    by (auto simp: supplier_update_def bindE_Ok_iff repo_supplier_update_def sp_supplier_update_def
        split: sum.splits prod.splits option.splits intro!: only_new_rows_same)
next
  case (DeleteSupplier i)
  then show ?thesis by (simp add: supplier_delete_def sp_supplier_delete_def only_new_rows_same)
qed

lemma catalog_step_new:
  assumes "product_at k db = None" and "product_at k (catalog_step x db) = Some r"
  shows "pr_on_order r = 0"
proof -
  obtain old new where o: "product_rows (catalog_step x db) = old @ new"
    "map pr_id old = map pr_id (product_rows db)" "\<forall>r\<in>set new. pr_on_order r = 0"
    using catalog_step_new_rows unfolding only_new_rows_def by blast
  have "k \<notin> set (map pr_id old)" using assms(1) by (auto simp: product_at_def find_row_None o(2))
  then have "find_row (\<lambda>r. pr_id r = k) old = None" by (auto simp: find_row_None)
  then have "find_row (\<lambda>r. pr_id r = k) new = Some r" using assms(2) by (simp add: product_at_def o(1) find_row_append)
  then show ?thesis using o(3) by (auto dest: find_row_Some)
qed

lemma catalog_step_kept: "product_at k db = Some r \<Longrightarrow> \<exists>r'. product_at k (catalog_step x db) = Some r' \<and> row_kept r r'"
  using product_at_kept[OF catalog_step_rows] .

lemma ledger_sum_shop: "ledger_sum k (shop_db s) = ledger_sum k (sh_db s)"
  "outstanding k (shop_db s) = outstanding k (sh_db s)"
  by (simp_all add: ledger_sum_def outstanding_def)

lemma books_kept_catalog:
  assumes ok: "books_ok s" and s': "sh_catalog s' = catalog_step x (sh_catalog s)" "sh_db s' = sh_db s"
  shows "books_kept s s'"
proof -
  let ?cat = "sh_catalog s" and ?cat' = "catalog_step x (sh_catalog s)"
  have cat: "catalog_ok ?cat'" using ok by (simp add: books_ok_def catalog_step_ok)
  have old: "po_db_ok (shop_db s)" using ok by (simp add: books_ok_def)
  have stock: "stock_of k (shop_db s') = stock_of k (shop_db s) \<and> on_order_of k (shop_db s') = on_order_of k (shop_db s)"
    if r: "product_at k ?cat = Some r" for k r
    using catalog_step_kept[OF r, of x] r
    by (auto simp: stock_of_def on_order_of_def find_product_shop s' stock_view_def row_kept_def)
  have none: "outstanding k (shop_db s) = 0" if "product_at k ?cat = None" for k
  proof -
    have "k \<notin> prod_id ` set (products (shop_db s))"
      using that unfolding product_ids by (auto simp: product_at_def find_row_None)
    then have "\<forall>r\<in>set (orders (shop_db s)). contrib k r = 0"
      using old by (auto simp: po_db_ok_def contrib_def)
    then show ?thesis unfolding outstanding_def by (simp add: sum_list_0 cong: map_cong)
  qed
  have ph: "phantom k (shop_db s') = phantom k (shop_db s)" for k
  proof (cases "product_at k ?cat")
    case (Some r)
    then show ?thesis using stock by (simp add: phantom_def ledger_sum_shop s')
  next
    case None
    then have "on_order_of k (shop_db s') = 0" using catalog_step_new[OF None, of x]
      by (auto simp: on_order_of_def find_product_shop s' stock_view_def split: option.split)
    moreover have "on_order_of k (shop_db s) = 0" using None by (simp add: on_order_of_def find_product_shop)
    ultimately show ?thesis by (simp add: phantom_def ledger_sum_shop s')
  qed
  have ids: "set (map pr_id (product_rows ?cat)) \<subseteq> set (map pr_id (product_rows ?cat'))"
  proof -
    obtain old new where "product_rows ?cat' = old @ new" and o: "map pr_id old = map pr_id (product_rows ?cat)"
      using catalog_step_new_rows[of ?cat x] unfolding only_new_rows_def by blast
    then have "map pr_id (product_rows ?cat') = map pr_id (product_rows ?cat) @ map pr_id new" by simp
    then show ?thesis by (simp only: set_append Un_upper1)
  qed
  have "inv_db_ok (shop_db s')" using old cat
    by (auto simp: po_db_ok_def inv_db_ok_def s' comp_def stock_view_def catalog_ok_def product_row_ok_def)
  moreover have "prod_id ` set (products (shop_db s)) \<subseteq> prod_id ` set (products (shop_db s'))"
    using ids unfolding product_ids s' by simp
  ultimately have "po_db_ok (shop_db s')"
    using old ph unfolding po_db_ok_def by (auto simp: s')
  then show ?thesis using cat stock ph catalog_step_kept[of _ ?cat _ x]
    by (fastforce simp: books_kept_def books_ok_def s' stock_gap_def ledger_sum_shop)
qed

text \<open>Changes by the movement and order procedures.\<close>

lemma levels_from_fields [simp]:
  "pr_id (levels_from db r) = pr_id r" "pr_sku (levels_from db r) = pr_sku r"
  "pr_deleted (levels_from db r) = pr_deleted r" "pr_supplier (levels_from db r) = pr_supplier r"
  by (simp_all add: levels_from_def split: option.split)

lemma levels_from_ok: "product_row_ok r \<Longrightarrow> inv_db_ok db \<Longrightarrow> product_row_ok (levels_from db r)"
  by (auto simp: levels_from_def product_row_ok_def inv_db_ok_def find_product_def split: option.split
      dest!: find_row_Some)

lemma with_db_tables [simp]:
  "product_rows (sh_catalog (with_db db s)) = map (levels_from db) (product_rows (sh_catalog s))"
  "next_product (sh_catalog (with_db db s)) = next_product (sh_catalog s)"
  "supplier_rows (sh_catalog (with_db db s)) = supplier_rows (sh_catalog s)"
  "next_supplier (sh_catalog (with_db db s)) = next_supplier (sh_catalog s)"
  by (simp_all add: with_db_def Let_def)

lemma unique_live_map:
  "unique_live key val dead rows \<Longrightarrow> (\<And>r. key (f r) = key r \<and> val (f r) = val r \<and> dead (f r) = dead r) \<Longrightarrow>
   unique_live key val dead (map f rows)"
  unfolding unique_live_def by (metis (no_types, lifting) imageE set_map)

lemma with_db_supplier_known [simp]: "supplier_known x (sh_catalog (with_db db s)) = supplier_known x (sh_catalog s)"
  by (cases x) (simp_all add: supplier_known_def)

lemma with_db_catalog:
  assumes "catalog_ok (sh_catalog s)" and "inv_db_ok db"
  shows "catalog_ok (sh_catalog (with_db db s))"
  using assms levels_from_ok[OF _ assms(2)] unfolding catalog_ok_def with_db_tables
  by (intro conjI) (simp_all add: comp_def unique_live_map)

lemma books_kept_db:
  assumes ok: "books_ok s" and l: "levels_only (shop_db s) db" and db: "po_db_ok db"
    and same: "\<And>k. stock_gap k db = stock_gap k (shop_db s)" "\<And>k. phantom k db = phantom k (shop_db s)"
  shows "books_kept s (with_db db s)"
proof -
  have "distinct (map prod_id (products db))" using db by (simp add: po_db_ok_def inv_db_ok_def)
  note view = shop_db_with[OF l this]
  have "catalog_ok (sh_catalog (with_db db s))"
    using ok db by (intro with_db_catalog) (auto simp: books_ok_def po_db_ok_def)
  moreover have "product_at k (sh_catalog (with_db db s)) \<noteq> None" if "product_at k (sh_catalog s) \<noteq> None" for k
    using that by (simp add: product_at_def with_db_def Let_def find_row_map comp_def)
  ultimately show ?thesis using same db by (simp add: books_kept_def books_ok_def view)
qed

lemma audit_log_irrelevant:
  "po_db_ok (db\<lparr>audit_log := al\<rparr>) = po_db_ok db" "phantom k (db\<lparr>audit_log := al\<rparr>) = phantom k db"
  "levels_only d (db\<lparr>audit_log := al\<rparr>) = levels_only d db"
  by (simp_all add: po_db_ok_def phantom_def on_order_of_def outstanding_def find_product_def levels_only_def)

lemma books_kept_movement:
  assumes ok: "books_ok s" and m: "sp_movement_record pid ty q ref nts uid (shop_db s) = Ok (i, db)"
  shows "books_kept s (with_db (db\<lparr>audit_log := al\<rparr>) s)"
proof (rule books_kept_db[OF ok])
  have old: "po_db_ok (shop_db s)" using ok by (simp add: books_ok_def)
  then have inv: "inv_db_ok (shop_db s)" by (simp add: po_db_ok_def)
  show "levels_only (shop_db s) (db\<lparr>audit_log := al\<rparr>)"
    using sp_movement_levels[OF m] by (simp add: audit_log_irrelevant)
  show "po_db_ok (db\<lparr>audit_log := al\<rparr>)" "phantom k (db\<lparr>audit_log := al\<rparr>) = phantom k (shop_db s)" for k
    using sp_movement_record_frame[OF old m] by (simp_all add: audit_log_irrelevant)
  show "stock_gap k (db\<lparr>audit_log := al\<rparr>) = stock_gap k (shop_db s)" for k
    using sp_movement_record_stock[OF m inv, of k] by (simp add: stock_gap_def)
qed

lemma set_on_order_stock:
  "stock_of k (set_product pid (\<lambda>p. p\<lparr>on_order := g p\<rparr>) db) = stock_of k db"
  "ledger_sum k (set_product pid (\<lambda>p. p\<lparr>on_order := g p\<rparr>) db) = ledger_sum k db"
  by (auto simp: stock_of_def find_set_product ledger_sum_def split: option.split)

lemma sp_po_create_stock:
  fixes db :: "'a po_db_scheme"
  assumes "sp_po_create num sid pid q cost st eta db = Ok (i, db')"
  shows "stock_of k db' = stock_of k db" "ledger_sum k db' = ledger_sum k db"
proof -
  obtain db1 where ins: "insert_order num sid pid q cost st eta db = Ok (i, db1)"
    and fin: "db' = (if st = ''approved'' \<or> st = ''in_transit''
      then set_product pid (\<lambda>p. p\<lparr>on_order := on_order p + q\<rparr>) db1 else db1)"
    using assms by (auto simp: sp_po_create_def bindE_Ok_iff add_on_order_def split: if_splits)
  have "stock_of k db1 = stock_of k db" "ledger_sum k db1 = ledger_sum k db"
    using insert_order_Ok[OF ins] by (auto simp: stock_of_def ledger_sum_def find_product_def)
  then show "stock_of k db' = stock_of k db" "ledger_sum k db' = ledger_sum k db"
    by (simp_all add: fin set_on_order_stock)
qed

lemma books_kept_order:
  assumes ok: "books_ok s" and c: "sp_po_create num sid pid q cost st eta (shop_db s) = Ok (i, db)"
  shows "books_kept s (with_db db s)"
proof (rule books_kept_db[OF ok sp_po_create_levels[OF c]])
  have "po_db_ok db \<and> (\<forall>k. phantom k db = phantom k (shop_db s))"
    using ok by (intro sp_po_create_ok[OF _ c]) (simp add: books_ok_def)
  then show "po_db_ok db" "phantom k db = phantom k (shop_db s)" for k by auto
  show "stock_gap k db = stock_gap k (shop_db s)" for k
    using sp_po_create_stock[OF c] by (simp add: stock_gap_def)
qed

lemma books_kept_bust: "books_kept s s' \<Longrightarrow> books_kept s (with_bust b s')"
  by (simp add: books_kept_def books_ok_def)

section \<open>What a handler does to the shop\<close>

lemma books_kept_step:
  assumes "books_ok s" and "cat = catalog_step x (sh_catalog s)"
  shows "books_kept s (s\<lparr>sh_catalog := cat\<rparr>)" "books_kept s (with_bust b (s\<lparr>sh_catalog := cat\<rparr>))"
  using assms by (auto intro!: books_kept_catalog[where x = x] books_kept_bust)

lemma books_kept_pair:
  "product_create seen p (sh_catalog s) = (r, cat) \<Longrightarrow> books_ok s \<Longrightarrow> books_kept s (s\<lparr>sh_catalog := cat\<rparr>)"
  "product_update i p (sh_catalog s) = (r', cat) \<Longrightarrow> books_ok s \<Longrightarrow> books_kept s (s\<lparr>sh_catalog := cat\<rparr>)"
  "supplier_create p (sh_catalog s) = (r, cat) \<Longrightarrow> books_ok s \<Longrightarrow> books_kept s (s\<lparr>sh_catalog := cat\<rparr>)"
  using books_kept_step(1)[of s cat "CreateProduct seen p"] books_kept_step(1)[of s cat "UpdateProduct i p"]
    books_kept_step(1)[of s cat "CreateSupplier p"] by simp_all

lemma kept_create_product: "books_ok s \<Longrightarrow> books_kept s (snd (create_product seen body s))"
  by (auto simp: create_product_def books_kept_refl split: sum.split prod.split
      intro: books_kept_pair books_kept_bust)

lemma kept_update_product: "books_ok s \<Longrightarrow> books_kept s (snd (update_product i body s))"
  by (auto simp: update_product_def books_kept_refl split: sum.split prod.split option.split
      intro: books_kept_pair books_kept_bust)

lemma kept_delete_product: "books_ok s \<Longrightarrow> books_kept s (snd (delete_product i s))"
  using books_kept_step(2)[of s _ "DeleteProduct i"]
  by (auto simp: delete_product_def books_kept_refl split: sum.split option.split)

lemma kept_create_supplier: "books_ok s \<Longrightarrow> books_kept s (snd (create_supplier body s))"
  by (auto simp: create_supplier_def books_kept_refl split: sum.split prod.split
      intro: books_kept_pair books_kept_bust)

lemma kept_create_order: "books_ok s \<Longrightarrow> books_kept s (snd (create_purchase_order date_ok body s))"
proof (cases "bindE (as_dict (json_body body)) (\<lambda>p. po_service_create date_ok p (shop_db s))")
  case (Inl e)
  then show "books_ok s \<Longrightarrow> ?thesis" by (simp add: create_purchase_order_def books_kept_refl)
next
  case (Inr x)
  obtain i db where x: "x = (i, db)" by (cases x)
  then obtain p where "po_service_create date_ok p (shop_db s) = Ok (i, db)"
    using Inr unfolding bindE_Ok_iff by blast
  then obtain num sid pid q cost st eta where "sp_po_create num sid pid q cost st eta (shop_db s) = Ok (i, db)"
    by (rule po_service_create_Ok)
  then show "books_ok s \<Longrightarrow> ?thesis"
    using Inr x by (simp add: create_purchase_order_def books_kept_bust books_kept_order)
qed

lemma books_ok_distinct: "books_ok s \<Longrightarrow> distinct (map pr_id (product_rows (sh_catalog s)))"
  by (simp add: books_ok_def catalog_ok_def)

lemma kept_create_movement: "books_ok s \<Longrightarrow> books_kept s (snd (create_movement audit_ok seen uid body s))"
proof (cases "as_dict (json_body body)")
  case (Inl e)
  then show "books_ok s \<Longrightarrow> ?thesis" by (simp add: create_movement_def books_kept_refl)
next
  case (Inr p)
  assume ok: "books_ok s"
  show ?thesis
  proof (cases rule: movement_call_cases[of audit_ok seen uid p "shop_db s"])
    case (refused e)
    then show ?thesis
      using ok by (simp add: create_movement_def Inr with_db_same books_ok_distinct books_kept_refl)
  next
    case (booked pid ty q ref nts i db al r)
    then show ?thesis using books_kept_movement[OF ok booked(2), of al]
      by (cases r) (simp_all add: create_movement_def Inr books_kept_bust)
  qed
qed

lemma kept_write_view: "books_ok s \<Longrightarrow> books_kept s (snd (write_view date_ok uid c s))"
  by (cases c) (simp_all add: kept_create_product kept_update_product kept_delete_product
      kept_create_supplier kept_create_order kept_create_movement)

text \<open>The decorators run the view at most once; the view's state is the state of the request.\<close>

lemma idempotent_runs:
  "snd (snd (idempotent required now a b f rq st)) = snd st \<or>
   snd (snd (idempotent required now a b f rq st)) = snd (f (snd st))"
  by (auto simp: idempotent_def split: prod.split option.split sum.split)

lemma kept_write: "books_ok (snd st) \<Longrightarrow> books_kept (snd st) (snd (snd (api_write date_ok who now up rq c st)))"
  using idempotent_runs[of False now "fst up" "snd up" "write_view date_ok (fst who) c"
      "rq\<lparr>http_request.rq_user := Some (fst who)\<rparr>" st] kept_write_view[of "snd st" date_ok "fst who" c]
  by (auto simp: api_write_def write_roles_required_def roles_required_def books_kept_refl)

lemma cached_read_keeps [simp]:
  "sh_catalog (snd (cached_read ts k p s)) = sh_catalog s" "sh_db (snd (cached_read ts k p s)) = sh_db s"
  by (auto simp: cached_read_def split: prod.split)

lemma read_view_keeps: "sh_catalog (snd (read_view c s)) = sh_catalog s \<and> sh_db (snd (read_view c s)) = sh_db s"
  by (cases c) (simp_all add: get_product_def get_supplier_def list_suppliers_def api_list_products_def
      recent_movements_def dashboard_live_def found_or_def always_def Let_def)

lemma kept_step: "books_kept s0 (snd st) \<Longrightarrow> books_kept s0 (snd (api_step date_ok x st))"
proof (cases x)
  case (Write who now up rq c)
  assume k: "books_kept s0 (snd st)"
  then have "books_ok (snd st)" by (simp add: books_kept_def)
  from books_kept_trans[OF k kept_write[OF this]] show ?thesis by (simp add: Write)
next
  case (Read c)
  assume k: "books_kept s0 (snd st)"
  then have "books_kept (snd st) (snd (read_view c (snd st)))"
    using read_view_keeps by (intro books_kept_same) (auto simp: books_kept_def)
  from books_kept_trans[OF k this] show ?thesis by (simp add: Read)
qed

interpretation api_requests: op_system "api_step date_ok" "\<lambda>st. books_kept s0 (snd st)" for date_ok s0
  by unfold_locales (rule kept_step)

text \<open>C3: Whatever requests reach the REST interface, from whichever users, with or without idempotency
  keys, and whatever stale data their early checks saw: the catalog and the ledger stay well formed, no
  product disappears, a product's stock moves exactly with its recorded movements, and its on-order
  figure exactly with its open orders.\<close>

theorem api_keeps_books:
  assumes "books_ok s"
  shows "case run (api_step date_ok) reqs (tab, s) of (tab', s') \<Rightarrow> books_ok s' \<and>
    (\<forall>k. product_at k (sh_catalog s) \<noteq> None \<longrightarrow> product_at k (sh_catalog s') \<noteq> None \<and>
       0 \<le> stock_of k (shop_db s') \<and>
       stock_of k (shop_db s') - stock_of k (shop_db s)
         = ledger_sum k (shop_db s') - ledger_sum k (shop_db s) \<and>
       on_order_of k (shop_db s') - on_order_of k (shop_db s)
         = outstanding k (shop_db s') - outstanding k (shop_db s))"
proof -
  have b: "books_kept s (snd (run (api_step date_ok) reqs (tab, s)))"
    by (rule api_requests.inv_run) (simp add: books_kept_refl assms)
  then have "0 \<le> stock_of k (shop_db (snd (run (api_step date_ok) reqs (tab, s))))" for k
    by (intro stock_of_nonneg) (simp add: books_kept_def books_ok_def po_db_ok_def)
  then show ?thesis using b
    by (auto simp: books_kept_def stock_gap_def phantom_def split: prod.split)
qed

section \<open>What a request is answered\<close>

definition success_answer :: "view_result \<Rightarrow> bool" where
  "success_answer v = (case v of RespTuple b code \<Rightarrow> code \<in> {200, 201, 204} \<and> dget b ''success'' = PBool True | _ \<Rightarrow> False)"

definition error_answer :: "view_result \<Rightarrow> bool" where
  "error_answer v = (case v of RespTuple b code \<Rightarrow> code \<in> {404, 409, 422} \<and> dget b ''success'' = PBool False \<and>
     (case dget b ''error'' of PDict [(k, PStr c), (k', PStr m)] \<Rightarrow> k = ''code'' \<and> k' = ''message'' \<and> c \<noteq> [] | _ \<Rightarrow> False)
   | _ \<Rightarrow> False)"

lemma error_answer_simps [simp]:
  "error_answer (validation_error e)" "error_answer product_not_found"
  "error_answer (answer (api_error ''DUPLICATE_SKU'' m 409 None))"
  "error_answer (answer (api_error ''DUPLICATE_PO_NUMBER'' m 409 None))"
  "error_answer (answer (api_error ''DUPLICATE_REQUEST_IN_PROGRESS'' m 409 None))"
  by (simp_all add: error_answer_def validation_error_def product_not_found_def answer_def api_error_def dget_def)

lemma success_answer_simps [simp]:
  "code \<in> {200, 201} \<Longrightarrow> m \<noteq> [] \<Longrightarrow> success_answer (done_answer i code m)"
  "success_answer (answer (api_response PNone 204 (Some ''Product deleted.'') []))"
  by (auto simp: success_answer_def done_answer_def answer_def api_response_def dget_def dict_update_def dput_def Let_def)

text \<open>A view answers with success, or refuses and leaves the shop as it was.\<close>

definition clean :: "view_result result \<Rightarrow> shop_state \<Rightarrow> shop_state \<Rightarrow> bool" where
  "clean r s s' = (case r of Inl e \<Rightarrow> s' = s | Inr v \<Rightarrow> success_answer v \<or> error_answer v \<and> s' = s)"

lemma product_create_refused: "product_create seen p db = (Inl e, db') \<Longrightarrow> db' = db"
  by (cases rule: product_create_cases[of seen p db]) auto

lemma product_update_refused: "product_update i p db = (Inl e, db') \<Longrightarrow> db' = db"
  by (cases rule: product_update_cases[of i p db]) auto

lemma supplier_create_refused: "supplier_create p db = (Inl e, db') \<Longrightarrow> db' = db"
  by (auto simp: supplier_create_def split: sum.splits prod.splits)

lemmas refused_same = product_create_refused product_update_refused supplier_create_refused

lemma clean_catalog_views:
  "clean (fst (create_product seen body s)) s (snd (create_product seen body s))"
  "clean (fst (update_product i body s)) s (snd (update_product i body s))"
  "clean (fst (delete_product i s)) s (snd (delete_product i s))"
  "clean (fst (create_supplier body s)) s (snd (create_supplier body s))"
  by (auto simp: clean_def create_product_def update_product_def delete_product_def create_supplier_def
      split: sum.split prod.split option.split dest!: refused_same)

lemma clean_order: "clean (fst (create_purchase_order date_ok body s)) s (snd (create_purchase_order date_ok body s))"
  by (auto simp: clean_def create_purchase_order_def split: sum.split prod.split)

lemma clean_movement:
  assumes "books_ok s"
  shows "clean (fst (create_movement True seen uid body s)) s (snd (create_movement True seen uid body s))"
proof (cases "as_dict (json_body body)")
  case (Inl e) then show ?thesis by (simp add: clean_def create_movement_def)
next
  case (Inr p)
  show ?thesis
  proof (cases rule: movement_call_cases[of True seen uid p "shop_db s"])
    case (refused e)
    then show ?thesis
      using assms by (simp add: create_movement_def Inr clean_def with_db_same books_ok_distinct)
  next
    case (booked pid ty q ref nts i db al r)
    then show ?thesis by (simp add: create_movement_def Inr clean_def)
  qed
qed

definition audited :: "write_call \<Rightarrow> bool" where
  "audited c = (case c of PostMovement audit_ok seen body \<Rightarrow> audit_ok | _ \<Rightarrow> True)"

lemma clean_write_view:
  "books_ok s \<Longrightarrow> audited c \<Longrightarrow> clean (fst (write_view date_ok uid c s)) s (snd (write_view date_ok uid c s))"
  by (cases c) (auto simp: audited_def clean_catalog_views clean_order clean_movement)

lemma unrecordable: "success_answer v \<or> error_answer v \<Longrightarrow> recordable v = None"
  by (cases v) (auto simp: success_answer_def error_answer_def recordable_def)

text \<open>A view whose answers cannot be recorded leaves no trace in the key table, unless the release of its key
  fails: then its reservation stays.\<close>

definition reserved_only :: "http_request \<Rightarrow> int \<Rightarrow> int \<Rightarrow> idem_table \<Rightarrow> idem_table \<Rightarrow> bool" where
  "reserved_only rq uid now tab tab' = (\<exists>key. or_text (get_idempotency_key rq) None = Some key \<and> row_of (key, uid) tab = None \<and>
     tab' = tab @ [\<lparr>ik_key = key, ik_user = uid, ik_response = None, ik_created = now\<rparr>])"

lemma idempotent_answer:
  assumes run: "idempotent False now a b f rq (tab, w) = (r', tab', w')" and f: "f w = (r, w1)"
    and r: "\<And>v. r = Ok v \<Longrightarrow> recordable v = None" and u: "http_request.rq_user rq = Some uid"
  shows "(tab' = tab \<or> \<not> b \<and> reserved_only rq uid now tab tab') \<and>
    (w' = w1 \<and> (r' = r \<or> isl r \<and> isl r') \<or>
     w' = w \<and> ((\<exists>key. or_text (get_idempotency_key rq) None = Some key \<and> row_of (key, uid) tab \<noteq> None \<and> r' = replay key uid tab) \<or> isl r'))"
proof (cases "or_text (get_idempotency_key rq) None")
  case None
  then show ?thesis using run f by (simp add: idempotent_def)
next
  case (Some key)
  show ?thesis
  proof (cases "sp_idempotency_reserve now key uid tab")
    case (Inl e)
    then show ?thesis using run u Some by (auto simp: idempotent_def)
  next
    case (Inr x)
    obtain own tab1 where x: "x = (own, tab1)" by (cases x)
    have free: "own = (row_of (key, uid) tab = None)" using row_of_reserve[of now key uid tab own tab1] Inr x by simp
    show ?thesis
    proof (cases own)
      case False
      then have "tab1 = tab" using Inr x by (auto simp: sp_idempotency_reserve_def split: if_splits)
      then show ?thesis using run u Some Inr x False free by (auto simp: idempotent_def)
    next
      case True
      then have tab1: "tab1 = tab @ [\<lparr>ik_key = key, ik_user = uid, ik_response = None, ik_created = now\<rparr>]"
        using Inr x by (auto simp: sp_idempotency_reserve_def split: if_splits)
      have rel: "release_idempotency key uid tab1 = tab"
        unfolding tab1 by (rule release_reserved) (use True free in simp)
      have "tab' = (if b then tab else tab1) \<and> w' = w1 \<and> (r' = r \<or> isl r \<and> isl r')"
        using run u Some Inr x True f r rel by (cases r) (auto simp: idempotent_def settle_def)
      moreover have "reserved_only rq uid now tab tab1"
        unfolding reserved_only_def using Some True free tab1 by blast
      ultimately show ?thesis by (cases b) auto
    qed
  qed
qed

lemma clean_answer: "clean r s s' \<Longrightarrow> r = Inr v \<Longrightarrow> success_answer v \<or> error_answer v"
  by (auto simp: clean_def)

lemma write_view_typed:
  assumes "fst (write_view date_ok uid c s) = Inr v" shows "success_answer v \<or> error_answer v"
proof (cases c)
  case (PostMovement ok seen body)
  then show ?thesis using assms by (auto simp: create_movement_def split: sum.splits prod.splits)
qed (use assms clean_answer[OF clean_catalog_views(1)] clean_answer[OF clean_catalog_views(2)]
      clean_answer[OF clean_catalog_views(3)] clean_answer[OF clean_catalog_views(4)]
      clean_answer[OF clean_order] in auto)

text \<open>What a view may answer: granted with its own status, or refused with a code that fits its status and its
  cause.\<close>

definition granted :: "int \<Rightarrow> view_result \<Rightarrow> bool" where
  "granted code v = (\<exists>b. v = RespTuple b code \<and> dget b ''success'' = PBool True)"

definition refused_with :: "string \<Rightarrow> int \<Rightarrow> view_result \<Rightarrow> bool" where
  "refused_with code st v = (\<exists>m. v = RespTuple [(''success'', PBool False),
     (''error'', PDict [(''code'', PStr code), (''message'', PStr m)])] st)"


lemma granted_simps [simp]:
  "code \<in> {200, 201} \<Longrightarrow> m \<noteq> [] \<Longrightarrow> granted code (done_answer i code m)"
  "granted 204 (answer (api_response PNone 204 (Some ''Product deleted.'') []))"
  by (auto simp: granted_def done_answer_def answer_def api_response_def dget_def dict_update_def dput_def Let_def)

lemma refused_with_simps [simp]:
  "refused_with code st (answer (api_error code m st None))" "refused_with ''VALIDATION_ERROR'' 422 (validation_error e)"
  "refused_with ''PRODUCT_NOT_FOUND'' 404 product_not_found"
  by (simp_all add: refused_with_def answer_def api_error_def validation_error_def product_not_found_def)





lemma api_write_run:
  assumes "api_write date_ok who now up rq c (tab, s) = (out, tab', s')"
  obtains (forbidden) "role (snd who) \<notin> Some ` set WRITE_ROLES" "out = Aborted 403" "tab' = tab" "s' = s"
  | (served) "role (snd who) \<in> Some ` set WRITE_ROLES" "out = as_outcome (fst (write_view date_ok (fst who) c s))"
      "s' = snd (write_view date_ok (fst who) c s)" "tab' = tab \<or> \<not> snd up \<and> reserved_only rq (fst who) now tab tab'"
  | (unreleased) e where "role (snd who) \<in> Some ` set WRITE_ROLES" "out = Raised e" "isl (fst (write_view date_ok (fst who) c s))"
      "s' = snd (write_view date_ok (fst who) c s)" "tab' = tab \<or> \<not> snd up \<and> reserved_only rq (fst who) now tab tab'"
  | (replayed) key row where "role (snd who) \<in> Some ` set WRITE_ROLES" "or_text (get_idempotency_key rq) None = Some key"
      "row_of (key, fst who) tab = Some row" "s' = s" "out = as_outcome (replay key (fst who) tab)"
      "tab' = tab \<or> \<not> snd up \<and> reserved_only rq (fst who) now tab tab'"
  | (failed) e where "role (snd who) \<in> Some ` set WRITE_ROLES" "s' = s" "out = Raised e"
      "tab' = tab \<or> \<not> snd up \<and> reserved_only rq (fst who) now tab tab'"
proof (cases "role (snd who) \<notin> Some ` set WRITE_ROLES")
  case True
  then show ?thesis using assms forbidden by (simp add: api_write_def write_roles_required_def roles_required_def)
next
  case False
  let ?rq = "rq\<lparr>http_request.rq_user := Some (fst who)\<rparr>" and ?f = "write_view date_ok (fst who) c"
  obtain r t w where run: "idempotent False now (fst up) (snd up) ?f ?rq (tab, s) = (r, t, w)"
    by (metis prod_cases3)
  have out: "out = as_outcome r" "tab' = t" "s' = w"
    using assms False run by (auto simp: api_write_def write_roles_required_def roles_required_def)
  have same: "get_idempotency_key ?rq = get_idempotency_key rq" by (simp add: get_idempotency_key_def)
  have "recordable v = None" if "fst (?f s) = Ok v" for v
    using write_view_typed[OF that] by (rule unrecordable)
  note ans = idempotent_answer[OF run prod.collapse[symmetric] this, of "fst who", unfolded reserved_only_def same]
  from ans have t: "tab' = tab \<or> \<not> snd up \<and> reserved_only rq (fst who) now tab tab'"
    using out(2) by (auto simp: reserved_only_def)
  from ans consider "r = fst (?f s)" "w = snd (?f s)" | e where "r = Inl e" "isl (fst (?f s))" "w = snd (?f s)"
    | key row where "or_text (get_idempotency_key rq) None = Some key" "row_of (key, fst who) tab = Some row" "w = s"
        "r = replay key (fst who) tab"
    | e where "w = s" "r = Inl e"
    by (auto simp: isl_def)
  then show ?thesis
  proof cases
    case 1 then show ?thesis using False out t by (intro served) auto
  next
    case (2 e) then show ?thesis using False out t by (intro unreleased) (auto simp: as_outcome_def)
  next
    case (3 key row) then show ?thesis using False out t by (intro replayed) auto
  next
    case (4 e) then show ?thesis using False out t by (intro failed) (auto simp: as_outcome_def)
  qed
qed

text \<open>C9: A writing request of the REST interface changes the catalog, the ledger or a cache only if its
  answer tells success (200, 201 or 204 with a true success flag) and the user has a writing role; in
  every other case (403, 404, 409, 422, a replayed answer, an exception) the shop is what it was.  No
  request changes the key table, unless the statement that releases its key fails: then its own reservation, under a
  key that was free, stays without an answer.  The exception is a movement whose audit insert fails.\<close>

theorem refusals_change_nothing:
  assumes "books_ok s" and "audited c" and "api_write date_ok who now up rq c (tab, s) = (out, tab', s')"
  shows "(tab' = tab \<or> \<not> snd up \<and> reserved_only rq (fst who) now tab tab') \<and> (s' = s \<or>
    role (snd who) \<in> Some ` set WRITE_ROLES \<and> (\<exists>v. out = Returned v \<and> success_answer v))"
  using assms(3)
proof (cases rule: api_write_run)
  case served
  then show ?thesis using clean_write_view[OF assms(1,2), of date_ok "fst who"]
    by (auto simp: clean_def as_outcome_def split: sum.splits)
next
  case (unreleased e)
  then show ?thesis using clean_write_view[OF assms(1,2), of date_ok "fst who"]
    by (auto simp: clean_def isl_def)
qed auto


section \<open>Movements through the interface\<close>

text \<open>An accepted movement: the body is an object, and the service returns its id.\<close>

definition accepted :: "int \<Rightarrow> po_db \<Rightarrow> pyval option \<Rightarrow> shop_state \<Rightarrow> bool" where
  "accepted uid seen body s = (case as_dict (json_body body) of Inl e \<Rightarrow> False
     | Inr p \<Rightarrow> \<not> isl (fst (movement_call True seen uid p (shop_db s))))"

definition moved :: "pyval option \<Rightarrow> int \<times> int" where
  "moved body = (case bindE (as_dict (json_body body)) movement_args of Inl e \<Rightarrow> (0, 0)
     | Inr (pid, ty, q) \<Rightarrow> (pid, movement_delta ty q))"

lemma accepted_movement:
  assumes ok: "books_ok s" and acc: "accepted uid seen body s"
  shows "\<exists>i. fst (create_movement True seen uid body s) = Ok (done_answer i 201 ''Movement recorded.'')"
    and "stock_of k (shop_db (snd (create_movement True seen uid body s)))
      = stock_of k (shop_db s) + (if k = fst (moved body) then snd (moved body) else 0)"
    and "api_cache (sh_caches (snd (create_movement True seen uid body s)))
      = api_cache (snd (cache_bust_movements (sh_caches s)))"
proof -
  obtain p where p: "as_dict (json_body body) = Ok p" "\<not> isl (fst (movement_call True seen uid p (shop_db s)))"
    using acc by (auto simp: accepted_def split: sum.splits)
  have old: "po_db_ok (shop_db s)" using ok by (simp add: books_ok_def)
  then have inv: "inv_db_ok (shop_db s)" by (simp add: po_db_ok_def)
  have "(\<exists>i. fst (create_movement True seen uid body s) = Ok (done_answer i 201 ''Movement recorded.'')) \<and>
    stock_of k (shop_db (snd (create_movement True seen uid body s)))
      = stock_of k (shop_db s) + (if k = fst (moved body) then snd (moved body) else 0) \<and>
    api_cache (sh_caches (snd (create_movement True seen uid body s)))
      = api_cache (snd (cache_bust_movements (sh_caches s)))"
  proof (cases rule: movement_call_cases[of True seen uid p "shop_db s"])
    case (refused e) then show ?thesis using p(2) by simp
  next
    case (booked pid ty q ref nts i db al r)
    let ?db = "db\<lparr>audit_log := al\<rparr>"
    have "levels_only (shop_db s) ?db" using sp_movement_levels[OF booked(2)] by (simp add: audit_log_irrelevant)
    moreover have "distinct (map prod_id (products ?db))"
      using sp_movement_record_ok[OF booked(2) inv] by (simp add: inv_db_ok_def)
    ultimately have "shop_db (with_db ?db s) = ?db" by (rule shop_db_with)
    then show ?thesis using booked sp_movement_record_stock(1)[OF booked(2) inv, of k] p(1)
      by (auto simp: create_movement_def moved_def with_bust_def with_db_def Let_def shop_db_def)
  qed
  then show "\<exists>i. fst (create_movement True seen uid body s) = Ok (done_answer i 201 ''Movement recorded.'')"
    "stock_of k (shop_db (snd (create_movement True seen uid body s)))
      = stock_of k (shop_db s) + (if k = fst (moved body) then snd (moved body) else 0)"
    "api_cache (sh_caches (snd (create_movement True seen uid body s)))
      = api_cache (snd (cache_bust_movements (sh_caches s)))" by blast+
qed

text \<open>A keyed request of a writer under a free key runs the view and answers what it answers.\<close>

lemma api_write_fresh:
  assumes "role (snd who) \<in> Some ` set WRITE_ROLES"
    and "or_text (get_idempotency_key rq) None = Some key" "length key \<le> 128" "row_of (key, fst who) tab = None"
    and "write_view date_ok (fst who) c s = (Ok v, s1)"
  shows "api_write date_ok who now (a, True) rq c (tab, s) = (Returned v, tab, s1)"
proof -
  have k: "keyed (rq\<lparr>http_request.rq_user := Some (fst who)\<rparr>) key (fst who)"
    using assms(2) by (simp add: keyed_def get_idempotency_key_def)
  have "recordable v = None" using write_view_typed[of date_ok "fst who" c s v] assms(5) unrecordable by simp
  then have "idempotent False now a True (write_view date_ok (fst who) c)
      (rq\<lparr>http_request.rq_user := Some (fst who)\<rparr>) (tab, s) = (Ok v, tab, s1)"
    using idempotent_owned[where f = "write_view date_ok (fst who) c" and w = s, OF k assms(3,4,5)]
    by (simp add: settle_def release_reserved[OF assms(4)])
  then show ?thesis using assms(1)
    by (simp add: api_write_def write_roles_required_def roles_required_def as_outcome_def)
qed

text \<open>C10: A client that retries a movement with the same \<open>Idempotency-Key\<close> books it twice: the answer
  of the first request is not recorded and its key is released, so the second one runs the view again.\<close>

theorem retry_books_twice:
  assumes ok: "books_ok s" and w: "role (snd who) \<in> Some ` set WRITE_ROLES"
    and key: "or_text (get_idempotency_key rq) None = Some key" "length key \<le> 128" "row_of (key, fst who) tab = None"
    and first: "accepted (fst who) seen body s"
    and again: "accepted (fst who) seen2 body (snd (create_movement True seen (fst who) body s))"
  shows "\<exists>i j s1 s2.
    api_write date_ok who now (a, True) rq (PostMovement True seen body) (tab, s)
      = (Returned (done_answer i 201 ''Movement recorded.''), tab, s1) \<and>
    api_write date_ok who now2 (a2, True) rq (PostMovement True seen2 body) (tab, s1)
      = (Returned (done_answer j 201 ''Movement recorded.''), tab, s2) \<and>
    stock_of (fst (moved body)) (shop_db s2) = stock_of (fst (moved body)) (shop_db s) + 2 * snd (moved body)"
proof -
  let ?s1 = "snd (create_movement True seen (fst who) body s)"
  let ?s2 = "snd (create_movement True seen2 (fst who) body ?s1)"
  have ok1: "books_ok ?s1" using kept_create_movement[OF ok] by (simp add: books_kept_def)
  obtain i where i: "fst (create_movement True seen (fst who) body s) = Ok (done_answer i 201 ''Movement recorded.'')"
    using accepted_movement(1)[OF ok first] by blast
  obtain j where j: "fst (create_movement True seen2 (fst who) body ?s1) = Ok (done_answer j 201 ''Movement recorded.'')"
    using accepted_movement(1)[OF ok1 again] by blast
  have "api_write date_ok who now (a, True) rq (PostMovement True seen body) (tab, s)
      = (Returned (done_answer i 201 ''Movement recorded.''), tab, ?s1)"
    by (rule api_write_fresh[OF w key]) (simp add: prod_eq_iff i)
  moreover have "api_write date_ok who now2 (a2, True) rq (PostMovement True seen2 body) (tab, ?s1)
      = (Returned (done_answer j 201 ''Movement recorded.''), tab, ?s2)"
    by (rule api_write_fresh[OF w key]) (simp add: prod_eq_iff j)
  moreover have "stock_of (fst (moved body)) (shop_db ?s2) = stock_of (fst (moved body)) (shop_db s) + 2 * snd (moved body)"
    using accepted_movement(2)[OF ok first, of "fst (moved body)"] accepted_movement(2)[OF ok1 again, of "fst (moved body)"]
    by simp
  ultimately show ?thesis by blast
qed

text \<open>A movement leaves the cached answer of its product in place: the interface keeps answering the
  product as it was before, with its old stock, until the entry expires.\<close>

theorem movement_leaves_stale_product:
  assumes ok: "books_ok s" and acc: "accepted uid seen body s"
    and cached: "cache_lookup (api_cache (sh_caches s)) t1 (''product:'' @ int_str pid) = Some (AProduct (Some d))"
    and pid: "pid = fst (moved body)" and old: "pr_stock d = stock_of pid (shop_db s)"
  shows "case create_movement True seen uid body s of (r, s1) \<Rightarrow>
    fst (get_product (t1, t2, t3) pcts pid s1) = Returned (Found (AProduct (Some d))) \<and>
    stock_of pid (shop_db s1) = pr_stock d + snd (moved body)"
proof -
  let ?s1 = "snd (create_movement True seen uid body s)"
  have "cache_lookup (api_cache (sh_caches ?s1)) t1 (''product:'' @ int_str pid)
      = cache_lookup (api_cache (snd (cache_bust_movements (sh_caches s)))) t1 (''product:'' @ int_str pid)"
    using accepted_movement(3)[OF ok acc] by simp
  also have "\<dots> = Some (AProduct (Some d))"
    using cached by (simp add: cache_bust_movements_def api_lookup_busts)
  finally have "fst (get_product (t1, t2, t3) pcts pid ?s1) = Returned (Found (AProduct (Some d)))"
    by (simp add: get_product_def found_or_def cached_read_def get_or_set_alt absent_def)
  then show ?thesis using accepted_movement(2)[OF ok acc, of pid] pid old by (simp add: split_beta)
qed

section \<open>Product writes are read\<close>

text \<open>What the database answers.\<close>

definition product_answer :: "(real \<times> real) result \<Rightarrow> int \<Rightarrow> catalog \<Rightarrow> api_value reply outcome" where
  "product_answer pcts i cat = (if \<not> int4 i then Raised no_function
     else case repo_product_find pcts i cat of
        None \<Rightarrow> Returned (refused (api_error ''PRODUCT_NOT_FOUND'' ''Product not found.'' 404 None))
      | Some d \<Rightarrow> Returned (Found (AProduct (Some d))))"

definition products_answer ::
  "(product_row list \<Rightarrow> product_row list) \<Rightarrow> (real \<times> real) result \<Rightarrow> query_args \<Rightarrow> catalog \<Rightarrow> api_value reply outcome" where
  "products_answer by_sku pcts args cat =
     (let page = max (lenient_int args ''page'' 1) 1; per_page = min (max (lenient_int args ''per_page'' 20) 1) 100
      in if \<not> int4 ((page - 1) * min 100 (max 5 per_page)) then Raised no_function
         else Returned (Found (APage (list_products by_sku pcts (product_query args) page per_page cat))))"

lemma cached_read_miss:
  assumes "\<And>t. cache_lookup (api_cache (sh_caches s)) t k = None"
  shows "fst (cached_read ts k p s) = p"
proof -
  obtain t1 t2 t3 where ts: "ts = (t1, t2, t3)" by (cases ts)
  have "cache_lookup (cache_touch t1 k (api_cache (sh_caches s))) t2 k = None"
    using assms by (intro lookup_touch_same)
  then show ?thesis using assms by (simp add: cached_read_def ts get_or_set_alt split: prod.split sum.split)
qed

lemma product_keys_busted:
  "cache_lookup (api_cache (sh_caches (with_bust cache_bust_products s))) t (''product'' @ k) = None"
  by (simp add: with_bust_def cache_bust_products_def api_lookup_busts startswith_append)

lemma products_key_prefix: "\<exists>k. products_key q page per_page = ''product'' @ k"
  by (simp add: products_key_def make_key_def Let_def)

definition product_call :: "write_call \<Rightarrow> bool" where
  "product_call c = (case c of PostProduct seen body \<Rightarrow> True | PutProduct i body \<Rightarrow> True | RemoveProduct i \<Rightarrow> True | _ \<Rightarrow> False)"

lemma product_write_busts:
  assumes "product_call c" and "write_view date_ok uid c s = (Ok v, s')" and "success_answer v"
  shows "\<exists>s1. s' = with_bust cache_bust_products s1"
proof -
  have no: "\<not> success_answer v" if "error_answer v" for v
    using that by (auto simp: error_answer_def success_answer_def split: view_result.splits)
  show ?thesis using assms no
    by (cases c) (auto simp: product_call_def create_product_def update_product_def delete_product_def
        split: sum.splits prod.splits option.splits if_splits)
qed

text \<open>After a successful product request every product read of the REST interface, detail or list,
  answers what the database holds now.\<close>

theorem product_writes_are_read:
  assumes "product_call c" and "write_view date_ok uid c s = (Ok v, s')" and "success_answer v"
  shows "fst (get_product ts pcts i s') = product_answer pcts i (sh_catalog s') \<and>
    fst (api_list_products ts by_sku pcts args s') = products_answer by_sku pcts args (sh_catalog s')"
proof
  obtain s1 where s': "s' = with_bust cache_bust_products s1" using product_write_busts[OF assms] by blast
  have "cache_lookup (api_cache (sh_caches s')) t (''product:'' @ int_str i) = None" for t
    using product_keys_busted[of s1 t "'':'' @ int_str i"] by (simp add: s')
  from cached_read_miss[OF this]
  show "fst (get_product ts pcts i s') = product_answer pcts i (sh_catalog s')"
    by (auto simp: get_product_def found_or_def product_answer_def product_by_id_def absent_def
        split: option.split)
  have "cache_lookup (api_cache (sh_caches s')) t (products_key q page per_page) = None" for t q page per_page
    using products_key_prefix[of q page per_page] product_keys_busted[of s1 t] by (auto simp: s')
  from cached_read_miss[OF this]
  show "fst (api_list_products ts by_sku pcts args s') = products_answer by_sku pcts args (sh_catalog s')"
    by (simp add: api_list_products_def always_def products_answer_def Let_def)
qed

section \<open>Figures and exports\<close>

lemma length_filter_parts:
  assumes "\<And>r. r \<in> set rows \<Longrightarrow> A r = (P r \<and> Q r)" "\<And>r. r \<in> set rows \<Longrightarrow> B r = (P r \<and> \<not> Q r)"
  shows "length (filter A rows) + length (filter B rows) = length (filter P rows)"
  using assms by (induction rows) auto

lemma health_nonneg:
  "0 \<le> min (if n = 0 then 0 else round_even (of_int (max (int n - int m) 0) / of_int (max (int n) 1) * 100)) 100"
  using round_even_between[of 0 "real_of_int (max (int n - int m) 0) / real_of_int (max (int n) 1) * 100"
      "\<lceil>real_of_int (max (int n - int m) 0) / real_of_int (max (int n) 1) * 100\<rceil>"] by fastforce

text \<open>The live figures fit together: with a threshold from 0 to 100 percent every product that needs
  reordering is either critical or a warning, never both, no more than all products need it, and the
  health figure is a percentage.\<close>

theorem live_figures_consistent:
  assumes "catalog_ok cat" and "0 \<le> critical" "critical \<le> 100"
  shows "lv_critical (live_load critical cat db) + lv_warning (live_load critical cat db)
      = lv_reorder (live_load critical cat db) \<and>
    lv_reorder (live_load critical cat db) \<le> length (product_rows cat) \<and>
    0 \<le> lv_health (live_load critical cat db) \<and> lv_health (live_load critical cat db) \<le> 100"
proof -
  let ?rows = "product_rows cat" and ?v = "live_load critical cat db"
  have low: "of_int (pr_reorder r) * (critical / 100) \<le> real_of_int (pr_reorder r)" if "r \<in> set ?rows" for r
  proof -
    have "0 \<le> pr_reorder r" using assms(1) that by (auto simp: catalog_ok_def product_row_ok_def)
    then show ?thesis using assms(3) mult_left_mono[of "critical / 100" 1 "real_of_int (pr_reorder r)"] by simp
  qed
  have "lv_critical ?v + lv_warning ?v = lv_reorder ?v"
    unfolding live_load_def Let_def live_figures.simps
    by (rule length_filter_parts[where Q = "\<lambda>r. real_of_int (pr_stock r) \<le> of_int (pr_reorder r) * (critical / 100)"])
      (use low in \<open>force\<close>)+
  moreover have n: "lv_reorder ?v \<le> length ?rows" by (simp add: live_load_def Let_def)
  moreover have "0 \<le> lv_health ?v"
    unfolding live_load_def Let_def live_figures.simps by (rule health_nonneg)
  moreover have "lv_health ?v \<le> 100" by (simp add: live_load_def Let_def)
  ultimately show ?thesis by blast
qed

text \<open>Parameters that the movement list refuses with 400 produce an export with status 200 whose
  file is an error text: the service runs when the stream starts, after the handler's error paths.\<close>

theorem export_errors_are_files:
  assumes "int_arg args ''product_id'' = Ok pid" "int_arg args ''user_id'' = Ok uid"
    and "int_arg args ''limit'' = Ok None" "int_arg args ''page'' = Ok None" "int_arg args ''per_page'' = Ok None"
    and "arg_text args ''sort_by'' ''created_at'' \<notin> set sort_fields"
  shows "\<exists>m. api_export_movements env args s = Found (ErrorText (''Error: '' @ m @ [CHR 0x0A])) \<and>
    api_list_movements env args s = refused (api_error ''VALIDATION_ERROR'' m 400 None)"
  using assms
  by (simp add: api_export_movements_def api_list_movements_def movement_reply_def movement_stream_def
      Ledger.export_movements_def movement_rows_def Ledger.list_movements_def check_sort_def sort_args_def
      limit_arg_def page_size_def validation_400_def)

section \<open>A shop with nuts\<close>

definition nut_shop :: shop_state where
  "nut_shop = \<lparr>sh_catalog = nut_catalog, sh_db = (shop False (demo_product 5))\<lparr>user_ids := [7]\<rparr>,
     sh_caches = named_caches\<rparr>"

definition three_in :: "pyval option" where
  "three_in = Some (PDict [(''product_id'', PInt 1), (''type'', PStr '' in ''), (''quantity'', PInt 3)])"

definition nut_manager :: "int \<times> user" where
  "nut_manager = (7, \<lparr>role = Some ''manager'', job_role = None\<rparr>)"

lemma nut_manager_writes: "role (snd nut_manager) \<in> Some ` set WRITE_ROLES" "fst nut_manager = 7"
  by (simp_all add: nut_manager_def WRITE_ROLES_def)

lemma nut_books_ok: "books_ok nut_shop"
proof -
  have rows: "products (shop_db nut_shop) = [stock_view nut_row]"
    by (simp add: nut_shop_def nut_catalog_def no_catalog_def)
  have rest: "orders (shop_db nut_shop) = []" "movements (shop_db nut_shop) = []"
    by (simp_all add: nut_shop_def shop_def)
  have "po_db_ok (shop_db nut_shop)" unfolding po_db_ok_def inv_db_ok_def phantom_def outstanding_def
      on_order_of_def find_product_def rows rest
    by (simp add: stock_view_def nut_row_def)
  moreover have "sh_catalog nut_shop = nut_catalog" by (simp add: nut_shop_def)
  ultimately show ?thesis by (simp add: books_ok_def nut_catalog_ok)
qed

lemma three_in_accepted: "accepted 7 (shop_db nut_shop) three_in nut_shop"
  by code_simp

lemma three_in_moved: "moved three_in = (1, 3)"
  by code_simp

lemma nut_stock: "stock_of 1 (shop_db nut_shop) = 5"
  by code_simp

theorem api_keeps_books_witness:
  "case run (api_step (\<lambda>d. True)) [Read (ReadProduct (1, 1, 1) (Ok (20, 10)) 1),
      Write nut_manager 0 (True, True) demo_rq (PostMovement True (shop_db nut_shop) three_in),
      Write nut_manager 0 (True, True) demo_rq (RemoveProduct 1)] ([], nut_shop) of (tab', s') \<Rightarrow>
    books_ok s' \<and> stock_of 1 (shop_db s') - 5 = ledger_sum 1 (shop_db s') - ledger_sum 1 (shop_db nut_shop)"
proof -
  have "product_at 1 (sh_catalog nut_shop) \<noteq> None"
    by (simp add: nut_shop_def nut_catalog_def product_at_def nut_row_def)
  then show ?thesis using api_keeps_books[OF nut_books_ok, of "\<lambda>d. True"
      "[Read (ReadProduct (1, 1, 1) (Ok (20, 10)) 1),
      Write nut_manager 0 (True, True) demo_rq (PostMovement True (shop_db nut_shop) three_in),
      Write nut_manager 0 (True, True) demo_rq (RemoveProduct 1)]" "[]"] nut_stock
    by (auto split: prod.split)
qed

theorem refusals_change_nothing_witness:
  "snd (snd (api_write (\<lambda>d. True) (8, \<lparr>role = Some ''viewer'', job_role = None\<rparr>) 0 (True, True) demo_rq
     (PostMovement True (shop_db nut_shop) three_in) ([], nut_shop))) = nut_shop"
proof -
  let ?who = "(8, \<lparr>role = Some ''viewer'', job_role = None\<rparr>)"
  obtain out tab' s' where r: "api_write (\<lambda>d. True) ?who 0 (True, True) demo_rq
     (PostMovement True (shop_db nut_shop) three_in) ([], nut_shop) = (out, tab', s')" by (metis prod_cases3)
  show ?thesis using refusals_change_nothing[OF nut_books_ok _ r] r
    by (auto simp: audited_def WRITE_ROLES_def)
qed


lemma demo_key: "or_text (get_idempotency_key demo_rq) None = Some ''k1''"
  by code_simp

lemma three_in_accepted_again:
  "accepted 7 (shop_db nut_shop) three_in (snd (create_movement True (shop_db nut_shop) 7 three_in nut_shop))"
  by code_simp

theorem retry_books_twice_witness:
  "\<exists>i j s1 s2.
    api_write (\<lambda>d. True) nut_manager 0 (True, True) demo_rq (PostMovement True (shop_db nut_shop) three_in) ([], nut_shop)
      = (Returned (done_answer i 201 ''Movement recorded.''), [], s1) \<and>
    api_write (\<lambda>d. True) nut_manager 5 (True, True) demo_rq (PostMovement True (shop_db nut_shop) three_in) ([], s1)
      = (Returned (done_answer j 201 ''Movement recorded.''), [], s2) \<and> stock_of 1 (shop_db s2) = 11"
  using retry_books_twice[OF nut_books_ok nut_manager_writes(1) demo_key, of "[]" "shop_db nut_shop" three_in
      "shop_db nut_shop" "\<lambda>d. True" 0 True 5 True] three_in_accepted three_in_accepted_again nut_stock
  by (simp add: nut_manager_writes three_in_moved)

definition cached_nut :: decorated where "cached_nut = decorate (Ok (20, 10)) nut_row"

definition warm_shop :: shop_state where
  "warm_shop = nut_shop\<lparr>sh_caches := named_caches\<lparr>api_cache :=
     cache_set 0 ''product:1'' (AProduct (Some cached_nut)) None (new_cache 120 100)\<rparr>\<rparr>"

lemma warm_shop_db: "shop_db warm_shop = shop_db nut_shop" "sh_catalog warm_shop = sh_catalog nut_shop"
  by (simp_all add: warm_shop_def shop_db_def)

lemma cached_nut_stock: "pr_stock cached_nut = 5"
  by (simp add: cached_nut_def decorate_def product_row.defs nut_row_def split_beta Let_def)

lemma warm_lookup: "cache_lookup (api_cache (sh_caches warm_shop)) 60 ''product:1'' = Some (AProduct (Some cached_nut))"
  by (simp add: warm_shop_def cache_lookup_def cache_set_def new_cache_def popitems.simps)

theorem movement_leaves_stale_product_witness:
  "case create_movement True (shop_db nut_shop) 7 three_in warm_shop of (r, s1) \<Rightarrow>
    fst (get_product (60, 60, 60) (Ok (20, 10)) 1 s1) = Returned (Found (AProduct (Some cached_nut))) \<and>
    pr_stock cached_nut = 5 \<and> stock_of 1 (shop_db s1) = 8"
proof -
  have ok: "books_ok warm_shop" using nut_books_ok by (simp add: books_ok_def warm_shop_db)
  have acc: "accepted 7 (shop_db nut_shop) three_in warm_shop"
    using three_in_accepted by (simp only: accepted_def warm_shop_db)
  have one: "int_str 1 = ''1''" by code_simp
  show ?thesis
    using movement_leaves_stale_product[OF ok acc, of 60 1 cached_nut 60 60 "Ok (20, 10)"] warm_lookup nut_stock
    by (simp add: one three_in_moved cached_nut_stock warm_shop_db split_beta)
qed

theorem product_writes_are_read_witness:
  "fst (get_product (1, 2, 3) (Ok (20, 10)) 1 (snd (delete_product 1 warm_shop)))
    = Returned (refused (api_error ''PRODUCT_NOT_FOUND'' ''Product not found.'' 404 None))"
proof -
  have f: "product_by_id 1 warm_shop = Ok (Some nut_row)"
    by (simp add: product_by_id_def int4_def sp_product_find_def warm_shop_db)
      (simp add: nut_shop_def nut_catalog_def nut_row_def)
  have w: "write_view (\<lambda>d. True) 7 (RemoveProduct 1) warm_shop
      = (Ok (answer (api_response PNone 204 (Some ''Product deleted.'') [])), snd (delete_product 1 warm_shop))"
    by (simp add: delete_product_def f)
  have gone: "sp_product_find 1 (sh_catalog (snd (delete_product 1 warm_shop))) = None"
    by (simp add: delete_product_def f product_delete_def sp_product_delete_def sp_product_find_def
        set_product_row_rows warm_shop_db) (simp add: nut_shop_def nut_catalog_def nut_row_def update_where_def)
  show ?thesis
    using product_writes_are_read[OF _ w, of "(1, 2, 3)" "Ok (20, 10)" 1 id "[]"] gone
    by (simp add: product_call_def product_answer_def int4_def repo_product_find_def)
qed

theorem live_figures_consistent_witness:
  "lv_critical (live_load 10 nut_catalog (shop_db nut_shop)) + lv_warning (live_load 10 nut_catalog (shop_db nut_shop)) = 1"
  using live_figures_consistent[OF nut_catalog_ok, of 10 "shop_db nut_shop"]
  by (simp add: live_load_def Let_def nut_catalog_def nut_row_def)

definition any_env :: sql_env where
  "any_env = \<lparr>iso_ok = (\<lambda>d. True), cast_ok = (\<lambda>d. True), day_of = (\<lambda>d. 0), order_by = (\<lambda>f a ms. ms)\<rparr>"

theorem export_errors_are_files_witness:
  "\<exists>m. api_export_movements any_env [(''sort_by'', ''colour'')] nut_shop = Found (ErrorText (''Error: '' @ m @ [CHR 0x0A])) \<and>
    api_list_movements any_env [(''sort_by'', ''colour'')] nut_shop = refused (api_error ''VALIDATION_ERROR'' m 400 None)"
  using export_errors_are_files[of "[(''sort_by'', ''colour'')]" None None any_env nut_shop]
  by (simp add: int_arg_def text_or_none_def arg_text_def sort_fields_def)

end
