(* ===== verification/AuditLog.thy ===== *)
theory AuditLog
  imports Roles Auth
begin

text \<open>The audit log: recording (\<open>app/repositories/audit_repo.py\<close>), the hash chain over the table
  \<open>audit_log\<close> (\<open>migrations/versions/20261012_audit_hash_chain.py\<close>), its verification with the endpoint
  of \<open>app/routes/admin/audit_report_routes.py\<close>, and the retention purge.  The digest and the text form of
  a timestamp are parameters.\<close>

section \<open>The hash chain\<close>

record log_row =
  lg_id :: int
  lg_user :: "int option"
  lg_action :: string
  lg_type :: "string option"
  lg_target :: "int option"
  lg_detail :: "string option"
  lg_ip :: "string option"
  lg_at :: int
  lg_prev :: "string option"
  lg_hash :: "string option"

record digest =
  sha :: "string \<Rightarrow> string"
  stamp :: "int \<Rightarrow> string"

definition opt_text :: "string option \<Rightarrow> string" where
  "opt_text v = (case v of None \<Rightarrow> [] | Some s \<Rightarrow> s)"

text \<open>\<open>detail\<close> is the text of the JSONB value.\<close>

definition hash_input :: "digest \<Rightarrow> string option \<Rightarrow> log_row \<Rightarrow> string" where
  "hash_input h prev r = joins ''|'' [opt_text prev, opt_text (map_option int_str (lg_user r)), lg_action r,
     opt_text (lg_type r), opt_text (map_option int_str (lg_target r)), opt_text (lg_detail r),
     opt_text (lg_ip r), stamp h (lg_at r)]"

definition sp_audit_compute_hash :: "digest \<Rightarrow> string option \<Rightarrow> log_row \<Rightarrow> string" where
  "sp_audit_compute_hash h prev r = sha h (hash_input h prev r)"

definition by_id :: "log_row list \<Rightarrow> log_row list" where "by_id rows = sort_key lg_id rows"

definition last_hash :: "log_row list \<Rightarrow> string option" where
  "last_hash rows = (if rows = [] then None else lg_hash (last (by_id rows)))"

text \<open>The row that the insert trigger makes of the values, under the advisory lock.\<close>

definition chained :: "digest \<Rightarrow> log_row list \<Rightarrow> log_row \<Rightarrow> log_row" where
  "chained h rows r = r\<lparr>lg_prev := last_hash rows, lg_hash := Some (sp_audit_compute_hash h (last_hash rows) r)\<rparr>"

definition append_row :: "digest \<Rightarrow> log_row \<Rightarrow> log_row list \<Rightarrow> log_row list" where
  "append_row h r rows = rows @ [chained h rows r]"

text \<open>The backfill of the migration: the rows without a hash, in the order of their ids.\<close>

definition backfill1 :: "digest \<Rightarrow> string option \<times> log_row list \<Rightarrow> log_row \<Rightarrow> string option \<times> log_row list" where
  "backfill1 h acc r = (case acc of (prev, rows) \<Rightarrow>
     let v = Some (sp_audit_compute_hash h prev r) in
     (v, update_where (\<lambda>x. lg_id x = lg_id r) (\<lambda>x. x\<lparr>lg_prev := prev, lg_hash := v\<rparr>) rows))"

definition backfill :: "digest \<Rightarrow> log_row list \<Rightarrow> log_row list" where
  "backfill h rows =
     (let done = by_id (filter (\<lambda>r. lg_hash r \<noteq> None) rows);
          prev = (if done = [] then None else lg_hash (last done))
      in snd (foldl (backfill1 h) (prev, rows) (by_id (filter (\<lambda>r. lg_hash r = None) rows))))"

section \<open>Verification of the chain\<close>

record integrity =
  rows_checked :: nat
  broken_links :: nat
  bad_hashes :: nat
  first_broken :: "int option"

text \<open>One iteration: the hash expected as predecessor, and the counts.\<close>

definition verify_row :: "digest \<Rightarrow> string option \<times> integrity \<Rightarrow> log_row \<Rightarrow> string option \<times> integrity" where
  "verify_row h acc r = (case acc of (want, v) \<Rightarrow>
     let link = (want \<noteq> None \<and> opt_text (lg_prev r) \<noteq> opt_text want);
         content = (opt_text (lg_hash r) \<noteq> sp_audit_compute_hash h (lg_prev r) r);
         found = (\<lambda>b f. if b \<and> f = None then Some (lg_id r) else f)
     in (lg_hash r, \<lparr>rows_checked = rows_checked v + 1, broken_links = broken_links v + (if link then 1 else 0),
          bad_hashes = bad_hashes v + (if content then 1 else 0),
          first_broken = found content (found link (first_broken v))\<rparr>))"

definition recent :: "nat \<Rightarrow> log_row list \<Rightarrow> log_row list" where
  "recent n rows = drop (length rows - n) (by_id rows)"

definition sp_audit_verify_integrity :: "digest \<Rightarrow> nat \<Rightarrow> log_row list \<Rightarrow> integrity" where
  "sp_audit_verify_integrity h n rows = snd (foldl (verify_row h)
     (None, \<lparr>rows_checked = 0, broken_links = 0, bad_hashes = 0, first_broken = None\<rparr>) (recent n rows))"

definition intact :: "integrity \<Rightarrow> bool" where
  "intact v = (broken_links v = 0 \<and> bad_hashes v = 0)"

text \<open>The endpoint unpacks the row that the cursor returned.  The cursor is a \<open>RealDictCursor\<close>: a row
  is a dict, and unpacking a dict yields its keys.\<close>

definition integrity_row :: "integrity \<Rightarrow> payload" where
  "integrity_row v = [(''rows_checked'', PInt (int (rows_checked v))), (''broken_links'', PInt (int (broken_links v))),
     (''bad_hashes'', PInt (int (bad_hashes v))),
     (''first_broken_id'', case first_broken v of None \<Rightarrow> PNone | Some i \<Rightarrow> PInt i)]"

definition zero_or_none :: "pyval \<Rightarrow> bool" where
  "zero_or_none v = (py_or v (PInt 0) = PInt 0)"

definition verify_audit_integrity :: "user \<Rightarrow> digest \<Rightarrow> string option \<Rightarrow> log_row list \<Rightarrow> payload outcome" where
  "verify_audit_integrity u h arg rows = fst (write_roles_required u (\<lambda>s.
     let limit = min (max (case arg of None \<Rightarrow> 5000 | Some t \<Rightarrow> (case parse_int t of Some i \<Rightarrow> i | None \<Rightarrow> 5000)) 1) 50000;
         row = map (\<lambda>kv. PStr (fst kv)) (integrity_row (sp_audit_verify_integrity h (nat limit) rows))
     in (case row of
       [checked, broken, bad, first] \<Rightarrow>
         (Returned [(''success'', PBool True), (''intact'', PBool (zero_or_none broken \<and> zero_or_none bad)),
           (''rows_checked'', checked), (''broken_links'', broken), (''bad_hashes'', bad),
           (''first_broken_id'', first), (''limit'', PInt limit)], s)
     | _ \<Rightarrow> (Raised (ValueError ''not enough values to unpack''), s))) ())"

text \<open>Retention: \<open>sp_retention_purge_audit_log\<close>.\<close>

definition purge_log :: "int \<Rightarrow> log_row list \<Rightarrow> log_row list" where
  "purge_log cutoff rows = filter (\<lambda>r. \<not> lg_at r < cutoff) rows"

text \<open>A small digest and a row to evaluate the model with: the digest tells texts of even and of odd length
  apart.\<close>

definition toy_digest :: digest where
  "toy_digest = \<lparr>sha = \<lambda>t. if even (length t) then ''e'' else ''o'', stamp = \<lambda>t. int_str t\<rparr>"

definition toy_row :: log_row where
  "toy_row = \<lparr>lg_id = 1, lg_user = Some 7, lg_action = ''login'', lg_type = Some ''user'', lg_target = None,
     lg_detail = None, lg_ip = None, lg_at = 5, lg_prev = None, lg_hash = None\<rparr>"

definition toy_log :: "log_row list" where
  "toy_log = [toy_row\<lparr>lg_hash := Some ''e''\<rparr>,
     toy_row\<lparr>lg_id := 2, lg_prev := Some ''e'', lg_hash := Some ''o''\<rparr>]"

section \<open>What an intact chain is\<close>

fun linked :: "digest \<Rightarrow> string option \<Rightarrow> log_row list \<Rightarrow> bool" where
  "linked h want [] = True"
| "linked h want (r # rs) = ((want \<noteq> None \<longrightarrow> opt_text (lg_prev r) = opt_text want) \<and>
     opt_text (lg_hash r) = sp_audit_compute_hash h (lg_prev r) r \<and> linked h (lg_hash r) rs)"

lemma verify_fold:
  "intact (snd (foldl (verify_row h) (want, v) rs)) = (intact v \<and> linked h want rs)"
proof (induction rs arbitrary: want v)
  case (Cons r rs)
  then show ?case by (auto simp: verify_row_def intact_def Let_def)
qed simp

lemma verify_count: "rows_checked (snd (foldl (verify_row h) (want, v) rs)) = rows_checked v + length rs"
  by (induction rs arbitrary: want v) (auto simp: verify_row_def Let_def)

lemma intact_iff: "intact (sp_audit_verify_integrity h n rows) = linked h None (recent n rows)"
  by (simp add: sp_audit_verify_integrity_def verify_fold) (simp add: intact_def)

lemma checked_count: "rows_checked (sp_audit_verify_integrity h n rows) = length (recent n rows)"
  by (simp add: sp_audit_verify_integrity_def verify_count)

lemma linked_append:
  "linked h want (xs @ ys) = (linked h want xs \<and> linked h (if xs = [] then want else lg_hash (last xs)) ys)"
  by (induction xs arbitrary: want) auto

lemma linked_weaken: "linked h want rs \<Longrightarrow> linked h None rs"
  by (cases rs) auto

lemma linked_suffix: "linked h want xs \<Longrightarrow> linked h None (drop n xs)"
  by (metis append_take_drop_id linked_append linked_weaken)

section \<open>Appending and purging\<close>

record log_world =
  lw_rows :: "log_row list"
  lw_next :: int
  lw_now :: int

datatype log_op = Append nat log_row | Purge int

fun log_step :: "digest \<Rightarrow> log_op \<Rightarrow> log_world \<Rightarrow> log_world" where
  "log_step h (Append dt r) w = (let now = lw_now w + int dt in w\<lparr>lw_now := now, lw_next := lw_next w + 1,
     lw_rows := append_row h (r\<lparr>lg_id := lw_next w, lg_at := now\<rparr>) (lw_rows w)\<rparr>)"
| "log_step h (Purge days) w = w\<lparr>lw_rows := purge_log (lw_now w - days) (lw_rows w)\<rparr>"

definition log_inv :: "digest \<Rightarrow> log_world \<Rightarrow> bool" where
  "log_inv h w = (sorted_wrt (<) (map lg_id (lw_rows w)) \<and> (\<forall>r\<in>set (lw_rows w). lg_id r < lw_next w \<and> lg_at r \<le> lw_now w) \<and>
     sorted (map lg_at (lw_rows w)) \<and> linked h None (lw_rows w))"

lemma by_id_sorted: "sorted_wrt (<) (map lg_id rows) \<Longrightarrow> by_id rows = rows"
  by (simp add: by_id_def sorted_sort_id sort_key_id_if_sorted strict_sorted_imp_sorted)

lemma filter_sorted_drop:
  fixes c :: int
  shows "sorted (map f xs) \<Longrightarrow> \<exists>k. filter (\<lambda>x. \<not> f x < c) xs = drop k xs"
proof (induction xs)
  case (Cons x xs)
  show ?case
  proof (cases "f x < c")
    case True
    then obtain k where "filter (\<lambda>x. \<not> f x < c) xs = drop k xs" using Cons by auto
    then show ?thesis using True by (intro exI[of _ "Suc k"]) simp
  next
    case False
    then have "filter (\<lambda>x. \<not> f x < c) (x # xs) = drop 0 (x # xs)"
      using Cons.prems by (auto intro!: filter_True)
    then show ?thesis by blast
  qed
qed simp

lemma log_inv_append:
  assumes "log_inv h w" shows "log_inv h (log_step h (Append dt r) w)"
proof -
  have "last_hash (lw_rows w) = (if lw_rows w = [] then None else lg_hash (last (lw_rows w)))"
    using assms by (simp add: last_hash_def log_inv_def by_id_sorted)
  then show ?thesis using assms
    by (fastforce simp: log_inv_def Let_def append_row_def chained_def sorted_wrt_append linked_append
        sp_audit_compute_hash_def hash_input_def opt_text_def)
qed

lemma log_inv_purge: assumes "log_inv h w" shows "log_inv h (log_step h (Purge days) w)"
proof -
  obtain k where k: "purge_log (lw_now w - days) (lw_rows w) = drop k (lw_rows w)"
    using filter_sorted_drop[of lg_at "lw_rows w"] assms unfolding purge_log_def log_inv_def by blast
  have "sorted_wrt (<) (map lg_id (drop k (lw_rows w)))" "sorted (map lg_at (drop k (lw_rows w)))"
    using assms by (auto simp: log_inv_def drop_map[symmetric] sorted_wrt_drop)
  moreover have "linked h None (drop k (lw_rows w))" using assms linked_suffix by (auto simp: log_inv_def)
  ultimately show ?thesis using assms by (auto simp: log_inv_def k dest: in_set_dropD)
qed

interpretation log_chain: op_system "log_step h" "log_inv h" for h
proof unfold_locales
  show "log_inv h w \<Longrightarrow> log_inv h (log_step h x w)" for h x w
    by (cases x) (use log_inv_append log_inv_purge in auto)
qed

text \<open>C26: Rows appended one after another keep the hash chain intact: after any sequence of inserts and
  retention purges a verification of any length finds no broken link and no bad hash, and it looks at as
  many rows as it was asked to, or all.\<close>

theorem audit_chain_intact:
  assumes "log_inv h w"
  shows "intact (sp_audit_verify_integrity h n (lw_rows (run (log_step h) ops w))) \<and>
    rows_checked (sp_audit_verify_integrity h n (lw_rows (run (log_step h) ops w)))
      = min n (length (lw_rows (run (log_step h) ops w)))"
proof -
  have inv: "log_inv h (run (log_step h) ops w)" by (rule log_chain.inv_run[OF assms])
  then have "linked h None (lw_rows (run (log_step h) ops w))" by (simp add: log_inv_def)
  then show ?thesis using inv
    by (auto simp: intact_iff checked_count recent_def log_inv_def by_id_sorted linked_suffix)
qed

theorem audit_chain_intact_witness:
  "log_inv toy_digest \<lparr>lw_rows = [], lw_next = 1, lw_now = 0\<rparr> \<and>
   intact (sp_audit_verify_integrity toy_digest 10 (lw_rows (run (log_step toy_digest)
     [Append 3 toy_row, Append 4 toy_row, Purge 5, Append 1 toy_row] \<lparr>lw_rows = [], lw_next = 1, lw_now = 0\<rparr>)))"
proof -
  have w: "log_inv toy_digest \<lparr>lw_rows = [], lw_next = 1, lw_now = 0\<rparr>" by (simp add: log_inv_def)
  show ?thesis using w audit_chain_intact[OF w, of 10 "[Append 3 toy_row, Append 4 toy_row, Purge 5, Append 1 toy_row]"]
    by blast
qed

section \<open>What verification shows\<close>

lemma joins_cons: "xs \<noteq> [] \<Longrightarrow> joins sep (x # xs) = x @ sep @ joins sep xs"
  by (cases xs) simp_all

text \<open>The predecessor's hash can be read off the input of a row, when it has the length of a digest.\<close>

lemma hash_input_prev:
  assumes "hash_input h p r = hash_input h p' r'" and "length (opt_text p) = length (opt_text p')"
  shows "opt_text p = opt_text p'"
  using assms by (simp add: hash_input_def joins_cons)

lemma linked_snoc:
  "linked h None (xs @ [r]) \<Longrightarrow> linked h None xs \<and> opt_text (lg_hash r) = sp_audit_compute_hash h (lg_prev r) r \<and>
    (xs \<noteq> [] \<longrightarrow> lg_hash (last xs) \<noteq> None \<longrightarrow> opt_text (lg_prev r) = opt_text (lg_hash (last xs)))"
  by (auto simp: linked_append split: if_splits)

definition inputs :: "digest \<Rightarrow> log_row list \<Rightarrow> string list" where
  "inputs h rows = map (\<lambda>r. hash_input h (lg_prev r) r) rows"

lemma linked_hash_length:
  assumes "linked h want xs" and "\<And>t. length (sha h t) = k" and "r \<in> set xs"
  shows "length (opt_text (lg_hash r)) = k"
  using assms by (induction xs arbitrary: want) (auto simp: sp_audit_compute_hash_def)

lemma same_head_same_inputs:
  assumes k: "\<And>t. length (sha h t) = k" "0 < k"
    and "linked h None xs" "linked h None ys" "length xs = length ys"
    and "inj_on (sha h) (set (inputs h (xs @ ys)))"
    and "xs \<noteq> [] \<Longrightarrow> opt_text (lg_hash (last xs)) = opt_text (lg_hash (last ys))"
  shows "inputs h xs = inputs h ys"
  using assms(3-)
proof (induction xs arbitrary: ys rule: rev_induct)
  case (snoc r xs)
  obtain ys' s where ys: "ys = ys' @ [s]" using snoc.prems(3) by (cases ys rule: rev_cases) auto
  note X = linked_snoc[OF snoc.prems(1)]
  note Y = linked_snoc[OF snoc.prems(2)[unfolded ys]]
  have inj: "inj_on (sha h) (set (inputs h (xs @ ys')))"
    using snoc.prems(4) by (rule inj_on_subset) (auto simp: inputs_def ys)
  have "sha h (hash_input h (lg_prev r) r) = sha h (hash_input h (lg_prev s) s)"
    using X Y snoc.prems(5) by (simp add: ys sp_audit_compute_hash_def)
  then have i: "hash_input h (lg_prev r) r = hash_input h (lg_prev s) s"
    by (rule inj_onD[OF snoc.prems(4)]) (simp_all add: inputs_def ys)
  have "opt_text (lg_hash (last xs)) = opt_text (lg_hash (last ys'))" if "xs \<noteq> []"
  proof -
    have ne: "ys' \<noteq> []" using that snoc.prems(3) ys by auto
    have "length (opt_text (lg_hash (last xs))) = k" "length (opt_text (lg_hash (last ys'))) = k"
      using linked_hash_length[OF _ k(1)] X Y that ne by auto
    moreover from this have "lg_hash (last xs) \<noteq> None" "lg_hash (last ys') \<noteq> None"
      using k(2) by (auto simp: opt_text_def split: option.splits)
    ultimately show ?thesis using X Y hash_input_prev[OF i] that ne by auto
  qed
  then have "inputs h xs = inputs h ys'" using snoc.IH[OF _ _ _ inj] X Y snoc.prems(3) ys by auto
  then show ?case using i by (simp add: inputs_def ys)
qed (simp add: inputs_def)

text \<open>C27: Tamper evidence.  Two logs of the same length that both pass a full verification and end in the
  same hash were hashed over the same texts, row by row, unless the digest collides on the texts involved:
  whoever changes an old row so that the text its hash is taken over changes cannot keep both the verification
  and a head hash that was noted elsewhere.  The text is the fields joined by bars, without the row id; a change
  that keeps the text (another id in the same order, or what stands on both sides of a bar inside a field moved
  to the next field) is not detected.\<close>

theorem tamper_evidence:
  assumes "\<And>t. length (sha h t) = k" "0 < k"
    and "inj_on (sha h) (set (inputs h (by_id a @ by_id b)))"
    and "intact (sp_audit_verify_integrity h (length a) a)" "intact (sp_audit_verify_integrity h (length b) b)"
    and "length a = length b" "last_hash a = last_hash b"
  shows "inputs h (by_id a) = inputs h (by_id b)"
proof (rule same_head_same_inputs[OF assms(1,2)])
  show "linked h None (by_id a)" "linked h None (by_id b)"
    using assms(4,5) by (simp_all add: intact_iff recent_def)
  show "length (by_id a) = length (by_id b)" using assms(6) by (simp add: by_id_def)
  show "opt_text (lg_hash (last (by_id a))) = opt_text (lg_hash (last (by_id b)))" if "by_id a \<noteq> []"
  proof -
    have "a \<noteq> []" using that by (auto simp: by_id_def)
    then show ?thesis using assms(6,7) by (auto simp: last_hash_def split: if_splits)
  qed
qed (rule assms(3))

theorem tamper_evidence_witness:
  "inj_on (sha toy_digest) (set (inputs toy_digest (by_id toy_log @ by_id (rev toy_log)))) \<and>
   intact (sp_audit_verify_integrity toy_digest 2 toy_log) \<and> last_hash toy_log = last_hash (rev toy_log) \<and>
   inputs toy_digest (by_id toy_log) = inputs toy_digest (by_id (rev toy_log))"
proof -
  have i: "inj_on (sha toy_digest) (set (inputs toy_digest (by_id toy_log @ by_id (rev toy_log))))"
    unfolding inj_on_def by code_simp
  have l: "length toy_log = 2" by (simp add: toy_log_def)
  have ok: "intact (sp_audit_verify_integrity toy_digest 2 toy_log)"
    "intact (sp_audit_verify_integrity toy_digest 2 (rev toy_log))" "last_hash toy_log = last_hash (rev toy_log)"
    by code_simp+
  have "length (sha toy_digest t) = 1" for t by (simp add: toy_digest_def)
  then show ?thesis using i ok l tamper_evidence[of toy_digest 1 toy_log "rev toy_log"] by simp
qed

text \<open>What the hash does not see: the fields are joined by a bar that they may contain.\<close>

lemma bar_moves:
  "hash_input h p (r\<lparr>lg_action := a @ ''|'' @ b, lg_type := Some c\<rparr>)
    = hash_input h p (r\<lparr>lg_action := a, lg_type := Some (b @ ''|'' @ c)\<rparr>)"
  by (simp add: hash_input_def joins_cons opt_text_def)

lemma verify_row_cong:
  assumes "lg_id r' = lg_id r" "lg_prev r' = lg_prev r" "lg_hash r' = lg_hash r"
    and "hash_input h (lg_prev r) r' = hash_input h (lg_prev r) r"
  shows "verify_row h acc r' = verify_row h acc r"
  using assms by (cases acc) (simp add: verify_row_def sp_audit_compute_hash_def Let_def)

lemma foldl_map_cong: "(\<And>acc x. x \<in> set xs \<Longrightarrow> f acc (g x) = f acc x) \<Longrightarrow> foldl f acc (map g xs) = foldl f acc xs"
  by (induction xs arbitrary: acc) auto

lemma by_id_map: "(\<And>r. lg_id (g r) = lg_id r) \<Longrightarrow> by_id (map g rows) = map g (by_id rows)"
  unfolding by_id_def
proof (induction rows)
  case (Cons r rows)
  have "insort_key lg_id (g x) (map g ys) = map g (insort_key lg_id x ys)" for x ys
    by (induction ys) (use Cons.prems in auto)
  then show ?case using Cons by simp
qed simp

text \<open>The chain does not protect the boundary between two fields.  A row whose action contains a bar can
  be rewritten so that what follows the bar moves into the target type; with any digest whatsoever every
  verification answers what it answered before.\<close>

theorem moved_bar_undetected:
  assumes "\<And>r. r \<in> set rows \<Longrightarrow> lg_id r = i \<Longrightarrow> lg_action r = a @ ''|'' @ b \<and> lg_type r = Some c"
  shows "sp_audit_verify_integrity h n (map (\<lambda>r. if lg_id r = i
      then r\<lparr>lg_action := a, lg_type := Some (b @ ''|'' @ c)\<rparr> else r) rows) = sp_audit_verify_integrity h n rows"
proof -
  let ?g = "\<lambda>r. if lg_id r = i then r\<lparr>lg_action := a, lg_type := Some (b @ ''|'' @ c)\<rparr> else r"
  have "verify_row h acc (?g r) = verify_row h acc r" if "r \<in> set (recent n rows)" for acc r
  proof (cases "lg_id r = i")
    case True
    have "r \<in> set rows" using that by (auto simp: recent_def by_id_def dest: in_set_dropD)
    note row = assms[OF this True]
    have "r = r\<lparr>lg_action := a @ ''|'' @ b, lg_type := Some c\<rparr>"
      by (rule log_row.equality) (simp_all add: row)
    then have "hash_input h (lg_prev r) (r\<lparr>lg_action := a, lg_type := Some (b @ ''|'' @ c)\<rparr>) = hash_input h (lg_prev r) r"
      using bar_moves by metis
    then show ?thesis using True by (simp add: verify_row_cong)
  qed simp
  moreover have "recent n (map ?g rows) = map ?g (recent n rows)"
    by (simp add: recent_def by_id_map drop_map)
  ultimately show ?thesis unfolding sp_audit_verify_integrity_def by (simp add: foldl_map_cong)
qed

theorem moved_bar_undetected_witness:
  "sp_audit_verify_integrity toy_digest 1 (map (\<lambda>r. if lg_id r = 1
      then r\<lparr>lg_action := ''a'', lg_type := Some (''b'' @ ''|'' @ ''user'')\<rparr> else r)
      [toy_row\<lparr>lg_action := ''a|b'', lg_hash := Some ''e''\<rparr>])
   = sp_audit_verify_integrity toy_digest 1 [toy_row\<lparr>lg_action := ''a|b'', lg_hash := Some ''e''\<rparr>]"
  by (rule moved_bar_undetected[where a = "''a''" and b = "''b''" and c = "''user''"]) (simp add: toy_row_def)

section \<open>Concurrent inserts\<close>

text \<open>The id of a row is drawn from its sequence when the insert begins; the trigger takes the lock and
  reads the last hash afterwards.  Between the two another session may do the same.\<close>

record insert_state =
  is_rows :: "log_row list"
  is_next :: int
  is_open :: "int list"  \<comment> \<open>ids drawn by inserts that have not got the lock yet\<close>

inductive insert_step :: "digest \<Rightarrow> insert_state \<Rightarrow> insert_state \<Rightarrow> bool" for h where
  draw_id: "insert_step h s (s\<lparr>is_next := is_next s + 1, is_open := is_next s # is_open s\<rparr>)"
| append: "i \<in> set (is_open s) \<Longrightarrow>
    insert_step h s (s\<lparr>is_open := remove1 i (is_open s), is_rows := append_row h (r\<lparr>lg_id := i\<rparr>) (is_rows s)\<rparr>)"

inductive insert_reach :: "digest \<Rightarrow> insert_state \<Rightarrow> insert_state \<Rightarrow> bool" for h s0 where
  here: "insert_reach h s0 s0"
| further: "insert_reach h s0 s \<Longrightarrow> insert_step h s s' \<Longrightarrow> insert_reach h s0 s'"

inductive_cases insert_stepE: "insert_step h s s'"

lemma append_to: "i \<in> set (is_open s) \<Longrightarrow>
    s' = s\<lparr>is_open := remove1 i (is_open s), is_rows := append_row h (r\<lparr>lg_id := i\<rparr>) (is_rows s)\<rparr> \<Longrightarrow>
    insert_step h s s'"
  using insert_step.append by simp

lemma hash_input_id [simp]: "hash_input h p (r\<lparr>lg_id := i\<rparr>) = hash_input h p r"
  by (simp add: hash_input_def)

lemma sort_key_snoc3:
  fixes f :: "'a \<Rightarrow> int"
  shows "f x < f y \<Longrightarrow> f y < f z \<Longrightarrow> sort_key f [x, z, y] = [x, y, z]"
  by simp

text \<open>The lock does not keep concurrent inserts from breaking the chain, as the migration says it does.
  From any log of one row two inserts can run so that the second id gets the lock first; nobody tampers,
  and the verification reports a broken link (unless the digest maps the new row back to the old hash).\<close>

theorem concurrent_inserts_break_chain:
  assumes "lg_id r0 < n" and "lg_hash r0 = Some d"
    and "sp_audit_compute_hash h (Some d) r \<noteq> d"
  shows "\<exists>s. insert_reach h \<lparr>is_rows = [r0], is_next = n, is_open = []\<rparr> s \<and> is_open s = [] \<and>
    length (is_rows s) = 3 \<and> (\<forall>m\<ge>3. \<not> intact (sp_audit_verify_integrity h m (is_rows s)))"
proof -
  let ?s0 = "\<lparr>is_rows = [r0], is_next = n, is_open = []\<rparr>"
  let ?rows1 = "append_row h (r\<lparr>lg_id := n + 1\<rparr>) [r0]"
  let ?rows2 = "append_row h (r\<lparr>lg_id := n\<rparr>) ?rows1"
  let ?s1 = "\<lparr>is_rows = [r0], is_next = n + 1, is_open = [n]\<rparr>"
  let ?s2 = "\<lparr>is_rows = [r0], is_next = n + 1 + 1, is_open = [n + 1, n]\<rparr>"
  let ?s3 = "\<lparr>is_rows = ?rows1, is_next = n + 1 + 1, is_open = [n]\<rparr>"
  let ?s4 = "\<lparr>is_rows = ?rows2, is_next = n + 1 + 1, is_open = []\<rparr>"
  have s1: "insert_step h ?s0 ?s1" and s2: "insert_step h ?s1 ?s2"
    using insert_step.draw_id[of h ?s0] insert_step.draw_id[of h ?s1] by simp_all
  have s3: "insert_step h ?s2 ?s3"
    by (rule append_to[where i = "n + 1" and r = r]) simp_all
  have s4: "insert_step h ?s3 ?s4"
    by (rule append_to[where i = n and r = r]) simp_all
  have reach: "insert_reach h ?s0 ?s4" by (rule further[OF further[OF further[OF further[OF here s1] s2] s3] s4])
  define x where "x = sp_audit_compute_hash h (Some d) r"
  define y where "y = sp_audit_compute_hash h (Some x) r"
  have "by_id [r0] = [r0]" "by_id [r0, r\<lparr>lg_id := n + 1, lg_prev := Some d, lg_hash := Some x\<rparr>]
      = [r0, r\<lparr>lg_id := n + 1, lg_prev := Some d, lg_hash := Some x\<rparr>]"
    using assms(1) by (simp_all add: by_id_def)
  then have rows: "?rows2 = [r0, r\<lparr>lg_id := n + 1, lg_prev := Some d, lg_hash := Some x\<rparr>,
      r\<lparr>lg_id := n, lg_prev := Some x, lg_hash := Some y\<rparr>]"
    using assms(2) by (simp add: append_row_def chained_def last_hash_def x_def y_def sp_audit_compute_hash_def)
  have sorted: "by_id ?rows2 = [r0, r\<lparr>lg_id := n, lg_prev := Some x, lg_hash := Some y\<rparr>,
      r\<lparr>lg_id := n + 1, lg_prev := Some d, lg_hash := Some x\<rparr>]"
    unfolding rows by_id_def by (rule sort_key_snoc3) (use assms(1) in simp_all)
  have "\<not> linked h None (by_id ?rows2)" using assms(2,3) by (simp add: sorted opt_text_def x_def)
  then have "\<forall>m\<ge>3. \<not> intact (sp_audit_verify_integrity h m ?rows2)"
    by (simp add: intact_iff recent_def) (simp add: rows)
  then show ?thesis using reach rows by (intro exI[of _ ?s4]) simp
qed

theorem concurrent_inserts_break_chain_witness:
  "sp_audit_compute_hash toy_digest (Some ''e'') toy_row \<noteq> ''e'' \<and>
   (\<exists>s. insert_reach toy_digest \<lparr>is_rows = [toy_row\<lparr>lg_hash := Some ''e''\<rparr>], is_next = 2, is_open = []\<rparr> s \<and>
     is_open s = [] \<and> length (is_rows s) = 3 \<and>
     (\<forall>m\<ge>3. \<not> intact (sp_audit_verify_integrity toy_digest m (is_rows s))))"
proof -
  have d: "sp_audit_compute_hash toy_digest (Some ''e'') toy_row \<noteq> ''e''" by code_simp
  show ?thesis
    by (rule conjI[OF d], rule concurrent_inserts_break_chain[OF _ _ d]) (simp_all add: toy_row_def)
qed

text \<open>The integrity endpoint never reports an intact log: it unpacks a dict row, so it looks at the
  column names instead of the counts and answers them to the client.\<close>

theorem endpoint_never_intact:
  assumes "verify_audit_integrity u h arg rows = Returned body"
  shows "dget body ''success'' = PBool True \<and> dget body ''intact'' = PBool False \<and>
    dget body ''rows_checked'' = PStr ''rows_checked'' \<and> dget body ''broken_links'' = PStr ''broken_links''"
  using assms by (auto simp: verify_audit_integrity_def write_roles_required_def roles_required_def
      integrity_row_def zero_or_none_def py_or_def dget_def Let_def split: if_splits)

theorem endpoint_never_intact_witness:
  "intact (sp_audit_verify_integrity toy_digest 5000 toy_log) \<and>
   (\<exists>body. verify_audit_integrity \<lparr>role = Some ''admin'', job_role = None\<rparr> toy_digest None toy_log = Returned body \<and>
     dget body ''success'' = PBool True \<and> dget body ''intact'' = PBool False)"
proof -
  have ok: "intact (sp_audit_verify_integrity toy_digest 5000 toy_log)" by code_simp
  have "verify_audit_integrity \<lparr>role = Some ''admin'', job_role = None\<rparr> toy_digest None toy_log
      = Returned [(''success'', PBool True), (''intact'', PBool False), (''rows_checked'', PStr ''rows_checked''),
          (''broken_links'', PStr ''broken_links''), (''bad_hashes'', PStr ''bad_hashes''),
          (''first_broken_id'', PStr ''first_broken_id''), (''limit'', PInt 5000)]" by code_simp
  from endpoint_never_intact[OF this] this ok show ?thesis by blast
qed

section \<open>Recording an entry\<close>

text \<open>\<open>AuditRepository.record\<close> with the procedure behind it: an entry without a user gets the user of the
  session's setting, and a missing detail is the empty object.\<close>

definition audit_record ::
  "digest \<Rightarrow> int option \<Rightarrow> int set \<Rightarrow> nat \<Rightarrow> int option \<Rightarrow> string \<Rightarrow> string option \<Rightarrow> int option \<Rightarrow> string option \<Rightarrow>
   string option \<Rightarrow> log_world \<Rightarrow> unit result \<times> log_world" where
  "audit_record h session_user known dt uid action ty target detail ip w =
     (let who = (case uid of None \<Rightarrow> session_user | Some u \<Rightarrow> Some u)
      in (case bindE (ensure (length action \<le> 80) (too_long 80)) (\<lambda>_.
              bindE (ensure (fits 40 ty) (too_long 40)) (\<lambda>_.
              bindE (ensure (fits 45 ip) (too_long 45)) (\<lambda>_.
              ensure (case who of None \<Rightarrow> True | Some u \<Rightarrow> u \<in> known) (DbForeignKey ''audit_log_user_id_fkey'')))) of
          Inl e \<Rightarrow> (Err e, w)
        | Inr _ \<Rightarrow> (Ok (), log_step h (Append dt \<lparr>lg_id = 0, lg_user = who, lg_action = action, lg_type = ty,
            lg_target = target, lg_detail = Some (case detail of None \<Rightarrow> ''{}'' | Some d \<Rightarrow> d), lg_ip = ip, lg_at = 0,
            lg_prev = None, lg_hash = None\<rparr>) w)))"

text \<open>Whatever is recorded, and when it is refused, the chain stays as it must be.\<close>

theorem audit_record_keeps_chain:
  assumes "log_inv h w"
  shows "log_inv h (snd (audit_record h session_user known dt uid action ty target detail ip w))"
  using assms log_inv_append[OF assms] unfolding audit_record_def Let_def
  by (auto simp del: log_step.simps split: sum.split)

end
