(* ===== verification/AuditReports.thy ===== *)
theory AuditReports
  imports AuditLog Alerts Tracker Jobs
begin

text \<open>The scheduled audit reports: \<open>app/services/audit_report_service.py\<close>,
  \<open>app/repositories/scheduled_audit_report_repo.py\<close> and
  \<open>app/routes/admin/audit_report_routes.py\<close>.  Instants are microseconds and days are counted from the
  epoch.  Which text_env are dates, and how a JSON value is printed, are parameters.  A file is the list of its
  rows.\<close>

section \<open>The table\<close>

text \<open>\<open>sr_params\<close> is the JSON column as the driver reads it: a dict.\<close>

record sched =
  sr_id :: int
  sr_name :: string
  sr_description :: string
  sr_format :: string
  sr_frequency :: string
  sr_params :: "payload option"
  sr_next :: "int option"
  sr_last :: "int option"
  sr_active :: bool
  sr_created :: int
  sr_updated :: int
  sr_created_by :: int
  sr_updated_by :: int
  sr_deleted :: "int option"

record audit_world =
  aw_scheds :: "sched list"
  aw_next :: int
  aw_log :: "log_row list"
  aw_notifs :: notif_db

record text_env =
  iso_moment :: "string \<Rightarrow> bool"             \<comment> \<open>\<open>datetime.fromisoformat\<close> accepts\<close>
  pg_moment :: "string \<Rightarrow> int option"         \<comment> \<open>the cast to TIMESTAMP\<close>
  iso_day :: "string \<Rightarrow> int option"           \<comment> \<open>\<open>date.fromisoformat\<close>\<close>
  iso_text :: "int \<Rightarrow> string"                 \<comment> \<open>\<open>isoformat\<close> of an instant\<close>
  json_text :: "string \<Rightarrow> string"             \<comment> \<open>\<open>json.dumps\<close> of the value that a JSONB text denotes\<close>

definition undeleted :: "sched \<Rightarrow> bool" where "undeleted r = (sr_deleted r = None)"

definition sched_get :: "int \<Rightarrow> bool \<Rightarrow> audit_world \<Rightarrow> sched option" where
  "sched_get i with_deleted w = find_row (\<lambda>r. sr_id r = i \<and> (with_deleted \<or> undeleted r)) (aw_scheds w)"

definition sched_listed :: "bool \<Rightarrow> bool \<Rightarrow> audit_world \<Rightarrow> sched list" where
  "sched_listed active_only with_deleted w =
     filter (\<lambda>r. (with_deleted \<or> undeleted r) \<and> (\<not> active_only \<or> sr_active r)) (aw_scheds w)"

definition sched_list_all :: "int \<Rightarrow> int \<Rightarrow> bool \<Rightarrow> bool \<Rightarrow> audit_world \<Rightarrow> sched list result" where
  "sched_list_all limit offset active_only with_deleted w =
     (if limit < 0 then Err (OtherExc ''LIMIT must not be negative'')
      else if offset < 0 then Err (OtherExc ''OFFSET must not be negative'')
      else Ok (take (nat limit) (drop (nat offset) (sort_key (\<lambda>r. - sr_created r) (sched_listed active_only with_deleted w)))))"

definition sched_count :: "bool \<Rightarrow> bool \<Rightarrow> audit_world \<Rightarrow> int" where
  "sched_count active_only with_deleted w = int (length (sched_listed active_only with_deleted w))"

definition due_at :: "int \<Rightarrow> sched \<Rightarrow> bool" where
  "due_at now r = (sr_active r \<and> undeleted r \<and> (case sr_next r of Some t \<Rightarrow> t \<le> now | None \<Rightarrow> False))"

definition get_due_reports :: "int \<Rightarrow> audit_world \<Rightarrow> sched list" where
  "get_due_reports now w = sort_key (\<lambda>r. the (sr_next r)) (filter (due_at now) (aw_scheds w))"

text \<open>What the columns and the constraints of the table refuse.  The unique name counts deleted rows.\<close>

definition sched_check :: "int option \<Rightarrow> string \<Rightarrow> string \<Rightarrow> string \<Rightarrow> int \<Rightarrow> audit_world \<Rightarrow> unit result" where
  "sched_check self name fmt freq uid w =
     bindE (ensure (length name \<le> 255) (too_long 255)) (\<lambda>_.
     bindE (ensure (length fmt \<le> 10) (too_long 10)) (\<lambda>_.
     bindE (ensure (length freq \<le> 20) (too_long 20)) (\<lambda>_.
     bindE (ensure (\<forall>r\<in>set (aw_scheds w). sr_name r = name \<longrightarrow> Some (sr_id r) = self)
       (DbUnique ''uq_scheduled_audit_reports_name'')) (\<lambda>_.
     ensure (uid \<in> set (map ac_id (nt_accounts (aw_notifs w))))
       (DbForeignKey ''scheduled_audit_reports_user_fkey'')))))"

definition bad_moment :: pyexc where
  "bad_moment = OtherExc ''invalid input syntax for type timestamp''"

definition sched_create ::
  "text_env \<Rightarrow> int \<Rightarrow> string \<Rightarrow> string \<Rightarrow> string \<Rightarrow> string \<Rightarrow> payload \<Rightarrow> string \<Rightarrow> int \<Rightarrow> audit_world \<Rightarrow>
   int result \<times> audit_world" where
  "sched_create env now name descr fmt freq params next_run uid w =
     (case pg_moment env next_run of
        None \<Rightarrow> (Err bad_moment, w)
      | Some t \<Rightarrow> (case sched_check None name fmt freq uid w of
            Inl e \<Rightarrow> (Err e, w)
          | Inr _ \<Rightarrow> (Ok (aw_next w), w\<lparr>aw_next := aw_next w + 1, aw_scheds := aw_scheds w @
              [\<lparr>sr_id = aw_next w, sr_name = name, sr_description = descr, sr_format = fmt, sr_frequency = freq,
                sr_params = Some params, sr_next = Some t, sr_last = None, sr_active = True, sr_created = now,
                sr_updated = now, sr_created_by = uid, sr_updated_by = uid, sr_deleted = None\<rparr>]\<rparr>)))"

definition set_sched :: "int \<Rightarrow> (sched \<Rightarrow> sched) \<Rightarrow> audit_world \<Rightarrow> audit_world" where
  "set_sched i f w = w\<lparr>aw_scheds := update_where (\<lambda>r. sr_id r = i) f (aw_scheds w)\<rparr>"

definition sched_update ::
  "text_env \<Rightarrow> int \<Rightarrow> int \<Rightarrow> string \<Rightarrow> string \<Rightarrow> string \<Rightarrow> string \<Rightarrow> payload \<Rightarrow> string \<Rightarrow> int \<Rightarrow> audit_world \<Rightarrow>
   unit result \<times> audit_world" where
  "sched_update env now i name descr fmt freq params next_run uid w =
     (case pg_moment env next_run of
        None \<Rightarrow> (Err bad_moment, w)
      | Some t \<Rightarrow> (if sched_get i False w = None then (Ok (), w)
          else (case sched_check (Some i) name fmt freq uid w of
            Inl e \<Rightarrow> (Err e, w)
          | Inr _ \<Rightarrow> (Ok (), set_sched i (\<lambda>r. r\<lparr>sr_name := name, sr_description := descr, sr_format := fmt,
              sr_frequency := freq, sr_params := Some params, sr_next := Some t, sr_updated_by := uid,
              sr_updated := now\<rparr>) w))))"

definition sched_delete :: "int \<Rightarrow> int \<Rightarrow> audit_world \<Rightarrow> audit_world" where
  "sched_delete now i w = set_sched i (\<lambda>r. r\<lparr>sr_deleted := Some now\<rparr>) w"

text \<open>\<open>json.loads(report["parameters"]) if report["parameters"] else {}\<close>: what the driver read is a dict
  already, which \<open>json.loads\<close> refuses.\<close>

definition load_parameters :: "sched \<Rightarrow> payload result" where
  "load_parameters r = (case sr_params r of
       None \<Rightarrow> Ok []
     | Some [] \<Rightarrow> Ok []
     | Some (x # xs) \<Rightarrow> Err (TypeError ''the JSON object must be str, bytes or bytearray, not dict''))"

definition period :: "string \<Rightarrow> int" where
  "period freq = (if freq = ''daily'' then 86400000000 else if freq = ''weekly'' then 604800000000
     else if freq = ''monthly'' then 2592000000000 else 86400000000)"

definition update_last_run :: "int \<Rightarrow> int \<Rightarrow> audit_world \<Rightarrow> unit result \<times> audit_world" where
  "update_last_run now i w = (case sched_get i False w of
       None \<Rightarrow> (Ok (), w)
     | Some r \<Rightarrow> (case load_parameters r of
           Inl e \<Rightarrow> (Err e, w)
         | Inr _ \<Rightarrow> (Ok (), set_sched i (\<lambda>r'. r'\<lparr>sr_last := Some now, sr_next := Some (now + period (sr_frequency r)),
             sr_updated := now\<rparr>) w)))"

section \<open>Making a report\<close>

definition us_per_day :: int where "us_per_day = 86400000000"

text \<open>The filters: first day, last day, user, action.\<close>

type_synonym filters = "int option \<times> int option \<times> int option \<times> string option"

definition generate_report_data :: "filters \<Rightarrow> log_row list \<Rightarrow> log_row list" where
  "generate_report_data fs rows = (case fs of (since, till, uid, action) \<Rightarrow>
     sort_key (\<lambda>r. - lg_at r) (filter (\<lambda>r.
       (case since of None \<Rightarrow> True | Some d \<Rightarrow> d * us_per_day \<le> lg_at r) \<and>
       (case till of None \<Rightarrow> True | Some d \<Rightarrow> lg_at r < (d + 1) * us_per_day) \<and>
       (case uid of None \<Rightarrow> True | Some u \<Rightarrow> lg_user r = Some u) \<and>
       (case action of None \<Rightarrow> True | Some a \<Rightarrow> lg_action r = a)) rows))"

text \<open>The parameters as the query takes them; a value that is no date, or that PostgreSQL cannot compare
  with its column, is an error.\<close>

definition day_param :: "text_env \<Rightarrow> pyval \<Rightarrow> int option result" where
  "day_param env v = (if v = PNone then Ok None
     else if \<not> truthy v then Err bad_moment
     else (case v of
         PStr s \<Rightarrow> (case iso_day env s of Some d \<Rightarrow> Ok (Some d) | None \<Rightarrow> Err (ValueError (''Invalid isoformat string: '' @ quoted s)))
       | _ \<Rightarrow> Err (TypeError ''fromisoformat: argument must be str'')))"

fun user_param :: "pyval \<Rightarrow> int option result" where
  "user_param PNone = Ok None"
| "user_param (PInt i) = Ok (Some i)"
| "user_param (PStr s) = (case parse_int s of Some i \<Rightarrow> Ok (Some i)
     | None \<Rightarrow> Err (OtherExc ''invalid input syntax for type integer''))"
| "user_param _ = Err (OtherExc ''operator does not exist'')"

fun action_param :: "pyval \<Rightarrow> string option result" where
  "action_param PNone = Ok None"
| "action_param (PStr s) = Ok (Some s)"
| "action_param _ = Err (OtherExc ''operator does not exist'')"

definition report_filters :: "text_env \<Rightarrow> payload \<Rightarrow> filters result" where
  "report_filters env p =
     bindE (day_param env (dget p ''start_date'')) (\<lambda>since.
     bindE (day_param env (dget p ''end_date'')) (\<lambda>till.
     bindE (user_param (dget p ''user_id'')) (\<lambda>uid.
     bindE (action_param (dget p ''action'')) (\<lambda>action. Ok (since, till, uid, action)))))"

record report_file =
  rf_type :: string
  rf_name :: string
  rf_rows :: "string list list"

definition id_or_blank :: "int option \<Rightarrow> string" where
  "id_or_blank v = (case v of None \<Rightarrow> [] | Some i \<Rightarrow> if i = 0 then [] else int_str i)"

definition detail_cell :: "text_env \<Rightarrow> string option \<Rightarrow> string" where
  "detail_cell env v = (case v of None \<Rightarrow> []
     | Some t \<Rightarrow> if t \<in> {''null'', ''{}'', ''[]'', ''false'', ''0'', [CHR 34, CHR 34]} then [] else json_text env t)"

definition report_cells :: "text_env \<Rightarrow> log_row \<Rightarrow> string list" where
  "report_cells env r = [int_str (lg_id r), id_or_blank (lg_user r), lg_action r, opt_text (lg_type r),
     id_or_blank (lg_target r), detail_cell env (lg_detail r), opt_text (lg_ip r), iso_text env (lg_at r)]"

definition REPORT_HEADER :: "string list" where
  "REPORT_HEADER = [''ID'', ''User ID'', ''Action'', ''Target Type'', ''Target ID'', ''Detail'', ''IP Address'', ''Created At'']"

definition generate_csv_report :: "text_env \<Rightarrow> log_row list \<Rightarrow> report_file" where
  "generate_csv_report env data = \<lparr>rf_type = ''text/csv'', rf_name = ''audit_report.csv'',
     rf_rows = REPORT_HEADER # map (report_cells env) data\<rparr>"

definition generate_pdf_report :: "text_env \<Rightarrow> log_row list \<Rightarrow> report_file" where
  "generate_pdf_report env data =
     (generate_csv_report env data)\<lparr>rf_name := ''audit_report.pdf'', rf_type := ''application/pdf''\<rparr>"

definition report_file_of :: "text_env \<Rightarrow> sched \<Rightarrow> log_row list \<Rightarrow> report_file" where
  "report_file_of env r data =
     (if sr_format r = ''CSV'' then generate_csv_report env data else generate_pdf_report env data)"

text \<open>The rows of the report, before its file is made.\<close>

definition report_data :: "text_env \<Rightarrow> sched \<Rightarrow> audit_world \<Rightarrow> log_row list result" where
  "report_data env r w = bindE (load_parameters r) (\<lambda>p.
     bindE (report_filters env p) (\<lambda>fs. Ok (generate_report_data fs (aw_log w))))"

text \<open>\<open>update_last_run\<close> does not commit.  Its statement becomes durable with the commit of the notification
  that follows on the same connection; when the notification fails, the exception is swallowed and the
  rollback takes the statement along.  A requester that is None violates the notification's column.\<close>

definition report_title :: "sched \<Rightarrow> string" where
  "report_title r = ''Audit Report Generated: '' @ sr_name r"

definition report_message :: "sched \<Rightarrow> string" where
  "report_message r = ''The audit report '' @ quoted (sr_name r) @ '' has been generated successfully.''"

definition notify_generated :: "int \<Rightarrow> sched \<Rightarrow> int option \<Rightarrow> audit_world \<Rightarrow> audit_world \<Rightarrow> audit_world" where
  "notify_generated now r uid before updated = (case uid of
       None \<Rightarrow> before
     | Some u \<Rightarrow> (case repo_notif_create now u (report_title r)
           (report_message r) ''&#9675;'' (Some ''/admin/audit_reports'') None
           (aw_notifs updated) of
         (Inl e, _) \<Rightarrow> before
       | (Inr _, n) \<Rightarrow> updated\<lparr>aw_notifs := n\<rparr>))"

record run_result =
  run_ok :: bool
  run_message :: string

definition generate_and_save_report ::
  "text_env \<Rightarrow> int \<Rightarrow> int \<Rightarrow> int option \<Rightarrow> audit_world \<Rightarrow> run_result result \<times> audit_world" where
  "generate_and_save_report env now i uid w = (case sched_get i False w of
       None \<Rightarrow> (Ok \<lparr>run_ok = False, run_message = ''Scheduled report not found''\<rparr>, w)
     | Some r \<Rightarrow> (case bindE (report_data env r w) (\<lambda>data. Ok (report_file_of env r data)) of
           Inl e \<Rightarrow> (Err e, w)
         | Inr file \<Rightarrow> (case update_last_run now i w of
             (Inl e, _) \<Rightarrow> (Err e, w)
           | (Inr _, w1) \<Rightarrow>
               (Ok \<lparr>run_ok = True, run_message = ''Report '' @ quoted (sr_name r) @ '' generated successfully.''\<rparr>,
                notify_generated now r uid w w1))))"

section \<open>Due reports\<close>

definition run_by :: "caller \<Rightarrow> audit_world \<Rightarrow> int result" where
  "run_by c w = (case c of
       NoRequest \<Rightarrow> Err (AttributeError (quoted ''NoneType'' @ '' object has no attribute '' @ quoted ''is_authenticated''))
     | LoggedIn u \<Rightarrow> Ok u
     | Anonymous \<Rightarrow> (case find_row (\<lambda>a. ac_username a = ''admin'' \<and> \<not> ac_deleted a) (nt_accounts (aw_notifs w)) of
         Some a \<Rightarrow> Ok (ac_id a)
       | None \<Rightarrow> Ok 1))"

fun run_each ::
  "text_env \<Rightarrow> caller \<Rightarrow> int \<Rightarrow> sched list \<Rightarrow> audit_world \<Rightarrow> (int \<times> string \<times> run_result) list result \<times> audit_world" where
  "run_each env c now [] w = (Ok [], w)"
| "run_each env c now (r # rs) w = (case run_by c w of
       Inl e \<Rightarrow> (Err e, w)
     | Inr uid \<Rightarrow> (case generate_and_save_report env now (sr_id r) (Some uid) w of
         (Inl e, w1) \<Rightarrow> (Err e, w1)
       | (Inr res, w1) \<Rightarrow> (case run_each env c now rs w1 of
           (Inl e, w2) \<Rightarrow> (Err e, w2)
         | (Inr out, w2) \<Rightarrow> (Ok ((sr_id r, sr_name r, res) # out), w2))))"

definition run_due_reports ::
  "text_env \<Rightarrow> caller \<Rightarrow> int \<Rightarrow> audit_world \<Rightarrow> (string \<times> (int \<times> string \<times> run_result) list) result \<times> audit_world" where
  "run_due_reports env c now w = (case run_each env c now (get_due_reports now w) w of
       (Inl e, w1) \<Rightarrow> (Err e, w1)
     | (Inr out, w1) \<Rightarrow> (Ok (''Processed '' @ nat_str (length out) @ '' due reports'', out), w1))"

section \<open>The background task\<close>

definition generate_report_background ::
  "text_env \<Rightarrow> int \<Rightarrow> string \<Rightarrow> int \<Rightarrow> int \<Rightarrow> tracker \<times> audit_world \<Rightarrow> tracker \<times> audit_world" where
  "generate_report_background env now job i uid st = (case st of (js, w) \<Rightarrow>
     let js1 = snd (update_progress now job 1 ''Fetching report configuration'' [] js)
     in (case sched_get i False w of
         None \<Rightarrow> (snd (fail_job now job ''Scheduled report not found'' js1), w)
       | Some r \<Rightarrow>
           let js2 = snd (update_progress now job 2 ''Generating report data'' [] js1)
           in (case report_data env r w of
               Inl e \<Rightarrow> (snd (fail_job now job (exc_text e) js2), w)
             | Inr data \<Rightarrow>
                 let js3 = snd (update_progress now job 3 ''Generating report file'' [] js2);
                     file = report_file_of env r data
                 in (case update_last_run now i w of
                     (Inl e, _) \<Rightarrow> (snd (fail_job now job (exc_text e) js3), w)
                   | (Inr _, w1) \<Rightarrow>
                       let js4 = snd (update_progress now job 4 ''Sending notification'' [] js3)
                       in (snd (complete_job now job
                            (Some [(''rows'', PInt (int (length data))), (''format'', PStr (sr_format r))]) js4),
                           notify_generated now r (Some uid) w w1)))))"

text \<open>Starting a report: a row of the queue, or a job of the tracker whose thread runs the background task.\<close>

record run_state =
  ru_queue :: job_queue
  ru_tracker :: tracker
  ru_threads :: "(string \<times> int \<times> int) list"   \<comment> \<open>started and not yet run: job, report, requester\<close>
  ru_world :: audit_world

definition generate_report_async :: "bool \<Rightarrow> int \<Rightarrow> string \<Rightarrow> int \<Rightarrow> int \<Rightarrow> run_state \<Rightarrow> string \<times> run_state" where
  "generate_report_async queue_enabled now uuid i uid st =
     (if queue_enabled
      then (case enqueue now ''generate_report'' [(''report_id'', PInt i), (''user_id'', PInt uid)] 0 3 0 (ru_queue st) of
          (jid, q) \<Rightarrow> (int_str jid, st\<lparr>ru_queue := q\<rparr>))
      else (uuid, st\<lparr>ru_tracker := create_job uuid now ''audit_report'' uid 4 [(''report_id'', PInt i)] (ru_tracker st),
          ru_threads := ru_threads st @ [(uuid, i, uid)]\<rparr>))"

definition run_thread :: "text_env \<Rightarrow> int \<Rightarrow> string \<times> int \<times> int \<Rightarrow> run_state \<Rightarrow> run_state" where
  "run_thread env now t st = (case t of (job, i, uid) \<Rightarrow>
     case generate_report_background env now job i uid (ru_tracker st, ru_world st) of
       (js, w) \<Rightarrow> st\<lparr>ru_tracker := js, ru_world := w, ru_threads := remove1 t (ru_threads st)\<rparr>)"

text \<open>The handlers of the queue.  An id that is not an int goes to PostgreSQL as it is.\<close>

fun sql_id :: "pyval \<Rightarrow> int option result" where
  "sql_id PNone = Ok None"
| "sql_id (PInt i) = Ok (Some i)"
| "sql_id (PStr s) = (case parse_int s of Some i \<Rightarrow> Ok (Some i)
     | None \<Rightarrow> Err (OtherExc ''invalid input syntax for type integer''))"
| "sql_id _ = Err (OtherExc ''operator does not exist'')"

definition generate_report_handler ::
  "text_env \<Rightarrow> int \<Rightarrow> payload \<Rightarrow> audit_world \<Rightarrow> run_result result \<times> audit_world" where
  "generate_report_handler env now p w = (case map_of p ''report_id'' of
       None \<Rightarrow> (Err (KeyError ''report_id''), w)
     | Some v \<Rightarrow> (case sql_id v of
           Inl e \<Rightarrow> (Err e, w)
         | Inr None \<Rightarrow> (Ok \<lparr>run_ok = False, run_message = ''Scheduled report not found''\<rparr>, w)
         | Inr (Some i) \<Rightarrow>
             (let by = py_or (dget p ''user_id'') (dget p ''generated_by'')
              in generate_and_save_report env now i (case sql_id by of Inr u \<Rightarrow> u | Inl e \<Rightarrow> None) w)))"

definition check_due_reports_handler ::
  "text_env \<Rightarrow> int \<Rightarrow> payload \<Rightarrow> audit_world \<Rightarrow> (string \<times> (int \<times> string \<times> run_result) list) result \<times> audit_world" where
  "check_due_reports_handler env now p w = run_due_reports env NoRequest now w"

section \<open>The status of a job\<close>

text \<open>The dict that is polled, the same for a job of the queue and a job of the tracker.\<close>

record job_dict =
  jd_id :: string
  jd_type :: string
  jd_user :: pyval
  jd_status :: string
  jd_progress :: int
  jd_current :: int
  jd_total :: int
  jd_message :: string
  jd_result :: pyval
  jd_error :: "string option"
  jd_metadata :: payload
  jd_created :: int
  jd_updated :: int
  jd_started :: "int option"
  jd_completed :: "int option"

definition STATUS_MAP :: "job_status \<Rightarrow> string option" where
  "STATUS_MAP s = (case s of JPending \<Rightarrow> Some ''pending'' | JRunning \<Rightarrow> Some ''running''
     | JCompleted \<Rightarrow> Some ''completed'' | JDead \<Rightarrow> Some ''failed'' | JFailed \<Rightarrow> None)"

definition PROGRESS_MAP :: "job_status \<Rightarrow> int option" where
  "PROGRESS_MAP s = (case s of JPending \<Rightarrow> Some 0 | JRunning \<Rightarrow> Some 50
     | JCompleted \<Rightarrow> Some 100 | JDead \<Rightarrow> Some 100 | JFailed \<Rightarrow> None)"

definition get_or :: "'a option \<Rightarrow> 'a \<Rightarrow> 'a" where
  "get_or v d = (case v of Some x \<Rightarrow> x | None \<Rightarrow> d)"

definition queue_job_to_tracker_dict :: "job \<Rightarrow> job_dict" where
  "queue_job_to_tracker_dict j = \<lparr>jd_id = int_str (j_id j), jd_type = ''audit_report'',
     jd_user = dget (j_payload j) ''user_id'', jd_status = get_or (STATUS_MAP (j_status j)) ''failed'',
     jd_progress = get_or (PROGRESS_MAP (j_status j)) 0,
     jd_current = (case j_status j of JPending \<Rightarrow> 0 | JRunning \<Rightarrow> 1 | JCompleted \<Rightarrow> 4 | JDead \<Rightarrow> 4 | JFailed \<Rightarrow> 0),
     jd_total = 4,
     jd_message = (case j_status j of JPending \<Rightarrow> ''Queued'' | JRunning \<Rightarrow> ''Processing report''
       | JCompleted \<Rightarrow> ''Report generated'' | _ \<Rightarrow>
         (if opt_text (j_error j) = [] then ''Report generation failed'' else opt_text (j_error j))),
     jd_result = get_or (j_result j) PNone, jd_error = j_error j,
     jd_metadata = [(''report_id'', dget (j_payload j) ''report_id'')], jd_created = j_created j,
     jd_updated = get_or (j_completed j) (get_or (j_started j) (j_created j)),
     jd_started = j_started j, jd_completed = j_completed j\<rparr>"

definition tracked_dict :: "string \<Rightarrow> tracked \<Rightarrow> job_dict" where
  "tracked_dict i t = \<lparr>jd_id = i, jd_type = tj_type t, jd_user = PInt (tj_user t), jd_status = tj_status t,
     jd_progress = tj_progress t, jd_current = tj_current t, jd_total = tj_total t, jd_message = tj_message t,
     jd_result = (case tj_result t of None \<Rightarrow> PNone | Some d \<Rightarrow> PDict d), jd_error = tj_error t,
     jd_metadata = tj_metadata t, jd_created = tj_created t, jd_updated = tj_updated t,
     jd_started = tj_started t, jd_completed = tj_completed t\<rparr>"

datatype status_answer = JobDict job_dict | StatusError nat string

definition load_job :: "string \<Rightarrow> run_state \<Rightarrow> job_dict option" where
  "load_job job st =
     (case Option.bind (parse_int job) (\<lambda>n. find_row (\<lambda>j. j_id j = n) (jobs (ru_queue st))) of
        Some j \<Rightarrow> Some (queue_job_to_tracker_dict j)
      | None \<Rightarrow> map_option (tracked_dict job) (get_job job (ru_tracker st)))"

definition job_status_route :: "user \<Rightarrow> int \<Rightarrow> string \<Rightarrow> run_state \<Rightarrow> status_answer outcome \<times> run_state" where
  "job_status_route u uid job = write_roles_required u (\<lambda>st.
     (case load_job job st of
        None \<Rightarrow> (Returned (StatusError 404 ''Job not found''), st)
      | Some d \<Rightarrow>
          if jd_user d \<noteq> PInt uid \<and> role u \<noteq> Some ''admin''
          then (Returned (StatusError 403 ''Unauthorized''), st)
          else (Returned (JobDict d), st)))"

section \<open>The pages\<close>

abbreviation index_page :: string where "index_page \<equiv> ''admin_audit_report.index''"

definition index_route ::
  "user \<Rightarrow> string option \<Rightarrow> audit_world \<Rightarrow> (sched list \<times> int \<times> int \<times> int) outcome \<times> audit_world" where
  "index_route u arg = write_roles_required u (\<lambda>w.
     let page = (case arg of None \<Rightarrow> 1 | Some t \<Rightarrow> (case parse_int t of Some i \<Rightarrow> i | None \<Rightarrow> 1));
         count = sched_count False False w
     in (case sched_list_all 20 ((page - 1) * 20) False False w of
         Inl e \<Rightarrow> (Raised e, w)
       | Inr rows \<Rightarrow> (Returned (rows, page, (count + 20 - 1) div 20, count), w)))"

definition form_raw :: "(string \<times> string) list \<Rightarrow> string \<Rightarrow> string \<Rightarrow> string" where
  "form_raw form k d = get_or (map_of form k) d"

definition form_parameters :: "(string \<times> string) list \<Rightarrow> payload" where
  "form_parameters form = map (\<lambda>k. (k, PStr (fget form k [])))
     (filter (\<lambda>k. fget form k [] \<noteq> []) [''start_date'', ''end_date'', ''user_id'', ''action''])"

text \<open>The message that refuses a form.\<close>

definition form_refusal :: "text_env \<Rightarrow> (string \<times> string) list \<Rightarrow> string option" where
  "form_refusal env form =
     (if fget form ''name'' [] = [] then Some ''Report name is required.''
      else if fget form ''next_run_time'' [] = [] then Some ''Next run time is required.''
      else if \<not> iso_moment env (fget form ''next_run_time'' [])
      then Some ''Invalid next run time format. Please use YYYY-MM-DD HH:MM:SS.''
      else None)"

definition create_route ::
  "text_env \<Rightarrow> user \<Rightarrow> int \<Rightarrow> int \<Rightarrow> (string \<times> string) list \<Rightarrow> audit_world \<Rightarrow> flashed outcome \<times> audit_world" where
  "create_route env u uid now form = write_roles_required u (\<lambda>w.
     (case form_refusal env form of
        Some m \<Rightarrow> (Returned (''admin_audit_report.create'', [(''error'', m)]), w)
      | None \<Rightarrow> (case sched_create env now (fget form ''name'' []) (fget form ''description'' [])
            (form_raw form ''format'' ''CSV'') (form_raw form ''frequency'' ''daily'') (form_parameters form)
            (fget form ''next_run_time'' []) uid w of
          (Inl e, w1) \<Rightarrow> (Raised e, w1)
        | (Inr _, w1) \<Rightarrow> (Returned (index_page,
            [(''success'', ''Scheduled audit report '' @ quoted (fget form ''name'' []) @ '' created successfully.'')]), w1))))"

definition not_found_page :: flashed where
  "not_found_page = (index_page, [(''error'', ''Scheduled audit report not found.'')])"

definition edit_page_route :: "user \<Rightarrow> int \<Rightarrow> audit_world \<Rightarrow> (flashed + sched \<times> payload) outcome \<times> audit_world" where
  "edit_page_route u i = write_roles_required u (\<lambda>w. (case sched_get i False w of
       None \<Rightarrow> (Returned (Inl not_found_page), w)
     | Some r \<Rightarrow> (case load_parameters r of
           Inl e \<Rightarrow> (Raised e, w)
         | Inr p \<Rightarrow> (Returned (Inr (r, p)), w))))"

definition edit_route ::
  "text_env \<Rightarrow> user \<Rightarrow> int \<Rightarrow> int \<Rightarrow> int \<Rightarrow> (string \<times> string) list \<Rightarrow> audit_world \<Rightarrow> flashed outcome \<times> audit_world" where
  "edit_route env u uid now i form = write_roles_required u (\<lambda>w. (case sched_get i False w of
       None \<Rightarrow> (Returned not_found_page, w)
     | Some r \<Rightarrow> (case form_refusal env form of
           Some m \<Rightarrow> (Returned (''admin_audit_report.edit'', [(''error'', m)]), w)
         | None \<Rightarrow> (case sched_update env now i (fget form ''name'' []) (fget form ''description'' [])
               (form_raw form ''format'' ''CSV'') (form_raw form ''frequency'' ''daily'') (form_parameters form)
               (fget form ''next_run_time'' []) uid w of
             (Inl e, w1) \<Rightarrow> (Returned (''admin_audit_report.edit'', [(''error'', ''Error updating report: '' @ exc_text e)]), w1)
           | (Inr _, w1) \<Rightarrow> (Returned (index_page,
               [(''success'', ''Scheduled audit report '' @ quoted (fget form ''name'' []) @ '' updated successfully.'')]), w1)))))"

definition delete_route :: "user \<Rightarrow> int \<Rightarrow> int \<Rightarrow> audit_world \<Rightarrow> flashed outcome \<times> audit_world" where
  "delete_route u now i = write_roles_required u (\<lambda>w. (case sched_get i False w of
       None \<Rightarrow> (Returned not_found_page, w)
     | Some r \<Rightarrow> (Returned (index_page,
         [(''success'', ''Scheduled audit report '' @ quoted (sr_name r) @ '' deleted successfully.'')]), sched_delete now i w)))"

definition run_report_route ::
  "user \<Rightarrow> int \<Rightarrow> bool \<Rightarrow> int \<Rightarrow> string \<Rightarrow> int \<Rightarrow> run_state \<Rightarrow> flashed outcome \<times> run_state" where
  "run_report_route u uid queue_enabled now uuid i = write_roles_required u (\<lambda>st.
     (case generate_report_async queue_enabled now uuid i uid st of (job, st1) \<Rightarrow>
        (Returned (index_page, [(''success'', ''Report generation started. Job ID: '' @ job)]), st1)))"

definition run_due_route :: "text_env \<Rightarrow> user \<Rightarrow> int \<Rightarrow> int \<Rightarrow> audit_world \<Rightarrow> flashed outcome \<times> audit_world" where
  "run_due_route env u uid now = write_roles_required u (\<lambda>w. (case run_due_reports env (LoggedIn uid) now w of
       (Inl e, w1) \<Rightarrow> (Raised e, w1)
     | (Inr (msg, out), w1) \<Rightarrow> (Returned (index_page, [(''success'', msg)]), w1)))"

section \<open>What a run does to the table\<close>

lemma load_parameters_Ok: "load_parameters r = Inr p \<longleftrightarrow> p = [] \<and> (sr_params r = None \<or> sr_params r = Some [])"
  by (auto simp: load_parameters_def split: option.splits list.splits)

lemma report_filters_Nil [simp]: "report_filters env [] = Ok (None, None, None, None)"
  by (simp add: report_filters_def dget_def day_param_def)

text \<open>A report runs through only when it has no filters.\<close>

definition unfiltered :: "sched \<Rightarrow> bool" where
  "unfiltered r = (sr_params r = None \<or> sr_params r = Some [])"

definition advance :: "int \<Rightarrow> sched \<Rightarrow> sched" where
  "advance now r = r\<lparr>sr_last := Some now, sr_next := Some (now + period (sr_frequency r)), sr_updated := now\<rparr>"

lemma load_unfiltered: "unfiltered r \<Longrightarrow> load_parameters r = Inr []"
  by (auto simp: unfiltered_def load_parameters_def)

lemma load_filtered: "\<not> unfiltered r \<Longrightarrow> \<exists>e. load_parameters r = Inl e"
  by (auto simp: unfiltered_def load_parameters_def split: option.splits list.splits)

lemma report_data_unfiltered:
  "unfiltered r \<Longrightarrow> report_data env r w = Inr (generate_report_data (None, None, None, None) (aw_log w))"
  by (simp add: report_data_def load_unfiltered)

lemma report_data_filtered: "\<not> unfiltered r \<Longrightarrow> \<exists>e. report_data env r w = Inl e"
  using load_filtered[of r] by (auto simp: report_data_def)

lemma sched_get_Some: "sched_get i False w = Some r \<Longrightarrow> r \<in> set (aw_scheds w) \<and> sr_id r = i \<and> undeleted r"
  by (auto simp: sched_get_def dest!: find_row_Some)

lemma sched_get_in:
  assumes "distinct (map sr_id (aw_scheds w))" "r \<in> set (aw_scheds w)" "undeleted r"
  shows "sched_get (sr_id r) False w = Some r"
proof -
  have "find_row (\<lambda>r'. sr_id r' = sr_id r \<and> undeleted r') rows = Some r"
    if "distinct (map sr_id rows)" "r \<in> set rows" for rows
    using that assms(3) by (induction rows) (auto simp: rev_image_eqI)
  then show ?thesis using assms by (simp add: sched_get_def)
qed

lemma update_last_run_unfiltered:
  assumes "distinct (map sr_id (aw_scheds w))" "sched_get i False w = Some r" "unfiltered r"
  shows "update_last_run now i w = (Inr (), set_sched i (advance now) w)"
proof -
  have "update_where (\<lambda>r. sr_id r = i) (\<lambda>r'. r'\<lparr>sr_last := Some now, sr_next := Some (now + period (sr_frequency r)),
      sr_updated := now\<rparr>) (aw_scheds w) = update_where (\<lambda>r. sr_id r = i) (advance now) (aw_scheds w)"
    unfolding update_where_def
  proof (rule map_cong[OF refl])
    fix x assume "x \<in> set (aw_scheds w)"
    then have "x = r" if "sr_id x = i"
      using that assms(1) sched_get_Some[OF assms(2)] by (metis distinct_map inj_onD)
    then show "(if sr_id x = i then x\<lparr>sr_last := Some now, sr_next := Some (now + period (sr_frequency r)), sr_updated := now\<rparr> else x)
        = (if sr_id x = i then advance now x else x)" by (auto simp: advance_def)
  qed
  then show ?thesis using assms by (simp add: update_last_run_def load_unfiltered set_sched_def)
qed

lemma notif_accounts: "repo_notif_create now u t m ic l k n = (res, n') \<Longrightarrow> nt_accounts n' = nt_accounts n"
  by (auto simp: repo_notif_create_def notif_insert_def split: sum.splits if_splits option.splits)

lemma notify_outcome:
  "notify_generated now r uid w w1 = w \<or>
   (\<exists>n. notify_generated now r uid w w1 = w1\<lparr>aw_notifs := n\<rparr> \<and> nt_accounts n = nt_accounts (aw_notifs w1))"
proof (cases uid)
  case (Some u)
  obtain res n where n: "repo_notif_create now u (report_title r) (report_message r) ''&#9675;''
      (Some ''/admin/audit_reports'') None (aw_notifs w1) = (res, n)" by (rule prod.exhaust)
  then show ?thesis using Some notif_accounts[OF n] by (cases res) (auto simp: notify_generated_def)
qed (simp add: notify_generated_def)

text \<open>A run leaves the table alone or advances the one report.\<close>

lemma run_cases:
  assumes "distinct (map sr_id (aw_scheds w))"
  obtains "snd (generate_and_save_report env now i uid w) = w"
  | r n where "sched_get i False w = Some r" "unfiltered r" "nt_accounts n = nt_accounts (aw_notifs w)"
      "snd (generate_and_save_report env now i uid w) = (set_sched i (advance now) w)\<lparr>aw_notifs := n\<rparr>"
proof (cases "sched_get i False w")
  case None
  then show ?thesis using that(1) by (simp add: generate_and_save_report_def)
next
  case (Some r)
  show ?thesis
  proof (cases "unfiltered r")
    case False
    then obtain e where "report_data env r w = Inl e" using report_data_filtered by blast
    then show ?thesis using that(1) Some by (simp add: generate_and_save_report_def)
  next
    case True
    have "snd (generate_and_save_report env now i uid w) = notify_generated now r uid w (set_sched i (advance now) w)"
      using Some by (simp add: generate_and_save_report_def report_data_unfiltered[OF True]
          update_last_run_unfiltered[OF assms Some True])
    then show ?thesis using that Some True notify_outcome[of now r uid w "set_sched i (advance now) w"]
      by (auto simp: set_sched_def)
  qed
qed

lemma run_filtered:
  assumes "sched_get i False w = Some r" "\<not> unfiltered r"
  shows "\<exists>e. generate_and_save_report env now i uid w = (Inl e, w)"
  using report_data_filtered[OF assms(2), of env w] assms(1) by (auto simp: generate_and_save_report_def)

lemma set_sched_other: "r \<in> set (aw_scheds w) \<Longrightarrow> sr_id r \<noteq> i \<Longrightarrow> r \<in> set (aw_scheds (set_sched i f w))"
  by (auto simp: set_sched_def update_where_def image_iff intro!: bexI[of _ r])

lemma advance_keys [simp]: "sr_id (advance now r) = sr_id r" "sr_name (advance now r) = sr_name r"
  "sr_created_by (advance now r) = sr_created_by r" "sr_updated_by (advance now r) = sr_updated_by r"
  "sr_format (advance now r) = sr_format r" "sr_frequency (advance now r) = sr_frequency r"
  "sr_deleted (advance now r) = sr_deleted r" "sr_params (advance now r) = sr_params r"
  by (simp_all add: advance_def)

lemma run_keeps_ids:
  assumes "distinct (map sr_id (aw_scheds w))"
  shows "map sr_id (aw_scheds (snd (generate_and_save_report env now i uid w))) = map sr_id (aw_scheds w)"
  by (rule run_cases[OF assms, of env now i uid]) (simp_all add: set_sched_def)

lemma run_keeps_other:
  assumes "distinct (map sr_id (aw_scheds w))" "r \<in> set (aw_scheds w)" "sr_id r \<noteq> i"
  shows "r \<in> set (aw_scheds (snd (generate_and_save_report env now i uid w)))"
  by (rule run_cases[OF assms(1), of env now i uid]) (use assms in \<open>simp_all add: set_sched_other\<close>)

text \<open>A small world: a daily report without filters and a weekly one with a filter, one user.\<close>

definition toy_sched :: sched where
  "toy_sched = \<lparr>sr_id = 1, sr_name = ''logins'', sr_description = [], sr_format = ''CSV'', sr_frequency = ''daily'',
     sr_params = Some [], sr_next = Some 20, sr_last = None, sr_active = True, sr_created = 3, sr_updated = 3,
     sr_created_by = 7, sr_updated_by = 7, sr_deleted = None\<rparr>"

definition toy_filtered :: sched where
  "toy_filtered = toy_sched\<lparr>sr_id := 2, sr_name := ''ann'', sr_params := Some [(''user_id'', PStr ''7'')], sr_next := Some 10\<rparr>"

definition toy_audit_world :: audit_world where
  "toy_audit_world = \<lparr>aw_scheds = [toy_sched, toy_filtered], aw_next = 3, aw_log = [toy_row],
     aw_notifs = \<lparr>nt_rows = [], nt_next = 1, nt_accounts = accounts demo_users, nt_products = []\<rparr>\<rparr>"

definition toy_texts :: text_env where
  "toy_texts = \<lparr>iso_moment = \<lambda>s. parse_int s \<noteq> None, pg_moment = parse_int, iso_day = parse_int, iso_text = int_str,
     json_text = \<lambda>s. s\<rparr>"

section \<open>A report with filters\<close>

text \<open>What stays as it is behind a report with filters: itself and a report \<open>q\<close> that is due later.\<close>

definition stuck :: "sched \<Rightarrow> sched \<Rightarrow> audit_world \<Rightarrow> bool" where
  "stuck r q w = (distinct (map sr_id (aw_scheds w)) \<and> r \<in> set (aw_scheds w) \<and> q \<in> set (aw_scheds w))"

lemma run_each_stuck:
  assumes "stuck r q w" "undeleted r" "\<not> unfiltered r"
    and "\<forall>p\<in>set pre. sr_id p \<noteq> sr_id r \<and> sr_id p \<noteq> sr_id q"
  shows "isl (fst (run_each env c now (pre @ r # post) w)) \<and> stuck r q (snd (run_each env c now (pre @ r # post) w))"
  using assms(1,4)
proof (induction pre arbitrary: w)
  case Nil
  show ?case
  proof (cases "run_by c w")
    case (Inr uid)
    have "sched_get (sr_id r) False w = Some r"
      using Nil(1) assms(2) sched_get_in by (auto simp: stuck_def)
    from run_filtered[OF this assms(3), of env now "Some uid"] Nil(1) Inr show ?thesis by auto
  qed (use Nil in simp)
next
  case (Cons p pre)
  show ?case
  proof (cases "run_by c w")
    case (Inr uid)
    obtain res w1 where run: "generate_and_save_report env now (sr_id p) (Some uid) w = (res, w1)"
      by (rule prod.exhaust)
    have "stuck r q w1"
      using Cons.prems run_keeps_ids[of w env now "sr_id p" "Some uid"] run_keeps_other[of w r "sr_id p" env now "Some uid"]
        run_keeps_other[of w q "sr_id p" env now "Some uid"] run by (auto simp: stuck_def)
    then have "isl (fst (run_each env c now (pre @ r # post) w1)) \<and> stuck r q (snd (run_each env c now (pre @ r # post) w1))"
      using Cons.IH[of w1] Cons.prems(2) by simp
    then show ?thesis using Inr run \<open>stuck r q w1\<close> by (auto split: sum.splits prod.splits)
  qed (use Cons.prems in simp)
qed

lemma due_before:
  assumes "distinct (map sr_id (aw_scheds w))" "r \<in> set (aw_scheds w)" "q \<in> set (aw_scheds w)" "due_at now r"
    and "sr_next r = Some t" "sr_next q = Some t'" "t < t'"
  obtains pre post where "get_due_reports now w = pre @ r # post"
    "\<forall>p\<in>set pre. sr_id p \<noteq> sr_id r \<and> sr_id p \<noteq> sr_id q"
proof -
  let ?due = "get_due_reports now w"
  have mem: "set ?due = {x \<in> set (aw_scheds w). due_at now x}" by (auto simp: get_due_reports_def)
  obtain pre post where split: "?due = pre @ r # post" using assms(2,4) mem split_list[of r ?due] by auto
  have "sorted (map (\<lambda>r. the (sr_next r)) ?due)" by (simp add: get_due_reports_def)
  then have le: "\<forall>p\<in>set pre. the (sr_next p) \<le> t" using assms(5) by (auto simp: split sorted_append)
  have "distinct (map sr_id (filter (due_at now) (aw_scheds w)))" using assms(1) by (rule distinct_map_filter)
  then have "distinct (map sr_id ?due)" by (simp add: get_due_reports_def distinct_map)
  then have "sr_id r \<notin> sr_id ` set pre" by (simp add: split)
  then have "\<forall>p\<in>set pre. sr_id p \<noteq> sr_id r" by (metis imageI)
  moreover have "\<forall>p\<in>set pre. sr_id p \<noteq> sr_id q"
  proof
    fix p assume p: "p \<in> set pre"
    then have "p \<in> set (aw_scheds w)" using mem split by auto
    moreover have "p \<noteq> q" using le p assms(6,7) by auto
    ultimately show "sr_id p \<noteq> sr_id q" using assms(1,3) by (metis distinct_map inj_onD)
  qed
  ultimately show ?thesis using that[OF split] by blast
qed

text \<open>A due report with filters blocks the schedule for good.  Every run of the due reports, at any later
  time and by whomever, raises an exception; the report stays due, and a report that is due after it is never
  run, however often the due reports are run.\<close>

theorem filtered_report_blocks:
  assumes "distinct (map sr_id (aw_scheds w))" "r \<in> set (aw_scheds w)" "q \<in> set (aw_scheds w)"
    and "due_at t0 r" "sr_params r = Some (x # xs)" "sr_next r = Some t" "sr_next q = Some t'" "t < t'"
    and "\<forall>(c, now)\<in>set later_runs. t0 \<le> now" "t0 \<le> now"
  shows "isl (fst (run_due_reports env c now (run (\<lambda>(c, now). snd \<circ> run_due_reports env c now) later_runs w))) \<and>
    r \<in> set (aw_scheds (run (\<lambda>(c, now). snd \<circ> run_due_reports env c now) later_runs w)) \<and>
    q \<in> set (aw_scheds (run (\<lambda>(c, now). snd \<circ> run_due_reports env c now) later_runs w))"
proof -
  have r: "undeleted r" "\<not> unfiltered r" "due_at now' r" if "t0 \<le> now'" for now'
    using assms(4,5) that by (auto simp: due_at_def unfiltered_def split: option.splits)
  have step: "isl (fst (run_due_reports env c now' w')) \<and> stuck r q (snd (run_due_reports env c now' w'))"
    if "stuck r q w'" "t0 \<le> now'" for c now' w'
  proof -
    note here = that
    obtain pre post where "get_due_reports now' w' = pre @ r # post"
      "\<forall>p\<in>set pre. sr_id p \<noteq> sr_id r \<and> sr_id p \<noteq> sr_id q"
      using due_before[of w' r q now' t t'] here(1) r(3)[OF here(2)] assms(6-8) unfolding stuck_def by metis
    then show ?thesis using run_each_stuck[OF here(1) r(1,2)[OF here(2)],
        where pre = pre and post = post and env = env and c = c and now = now']
      by (auto simp: run_due_reports_def split: prod.splits sum.splits)
  qed
  have "stuck r q (run (\<lambda>(c, now). snd \<circ> run_due_reports env c now) later_runs w')" if "stuck r q w'" for w'
    using assms(9) that by (induction later_runs arbitrary: w') (auto simp: step)
  then show ?thesis using step assms(1-3,10) by (auto simp: stuck_def)
qed

theorem filtered_report_blocks_witness:
  "isl (fst (run_due_reports toy_texts Anonymous 40
     (run (\<lambda>(c, now). snd \<circ> run_due_reports toy_texts c now) [(LoggedIn 7, 25), (NoRequest, 30)] toy_audit_world))) \<and>
   toy_sched \<in> set (aw_scheds (run (\<lambda>(c, now). snd \<circ> run_due_reports toy_texts c now)
     [(LoggedIn 7, 25), (NoRequest, 30)] toy_audit_world))"
  using filtered_report_blocks[of toy_audit_world toy_filtered toy_sched 15 "(''user_id'', PStr ''7'')" "[]" 10 20
      "[(LoggedIn 7, 25), (NoRequest, 30)]" 40 toy_texts Anonymous]
  by (simp add: toy_audit_world_def toy_filtered_def toy_sched_def due_at_def undeleted_def)

section \<open>A report without filters\<close>

lemma notify_ok:
  assumes "length (sr_name r) \<le> 176" "u \<in> set (map ac_id (nt_accounts (aw_notifs w1)))"
  shows "notify_generated now r (Some u) w w1 = w1\<lparr>aw_notifs := notif_insert now u (report_title r)
    (report_message r) ''&#9675;'' (Some ''/admin/audit_reports'') None (aw_notifs w1)\<rparr>"
  using assms by (simp add: notify_generated_def repo_notif_create_def notif_check_def report_title_def fits_def)

lemma notify_too_long: "176 < length (sr_name r) \<Longrightarrow> notify_generated now r uid w w1 = w"
  by (cases uid) (simp_all add: notify_generated_def repo_notif_create_def notif_check_def report_title_def ensure_def)

text \<open>A due report without filters whose name fits the notification runs once per period: the run answers
  success, records the time, moves the report to the next date, notifies the requester, and the report is not
  due again before that date.\<close>

theorem due_report_advances:
  assumes "distinct (map sr_id (aw_scheds w))" "sched_get i False w = Some r" "unfiltered r"
    and "length (sr_name r) \<le> 176" "u \<in> set (map ac_id (nt_accounts (aw_notifs w)))"
    and "generate_and_save_report env now i (Some u) w = (res, w')"
  shows "res = Ok \<lparr>run_ok = True, run_message = ''Report '' @ quoted (sr_name r) @ '' generated successfully.''\<rparr> \<and>
    sched_get i False w' = Some (advance now r) \<and>
    (\<forall>t<now + period (sr_frequency r). \<not> due_at t (advance now r)) \<and> 0 < period (sr_frequency r) \<and>
    length (nt_rows (aw_notifs w')) = Suc (length (nt_rows (aw_notifs w)))"
proof -
  have run: "res = Ok \<lparr>run_ok = True, run_message = ''Report '' @ quoted (sr_name r) @ '' generated successfully.''\<rparr>"
    "w' = notify_generated now r (Some u) w (set_sched i (advance now) w)"
    using assms(6) by (simp_all add: generate_and_save_report_def assms(2) report_data_unfiltered[OF assms(3)]
        update_last_run_unfiltered[OF assms(1-3)])
  have w': "w' = (set_sched i (advance now) w)\<lparr>aw_notifs := notif_insert now u (report_title r)
      (report_message r) ''&#9675;'' (Some ''/admin/audit_reports'') None (aw_notifs w)\<rparr>"
    unfolding run(2) using notify_ok[OF assms(4), of u "set_sched i (advance now) w"] assms(5) by (simp add: set_sched_def)
  note r = sched_get_Some[OF assms(2)]
  have "advance now r \<in> set (aw_scheds w')"
    using r by (auto simp: w' set_sched_def update_where_def image_iff intro!: bexI[of _ r])
  moreover have "distinct (map sr_id (aw_scheds w'))" using assms(1) by (simp add: w' set_sched_def)
  ultimately have "sched_get i False w' = Some (advance now r)"
    using sched_get_in[of w' "advance now r"] r by (simp add: undeleted_def)
  then show ?thesis using run(1) by (auto simp: due_at_def advance_def period_def w' notif_insert_def)
qed

theorem due_report_advances_witness:
  "sched_get 1 False toy_audit_world = Some toy_sched \<and>
   sched_get 1 False (snd (generate_and_save_report toy_texts 50 1 (Some 7) toy_audit_world)) = Some (advance 50 toy_sched)"
proof -
  have g: "sched_get 1 False toy_audit_world = Some toy_sched" by code_simp
  show ?thesis
    using due_report_advances[of toy_audit_world 1 toy_sched 7 toy_texts 50
        "fst (generate_and_save_report toy_texts 50 1 (Some 7) toy_audit_world)"
        "snd (generate_and_save_report toy_texts 50 1 (Some 7) toy_audit_world)"] g
    by (simp add: toy_audit_world_def toy_filtered_def toy_sched_def unfiltered_def demo_users_def)
qed

text \<open>A report whose name is longer than 176 characters never advances: its notification does not fit, the
  exception is swallowed and the rollback takes the new date along, yet the run answers success.\<close>

theorem long_name_never_advances:
  assumes "distinct (map sr_id (aw_scheds w))" "sched_get i False w = Some r" "unfiltered r" "176 < length (sr_name r)"
  shows "generate_and_save_report env now i uid w =
    (Ok \<lparr>run_ok = True, run_message = ''Report '' @ quoted (sr_name r) @ '' generated successfully.''\<rparr>, w)"
  by (simp add: generate_and_save_report_def assms(2) report_data_unfiltered[OF assms(3)]
      update_last_run_unfiltered[OF assms(1-3)] notify_too_long[OF assms(4)])

theorem long_name_never_advances_witness:
  "generate_and_save_report toy_texts 50 1 (Some 7)
     (toy_audit_world\<lparr>aw_scheds := [toy_sched\<lparr>sr_name := replicate 177 CHR ''x''\<rparr>]\<rparr>) =
   (Ok \<lparr>run_ok = True, run_message = ''Report '' @ quoted (replicate 177 CHR ''x'') @ '' generated successfully.''\<rparr>,
    toy_audit_world\<lparr>aw_scheds := [toy_sched\<lparr>sr_name := replicate 177 CHR ''x''\<rparr>]\<rparr>)"
  using long_name_never_advances[of "toy_audit_world\<lparr>aw_scheds := [toy_sched\<lparr>sr_name := replicate 177 CHR ''x''\<rparr>]\<rparr>" 1
      "toy_sched\<lparr>sr_name := replicate 177 CHR ''x''\<rparr>" toy_texts 50 "Some 7"]
  by (simp add: toy_sched_def sched_get_def undeleted_def unfiltered_def)

section \<open>The background task always ends its job\<close>

lemma on_tracked_get:
  "map_of js i = Some t \<Longrightarrow> map_of (snd (on_tracked i f js)) i = Some (f t)"
  "k \<noteq> i \<Longrightarrow> map_of (snd (on_tracked i f js)) k = map_of js k"
  by (simp_all add: on_tracked_def update_conv' split: option.split)

lemma progress_get:
  "map_of js i = Some t \<Longrightarrow> \<exists>t'. map_of (snd (update_progress now i c msg meta js)) i = Some t' \<and> tj_user t' = tj_user t"
  "k \<noteq> i \<Longrightarrow> map_of (snd (update_progress now i c msg meta js)) k = map_of js k"
  by (simp_all add: update_progress_def on_tracked_get Let_def)

lemma fail_get:
  "map_of js i = Some t \<Longrightarrow> \<exists>t'. map_of (snd (fail_job now i err js)) i = Some t' \<and> tj_user t' = tj_user t \<and>
     tj_status t' = ''failed'' \<and> tj_error t' = Some err \<and> tj_completed t' = Some now"
  "k \<noteq> i \<Longrightarrow> map_of (snd (fail_job now i err js)) k = map_of js k"
  by (simp_all add: fail_job_def on_tracked_get)

lemma complete_get:
  "map_of js i = Some t \<Longrightarrow> \<exists>t'. map_of (snd (complete_job now i res js)) i = Some t' \<and> tj_user t' = tj_user t \<and>
     tj_status t' = ''completed'' \<and> tj_result t' = res \<and> tj_completed t' = Some now"
  "k \<noteq> i \<Longrightarrow> map_of (snd (complete_job now i res js)) k = map_of js k"
  by (simp_all add: complete_job_def on_tracked_get)

lemmas tracker_gets = progress_get(2) fail_get(2) complete_get(2)

text \<open>A report job never hangs.  Whatever the report is, the background task ends the job it was started
  with, and only that job: completed with the number of rows of the log when the report is live and has no
  filters, and failed otherwise.\<close>

theorem background_job_settles:
  assumes "get_job job js = Some t" "distinct (map sr_id (aw_scheds w))"
    and "generate_report_background env now job i uid (js, w) = (js', w')"
  shows "\<exists>t'. get_job job js' = Some t' \<and> tj_user t' = tj_user t \<and> tj_completed t' = Some now \<and>
    (case sched_get i False w of
       Some r \<Rightarrow> (if unfiltered r then tj_status t' = ''completed'' \<and>
           tj_result t' = Some [(''rows'', PInt (int (length (aw_log w)))), (''format'', PStr (sr_format r))]
         else tj_status t' = ''failed'')
     | None \<Rightarrow> tj_status t' = ''failed'' \<and> tj_error t' = Some ''Scheduled report not found'') \<and>
    (\<forall>k. k \<noteq> job \<longrightarrow> get_job k js' = get_job k js)"
proof -
  let ?js1 = "snd (update_progress now job 1 ''Fetching report configuration'' [] js)"
  let ?js2 = "snd (update_progress now job 2 ''Generating report data'' [] ?js1)"
  let ?js3 = "snd (update_progress now job 3 ''Generating report file'' [] ?js2)"
  let ?js4 = "snd (update_progress now job 4 ''Sending notification'' [] ?js3)"
  obtain t1 where t1: "map_of ?js1 job = Some t1" "tj_user t1 = tj_user t"
    using progress_get(1)[of js job t now 1] assms(1) unfolding get_job_def by blast
  obtain t2 where t2: "map_of ?js2 job = Some t2" "tj_user t2 = tj_user t"
    using progress_get(1)[OF t1(1)] t1(2) by metis
  obtain t3 where t3: "map_of ?js3 job = Some t3" "tj_user t3 = tj_user t"
    using progress_get(1)[OF t2(1)] t2(2) by metis
  obtain t4 where t4: "map_of ?js4 job = Some t4" "tj_user t4 = tj_user t"
    using progress_get(1)[OF t3(1)] t3(2) by metis
  show ?thesis
  proof (cases "sched_get i False w")
    case None
    then have "js' = snd (fail_job now job ''Scheduled report not found'' ?js1)"
      using assms(3) by (simp add: generate_report_background_def Let_def)
    then show ?thesis using fail_get(1)[OF t1(1)] t1(2) None by (auto simp: get_job_def tracker_gets)
  next
    case (Some r)
    show ?thesis
    proof (cases "unfiltered r")
      case False
      then obtain e where "report_data env r w = Inl e" using report_data_filtered by blast
      then have "js' = snd (fail_job now job (exc_text e) ?js2)"
        using assms(3) Some by (simp add: generate_report_background_def Let_def)
      then show ?thesis using fail_get(1)[OF t2(1)] t2(2) Some False by (auto simp: get_job_def tracker_gets)
    next
      case True
      have "length (generate_report_data (None, None, None, None) (aw_log w)) = length (aw_log w)"
        by (simp add: generate_report_data_def)
      then have "js' = snd (complete_job now job
          (Some [(''rows'', PInt (int (length (aw_log w)))), (''format'', PStr (sr_format r))]) ?js4)"
        using assms(3) Some by (simp add: generate_report_background_def Let_def report_data_unfiltered[OF True]
            update_last_run_unfiltered[OF assms(2) Some True])
      then show ?thesis using complete_get(1)[OF t4(1)] t4(2) Some True by (auto simp: get_job_def tracker_gets)
    qed
  qed
qed

theorem background_job_settles_witness:
  "\<exists>t. get_job ''u-1'' (fst (generate_report_background toy_texts 50 ''u-1'' 2 7
       (create_job ''u-1'' 40 ''audit_report'' 7 4 [] [], toy_audit_world))) = Some t \<and> tj_status t = ''failed''"
proof -
  have g: "sched_get 2 False toy_audit_world = Some toy_filtered" "\<not> unfiltered toy_filtered"
    "distinct (map sr_id (aw_scheds toy_audit_world))" by code_simp+
  obtain t where "get_job ''u-1'' (create_job ''u-1'' 40 ''audit_report'' 7 4 [] []) = Some t"
    by (simp add: get_job_def create_job_def)
  from background_job_settles[OF this g(3) prod.collapse[symmetric], of toy_texts 50 2 7] g(1,2)
  show ?thesis by auto
qed

section \<open>Who sees a job\<close>

text \<open>The job that a report run was started as, in the queue or in the tracker, answers polls of the
  requester and of administrators under the id that the run answered, with the same contract in both modes
  (pending, no progress, four steps, the report's id); every other manager is refused with 403, other users
  are stopped before, and polling changes nothing.\<close>

theorem job_status_owner_only:
  assumes "generate_report_async queue_enabled now uuid i uid st = (job, st1)"
    and "\<forall>j\<in>set (jobs (ru_queue st)). j_id j < next_job (ru_queue st)" "parse_int uuid = None"
  shows "\<exists>d. jd_user d = PInt uid \<and> jd_status d = ''pending'' \<and> jd_progress d = 0 \<and> jd_total d = 4 \<and>
    jd_metadata d = [(''report_id'', PInt i)] \<and> jd_id d = job \<and>
    job_status_route u uid' job st1 =
      (if role u \<noteq> Some ''admin'' \<and> role u \<noteq> Some ''manager'' then Aborted 403
       else if uid' = uid \<or> role u = Some ''admin'' then Returned (JobDict d)
       else Returned (StatusError 403 ''Unauthorized''), st1)"
proof -
  have "\<exists>d. load_job job st1 = Some d \<and> jd_user d = PInt uid \<and> jd_status d = ''pending'' \<and> jd_progress d = 0 \<and>
    jd_total d = 4 \<and> jd_metadata d = [(''report_id'', PInt i)] \<and> jd_id d = job"
  proof (cases queue_enabled)
    case True
    let ?n = "next_job (ru_queue st)"
    have "find_row (\<lambda>j. j_id j = ?n) (jobs (ru_queue st)) = None"
      using assms(2) by (auto simp: find_row_None)
    then show ?thesis using assms(1) True
      by (auto simp: generate_report_async_def enqueue_def load_job_def parse_int_int_str find_row_append
          queue_job_to_tracker_dict_def get_or_def STATUS_MAP_def PROGRESS_MAP_def dget_def)
  next
    case False
    then show ?thesis using assms(1,3)
      by (auto simp: generate_report_async_def load_job_def create_job_def get_job_def update_conv' tracked_dict_def)
  qed
  then show ?thesis
    by (auto simp: job_status_route_def write_roles_required_def roles_required_def WRITE_ROLES_def)
qed

theorem job_status_owner_only_witness:
  "\<exists>d st1. generate_report_async True 50 ''u-1'' 2 7
       \<lparr>ru_queue = \<lparr>jobs = [], next_job = 1\<rparr>, ru_tracker = [], ru_threads = [], ru_world = toy_audit_world\<rparr> = (''1'', st1) \<and>
     job_status_route \<lparr>role = Some ''manager'', job_role = None\<rparr> 7 ''1'' st1 = (Returned (JobDict d), st1) \<and>
     job_status_route \<lparr>role = Some ''manager'', job_role = None\<rparr> 8 ''1'' st1 =
       (Returned (StatusError 403 ''Unauthorized''), st1)"
proof -
  let ?st = "\<lparr>ru_queue = \<lparr>jobs = [], next_job = 1\<rparr>, ru_tracker = [], ru_threads = [], ru_world = toy_audit_world\<rparr>"
  obtain job st1 where a: "generate_report_async True 50 ''u-1'' 2 7 ?st = (job, st1)" by (rule prod.exhaust)
  have "int_str 1 = ''1''" by code_simp
  then have job: "job = ''1''" using a by (simp add: generate_report_async_def enqueue_def)
  have p: "parse_int ''u-1'' = None" by code_simp
  have q: "\<forall>j\<in>set (jobs (ru_queue ?st)). j_id j < next_job (ru_queue ?st)" by simp
  show ?thesis
    using job_status_owner_only[OF a q p, of "\<lparr>role = Some ''manager'', job_role = None\<rparr>" 7]
      job_status_owner_only[OF a q p, of "\<lparr>role = Some ''manager'', job_role = None\<rparr>" 8] a job by auto
qed

section \<open>Other errors\<close>

text \<open>The queue runs the due reports outside a request, where there is no current user to ask: with anything
  due the handler raises.\<close>

theorem due_reports_need_a_request:
  assumes "get_due_reports now w \<noteq> []"
  shows "\<exists>m. check_due_reports_handler env now p w = (Err (AttributeError m), w)"
  using assms by (cases "get_due_reports now w")
    (simp_all add: check_due_reports_handler_def run_due_reports_def run_by_def)

text \<open>The name of a deleted report stays taken: creating a report with it raises.\<close>

theorem deleted_name_stays_taken:
  assumes "r \<in> set (aw_scheds w)" "sr_name r = name"
  shows "\<exists>e. sched_create env now name descr fmt freq params next_run uid (sched_delete t (sr_id r) w)
    = (Err e, sched_delete t (sr_id r) w)"
proof -
  have "\<exists>r'\<in>set (aw_scheds (sched_delete t (sr_id r) w)). sr_name r' = name"
    using assms by (auto simp: sched_delete_def set_sched_def update_where_def image_iff intro!: bexI[of _ "r\<lparr>sr_deleted := Some t\<rparr>"])
  then show ?thesis
    by (auto simp: sched_create_def sched_check_def split: option.splits sum.splits)
      (auto simp: ensure_def bindE_Ok_iff split: if_splits)
qed

section \<open>The invariant of the table\<close>

definition sched_fits :: "int set \<Rightarrow> sched \<Rightarrow> bool" where
  "sched_fits us r = (length (sr_name r) \<le> 255 \<and> length (sr_format r) \<le> 10 \<and> length (sr_frequency r) \<le> 20 \<and>
     sr_created_by r \<in> us \<and> sr_updated_by r \<in> us)"

definition account_ids :: "audit_world \<Rightarrow> int set" where
  "account_ids w = set (map ac_id (nt_accounts (aw_notifs w)))"

definition scheds_ok :: "audit_world \<Rightarrow> bool" where
  "scheds_ok w = (distinct (map sr_id (aw_scheds w)) \<and> distinct (map sr_name (aw_scheds w)) \<and>
     (\<forall>r\<in>set (aw_scheds w). sr_id r < aw_next w \<and> sched_fits (account_ids w) r))"

datatype audit_op =
    ACreate user int int "(string \<times> string) list"
  | AEdit user int int int "(string \<times> string) list"
  | ADelete user int int
  | ARun int int "int option"
  | ARunDue caller int

fun audit_step :: "text_env \<Rightarrow> audit_op \<Rightarrow> audit_world \<Rightarrow> audit_world" where
  "audit_step env (ACreate u uid now form) w = snd (create_route env u uid now form w)"
| "audit_step env (AEdit u uid now i form) w = snd (edit_route env u uid now i form w)"
| "audit_step env (ADelete u now i) w = snd (delete_route u now i w)"
| "audit_step env (ARun now i uid) w = snd (generate_and_save_report env now i uid w)"
| "audit_step env (ARunDue c now) w = snd (run_due_reports env c now w)"

text \<open>The background task does to the tables what the synchronous run does.\<close>

lemma background_world:
  "snd (generate_report_background env now job i uid (js, w)) = snd (generate_and_save_report env now i (Some uid) w)"
  by (auto simp: generate_report_background_def generate_and_save_report_def Let_def split: option.splits sum.splits prod.splits)

lemma scheds_ok_set:
  assumes "scheds_ok w" and "\<And>r. sr_id (f r) = sr_id r"
    and "\<And>r. sr_id r = i \<Longrightarrow> r \<in> set (aw_scheds w) \<Longrightarrow> sched_fits (account_ids w) (f r)"
    and "distinct (map sr_name (update_where (\<lambda>r. sr_id r = i) f (aw_scheds w)))"
  shows "scheds_ok (set_sched i f w)"
proof -
  have ids: "map sr_id (update_where (\<lambda>r. sr_id r = i) f (aw_scheds w)) = map sr_id (aw_scheds w)"
    by (rule update_where_keys) (rule assms(2))
  have "sr_id r < aw_next w \<and> sched_fits (account_ids w) r" if "r \<in> set (update_where (\<lambda>r. sr_id r = i) f (aw_scheds w))" for r
    using that assms(1-3) by (auto simp: update_where_def scheds_ok_def)
  then show ?thesis using assms(1,4) by (simp add: scheds_ok_def set_sched_def ids) (simp add: account_ids_def)
qed

lemma sched_check_Ok:
  "sched_check self name fmt freq uid w = Inr u \<longleftrightarrow> length name \<le> 255 \<and> length fmt \<le> 10 \<and> length freq \<le> 20 \<and>
     (\<forall>r\<in>set (aw_scheds w). sr_name r = name \<longrightarrow> Some (sr_id r) = self) \<and> uid \<in> account_ids w"
  by (auto simp: sched_check_def bindE_Ok_iff account_ids_def)

lemma rename_distinct:
  assumes "distinct (map sr_id rows)" "distinct (map sr_name rows)"
    and nm: "\<And>r. sr_id r = i \<Longrightarrow> sr_name (f r) = nm" and "\<forall>r\<in>set rows. sr_name r = nm \<longrightarrow> sr_id r = i"
  shows "distinct (map sr_name (update_where (\<lambda>r. sr_id r = i) f rows))"
  using assms(1,2,4)
proof (induction rows)
  case (Cons r rows)
  have tail: "distinct (map sr_name (update_where (\<lambda>r. sr_id r = i) f rows))" using Cons by simp
  show ?case
  proof (cases "sr_id r = i")
    case True
    then have same: "update_where (\<lambda>r. sr_id r = i) f rows = rows"
      using Cons.prems(1) unfolding update_where_def by (intro map_idI) (auto simp: rev_image_eqI)
    have "nm \<notin> sr_name ` set rows"
    proof
      assume "nm \<in> sr_name ` set rows"
      then obtain x where x: "x \<in> set rows" "sr_name x = nm" by blast
      then have "sr_id x = sr_id r" using True Cons.prems(3) by simp
      then show False using x(1) Cons.prems(1) by (simp add: rev_image_eqI)
    qed
    then show ?thesis using True same tail nm[OF True] by (simp add: update_where_def)
  next
    case False
    have "sr_name r \<noteq> nm" using False Cons.prems(3) by auto
    then have "sr_name r \<notin> set (map sr_name (update_where (\<lambda>r. sr_id r = i) f rows))"
      using nm Cons.prems(2) by (auto simp: update_where_def split: if_splits)
    then show ?thesis using False tail by (simp add: update_where_def)
  qed
qed (simp add: update_where_def)

lemma create_ok: "scheds_ok w \<Longrightarrow> scheds_ok (snd (sched_create env now name descr fmt freq ps nr uid w))"
  by (auto simp: sched_create_def sched_check_Ok scheds_ok_def account_ids_def sched_fits_def
      split: option.splits sum.splits)

lemma update_ok: "scheds_ok w \<Longrightarrow> scheds_ok (snd (sched_update env now i name descr fmt freq ps nr uid w))"
proof -
  assume w: "scheds_ok w"
  show ?thesis
  proof (cases "pg_moment env nr = None \<or> sched_get i False w = None \<or> isl (sched_check (Some i) name fmt freq uid w)")
    case True
    then show ?thesis using w by (auto simp: sched_update_def split: option.splits sum.splits)
  next
    case False
    then obtain t where t: "pg_moment env nr = Some t" "sched_get i False w \<noteq> None" by auto
    from False obtain v where c: "sched_check (Some i) name fmt freq uid w = Inr v" by (cases "sched_check (Some i) name fmt freq uid w") auto
    let ?f = "\<lambda>r. r\<lparr>sr_name := name, sr_description := descr, sr_format := fmt, sr_frequency := freq,
      sr_params := Some ps, sr_next := Some t, sr_updated_by := uid, sr_updated := now\<rparr>"
    have "scheds_ok (set_sched i ?f w)"
    proof (rule scheds_ok_set[OF w])
      show "distinct (map sr_name (update_where (\<lambda>r. sr_id r = i) ?f (aw_scheds w)))"
        by (rule rename_distinct[where nm = name]) (use w c in \<open>auto simp: scheds_ok_def sched_check_Ok\<close>)
    qed (use w c in \<open>auto simp: scheds_ok_def sched_check_Ok sched_fits_def\<close>)
    then show ?thesis using t c by (auto simp: sched_update_def split: option.splits)
  qed
qed

lemma delete_ok: "scheds_ok w \<Longrightarrow> scheds_ok (sched_delete now i w)"
  unfolding sched_delete_def by (rule scheds_ok_set) (auto simp: scheds_ok_def sched_fits_def)

lemma run_ok_inv: assumes "scheds_ok w" shows "scheds_ok (snd (generate_and_save_report env now i uid w))"
proof -
  have "scheds_ok (set_sched i (advance now) w)"
    by (rule scheds_ok_set[OF assms]) (use assms in \<open>auto simp: scheds_ok_def sched_fits_def\<close>)
  moreover have "distinct (map sr_id (aw_scheds w))" using assms by (simp add: scheds_ok_def)
  ultimately show ?thesis
    by (rule_tac run_cases[of w env now i uid])
      (use assms in \<open>auto simp: scheds_ok_def account_ids_def set_sched_def\<close>)
qed

lemma run_each_ok: "scheds_ok w \<Longrightarrow> scheds_ok (snd (run_each env c now rs w))"
proof (induction rs arbitrary: w)
  case (Cons r rs)
  show ?case
  proof (cases "run_by c w")
    case (Inr uid)
    obtain res w1 where run: "generate_and_save_report env now (sr_id r) (Some uid) w = (res, w1)" by (rule prod.exhaust)
    have "scheds_ok w1" using run_ok_inv[OF Cons.prems, of env now "sr_id r" "Some uid"] run by simp
    then show ?thesis using Cons.IH[of w1] run Inr by (auto split: sum.splits prod.splits)
  qed (use Cons.prems in simp)
qed simp

interpretation audit_tables: op_system "audit_step env" scheds_ok for env
proof unfold_locales
  fix env x w assume w: "scheds_ok w"
  show "scheds_ok (audit_step env x w)"
  proof (cases x)
    case (ACreate u uid now form)
    have "scheds_ok (snd (create_route env u uid now form w))"
      using w create_ok[OF w] unfolding create_route_def write_roles_required_def roles_required_def
      by (auto split: option.splits sum.splits prod.splits) (metis snd_conv)+
    then show ?thesis using ACreate by simp
  next
    case (AEdit u uid now i form)
    have "scheds_ok (snd (edit_route env u uid now i form w))"
      using w update_ok[OF w] unfolding edit_route_def write_roles_required_def roles_required_def
      by (auto split: option.splits sum.splits prod.splits) (metis snd_conv)+
    then show ?thesis using AEdit by simp
  next
    case (ADelete u now i)
    then show ?thesis using w delete_ok[OF w]
      by (auto simp: delete_route_def write_roles_required_def roles_required_def split: option.splits)
  next
    case (ARun now i uid)
    then show ?thesis using run_ok_inv[OF w] by simp
  next
    case (ARunDue c now)
    then show ?thesis using run_each_ok[OF w] 
      by (auto simp: run_due_reports_def split: sum.splits prod.splits) (metis snd_conv)+
  qed
qed

text \<open>Any sequence of requests and runs keeps the table well formed: ids and names unique (deleted rows
  included), every column within its width, every author an account.\<close>

theorem schedules_stay_well_formed:
  assumes "scheds_ok w" shows "scheds_ok (run (audit_step env) ops w)"
  by (rule audit_tables.inv_run[OF assms])

end
