(* ===== verification/Calendar.thy ===== *)
theory Calendar
  imports Etl
begin

text \<open>The calendar behind \<open>civil\<close> (theory Etl): years that begin in March, and the months counted from them.
  The lemmas say which ordinals belong to a month, for every day of the proleptic Gregorian calendar.\<close>

section \<open>Years\<close>

text \<open>The ordinal, shifted by 305, of the first of March of a year.\<close>

definition year_first :: "int \<Rightarrow> int" where
  "year_first y = 365 * y + y div 4 - y div 100 + y div 400"

definition corrected :: "int \<Rightarrow> int" where
  "corrected x = x - x div 1460 + x div 36524 - x div 146096"

lemma corrected_parts:
  assumes "0 \<le> c" "c \<le> 3" "0 \<le> q" "q \<le> 24" "0 \<le> r" "r \<le> 3" "0 \<le> t" "t \<le> 365"
    and leap: "t = 365 \<Longrightarrow> r = 3 \<and> (q < 24 \<or> c = 3)"
    and x: "x = 36524 * c + 1461 * q + 365 * r + t"
  shows "corrected x div 365 = 100 * c + 4 * q + r"
proof -
  define b where "b = (if 1460 \<le> 24 * c + q + 365 * r + t then 1 else 0 :: int)"
  have "x div 1460 = 25 * c + q + b"
    by (rule int_div_pos_eq[where r = "24 * c + q + 365 * r + t - 1460 * b"]) (use assms(1-8) in \<open>auto simp: x b_def\<close>)
  moreover have "x div 36524 - x div 146096 = c"
  proof (cases "q = 24 \<and> r = 3 \<and> t = 365")
    case True
    then have "x = 146096" using leap x by auto
    then show ?thesis using True leap by auto
  next
    case False
    have small: "1461 * q + 365 * r + t < 36524"
    proof (cases "t = 365")
      case True
      then show ?thesis using False leap assms(4) by auto
    next
      case False
      then show ?thesis using assms(1-8) by linarith
    qed
    have "x div 36524 = c"
      by (rule int_div_pos_eq[where r = "1461 * q + 365 * r + t"]) (use assms(1-8) small in \<open>auto simp: x\<close>)
    moreover have "x div 146096 = 0" by (rule div_pos_pos_trivial) (use assms(1-8) small x in linarith)+
    ultimately show ?thesis by simp
  qed
  ultimately have "corrected x = 365 * (100 * c + 4 * q + r) + (t - b)" by (simp add: corrected_def x)
  moreover have "0 \<le> t - b" "t - b < 365"
    using assms(1-8) leap by (cases "t = 365"; simp add: b_def)+
  ultimately show ?thesis using int_div_pos_eq[of "corrected x" 365 "100 * c + 4 * q + r" "t - b"] by simp
qed

lemma div_period: "0 < c \<Longrightarrow> (k + c * e) div c = k div c + e" for c :: int
  by simp

lemma year_first_period: "year_first (k + 400 * e) = year_first k + 146097 * e"
proof -
  have "(k + 400 * e) div 4 = k div 4 + 100 * e" using div_period[of 4 k "100 * e"] by simp
  moreover have "(k + 400 * e) div 100 = k div 100 + 4 * e" using div_period[of 100 k "4 * e"] by simp
  moreover have "(k + 400 * e) div 400 = k div 400 + e" using div_period[of 400 k e] by simp
  ultimately show ?thesis by (simp add: year_first_def)
qed

lemma div_next: "0 < c \<Longrightarrow> (y + 1) div c = y div c + (if c dvd y + 1 then 1 else 0)" for c :: int
proof -
  assume c: "0 < c"
  show ?thesis
  proof (cases "c dvd y + 1")
    case True
    then obtain q where q: "y + 1 = c * q" by (auto elim: dvdE)
    then have "y = c * (q - 1) + (c - 1)" by (simp add: algebra_simps)
    then have "y div c = q - 1" using c int_div_pos_eq[of y c "q - 1" "c - 1"] by simp
    then show ?thesis using True q c by simp
  next
    case False
    have "y mod c \<noteq> c - 1"
    proof
      assume "y mod c = c - 1"
      then have "y + 1 = c * (y div c) + c" using mult_div_mod_eq[of c y] by linarith
      then have "y + 1 = c * (y div c + 1)" by (simp add: algebra_simps)
      then show False using False by (metis dvd_triv_left)
    qed
    then have "y mod c + 1 < c" using pos_mod_bound[OF c, of y] by linarith
    then have "(y + 1) div c = y div c"
      using int_div_pos_eq[of "y + 1" c "y div c" "y mod c + 1"] pos_mod_sign[OF c, of y] mult_div_mod_eq[of c y] by simp
    then show ?thesis using False by simp
  qed
qed

lemma year_length: "365 \<le> year_first (y + 1) - year_first y" "year_first (y + 1) - year_first y \<le> 366"
proof -
  have "(100 :: int) dvd y + 1" if "400 dvd y + 1" using that by (rule dvd_trans[rotated]) simp
  moreover have "(4 :: int) dvd y + 1" if "100 dvd y + 1" using that by (rule dvd_trans[rotated]) simp
  ultimately show "365 \<le> year_first (y + 1) - year_first y" "year_first (y + 1) - year_first y \<le> 366"
    by (auto simp: year_first_def div_next)
qed

lemma year_first_mono: "a \<le> b \<Longrightarrow> year_first a \<le> year_first b"
proof (induction b rule: int_ge_induct)
  case (step i)
  then show ?case using year_length(1)[of i] by linarith
qed simp

lemma year_first_range: "0 \<le> k \<Longrightarrow> k \<le> 400 \<Longrightarrow> 0 \<le> year_first k \<and> year_first k \<le> 146097"
  using year_first_mono[of 0 k] year_first_mono[of k 400] by (simp add: year_first_def)

lemma year_of_day:
  assumes "0 \<le> k" "k < 400" "year_first k \<le> x" "x < year_first (k + 1)"
  shows "corrected x div 365 = k"
proof -
  define c where "c = k div 100"
  define q where "q = (k mod 100) div 4"
  define r where "r = k mod 4"
  define t where "t = x - year_first k"
  have r: "k mod 100 mod 4 = r" unfolding r_def by (rule mod_mod_cancel) simp
  have k: "k = 100 * c + 4 * q + r"
    using mult_div_mod_eq[of 100 k] mult_div_mod_eq[of 4 "k mod 100"] r unfolding c_def q_def by linarith
  have c: "0 \<le> c" "c \<le> 3" using assms(1,2) by (auto simp: c_def)
  have "k mod 100 < 100" "0 \<le> k mod 100" by simp_all
  then have q: "0 \<le> q" "q \<le> 24" by (simp_all add: q_def)
  have r': "0 \<le> r" "r \<le> 3" by (simp_all add: r_def)
  have "k div 4 = 25 * c + q" using int_div_pos_eq[of k 4 "25 * c + q" r] r' k by simp
  moreover have "k div 400 = 0" using assms(1,2) by simp
  ultimately have first: "year_first k = 36524 * c + 1461 * q + 365 * r"
    by (simp add: year_first_def c_def[symmetric]) (simp add: k)
  have t: "0 \<le> t" "t \<le> 365" using assms(3,4) year_length(2)[of k] by (simp_all add: t_def)
  have leap: "r = 3 \<and> (q < 24 \<or> c = 3)" if "t = 365"
  proof -
    have l: "year_first (k + 1) - year_first k = 366" using that assms(4) year_length(2)[of k] by (simp add: t_def)
    have four: "4 dvd k + 1" and hundred: "100 dvd k + 1 \<Longrightarrow> 400 dvd k + 1"
      using l by (auto simp: year_first_def div_next split: if_splits)
    have "(k + 1) mod 4 = 0" using four by simp
    then have "r = 3" unfolding r_def by presburger
    moreover have "c = 3" if "\<not> q < 24"
    proof -
      have "k + 1 = 100 * (c + 1)" using k that q(2) \<open>r = 3\<close> by simp
      then have "400 dvd k + 1" using hundred by simp
      then obtain m where "k + 1 = 400 * m" by (auto elim: dvdE)
      then have "c + 1 = 4 * m" using \<open>k + 1 = 100 * (c + 1)\<close> by simp
      then show "c = 3" using c by presburger
    qed
    ultimately show ?thesis by blast
  qed
  have x: "x = 36524 * c + 1461 * q + 365 * r + t" using first by (simp add: t_def)
  have "corrected x div 365 = 100 * c + 4 * q + r" by (rule corrected_parts[OF c q r' t leap x])
  then show ?thesis by (rule trans) (rule k[symmetric])
qed

definition month_shift :: "int \<Rightarrow> int" where "month_shift mp = (153 * mp + 2) div 5"
definition month_of :: "int \<Rightarrow> int" where "month_of mp = (if mp < 10 then mp + 3 else mp - 9)"

lemma civil_in_year:
  assumes "year_first y \<le> z" "z < year_first (y + 1)"
  shows "civil (z - 305) = (let doy = z - year_first y; mp = (5 * doy + 2) div 153
    in (y + (if month_of mp \<le> 2 then 1 else 0), month_of mp, doy - month_shift mp + 1))"
proof -
  define e where "e = y div 400"
  define k where "k = y mod 400"
  have y: "y = k + 400 * e" "0 \<le> k" "k < 400" by (simp_all add: e_def k_def)
  define x where "x = z - 146097 * e"
  have x: "year_first k \<le> x" "x < year_first (k + 1)"
    using assms year_first_period[of k e] year_first_period[of "k + 1" e] by (simp_all add: x_def y(1) algebra_simps)
  then have "0 \<le> x" "x < 146097" using year_first_range[of k] year_first_range[of "k + 1"] y by auto
  then have era: "z div 146097 = e" "z mod 146097 = x"
    using int_div_pos_eq[of z 146097 e x] int_mod_pos_eq[of z 146097 e x] by (simp_all add: x_def)
  have yoe: "(x - x div 1460 + x div 36524 - x div 146096) div 365 = k"
    using year_of_day[OF y(2,3) x] by (simp add: corrected_def)
  have doy: "x - (365 * k + k div 4 - k div 100) = z - year_first y"
    using y(2,3) year_first_period[of k e] by (simp add: x_def y(1)[symmetric]) (simp add: year_first_def)
  have "k + e * 400 = y" by (simp add: y(1))
  then show ?thesis
    unfolding civil_def Let_def diff_add_cancel era yoe doy by (simp add: month_of_def month_shift_def)
qed

lemma day_in_year: "\<exists>y. year_first y \<le> z \<and> z < year_first (y + 1)"
proof -
  have up: "\<exists>y. year_first y \<le> z \<and> z < year_first (y + 1)" if "year_first a \<le> z" "z < year_first (a + int n)" for a n
    using that
  proof (induction n)
    case (Suc n)
    show ?case
    proof (cases "z < year_first (a + int n)")
      case True
      then show ?thesis using Suc by blast
    next
      case False
      then show ?thesis using Suc.prems(2) by (intro exI[of _ "a + int n"]) (simp add: algebra_simps)
    qed
  qed simp
  have grow: "365 * int n \<le> year_first (a + int n) - year_first a" for a n
  proof (induction n)
    case (Suc n)
    then show ?case using year_length(1)[of "a + int n"] by (simp add: algebra_simps)
  qed simp
  define n where "n = nat (\<bar>z\<bar> + 1)"
  have zero: "year_first 0 = 0" and n: "int n = \<bar>z\<bar> + 1" by (simp_all add: year_first_def n_def)
  have "year_first (- int n) \<le> - (365 * int n)" using grow[of n "- int n"] zero by simp
  then have "year_first (- int n) \<le> z" using n by linarith
  moreover have "365 * int n \<le> year_first (- int n + int (2 * n))" using grow[of n 0] zero by simp
  then have "z < year_first (- int n + int (2 * n))" using n by linarith
  ultimately show ?thesis by (rule up)
qed

section \<open>Months\<close>

text \<open>The months are counted from a March; \<open>month_first\<close> is the ordinal of a month's first day.\<close>

definition month_first :: "int \<Rightarrow> int" where
  "month_first k = year_first (k div 12) + month_shift (k mod 12) - 305"

lemma twelve_cases: "0 \<le> m \<Longrightarrow> m \<le> 11 \<Longrightarrow> m \<in> {0, 1, 2, 3, 4, 5, 6, 7, 8, 9, 10, 11 :: int}"
  by simp presburger

lemma mod12_cases: "k mod 12 \<in> {0, 1, 2, 3, 4, 5, 6, 7, 8, 9, 10, 11 :: int}"
  using pos_mod_bound[of 12 k] pos_mod_sign[of 12 k] by (intro twelve_cases) linarith+

lemma twelve_parts: "12 * a + m = k \<Longrightarrow> 12 * b + m' = k + 1 \<Longrightarrow> m' = m + 1 - 12 * (b - a)" for a b m m' k :: int
  by (simp add: algebra_simps)

lemma next_mod12: "(k + 1) div 12 = k div 12 + (if k mod 12 = 11 then 1 else 0)"
  "(k + 1) mod 12 = (if k mod 12 = 11 then 0 else k mod 12 + 1)" for k :: int
proof -
  have d: "12 dvd k + 1 \<longleftrightarrow> k mod 12 = 11" by presburger
  then show q: "(k + 1) div 12 = k div 12 + (if k mod 12 = 11 then 1 else 0)" using div_next[of 12 k] by simp
  have "(k + 1) mod 12 = k mod 12 + 1 - 12 * ((k + 1) div 12 - k div 12)"
    by (rule twelve_parts[OF mult_div_mod_eq mult_div_mod_eq])
  then show "(k + 1) mod 12 = (if k mod 12 = 11 then 0 else k mod 12 + 1)" using q by simp
qed

lemma month_gap: "28 \<le> month_first (k + 1) - month_first k" "month_first (k + 1) - month_first k \<le> 31"
  using mod12_cases[of k] year_length[of "k div 12"]
  by (auto simp: month_first_def next_mod12 month_shift_def)

lemma year_gap: "365 \<le> month_first (k + 12) - month_first k" "month_first (k + 12) - month_first k \<le> 366"
proof -
  have "(k + 12) div 12 = k div 12 + 1" "(k + 12) mod 12 = k mod 12" by simp_all
  then show "365 \<le> month_first (k + 12) - month_first k" "month_first (k + 12) - month_first k \<le> 366"
    using year_length[of "k div 12"] by (simp_all add: month_first_def)
qed

lemma month_shift_div:
  assumes "0 \<le> mp" "mp \<le> 11" "month_shift mp \<le> doy" "mp < 11 \<longrightarrow> doy < month_shift (mp + 1)" "doy \<le> 365"
  shows "(5 * doy + 2) div 153 = mp"
proof -
  have "mp \<in> {0, 1, 2, 3, 4, 5, 6, 7, 8, 9, 10, 11}" using assms(1,2) by (rule twelve_cases)
  then have "153 * mp \<le> 5 * doy + 2 \<and> 5 * doy + 2 < 153 * (mp + 1)"
    using assms(3-5) by (auto simp: month_shift_def)
  then show ?thesis by (intro int_div_pos_eq[where r = "5 * doy + 2 - 153 * mp"]) auto
qed

lemma div_mod_two: "(k + 2) div 12 = k div 12 + (if 10 \<le> k mod 12 then 1 else 0)" for k :: int
  using mult_div_mod_eq[of 12 k] pos_mod_bound[of 12 k] pos_mod_sign[of 12 k]
  by (intro int_div_pos_eq[where r = "k mod 12 + 2 - (if 10 \<le> k mod 12 then 12 else 0)"]) (auto simp: algebra_simps)

lemma civil_at:
  assumes "month_first k \<le> n" "n < month_first (k + 1)"
  shows "civil n = ((k + 2) div 12, month_of (k mod 12), n - month_first k + 1)"
proof -
  define y where "y = k div 12"
  define mp where "mp = k mod 12"
  have mp: "0 \<le> mp" "mp \<le> 11" using mod12_cases[of k] by (auto simp: mp_def)
  define z where "z = n + 305"
  have k: "month_first k = year_first y + month_shift mp - 305" by (simp add: month_first_def y_def mp_def)
  have next_first: "month_first (k + 1) = (if mp = 11 then year_first (y + 1) else year_first y + month_shift (mp + 1)) - 305"
    by (simp add: month_first_def next_mod12 y_def mp_def month_shift_def)
  have shift: "0 \<le> month_shift mp" "mp < 11 \<Longrightarrow> month_shift (mp + 1) \<le> 337"
    using mp mod12_cases[of k] by (auto simp: month_shift_def mp_def)
  have z: "year_first y \<le> z" "z < year_first (y + 1)"
    using assms k next_first shift mp year_length(1)[of y] by (auto simp: z_def split: if_splits)
  have "(5 * (z - year_first y) + 2) div 153 = mp"
    by (rule month_shift_div) (use assms k next_first mp z year_length(2)[of y] in \<open>auto simp: z_def split: if_splits\<close>)
  then have "civil (z - 305) = (y + (if month_of mp \<le> 2 then 1 else 0), month_of mp, z - year_first y - month_shift mp + 1)"
    using civil_in_year[OF z] by (simp add: Let_def)
  moreover have "y + (if month_of mp \<le> 2 then 1 else 0) = (k + 2) div 12"
    using mod12_cases[of k] div_mod_two[of k] by (auto simp: y_def mp_def month_of_def)
  ultimately show ?thesis by (simp add: z_def k mp_def[symmetric] algebra_simps)
qed

lemma month_first_civil:
  "month_first k \<le> n \<Longrightarrow> n < month_first (k + 1) \<Longrightarrow> \<exists>y. civil n = (y, month_of (k mod 12), n - month_first k + 1)"
  using civil_at by blast

lemma month_exists: "\<exists>k. month_first k \<le> n \<and> n < month_first (k + 1)"
proof -
  obtain y where y: "year_first y \<le> n + 305" "n + 305 < year_first (y + 1)" using day_in_year by blast
  have "month_first (12 * y) = year_first y - 305" "month_first (12 * y + int 12) = year_first (y + 1) - 305"
    by (simp_all add: month_first_def month_shift_def)
  then have "month_first (12 * y) \<le> n" "n < month_first (12 * y + int 12)" using y by simp_all
  then have "\<exists>k. month_first k \<le> n \<and> n < month_first (k + 1)" if "month_first a \<le> n" "n < month_first (a + int m)" for a m
    using that(1,2) by (induction m) (auto simp: algebra_simps, metis add.commute linorder_not_less)
  then show ?thesis using \<open>month_first (12 * y) \<le> n\<close> \<open>n < month_first (12 * y + int 12)\<close> by blast
qed

end
