(* ===== verification/Dashboard.thy ===== *)
theory Dashboard
  imports Api Calendar
begin

text \<open>The figures and charts of the dashboard and of the landing page (\<open>app/routes/ui.py\<close>).  Days are
  ordinals (day 1 is 0001-01-01, theory Etl); the day on which a product row was created is an argument,
  as is the order of the reorder queue.\<close>

section \<open>Charts\<close>

definition daily_inout :: "int \<Rightarrow> 'a inv_db_scheme \<Rightarrow> (int \<times> int \<times> int) list" where
  "daily_inout days db =
     (let ms = filter (\<lambda>m. today db - (days - 1) \<le> mv_day m \<and> \<not> mv_deleted m) (movements db);
          of_type = (\<lambda>ty d. sum_list (map mv_quantity (filter (\<lambda>m. mv_day m = d \<and> mv_type m = ty) ms)))
      in map (\<lambda>d. (d, of_type ''IN'' d, of_type ''OUT'' d)) (sort (remdups (map mv_day ms))))"

text \<open>\<open>strftime("%d %b").upper()\<close>, and \<open>strftime("%b")\<close>.\<close>

definition month_name :: "int \<Rightarrow> string" where
  "month_name n = (case civil n of (y, m, d) \<Rightarrow> month_names ! nat (m - 1))"

definition day_label :: "int \<Rightarrow> string" where
  "day_label n = (case civil n of (y, m, d) \<Rightarrow> upper (zfill 2 (nat_str (nat d)) @ '' '' @ month_names ! nat (m - 1)))"

text \<open>The days of the chart; the loop leaves when it has passed today.\<close>

definition chart_days :: "int \<Rightarrow> int \<Rightarrow> int list" where
  "chart_days days now = (let cutoff = now - (days - 1) in takeWhile (\<lambda>d. \<not> now < d) [cutoff..cutoff + days - 1])"

definition dict_of :: "('k \<times> 'v) list \<Rightarrow> 'k \<Rightarrow> 'v \<Rightarrow> 'v" where
  "dict_of kvs k d = (case map_of (rev kvs) k of None \<Rightarrow> d | Some v \<Rightarrow> v)"

definition series_for_last_days :: "(int \<times> int) list \<Rightarrow> int \<Rightarrow> int \<Rightarrow> int list \<times> string list" where
  "series_for_last_days rows days now =
     (let ds = chart_days days now in (map (\<lambda>d. dict_of rows d 0) ds, map day_label ds))"

definition inout_series :: "(int \<times> int \<times> int) list \<Rightarrow> int \<Rightarrow> int \<Rightarrow> int list \<times> int list \<times> string list" where
  "inout_series rows days now =
     (let ds = chart_days days now; at_day = (\<lambda>d. dict_of rows d (0, 0))
      in (map (\<lambda>d. fst (at_day d)) ds, map (\<lambda>d. snd (at_day d)) ds, map day_label ds))"

record chart =
  ch_values :: "int list"
  ch_max :: int
  ch_points :: string
  ch_area :: string
  ch_circles :: "(int \<times> int) list"
  ch_dates :: "string list"

definition or_one :: "int \<Rightarrow> int" where "or_one n = (if n = 0 then 1 else n)"

definition point_text :: "int \<times> int \<Rightarrow> string" where
  "point_text p = int_str (fst p) @ '','' @ int_str (snd p)"

definition chart_point :: "nat \<Rightarrow> int \<Rightarrow> nat \<Rightarrow> int \<Rightarrow> int \<times> int" where
  "chart_point n max_val i value =
     (round_even (20 + of_nat i * ((580 - 20) / of_int (max 1 (int n - 1)))),
      round_even (185 - of_int value / of_int max_val * (185 - 35)))"

definition chart_geometry :: "int list \<Rightarrow> string list \<Rightarrow> chart" where
  "chart_geometry vals dates =
     (let vs = (if vals = [] then [0] else vals);
          max_val = or_one (Max (set vs));
          pts = map (\<lambda>(i, v). chart_point (length vs) max_val i v) (enumerate 0 vs);
          points = joins '' '' (map point_text pts)
      in \<lparr>ch_values = vs, ch_max = max_val, ch_points = points,
          ch_area = ''20,185 '' @ points @ '' 580,185'', ch_circles = pts, ch_dates = dates\<rparr>)"

section \<open>The dashboard\<close>



definition live_between :: "int \<Rightarrow> int \<Rightarrow> movement \<Rightarrow> bool" where
  "live_between a b m = (a \<le> mv_day m \<and> mv_day m < b \<and> \<not> mv_deleted m)"

text \<open>The counts of the product aggregate.\<close>

definition wants_order :: "product_row \<Rightarrow> bool" where
  "wants_order r = (pr_stock r \<le> pr_reorder r \<and> pr_on_order r \<le> 0)"

definition dash_critical :: "real \<Rightarrow> product_row \<Rightarrow> bool" where
  "dash_critical ratio r = (wants_order r \<and> (of_int (pr_stock r) \<le> of_int (pr_reorder r) * ratio \<or> pr_stock r \<le> 0))"

definition dash_warning :: "real \<Rightarrow> product_row \<Rightarrow> bool" where
  "dash_warning ratio r = (wants_order r \<and> of_int (pr_reorder r) * ratio < of_int (pr_stock r))"

definition stock_value :: "product_row list \<Rightarrow> real" where
  "stock_value rows = sum_list (map (\<lambda>r. of_int (pr_stock r) * amount (pr_price r)) rows)"

definition quantity_of :: "(movement \<Rightarrow> bool) \<Rightarrow> 'a inv_db_scheme \<Rightarrow> int" where
  "quantity_of P db = sum_list (map mv_quantity (filter P (movements db)))"

text \<open>The change against the mean of the last thirty days with movements, in percent.\<close>

definition daily_avg_units :: "'a inv_db_scheme \<Rightarrow> real" where
  "daily_avg_units db =
     (let ms = filter (\<lambda>m. today db - 30 \<le> mv_day m \<and> mv_day m \<noteq> today db \<and> \<not> mv_deleted m) (movements db);
          per_day = map (\<lambda>d. sum_list (map mv_quantity (filter (\<lambda>m. mv_day m = d) ms))) (remdups (map mv_day ms))
      in if per_day = [] then 0 else of_int (sum_list per_day) / of_nat (length per_day))"

definition delta_pct :: "real \<Rightarrow> real \<Rightarrow> real" where
  "delta_pct now before = round_to 1 (if 0 < before then (now - before) / before * 100 else 0)"

definition first_of_month :: "int \<Rightarrow> int" where
  "first_of_month n = (case civil n of (y, m, d) \<Rightarrow> n - d + 1)"

text \<open>The value that left the stock in the month before, at today's prices.\<close>

definition prev_month_out_value :: "catalog \<Rightarrow> 'a inv_db_scheme \<Rightarrow> real" where
  "prev_month_out_value cat db =
     (let first = first_of_month (today db); start = first_of_month (first - 1)
      in sum_list (map (\<lambda>r. of_int (quantity_of (\<lambda>m. mv_product m = pr_id r \<and> mv_type m = ''OUT'' \<and> live_between start first m) db)
           * amount (pr_price r)) (filter (\<lambda>r. pr_price r \<noteq> None) (product_rows cat))))"

record category_count =
  cc_category :: string
  cc_count :: nat
  cc_pct :: int
  cc_tone :: string

definition category_counts :: "catalog \<Rightarrow> category_count list" where
  "category_counts cat =
     (let named = List.map_filter pr_category (product_rows cat);
          raw = sort_key (\<lambda>(c, n). - int n) (map (\<lambda>c. (c, count_list named c)) (remdups named));
          top = or_one (if raw = [] then 1 else Max (set (map (\<lambda>(c, n). int n) raw)));
          tones = ['''', ''amber'', ''blue'', ''ink'']
      in map (\<lambda>(i, c, n). \<lparr>cc_category = c, cc_count = n, cc_pct = round_even (of_nat n / of_int top * 100),
           cc_tone = tones ! (i mod 4)\<rparr>) (enumerate 0 raw))"

text \<open>The six products that have not been sold for the longest time.\<close>

definition last_out :: "(int \<Rightarrow> int) \<Rightarrow> 'a inv_db_scheme \<Rightarrow> product_row \<Rightarrow> int" where
  "last_out created db r =
     (let ds = map mv_day (filter (\<lambda>m. mv_product m = pr_id r \<and> mv_type m = ''OUT'' \<and> \<not> mv_deleted m) (movements db))
      in if ds = [] then created (pr_id r) else Max (set ds))"

definition slow_movers :: "(int \<Rightarrow> int) \<Rightarrow> catalog \<Rightarrow> 'a inv_db_scheme \<Rightarrow> (product_row \<times> int) list" where
  "slow_movers created cat db = map (\<lambda>r. (r, max (today db - last_out created db r) 0))
     (take 6 (sort_key (last_out created db) (product_rows cat)))"

text \<open>Demand and sales of the last ninety days, by SKU, name and category: the rows of the join.\<close>

definition product_movements :: "(product_row \<Rightarrow> movement \<Rightarrow> bool) \<Rightarrow> catalog \<Rightarrow> 'a inv_db_scheme \<Rightarrow> (product_row \<times> movement) list" where
  "product_movements P cat db = concat (map (\<lambda>r. map (Pair r) (filter (\<lambda>m. mv_product m = pr_id r \<and> P r m) (movements db)))
     (product_rows cat))"

record seller =
  se_key :: "string \<times> string \<times> string option"
  se_units :: int
  se_value :: real

definition product_key :: "product_row \<Rightarrow> string \<times> string \<times> string option" where
  "product_key r = (pr_sku r, pr_name r, pr_category r)"

definition top_rows :: "catalog \<Rightarrow> 'a inv_db_scheme \<Rightarrow> seller list" where
  "top_rows cat db =
     (let js = product_movements (\<lambda>r m. today db - 90 \<le> mv_day m \<and> \<not> mv_deleted m) cat db;
          units = (\<lambda>(r, m). if mv_type m = ''OUT'' then mv_quantity m else 0);
          val = (\<lambda>(r, m). if mv_type m = ''OUT'' then of_int (mv_quantity m) * amount (pr_price r) else 0)
      in map (\<lambda>k. let own = filter (\<lambda>(r, m). product_key r = k) js in
           \<lparr>se_key = k, se_units = sum_list (map units own), se_value = sum_list (map val own)\<rparr>)
         (remdups (map (\<lambda>(r, m). product_key r) js)))"

definition top_demand :: "catalog \<Rightarrow> 'a inv_db_scheme \<Rightarrow> seller list" where
  "top_demand cat db = take 10 (sort_key (\<lambda>s. - se_units s) (top_rows cat db))"

definition top_sales :: "catalog \<Rightarrow> 'a inv_db_scheme \<Rightarrow> seller list" where
  "top_sales cat db = take 10 (sort_key (\<lambda>s. - se_value s) (top_rows cat db))"

definition year_start :: "int \<Rightarrow> int" where
  "year_start n = (case civil n of (y, m, d) \<Rightarrow> n - year_day (y, m, d) + 1)"

record top_supplier =
  ts_name :: string
  ts_contact :: "string option"
  ts_units :: int
  ts_spend :: real
  ts_skus :: nat

text \<open>The inner join drops suppliers without products; the order of equal rows is that of the table.\<close>

definition supplier_figures :: "catalog \<Rightarrow> 'a inv_db_scheme \<Rightarrow> supplier_row \<Rightarrow> top_supplier" where
  "supplier_figures cat db s =
     (let ps = filter (\<lambda>r. pr_supplier r = Some (su_id s)) (product_rows cat);
          js = filter (\<lambda>(r, m). r \<in> set ps) (product_movements (\<lambda>r m. mv_type m = ''IN'' \<and> year_start (today db) \<le> mv_day m \<and> \<not> mv_deleted m) cat db)
      in \<lparr>ts_name = su_name s, ts_contact = su_location s,
          ts_units = sum_list (map (\<lambda>(r, m). mv_quantity m) js),
          ts_spend = sum_list (map (\<lambda>(r, m). of_int (mv_quantity m) * amount (pr_price r)) js),
          ts_skus = length (remdups (map pr_id ps))\<rparr>)"

definition top_suppliers :: "catalog \<Rightarrow> 'a inv_db_scheme \<Rightarrow> top_supplier list" where
  "top_suppliers cat db = take 5 (sort_key (\<lambda>t. - ts_spend t) (sort_key (\<lambda>t. - ts_units t)
     (map (supplier_figures cat db) (filter (\<lambda>s. \<exists>r\<in>set (product_rows cat). pr_supplier r = Some (su_id s)) (supplier_rows cat)))))"

record warehouse_row =
  wr_name :: string
  wr_skus :: nat
  wr_units :: int
  wr_avg_price :: real
  wr_value :: real

definition mean :: "real list \<Rightarrow> real" where
  "mean xs = (if xs = [] then 0 else sum_list xs / of_nat (length xs))"

definition warehouse_profile :: "catalog \<Rightarrow> warehouse_row list" where
  "warehouse_profile cat = sort_key (\<lambda>w. - wr_units w) (map (\<lambda>n.
     let rows = filter (\<lambda>r. pr_warehouse r = Some n) (product_rows cat)
     in \<lparr>wr_name = n, wr_skus = length rows, wr_units = sum_list (map pr_stock rows),
         wr_avg_price = mean (List.map_filter pr_price rows), wr_value = stock_value rows\<rparr>)
     (remdups (List.map_filter pr_warehouse (product_rows cat))))"

text \<open>Turnover by category: the left join yields one row per sale of a product, and one for a product
  without sales.\<close>

record turnover =
  to_category :: string
  to_cogs :: real
  to_avg_inv :: real
  to_sku_count :: nat
  to_rate :: real

definition turnover_join :: "catalog \<Rightarrow> 'a inv_db_scheme \<Rightarrow> string \<Rightarrow> (product_row \<times> movement option) list" where
  "turnover_join cat db c = concat (map (\<lambda>r.
     let ms = filter (\<lambda>m. mv_product m = pr_id r \<and> mv_type m = ''OUT'' \<and> today db - 365 \<le> mv_day m \<and> \<not> mv_deleted m) (movements db)
     in if ms = [] then [(r, None)] else map (\<lambda>m. (r, Some m)) ms)
     (filter (\<lambda>r. pr_category r = Some c \<and> pr_price r \<noteq> None) (product_rows cat)))"

definition turnover_row :: "catalog \<Rightarrow> 'a inv_db_scheme \<Rightarrow> string \<Rightarrow> turnover" where
  "turnover_row cat db c =
     (let js = turnover_join cat db c;
          cogs = sum_list (map (\<lambda>(r, m). case m of None \<Rightarrow> 0 | Some m \<Rightarrow> of_int (mv_quantity m) * amount (pr_price r)) js);
          inv = mean (map (\<lambda>(r, m). of_int (pr_stock r) * amount (pr_price r)) js)
      in \<lparr>to_category = c, to_cogs = cogs, to_avg_inv = inv, to_sku_count = length js,
          to_rate = (if 10 < inv then round_to 2 (cogs / inv) else 0)\<rparr>)"

definition turnover_by_category :: "catalog \<Rightarrow> 'a inv_db_scheme \<Rightarrow> turnover list" where
  "turnover_by_category cat db = sort_key (\<lambda>t. - to_cogs t) (map (turnover_row cat db)
     (remdups (List.map_filter pr_category (filter (\<lambda>r. pr_price r \<noteq> None) (product_rows cat)))))"

text \<open>The ABC analysis.\<close>

record abc_row =
  ab_rank :: nat
  ab_sku :: string
  ab_value :: real
  ab_cum :: real
  ab_class :: string

definition abc_class :: "real \<Rightarrow> string" where
  "abc_class pct = (if pct \<le> 80 then ''A'' else if pct \<le> 95 then ''B'' else ''C'')"

fun abc_loop :: "real \<Rightarrow> nat \<Rightarrow> real \<Rightarrow> (string \<times> real) list \<Rightarrow> abc_row list" where
  "abc_loop whole i cum [] = []"
| "abc_loop whole i cum ((k, v) # rows) =
     (let cum = cum + v; pct = (if whole \<noteq> 0 then round_to 1 (cum / whole * 100) else 0)
      in \<lparr>ab_rank = i, ab_sku = k, ab_value = v, ab_cum = pct, ab_class = abc_class pct\<rparr> # abc_loop whole (i + 1) cum rows)"

definition abc_rows :: "catalog \<Rightarrow> (string \<times> real) list" where
  "abc_rows cat = sort_key (\<lambda>(k, v). - v) (map (\<lambda>r. (pr_sku r, of_int (pr_stock r) * amount (pr_price r)))
     (filter (\<lambda>r. pr_price r \<noteq> None \<and> 0 < pr_stock r) (product_rows cat)))"

definition abc_data :: "catalog \<Rightarrow> abc_row list" where
  "abc_data cat = (let rows = abc_rows cat in abc_loop (sum_list (map snd rows)) 1 0 rows)"

text \<open>The savings of ordering by the economic quantity instead of monthly.\<close>

definition manual_cost :: "real \<Rightarrow> real \<Rightarrow> real \<Rightarrow> real" where
  "manual_cost d s h = (let q = d / 12 in if 0 < q then d / q * s + q / 2 * h else 0)"

definition eoq_cost :: "real \<Rightarrow> real \<Rightarrow> real \<Rightarrow> real" where
  "eoq_cost d s h = (let q = (if 0 < h then sqrt (2 * d * s / h) else 0)
     in if 0 < q then d / q * s + q / 2 * h else manual_cost d s h)"

definition eoq_rows :: "catalog \<Rightarrow> (real \<times> real \<times> real) list" where
  "eoq_rows cat = filter (\<lambda>(d, s, h). 0 < d \<and> 0 < s \<and> 0 < h)
     (map (\<lambda>r. (amount (pr_demand r), amount (pr_ordering r), amount (pr_holding r))) (product_rows cat))"

definition ai_savings :: "catalog \<Rightarrow> real" where
  "ai_savings cat = sum_list (map (\<lambda>(d, s, h). max (manual_cost d s h - eoq_cost d s h) 0) (eoq_rows cat))"

record dashboard =
  db_skus :: nat
  db_value :: real
  db_reorder :: nat
  db_critical :: nat
  db_warning :: nat
  db_units :: int
  db_units_delta :: real
  db_inv_delta :: real
  db_health :: int
  db_chart :: chart
  db_in :: "int list"
  db_out :: "int list"
  db_inout_dates :: "string list"
  db_inout_max :: int
  db_categories :: "category_count list"
  db_queue :: "decorated list"
  db_queue_units :: int
  db_slow :: "(product_row \<times> int) list"
  db_top_demand :: "seller list"
  db_top_sales :: "seller list"
  db_suppliers :: "top_supplier list"
  db_warehouses :: "warehouse_row list"
  db_turnover :: "turnover list"
  db_abc :: "abc_row list"
  db_savings :: real
  db_today :: int

definition dashboard_build ::
  "(product_row list \<Rightarrow> product_row list) \<Rightarrow> (int \<Rightarrow> int) \<Rightarrow> (real \<times> real) result \<Rightarrow> real \<Rightarrow> catalog \<Rightarrow>
   'a inv_db_scheme \<Rightarrow> dashboard" where
  "dashboard_build by_gap created pcts critical_pct cat db =
     (let rows = product_rows cat; ratio = critical_pct / 100; now = today db; n = length rows;
          units = quantity_of (\<lambda>m. mv_day m = now \<and> \<not> mv_deleted m) db;
          reorder = length (filter wants_order rows);
          (series, dates) = series_for_last_days (daily_totals 14 db) 14 now;
          (ins, outs, inout_dates) = inout_series (daily_inout 14 db) 14 now;
          queue = take 4 (low_stock by_gap pcts cat);
          healthy = max (int n - int reorder) 0;
          health = (if n = 0 then 0 else round_even (of_int healthy / of_int (max (int n) 1) * 100))
      in \<lparr>db_skus = n, db_value = stock_value rows, db_reorder = reorder,
          db_critical = length (filter (dash_critical ratio) rows), db_warning = length (filter (dash_warning ratio) rows),
          db_units = units, db_units_delta = delta_pct (of_int units) (daily_avg_units db),
          db_inv_delta = delta_pct (stock_value rows) (prev_month_out_value cat db), db_health = min health 100,
          db_chart = chart_geometry series dates, db_in = ins, db_out = outs, db_inout_dates = inout_dates,
          db_inout_max = or_one (max (Max (set ins)) (Max (set outs))), db_categories = category_counts cat,
          db_queue = queue, db_queue_units = sum_list (map pr_stock queue),
          db_slow = slow_movers created cat db, db_top_demand = top_demand cat db, db_top_sales = top_sales cat db,
          db_suppliers = top_suppliers cat db, db_warehouses = warehouse_profile cat,
          db_turnover = turnover_by_category cat db, db_abc = abc_data cat, db_savings = ai_savings cat,
          db_today = now\<rparr>)"

section \<open>The landing page\<close>

record landing =
  la_skus :: nat
  la_value :: real
  la_reorder :: nat
  la_suppliers :: nat
  la_warehouses :: nat
  la_units :: int
  la_health :: int
  la_categories :: "(string \<times> nat) list"
  la_series :: "int list"
  la_dates :: "string list"
  la_movements :: nat
  la_first :: string
  la_last :: string
  la_open :: nat

definition iso_of :: "int \<Rightarrow> string" where
  "iso_of n = (case civil n of (y, m, d) \<Rightarrow> iso_date (nat y) (nat m) (nat d))"

text \<open>\<open>(d.replace(day=28) + timedelta(days=4)).replace(day=1)\<close>\<close>

definition next_month :: "int \<Rightarrow> int" where
  "next_month n = (case civil n of (y, m, d) \<Rightarrow> first_of_month (n - d + 28 + 4))"

text \<open>The twelve months of the series.\<close>

fun month_walk :: "nat \<Rightarrow> int \<Rightarrow> int list" where
  "month_walk 0 d = []"
| "month_walk (Suc k) d = (let d = next_month d in d # month_walk k d)"

definition landing_months :: "int \<Rightarrow> int list" where
  "landing_months now = month_walk 12 (first_of_month now - 330)"

text \<open>\<open>CURRENT_DATE - INTERVAL '11 months'\<close>: the same day eleven months before, or the last of that
  month.\<close>

definition month_length :: "int \<Rightarrow> int \<Rightarrow> int" where
  "month_length y m = (if m = 2 then (if leap y then 29 else 28) else if m \<in> {4, 6, 9, 11} then 30 else 31)"

definition eleven_months_before :: "int \<Rightarrow> int \<times> int \<times> int" where
  "eleven_months_before n = (case civil n of (y, m, d) \<Rightarrow>
     let (y', m') = (if m = 12 then (y, 1) else (y - 1, m + 1)) in (y', m', min d (month_length y' m')))"

definition not_before :: "int \<times> int \<times> int \<Rightarrow> int \<Rightarrow> bool" where
  "not_before c n = (case c of (y, m, d) \<Rightarrow> case civil n of (y', m', d') \<Rightarrow>
     y < y' \<or> y = y' \<and> (m < m' \<or> m = m' \<and> d \<le> d'))"

definition by_month :: "'a inv_db_scheme \<Rightarrow> (string \<times> int) list" where
  "by_month db =
     (let ms = filter (\<lambda>m. not_before (eleven_months_before (today db)) (mv_day m) \<and> \<not> mv_deleted m) (movements db)
      in map (\<lambda>d. (month_name d, sum_list (map mv_quantity (filter (\<lambda>m. first_of_month (mv_day m) = d) ms))))
           (sort (remdups (map (first_of_month \<circ> mv_day) ms))))"

definition landing_stats :: "nat \<Rightarrow> catalog \<Rightarrow> po_db \<Rightarrow> landing" where
  "landing_stats n_warehouses cat db =
     (let rows = filter (\<lambda>r. \<not> pr_deleted r) (product_rows cat); n = length rows;
          healthy = length (filter (\<lambda>r. pr_reorder r < pr_stock r) rows);
          ms = filter (\<lambda>m. \<not> mv_deleted m) (movements db);
          named = List.map_filter pr_category rows;
          months = map month_name (landing_months (today db))
      in \<lparr>la_skus = n, la_value = stock_value rows, la_reorder = length (filter (\<lambda>r. pr_stock r \<le> pr_reorder r) rows),
          la_suppliers = length (filter (\<lambda>s. \<not> su_deleted s) (supplier_rows cat)), la_warehouses = n_warehouses,
          la_units = quantity_of (\<lambda>m. mv_day m = today db \<and> \<not> mv_deleted m) db,
          la_health = (if n = 0 then 0 else round_even (of_nat healthy / of_nat n * 100)),
          la_categories = take 7 (sort_key (\<lambda>(c, k). - int k) (map (\<lambda>c. (c, count_list named c)) (remdups named))),
          la_series = map (\<lambda>m. dict_of (by_month db) m 0) months, la_dates = months,
          la_movements = length ms,
          la_first = (if ms = [] then [] else iso_of (Min (set (map mv_day ms)))),
          la_last = (if ms = [] then [] else iso_of (Max (set (map mv_day ms)))),
          la_open = length (filter (\<lambda>p. po_status p \<in> {Approved, InTransit} \<and> \<not> po_deleted p) (orders db))\<rparr>)"

section \<open>The charts\<close>

lemma chart_days_all: "chart_days days now = [now - (days - 1)..now]"
proof -
  have "takeWhile (\<lambda>d. \<not> now < d) [now - (days - 1)..now - (days - 1) + days - 1] = [now - (days - 1)..now - (days - 1) + days - 1]"
    by (rule takeWhile_eq_all_conv[THEN iffD2]) simp
  then show ?thesis by (simp add: chart_days_def)
qed

lemma dict_of_distinct:
  assumes "distinct (map fst kvs)"
  shows "dict_of kvs k d = (case map_of kvs k of None \<Rightarrow> d | Some v \<Rightarrow> v)"
proof -
  have "map_of (rev kvs) = map_of kvs" using assms by (intro map_of_inject_set[THEN iffD2]) (simp_all add: rev_map[symmetric])
  then show ?thesis by (simp add: dict_of_def)
qed

lemma map_of_graph: "map_of (map (\<lambda>d. (d, f d)) ds) k = (if k \<in> set ds then Some (f k) else None)"
  by (induction ds) auto

lemma dict_of_graph:
  "distinct ds \<Longrightarrow> dict_of (map (\<lambda>d. (d, f d)) ds) k z = (if k \<in> set ds then f k else z)"
  by (simp add: dict_of_distinct map_of_graph comp_def)

text \<open>A day without a row of the query has no movement to count.\<close>

lemma daily_totals_at:
  assumes "today db - (days - 1) \<le> d"
  shows "dict_of (daily_totals days db) d 0 = quantity_of (\<lambda>m. mv_day m = d \<and> \<not> mv_deleted m) db"
proof -
  let ?ms = "filter (\<lambda>m. today db - (days - 1) \<le> mv_day m \<and> \<not> mv_deleted m) (movements db)"
  let ?q = "\<lambda>d. sum_list (map mv_quantity (filter (\<lambda>m. mv_day m = d) ?ms))"
  have q: "?q d = quantity_of (\<lambda>m. mv_day m = d \<and> \<not> mv_deleted m) db"
    unfolding quantity_of_def filter_filter by (rule arg_cong[where f = "\<lambda>l. sum_list (map mv_quantity l)"])
      (rule filter_cong[OF refl], use assms in auto)
  have "?q d = 0" if "d \<notin> mv_day ` set ?ms"
  proof -
    have "filter (\<lambda>m. mv_day m = d) ?ms = []" using that by (auto simp: filter_empty_conv)
    then show ?thesis by simp
  qed
  then have "dict_of (daily_totals days db) d 0 = ?q d"
    unfolding daily_totals_def Let_def by (subst dict_of_graph) auto
  then show ?thesis using q by simp
qed

lemma quantity_of_split:
  "quantity_of (\<lambda>m. a \<le> mv_day m \<and> mv_day m < a + int n \<and> P m) db
    = sum_list (map (\<lambda>i. quantity_of (\<lambda>m. mv_day m = a + int i \<and> P m) db) [0..<n])"
proof -
  have "(if a \<le> mv_day m \<and> mv_day m < a + int n \<and> P m then mv_quantity m else 0)
      = (\<Sum>i\<leftarrow>[0..<n]. if mv_day m = a + int i \<and> P m then mv_quantity m else 0)" for m
    by (induction n) auto
  then have "sum_list (map (\<lambda>m. if a \<le> mv_day m \<and> mv_day m < a + int n \<and> P m then mv_quantity m else 0) ms)
      = (\<Sum>i\<leftarrow>[0..<n]. \<Sum>m\<leftarrow>ms. if mv_day m = a + int i \<and> P m then mv_quantity m else 0)" for ms
    by (induction ms) (simp_all add: sum_list_addf)
  then show ?thesis by (simp add: quantity_of_def sum_list_map_filter')
qed

lemma upto_nth: "[a..b] = map (\<lambda>i. a + int i) [0..<nat (b - a + 1)]"
  by (rule nth_equalityI) simp_all

text \<open>Movements on two days before 2026-10-13 and an older one.\<close>

definition busy_week :: inv_db where
  "busy_week = (let m = \<lambda>i q d. \<lparr>mv_id = i, mv_product = 1, mv_type = ''OUT'', mv_quantity = q, mv_reference = None,
       mv_notes = None, mv_user = Some 7, mv_day = d, mv_deleted = False\<rparr>
     in \<lparr>products = [], movements = [m 1 4 739900, m 2 3 739900, m 3 2 739901, m 4 9 739000], next_movement = 5,
         user_ids = [7], audit_log = [], today = 739901\<rparr>)"

text \<open>The movement chart is complete: it has one bar per day of the window, each bar is the quantity moved
  on its day, days without movements included, and the bars add up to what was moved in the window.\<close>

theorem daily_series_complete:
  assumes "0 < days" "series_for_last_days (daily_totals days db) days (today db) = (series, labels)"
  shows "length series = nat days \<and> length labels = nat days \<and>
    (\<forall>i<nat days. series ! i = quantity_of (\<lambda>m. mv_day m = today db - (days - 1) + int i \<and> \<not> mv_deleted m) db) \<and>
    sum_list series = quantity_of (\<lambda>m. today db - (days - 1) \<le> mv_day m \<and> mv_day m \<le> today db \<and> \<not> mv_deleted m) db"
proof -
  let ?a = "today db - (days - 1)"
  have ds: "chart_days days (today db) = map (\<lambda>i. ?a + int i) [0..<nat days]"
    by (simp add: chart_days_all upto_nth)
  have series: "series = map (\<lambda>i. quantity_of (\<lambda>m. mv_day m = ?a + int i \<and> \<not> mv_deleted m) db) [0..<nat days]"
    and labels: "length labels = nat days"
    using assms(2) by (auto simp: series_for_last_days_def ds daily_totals_at)
  have "sum_list series = quantity_of (\<lambda>m. ?a \<le> mv_day m \<and> mv_day m < ?a + int (nat days) \<and> \<not> mv_deleted m) db"
    unfolding series quantity_of_split ..
  moreover have "(\<lambda>m. ?a \<le> mv_day m \<and> mv_day m < ?a + int (nat days) \<and> \<not> mv_deleted m)
      = (\<lambda>m. ?a \<le> mv_day m \<and> mv_day m \<le> today db \<and> \<not> mv_deleted m)"
    using assms(1) by (intro ext) auto
  ultimately have "sum_list series = quantity_of (\<lambda>m. ?a \<le> mv_day m \<and> mv_day m \<le> today db \<and> \<not> mv_deleted m) db"
    by (rule trans[OF _ arg_cong[where f = "\<lambda>P. quantity_of P db"]])
  then show ?thesis using labels by (simp add: series)
qed

theorem daily_series_complete_witness:
  "series_for_last_days (daily_totals 3 busy_week) 3 (today busy_week) = ([0, 7, 2], [''10 OCT'', ''11 OCT'', ''12 OCT'']) \<and>
   sum_list [0, 7, 2] = quantity_of (\<lambda>m. 739901 - (3 - 1) \<le> mv_day m \<and> mv_day m \<le> 739901 \<and> \<not> mv_deleted m) busy_week"
proof -
  have run: "series_for_last_days (daily_totals 3 busy_week) 3 (today busy_week) = ([0, 7, 2], [''10 OCT'', ''11 OCT'', ''12 OCT''])"
    by code_simp
  have "today busy_week = 739901" by (simp add: busy_week_def)
  then show ?thesis using run daily_series_complete[OF _ run] by simp
qed

lemma chart_point_bounds:
  assumes "i < n" "0 \<le> v" "v \<le> peak" "0 < peak"
  shows "20 \<le> fst (chart_point n peak i v) \<and> fst (chart_point n peak i v) \<le> 580 \<and>
    35 \<le> snd (chart_point n peak i v) \<and> snd (chart_point n peak i v) \<le> 185"
proof -
  let ?w = "real_of_int (max 1 (int n - 1))"
  have w: "1 \<le> ?w" and i: "real i \<le> ?w" using assms(1) by auto
  have "real i * (560 / ?w) \<le> 560" using w i by (simp add: field_simps)
  moreover have "0 \<le> real i * (560 / ?w)" using w by simp
  ultimately have x: "20 \<le> round_even (20 + real i * (560 / ?w)) \<and> round_even (20 + real i * (560 / ?w)) \<le> 580"
    by (intro round_even_between) simp_all
  have "0 \<le> real_of_int v / of_int peak * 150" "real_of_int v / of_int peak * 150 \<le> 150"
    using assms(2-4) by (simp_all add: field_simps)
  then have y: "35 \<le> round_even (185 - of_int v / of_int peak * 150) \<and> round_even (185 - of_int v / of_int peak * 150) \<le> 185"
    by (intro round_even_between) linarith+
  show ?thesis using x y by (simp add: chart_point_def)
qed

text \<open>A chart of non-negative figures stays inside its frame: every point lies between the left and right
  edges and between top and bottom, there is one point per figure (one for an empty series), and the largest
  figure touches the top.\<close>

theorem chart_in_frame:
  assumes "\<forall>v\<in>set vals. 0 \<le> v"
  shows "length (ch_circles (chart_geometry vals dates)) = max 1 (length vals) \<and>
    (\<forall>(x, y)\<in>set (ch_circles (chart_geometry vals dates)). 20 \<le> x \<and> x \<le> 580 \<and> 35 \<le> y \<and> y \<le> 185) \<and>
    ((\<exists>v\<in>set vals. 0 < v) \<longrightarrow> (\<exists>(x, y)\<in>set (ch_circles (chart_geometry vals dates)). y = 35))"
proof -
  define vs where "vs = (if vals = [] then [0] else vals)"
  define peak where "peak = or_one (Max (set vs))"
  have vs: "vs \<noteq> []" "\<forall>v\<in>set vs. 0 \<le> v" using assms by (auto simp: vs_def)
  have max: "\<forall>v\<in>set vs. v \<le> Max (set vs)" by simp
  have "0 \<le> Max (set vs)" using vs by (metis List.finite_set Max_in set_empty)
  then have "0 < peak" "Max (set vs) \<le> peak" by (auto simp: peak_def or_one_def)
  then have peak: "0 < peak" "\<forall>v\<in>set vs. v \<le> peak" using max by (blast intro: order_trans)+
  have c: "ch_circles (chart_geometry vals dates) = map (\<lambda>(i, v). chart_point (length vs) peak i v) (enumerate 0 vs)"
    by (simp add: chart_geometry_def Let_def vs_def[symmetric] peak_def[symmetric])
  have in_frame: "20 \<le> x \<and> x \<le> 580 \<and> 35 \<le> y \<and> y \<le> 185"
    if "(x, y) \<in> set (ch_circles (chart_geometry vals dates))" for x y
  proof -
    from that have "(x, y) \<in> (\<lambda>(i, v). chart_point (length vs) peak i v) ` set (enumerate 0 vs)" by (simp add: c)
    then obtain i where "i < length vs" "(x, y) = chart_point (length vs) peak i (vs ! i)"
      by (auto simp: in_set_enumerate_eq image_iff)
    then show ?thesis using chart_point_bounds[of i "length vs" "vs ! i" peak] vs(2) peak
      by (metis fst_conv nth_mem snd_conv)
  qed
  have "\<exists>(x, y)\<in>set (ch_circles (chart_geometry vals dates)). y = 35" if "\<exists>v\<in>set vals. 0 < v"
  proof -
    obtain i where i: "i < length vs" "vs ! i = Max (set vs)" using vs(1) by (metis List.finite_set Max_in in_set_conv_nth set_empty)
    obtain v where v: "v \<in> set vals" "0 < v" using \<open>\<exists>v\<in>set vals. 0 < v\<close> by blast
    then have "v \<in> set vs" by (auto simp: vs_def)
    then have "0 < Max (set vs)" using max v(2) by (meson less_le_trans)
    then have "snd (chart_point (length vs) peak i (vs ! i)) = 35"
      using round_even_of_int[of 35] by (simp add: chart_point_def peak_def or_one_def i(2))
    moreover have "(i, vs ! i) \<in> set (enumerate 0 vs)" using i(1) by (simp add: in_set_enumerate_eq)
    then have "chart_point (length vs) peak i (vs ! i) \<in> set (ch_circles (chart_geometry vals dates))"
      unfolding c set_map by (rule rev_image_eqI) simp
    ultimately show ?thesis by (intro bexI[of _ "chart_point (length vs) peak i (vs ! i)"]) (simp_all add: case_prod_unfold)
  qed
  moreover have "length (ch_circles (chart_geometry vals dates)) = max 1 (length vals)"
    unfolding c vs_def by (cases vals) simp_all
  ultimately show ?thesis using in_frame by blast
qed

theorem chart_in_frame_witness:
  "ch_circles (chart_geometry [2, 0, 4] []) = [(20, 110), (300, 185), (580, 35)] \<and>
   (\<exists>(x, y)\<in>set (ch_circles (chart_geometry [2, 0, 4] [])). y = 35)"
proof -
  have "ch_circles (chart_geometry [2, 0, 4] []) = [(20, 110), (300, 185), (580, 35)]"
    by (simp add: chart_geometry_def chart_point_def or_one_def round_even_def Let_def)
  then show ?thesis using chart_in_frame[of "[2, 0, 4]" "[]"] by simp
qed

section \<open>The counts\<close>

text \<open>With a threshold that is not negative and reorder points that are not, every product that wants an order
  is either critical or a warning, and never both.\<close>

theorem dashboard_counts_partition:
  assumes "\<forall>r\<in>set (product_rows cat). 0 \<le> pr_reorder r" "0 \<le> critical_pct"
  shows "db_reorder (dashboard_build by_gap created pcts critical_pct cat db)
    = db_critical (dashboard_build by_gap created pcts critical_pct cat db)
      + db_warning (dashboard_build by_gap created pcts critical_pct cat db)"
proof -
  let ?ratio = "critical_pct / 100"
  have "wants_order r \<longleftrightarrow> dash_critical ?ratio r \<or> dash_warning ?ratio r"
    "\<not> (dash_critical ?ratio r \<and> dash_warning ?ratio r)" if "r \<in> set (product_rows cat)" for r
  proof -
    have "0 \<le> real_of_int (pr_reorder r) * ?ratio" using assms that by simp
    then show "wants_order r \<longleftrightarrow> dash_critical ?ratio r \<or> dash_warning ?ratio r"
      "\<not> (dash_critical ?ratio r \<and> dash_warning ?ratio r)"
      by (auto simp: dash_critical_def dash_warning_def)
  qed
  then have "length (filter wants_order rows) = length (filter (dash_critical ?ratio) rows) + length (filter (dash_warning ?ratio) rows)"
    if "set rows \<subseteq> set (product_rows cat)" for rows
    using that by (induction rows) auto
  then show ?thesis by (simp add: dashboard_build_def Let_def split: prod.split)
qed

section \<open>The ABC analysis\<close>

lemma abc_loop_length [simp]: "length (abc_loop whole i cum rows) = length rows"
  by (induction rows arbitrary: i cum) (auto simp: Let_def)

lemma abc_loop_nth:
  "k < length rows \<Longrightarrow> abc_loop whole i cum rows ! k =
    (let pct = (if whole \<noteq> 0 then round_to 1 ((cum + sum_list (map snd (take (Suc k) rows))) / whole * 100) else 0)
     in \<lparr>ab_rank = i + k, ab_sku = fst (rows ! k), ab_value = snd (rows ! k), ab_cum = pct, ab_class = abc_class pct\<rparr>)"
proof (induction rows arbitrary: i cum k)
  case (Cons r rows)
  then show ?case by (cases r; cases k) (auto simp: Let_def add.assoc)
qed simp

lemma round_even_mono: "x \<le> y \<Longrightarrow> round_even x \<le> round_even y"
proof -
  assume xy: "x \<le> y"
  show ?thesis
  proof (cases "\<lfloor>x\<rfloor> = \<lfloor>y\<rfloor>")
    case True
    then show ?thesis using xy by (auto simp: round_even_def Let_def)
  next
    case False
    then have "\<lfloor>x\<rfloor> + 1 \<le> \<lfloor>y\<rfloor>" using floor_mono[OF xy] by linarith
    moreover have "round_even x \<le> \<lfloor>x\<rfloor> + 1" "\<lfloor>y\<rfloor> \<le> round_even y" by (auto simp: round_even_def Let_def)
    ultimately show ?thesis by linarith
  qed
qed

lemma round_to_mono: "x \<le> y \<Longrightarrow> round_to k x \<le> round_to k y"
  by (simp add: round_to_def round_even_mono divide_right_mono)

lemma abc_class_mono: "x \<le> y \<Longrightarrow> (abc_class y = ''A'' \<longrightarrow> abc_class x = ''A'') \<and> (abc_class x = ''C'' \<longrightarrow> abc_class y = ''C'')"
  by (auto simp: abc_class_def)

lemma prefix_sum_mono:
  fixes xs :: "real list"
  assumes "\<forall>x\<in>set xs. 0 \<le> x" "m \<le> n"
  shows "sum_list (take m xs) \<le> sum_list (take n xs)"
proof -
  have "take n xs = take m xs @ take (n - m) (drop m xs)" using assms(2) by (metis le_add_diff_inverse take_add)
  moreover have "0 \<le> sum_list (take (n - m) (drop m xs))"
    using assms(1) by (intro sum_list_nonneg) (meson in_set_dropD in_set_takeD)
  ultimately show ?thesis by simp
qed

lemma abc_values_pos:
  assumes "\<forall>r\<in>set (product_rows cat). \<forall>x. pr_price r = Some x \<longrightarrow> 0 \<le> x"
  shows "\<forall>v\<in>set (map snd (abc_rows cat)). 0 \<le> v"
  using assms by (force simp: abc_rows_def amount_def)

lemma abc_loop_cells: "map (\<lambda>r. (ab_sku r, ab_value r)) (abc_loop w i c rows) = rows"
  by (induction rows arbitrary: i c) (auto simp: Let_def)

lemma abc_table_rows:
  "mset (map (\<lambda>r. (ab_sku r, ab_value r)) (abc_data cat)) =
   mset (map (\<lambda>r. (pr_sku r, of_int (pr_stock r) * the (pr_price r)))
     (filter (\<lambda>r. 0 < pr_stock r \<and> pr_price r \<noteq> None) (product_rows cat)))"
proof -
  have "mset (map (\<lambda>r. (ab_sku r, ab_value r)) (abc_data cat)) = mset (abc_rows cat)"
    by (simp only: abc_data_def Let_def abc_loop_cells)
  also have "\<dots> = mset (map (\<lambda>r. (pr_sku r, of_int (pr_stock r) * amount (pr_price r)))
      (filter (\<lambda>r. 0 < pr_stock r \<and> pr_price r \<noteq> None) (product_rows cat)))"
    by (simp add: abc_rows_def conj_commute)
  also have "map (\<lambda>r. (pr_sku r, of_int (pr_stock r) * amount (pr_price r)))
      (filter (\<lambda>r. 0 < pr_stock r \<and> pr_price r \<noteq> None) (product_rows cat)) =
    map (\<lambda>r. (pr_sku r, of_int (pr_stock r) * the (pr_price r)))
      (filter (\<lambda>r. 0 < pr_stock r \<and> pr_price r \<noteq> None) (product_rows cat))"
    by (rule map_cong[OF refl]) (auto simp: amount_def)
  finally show ?thesis .
qed

lemma abc_ranked:
  assumes "\<forall>r\<in>set (product_rows cat). \<forall>x. pr_price r = Some x \<longrightarrow> 0 \<le> x"
    and "i \<le> j" "j < length (abc_data cat)"
  shows "ab_rank (abc_data cat ! i) = Suc i \<and> ab_value (abc_data cat ! j) \<le> ab_value (abc_data cat ! i) \<and>
    0 \<le> ab_cum (abc_data cat ! i) \<and> ab_cum (abc_data cat ! i) \<le> ab_cum (abc_data cat ! j) \<and>
    ab_cum (abc_data cat ! j) \<le> 100 \<and>
    (Suc j = length (abc_data cat) \<longrightarrow> (\<exists>x\<in>set (abc_rows cat). 0 < snd x) \<longrightarrow> ab_cum (abc_data cat ! j) = 100) \<and>
    (ab_class (abc_data cat ! j) = ''A'' \<longrightarrow> ab_class (abc_data cat ! i) = ''A'') \<and>
    (ab_class (abc_data cat ! i) = ''C'' \<longrightarrow> ab_class (abc_data cat ! j) = ''C'')"
proof -
  define rows where "rows = abc_rows cat"
  define whole where "whole = sum_list (map snd rows)"
  define share where "share k = (if whole \<noteq> 0 then round_to 1 (sum_list (map snd (take (Suc k) rows)) / whole * 100) else 0)" for k
  have pos: "\<forall>v\<in>set (map snd rows). 0 \<le> v" unfolding rows_def by (rule abc_values_pos[OF assms(1)])
  have j: "j < length rows" and i: "i < length rows" using assms(2,3) by (simp_all add: abc_data_def rows_def Let_def)
  have at: "abc_data cat ! k = \<lparr>ab_rank = Suc k, ab_sku = fst (rows ! k), ab_value = snd (rows ! k), ab_cum = share k,
      ab_class = abc_class (share k)\<rparr>" if "k < length rows" for k
    using that by (simp add: abc_data_def Let_def rows_def[symmetric] whole_def[symmetric] abc_loop_nth share_def)
  have w: "0 \<le> whole" unfolding whole_def by (rule sum_list_nonneg) (use pos in auto)
  have mono: "share k \<le> share l" if "k \<le> l" for k l
  proof -
    have "sum_list (take (Suc k) (map snd rows)) \<le> sum_list (take (Suc l) (map snd rows))"
      by (rule prefix_sum_mono[OF pos]) (use that in simp)
    then have "sum_list (map snd (take (Suc k) rows)) / whole * 100 \<le> sum_list (map snd (take (Suc l) rows)) / whole * 100"
      using w by (simp add: take_map divide_right_mono)
    then show ?thesis by (simp add: share_def round_to_mono)
  qed
  have hundred: "round_to (Suc 0) 100 = 100" using round_even_of_int[of 1000] by (simp add: round_to_def)
  have full: "share k = 100" if "whole \<noteq> 0" "length rows \<le> Suc k" for k
    using that by (simp add: share_def whole_def[symmetric] hundred)
  have upper: "share k \<le> 100" if "k < length rows" for k
    using mono[of k "length rows"] full[of "length rows"] that by (cases "whole = 0") (simp_all add: share_def)
  have lower: "0 \<le> share k" for k
  proof -
    have "0 \<le> sum_list (map snd (take (Suc k) rows))" using pos by (intro sum_list_nonneg) (auto dest: in_set_takeD)
    then have "round_to 1 0 \<le> round_to 1 (sum_list (map snd (take (Suc k) rows)) / whole * 100)"
      using w by (intro round_to_mono) simp
    then show ?thesis by (simp add: share_def round_to_def round_even_def)
  qed
  have sorted: "snd (rows ! j) \<le> snd (rows ! i)"
  proof -
    have "sorted (map (\<lambda>(k, v). - v) rows)" by (simp add: rows_def abc_rows_def)
    from sorted_nth_mono[OF this assms(2)] j i show ?thesis by (simp add: case_prod_unfold)
  qed
  have "whole \<noteq> 0" if "\<exists>x\<in>set rows. 0 < snd x"
  proof -
    obtain x where x: "x \<in> set rows" "0 < snd x" using \<open>\<exists>x\<in>set rows. 0 < snd x\<close> by blast
    then have "snd x \<le> whole" unfolding whole_def by (intro member_le_sum_list) (use pos in auto)
    then show ?thesis using x by simp
  qed
  then show ?thesis using at[OF i] at[OF j] sorted lower[of i] mono[OF assms(2)] upper[OF j] full[of j]
      abc_class_mono[OF mono[OF assms(2)]] assms(3)
    by (simp add: rows_def[symmetric]) (simp add: abc_data_def rows_def[symmetric] Let_def)
qed

text \<open>C28: The ABC table lists exactly the stocked and priced products (those marked deleted too), each once with its SKU and with its
  stock times its price as the value (whatever the prices are).  When no price is negative it is ranked: by
  falling value with ranks from one, the cumulated shares never fall, lie between 0 and 100 percent and end at
  100 when some value is positive, and the classes follow the ranks, no A below a B or C and no B below a C.\<close>

theorem abc_table_ranked:
  "mset (map (\<lambda>r. (ab_sku r, ab_value r)) (abc_data cat)) =
      mset (map (\<lambda>r. (pr_sku r, of_int (pr_stock r) * the (pr_price r)))
        (filter (\<lambda>r. 0 < pr_stock r \<and> pr_price r \<noteq> None) (product_rows cat))) \<and>
    ((\<forall>r\<in>set (product_rows cat). \<forall>x. pr_price r = Some x \<longrightarrow> 0 \<le> x) \<longrightarrow> i \<le> j \<longrightarrow> j < length (abc_data cat) \<longrightarrow>
      ab_rank (abc_data cat ! i) = Suc i \<and> ab_value (abc_data cat ! j) \<le> ab_value (abc_data cat ! i) \<and>
      0 \<le> ab_cum (abc_data cat ! i) \<and> ab_cum (abc_data cat ! i) \<le> ab_cum (abc_data cat ! j) \<and>
      ab_cum (abc_data cat ! j) \<le> 100 \<and>
      (Suc j = length (abc_data cat) \<longrightarrow> (\<exists>x\<in>set (abc_data cat). 0 < ab_value x) \<longrightarrow> ab_cum (abc_data cat ! j) = 100) \<and>
      (ab_class (abc_data cat ! j) = ''A'' \<longrightarrow> ab_class (abc_data cat ! i) = ''A'') \<and>
      (ab_class (abc_data cat ! i) = ''C'' \<longrightarrow> ab_class (abc_data cat ! j) = ''C''))"
proof -
  have m: "abc_rows cat = map (\<lambda>r. (ab_sku r, ab_value r)) (abc_data cat)"
    by (simp only: abc_data_def Let_def abc_loop_cells)
  have e: "(\<exists>x\<in>set (abc_rows cat). 0 < snd x) = (\<exists>x\<in>set (abc_data cat). 0 < ab_value x)" by (simp add: m)
  show ?thesis using abc_ranked[of cat i j, unfolded e] by (intro conjI[OF abc_table_rows] impI)
qed

theorem abc_table_ranked_witness:
  "map (\<lambda>r. (ab_sku r, ab_value r)) (abc_data nut_catalog) = [(pr_sku nut_row, of_int (pr_stock nut_row) * the (pr_price nut_row))] \<and>
   ab_rank (abc_data nut_catalog ! 0) = 1 \<and> ab_cum (abc_data nut_catalog ! 0) = 100"
proof -
  have l: "product_rows nut_catalog = [nut_row]" "0 < pr_stock nut_row" "pr_price nut_row \<noteq> None"
      "\<forall>x. pr_price nut_row = Some x \<longrightarrow> 0 \<le> x" "0 < the (pr_price nut_row)"
    by (simp_all add: nut_catalog_def nut_row_def)
  note main = abc_table_ranked[of nut_catalog 0 0, unfolded l(1)]
  have m: "map (\<lambda>r. (ab_sku r, ab_value r)) (abc_data nut_catalog) = [(pr_sku nut_row, of_int (pr_stock nut_row) * the (pr_price nut_row))]"
    using conjunct1[OF main] l(2,3) by (subst mset_single_iff[symmetric]) simp
  then obtain r where r: "abc_data nut_catalog = [r]" "0 < ab_value r" using l by auto
  then show ?thesis using m main l by simp
qed

text \<open>The largest product is not class A when it is more than 80 percent of the value: its own share counts
  towards the threshold.  A single product is class C.\<close>

theorem abc_only_product_is_C:
  assumes "abc_rows cat = [(k, v)]" "0 < v"
  shows "map ab_class (abc_data cat) = [''C'']"
proof -
  have "round_to 1 100 = 100" using round_even_of_int[of 1000] by (simp add: round_to_def)
  then show ?thesis using assms by (simp add: abc_data_def abc_class_def)
qed

section \<open>Turnover\<close>

definition category_sales :: "'a inv_db_scheme \<Rightarrow> product_row \<Rightarrow> nat" where
  "category_sales db r = length (filter (\<lambda>m. mv_product m = pr_id r \<and> mv_type m = ''OUT'' \<and> today db - 365 \<le> mv_day m
     \<and> \<not> mv_deleted m) (movements db))"

text \<open>The column called SKU count counts the rows of the join: a product with several sales counts once per
  sale, and its stock weighs as often in the mean inventory value.\<close>

theorem turnover_counts_sales:
  "to_sku_count (turnover_row cat db c) =
     (\<Sum>r\<leftarrow>filter (\<lambda>r. pr_category r = Some c \<and> pr_price r \<noteq> None) (product_rows cat). max 1 (category_sales db r))"
proof -
  have one: "length (if ms = [] then [(r, None)] else map (\<lambda>m. (r, Some m)) ms) = max 1 (length ms)" for r :: product_row and ms :: "movement list"
    by (cases ms) simp_all
  show ?thesis unfolding turnover_row_def turnover_join_def Let_def
    by (simp add: length_concat comp_def one category_sales_def)
qed

section \<open>The savings\<close>

lemma eoq_cost_minimal:
  assumes "0 < d" "0 < s" "0 < h"
  shows "eoq_cost d s h = sqrt (2 * d * s * h) \<and> eoq_cost d s h \<le> manual_cost d s h"
proof -
  let ?q = "sqrt (2 * d * s / h)"
  have q: "0 < ?q" "d / ?q * s = ?q / 2 * h" using cost_at_eoq[OF assms] by simp_all
  have e: "eoq_cost d s h = d / ?q * s + ?q / 2 * h" using assms(3) q(1) by (simp add: eoq_cost_def Let_def)
  have "?q * h = ?q * sqrt (h\<^sup>2)" using assms(3) by simp
  also have "\<dots> = sqrt (2 * d * s / h * h\<^sup>2)" by (rule real_sqrt_mult[symmetric])
  also have "2 * d * s / h * h\<^sup>2 = 2 * d * s * h" using assms(3) by (simp add: power2_eq_square)
  finally have "eoq_cost d s h = sqrt (2 * d * s * h)" using e q(2) by simp
  moreover have "manual_cost d s h = d / (d / 12) * s + d / 12 / 2 * h" using assms(1) by (simp add: manual_cost_def Let_def)
  moreover have "d / ?q * s + ?q / 2 * h \<le> d / (d / 12) * s + d / 12 / 2 * h"
    by (rule cost_lower_bound[OF assms q(1) _ q(2)]) (use assms(1) in simp)
  ultimately show ?thesis using e by simp
qed

text \<open>The savings figure of the dashboard is exact: it is the sum over the products with demand and costs of
  twelve monthly orders' cost minus the least possible cost \<open>sqrt(2DSH)\<close>; no product makes it smaller, so
  the guard against negative savings never acts.\<close>

theorem ai_savings_exact:
  "ai_savings cat = (\<Sum>(d, s, h)\<leftarrow>eoq_rows cat. 12 * s + d / 24 * h - sqrt (2 * d * s * h)) \<and>
   (\<forall>(d, s, h)\<in>set (eoq_rows cat). sqrt (2 * d * s * h) \<le> 12 * s + d / 24 * h) \<and> 0 \<le> ai_savings cat"
proof -
  have each: "max (manual_cost d s h - eoq_cost d s h) 0 = 12 * s + d / 24 * h - sqrt (2 * d * s * h)"
    "sqrt (2 * d * s * h) \<le> 12 * s + d / 24 * h" if "(d, s, h) \<in> set (eoq_rows cat)" for d s h
  proof -
    have p: "0 < d" "0 < s" "0 < h" using that by (auto simp: eoq_rows_def)
    have "manual_cost d s h = 12 * s + d / 24 * h" using p(1) by (simp add: manual_cost_def Let_def)
    then show "max (manual_cost d s h - eoq_cost d s h) 0 = 12 * s + d / 24 * h - sqrt (2 * d * s * h)"
      "sqrt (2 * d * s * h) \<le> 12 * s + d / 24 * h" using eoq_cost_minimal[OF p] by simp_all
  qed
  have "ai_savings cat = (\<Sum>(d, s, h)\<leftarrow>eoq_rows cat. 12 * s + d / 24 * h - sqrt (2 * d * s * h))"
    unfolding ai_savings_def by (rule arg_cong[where f = sum_list], rule map_cong[OF refl]) (auto simp: each(1))
  moreover have "0 \<le> ai_savings cat" unfolding ai_savings_def by (rule sum_list_nonneg) auto
  ultimately show ?thesis using each(2) by blast
qed

theorem ai_savings_exact_witness:
  "ai_savings (nut_catalog\<lparr>product_rows := [nut_row\<lparr>pr_demand := Some 1200, pr_ordering := Some 75, pr_holding := Some 2\<rparr>]\<rparr>) = 400"
proof -
  have "sqrt 360000 = 600" by (rule real_sqrt_unique) simp_all
  then show ?thesis
    using ai_savings_exact[of "nut_catalog\<lparr>product_rows := [nut_row\<lparr>pr_demand := Some 1200, pr_ordering := Some 75, pr_holding := Some 2\<rparr>]\<rparr>"]
    by (simp add: eoq_rows_def amount_def)
qed

section \<open>The months of the landing page\<close>

lemma first_of_month_at: "month_first k \<le> n \<Longrightarrow> n < month_first (k + 1) \<Longrightarrow> first_of_month n = month_first k"
  using month_first_civil[of k n] by (auto simp: first_of_month_def)

lemma next_month_at:
  assumes "month_first k \<le> n" "n < month_first (k + 1)"
  shows "next_month n = month_first (k + 1)"
proof -
  obtain y where c: "civil n = (y, month_of (k mod 12), n - month_first k + 1)" using month_first_civil[OF assms] by blast
  have "month_first (k + 1) \<le> month_first k + 31" "month_first k + 31 < month_first (k + 1 + 1)"
    using month_gap[of k] month_gap[of "k + 1"] by linarith+
  from first_of_month_at[OF this] show ?thesis by (simp add: next_month_def c add.commute)
qed

lemma month_first_own: "month_first k < month_first (k + 1)"
  using month_gap(1)[of k] by linarith

lemma month_walk_at:
  "month_first k \<le> n \<Longrightarrow> n < month_first (k + 1) \<Longrightarrow> month_walk m n = map (\<lambda>i. month_first (k + 1 + int i)) [0..<m]"
proof (induction m arbitrary: k n)
  case (Suc m)
  have "month_walk m (month_first (k + 1)) = map (\<lambda>i. month_first (k + 1 + 1 + int i)) [0..<m]"
    by (rule Suc.IH[OF order_refl month_first_own])
  then show ?case using next_month_at[OF Suc.prems]
    by (simp add: Let_def map_upt_Suc algebra_simps del: upt_Suc)
qed simp

lemma month_name_first: "month_name (month_first k) = month_names ! nat ((k + 2) mod 12)"
proof -
  obtain y where "civil (month_first k) = (y, month_of (k mod 12), 1)"
    using month_first_civil[of k "month_first k"] month_first_own[of k] by auto
  moreover have "month_of (k mod 12) - 1 = (k + 2) mod 12"
    using mod12_cases[of k] by (auto simp: month_of_def mod_add_left_eq[of k 12 2, symmetric])
  ultimately show ?thesis by (simp add: month_name_def)
qed

lemma landing_months_at:
  assumes k: "month_first k \<le> now" "now < month_first (k + 1)"
  shows "landing_months now = map (\<lambda>i. month_first (k - 11 + 1 + int i)) [0..<12]"
proof -
  have "month_first (k - 11) \<le> month_first k - 330" "month_first k - 330 < month_first (k - 11 + 1)"
    using year_gap[of "k - 11"] month_gap[of k] month_gap[of "k - 11"] by (simp_all add: algebra_simps)
  from month_walk_at[OF this, of 12] show ?thesis by (simp only: landing_months_def first_of_month_at[OF k])
qed

lemma landing_labels:
  assumes "civil now = (y, m, d)"
  shows "map month_name (landing_months now) = map (\<lambda>i. month_names ! nat ((m - 1 - 10 + int i) mod 12)) [0..<12]"
proof -
  obtain k where k: "month_first k \<le> now" "now < month_first (k + 1)" using month_exists by blast
  have m: "m = month_of (k mod 12)" using month_first_civil[OF k] assms by auto
  have "map month_name (landing_months now) = map (\<lambda>i. month_names ! nat ((k - 10 + int i + 2) mod 12)) [0..<12]"
    by (simp add: landing_months_at[OF k] month_name_first algebra_simps del: upt_Suc upt_rec_numeral)
  moreover have "(k - 10 + i + 2) mod 12 = (m - 1 - 10 + i) mod 12" for i
  proof -
    have "m - 1 = (k + 2) mod 12"
      using mod12_cases[of k] by (auto simp: m month_of_def mod_add_left_eq[of k 12 2, symmetric])
    then have "(m - 1 + (i - 10)) mod 12 = (k + 2 + (i - 10)) mod 12"
      by (simp only: mod_add_left_eq)
    then show ?thesis by (simp add: algebra_simps)
  qed
  ultimately show ?thesis by (simp only:)
qed

end
