(* ===== verification/Pages.thy ===== *)
theory Pages
  imports Api Auth
begin

text \<open>The forms of \<open>app/routes/ui.py\<close> over the shop of theory Api: products, suppliers, movements,
  purchase orders and reordering.  A handler answers with a redirect or a rendered page and leaves messages
  for the next page; it runs under the role check and the idempotency decorator.\<close>

section \<open>Answers\<close>

type_synonym page_world = "shop_state \<times> (string \<times> string) list"

definition redirect_to :: "string \<Rightarrow> view_result" where
  "redirect_to url = RespObj 302 None [(''Location'', url)]"

definition flash_msg :: "string \<Rightarrow> string \<Rightarrow> page_world \<Rightarrow> page_world" where
  "flash_msg m category w = (fst w, snd w @ [(category, m)])"

definition bust_page :: "(api_value caches \<Rightarrow> nat \<times> api_value caches) \<Rightarrow> page_world \<Rightarrow> page_world" where
  "bust_page b w = (with_bust b (fst w), snd w)"

definition on_shop :: "(shop_state \<Rightarrow> shop_state) \<Rightarrow> page_world \<Rightarrow> page_world" where
  "on_shop f w = (f (fst w), snd w)"

abbreviation inventory_page :: view_result where "inventory_page \<equiv> redirect_to ''/inventory''"
abbreviation suppliers_page :: view_result where "suppliers_page \<equiv> redirect_to ''/suppliers''"
abbreviation orders_page :: view_result where "orders_page \<equiv> redirect_to ''/purchase-orders''"
abbreviation alerts_page :: view_result where "alerts_page \<equiv> redirect_to ''/reorder-alerts''"

type_synonym form = "(string \<times> string) list"

definition form_get :: "form \<Rightarrow> string \<Rightarrow> pyval" where
  "form_get form k = (case map_of form k of None \<Rightarrow> PNone | Some v \<Rightarrow> PStr v)"

section \<open>Products\<close>

definition product_payload :: "bool \<Rightarrow> form \<Rightarrow> payload" where
  "product_payload is_new form =
     [(''sku'', form_get form ''sku''), (''name'', form_get form ''name''), (''category'', form_get form ''category''),
      (''warehouse'', form_get form ''warehouse''), (''reorder_point'', py_or (form_get form ''reorder_point'') (PInt 0)),
      (''unit_price'', form_get form ''unit_price''), (''demand_rate'', form_get form ''demand_rate''),
      (''ordering_cost'', form_get form ''ordering_cost''), (''holding_cost'', form_get form ''holding_cost''),
      (''supplier_id'', form_get form ''supplier_id'')] @
     (if is_new then [(''current_stock'', py_or (form_get form ''current_stock'') (PInt 0))] else [])"

text \<open>An id of 0 counts as none: the form creates a product then.\<close>

definition product_form ::
  "catalog \<Rightarrow> int option \<Rightarrow> form \<Rightarrow> page_world \<Rightarrow> view_result result \<times> page_world" where
  "product_form seen pid form w =
     (let pid = (case pid of Some i \<Rightarrow> if i = 0 then None else Some i | None \<Rightarrow> None) in
      case (case pid of None \<Rightarrow> Ok True
            | Some i \<Rightarrow> bindE (product_by_id i (fst w)) (\<lambda>r. Ok (r \<noteq> None))) of
        Inl e \<Rightarrow> (Err e, w)
      | Inr found \<Rightarrow>
          if \<not> found then (Ok inventory_page, flash_msg ''Product not found'' ''error'' w)
          else (case (case pid of
                 Some i \<Rightarrow> (case product_update i (product_payload False form) (sh_catalog (fst w)) of (r, cat) \<Rightarrow>
                     (bindE r (\<lambda>_. Ok ''Product updated''), cat))
               | None \<Rightarrow> (case product_create seen (product_payload True form) (sh_catalog (fst w)) of (r, cat) \<Rightarrow>
                     (bindE r (\<lambda>i. Ok (''Product created with ID '' @ int_str i)), cat))) of
             (Inl e, cat) \<Rightarrow> (Ok (RespText ''product_form.html''),
                flash_msg (exc_text e) ''error'' (on_shop (\<lambda>s. s\<lparr>sh_catalog := cat\<rparr>) w))
           | (Inr m, cat) \<Rightarrow> (Ok inventory_page,
                bust_page cache_bust_products (flash_msg m ''success'' (on_shop (\<lambda>s. s\<lparr>sh_catalog := cat\<rparr>) w)))))"

text \<open>Success is told for an id that does not exist, too.\<close>

definition delete_product_page :: "int \<Rightarrow> page_world \<Rightarrow> view_result result \<times> page_world" where
  "delete_product_page i w = (case sql_int (PInt i) of Inl e \<Rightarrow> (Err e, w)
     | Inr _ \<Rightarrow> (Ok inventory_page, flash_msg ''Product deleted'' ''success'' (bust_page cache_bust_products
         (on_shop (\<lambda>s. s\<lparr>sh_catalog := product_delete i (sh_catalog s)\<rparr>) w))))"

section \<open>Suppliers\<close>

definition supplier_payload :: "form \<Rightarrow> payload" where
  "supplier_payload form =
     [(''name'', form_get form ''name''), (''location'', form_get form ''location''),
      (''lead_days'', form_get form ''lead_days''), (''spend_amount'', form_get form ''spend_amount''),
      (''reliability'', py_or (form_get form ''reliability'') (PInt 90)),
      (''tone'', case map_of form ''tone'' of Some t \<Rightarrow> PStr t | None \<Rightarrow> PStr ''amber'')]"

definition suppliers_create :: "form \<Rightarrow> page_world \<Rightarrow> view_result result \<times> page_world" where
  "suppliers_create form w = (Ok suppliers_page,
     case supplier_create (supplier_payload form) (sh_catalog (fst w)) of
       (Inl e, cat) \<Rightarrow> flash_msg (exc_text e) ''error'' (on_shop (\<lambda>s. s\<lparr>sh_catalog := cat\<rparr>) w)
     | (Inr i, cat) \<Rightarrow> bust_page cache_bust_suppliers (flash_msg ''Supplier added'' ''success''
         (on_shop (\<lambda>s. s\<lparr>sh_catalog := cat\<rparr>) w)))"

definition delete_supplier_page :: "int \<Rightarrow> page_world \<Rightarrow> view_result result \<times> page_world" where
  "delete_supplier_page i w = (case sql_int (PInt i) of Inl e \<Rightarrow> (Err e, w)
     | Inr _ \<Rightarrow> (Ok suppliers_page, flash_msg ''Supplier removed'' ''success'' (bust_page cache_bust_suppliers
         (on_shop (\<lambda>s. s\<lparr>sh_catalog := supplier_delete i (sh_catalog s)\<rparr>) w))))"

section \<open>Movements\<close>

text \<open>\<open>int(form.get("product_id", 0))\<close> raises for an empty field, \<open>int(form.get("quantity") or 0)\<close> does
  not.  The arguments are evaluated in the order of the call.\<close>

definition movement_fields :: "form \<Rightarrow> payload result" where
  "movement_fields form =
     bindE (to_int (case map_of form ''product_id'' of Some t \<Rightarrow> PStr t | None \<Rightarrow> PInt 0)) (\<lambda>pid.
     bindE (to_int (py_or (form_get form ''quantity'') (PInt 0))) (\<lambda>q.
     Ok [(''product_id'', PInt pid), (''type'', PStr (case map_of form ''type'' of Some t \<Rightarrow> t | None \<Rightarrow> [])),
         (''quantity'', PInt q), (''reference'', form_get form ''reference''), (''notes'', form_get form ''notes'')]))"

definition movement_form ::
  "bool \<Rightarrow> po_db \<Rightarrow> int \<Rightarrow> form \<Rightarrow> page_world \<Rightarrow> view_result result \<times> page_world" where
  "movement_form audit_ok seen uid form w =
     (let refused = (\<lambda>e w. (Ok (RespText ''movement_form.html''), flash_msg (exc_text e) ''error'' w)) in
      case movement_fields form of
        Inl e \<Rightarrow> refused e w
      | Inr p \<Rightarrow> (case movement_call audit_ok seen uid p (shop_db (fst w)) of
          (Inl e, db) \<Rightarrow> refused e (on_shop (with_db db) w)
        | (Inr i, db) \<Rightarrow> (Ok inventory_page, bust_page cache_bust_movements
            (flash_msg ''Movement saved.'' ''success'' (on_shop (with_db db) w)))))"

section \<open>Purchase orders\<close>

definition flash_all :: "flash list \<Rightarrow> page_world \<Rightarrow> page_world" where
  "flash_all fs w = foldl (\<lambda>w f. case f of Flash m c \<Rightarrow> flash_msg m c w) w fs"

definition told_success :: "flash list \<Rightarrow> bool" where
  "told_success fs = list_ex (\<lambda>f. case f of Flash m c \<Rightarrow> c = ''success'') fs"

text \<open>The caches are busted when a success is flashed.\<close>

definition order_answer :: "flash list result \<times> po_db \<Rightarrow> page_world \<Rightarrow> view_result result \<times> page_world" where
  "order_answer x w = (case x of
       (Inl e, db) \<Rightarrow> (Err e, on_shop (with_db db) w)
     | (Inr fs, db) \<Rightarrow> (Ok orders_page, flash_all fs
         ((if told_success fs then bust_page cache_bust_purchase_orders else id) (on_shop (with_db db) w))))"

definition order_create_page ::
  "(string \<Rightarrow> bool) \<Rightarrow> string \<Rightarrow> string \<Rightarrow> form \<Rightarrow> page_world \<Rightarrow> view_result result \<times> page_world" where
  "order_create_page date_ok today_iso random_number form w =
     order_answer (purchase_orders_create date_ok today_iso random_number (map (\<lambda>(k, v). (k, PStr v)) form)
       (shop_db (fst w))) w"

definition order_status_page :: "int \<Rightarrow> form \<Rightarrow> page_world \<Rightarrow> view_result result \<times> page_world" where
  "order_status_page i form w = (case (case map_of form ''status'' of None \<Rightarrow> None | Some t \<Rightarrow> status_of t) of
       None \<Rightarrow> (Ok orders_page, w)
     | Some _ \<Rightarrow> if int4 i then order_answer (update_po_status i (map_of form ''status'') (shop_db (fst w))) w
         else (Err no_function, w))"

text \<open>Once the quantity is positive the caches are busted, whatever the service answers.  The key is handed
  on as it is: the empty text of an unfilled form field is a key for the procedure.\<close>

definition receive_reached :: "int \<Rightarrow> int option \<Rightarrow> po_db \<Rightarrow> bool" where
  "receive_reached i q db = (case q of Some q \<Rightarrow> 0 < q | None \<Rightarrow> (case find_order i db of None \<Rightarrow> False
     | Some r \<Rightarrow> 0 < po_quantity r - po_received r))"

definition text_field :: "http_request \<Rightarrow> string \<Rightarrow> string" where
  "text_field rq k = (case map_of (rq_form rq) k of Some v \<Rightarrow> v | None \<Rightarrow> [])"

definition receive_page ::
  "string \<Rightarrow> int \<Rightarrow> int \<Rightarrow> http_request \<Rightarrow> page_world \<Rightarrow> view_result result \<times> page_world" where
  "receive_page fresh_key uid i rq w =
     (let form = rq_form rq; db = shop_db (fst w);
          q = Option.bind (map_of form ''quantity'') parse_int
      in case receive_po fresh_key i q uid (text_field rq ''notes'') (text_field rq ''location'') (get_idempotency_key rq) db of
          (fs, db') \<Rightarrow> (Ok orders_page,
            (if receive_reached i q db then bust_page cache_bust_purchase_orders else id)
              (flash_all fs (on_shop (with_db db') w))))"

section \<open>Reordering\<close>

definition critical_low :: "real \<Rightarrow> real \<Rightarrow> po_db \<Rightarrow> product list" where
  "critical_low low crit db = filter (\<lambda>p. fst (stock_status (current_stock p) (reorder_point p) low crit) = ''critical'')
     (sp_product_low_stock db)"

definition auto_draft_page ::
  "bool \<Rightarrow> string \<Rightarrow> real \<Rightarrow> real \<Rightarrow> page_world \<Rightarrow> view_result result \<times> page_world" where
  "auto_draft_page auto_reorder d low crit w =
     (let db = shop_db (fst w) in
      if \<not> auto_reorder then (Ok alerts_page, flash_msg ''Auto-reorder is disabled in Settings'' ''warning'' w)
      else if critical_low low crit db = [] then (Ok alerts_page, flash_msg ''No critical items to reorder'' ''warning'' w)
      else (case auto_draft_pos auto_reorder d low crit db of
          (Inl e, db') \<Rightarrow> (Err e, on_shop (with_db db') w)
        | (Inr n, db') \<Rightarrow> (Ok alerts_page,
            (if n = 0 then id else flash_msg (''Auto-reorder drafted '' @ nat_str n @
               '' purchase order(s) for critical stock'') ''success'')
              (bust_page cache_bust_purchase_orders (on_shop (with_db db') w)))))"

definition mark_ordered_page :: "string \<Rightarrow> int \<Rightarrow> page_world \<Rightarrow> view_result result \<times> page_world" where
  "mark_ordered_page d i w =
     (let db = shop_db (fst w) in
      case bindE (sql_int (PInt i)) (\<lambda>_. fst (mark_ordered d i db)) of
        Inl e \<Rightarrow> (Err e, w)
      | Inr None \<Rightarrow> (Ok alerts_page, flash_msg ''Product not found'' ''error'' w)
      | Inr (Some n) \<Rightarrow> (Ok alerts_page,
          (case live_product i db of None \<Rightarrow> id | Some p \<Rightarrow>
             flash_msg (''PO '' @ auto_number d p @ '' created for '' @ sku p @ '': '' @
               int_str (reorder_quantity p) @ '' units on order'') ''success'')
            (bust_page cache_bust_purchase_orders (on_shop (with_db (snd (mark_ordered d i db))) w))))"

section \<open>Requests\<close>

datatype page_call =
    ProductForm catalog "int option" form
  | DeleteProductForm int
  | SupplierForm form
  | DeleteSupplierForm int
  | MovementForm bool po_db form
  | OrderForm string string form
  | OrderStatusForm int form
  | ReceiveForm string int http_request
  | AutoDraftForm bool string real real
  | MarkOrderedForm string int

fun page_view :: "(string \<Rightarrow> bool) \<Rightarrow> int \<Rightarrow> page_call \<Rightarrow> page_world \<Rightarrow> view_result result \<times> page_world" where
  "page_view date_ok uid (ProductForm seen pid form) w = product_form seen pid form w"
| "page_view date_ok uid (DeleteProductForm i) w = delete_product_page i w"
| "page_view date_ok uid (SupplierForm form) w = suppliers_create form w"
| "page_view date_ok uid (DeleteSupplierForm i) w = delete_supplier_page i w"
| "page_view date_ok uid (MovementForm audit_ok seen form) w = movement_form audit_ok seen uid form w"
| "page_view date_ok uid (OrderForm today_iso num form) w = order_create_page date_ok today_iso num form w"
| "page_view date_ok uid (OrderStatusForm i form) w = order_status_page i form w"
| "page_view date_ok uid (ReceiveForm fresh i rq) w = receive_page fresh uid i rq w"
| "page_view date_ok uid (AutoDraftForm on d low crit) w = auto_draft_page on d low crit w"
| "page_view date_ok uid (MarkOrderedForm d i) w = mark_ordered_page d i w"

definition page_post ::
  "(string \<Rightarrow> bool) \<Rightarrow> int \<times> user \<Rightarrow> int \<Rightarrow> bool \<times> bool \<Rightarrow> http_request \<Rightarrow> page_call \<Rightarrow> idem_table \<times> page_world \<Rightarrow>
   view_result outcome \<times> idem_table \<times> page_world" where
  "page_post date_ok who now up rq c = write_roles_required (snd who) (\<lambda>st.
     map_prod as_outcome id (idempotent False now (fst up) (snd up) (page_view date_ok (fst who) c)
       (rq\<lparr>http_request.rq_user := Some (fst who)\<rparr>) st))"

section \<open>The stock under the procedures\<close>

text \<open>What every procedure does to the tables: products keep all but their levels, and what stock and
  movements differ by stays.  The on-order figures are not part of it: the reorder page breaks their contract
  (theory Orders).\<close>

definition keeps_stock :: "po_db \<Rightarrow> po_db \<Rightarrow> bool" where
  "keeps_stock db db' = (levels_only db db' \<and> (inv_db_ok db \<longrightarrow> inv_db_ok db' \<and> (\<forall>k. stock_gap k db' = stock_gap k db)))"

named_theorems keeps

lemma same_but_levels_trans: "same_but_levels p q \<Longrightarrow> same_but_levels q r \<Longrightarrow> same_but_levels p r"
  by (cases p; cases q; cases r) (simp add: same_but_levels_def)

lemma keeps_stock_refl [simp, keeps]: "keeps_stock db db"
  by (simp add: keeps_stock_def)

lemma keeps_stock_trans:
  assumes "keeps_stock a b" "keeps_stock b c" shows "keeps_stock a c"
proof -
  have "list_all2 same_but_levels (products a) (products c)"
    by (rule list_all2_trans[OF same_but_levels_trans]) (use assms in \<open>auto simp: keeps_stock_def levels_only_def\<close>)
  then show ?thesis using assms by (simp add: keeps_stock_def levels_only_def)
qed

lemma keeps_stock_same:
  "products db' = products db \<Longrightarrow> movements db' = movements db \<Longrightarrow> next_movement db' = next_movement db \<Longrightarrow>
   supplier_ids db' = supplier_ids db \<Longrightarrow> keeps_stock db db'"
  by (simp add: keeps_stock_def levels_only_def list_all2_refl inv_db_ok_def stock_gap_def stock_of_def
      ledger_sum_def find_product_def)

lemma keeps_on_order [keeps]: "keeps_stock db (set_product pid (\<lambda>p. p\<lparr>on_order := g p\<rparr>) db)"
proof -
  have "levels_only db (set_product pid (\<lambda>p. p\<lparr>on_order := g p\<rparr>) db)"
    by (rule levels_only_set) (auto intro: same_but_levels_update)
  moreover have "inv_db_ok db \<longrightarrow> inv_db_ok (set_product pid (\<lambda>p. p\<lparr>on_order := g p\<rparr>) db)"
    using set_product_on_order_ok by blast
  ultimately show ?thesis by (simp add: keeps_stock_def stock_gap_def set_on_order_stock)
qed

lemma keeps_movement:
  assumes "sp_movement_record pid ty q ref nts uid db = Ok (i, db')" shows "keeps_stock db db'"
  using sp_movement_levels[OF assms] sp_movement_record_ok[OF assms] sp_movement_record_stock[OF assms]
  by (simp add: keeps_stock_def stock_gap_def)

lemma keeps_order [keeps]: "keeps_stock db (set_order i f db)"
  by (rule keeps_stock_same) (simp_all add: set_order_def)

lemma keeps_create:
  assumes "sp_po_create num sid pid q cost st eta db = Ok (i, db')" shows "keeps_stock db db'"
proof -
  obtain db1 where ins: "insert_order num sid pid q cost st eta db = Ok (i, db1)"
    and fin: "db' = (if st = ''approved'' \<or> st = ''in_transit''
      then set_product pid (\<lambda>p. p\<lparr>on_order := on_order p + q\<rparr>) db1 else db1)"
    using assms by (auto simp: sp_po_create_def bindE_Ok_iff add_on_order_def split: if_splits)
  have "keeps_stock db db1" using insert_order_Ok[OF ins] by (intro keeps_stock_same) auto
  then show ?thesis unfolding fin using keeps_on_order keeps_stock_trans by auto
qed

lemma keeps_on_order_calls:
  "add_on_order pid q db = Ok db' \<Longrightarrow> keeps_stock db db'"
  "release_on_order pid q db = Ok db' \<Longrightarrow> keeps_stock db db'"
  by (auto simp: add_on_order_def release_on_order_def bindE_Ok_iff intro: keeps_on_order)

lemma keeps_receive_effects:
  assumes "receive_effects r v by_user db = Ok db'" shows "keeps_stock db db'"
proof -
  obtain m db2 db3 where
    m: "sp_movement_record (po_product r) ''IN'' v (Some (po_number r)) (Some ''PO received'') by_user
          (set_order (po_id r) (\<lambda>x. x\<lparr>po_received := po_received r + v\<rparr>) db) = Ok (m, db2)"
    and rel: "release_on_order (po_product r) v db2 = Ok db3" and fin: "\<exists>g. db' = set_order (po_id r) g db3"
    using assms by (auto simp: receive_effects_def bindE_Ok_iff Let_def)
  have "keeps_stock db db2" using keeps_order keeps_movement[OF m] by (rule keeps_stock_trans)
  moreover have "keeps_stock db2 db3" by (rule keeps_on_order_calls(2)[OF rel])
  moreover have "keeps_stock db3 db'" using fin keeps_order by blast
  ultimately show ?thesis using keeps_stock_trans by blast
qed

lemma keeps_receive:
  assumes "receive_order r rq u nts loc key db = Ok db'" shows "keeps_stock db db'"
proof (cases u)
  case None
  then show ?thesis using assms by (auto simp: receive_order_def bindE_Ok_iff Let_def intro: keeps_receive_effects)
next
  case (Some by_user)
  obtain v where v: "(if key \<noteq> None \<and> fst v = None then (if \<exists>g\<in>set (receipts db). gr_key g = key \<and> gr_po g = po_id r \<and>
        gr_quantity g = (case rq of Some q \<Rightarrow> q | None \<Rightarrow> po_quantity r) then Ok db
      else Err (DbRaise (''Idempotency key '' @ the key @ '' reused with different PO/quantity'')))
      else receive_effects r (case rq of Some q \<Rightarrow> q | None \<Rightarrow> po_quantity r) (Some by_user) (snd v)) = Ok db'"
    and g: "sp_goods_receipt_create (po_id r) (case rq of Some q \<Rightarrow> q | None \<Rightarrow> po_quantity r) by_user nts loc key db = Ok v"
    using assms by (auto simp: receive_order_def bindE_Ok_iff Let_def Some split_beta)
  have "keeps_stock db (snd v)"
    using g by (auto simp: sp_goods_receipt_create_def bindE_Ok_iff split: if_splits intro: keeps_stock_same)
  then show ?thesis using v keeps_receive_effects keeps_stock_trans by (auto split: if_splits)
qed

lemma keeps_transition:
  assumes "sp_po_transition i st rq u nts loc key db = Ok db'" shows "keeps_stock db db'"
proof (cases "find_order i db")
  case None then show ?thesis using assms by (simp add: sp_po_transition_def)
next
  case (Some r)
  show ?thesis
  proof (cases "status_text (po_status r) = st")
    case True then show ?thesis using assms Some by (simp add: sp_po_transition_def)
  next
    case False
    then obtain s where s: "status_of st = Some s" "allowed_transition (po_status r) s"
      using assms Some by (auto simp: sp_po_transition_def split: option.splits if_splits)
    show ?thesis
    proof (cases "s = Received")
      case True
      then show ?thesis using assms Some False s by (auto simp: sp_po_transition_def intro: keeps_receive)
    next
      case nr: False
      obtain db1 where "(if s = Approved then add_on_order (po_product r) (po_quantity r) db
          else if s = Cancelled \<and> (po_status r = Approved \<or> po_status r = InTransit)
          then release_on_order (po_product r) (po_quantity r - po_received r) db else Ok db) = Ok db1"
        and d: "db' = set_order i (\<lambda>x. x\<lparr>po_status := s\<rparr>) db1"
        using assms Some False s nr by (simp add: sp_po_transition_def bindE_Ok_iff) blast
      then have "keeps_stock db db1" by (auto split: if_splits dest: keeps_on_order_calls)
      then show ?thesis unfolding d using keeps_order by (rule keeps_stock_trans)
    qed
  qed
qed

section \<open>The stock under the pages\<close>

definition stock_ok :: "shop_state \<Rightarrow> bool" where
  "stock_ok s = (catalog_ok (sh_catalog s) \<and> inv_db_ok (shop_db s))"

definition stock_kept :: "shop_state \<Rightarrow> shop_state \<Rightarrow> bool" where
  "stock_kept s0 s = (stock_ok s \<and> (\<forall>k. product_at k (sh_catalog s0) \<noteq> None \<longrightarrow>
     product_at k (sh_catalog s) \<noteq> None \<and> stock_gap k (shop_db s) = stock_gap k (shop_db s0)))"

lemma stock_kept_refl: "stock_ok s \<Longrightarrow> stock_kept s s"
  by (simp add: stock_kept_def)

lemma stock_kept_trans: "stock_kept a b \<Longrightarrow> stock_kept b c \<Longrightarrow> stock_kept a c"
  by (simp add: stock_kept_def)

lemma stock_kept_bust: "stock_kept s s' \<Longrightarrow> stock_kept s (with_bust b s')"
  by (simp add: stock_kept_def stock_ok_def)

lemma stock_kept_same:
  assumes "stock_ok s" "sh_catalog s' = sh_catalog s" "sh_db s' = sh_db s"
  shows "stock_kept s s'"
proof -
  have "shop_db s' = shop_db s" using assms(2,3) by (simp add: shop_db_def)
  then show ?thesis using assms by (simp add: stock_kept_def stock_ok_def)
qed

lemma stock_kept_catalog:
  assumes ok: "stock_ok s" and s': "sh_catalog s' = catalog_step x (sh_catalog s)" "sh_db s' = sh_db s"
  shows "stock_kept s s'"
proof -
  let ?cat = "sh_catalog s"
  have cat: "catalog_ok (catalog_step x ?cat)" using ok by (simp add: stock_ok_def catalog_step_ok)
  have "inv_db_ok (shop_db s')" using ok cat
    by (auto simp: stock_ok_def inv_db_ok_def s' comp_def stock_view_def catalog_ok_def product_row_ok_def)
  moreover have "stock_of k (shop_db s') = stock_of k (shop_db s)" if r: "product_at k ?cat = Some r" for k r
    using catalog_step_kept[OF r, of x] r by (auto simp: stock_of_def find_product_shop s' stock_view_def row_kept_def)
  ultimately show ?thesis using cat catalog_step_kept[of _ ?cat _ x]
    by (fastforce simp: stock_kept_def stock_ok_def s' stock_gap_def ledger_sum_shop)
qed

lemma stock_kept_db:
  assumes ok: "stock_ok s" and k: "keeps_stock (shop_db s) db"
  shows "stock_kept s (with_db db s)"
proof -
  have db: "levels_only (shop_db s) db" "inv_db_ok db" "\<And>k. stock_gap k db = stock_gap k (shop_db s)"
    using ok k by (simp_all add: keeps_stock_def stock_ok_def)
  have "distinct (map prod_id (products db))" using db(2) by (simp add: inv_db_ok_def)
  note view = shop_db_with[OF db(1) this]
  have "catalog_ok (sh_catalog (with_db db s))"
    using ok db(2) by (intro with_db_catalog) (auto simp: stock_ok_def)
  moreover have "product_at k (sh_catalog (with_db db s)) \<noteq> None" if "product_at k (sh_catalog s) \<noteq> None" for k
    using that by (simp add: product_at_def with_db_def Let_def find_row_map comp_def)
  ultimately show ?thesis using db by (simp add: stock_kept_def stock_ok_def view)
qed

lemma stock_kept_step: "stock_ok s \<Longrightarrow> cat = catalog_step x (sh_catalog s) \<Longrightarrow> stock_kept s (s\<lparr>sh_catalog := cat\<rparr>)"
  by (auto intro!: stock_kept_catalog[where x = x])

text \<open>Messages and busted caches do not touch the tables.\<close>

lemma page_parts [simp]:
  "fst (flash_msg m c w) = fst w" "fst (on_shop f w) = f (fst w)" "fst (bust_page b w) = with_bust b (fst w)"
  by (simp_all add: flash_msg_def on_shop_def bust_page_def)

lemma flash_all_shop [simp]: "fst (flash_all fs w) = fst w"
  unfolding flash_all_def by (induction fs arbitrary: w) (auto split: flash.split)

lemma stock_kept_catalog_calls:
  "product_create seen p (sh_catalog s) = (r, cat) \<Longrightarrow> stock_ok s \<Longrightarrow> stock_kept s (s\<lparr>sh_catalog := cat\<rparr>)"
  "product_update i p (sh_catalog s) = (r', cat) \<Longrightarrow> stock_ok s \<Longrightarrow> stock_kept s (s\<lparr>sh_catalog := cat\<rparr>)"
  "supplier_create p (sh_catalog s) = (r, cat) \<Longrightarrow> stock_ok s \<Longrightarrow> stock_kept s (s\<lparr>sh_catalog := cat\<rparr>)"
  "stock_ok s \<Longrightarrow> stock_kept s (s\<lparr>sh_catalog := product_delete i (sh_catalog s)\<rparr>)"
  "stock_ok s \<Longrightarrow> stock_kept s (s\<lparr>sh_catalog := supplier_delete i (sh_catalog s)\<rparr>)"
  using stock_kept_step[of s cat "CreateProduct seen p"] stock_kept_step[of s cat "UpdateProduct i p"]
    stock_kept_step[of s cat "CreateSupplier p"] stock_kept_step[of s _ "DeleteProduct i"]
    stock_kept_step[of s _ "DeleteSupplier i"] by simp_all

lemma stock_kept_product_form: "stock_ok (fst w) \<Longrightarrow> stock_kept (fst w) (fst (snd (product_form seen pid form w)))"
  by (auto simp: product_form_def Let_def stock_kept_refl bindE_Ok_iff bindE_Err_iff
      split: sum.splits option.splits prod.splits if_splits
      dest: stock_kept_catalog_calls intro: stock_kept_bust stock_kept_catalog_calls)

lemma keeps_movement_call: "keeps_stock db (snd (movement_call audit_ok seen uid p db))"
proof (cases rule: movement_call_cases[of audit_ok seen uid p db])
  case (booked pid ty q ref nts i db1 al r)
  have "keeps_stock db1 (db1\<lparr>audit_log := al\<rparr>)" by (rule keeps_stock_same) simp_all
  then show ?thesis using keeps_stock_trans[OF keeps_movement[OF booked(2)]] booked(3) by simp
qed simp

lemma keeps_status: "keeps_stock db (snd (update_po_status i st db))"
proof -
  have "keeps_stock db db'" if "po_transition i s db = Ok db'" for s db'
    using that keeps_transition by (auto simp: po_transition_def split: sum.splits if_splits)
  then show ?thesis by (auto simp: update_po_status_def split: option.split sum.split pyexc.split)
qed

lemma keeps_receive_service: "po_service_receive fresh i q uid nts loc key db = Ok db' \<Longrightarrow> keeps_stock db db'"
proof -
  assume "po_service_receive fresh i q uid nts loc key db = Ok db'"
  then have "po_receive fresh i q uid nts loc key db = Ok db'"
    unfolding po_service_receive_def bindE_Ok_iff Let_def
    by (auto simp: bindE_Ok_iff split: option.splits sum.splits pyexc.splits if_splits)
  then show ?thesis using keeps_transition
    by (auto simp: po_receive_def Let_def split: sum.splits if_splits)
qed

lemma keeps_receive_po: "keeps_stock db (snd (receive_po fresh i q uid nts loc key db))"
  by (auto simp: receive_po_def Let_def split: option.split sum.split pyexc.split intro: keeps_receive_service)

lemma keeps_draft_and_mark:
  assumes "draft_and_mark d p q db = Ok (i, db')" shows "keeps_stock db db'"
proof -
  obtain s db1 where c: "sp_po_create (auto_number d p) s (prod_id p) q (unit_price p) ''draft'' None db = Ok (i, db1)"
    and fin: "db' = set_product (prod_id p) (\<lambda>p. p\<lparr>on_order := q\<rparr>) db1"
    using assms by (auto simp: draft_and_mark_def bindE_Ok_iff sp_product_set_on_order_def)
  show ?thesis unfolding fin by (rule keeps_stock_trans[OF keeps_create[OF c] keeps_on_order])
qed

lemma keeps_auto_draft: "keeps_stock db (snd (auto_draft_loop d ps n db))"
proof (induction ps arbitrary: n db)
  case (Cons p ps)
  show ?case
  proof (cases "draft_and_mark d p (capped_quantity p) db")
    case (Inl e) then show ?thesis using Cons.IH by simp
  next
    case (Inr x)
    obtain i db' where x: "x = (i, db')" by (cases x)
    then have "keeps_stock db db'" using Inr keeps_draft_and_mark by simp
    then show ?thesis using Inr x Cons.IH keeps_stock_trans by fastforce
  qed
qed simp

lemma keeps_reorder:
  "keeps_stock db (snd (auto_draft_pos on d low crit db))" "keeps_stock db (snd (mark_ordered d i db))"
  by (auto simp: auto_draft_pos_def keeps_auto_draft mark_ordered_def split: option.split sum.split prod.split
      intro: keeps_draft_and_mark)

text \<open>A handler's branches one by one, with what it binds left abstract.\<close>

lemma keeps_branches [keeps]:
  "(\<And>x. keeps_stock db (snd (f x))) \<Longrightarrow> keeps_stock db (snd (let x = v in f x))"
  "keeps_stock db (snd a) \<Longrightarrow> keeps_stock db (snd b) \<Longrightarrow> keeps_stock db (snd (if c then a else b))"
  "(\<And>e. r = Inl e \<Longrightarrow> keeps_stock db (snd (g e))) \<Longrightarrow> (\<And>x. r = Inr x \<Longrightarrow> keeps_stock db (snd (h x))) \<Longrightarrow>
   keeps_stock db (snd (case r of Inl e \<Rightarrow> g e | Inr x \<Rightarrow> h x))"
  "keeps_stock db (snd (r, db))"
  by (simp_all split: sum.split)

lemma keeps_po_create: "po_create date_ok p db = Ok x \<Longrightarrow> keeps_stock db (snd x)"
proof -
  assume "po_create date_ok p db = Ok x"
  then obtain num sid pid q cost st eta where "sp_po_create num sid pid q cost st eta db = Ok x"
    unfolding po_create_def bindE_Ok_iff
    by (elim exE conjE) (rule that, erule sum_case_Ok, rule if_Err)
  then show ?thesis using keeps_create by (cases x) auto
qed

lemma keeps_order_form: "keeps_stock db (snd (purchase_orders_create date_ok today_iso num form db))"
  unfolding purchase_orders_create_def
  by (intro keeps) (auto split: pyexc.split prod.split dest: keeps_po_create)

lemma stock_kept_answer:
  assumes "stock_ok (fst w)" "keeps_stock (shop_db (fst w)) (snd x)"
  shows "stock_kept (fst w) (fst (snd (order_answer x w)))"
  using stock_kept_db[OF assms] by (auto simp: order_answer_def stock_kept_bust split: prod.split sum.split)

lemma stock_kept_page_view:
  assumes ok: "stock_ok (fst w)" shows "stock_kept (fst w) (fst (snd (page_view date_ok uid c w)))"
proof (cases c)
  case (ProductForm seen pid form) then show ?thesis using ok by (simp add: stock_kept_product_form)
next
  case (DeleteProductForm i)
  then show ?thesis using ok
    by (auto simp: delete_product_page_def stock_kept_refl split: sum.split intro: stock_kept_bust stock_kept_catalog_calls)
next
  case (SupplierForm form)
  then show ?thesis using ok
    by (auto simp: suppliers_create_def split: sum.split prod.split intro: stock_kept_bust stock_kept_catalog_calls)
next
  case (DeleteSupplierForm i)
  then show ?thesis using ok
    by (auto simp: delete_supplier_page_def stock_kept_refl split: sum.split intro: stock_kept_bust stock_kept_catalog_calls)
next
  case (MovementForm audit_ok seen form)
  have "stock_kept (fst w) (with_db db (fst w))" if "movement_call audit_ok seen uid p (shop_db (fst w)) = (r, db)" for p r db
    using stock_kept_db[OF ok] keeps_movement_call[of "shop_db (fst w)" audit_ok seen uid p] that by simp
  then show ?thesis using ok MovementForm
    by (auto simp: movement_form_def Let_def stock_kept_refl stock_kept_bust split: sum.split prod.split)
next
  case (OrderForm t n form)
  then show ?thesis by (simp add: order_create_page_def stock_kept_answer[OF ok keeps_order_form])
next
  case (OrderStatusForm i form)
  then show ?thesis using ok
    by (simp add: order_status_page_def stock_kept_answer[OF ok keeps_status] stock_kept_refl split: option.split)
next
  case (ReceiveForm fresh i rq)
  have "stock_kept (fst w) (with_db db (fst w))"
    if "receive_po fresh i q uid nts loc key (shop_db (fst w)) = (fs, db)" for q nts loc key fs db
    using stock_kept_db[OF ok] keeps_receive_po[of "shop_db (fst w)" fresh i q uid nts loc key] that by simp
  then show ?thesis using ReceiveForm by (auto simp: receive_page_def Let_def stock_kept_bust split: prod.split)
next
  case (AutoDraftForm on d low crit)
  have "stock_kept (fst w) (with_db db (fst w))" if "auto_draft_pos on d low crit (shop_db (fst w)) = (r, db)" for r db
    using stock_kept_db[OF ok] keeps_reorder(1)[of "shop_db (fst w)" on d low crit] that by simp
  then show ?thesis using ok AutoDraftForm
    by (auto simp: auto_draft_page_def Let_def stock_kept_refl stock_kept_bust split: prod.split sum.split)
next
  case (MarkOrderedForm d i)
  have "stock_kept (fst w) (with_db (snd (mark_ordered d i (shop_db (fst w)))) (fst w))"
    by (rule stock_kept_db[OF ok keeps_reorder(2)])
  then show ?thesis using ok MarkOrderedForm
    by (auto simp: mark_ordered_page_def Let_def stock_kept_refl stock_kept_bust split: sum.split option.split)
qed

text \<open>The writing requests of the REST interface.\<close>

lemma stock_kept_write_view:
  assumes ok: "stock_ok s" shows "stock_kept s (snd (write_view date_ok uid c s))"
proof (cases c)
  case (PostProduct seen body) then show ?thesis using ok
    by (auto simp: create_product_def stock_kept_refl split: sum.split prod.split intro: stock_kept_bust stock_kept_catalog_calls)
next
  case (PutProduct i body) then show ?thesis using ok
    by (auto simp: update_product_def stock_kept_refl split: sum.split prod.split option.split
        intro: stock_kept_bust stock_kept_catalog_calls)
next
  case (RemoveProduct i) then show ?thesis using ok
    by (auto simp: delete_product_def stock_kept_refl split: sum.split option.split intro: stock_kept_bust stock_kept_catalog_calls)
next
  case (PostSupplier body) then show ?thesis using ok
    by (auto simp: create_supplier_def stock_kept_refl split: sum.split prod.split intro: stock_kept_bust stock_kept_catalog_calls)
next
  case (PostOrder body)
  have "stock_kept s (with_db db s)" if x: "bindE (as_dict (json_body body)) (\<lambda>p. po_service_create date_ok p (shop_db s)) = Ok (i, db)" for i db
  proof -
    from x obtain p where "po_service_create date_ok p (shop_db s) = Ok (i, db)" unfolding bindE_Ok_iff by blast
    then obtain num sid pid q cost st eta where "sp_po_create num sid pid q cost st eta (shop_db s) = Ok (i, db)"
      by (rule po_service_create_Ok)
    from stock_kept_db[OF ok keeps_create[OF this]] show ?thesis .
  qed
  then show ?thesis using ok PostOrder
    by (auto simp: create_purchase_order_def stock_kept_refl stock_kept_bust split: sum.split prod.split)
next
  case (PostMovement audit_ok seen body)
  have "stock_kept s (with_db db s)" if "movement_call audit_ok seen uid p (shop_db s) = (r, db)" for p r db
    using stock_kept_db[OF ok] keeps_movement_call[of "shop_db s" audit_ok seen uid p] that by simp
  then show ?thesis using ok PostMovement
    by (auto simp: create_movement_def stock_kept_refl stock_kept_bust split: sum.split prod.split)
qed

section \<open>The site\<close>

text \<open>A site serves the pages and the REST interface over one shop and one table of idempotency keys.\<close>

datatype site_request =
    Post "int \<times> user" int "bool \<times> bool" http_request page_call
  | Call api_request

fun site_step :: "(string \<Rightarrow> bool) \<Rightarrow> site_request \<Rightarrow> idem_table \<times> page_world \<Rightarrow> idem_table \<times> page_world" where
  "site_step date_ok (Post who now up rq c) st = snd (page_post date_ok who now up rq c st)"
| "site_step date_ok (Call r) (tab, s, fs) = (case api_step date_ok r (tab, s) of (tab', s') \<Rightarrow> (tab', s', fs))"

lemma stock_kept_decorated:
  assumes "stock_ok (g (snd st))" and "\<And>w. stock_ok (g w) \<Longrightarrow> stock_kept (g w) (g (snd (f w)))"
  shows "stock_kept (g (snd st)) (g (snd (snd (idempotent required now a b f rq st))))"
  using idempotent_runs[of required now a b f rq st] assms(2)[OF assms(1)] stock_kept_refl[OF assms(1)] by auto

lemma stock_kept_api:
  assumes ok: "stock_ok (snd st)" shows "stock_kept (snd st) (snd (api_step date_ok r st))"
proof (cases r)
  case (Write who now up rq c)
  show ?thesis using stock_kept_decorated[where g = id and f = "write_view date_ok (fst who) c" and st = st] ok
    by (simp add: Write api_write_def write_roles_required_def roles_required_def stock_kept_refl stock_kept_write_view)
next
  case (Read c)
  then show ?thesis using ok read_view_keeps by (simp add: stock_kept_same)
qed

lemma stock_kept_site:
  assumes k: "stock_kept s0 (fst (snd st))" shows "stock_kept s0 (fst (snd (site_step date_ok x st)))"
proof -
  have ok: "stock_ok (fst (snd st))" using k by (simp add: stock_kept_def)
  have "stock_kept (fst (snd st)) (fst (snd (site_step date_ok x st)))"
  proof (cases x)
    case (Post who now up rq c)
    show ?thesis using stock_kept_decorated[where g = fst and f = "page_view date_ok (fst who) c" and st = st] ok
      by (simp add: Post page_post_def write_roles_required_def roles_required_def stock_kept_refl stock_kept_page_view)
  next
    case (Call r)
    obtain tab s fs where "st = (tab, s, fs)" by (cases st)
    then show ?thesis using stock_kept_api[of "(tab, s)" date_ok r] ok Call by (auto split: prod.split)
  qed
  then show ?thesis using k by (rule stock_kept_trans[rotated])
qed

interpretation site: op_system "site_step date_ok" "\<lambda>st. stock_kept s0 (fst (snd st))" for date_ok s0
  by unfold_locales (rule stock_kept_site)

text \<open>C30: Stock is explained by movements on the whole site: whatever forms and interface requests are served,
  in whatever order, from whichever users, with or without idempotency keys and with failing audit inserts,
  the tables stay well formed, no product disappears, no stock is negative, and the stock of a product moves
  exactly with its recorded movements, also through receipts, reordering and the forms that break the
  on-order figures.\<close>

theorem site_keeps_stock:
  assumes "stock_ok s"
  shows "case run (site_step date_ok) reqs (tab, s, fs) of (tab', s', fs') \<Rightarrow> stock_ok s' \<and>
    (\<forall>k. product_at k (sh_catalog s) \<noteq> None \<longrightarrow> product_at k (sh_catalog s') \<noteq> None \<and>
       0 \<le> stock_of k (shop_db s') \<and>
       stock_of k (shop_db s') - stock_of k (shop_db s)
         = ledger_sum k (shop_db s') - ledger_sum k (shop_db s))"
proof -
  have b: "stock_kept s (fst (snd (run (site_step date_ok) reqs (tab, s, fs))))"
    by (rule site.inv_run) (simp add: stock_kept_refl assms)
  then have "0 \<le> stock_of k (shop_db (fst (snd (run (site_step date_ok) reqs (tab, s, fs)))))" for k
    by (intro stock_of_nonneg) (simp add: stock_kept_def stock_ok_def)
  then show ?thesis using b by (auto simp: stock_kept_def stock_gap_def split: prod.split)
qed

theorem site_keeps_stock_witness:
  "case run (site_step (\<lambda>d. True)) [Post nut_manager 0 (True, True) demo_rq (MarkOrderedForm ''20260101'' 1),
      Call (Write nut_manager 0 (True, True) demo_rq (PostMovement False (shop_db nut_shop) three_in))] ([], nut_shop, []) of
    (tab', s', fs') \<Rightarrow> stock_ok s' \<and> stock_of 1 (shop_db s') - 5 = ledger_sum 1 (shop_db s') - ledger_sum 1 (shop_db nut_shop)"
proof -
  have "product_at 1 (sh_catalog nut_shop) \<noteq> None"
    by (simp add: nut_shop_def nut_catalog_def product_at_def nut_row_def)
  moreover have "stock_ok nut_shop" using nut_books_ok by (simp add: books_ok_def stock_ok_def po_db_ok_def)
  ultimately show ?thesis using site_keeps_stock[of nut_shop "\<lambda>d. True"
      "[Post nut_manager 0 (True, True) demo_rq (MarkOrderedForm ''20260101'' 1),
      Call (Write nut_manager 0 (True, True) demo_rq (PostMovement False (shop_db nut_shop) three_in))]" "[]" "[]"] nut_stock
    by (auto split: prod.split)
qed

section \<open>Forms sent twice\<close>

text \<open>A redirect is recorded under the key of its form.\<close>

lemma redirect_recorded: "url \<noteq> [] \<Longrightarrow> recordable (redirect_to url) = Some [(''redirect'', PStr url)]"
  by (simp add: recordable_def redirect_to_def)

lemma recordable_text: "recordable (RespText t) = None"
  by (simp add: recordable_def)

definition writer :: "user \<Rightarrow> bool" where
  "writer u = (role u \<in> Some ` set WRITE_ROLES)"

definition keyed_by :: "http_request \<Rightarrow> string \<Rightarrow> bool" where
  "keyed_by rq key = (get_idempotency_key rq = Some key \<and> key \<noteq> [] \<and> length key \<le> 128)"

lemma keyed_by_user: "keyed_by rq key \<Longrightarrow> keyed (rq\<lparr>http_request.rq_user := Some uid\<rparr>) key uid"
  by (simp add: keyed_by_def keyed_def get_idempotency_key_def or_text_def)

lemma page_post_fresh:
  assumes "writer (snd who)" "keyed_by rq key" "row_of (key, fst who) tab = None"
    and "page_view date_ok (fst who) c w = (Ok v, w1)"
  shows "\<exists>tab1. page_post date_ok who now (True, True) rq c (tab, w) = (Returned v, tab1, w1) \<and>
    (recordable v = None \<longrightarrow> tab1 = tab) \<and>
    (\<forall>resp. recordable v = Some resp \<longrightarrow> sp_idempotency_check key (fst who) tab1 = Some resp)"
proof -
  let ?row = "\<lparr>ik_key = key, ik_user = fst who, ik_response = None, ik_created = now\<rparr>"
  let ?tab2 = "snd (settle now True True key (fst who) (Ok v) (tab @ [?row]))"
  have k: "keyed (rq\<lparr>http_request.rq_user := Some (fst who)\<rparr>) key (fst who)" "length key \<le> 128"
    using keyed_by_user assms(2) by (auto simp: keyed_by_def)
  have "idempotent False now True True (page_view date_ok (fst who) c)
      (rq\<lparr>http_request.rq_user := Some (fst who)\<rparr>) (tab, w) = (Ok v, ?tab2, w1)"
    using idempotent_owned[where f = "page_view date_ok (fst who) c" and w = w, OF k assms(3,4)]
    by (simp add: settle_def Let_def)
  then have "page_post date_ok who now (True, True) rq c (tab, w) = (Returned v, ?tab2, w1)"
    using assms(1) by (simp add: page_post_def writer_def write_roles_required_def roles_required_def as_outcome_def)
  moreover have "recordable v = None \<longrightarrow> ?tab2 = tab" using release_reserved[OF assms(3)] by (simp add: settle_def)
  moreover have "sp_idempotency_check key (fst who) ?tab2 = Some resp" if "recordable v = Some resp" for resp
    using that assms(3) by (simp add: settle_def check_row row_of_record row_of_snoc)
  ultimately show ?thesis by (intro exI[of _ ?tab2] conjI allI impI) simp_all
qed

definition replayed_to :: "string \<Rightarrow> view_result" where
  "replayed_to url = RespObj 302 None [(''Location'', url), (''Idempotency-Replayed'', ''true'')]"

lemma page_post_replayed:
  assumes "writer (snd who)" "keyed_by rq key"
    and "sp_idempotency_check key (fst who) tab = Some [(''redirect'', PStr url)]"
  shows "page_post date_ok who now up rq c (tab, w) = (Returned (replayed_to url), tab, w)"
proof -
  have k: "keyed (rq\<lparr>http_request.rq_user := Some (fst who)\<rparr>) key (fst who)" "length key \<le> 128"
    using keyed_by_user assms(2) by (auto simp: keyed_by_def)
  have "row_of (key, fst who) tab \<noteq> None" using assms(3)
    by (cases "row_of (key, fst who) tab") (auto simp: check_row)
  from idempotent_lost[where f = "page_view date_ok (fst who) c" and w = w, OF k this] show ?thesis using assms(1,3)
    by (simp add: page_post_def writer_def write_roles_required_def roles_required_def as_outcome_def replay_def replayed_to_def)
qed

text \<open>No request of the site touches a recorded answer.\<close>

lemma recorded_table: "fst s = fst s' \<Longrightarrow> recorded k resp s \<Longrightarrow> recorded k resp s'"
  by (simp add: recorded_def)

lemma recorded_site:
  assumes "recorded k resp st" shows "recorded k resp (site_step date_ok x st)"
proof (cases x)
  case (Post who now up rq c)
  from serve_recorded[OF assms, of "(False, now, fst up, snd up, page_view date_ok (fst who) c, rq\<lparr>http_request.rq_user := Some (fst who)\<rparr>)"]
  show ?thesis using assms
    by (simp add: Post page_post_def write_roles_required_def roles_required_def serve_def)
next
  case (Call r)
  obtain tab s fs where st: "st = (tab, s, fs)" by (cases st)
  have t: "recorded k resp (tab, s)" using assms by (simp add: st recorded_def)
  have "recorded k resp (api_step date_ok r (tab, s))"
  proof (cases r)
    case (Write who now up rq c)
    from serve_recorded[OF t, of "(False, now, fst up, snd up, write_view date_ok (fst who) c, rq\<lparr>http_request.rq_user := Some (fst who)\<rparr>)"]
    show ?thesis using t by (simp add: Write api_write_def write_roles_required_def roles_required_def serve_def)
  next
    case (Read c)
    then show ?thesis using t by (simp add: recorded_def)
  qed
  then show ?thesis by (auto simp: Call st recorded_def split: prod.split)
qed

interpretation site_memory: op_system "site_step date_ok" "recorded k resp" for date_ok k resp
  by unfold_locales (rule recorded_site)

lemma page_post_records:
  assumes "writer (snd who)" "keyed_by rq key" "row_of (key, fst who) tab = None" "distinct (map ik tab)"
    and "page_view date_ok (fst who) c w = (Ok v, w1)" "recordable v = Some resp"
  shows "\<exists>tab1. page_post date_ok who now (True, b) rq c (tab, w) = (Returned v, tab1, w1) \<and>
    recorded (key, fst who) resp (tab1, w1)"
proof -
  have k: "keyed (rq\<lparr>http_request.rq_user := Some (fst who)\<rparr>) key (fst who)" "length key \<le> 128"
    using keyed_by_user assms(2) by (auto simp: keyed_by_def)
  from idempotent_recorded[where f = "page_view date_ok (fst who) c" and w = w, OF k assms(3-6), of False now b]
  show ?thesis using assms(1)
    by (auto simp: page_post_def writer_def write_roles_required_def roles_required_def as_outcome_def)
qed

text \<open>C31: A form that was sent under a fresh key and answered with a redirect is executed once, when the statement
  that records its answer succeeds.  Then, after whatever requests the site serves in between (forms and interface calls of any users
  under any keys), every later post of the same user under the same key, as long as the user's role may
  write and whatever its fields and its page, is answered with the recorded redirect and changes nothing, neither the shop nor the key table.  The purge of
  keys older than thirty days is not among the requests.  (The REST interface does not have this property.)\<close>

theorem form_executes_once:
  assumes "writer (snd who)" "keyed_by rq key" "row_of (key, fst who) tab = None" "distinct (map ik tab)"
    and "page_view date_ok (fst who) c w = (Ok (redirect_to url), w1)" "url \<noteq> []"
  shows "\<exists>tab1. page_post date_ok who now (True, b) rq c (tab, w) = (Returned (redirect_to url), tab1, w1) \<and>
    (\<forall>reqs tab' w'. run (site_step date_ok) reqs (tab1, w1) = (tab', w') \<longrightarrow>
      (\<forall>who' now' up rq' c'. fst who' = fst who \<longrightarrow> writer (snd who') \<longrightarrow> keyed_by rq' key \<longrightarrow>
        page_post date_ok who' now' up rq' c' (tab', w') = (Returned (replayed_to url), tab', w')))"
proof -
  obtain tab1 where one: "page_post date_ok who now (True, b) rq c (tab, w) = (Returned (redirect_to url), tab1, w1)"
    and rec: "recorded (key, fst who) [(''redirect'', PStr url)] (tab1, w1)"
    using page_post_records[OF assms(1-5) redirect_recorded[OF assms(6)]] by blast
  have "page_post date_ok who' now' up rq' c' (tab', w') = (Returned (replayed_to url), tab', w')"
    if r: "run (site_step date_ok) reqs (tab1, w1) = (tab', w')" "fst who' = fst who" "writer (snd who')" "keyed_by rq' key"
    for reqs tab' w' who' now' up rq' c'
  proof -
    have "recorded (key, fst who) [(''redirect'', PStr url)] (tab', w')"
      using site_memory.inv_run[OF rec, of date_ok reqs] r(1) by simp
    then have "sp_idempotency_check key (fst who') tab' = Some [(''redirect'', PStr url)]"
      using r(2) by (auto simp: recorded_def check_row split: bind_splits)
    from page_post_replayed[OF r(3,4) this] show ?thesis .
  qed
  then show ?thesis using one by (intro exI[of _ tab1]) simp
qed

definition form_rq :: "string \<Rightarrow> http_request" where
  "form_rq k = \<lparr>rq_headers = [], rq_form = [(''idempotency_key'', k)], http_request.rq_user = None\<rparr>"

definition three_form :: form where
  "three_form = [(''product_id'', ''1''), (''type'', ''in''), (''quantity'', ''3'')]"

theorem form_executes_once_witness:
  "stock_of 1 (shop_db (fst (snd (snd (page_post (\<lambda>d. True) nut_manager 9 (True, True) (form_rq ''k'')
      (MovementForm True (shop_db nut_shop) three_form) (snd (page_post (\<lambda>d. True) nut_manager 0 (True, True) (form_rq ''k'')
        (MovementForm True (shop_db nut_shop) three_form) ([], nut_shop, [])))))))) = 8"
proof -
  let ?c = "MovementForm True (shop_db nut_shop) three_form"
  have v: "fst (movement_form True (shop_db nut_shop) 7 three_form (nut_shop, [])) = Ok (redirect_to ''/inventory'')"
    "stock_of 1 (shop_db (fst (snd (movement_form True (shop_db nut_shop) 7 three_form (nut_shop, []))))) = 8"
    by code_simp+
  obtain w1 where w1: "page_view (\<lambda>d. True) 7 ?c (nut_shop, []) = (Ok (redirect_to ''/inventory''), w1)"
    using v(1) by (simp del: split_paired_Ex) (metis prod.collapse)
  have "writer (snd nut_manager)" "keyed_by (form_rq ''k'') ''k''"
    using nut_manager_writes by (simp_all add: writer_def keyed_by_def form_rq_def get_idempotency_key_def or_text_def)
  from form_executes_once[OF this, where tab = "[]" and c = ?c and w = "(nut_shop, [])" and url = "''/inventory''" and now = 0
      and date_ok = "\<lambda>d. True" and ?w1.0 = w1 and b = True]
  obtain tab1 where one: "page_post (\<lambda>d. True) nut_manager 0 (True, True) (form_rq ''k'') ?c ([], nut_shop, [])
      = (Returned (redirect_to ''/inventory''), tab1, w1)"
    and later: "\<And>reqs tab' w'. run (site_step (\<lambda>d. True)) reqs (tab1, w1) = (tab', w') \<Longrightarrow>
       page_post (\<lambda>d. True) nut_manager 9 (True, True) (form_rq ''k'') ?c (tab', w') = (Returned (replayed_to ''/inventory''), tab', w')"
    using w1 nut_manager_writes(2) \<open>writer (snd nut_manager)\<close> \<open>keyed_by (form_rq ''k'') ''k''\<close> by (auto simp del: split_paired_All)
  have "run (site_step (\<lambda>d. True)) [] (tab1, w1) = (tab1, w1)" by simp
  from later[OF this] show ?thesis using v(2) w1 one by simp
qed

text \<open>A refused supplier form uses up its key, while a refused movement form does not.  The supplier page
  answers a refusal with a redirect, which is recorded: the corrected form under the same key is answered
  with that redirect and creates nothing, with no message.  The movement page is rendered again, and its key
  is free.\<close>

theorem refused_supplier_form_sticks:
  assumes "writer (snd who)" "keyed_by rq key" "row_of (key, fst who) tab = None"
    and "supplier_create (supplier_payload form) (sh_catalog (fst w)) = (Inl e, cat)"
    and "movement_fields form2 = Inl e2"
  shows "\<exists>tab1. page_post date_ok who now (True, True) rq (SupplierForm form) (tab, w)
      = (Returned suppliers_page, tab1, flash_msg (exc_text e) ''error'' w) \<and>
    (\<forall>now' up form' w'. page_post date_ok who now' up rq (SupplierForm form') (tab1, w')
      = (Returned (replayed_to ''/suppliers''), tab1, w')) \<and>
    page_post date_ok who now (True, True) rq (MovementForm audit_ok seen form2) (tab, w)
      = (Returned (RespText ''movement_form.html''), tab, flash_msg (exc_text e2) ''error'' w)"
proof -
  have "cat = sh_catalog (fst w)" using supplier_create_refused[OF assms(4)] .
  then have v: "page_view date_ok (fst who) (SupplierForm form) w = (Ok suppliers_page, flash_msg (exc_text e) ''error'' w)"
    using assms(4) by (simp add: suppliers_create_def on_shop_def)
  have m: "page_view date_ok (fst who) (MovementForm audit_ok seen form2) w
      = (Ok (RespText ''movement_form.html''), flash_msg (exc_text e2) ''error'' w)"
    using assms(5) by (simp add: movement_form_def)
  show ?thesis using page_post_fresh[OF assms(1-3) v, of now] page_post_fresh[OF assms(1-3) m, of now]
      page_post_replayed[OF assms(1,2)] by (auto simp: redirect_recorded recordable_text)
qed

theorem refused_supplier_form_sticks_witness:
  "\<exists>tab1. \<forall>w'. page_post (\<lambda>d. True) nut_manager 9 (True, True) (form_rq ''k'')
     (SupplierForm [(''name'', ''Acme Corp''), (''lead_days'', ''5'')]) (tab1, w') = (Returned (replayed_to ''/suppliers''), tab1, w')"
proof -
  have c: "isl (fst (supplier_create (supplier_payload [(''name'', ''A'')]) (sh_catalog nut_shop)))" by code_simp
  obtain e cat where e: "supplier_create (supplier_payload [(''name'', ''A'')]) (sh_catalog nut_shop) = (Inl e, cat)"
    using c by (metis isl_def prod.collapse)
  have m: "isl (movement_fields [(''product_id'', '''')])" by code_simp
  obtain e2 where e2: "movement_fields [(''product_id'', '''')] = Inl e2" using m by (auto simp: isl_def)
  have k: "writer (snd nut_manager)" "keyed_by (form_rq ''k'') ''k''"
    using nut_manager_writes by (simp_all add: writer_def keyed_by_def form_rq_def get_idempotency_key_def or_text_def)
  have e': "supplier_create (supplier_payload [(''name'', ''A'')]) (sh_catalog (fst (nut_shop, [] :: (string \<times> string) list)))
      = (Inl e, cat)" using e by simp
  have r: "row_of (''k'', fst nut_manager) [] = None" by simp
  obtain tab1 where "\<forall>now' up form' w'. page_post (\<lambda>d. True) nut_manager now' up (form_rq ''k'') (SupplierForm form') (tab1, w')
      = (Returned (replayed_to ''/suppliers''), tab1, w')"
    using refused_supplier_form_sticks[OF k r e' e2, of "\<lambda>d. True" 0 True "shop_db nut_shop"] by (elim exE conjE) (rule that)
  then show ?thesis by (intro exI[of _ tab1] allI) (elim allE)
qed

section \<open>Receipts without a key\<close>

definition receipt_told :: "int \<Rightarrow> flash list" where
  "receipt_told q = [Flash (''Received '' @ int_str q @ '' unit(s) for PO.'') ''success'']"

lemma receive_po_told:
  assumes "receive_po fk i (Some q) uid nts loc key db = (receipt_told q, db')"
  shows "0 < q \<and> po_service_receive fk i q uid (strip nts) (strip loc) key db = Ok db'"
  using assms unfolding receive_po_def
  by (auto simp: receipt_told_def split: if_splits sum.splits pyexc.splits)

lemma service_receive_Ok:
  assumes "po_service_receive fk i q uid nts loc key db = Ok db'"
  shows "po_receive fk i q uid nts loc key db = Ok db' \<and> uid \<in> set (user_ids db)"
  using assms unfolding po_service_receive_def bindE_Ok_iff Let_def
  by (auto simp: bindE_Ok_iff split: option.splits sum.splits pyexc.splits if_splits)

lemma receive_user_ids:
  assumes "find_order i db = Some r" "po_status r = InTransit" "Some k \<notin> gr_key ` set (receipts db)"
    "po_receive fk i q uid nts loc (Some k) db = Ok db'"
  shows "user_ids db' = user_ids db"
proof (rule receive_key_Ok[OF assms(4,1,2,3)])
  fix db1 assume "db1 = db\<lparr>next_receipt := next_receipt db + 1, receipts := receipts db @
       [\<lparr>gr_id = next_receipt db, gr_po = i, gr_quantity = q, gr_received_by = uid, gr_notes = Some nts,
         gr_location = Some loc, gr_key = Some k\<rparr>]\<rparr>" "receive_effects r q (Some uid) db1 = Ok db'"
  then show ?thesis using receive_effects_frame(2) by fastforce
qed

lemma receive_again:
  assumes ok: "po_db_ok db" and r: "find_order i db = Some r" "po_status r = InTransit"
    and new: "Some k \<notin> gr_key ` set (receipts db)" and left: "2 * q \<le> po_quantity r - po_received r"
    and told: "receive_po fk i (Some q) uid nts loc (Some k) db = (receipt_told q, db')"
  shows "receive_po fk' i (Some q) uid nts loc (Some k) db' = (receipt_told q, db') \<and>
    stock_of (po_product r) db' = stock_of (po_product r) db + q"
proof -
  have q: "0 < q" and s: "po_service_receive fk i q uid (strip nts) (strip loc) (Some k) db = Ok db'"
    using receive_po_told[OF told] by auto
  have c: "po_receive fk i q uid (strip nts) (strip loc) (Some k) db = Ok db'" and u: "uid \<in> set (user_ids db)"
    using service_receive_Ok[OF s] by auto
  note B = receive_books_facts[OF ok r new c, of fk']
  have "uid \<in> set (user_ids db')" using u receive_user_ids[OF r new c] by simp
  moreover have "po_receive fk' i q uid (strip nts) (strip loc) (Some k) db' = Ok db'"
    using B left by (simp add: Let_def)
  moreover have "find_order i db' = Some (after_receipt r q)" using B by simp
  ultimately have "po_service_receive fk' i q uid (strip nts) (strip loc) (Some k) db' = Ok db'"
    using q left by (simp add: po_service_receive_def after_receipt_def Let_def)
  then show ?thesis using q B by (simp add: receive_po_def receipt_told_def)
qed

lemma flash_all_told: "snd (flash_all fs w) = snd w @ map (\<lambda>f. case f of Flash m c \<Rightarrow> (c, m)) fs"
  unfolding flash_all_def by (induction fs arbitrary: w) (auto simp: flash_msg_def split: flash.split)

lemma told_once: "map (\<lambda>f. case f of Flash m c \<Rightarrow> (c, m)) fs = [(c', m')] \<longleftrightarrow> fs = [Flash m' c']"
  by (cases fs) (auto split: flash.splits)

lemma receive_page_eq:
  assumes "Option.bind (map_of (rq_form rq) ''quantity'') parse_int = Some q" "0 < q"
  shows "\<exists>nts loc. receive_page fk uid i rq w = (case receive_po fk i (Some q) uid nts loc (get_idempotency_key rq) (shop_db (fst w)) of
    (fs, db') \<Rightarrow> (Ok orders_page, bust_page cache_bust_purchase_orders (flash_all fs (on_shop (with_db db') w)))) \<and>
    nts = text_field rq ''notes'' \<and> loc = text_field rq ''location''"
  using assms by (simp add: receive_page_def receive_reached_def text_field_def Let_def)

text \<open>C32: Receipts without a key share one: a form whose key field was not filled sends the empty text, which the
  procedure takes for a key.  So when the same quantity of the order is received a second time, the page tells
  success again but nothing is booked: the delivery is lost.\<close>

theorem keyless_receipt_lost:
  assumes ok: "books_ok (fst w)" and key: "get_idempotency_key rq = Some []"
    and q: "Option.bind (map_of (rq_form rq) ''quantity'') parse_int = Some q" "0 < q"
    and r: "find_order i (shop_db (fst w)) = Some r" "po_status r = InTransit" "2 * q \<le> po_quantity r - po_received r"
    and new: "Some [] \<notin> gr_key ` set (receipts (sh_db (fst w)))"
    and run: "receive_page fk uid i rq w = (Ok orders_page, w1)"
    and told: "snd w1 = snd w @ [(''success'', ''Received '' @ int_str q @ '' unit(s) for PO.'')]"
  shows "stock_of (po_product r) (shop_db (fst w1)) = stock_of (po_product r) (shop_db (fst w)) + q \<and>
    (\<exists>w2. receive_page fk' uid i rq w1 = (Ok orders_page, w2) \<and> shop_db (fst w2) = shop_db (fst w1) \<and>
      snd w2 = snd w1 @ [(''success'', ''Received '' @ int_str q @ '' unit(s) for PO.'')])"
proof -
  let ?n = "text_field rq ''notes''" and ?l = "text_field rq ''location''" and ?db = "shop_db (fst w)"
  obtain fs db' where p: "receive_po fk i (Some q) uid ?n ?l (Some []) ?db = (fs, db')" by (rule prod.exhaust)
  have w1: "w1 = bust_page cache_bust_purchase_orders (flash_all fs (on_shop (with_db db') w))"
    using run receive_page_eq[OF q, of fk uid i w] p key by simp
  then have "fs = receipt_told q" using told
    by (simp add: flash_all_told told_once receipt_told_def bust_page_def on_shop_def)
  then have first: "receive_po fk i (Some q) uid ?n ?l (Some []) ?db = (receipt_told q, db')" using p by simp
  have po: "po_db_ok ?db" using ok by (simp add: books_ok_def)
  have "Some [] \<notin> gr_key ` set (receipts ?db)" using new by (simp add: shop_db_def)
  note again = receive_again[OF po r(1,2) this r(3) first]
  have so: "stock_ok (fst w)" using ok by (simp add: books_ok_def stock_ok_def po_db_ok_def)
  have keeps: "keeps_stock ?db db'" using keeps_receive_po[of ?db fk i "Some q" uid ?n ?l "Some []"] first by simp
  have "inv_db_ok db'" using keeps so unfolding keeps_stock_def stock_ok_def by blast
  then have d: "distinct (map prod_id (products db'))" unfolding inv_db_ok_def by blast
  have "levels_only ?db db'" using keeps unfolding keeps_stock_def by blast
  then have s1: "shop_db (fst w1) = db'" using shop_db_with[OF _ d, of "fst w"] by (simp add: w1)
  have "stock_ok (fst w1)" using stock_kept_db[OF so keeps] by (simp add: w1 stock_kept_def stock_ok_def)
  then have same: "with_db db' (fst w1) = fst w1"
    using with_db_same[of "fst w1"] s1 by (simp add: stock_ok_def catalog_ok_def)
  let ?w2 = "bust_page cache_bust_purchase_orders (flash_all (receipt_told q) (on_shop (with_db db') w1))"
  have "receive_page fk' uid i rq w1 = (Ok orders_page, ?w2)"
    using receive_page_eq[OF q, of fk' uid i w1] again key by (simp add: s1)
  moreover have "shop_db (fst ?w2) = shop_db (fst w1)" by (simp add: same)
  moreover have "snd ?w2 = snd w1 @ [(''success'', ''Received '' @ int_str q @ '' unit(s) for PO.'')]"
    by (simp add: bust_page_def flash_all_told on_shop_def receipt_told_def)
  moreover have "stock_of (po_product r) (shop_db (fst w1)) = stock_of (po_product r) (shop_db (fst w)) + q"
    using again s1 by simp
  ultimately show ?thesis by (intro conjI exI[of _ ?w2])
qed

text \<open>A shop that expects eight nuts.\<close>

definition waiting_shop :: page_world where
  "waiting_shop = (nut_shop\<lparr>sh_catalog := (sh_catalog nut_shop)\<lparr>product_rows := [nut_row\<lparr>pr_on_order := 8\<rparr>]\<rparr>,
     sh_db := (sh_db nut_shop)\<lparr>orders := [demo_order], next_po := 2\<rparr>\<rparr>, [])"

definition keyless_rq :: http_request where
  "keyless_rq = \<lparr>rq_headers = [], rq_form = [(''quantity'', ''3''), (''idempotency_key'', '''')], http_request.rq_user = None\<rparr>"

lemma waiting_shop_ok: "books_ok (fst waiting_shop)"
proof -
  have rows: "products (shop_db (fst waiting_shop)) = [stock_view (nut_row\<lparr>pr_on_order := 8\<rparr>)]"
    by (simp add: waiting_shop_def)
  have rest: "orders (shop_db (fst waiting_shop)) = [demo_order]" "movements (shop_db (fst waiting_shop)) = []"
    "next_po (shop_db (fst waiting_shop)) = 2"
    by (simp_all add: waiting_shop_def nut_shop_def shop_def)
  have "po_db_ok (shop_db (fst waiting_shop))" unfolding po_db_ok_def inv_db_ok_def phantom_def outstanding_def
      on_order_of_def find_product_def rows rest
    by (simp add: stock_view_def nut_row_def demo_order_def order_ok_def contrib_def is_open_def find_row_def)
  moreover have "catalog_ok (sh_catalog (fst waiting_shop))"
    by (simp add: waiting_shop_def nut_shop_def catalog_ok_def nut_catalog_def no_catalog_def unique_live_def nut_row_def
        product_row_ok_def at_least0_def supplier_known_def)
  ultimately show ?thesis by (simp add: books_ok_def)
qed

theorem keyless_receipt_lost_witness:
  "case receive_page ''a'' 7 1 keyless_rq waiting_shop of (r, w1) \<Rightarrow> case receive_page ''b'' 7 1 keyless_rq w1 of (r, w2) \<Rightarrow>
     stock_of 1 (shop_db (fst w1)) = 8 \<and> shop_db (fst w2) = shop_db (fst w1) \<and>
     snd w2 = [(''success'', ''Received 3 unit(s) for PO.''), (''success'', ''Received 3 unit(s) for PO.'')]"
proof -
  let ?r = "receive_page ''a'' 7 1 keyless_rq waiting_shop"
  have run: "snd (snd ?r) = [(''success'', ''Received 3 unit(s) for PO.'')]"
    "stock_of 1 (shop_db (fst waiting_shop)) = 5"
    by code_simp+
  have "fst ?r = Ok orders_page" by (simp add: receive_page_def Let_def split: prod.split)
  then obtain w1 where r: "?r = (Ok orders_page, w1)" by (cases ?r) auto
  have n: "int_str 3 = ''3''" by code_simp
  have q: "Option.bind (map_of (rq_form keyless_rq) ''quantity'') parse_int = Some 3" by code_simp
  have k: "get_idempotency_key keyless_rq = Some []" by (simp add: get_idempotency_key_def keyless_rq_def or_text_def)
  have o: "find_order 1 (shop_db (fst waiting_shop)) = Some demo_order"
    by (simp add: find_order_def waiting_shop_def find_row_def demo_order_def)
  have "Some [] \<notin> gr_key ` set (receipts (sh_db (fst waiting_shop)))" by (simp add: waiting_shop_def nut_shop_def shop_def)
  from keyless_receipt_lost[OF waiting_shop_ok k q _ o _ _ this r, of "''b''"]
  moreover have "snd waiting_shop = []" by (simp add: waiting_shop_def)
  ultimately show ?thesis using run by (auto simp: r n demo_order_def)
qed

end
