(* ===== verification/PageReads.thy ===== *)
theory PageReads
  imports Pages
begin

text \<open>The pages of \<open>app/routes/ui.py\<close> that read the shop of theory Api through its caches: the inventory, the
  reorder queue, the suppliers, the movement ledger and the order board.\<close>

section \<open>Reading through a named cache\<close>

definition cached_in ::
  "cache_name \<Rightarrow> clock \<Rightarrow> string \<Rightarrow> api_value result \<Rightarrow> shop_state \<Rightarrow> api_value result \<times> shop_state" where
  "cached_in m ts k producer s = (case ts of (t1, t2, t3) \<Rightarrow>
     case cache_get_or_set t1 t2 t3 k producer (cache_of m (sh_caches s)) of (r, c) \<Rightarrow>
       (r, s\<lparr>sh_caches := with_cache m c (sh_caches s)\<rparr>))"

text \<open>The orders of the queries, and the user names.\<close>

record page_env =
  pe_by_sku :: "product_row list \<Rightarrow> product_row list"
  pe_by_gap :: "product_row list \<Rightarrow> product_row list"
  pe_by_name :: "supplier_row list \<Rightarrow> supplier_row list"
  pe_newest :: "movement list \<Rightarrow> movement list"
  pe_by_text :: "string list \<Rightarrow> string list"
  pe_by_created :: "purchase_order list \<Rightarrow> purchase_order list"
  pe_by_received :: "goods_receipt list \<Rightarrow> goods_receipt list"
  pe_user_name :: "int \<Rightarrow> string option"
  pe_pcts :: "(real \<times> real) result"

section \<open>Inventory\<close>

definition inventory_args :: "query_args \<Rightarrow> list_query" where
  "inventory_args args = \<lparr>lq_search = strip (arg_text args ''search'' []), lq_category = strip (arg_text args ''category'' []),
     lq_warehouse = strip (arg_text args ''warehouse'' []), lq_status = strip (arg_text args ''stock_status'' [])\<rparr>"

definition inventory_key :: "list_query \<Rightarrow> int \<Rightarrow> string" where
  "inventory_key q page = make_key [(''view'', KStr ''inventory''), (''search'', KStr (lq_search q)),
     (''category'', KStr (lq_category q)), (''warehouse'', KStr (lq_warehouse q)),
     (''stock_status'', KStr (lq_status q)), (''page'', KInt page), (''per_page'', KInt 20)]"

definition inventory_load :: "page_env \<Rightarrow> list_query \<Rightarrow> int \<Rightarrow> catalog \<Rightarrow> api_value result" where
  "inventory_load env q page cat =
     bindE (sql_int (PInt ((page - 1) * 20))) (\<lambda>_.
     Ok (AInventory (list_products (pe_by_sku env) (pe_pcts env) q page 20 cat) (categories (pe_by_text env) cat)
       (warehouses (pe_by_text env) cat)))"

definition selected :: "string \<Rightarrow> string list" where
  "selected t = filter (\<lambda>c. c \<noteq> []) (split_on CHR '','' t)"

text \<open>A page number that is no integer raises before anything is read.\<close>

definition inventory ::
  "page_env \<Rightarrow> clock \<Rightarrow> query_args \<Rightarrow> shop_state \<Rightarrow> (api_value \<times> string list \<times> string list) result \<times> shop_state" where
  "inventory env ts args s =
     (case to_int (case map_of args ''page'' of None \<Rightarrow> PInt 1 | Some t \<Rightarrow> PStr t) of
        Inl e \<Rightarrow> (Err e, s)
      | Inr n \<Rightarrow>
          let page = max 1 n; q = inventory_args args in
          case cached_in Products ts (inventory_key q page) (inventory_load env q page (sh_catalog s)) s of
            (r, s') \<Rightarrow> (bindE r (\<lambda>v. Ok (v, selected (lq_category q), selected (lq_warehouse q))), s'))"

text \<open>The export: one row per product, with the empty text for what is missing.\<close>

definition export_row :: "catalog \<Rightarrow> product_row \<Rightarrow> string \<times> string \<times> string \<times> string \<times> int \<times> int \<times> real \<times> string" where
  "export_row cat r = (let text = (\<lambda>v. case v of None \<Rightarrow> [] | Some t \<Rightarrow> t) in
     (pr_sku r, pr_name r, text (pr_category r), text (pr_warehouse r), pr_stock r, pr_reorder r,
      amount (pr_price r), text (supplier_name_of cat r)))"

definition inventory_export ::
  "page_env \<Rightarrow> query_args \<Rightarrow> shop_state \<Rightarrow> (string \<times> string \<times> string \<times> string \<times> int \<times> int \<times> real \<times> string) list" where
  "inventory_export env args s =
     map (export_row (sh_catalog s) \<circ> fst) (sp_product_list (pe_by_sku env)
       \<lparr>lq_search = arg_text args ''search'' [], lq_category = arg_text args ''category'' [],
        lq_warehouse = [], lq_status = []\<rparr> 5000 0 (sh_catalog s))"

definition product_detail ::
  "page_env \<Rightarrow> int \<Rightarrow> page_world \<Rightarrow> (decorated \<times> movement list) option result \<times> page_world" where
  "product_detail env i w = (case product_by_id i (fst w) of
       Inl e \<Rightarrow> (Err e, w)
     | Inr None \<Rightarrow> (Ok None, flash_msg ''Product not found'' ''error'' w)
     | Inr (Some r) \<Rightarrow> (Ok (Some (decorate (pe_pcts env) r,
         take 10 (pe_newest env (filter (\<lambda>m. mv_product m = i \<and> \<not> mv_deleted m) (movements (sh_db (fst w))))))), w))"

definition reorder_alerts :: "page_env \<Rightarrow> clock \<Rightarrow> shop_state \<Rightarrow> api_value result \<times> shop_state" where
  "reorder_alerts env ts s = cached_in Products ts ''reorder_alerts''
     (let alerts = low_stock (pe_by_gap env) (pe_pcts env) (sh_catalog s)
      in Ok (AAlerts alerts (length (filter (\<lambda>a. decorated.status a = ''critical'') alerts)))) s"

definition suppliers_list :: "page_env \<Rightarrow> clock \<Rightarrow> shop_state \<Rightarrow> api_value result \<times> shop_state" where
  "suppliers_list env ts s = cached_in Suppliers ts ''list_all'' (Ok (ASuppliers (supplier_list (pe_by_name env) (sh_catalog s)))) s"

section \<open>The movement ledger\<close>

text \<open>A parameter that is no integer is told and treated as absent.\<close>

definition told_int :: "query_args \<Rightarrow> string \<Rightarrow> int option \<times> (string \<times> string) list" where
  "told_int args k = (case text_or_none args k of None \<Rightarrow> (None, [])
     | Some t \<Rightarrow> (case parse_int t of Some i \<Rightarrow> (Some i, [])
         | None \<Rightarrow> (None, [(''error'', k @ '' must be an integer'')])))"

definition int_or_zero :: "int option \<Rightarrow> int" where
  "int_or_zero v = (case v of None \<Rightarrow> 0 | Some i \<Rightarrow> i)"

definition text_or_empty :: "string option \<Rightarrow> string" where
  "text_or_empty v = (case v of None \<Rightarrow> [] | Some t \<Rightarrow> t)"

definition allowed_sort :: "query_args \<Rightarrow> string \<times> string" where
  "allowed_sort args = (case sort_args args of (by, dir) \<Rightarrow>
     (if by \<in> {''created_at'', ''type'', ''product'', ''user'', ''quantity''} then by else ''created_at'',
      if dir = ''asc'' \<or> dir = ''desc'' then dir else ''desc''))"

definition movements_key :: "movement_filter \<Rightarrow> string \<times> string \<Rightarrow> int \<Rightarrow> int \<Rightarrow> string" where
  "movements_key f so page per_page = make_key [(''prefix'', KStr ''movements''),
     (''type'', KStr (case mf_types f of None \<Rightarrow> [] | Some ts \<Rightarrow> joins '','' ts)),
     (''date_from'', KStr (text_or_empty (mf_from f))), (''date_to'', KStr (text_or_empty (mf_to f))),
     (''product_id'', KInt (int_or_zero (mf_product f))), (''user_id'', KInt (int_or_zero (mf_user f))),
     (''sort_by'', KStr (fst so)), (''sort_order'', KStr (snd so)), (''page'', KInt page), (''per_page'', KInt per_page)]"

definition ledger_load ::
  "sql_env \<Rightarrow> movement_filter \<Rightarrow> string \<times> string \<Rightarrow> int \<Rightarrow> int \<Rightarrow> po_db \<Rightarrow> api_value result" where
  "ledger_load env f so page per_page db =
     bindE (movement_rows env f page per_page so db) (\<lambda>rows.
     bindE (get_movement_count (iso_ok env) (day_of env) f db) (\<lambda>n.
     Ok (AMoves rows n page per_page (page_count n per_page))))"

record ledger_view =
  lg_result :: api_value
  lg_filter :: movement_filter
  lg_sort :: "string \<times> string"
  lg_export_product :: "int option"

text \<open>The export link resolves a search text to a product: the first row the query answers.\<close>

definition export_product :: "query_args \<Rightarrow> int option \<Rightarrow> catalog \<Rightarrow> int option" where
  "export_product args pid cat =
     (let term = strip (arg_text args ''product'' []) in
      if term = [] \<or> (pid \<noteq> None \<and> pid \<noteq> Some 0) then pid
      else (case find_row (\<lambda>r. ilike_any (Some (pr_sku r)) term \<or> ilike_any (Some (pr_name r)) term) (product_rows cat) of
          Some r \<Rightarrow> Some (pr_id r) | None \<Rightarrow> pid))"

definition ledger_page ::
  "sql_env \<Rightarrow> clock \<Rightarrow> query_args \<Rightarrow> page_world \<Rightarrow> ledger_view result \<times> page_world" where
  "ledger_page env ts args w =
     (let (pid, m1) = told_int args ''product_id''; (uid, m2) = told_int args ''user_id'';
          (pg, m3) = told_int args ''page''; (pp, m4) = told_int args ''per_page'';
          f = \<lparr>mf_types = type_args args, mf_from = text_or_none args ''date_from'', mf_to = text_or_none args ''date_to'',
            mf_product = pid, mf_user = uid\<rparr>;
          page = (case pg of None \<Rightarrow> 1 | Some n \<Rightarrow> n); per_page = page_size pp; so = allowed_sort args
      in case cached_in Api ts (movements_key f so page per_page) (ledger_load env f so page per_page (shop_db (fst w))) (fst w) of
          (r, s') \<Rightarrow> (bindE r (\<lambda>v. Ok \<lparr>lg_result = v, lg_filter = f, lg_sort = so,
             lg_export_product = export_product args pid (sh_catalog s')\<rparr>), (s', snd w @ m1 @ m2 @ m3 @ m4)))"

section \<open>The order board\<close>

definition board_of :: "catalog \<Rightarrow> purchase_order \<Rightarrow> board_row" where
  "board_of cat p = \<lparr>br_order = p,
     br_supplier = map_option su_name (find_row (\<lambda>s. su_id s = po_supplier p) (supplier_rows cat)),
     br_product = map_option pr_name (product_at (po_product p) cat),
     br_sku = map_option pr_sku (product_at (po_product p) cat)\<rparr>"

text \<open>Inner joins: a receipt is shown when its order, product, supplier and user are there.\<close>

definition receipt_of :: "page_env \<Rightarrow> shop_state \<Rightarrow> goods_receipt \<Rightarrow> receipt_row option" where
  "receipt_of env s g =
     Option.bind (find_row (\<lambda>p. po_id p = gr_po g) (orders (sh_db s))) (\<lambda>p.
     Option.bind (product_at (po_product p) (sh_catalog s)) (\<lambda>r.
     Option.bind (find_row (\<lambda>u. su_id u = po_supplier p) (supplier_rows (sh_catalog s))) (\<lambda>u.
     Option.bind (pe_user_name env (gr_received_by g)) (\<lambda>n.
     Some \<lparr>rr_receipt = g, rr_number = po_number p, rr_product = pr_name r, rr_sku = pr_sku r,
       rr_supplier = su_name u, rr_user = n\<rparr>))))"

definition board_load :: "page_env \<Rightarrow> shop_state \<Rightarrow> po_board" where
  "board_load env s =
     (let cat = sh_catalog s; os = filter (\<lambda>p. \<not> po_deleted p) (orders (sh_db s));
          rows = map (board_of cat) (pe_by_created env os);
          column = (\<lambda>st. filter (\<lambda>b. po_status (br_order b) = st) rows)
      in \<lparr>bd_suppliers = map (\<lambda>u. (su_id u, su_name u)) (pe_by_name env (supplier_rows cat)),
          bd_products = map (\<lambda>r. (pr_id r, pr_sku r, pr_name r)) (pe_by_sku env (product_rows cat)),
          bd_counts = map (\<lambda>st. (st, length (filter (\<lambda>p. po_status p = st) os))) (remdups (map po_status os)),
          bd_draft = column Draft, bd_approved = column Approved, bd_in_transit = column InTransit,
          bd_received = column Received,
          bd_receipts = take 50 (List.map_filter (receipt_of env s) (pe_by_received env (receipts (sh_db s))))\<rparr>)"

definition order_board :: "page_env \<Rightarrow> clock \<Rightarrow> shop_state \<Rightarrow> api_value result \<times> shop_state" where
  "order_board env ts s = cached_in Api ts ''purchase_orders:board'' (Ok (ABoard (board_load env s))) s"

section \<open>Forms are read\<close>

lemma cached_in_miss:
  assumes "\<And>t. cache_lookup (cache_of m (sh_caches s)) t k = None"
  shows "fst (cached_in m ts k p s) = p"
proof -
  obtain t1 t2 t3 where ts: "ts = (t1, t2, t3)" by (cases ts)
  have "cache_lookup (cache_touch t1 k (cache_of m (sh_caches s))) t2 k = None"
    using assms by (intro lookup_touch_same)
  then show ?thesis using assms by (simp add: cached_in_def ts get_or_set_alt split: prod.split sum.split)
qed

text \<open>A busted shop: some bust function that clears the product cache ran last on the caches.\<close>

definition product_bust :: "(api_value caches \<Rightarrow> nat \<times> api_value caches) \<Rightarrow> bool" where
  "product_bust b = (b = cache_bust_products \<or> b = cache_bust_movements \<or> b = cache_bust_purchase_orders)"

lemma product_bust_clears:
  "product_bust b \<Longrightarrow> cache_lookup (products_cache (sh_caches (with_bust b s))) t k = None"
  using busts_lookup[of Products _ "sh_caches s" t k]
  by (auto simp: product_bust_def with_bust_def cache_bust_products_def cache_bust_movements_def
      cache_bust_purchase_orders_def)

definition cleared :: "(api_value caches \<Rightarrow> nat \<times> api_value caches) \<Rightarrow> page_world \<Rightarrow> bool" where
  "cleared b w = (\<exists>s. fst w = with_bust b s)"

fun bust_of :: "page_call \<Rightarrow> api_value caches \<Rightarrow> nat \<times> api_value caches" where
  "bust_of (ProductForm seen pid form) = cache_bust_products"
| "bust_of (DeleteProductForm i) = cache_bust_products"
| "bust_of (MovementForm audit_ok seen form) = cache_bust_movements"
| "bust_of _ = cache_bust_purchase_orders"

lemma cleared_simps [simp]:
  "cleared b (flash_msg m c w) = cleared b w" "cleared b (bust_page b w)"
  "cleared b (flash_all fs w) = cleared b w"
  by (auto simp: cleared_def)

lemma product_bust_of [simp]: "product_bust (bust_of c)"
  by (cases c) (simp_all add: product_bust_def)

definition tables :: "page_world \<Rightarrow> catalog \<times> po_db" where
  "tables w = (sh_catalog (fst w), sh_db (fst w))"

lemma tables_simps [simp]:
  "tables (flash_msg m c w) = tables w" "tables (bust_page b w) = tables w" "tables (flash_all fs w) = tables w"
  by (simp_all add: tables_def)

lemma on_shop_same: "stock_ok (fst w) \<Longrightarrow> on_shop (with_db (shop_db (fst w))) w = w"
  by (simp add: on_shop_def with_db_same stock_ok_def catalog_ok_def)

lemma refused_movement:
  "movement_call True seen uid p db = (Inl e, db') \<Longrightarrow> db' = db"
  by (cases rule: movement_call_cases[of True seen uid p db]) auto

lemma refused_status: "update_po_status i st db = (Inr fs, db') \<Longrightarrow> told_success fs \<or> db' = db"
  by (auto simp: update_po_status_def told_success_def split: option.splits if_splits sum.splits pyexc.splits)

lemma refused_receive:
  "receive_po fk i q uid nts loc key db = (fs, db') \<Longrightarrow> receive_reached i q db \<or> db' = db"
  by (auto simp: receive_po_def receive_reached_def Let_def split: option.splits if_splits)

definition told_or_same :: "po_db \<Rightarrow> flash list result \<times> po_db \<Rightarrow> bool" where
  "told_or_same db x = (case fst x of Inl e \<Rightarrow> True | Inr fs \<Rightarrow> told_success fs \<or> snd x = db)"

lemma told_branches:
  "(\<And>x. told_or_same db (f x)) \<Longrightarrow> told_or_same db (let x = v in f x)"
  "told_or_same db a \<Longrightarrow> told_or_same db b \<Longrightarrow> told_or_same db (if c then a else b)"
  "(\<And>e. r = Inl e \<Longrightarrow> told_or_same db (g e)) \<Longrightarrow> (\<And>x. r = Inr x \<Longrightarrow> told_or_same db (h x)) \<Longrightarrow>
   told_or_same db (case r of Inl e \<Rightarrow> g e | Inr x \<Rightarrow> h x)"
  "told_or_same db (q, db)"
  by (simp, simp, cases r, simp_all add: told_or_same_def split: sum.split)

lemma refused_order_form: "told_or_same db (purchase_orders_create date_ok today_iso num form db)"
  unfolding purchase_orders_create_def
  by (intro told_branches) (auto simp: told_or_same_def told_success_def split: pyexc.split prod.split)

lemma answered:
  assumes ok: "stock_ok (fst w)" and x: "told_or_same (shop_db (fst w)) x" and a: "order_answer x w = (Ok v, w')"
  shows "cleared cache_bust_purchase_orders w' \<or> tables w' = tables w"
proof -
  obtain fs db where xf: "x = (Inr fs, db)" using a by (cases x; cases "fst x") (auto simp: order_answer_def)
  show ?thesis
  proof (cases "told_success fs")
    case True then show ?thesis using a xf by (auto simp: order_answer_def)
  next
    case False
    then have "db = shop_db (fst w)" using x xf by (simp add: told_or_same_def)
    then show ?thesis using a xf False ok by (auto simp: order_answer_def on_shop_same)
  qed
qed

definition audited_form :: "page_call \<Rightarrow> bool" where
  "audited_form c = (case c of MovementForm audit_ok seen form \<Rightarrow> audit_ok | _ \<Rightarrow> True)"

definition supplier_call :: "page_call \<Rightarrow> bool" where
  "supplier_call c = (case c of SupplierForm form \<Rightarrow> True | DeleteSupplierForm i \<Rightarrow> True | _ \<Rightarrow> False)"

lemma on_catalog_same: "cat = sh_catalog (fst w) \<Longrightarrow> on_shop (\<lambda>s. s\<lparr>sh_catalog := cat\<rparr>) w = w"
  by (cases w) (simp add: on_shop_def)

lemma product_form_clears:
  "product_form seen pid form w = (Ok v, w') \<Longrightarrow> cleared cache_bust_products w' \<or> tables w' = tables w"
  by (auto simp: product_form_def Let_def bindE_Err_iff on_catalog_same split: sum.splits option.splits prod.splits if_splits
      dest!: product_create_refused product_update_refused)

lemma page_view_clears:
  assumes ok: "stock_ok (fst w)" and c: "audited_form c" "\<not> supplier_call c" and v: "page_view date_ok uid c w = (Ok v, w')"
  shows "cleared (bust_of c) w' \<or> tables w' = tables w"
proof (cases c)
  case (ProductForm seen pid form) then show ?thesis using v product_form_clears by simp
next
  case (DeleteProductForm i) then show ?thesis using v by (auto simp: delete_product_page_def split: sum.splits)
next
  case (SupplierForm form) then show ?thesis using c by (simp add: supplier_call_def)
next
  case (DeleteSupplierForm i) then show ?thesis using c by (simp add: supplier_call_def)
next
  case (MovementForm audit_ok seen form)
  then have "audit_ok" using c by (simp add: audited_form_def)
  then show ?thesis using v ok MovementForm
    by (auto simp: movement_form_def Let_def on_shop_same split: sum.splits prod.splits dest!: refused_movement)
next
  case (OrderForm t n form)
  then show ?thesis using v answered[OF ok refused_order_form] by (simp add: order_create_page_def)
next
  case (OrderStatusForm i form)
  have T: "told_or_same db (update_po_status i st db)" for st db
    using refused_status[of i st db] by (cases "update_po_status i st db") (auto simp: told_or_same_def split: sum.split)
  show ?thesis using v answered[OF ok T] OrderStatusForm
    by (auto simp: order_status_page_def split: option.splits if_splits)
next
  case (ReceiveForm fresh i rq)
  then show ?thesis using v ok
    by (auto simp: receive_page_def Let_def on_shop_same split: prod.splits if_splits dest: refused_receive)
next
  case (AutoDraftForm on d low crit)
  then show ?thesis using v by (auto simp: auto_draft_page_def Let_def split: if_splits prod.splits sum.splits)
next
  case (MarkOrderedForm d i)
  then show ?thesis using v by (auto simp: mark_ordered_page_def Let_def split: sum.splits option.splits)
qed

text \<open>What the database answers the inventory and the reorder page.\<close>

definition inventory_answer ::
  "page_env \<Rightarrow> query_args \<Rightarrow> catalog \<Rightarrow> (api_value \<times> string list \<times> string list) result" where
  "inventory_answer env args cat =
     bindE (to_int (case map_of args ''page'' of None \<Rightarrow> PInt 1 | Some t \<Rightarrow> PStr t)) (\<lambda>n.
     let q = inventory_args args in
     bindE (inventory_load env q (max 1 n) cat) (\<lambda>v. Ok (v, selected (lq_category q), selected (lq_warehouse q))))"

definition alerts_answer :: "page_env \<Rightarrow> catalog \<Rightarrow> api_value" where
  "alerts_answer env cat = (let alerts = low_stock (pe_by_gap env) (pe_pcts env) cat
     in AAlerts alerts (length (filter (\<lambda>a. decorated.status a = ''critical'') alerts)))"

lemma fst_answer: "fst (case x of (r, s') \<Rightarrow> (f r, s')) = f (fst x)"
  by (cases x) simp

lemma cleared_inventory:
  assumes "cleared b w" "product_bust b"
  shows "fst (inventory env ts args (fst w)) = inventory_answer env args (sh_catalog (fst w))"
    and "fst (reorder_alerts env ts (fst w)) = Ok (alerts_answer env (sh_catalog (fst w)))"
proof -
  have miss: "cache_lookup (cache_of Products (sh_caches (fst w))) t k = None" for t k
    using assms product_bust_clears by (auto simp: cleared_def)
  note read = cached_in_miss[where m = Products and s = "fst w", OF miss]
  show "fst (inventory env ts args (fst w)) = inventory_answer env args (sh_catalog (fst w))"
    unfolding inventory_def inventory_answer_def
    by (cases "to_int (case map_of args ''page'' of None \<Rightarrow> PInt 1 | Some t \<Rightarrow> PStr t)") (simp_all add: fst_answer read Let_def)
  show "fst (reorder_alerts env ts (fst w)) = Ok (alerts_answer env (sh_catalog (fst w)))"
    unfolding reorder_alerts_def read alerts_answer_def by (simp add: Let_def)
qed

lemma cleared_board:
  assumes "cleared cache_bust_purchase_orders w"
  shows "fst (order_board env ts (fst w)) = Ok (ABoard (board_load env (fst w)))"
proof -
  have "cache_lookup (cache_of Api (sh_caches (fst w))) t ''purchase_orders:board'' = None" for t
    using assms by (auto simp: cleared_def with_bust_def cache_bust_purchase_orders_def api_lookup_busts)
  from cached_in_miss[where m = Api and s = "fst w", OF this] show ?thesis by (simp add: order_board_def)
qed

text \<open>The filter, page and order a request to the ledger asks for, and its messages.\<close>

definition ledger_request ::
  "query_args \<Rightarrow> movement_filter \<times> int \<times> int" where
  "ledger_request args = (\<lparr>mf_types = type_args args, mf_from = text_or_none args ''date_from'',
     mf_to = text_or_none args ''date_to'', mf_product = fst (told_int args ''product_id''),
     mf_user = fst (told_int args ''user_id'')\<rparr>,
     (case fst (told_int args ''page'') of None \<Rightarrow> 1 | Some n \<Rightarrow> n), page_size (fst (told_int args ''per_page'')))"

definition ledger_key :: "query_args \<Rightarrow> string" where
  "ledger_key args = (case ledger_request args of (f, page, per_page) \<Rightarrow> movements_key f (allowed_sort args) page per_page)"

definition ledger_rows :: "sql_env \<Rightarrow> query_args \<Rightarrow> po_db \<Rightarrow> api_value result" where
  "ledger_rows env args db = (case ledger_request args of (f, page, per_page) \<Rightarrow>
     ledger_load env f (allowed_sort args) page per_page db)"

lemma ledger_page_alt:
  "fst (ledger_page env ts args w) = bindE (fst (cached_in Api ts (ledger_key args) (ledger_rows env args (shop_db (fst w))) (fst w)))
     (\<lambda>v. Ok \<lparr>lg_result = v, lg_filter = fst (ledger_request args), lg_sort = allowed_sort args,
       lg_export_product = export_product args (mf_product (fst (ledger_request args))) (sh_catalog (fst w))\<rparr>)"
  by (simp add: ledger_page_def ledger_key_def ledger_rows_def ledger_request_def Let_def split_beta cached_in_def)

lemma movements_key_prefix: "\<exists>k. movements_key f so page per_page = ''movements:'' @ k"
  by (simp add: movements_key_def make_key_def Let_def)

lemma ledger_key_prefix: obtains k where "ledger_key args = ''movements:'' @ k"
proof -
  obtain f p pp where "ledger_request args = (f, p, pp)" by (metis prod_cases3)
  then show ?thesis using movements_key_prefix[of f "allowed_sort args" p pp] that by (auto simp: ledger_key_def)
qed

lemma cleared_ledger:
  assumes "cleared cache_bust_movements w"
  shows "fst (ledger_page env ts args w) = bindE (ledger_rows env args (shop_db (fst w)))
     (\<lambda>v. Ok \<lparr>lg_result = v, lg_filter = fst (ledger_request args), lg_sort = allowed_sort args,
       lg_export_product = export_product args (mf_product (fst (ledger_request args))) (sh_catalog (fst w))\<rparr>)"
proof -
  obtain k where k: "ledger_key args = ''movements:'' @ k" by (rule ledger_key_prefix)
  have "cache_lookup (cache_of Api (sh_caches (fst w))) t (ledger_key args) = None" for t
    using assms by (auto simp: k cleared_def with_bust_def cache_bust_movements_def api_lookup_busts)
  from cached_in_miss[where m = Api and s = "fst w", OF this] show ?thesis by (simp add: ledger_page_alt)
qed

text \<open>A movement form whose audit insert fails never busts a cache, although the movement may be booked by then.\<close>

lemma unaudited_never_Ok: "isl (fst (movement_call False seen uid p db))"
  by (auto simp: movement_call_def record_movement_def Let_def split: sum.splits prod.splits option.splits pyexc.splits if_splits)

theorem unaudited_form_unread: "sh_caches (fst (snd (movement_form False seen uid form w))) = sh_caches (fst w)"
proof (cases "movement_fields form")
  case (Inr p)
  obtain r db where m: "movement_call False seen uid p (shop_db (fst w)) = (r, db)" by (cases "movement_call False seen uid p (shop_db (fst w))")
  then have "isl r" using unaudited_never_Ok[of seen uid p "shop_db (fst w)"] by simp
  then show ?thesis using Inr m
    by (auto simp: movement_form_def Let_def isl_def flash_msg_def on_shop_def with_db_def)
qed (simp add: movement_form_def flash_msg_def)

text \<open>C33: On well-formed tables, a form that was answered (its handler raised nothing) and that changed products, stock, movements or
  orders is seen at once: the inventory page, with any filter and page number, and the reorder queue answer from
  the tables as the form left them, the movement ledger does after a movement form, with any filter, and the
  order board after an order form.  Supplier forms are not covered, nor is a movement form whose audit insert
  fails: it busts no cache, whatever it booked (\<open>unaudited_form_unread\<close>).\<close>

theorem forms_are_read:
  assumes "stock_ok (fst w)" "audited_form c" "\<not> supplier_call c"
    and "page_view date_ok uid c w = (Ok v, w')" "tables w' \<noteq> tables w"
  shows "fst (inventory env ts args (fst w')) = inventory_answer env args (sh_catalog (fst w')) \<and>
    fst (reorder_alerts env ts (fst w')) = Ok (alerts_answer env (sh_catalog (fst w'))) \<and>
    (case c of ProductForm seen pid form \<Rightarrow> True | DeleteProductForm i \<Rightarrow> True
     | MovementForm audit_ok seen form \<Rightarrow> fst (ledger_page senv ts args w') = bindE (ledger_rows senv args (shop_db (fst w')))
         (\<lambda>v. Ok \<lparr>lg_result = v, lg_filter = fst (ledger_request args), lg_sort = allowed_sort args,
           lg_export_product = export_product args (mf_product (fst (ledger_request args))) (sh_catalog (fst w'))\<rparr>)
     | _ \<Rightarrow> fst (order_board env ts (fst w')) = Ok (ABoard (board_load env (fst w'))))"
proof -
  have k: "cleared (bust_of c) w'" using page_view_clears[OF assms(1-4)] assms(5) by blast
  then show ?thesis using cleared_inventory[OF k product_bust_of] cleared_board cleared_ledger by (cases c) simp_all
qed

theorem forms_are_read_witness:
  "\<forall>env ts. case movement_form True (shop_db nut_shop) 7 three_form (nut_shop, []) of (r, w') \<Rightarrow>
     fst (reorder_alerts env ts (fst w')) = Ok (alerts_answer env (sh_catalog (fst w'))) \<and> stock_of 1 (shop_db (fst w')) = 8"
proof (intro allI)
  fix env ts
  let ?c = "MovementForm True (shop_db nut_shop) three_form"
  have v: "fst (movement_form True (shop_db nut_shop) 7 three_form (nut_shop, [])) = Ok (redirect_to ''/inventory'')"
    "stock_of 1 (shop_db (fst (snd (movement_form True (shop_db nut_shop) 7 three_form (nut_shop, []))))) = 8"
    by code_simp+
  obtain w' where w': "movement_form True (shop_db nut_shop) 7 three_form (nut_shop, []) = (Ok (redirect_to ''/inventory''), w')"
    using v(1) by (intro that[of "snd (movement_form True (shop_db nut_shop) 7 three_form (nut_shop, []))"]) (simp add: prod_eq_iff)
  have s: "stock_of 1 (shop_db (fst w')) = 8" using v(2) w' by simp
  then have "tables w' \<noteq> tables (nut_shop, [])" using nut_stock by (auto simp: tables_def shop_db_def)
  moreover have "stock_ok nut_shop" using nut_books_ok by (simp add: books_ok_def stock_ok_def po_db_ok_def)
  ultimately have "fst (reorder_alerts env ts (fst w')) = Ok (alerts_answer env (sh_catalog (fst w')))"
    using forms_are_read[of "(nut_shop, [])" ?c "\<lambda>d. True" 7 "redirect_to ''/inventory''" w' env ts] w'
    by (simp add: audited_form_def supplier_call_def)
  then show "case movement_form True (shop_db nut_shop) 7 three_form (nut_shop, []) of (r, w') \<Rightarrow>
     fst (reorder_alerts env ts (fst w')) = Ok (alerts_answer env (sh_catalog (fst w'))) \<and> stock_of 1 (shop_db (fst w')) = 8"
    using s w' by simp
qed

section \<open>Pages that stay behind\<close>

text \<open>A receipt is booked as a movement, but the movement ledger is not told: receiving goods drops neither
  the pages of the ledger nor the suppliers in its cache, so a cached ledger page is shown again as it was
  before, until it expires.  In the same way a new supplier is missing from the form of the order board.\<close>

theorem ledger_misses_receipts:
  assumes "cache_lookup (api_cache (sh_caches (fst w))) t1 (ledger_key args) = Some (AMoves rows n page per_page pages)"
    and "cache_lookup (api_cache (sh_caches (fst w))) t1 ''purchase_orders:board'' = Some (ABoard b)"
  shows "bindE (fst (ledger_page senv (t1, t2, t3) args (snd (receive_page fresh uid i rq w)))) (\<lambda>v. Ok (lg_result v))
      = Ok (AMoves rows n page per_page pages) \<and>
    fst (order_board env (t1, t2, t3) (fst (snd (suppliers_create form w)))) = Ok (ABoard b)"
proof -
  obtain k where k: "ledger_key args = ''movements:'' @ k"
    by (rule ledger_key_prefix)
  have "cache_lookup (api_cache (sh_caches (fst (snd (receive_page fresh uid i rq w))))) t1 (ledger_key args)
      = Some (AMoves rows n page per_page pages)"
    using assms(1) by (auto simp: receive_page_def Let_def with_bust_def with_db_def cache_bust_purchase_orders_def
        api_lookup_busts k split: prod.split)
  then have "fst (cached_in Api (t1, t2, t3) (ledger_key args) p (fst (snd (receive_page fresh uid i rq w))))
      = Ok (AMoves rows n page per_page pages)" for p
    by (simp add: cached_in_def get_or_set_alt)
  moreover have "cache_lookup (api_cache (sh_caches (fst (snd (suppliers_create form w))))) t1 ''purchase_orders:board'' = Some (ABoard b)"
    using assms(2) by (auto simp: suppliers_create_def with_bust_def cache_bust_suppliers_def api_lookup_busts
        split: prod.split sum.split)
  ultimately show ?thesis by (simp add: ledger_page_alt order_board_def cached_in_def get_or_set_alt)
qed

theorem ledger_misses_receipts_witness:
  "\<forall>senv env. \<exists>w. bindE (fst (ledger_page senv (1, 1, 1) [] (snd (receive_page ''f'' 7 1 demo_rq w)))) (\<lambda>v. Ok (lg_result v))
      = Ok (AMoves [] 0 1 20 1) \<and>
    fst (order_board env (1, 1, 1) (fst (snd (suppliers_create [(''name'', ''Acme Corp'')] w)))) = Ok (ABoard (board_load env nut_shop))"
proof (intro allI)
  fix senv env
  obtain k where k: "ledger_key [] = ''movements:'' @ k" by (rule ledger_key_prefix)
  let ?c = "cache_put 0 (ledger_key []) (AMoves [] 0 1 20 1) (cache_put 0 ''purchase_orders:board''
    (ABoard (board_load env nut_shop)) (new_cache 120 100))"
  let ?w = "(nut_shop\<lparr>sh_caches := named_caches\<lparr>api_cache := ?c\<rparr>\<rparr>, [])"
  have "cache_lookup ?c 1 (ledger_key []) = Some (AMoves [] 0 1 20 1)"
    "cache_lookup ?c 1 ''purchase_orders:board'' = Some (ABoard (board_load env nut_shop))"
    by (simp_all add: k cache_put_def cache_set_def cache_lookup_def new_cache_def popitems_drop)
  then show "\<exists>w. bindE (fst (ledger_page senv (1, 1, 1) [] (snd (receive_page ''f'' 7 1 demo_rq w)))) (\<lambda>v. Ok (lg_result v))
      = Ok (AMoves [] 0 1 20 1) \<and>
    fst (order_board env (1, 1, 1) (fst (snd (suppliers_create [(''name'', ''Acme Corp'')] w)))) = Ok (ABoard (board_load env nut_shop))"
    by (intro exI[of _ ?w] ledger_misses_receipts) simp_all
qed

definition zero_args :: "query_args \<Rightarrow> query_args" where
  "zero_args args = (''product_id'', ''0'') # args"

lemma zero_request:
  assumes "map_of args ''product_id'' = None"
  shows "ledger_key (zero_args args) = ledger_key args"
    and "mf_product (fst (ledger_request (zero_args args))) = Some 0"
proof -
  have p: "parse_int ''0'' = Some 0" by code_simp
  have "told_int (zero_args args) ''product_id'' = (Some 0, [])"
    by (simp add: told_int_def text_or_none_def zero_args_def p)
  moreover have "told_int args ''product_id'' = (None, [])" using assms by (simp add: told_int_def text_or_none_def)
  moreover have "told_int (zero_args args) k = told_int args k" "text_or_none (zero_args args) k = text_or_none args k"
    "arg_text (zero_args args) k d = arg_text args k d" if "k \<noteq> ''product_id''" for k d
    using that by (simp_all add: told_int_def text_or_none_def zero_args_def arg_text_def)
  moreover have "type_args (zero_args args) = type_args args" by (simp add: type_args_def zero_args_def)
  ultimately show "ledger_key (zero_args args) = ledger_key args" "mf_product (fst (ledger_request (zero_args args))) = Some 0"
    by (simp_all add: ledger_key_def ledger_request_def allowed_sort_def sort_args_def movements_key_def int_or_zero_def)
qed

lemma no_zero_rows:
  assumes "\<forall>m\<in>set (movements db). mv_product m \<noteq> 0" "\<And>b d. order_by env b d [] = []"
    "mf_product (fst (ledger_request args)) = Some 0" "ledger_rows env args db = Ok x"
  shows "\<exists>page per_page pages. x = AMoves [] 0 page per_page pages"
proof -
  obtain f p pp where r: "ledger_request args = (f, p, pp)" by (metis prod_cases3)
  then have "filter (matches (day_of env) f) (movements db) = []"
    using assms(1,3) by (auto simp: filter_empty_conv matches_def)
  then show ?thesis using assms(2,4)
    by (auto simp: ledger_rows_def r ledger_load_def movement_rows_def bindE_Ok_iff Ledger.list_movements_def
        get_movement_count_def sp_movement_list_def Let_def)
qed

text \<open>One request can empty the ledger for everybody: the cache key leaves a zero out, so a request for the
  product 0 and the request without a product share their entry.  When nothing is cached, asking for
  product 0 stores the empty answer, and the unfiltered ledger is then shown as empty, with a total of 0,
  as long as the entry lives.\<close>

theorem zero_product_empties_ledger:
  assumes inv: "cache_inv (api_cache (sh_caches (fst w)))" and none: "map_of args ''product_id'' = None"
    and free: "\<And>t. cache_lookup (api_cache (sh_caches (fst w))) t (ledger_key args) = None"
    and ids: "\<forall>m\<in>set (movements (sh_db (fst w))). mv_product m \<noteq> 0" "\<And>b d. order_by env b d [] = []"
    and first: "ledger_page env ts (zero_args args) w = (Ok v, w1)"
    and alive: "cache_lookup (api_cache (sh_caches (fst w1))) t1 (ledger_key args) \<noteq> None"
  shows "\<exists>page per_page pages. bindE (fst (ledger_page env (t1, t2, t3) args w1)) (\<lambda>v. Ok (lg_result v))
    = Ok (AMoves [] 0 page per_page pages)"
proof -
  let ?k = "ledger_key args" and ?load = "ledger_rows env (zero_args args) (shop_db (fst w))"
  obtain s1 s2 s3 where ts: "ts = (s1, s2, s3)" by (cases ts)
  let ?c = "cache_touch s2 ?k (cache_touch s1 ?k (api_cache (sh_caches (fst w))))"
  have c: "cached_in Api ts ?k ?load (fst w) = (case ?load of Inl e \<Rightarrow> (Err e, (fst w)\<lparr>sh_caches := (sh_caches (fst w))\<lparr>api_cache := ?c\<rparr>\<rparr>)
      | Inr x \<Rightarrow> (Ok x, (fst w)\<lparr>sh_caches := (sh_caches (fst w))\<lparr>api_cache := cache_put s3 ?k x ?c\<rparr>\<rparr>))"
    using free lookup_touch_same[of "api_cache (sh_caches (fst w))" s1 ?k s2]
    by (simp add: cached_in_def ts get_or_set_alt split: sum.split)
  have w1: "fst w1 = snd (cached_in Api ts ?k ?load (fst w))"
    using first zero_request[OF none]
    by (auto simp: ledger_page_def ledger_key_def ledger_rows_def ledger_request_def Let_def split_beta)
  have "isl ?load = False"
  proof (rule ccontr)
    assume "isl ?load \<noteq> False"
    then obtain e where e: "?load = Inl e" by (auto simp: isl_def)
    have "fst (ledger_page env ts (zero_args args) w) = Inl e"
      unfolding ledger_page_alt zero_request(1)[OF none] c by (simp add: e)
    then show False using first by simp
  qed
  then obtain x where x: "?load = Inr x" by (cases ?load) auto
  have "cache_inv ?c" using inv by (simp add: cache_touch_def cache_inv_get)
  moreover have "api_cache (sh_caches (fst w1)) = cache_put s3 ?k x ?c" using w1 c x by simp
  ultimately have "cache_lookup (api_cache (sh_caches (fst w1))) t1 ?k = Some x"
    using alive lookup_put_cache[of ?c s3 ?k x t1 ?k] by auto
  moreover have "\<exists>page per_page pages. x = AMoves [] 0 page per_page pages"
    using no_zero_rows[OF _ ids(2) zero_request(2)[OF none] x] ids(1) by simp
  ultimately show ?thesis by (auto simp: ledger_page_alt cached_in_def get_or_set_alt)
qed

definition plain_env :: sql_env where
  "plain_env = \<lparr>iso_ok = (\<lambda>t. True), cast_ok = (\<lambda>t. True), day_of = (\<lambda>t. 0), order_by = (\<lambda>b d rows. rows)\<rparr>"

definition moved_shop :: page_world where
  "moved_shop = (nut_shop\<lparr>sh_db := (sh_db nut_shop)\<lparr>movements := [\<lparr>mv_id = 1, mv_product = 1, mv_type = ''IN'', mv_quantity = 5,
     mv_reference = None, mv_notes = None, mv_user = Some 7, mv_day = 0, mv_deleted = False\<rparr>]\<rparr>\<rparr>, [])"

theorem zero_product_empties_ledger_witness:
  "case ledger_page plain_env (1, 1, 1) (zero_args []) moved_shop of (r, w1) \<Rightarrow>
     movements (sh_db (fst w1)) \<noteq> [] \<and> (\<exists>page per_page pages.
     bindE (fst (ledger_page plain_env (2, 2, 2) [] w1)) (\<lambda>v. Ok (lg_result v)) = Ok (AMoves [] 0 page per_page pages))"
proof -
  let ?r = "ledger_page plain_env (1, 1, 1) (zero_args []) moved_shop"
  have run: "\<not> isl (fst ?r)" "\<not> Option.is_none (cache_lookup (api_cache (sh_caches (fst (snd ?r)))) 2 (ledger_key []))"
    "movements (sh_db (fst (snd ?r))) \<noteq> []"
    by code_simp+
  obtain v w1 where r: "?r = (Ok v, w1)" using run(1) by (cases ?r; cases "fst ?r") auto
  have empty: "api_cache (sh_caches (fst moved_shop)) = new_cache 120 100"
    by (simp add: moved_shop_def nut_shop_def named_caches_def)
  then have "cache_inv (api_cache (sh_caches (fst moved_shop)))"
    "cache_lookup (api_cache (sh_caches (fst moved_shop))) t (ledger_key []) = None" for t
    by (simp_all add: cache_inv_new) (simp add: cache_lookup_def new_cache_def)
  moreover have "\<forall>m\<in>set (movements (sh_db (fst moved_shop))). mv_product m \<noteq> 0" by (simp add: moved_shop_def)
  moreover have "order_by plain_env b d [] = []" for b d by (simp add: plain_env_def)
  moreover have "cache_lookup (api_cache (sh_caches (fst w1))) 2 (ledger_key []) \<noteq> None"
    using run(2) by (simp add: r Option.is_none_def)
  ultimately have "\<exists>page per_page pages. bindE (fst (ledger_page plain_env (2, 2, 2) [] w1)) (\<lambda>v. Ok (lg_result v))
      = Ok (AMoves [] 0 page per_page pages)"
    using zero_product_empties_ledger[OF _ _ _ _ _ r, of 2 2 2] by simp
  then show ?thesis using run(3) by (simp add: r)
qed

end
