(* ===== verification/Periods.thy ===== *)
theory Periods
  imports Dashboard PageReads Settings "HOL-Library.Product_Lexorder"
begin

text \<open>The filters of the reports page (\<open>reports\<close> in \<open>app/routes/ui.py\<close>): the chosen months and years, the
  period they are turned into, the products they select, and the key of the cached page; and the fixed periods
  of its performance panels.\<close>

section \<open>Dates\<close>

text \<open>The ordinal of \<open>date(y, m, d)\<close>, which raises for a day the calendar does not have.\<close>

definition ordinal :: "int \<Rightarrow> int \<Rightarrow> int \<Rightarrow> int" where
  "ordinal y m d = month_first (12 * y + m - 3) + d - 1"

definition make_date :: "int \<Rightarrow> int \<Rightarrow> int \<Rightarrow> int result" where
  "make_date y m d =
     (if \<not> (1 \<le> y \<and> y \<le> 9999) then Err (ValueError ''year is out of range'')
      else if \<not> (1 \<le> m \<and> m \<le> 12) then Err (ValueError ''month must be in 1..12'')
      else if \<not> (1 \<le> d \<and> d \<le> month_length y m) then Err (ValueError ''day is out of range for month'')
      else Ok (ordinal y m d))"

section \<open>The filter\<close>

text \<open>A hidden input: absent or empty, not JSON, or a JSON value.\<close>

datatype json_text = Absent | Unreadable | Json pyval

definition picked :: "(pyval \<Rightarrow> string) \<Rightarrow> json_text \<Rightarrow> string list \<Rightarrow> string list" where
  "picked other j vals = map (py_str other) (filter truthy (case j of
     Absent \<Rightarrow> [] | Json (PList xs) \<Rightarrow> xs | _ \<Rightarrow> map PStr vals))"

record report_request =
  rr_months :: "json_text \<times> string list"
  rr_years :: "json_text \<times> string list"
  rr_warehouses :: "json_text \<times> string list"
  rr_categories :: "json_text \<times> string list"

record report_filter =
  rf_months :: "string list"
  rf_years :: "string list"
  rf_warehouses :: "string list"
  rf_categories :: "string list"

text \<open>The single-select fallback takes the first value of the field.\<close>

definition picked_single :: "(pyval \<Rightarrow> string) \<Rightarrow> json_text \<times> string list \<Rightarrow> string list" where
  "picked_single other p = (case picked other (fst p) (snd p) of
     [] \<Rightarrow> (case snd p of [] \<Rightarrow> [] | v # _ \<Rightarrow> if v = [] then [] else [v])
   | xs \<Rightarrow> xs)"

definition filter_of :: "(pyval \<Rightarrow> string) \<Rightarrow> report_request \<Rightarrow> report_filter" where
  "filter_of other rq = \<lparr>rf_months = picked other (fst (rr_months rq)) (snd (rr_months rq)),
     rf_years = picked other (fst (rr_years rq)) (snd (rr_years rq)),
     rf_warehouses = picked_single other (rr_warehouses rq), rf_categories = picked_single other (rr_categories rq)\<rparr>"

text \<open>\<open>int(t)\<close> of every text.\<close>

fun all_ints :: "string list \<Rightarrow> int list result" where
  "all_ints [] = Ok []"
| "all_ints (t # ts) = bindE (to_int (PStr t)) (\<lambda>i. bindE (all_ints ts) (\<lambda>is. Ok (i # is)))"

text \<open>The first and the last month, as pairs of a year and a month.\<close>

definition month_range :: "int \<Rightarrow> string list \<Rightarrow> string list \<Rightarrow> ((int \<times> int) \<times> (int \<times> int)) option result" where
  "month_range this_year months years =
     (if months \<noteq> [] \<and> years \<noteq> [] then
        bindE (all_ints years) (\<lambda>ys. bindE (all_ints months) (\<lambda>ms.
          let combos = concat (map (\<lambda>y. map (\<lambda>m. (y, m)) ms) ys)
          in Ok (Some (Min (set combos), Max (set combos)))))
      else if months \<noteq> [] then
        bindE (all_ints months) (\<lambda>ms. Ok (Some ((2024, Min (set ms)), (this_year, Max (set ms)))))
      else if years \<noteq> [] then
        bindE (all_ints years) (\<lambda>ys. Ok (Some ((Min (set ys), 1), (Max (set ys), 12))))
      else Ok None)"

definition month_text :: "int \<times> int \<Rightarrow> string" where
  "month_text ym = int_str (fst ym) @ ''-'' @ zfill 2 (int_str (snd ym))"

text \<open>\<open>_month_bounds\<close> reads the text back; a text that is no month has no bounds.\<close>

definition month_bounds :: "int \<times> int \<Rightarrow> (int \<times> int) option" where
  "month_bounds ym = (case ym of (y, m) \<Rightarrow>
     (case make_date y m 1 of Inl e \<Rightarrow> None | Inr first \<Rightarrow>
       (case make_date (y + (if m = 12 then 1 else 0)) (m mod 12 + 1) 1 of Inl e \<Rightarrow> None
        | Inr following \<Rightarrow> Some (first, following - 1))))"

text \<open>The first and the last day of the report, where they are set.\<close>

type_synonym report_span = "int option \<times> int option"

definition report_period :: "((int \<times> int) \<times> (int \<times> int)) option \<Rightarrow> report_span" where
  "report_period rng = (case rng of None \<Rightarrow> (None, None)
     | Some (a, b) \<Rightarrow> (map_option fst (month_bounds a), map_option snd (month_bounds b)))"

definition year_of :: "int \<Rightarrow> int" where "year_of n = fst (civil n)"

definition period_of :: "int \<Rightarrow> report_filter \<Rightarrow> report_span result" where
  "period_of now f = bindE (month_range (year_of now) (rf_months f) (rf_years f)) (\<lambda>r. Ok (report_period r))"

text \<open>The window of the products that moved in the period: its first day, and the day after its last.\<close>

definition period_window :: "int \<Rightarrow> report_span \<Rightarrow> (int \<times> int) option" where
  "period_window now p = (if p = (None, None) then None
     else Some (case fst p of None \<Rightarrow> now - 3650 | Some d \<Rightarrow> d, case snd p of None \<Rightarrow> now + 1 | Some d \<Rightarrow> d + 1))"

definition active_ids :: "int \<times> int \<Rightarrow> 'a inv_db_scheme \<Rightarrow> int list" where
  "active_ids w db = remdups (map mv_product (filter (live_between (fst w) (snd w)) (movements db)))"

text \<open>\<open>filter_clause\<close> and \<open>product_where\<close>.\<close>

definition in_filter :: "report_filter \<Rightarrow> product_row \<Rightarrow> bool" where
  "in_filter f r = ((rf_warehouses f = [] \<or> pr_warehouse r \<in> Some ` set (rf_warehouses f)) \<and>
     (rf_categories f = [] \<or> pr_category r \<in> Some ` set (rf_categories f)))"

definition in_scope :: "report_filter \<Rightarrow> report_span \<Rightarrow> 'a inv_db_scheme \<Rightarrow> product_row \<Rightarrow> bool" where
  "in_scope f p db r = (in_filter f r \<and> (case period_window (today db) p of None \<Rightarrow> True
     | Some w \<Rightarrow> if active_ids w db = [] then pr_id r = 0 else pr_id r \<in> set (active_ids w db)))"

definition report_key :: "((int \<times> int) \<times> (int \<times> int)) option \<Rightarrow> report_filter \<Rightarrow> string" where
  "report_key rng f = make_key [(''prefix'', KStr ''reports''),
     (''date_from'', KStr (case rng of None \<Rightarrow> [] | Some (a, b) \<Rightarrow> month_text a)),
     (''date_to'', KStr (case rng of None \<Rightarrow> [] | Some (a, b) \<Rightarrow> month_text b)),
     (''warehouses'', KStr (joins '','' (rf_warehouses f))), (''categories'', KStr (joins '','' (rf_categories f)))]"

section \<open>The fixed periods\<close>

record fixed_periods =
  fp_mtd :: int
  fp_prev_mtd :: int
  fp_ytd :: int
  fp_prev_ytd :: int
  fp_prev_ytd_end :: int
  fp_tomorrow :: int

definition fixed_periods_of :: "int \<Rightarrow> fixed_periods result" where
  "fixed_periods_of now = (case civil now of (y, m, d) \<Rightarrow>
     bindE (make_date (y - 1) 1 1) (\<lambda>prev.
     bindE (make_date (y - 1) m d) (\<lambda>same.
     Ok \<lparr>fp_mtd = first_of_month now, fp_prev_mtd = first_of_month (first_of_month now - 1), fp_ytd = ordinal y 1 1,
       fp_prev_ytd = prev, fp_prev_ytd_end = same + 1, fp_tomorrow = now + 1\<rparr>)))"

section \<open>The calendar again\<close>

lemma leap_dvd: "leap y \<longleftrightarrow> 4 dvd y \<and> (100 dvd y \<longrightarrow> 400 dvd y)"
  by (auto simp: leap_def dvd_eq_mod_eq_0)

lemma year_first_leap: "year_first (y + 1) - year_first y = 365 + (if leap (y + 1) then 1 else 0)"
proof -
  have "(100 :: int) dvd y + 1" if "400 dvd y + 1" using that by (rule dvd_trans[rotated]) simp
  moreover have "(4 :: int) dvd y + 1" if "100 dvd y + 1" using that by (rule dvd_trans[rotated]) simp
  moreover have "year_first (y + 1) - year_first y = 365 + (if 4 dvd y + 1 then 1 else 0)
      - (if 100 dvd y + 1 then 1 else 0) + (if 400 dvd y + 1 then 1 else 0)"
    by (simp add: year_first_def div_next)
  ultimately show ?thesis unfolding leap_dvd
    by (cases "400 dvd y + 1"; cases "100 dvd y + 1"; cases "4 dvd y + 1"; simp only: simp_thms if_True if_False; simp)
qed

lemma month_index:
  fixes y m :: int
  assumes "1 \<le> m" "m \<le> 12"
  shows "(12 * y + m - 3) div 12 = (if m \<le> 2 then y - 1 else y)"
    "(12 * y + m - 3) mod 12 = (if m \<le> 2 then m + 9 else m - 3)"
proof -
  have e: "12 * y + m - 3 = 12 * (if m \<le> 2 then y - 1 else y) + (if m \<le> 2 then m + 9 else m - 3)" by simp
  show "(12 * y + m - 3) div 12 = (if m \<le> 2 then y - 1 else y)"
    by (rule int_div_pos_eq[OF e]) (use assms in auto)
  show "(12 * y + m - 3) mod 12 = (if m \<le> 2 then m + 9 else m - 3)"
    by (rule int_mod_pos_eq[OF e]) (use assms in auto)
qed

lemma month_size:
  assumes "1 \<le> m" "m \<le> 12"
  shows "month_first (12 * y + m - 3 + 1) - month_first (12 * y + m - 3) = month_length y m"
proof -
  define k where "k = 12 * y + m - 3"
  have i: "k div 12 = (if m \<le> 2 then y - 1 else y)" "k mod 12 = (if m \<le> 2 then m + 9 else m - 3)"
    using month_index[OF assms, of y] by (simp_all add: k_def)
  have "month_first (k + 1) - month_first k = (if m = 2 then year_first (y - 1 + 1) - year_first (y - 1) - 337
      else month_shift (k mod 12 + 1) - month_shift (k mod 12))"
    using assms by (auto simp: month_first_def next_mod12 i month_shift_def)
  moreover have "month_shift (k mod 12 + 1) - month_shift (k mod 12) = month_length y m" if "m \<noteq> 2"
  proof -
    have "m \<in> {1, 3, 4, 5, 6, 7, 8, 9, 10, 11, 12}" using that assms twelve_cases[of "m - 1"] by auto
    then show ?thesis by (auto simp: i month_shift_def month_length_def)
  qed
  moreover have "year_first (y - 1 + 1) - year_first (y - 1) - 337 = month_length y 2"
    using year_first_leap[of "y - 1"] by (simp add: month_length_def)
  ultimately show ?thesis by (auto simp: k_def)
qed

lemma civil_ordinal:
  assumes "1 \<le> m" "m \<le> 12" "1 \<le> d" "d \<le> month_length y m"
  shows "civil (ordinal y m d) = (y, m, d)"
proof -
  let ?k = "12 * y + m - 3"
  have "month_first ?k \<le> ordinal y m d" "ordinal y m d < month_first (?k + 1)"
    using assms month_size[OF assms(1,2), of y] by (auto simp: ordinal_def)
  from civil_at[OF this] show ?thesis
    using month_index[OF assms(1,2), of y] assms(1,2) int_div_pos_eq[of "?k + 2" 12 y "m - 1"]
    by (auto simp: ordinal_def month_of_def)
qed

lemma civil_valid:
  assumes "civil n = (y, m, d)"
  shows "1 \<le> m" "m \<le> 12" "1 \<le> d" "d \<le> month_length y m" "ordinal y m d = n"
proof -
  obtain k where k: "month_first k \<le> n" "n < month_first (k + 1)" using month_exists by blast
  have c: "y = (k + 2) div 12" "m = month_of (k mod 12)" "d = n - month_first k + 1"
    using civil_at[OF k] assms by simp_all
  show m: "1 \<le> m" "m \<le> 12" using mod12_cases[of k] by (auto simp: c(2) month_of_def)
  have "12 * y + m - 3 = k"
    using mult_div_mod_eq[of 12 k] mod12_cases[of k] div_mod_two[of k] by (auto simp: c(1,2) month_of_def)
  then show "1 \<le> d" "d \<le> month_length y m" "ordinal y m d = n"
    using k month_size[OF m, of y] by (simp_all add: c(3) ordinal_def)
qed

lemma first_of_month_ordinal: "civil n = (y, m, d) \<Longrightarrow> first_of_month n = ordinal y m 1"
  using civil_valid(5)[of n y m d] by (auto simp: first_of_month_def ordinal_def)

section \<open>The chosen months\<close>

lemma all_ints_length: "all_ints ts = Inr is \<Longrightarrow> length is = length ts"
  by (induction ts arbitrary: "is") (auto simp: bindE_Ok_iff)

lemma make_date_first:
  assumes "1 \<le> y" "y \<le> 9999" "1 \<le> m" "m \<le> 12"
  shows "make_date y m 1 = Inr (ordinal y m 1)"
  using assms by (auto simp: make_date_def month_length_def)

lemma month_bounds_valid:
  assumes "1 \<le> y" "y < 9999" "1 \<le> m" "m \<le> 12"
  shows "month_bounds (y, m) = Some (ordinal y m 1, ordinal y m 1 + month_length y m - 1)"
proof -
  let ?y = "y + (if m = 12 then 1 else 0)"
  have m: "m mod 12 + 1 = (if m = 12 then 1 else m + 1)" using assms(3,4) by (cases "m = 12") auto
  have "make_date ?y (if m = 12 then 1 else m + 1) 1 = Inr (ordinal ?y (if m = 12 then 1 else m + 1) 1)"
    by (rule make_date_first) (use assms in auto)
  moreover have "ordinal ?y (if m = 12 then 1 else m + 1) 1 = ordinal y m 1 + month_length y m"
    using month_size[OF assms(3,4), of y] by (auto simp: ordinal_def algebra_simps)
  ultimately have "make_date ?y (m mod 12 + 1) 1 = Inr (ordinal y m 1 + month_length y m)" by (simp only: m)
  then show ?thesis using make_date_first[of y m] assms by (simp add: month_bounds_def)
qed

lemma month_first_less: "k < k' \<Longrightarrow> month_first (k + 1) \<le> month_first k'"
proof (induction k' rule: int_gr_induct)
  case (step i)
  then show ?case using month_gap(1)[of i] by linarith
qed simp

lemma month_first_mono: "k \<le> k' \<Longrightarrow> month_first k \<le> month_first k'"
  using month_first_less[of k k'] month_gap(1)[of k] by (cases "k = k'") auto

text \<open>A day lies between two first days exactly when its month does.\<close>

lemma before_month:
  assumes "civil n = (y, m, d)" "1 \<le> m'" "m' \<le> 12"
  shows "ordinal y' m' 1 \<le> n \<longleftrightarrow> (y', m') \<le> (y, m)" "n < ordinal y' m' 1 + month_length y' m' \<longleftrightarrow> (y, m) \<le> (y', m')"
proof -
  let ?k = "12 * y + m - 3" and ?k' = "12 * y' + m' - 3"
  have v: "1 \<le> m" "m \<le> 12" "1 \<le> d" "d \<le> month_length y m" "ordinal y m d = n" using civil_valid[OF assms(1)] by blast+
  have n: "month_first ?k \<le> n" "n < month_first (?k + 1)"
    using v month_size[OF v(1,2), of y] by (auto simp: ordinal_def)
  have "month_first ?k' \<le> n \<longleftrightarrow> ?k' \<le> ?k"
  proof (cases "?k' \<le> ?k")
    case True
    then show ?thesis using n month_first_mono[OF True] by linarith
  next
    case False
    then show ?thesis using n month_first_less[of ?k ?k'] by linarith
  qed
  moreover have "n < month_first (?k' + 1) \<longleftrightarrow> ?k \<le> ?k'"
  proof (cases "?k \<le> ?k'")
    case True
    then show ?thesis using n month_first_mono[of "?k + 1" "?k' + 1"] by linarith
  next
    case False
    then show ?thesis using n month_first_less[of ?k' ?k] by linarith
  qed
  moreover have "ordinal y' m' 1 = month_first ?k'" "ordinal y' m' 1 + month_length y' m' = month_first (?k' + 1)"
    using month_size[OF assms(2,3), of y'] by (simp_all add: ordinal_def)
  ultimately show "ordinal y' m' 1 \<le> n \<longleftrightarrow> (y', m') \<le> (y, m)"
    "n < ordinal y' m' 1 + month_length y' m' \<longleftrightarrow> (y, m) \<le> (y', m')"
    unfolding less_eq_prod_def using v(1,2) assms(2,3) by (simp_all, linarith+)
qed

lemma Min_pairs:
  fixes A B :: "int set"
  assumes "finite A" "finite B" "A \<noteq> {}" "B \<noteq> {}"
  shows "Min (A \<times> B) = (Min A, Min B)" "Max (A \<times> B) = (Max A, Max B)"
proof -
  have "(Min A, Min B) \<le> p \<and> p \<le> (Max A, Max B)" if "p \<in> A \<times> B" for p
  proof -
    have "Min A \<le> fst p" "fst p \<le> Max A" "Min B \<le> snd p" "snd p \<le> Max B" using that assms by auto
    then show ?thesis by (auto simp: less_eq_prod_def)
  qed
  then show "Min (A \<times> B) = (Min A, Min B)" "Max (A \<times> B) = (Max A, Max B)"
    using assms by (auto intro!: Min_eqI Max_eqI Min_in Max_in)
qed

definition month_number :: "int \<Rightarrow> int" where "month_number n = fst (snd (civil n))"

lemma period_of_choice:
  assumes "all_ints (rf_months f) = Inr ms" "all_ints (rf_years f) = Inr ys" "ms \<noteq> []" "ys \<noteq> []"
    and "\<forall>m\<in>set ms. 1 \<le> m \<and> m \<le> 12" "\<forall>y\<in>set ys. 1 \<le> y \<and> y < 9999"
  obtains a b where "period_of now f = Inr (Some a, Some b)"
    "\<And>n. (a \<le> n \<and> n \<le> b) = ((Min (set ys), Min (set ms)) \<le> (year_of n, month_number n) \<and>
      (year_of n, month_number n) \<le> (Max (set ys), Max (set ms)))"
proof -
  let ?y1 = "Min (set ys)" and ?m1 = "Min (set ms)" and ?y2 = "Max (set ys)" and ?m2 = "Max (set ms)"
  have "Min (set ys) \<in> set ys" "Max (set ys) \<in> set ys" "Min (set ms) \<in> set ms" "Max (set ms) \<in> set ms"
    using assms(3,4) by simp_all
  then have v: "1 \<le> ?y1" "?y1 < 9999" "1 \<le> ?y2" "?y2 < 9999" "1 \<le> ?m1" "?m1 \<le> 12" "1 \<le> ?m2" "?m2 \<le> 12"
    using assms(5,6) by blast+
  have ne: "rf_months f \<noteq> []" "rf_years f \<noteq> []" using assms(1-4) by auto
  have "set (concat (map (\<lambda>y. map (Pair y) ms) ys)) = set ys \<times> set ms" by auto
  then have "month_range (year_of now) (rf_months f) (rf_years f) = Inr (Some ((?y1, ?m1), (?y2, ?m2)))"
    using ne assms(1,2) Min_pairs[of "set ys" "set ms"] assms(3,4) by (simp add: month_range_def Let_def)
  then have p: "period_of now f = Inr (Some (ordinal ?y1 ?m1 1), Some (ordinal ?y2 ?m2 1 + month_length ?y2 ?m2 - 1))"
    using month_bounds_valid v by (simp add: period_of_def report_period_def)
  show thesis
  proof (rule that[OF p])
    fix n
    obtain y m d where c: "civil n = (y, m, d)" by (rule prod_cases3)
    show "(ordinal ?y1 ?m1 1 \<le> n \<and> n \<le> ordinal ?y2 ?m2 1 + month_length ?y2 ?m2 - 1)
      = ((?y1, ?m1) \<le> (year_of n, month_number n) \<and> (year_of n, month_number n) \<le> (?y2, ?m2))"
      using before_month(1)[OF c v(5,6), of ?y1] before_month(2)[OF c v(7,8), of ?y2]
      by (auto simp: year_of_def month_number_def c)
  qed
qed

lemma moved_in_scope:
  assumes "in_filter f r" "mv \<in> set (movements db)" "\<not> mv_deleted mv" "mv_product mv = pr_id r" "a \<le> mv_day mv" "mv_day mv \<le> b"
  shows "in_scope f (Some a, Some b) db r"
proof -
  have "live_between a (b + 1) mv" using assms by (simp add: live_between_def)
  then have "pr_id r \<in> set (active_ids (a, b + 1) db)" using assms(2,4) by (force simp: active_ids_def)
  then show ?thesis using assms(1) by (auto simp: in_scope_def period_window_def)
qed

text \<open>Choosing months and years asks for more than was chosen.  The report runs from the first to the last chosen
  month, so every chosen month is in it; but as soon as two years and fewer than twelve months are chosen, it
  contains a whole month that was not, and every product that moved in that month only is part of the report.\<close>

theorem report_filter_widens:
  assumes "all_ints (rf_months f) = Inr ms" "all_ints (rf_years f) = Inr ys" "ms \<noteq> []"
    and "\<forall>m\<in>set ms. 1 \<le> m \<and> m \<le> 12" "\<forall>y\<in>set ys. 1 \<le> y \<and> y < 9999"
    and "y1 \<in> set ys" "y2 \<in> set ys" "y1 < y2" "1 \<le> m0" "m0 \<le> 12" "m0 \<notin> set ms"
  shows "\<exists>a b y. period_of now f = Ok (Some a, Some b) \<and>
    (\<forall>n. year_of n \<in> set ys \<longrightarrow> month_number n \<in> set ms \<longrightarrow> a \<le> n \<and> n \<le> b) \<and>
    (\<forall>n. year_of n = y \<longrightarrow> month_number n = m0 \<longrightarrow> a \<le> n \<and> n \<le> b) \<and>
    (\<forall>mv db r. mv \<in> set (movements db) \<longrightarrow> \<not> mv_deleted mv \<longrightarrow> mv_product mv = pr_id r \<longrightarrow> in_filter f r \<longrightarrow>
      year_of (mv_day mv) = y \<longrightarrow> month_number (mv_day mv) = m0 \<longrightarrow> in_scope f (Some a, Some b) db r)"
proof -
  have ne: "ys \<noteq> []" using assms(6) by auto
  from period_of_choice[OF assms(1,2,3) ne assms(4,5), of now] obtain a b where p: "period_of now f = Inr (Some a, Some b)"
    and ab: "\<And>n. (a \<le> n \<and> n \<le> b) = ((Min (set ys), Min (set ms)) \<le> (year_of n, month_number n) \<and>
      (year_of n, month_number n) \<le> (Max (set ys), Max (set ms)))" by blast
  have lex: "(y', m') \<le> (y, m) \<longleftrightarrow> y' < y \<or> y' = y \<and> m' \<le> m" for y' m' y m :: int by (auto simp: less_eq_prod_def)
  have chosen: "a \<le> n \<and> n \<le> b" if "year_of n \<in> set ys" "month_number n \<in> set ms" for n
  proof -
    have "Min (set ys) \<le> year_of n" "year_of n \<le> Max (set ys)" "Min (set ms) \<le> month_number n" "month_number n \<le> Max (set ms)"
      using that by simp_all
    then show ?thesis unfolding ab lex by linarith
  qed
  have years: "Min (set ys) \<le> y1" "y2 \<le> Max (set ys)" using assms(6,7) by simp_all
  define y where "y = (if Min (set ms) < m0 then Min (set ys) else Max (set ys))"
  have "Min (set ms) \<in> set ms" using assms(3) by simp
  then have "Min (set ms) \<noteq> m0" using assms(11) by blast
  moreover have "Min (set ms) \<le> Max (set ms)" using assms(3) by simp
  ultimately have other: "a \<le> n \<and> n \<le> b" if "year_of n = y" "month_number n = m0" for n
    unfolding ab lex that using years assms(8) by (auto simp: y_def)
  show ?thesis
    by (intro exI[of _ a] exI[of _ b] exI[of _ y] conjI allI impI p)
      (use chosen other in \<open>blast intro: moved_in_scope\<close>)+
qed

definition whole_shop :: report_filter where
  "whole_shop = \<lparr>rf_months = [], rf_years = [], rf_warehouses = [], rf_categories = []\<rparr>"

definition march_of_two_years :: report_filter where
  "march_of_two_years = \<lparr>rf_months = [''3''], rf_years = [''2024'', ''2025''], rf_warehouses = [], rf_categories = []\<rparr>"

theorem report_filter_widens_witness:
  "\<exists>a b y. period_of 739000 march_of_two_years = Ok (Some a, Some b) \<and>
    (\<forall>n. year_of n = y \<longrightarrow> month_number n = 7 \<longrightarrow> a \<le> n \<and> n \<le> b)"
proof -
  have "all_ints [''3''] = Inr [3]" "all_ints [''2024'', ''2025''] = Inr [2024, 2025]" by code_simp+
  then show ?thesis using report_filter_widens[of march_of_two_years "[3]" "[2024, 2025]" 2024 2025 7 739000]
    by (fastforce simp: march_of_two_years_def)
qed

section \<open>The leap day\<close>

text \<open>The day of the year before does not exist on the 29th of February.\<close>

lemma fixed_periods_cases:
  assumes "civil now = (y, m, d)" "2 \<le> y" "y \<le> 9999"
  shows "if m = 2 \<and> d = 29 then isl (fixed_periods_of now)
    else \<exists>fp. fixed_periods_of now = Ok fp \<and> civil (fp_prev_ytd_end fp - 1) = (y - 1, m, d) \<and>
      civil (fp_prev_ytd fp) = (y - 1, 1, 1) \<and> civil (fp_ytd fp) = (y, 1, 1) \<and> civil (fp_mtd fp) = (y, m, 1) \<and>
      civil (fp_prev_mtd fp) = (if m = 1 then (y - 1, 12, 1) else (y, m - 1, 1))"
proof -
  have v: "1 \<le> m" "m \<le> 12" "1 \<le> d" "d \<le> month_length y m" "ordinal y m d = now" using civil_valid[OF assms(1)] by blast+
  have prev: "make_date (y - 1) 1 1 = Inr (ordinal (y - 1) 1 1)" using assms by (intro make_date_first) auto
  show ?thesis
  proof (cases "m = 2 \<and> d = 29")
    case True
    then have "leap y" using v(4) by (auto simp: month_length_def split: if_splits)
    then have "\<not> leap (y - 1)" unfolding leap_def by presburger
    then have "isl (make_date (y - 1) m d)" using True assms by (simp add: make_date_def month_length_def)
    then show ?thesis using True prev assms(1) by (cases "make_date (y - 1) m d") (auto simp: fixed_periods_of_def)
  next
    case False
    have d': "d \<le> month_length (y - 1) m" using v False by (auto simp: month_length_def split: if_splits)
    then have same: "make_date (y - 1) m d = Inr (ordinal (y - 1) m d)" using v assms by (auto simp: make_date_def)
    let ?p = "if m = 1 then (y - 1, 12, 31) else (y, m - 1, month_length y (m - 1))"
    have "civil (ordinal (fst ?p) (fst (snd ?p)) (snd (snd ?p))) = ?p"
      using v by (auto intro!: civil_ordinal simp: month_length_def)
    moreover have "ordinal (fst ?p) (fst (snd ?p)) (snd (snd ?p)) = ordinal y m 1 - 1"
      using month_size[of "fst (snd ?p)" "fst ?p"] v by (auto simp: ordinal_def month_length_def algebra_simps)
    ultimately have "civil (ordinal y m 1 - 1) = ?p" by simp
    then have "first_of_month (ordinal y m 1 - 1) = ordinal (fst ?p) (fst (snd ?p)) 1"
      using first_of_month_ordinal[of "ordinal y m 1 - 1" "fst ?p" "fst (snd ?p)" "snd (snd ?p)"] by simp
    then have "civil (first_of_month (ordinal y m 1 - 1)) = (if m = 1 then (y - 1, 12, 1) else (y, m - 1, 1))"
      using v by (auto intro!: civil_ordinal simp: month_length_def)
    then show ?thesis
      using False prev same assms(1) v d' first_of_month_ordinal[OF assms(1)]
      by (auto simp: fixed_periods_of_def civil_ordinal month_length_def)
  qed
qed

end
