(* ===== verification/LandingChart.thy ===== *)
theory LandingChart
  imports Periods
begin

text \<open>The movement chart of the landing page (\<open>_landing_stats\<close> in \<open>app/routes/ui.py\<close>): which months it labels
  and which movements it shows under the last label.\<close>

section \<open>Months of the query\<close>

lemma month_first_inj: "month_first j = month_first k \<Longrightarrow> j = k"
  using month_first_less[of j k] month_first_less[of k j] month_gap(1)[of j] month_gap(1)[of k] by linarith

lemma civil_month:
  assumes "civil n = (y, m, d)"
  shows "first_of_month n = month_first (12 * y + m - 3)"
  using first_of_month_ordinal[OF assms] by (simp add: ordinal_def)

lemma year_month_eq:
  "1 \<le> b \<Longrightarrow> b \<le> 12 \<Longrightarrow> 1 \<le> m \<Longrightarrow> m \<le> 12 \<Longrightarrow> 12 * a + b = 12 * y + m \<longleftrightarrow> a = y \<and> b = m" for a b y m :: int
  by (cases a y rule: linorder_cases) auto

lemma distinct_names: "distinct month_names" "length month_names = 12"
  by (simp_all add: month_names_def)

text \<open>Twelve consecutive months have twelve names, and the name returns with the thirteenth.\<close>

lemma month_name_inj:
  assumes "month_name (month_first i) = month_name (month_first j)" "k - 11 \<le> i" "i \<le> k" "k - 11 \<le> j" "j \<le> k"
  shows "i = j"
proof -
  have b: "nat ((x + 2) mod 12) < length month_names" for x by (simp add: distinct_names nat_less_iff)
  have "nat ((i + 2) mod 12) = nat ((j + 2) mod 12)"
    using assms(1) nth_eq_iff_index_eq[OF distinct_names(1) b b] by (simp add: month_name_first)
  then have "(i + 2) mod 12 = (j + 2) mod 12" by (simp add: eq_nat_nat_iff)
  then have "12 dvd i - j" by (simp add: mod_eq_dvd_iff)
  then show ?thesis using assms(2-5) by presburger
qed

lemma month_name_year: "month_name (month_first (k + 1)) = month_name (month_first (k - 11))"
proof -
  have "(k - 11 + 2) mod 12 = (k + 1 + 2) mod 12" using mod_add_self2[of "k - 11 + 2" 12] by (simp add: algebra_simps)
  then show ?thesis by (simp only: month_name_first)
qed

lemma dict_of_names:
  assumes "inj_on g (insert D (set ds))" "distinct ds"
  shows "dict_of (map (\<lambda>d. (g d, f d)) ds) (g D) z = (if D \<in> set ds then f D else z)"
proof -
  have "map_of (map (\<lambda>d. (g d, f d)) ds) (g D) = (if D \<in> set ds then Some (f D) else None)"
    using assms by (induction ds) (auto simp: inj_on_def)
  moreover have "distinct (map fst (map (\<lambda>d. (g d, f d)) ds))"
    using assms by (auto simp: comp_def distinct_map inj_on_def)
  ultimately show ?thesis by (simp add: dict_of_distinct)
qed

definition reached :: "'a inv_db_scheme \<Rightarrow> movement list" where
  "reached db = filter (\<lambda>m. not_before (eleven_months_before (today db)) (mv_day m) \<and> \<not> mv_deleted m) (movements db)"

text \<open>The first day that the query reaches is in the month eleven back.\<close>

lemma reach_month:
  assumes "civil now = (y, m, d)" "eleven_months_before now = (y', m', d')"
  shows "12 * y' + m' = 12 * y + m - 11" "1 \<le> m'" "m' \<le> 12" "d' \<le> month_length y' m'"
  using assms civil_valid(1,2)[OF assms(1)] by (auto simp: eleven_months_before_def Let_def split: if_splits)

lemma reached_months:
  assumes "civil (today db) = (y, m, d)" "\<forall>v\<in>set (movements db). mv_day v \<le> today db" "v \<in> set (reached db)"
  shows "\<exists>j. first_of_month (mv_day v) = month_first j \<and> 12 * y + m - 3 - 11 \<le> j \<and> j \<le> 12 * y + m - 3"
proof -
  obtain a b c where v: "civil (mv_day v) = (a, b, c)" by (rule prod_cases3)
  obtain y' m' d' where e: "eleven_months_before (today db) = (y', m', d')" by (rule prod_cases3)
  note va = civil_valid[OF v] and now = civil_valid[OF assms(1)] and r = reach_month[OF assms(1) e]
  have "(y', m') \<le> (a, b)" using assms(3) by (auto simp: reached_def not_before_def e v less_eq_prod_def)
  then have "12 * y + m - 3 - 11 \<le> 12 * a + b - 3" using r va(1,2) by (auto simp: less_eq_prod_def)
  moreover have "mv_day v < ordinal y m 1 + month_length y m"
    using assms(2,3) now by (auto simp: reached_def ordinal_def)
  then have "(a, b) \<le> (y, m)" using before_month(2)[OF v now(1,2)] by simp
  then have "12 * a + b - 3 \<le> 12 * y + m - 3" using now(1,2) va(1,2) by (auto simp: less_eq_prod_def)
  ultimately show ?thesis using civil_month[OF v] by blast
qed

text \<open>What is found under the name of a month of the query.\<close>

lemma by_month_at:
  assumes "civil (today db) = (y, m, d)" "\<forall>v\<in>set (movements db). mv_day v \<le> today db"
    and "12 * y + m - 3 - 11 \<le> j" "j \<le> 12 * y + m - 3"
  shows "dict_of (by_month db) (month_name (month_first j)) 0 =
    sum_list (map mv_quantity (filter (\<lambda>v. first_of_month (mv_day v) = month_first j) (reached db)))"
proof -
  let ?k = "12 * y + m - 3" and ?f = "\<lambda>d. sum_list (map mv_quantity (filter (\<lambda>m. first_of_month (mv_day m) = d) (reached db)))"
  let ?ds = "sort (remdups (map (first_of_month \<circ> mv_day) (reached db)))"
  have "\<exists>j. x = month_first j \<and> ?k - 11 \<le> j \<and> j \<le> ?k" if "x \<in> insert (month_first j) (set ?ds)" for x
    using that reached_months[OF assms(1,2)] assms(3,4) by auto
  then have "inj_on month_name (insert (month_first j) (set ?ds))"
    by (intro inj_onI) (metis month_name_inj)
  then have "dict_of (by_month db) (month_name (month_first j)) 0 = (if month_first j \<in> set ?ds then ?f (month_first j) else 0)"
    unfolding by_month_def Let_def reached_def[symmetric] by (rule dict_of_names) simp
  moreover have "?f (month_first j) = 0" if "month_first j \<notin> set ?ds"
  proof -
    have "filter (\<lambda>v. first_of_month (mv_day v) = month_first j) (reached db) = []"
      unfolding filter_empty_conv using that by (auto intro: rev_image_eqI)
    then show ?thesis by simp
  qed
  ultimately show ?thesis by simp
qed

section \<open>The chart\<close>

text \<open>C29: The chart of the landing page is shifted by a month, on every day.  Its twelve labels run from ten
  months back to the coming month.  The query reaches back into the month eleven months back, to the same day or
  to the last day of a shorter month; that month has no label of its own.  When nothing is dated in the future,
  the bar under the last label, the coming month's, is what moved in that part of the month eleven back.\<close>

theorem landing_chart_shifted:
  "\<exists>y m d y' m' d'. civil (today db) = (y, m, d) \<and> eleven_months_before (today db) = (y', m', d') \<and>
    12 * y' + m' = 12 * y + m - 11 \<and> d' \<le> month_length y' m' \<and>
    la_dates (landing_stats n cat db) = map (\<lambda>i. month_names ! nat ((m - 1 - 10 + int i) mod 12)) [0..<12] \<and>
    ((\<forall>v\<in>set (movements db). mv_day v \<le> today db) \<longrightarrow>
      la_series (landing_stats n cat db) ! 11 = sum_list (map mv_quantity
        (filter (\<lambda>v. \<not> mv_deleted v \<and> (case civil (mv_day v) of (a, b, c) \<Rightarrow> a = y' \<and> b = m' \<and> d' \<le> c)) (movements db))))"
proof -
  obtain y m d where c: "civil (today db) = (y, m, d)" by (rule prod_cases3)
  obtain y' m' d' where e: "eleven_months_before (today db) = (y', m', d')" by (rule prod_cases3)
  note r = reach_month[OF c e] and now = civil_valid[OF c]
  let ?k = "12 * y + m - 3"
  have k: "month_first ?k \<le> today db" "today db < month_first (?k + 1)"
    using now month_size[OF now(1,2), of y] by (auto simp: ordinal_def)
  have old: "12 * y' + m' - 3 = ?k - 11" using r(1) by simp
  have same: "first_of_month (mv_day v) = month_first (?k - 11) \<longleftrightarrow> a = y' \<and> b = m'" if v: "civil (mv_day v) = (a, b, c)" for v a b c
  proof -
    have "first_of_month (mv_day v) = month_first (?k - 11) \<longleftrightarrow> 12 * a + b = 12 * y' + m'"
      unfolding civil_month[OF v] old[symmetric] by (auto dest: month_first_inj)
    then show ?thesis using year_month_eq[OF civil_valid(1,2)[OF v] r(2,3)] by simp
  qed
  have part: "filter (\<lambda>v. first_of_month (mv_day v) = month_first (?k - 11)) (reached db) =
      filter (\<lambda>v. \<not> mv_deleted v \<and> (case civil (mv_day v) of (a, b, c) \<Rightarrow> a = y' \<and> b = m' \<and> d' \<le> c)) (movements db)"
    unfolding reached_def filter_filter
  proof (rule filter_cong[OF refl])
    fix v
    obtain a b c where v: "civil (mv_day v) = (a, b, c)" by (rule prod_cases3)
    show "((not_before (eleven_months_before (today db)) (mv_day v) \<and> \<not> mv_deleted v) \<and> first_of_month (mv_day v) = month_first (?k - 11))
      = (\<not> mv_deleted v \<and> (case civil (mv_day v) of (a, b, c) \<Rightarrow> a = y' \<and> b = m' \<and> d' \<le> c))"
      unfolding same[OF v] by (auto simp: not_before_def e v)
  qed
  have months: "landing_months (today db) ! 11 = month_first (?k + 1)" "length (landing_months (today db)) = 12"
    unfolding landing_months_at[OF k] by (simp_all del: upt_Suc upt_rec_numeral)
  have bar: "la_series (landing_stats n cat db) ! 11 = dict_of (by_month db) (month_name (month_first (?k + 1))) 0"
    using months by (simp add: landing_stats_def Let_def)
  have "(\<forall>v\<in>set (movements db). mv_day v \<le> today db) \<longrightarrow>
      la_series (landing_stats n cat db) ! 11 = sum_list (map mv_quantity
        (filter (\<lambda>v. \<not> mv_deleted v \<and> (case civil (mv_day v) of (a, b, c) \<Rightarrow> a = y' \<and> b = m' \<and> d' \<le> c)) (movements db)))"
    using bar by_month_at[OF c, of "?k - 11"] part by (intro impI) (simp only: month_name_year)
  moreover have "la_dates (landing_stats n cat db) = map month_name (landing_months (today db))"
    by (simp add: landing_stats_def Let_def)
  ultimately show ?thesis using c e r landing_labels[OF c] by (intro exI conjI) (assumption | simp only:)+
qed

text \<open>A delivery in April of last year on the bar of the coming April.\<close>

definition old_delivery :: po_db where
  "old_delivery = (shop_db nut_shop)\<lparr>movements := [\<lparr>mv_id = 1, mv_product = 1, mv_type = ''IN'', mv_quantity = 3, mv_reference = None,
     mv_notes = None, mv_user = None, mv_day = ordinal 2025 4 15, mv_deleted = False\<rparr>], today := ordinal 2026 3 10\<rparr>"

theorem landing_chart_shifted_witness:
  "la_dates (landing_stats 1 nut_catalog old_delivery) ! 11 = ''Apr'' \<and>
   la_series (landing_stats 1 nut_catalog old_delivery) ! 11 = 3"
proof -
  have now: "civil (today old_delivery) = (2026, 3, 10)" "civil (ordinal 2025 4 15) = (2025, 4, 15)"
    by (simp_all add: old_delivery_def civil_ordinal month_length_def)
  have e: "eleven_months_before (today old_delivery) = (2025, 4, 10)"
    by (simp add: eleven_months_before_def now month_length_def)
  have "ordinal 2025 4 15 \<le> ordinal 2026 3 10" by code_simp
  then have past: "\<forall>v\<in>set (movements old_delivery). mv_day v \<le> today old_delivery" by (simp add: old_delivery_def)
  have main: "la_dates (landing_stats 1 nut_catalog old_delivery) = map (\<lambda>i. month_names ! nat ((3 - 1 - 10 + int i) mod 12)) [0..<12]"
    "la_series (landing_stats 1 nut_catalog old_delivery) ! 11 = sum_list (map mv_quantity (movements old_delivery))"
    using landing_chart_shifted[of old_delivery 1 nut_catalog] past unfolding now(1) e
    by (auto simp del: upt_Suc upt_rec_numeral) (simp add: old_delivery_def now(2))
  show ?thesis unfolding main by (simp add: old_delivery_def month_names_def)
qed

end
