(* ===== verification/EtlRun.thy ===== *)
theory EtlRun
  imports Jobs
begin

text \<open>Starting the warehouse build from the monitoring page (\<open>app/routes/ui.py\<close>): the in-process lock, the
  background thread with its best-effort status rows, the queue mode, and what the page shows of a run.\<close>

section \<open>The thread\<close>

type_synonym state_rows = "string \<Rightarrow> string option"

text \<open>\<open>_persist\<close>: None clears the row; \<open>up\<close> says whether the statement reaches the database.\<close>

definition persist_row :: "bool \<Rightarrow> string \<Rightarrow> string option \<Rightarrow> state_rows \<Rightarrow> state_rows" where
  "persist_row up k v rows = (if up then rows(k := v) else rows)"

datatype run_phase =
    Claimed | Started | Marked | Building
  | Failing string | FailMarked string
  | Succeeding bool | SuccessMarked bool | OkMarked
  | Unrecorded | Ended

text \<open>One statement of the thread body.  \<open>etl\<close> is how the build ends: an error text, or its summary's flag.
  A run is \<open>Claimed\<close> between taking the lock and the start of its thread.  The handler of the job queue
  writes the same rows in the same order; a direct call of \<open>etl_database\<close> (bootstrap, command line) writes
  none of them and is \<open>Unrecorded\<close>.\<close>

fun run_statement :: "bool \<Rightarrow> string + bool \<Rightarrow> run_phase \<Rightarrow> state_rows \<Rightarrow> run_phase \<times> state_rows" where
  "run_statement up etl Claimed rows = (Started, rows)"
| "run_statement up etl Unrecorded rows = (Ended, rows)"
| "run_statement up etl Started rows = (Marked, persist_row up ''etl_job_status'' (Some ''running'') rows)"
| "run_statement up etl Marked rows = (Building, persist_row up ''etl_job_error'' None rows)"
| "run_statement up etl Building rows = ((case etl of Inl m \<Rightarrow> Failing m | Inr ok \<Rightarrow> Succeeding ok), rows)"
| "run_statement up etl (Failing m) rows = (FailMarked m, persist_row up ''etl_job_status'' (Some ''failed'') rows)"
| "run_statement up etl (FailMarked m) rows = (Ended, persist_row up ''etl_job_error'' (Some m) rows)"
| "run_statement up etl (Succeeding ok) rows = (SuccessMarked ok, persist_row up ''etl_job_status'' (Some ''success'') rows)"
| "run_statement up etl (SuccessMarked ok) rows =
     (OkMarked, persist_row up ''warehouse_etl_ok'' (Some (if ok then ''True'' else ''False'')) rows)"
| "run_statement up etl OkMarked rows = (Ended, persist_row up ''etl_job_error'' None rows)"
| "run_statement up etl Ended rows = (Ended, rows)"

section \<open>The site\<close>

text \<open>Every server process has its own lock and its own cache; the rows are shared.  The queue worker and the
  direct callers do not take the lock.  The loader of the monitoring page reads the rows, then the lock and then
  the queue, at three instants, and what it computed stays in the page cache of its process until the entry
  expires (sixty seconds) or is invalidated.  The cache lets one loader of a process run at a time.\<close>

record build_thread =
  th_proc :: nat
  th_locked :: bool
  th_phase :: run_phase

datatype page_load = RowsRead "string option" | LockRead "string option" bool

record run_site =
  rs_lock :: "nat \<Rightarrow> bool"
  rs_threads :: "build_thread list"
  rs_rows :: state_rows
  rs_load :: "nat \<Rightarrow> page_load option"
  rs_page :: "nat \<Rightarrow> string option option"

definition new_run :: "nat \<Rightarrow> run_site \<Rightarrow> run_site" where
  "new_run p s = s\<lparr>rs_lock := (rs_lock s)(p := True),
     rs_threads := rs_threads s @ [\<lparr>th_proc = p, th_locked = True, th_phase = Claimed\<rparr>]\<rparr>"

definition bare_run :: "nat \<Rightarrow> run_phase \<Rightarrow> run_site \<Rightarrow> run_site" where
  "bare_run p ph s = s\<lparr>rs_threads := rs_threads s @ [\<lparr>th_proc = p, th_locked = False, th_phase = ph\<rparr>]\<rparr>"

definition move_run :: "nat \<Rightarrow> bool \<Rightarrow> string + bool \<Rightarrow> run_site \<Rightarrow> run_site" where
  "move_run i up etl s = (case run_statement up etl (th_phase (rs_threads s ! i)) (rs_rows s) of (ph, rows) \<Rightarrow>
     s\<lparr>rs_threads := (rs_threads s)[i := (rs_threads s ! i)\<lparr>th_phase := ph\<rparr>], rs_rows := rows\<rparr>)"

definition end_run :: "nat \<Rightarrow> run_site \<Rightarrow> run_site" where
  "end_run i s = s\<lparr>rs_lock := (if th_locked (rs_threads s ! i) then (rs_lock s)(th_proc (rs_threads s ! i) := False) else rs_lock s),
     rs_threads := take i (rs_threads s) @ drop (Suc i) (rs_threads s)\<rparr>"

text \<open>A process that dies loses its threads, its lock and its cache, and the rows stay.\<close>

definition lose :: "nat \<Rightarrow> run_site \<Rightarrow> run_site" where
  "lose p s = s\<lparr>rs_lock := (rs_lock s)(p := False), rs_threads := filter (\<lambda>t. th_proc t \<noteq> p) (rs_threads s),
     rs_load := (rs_load s)(p := None), rs_page := (rs_page s)(p := None)\<rparr>"

text \<open>The status the page shows, from the row, the lock and the queue as they were read.\<close>

definition shown_status :: "string option \<Rightarrow> bool \<Rightarrow> bool \<Rightarrow> string option" where
  "shown_status row locked ql = (case row of None \<Rightarrow> None
     | Some v \<Rightarrow> if v = ''running'' \<and> \<not> locked \<and> \<not> ql then Some ''interrupted'' else Some v)"

definition loads :: "nat \<Rightarrow> page_load option \<Rightarrow> run_site \<Rightarrow> run_site" where
  "loads p l s = s\<lparr>rs_load := (rs_load s)(p := l)\<rparr>"

definition keeps_page :: "nat \<Rightarrow> string option option \<Rightarrow> run_site \<Rightarrow> run_site" where
  "keeps_page p v s = s\<lparr>rs_page := (rs_page s)(p := v)\<rparr>"

inductive run_step :: "run_site \<Rightarrow> run_site \<Rightarrow> bool" where
  already_running: "rs_lock s p \<Longrightarrow> run_step s s"
| start: "\<not> rs_lock s p \<Longrightarrow> run_step s (new_run p s)"
| not_started: "i < length (rs_threads s) \<Longrightarrow> th_phase (rs_threads s ! i) = Claimed \<Longrightarrow> run_step s (end_run i s)"
| statement: "i < length (rs_threads s) \<Longrightarrow> th_phase (rs_threads s ! i) \<noteq> Ended \<Longrightarrow> run_step s (move_run i up etl s)"
| release: "i < length (rs_threads s) \<Longrightarrow> th_phase (rs_threads s ! i) = Ended \<Longrightarrow> run_step s (end_run i s)"
| queue_worker: "run_step s (bare_run p Started s)"
| direct_call: "run_step s (bare_run p Unrecorded s)"
| crash: "run_step s (lose p s)"
| page_rows: "rs_page s p = None \<Longrightarrow> rs_load s p = None \<Longrightarrow>
    run_step s (loads p (Some (RowsRead (if up then rs_rows s ''etl_job_status'' else None))) s)"
| page_lock: "rs_load s p = Some (RowsRead v) \<Longrightarrow> run_step s (loads p (Some (LockRead v (rs_lock s p))) s)"
| page_done: "rs_load s p = Some (LockRead v l) \<Longrightarrow>
    run_step s (keeps_page p (Some (shown_status v l ql)) (loads p None s))"
| page_failed: "rs_load s p = Some (LockRead v l) \<Longrightarrow> run_step s (loads p None s)"
| page_dropped: "run_step s (keeps_page p None s)"

inductive run_reach :: "run_site \<Rightarrow> run_site \<Rightarrow> bool" where
  here: "run_reach s s"
| more: "run_reach s s1 \<Longrightarrow> run_step s1 s2 \<Longrightarrow> run_reach s s2"

definition no_runs :: "state_rows \<Rightarrow> run_site" where
  "no_runs rows = \<lparr>rs_lock = (\<lambda>p. False), rs_threads = [], rs_rows = rows, rs_load = (\<lambda>p. None), rs_page = (\<lambda>p. None)\<rparr>"

lemma site_simps [simp]:
  "rs_lock (loads p l s) = rs_lock s" "rs_threads (loads p l s) = rs_threads s" "rs_rows (loads p l s) = rs_rows s"
  "rs_load (loads p l s) q = (if q = p then l else rs_load s q)" "rs_page (loads p l s) = rs_page s"
  "rs_lock (keeps_page p v s) = rs_lock s" "rs_threads (keeps_page p v s) = rs_threads s"
  "rs_rows (keeps_page p v s) = rs_rows s" "rs_load (keeps_page p v s) = rs_load s"
  "rs_page (keeps_page p v s) q = (if q = p then v else rs_page s q)"
  "rs_lock (bare_run p ph s) = rs_lock s" "rs_rows (bare_run p ph s) = rs_rows s"
  "rs_load (bare_run p ph s) = rs_load s" "rs_page (bare_run p ph s) = rs_page s"
  "rs_lock (new_run p s) q = (q = p \<or> rs_lock s q)" "rs_rows (new_run p s) = rs_rows s"
  "rs_load (new_run p s) = rs_load s" "rs_page (new_run p s) = rs_page s"
  "rs_lock (lose p s) q = (q \<noteq> p \<and> rs_lock s q)" "rs_rows (lose p s) = rs_rows s"
  "rs_load (lose p s) q = (if q = p then None else rs_load s q)" "rs_page (lose p s) q = (if q = p then None else rs_page s q)"
  "rs_rows (end_run i s) = rs_rows s" "rs_load (end_run i s) = rs_load s" "rs_page (end_run i s) = rs_page s"
  by (simp_all add: loads_def keeps_page_def bare_run_def new_run_def lose_def end_run_def)

lemma no_runs_simps [simp]: "rs_lock (no_runs rows) p = False" "rs_threads (no_runs rows) = []"
  "rs_rows (no_runs rows) = rows" "rs_load (no_runs rows) p = None" "rs_page (no_runs rows) p = None"
  by (simp_all add: no_runs_def)

lemma move_simps [simp]: "rs_lock (move_run i up etl s) = rs_lock s" "rs_load (move_run i up etl s) = rs_load s"
  "rs_page (move_run i up etl s) = rs_page s"
  by (simp_all add: move_run_def split: prod.split)

lemma run_reach_trans: "run_reach s t \<Longrightarrow> run_reach r s \<Longrightarrow> run_reach r t"
  by (induction rule: run_reach.induct) (auto intro: run_reach.intros)

definition live_run :: "job_queue \<Rightarrow> bool" where
  "live_run q = list_ex (\<lambda>r. j_task r = ''run_etl'' \<and> (j_status r = JPending \<or> j_status r = JRunning)) (jobs q)"

definition queue_live :: "bool \<Rightarrow> job_queue \<Rightarrow> bool" where
  "queue_live enabled q = (enabled \<and> list_ex (\<lambda>r. j_task r = ''run_etl'' \<and> j_status r = JRunning) (jobs q))"

text \<open>Queue mode: the guard reads the queue, then the job is inserted; \<open>seen\<close> is the queue as it was read.
  The defaults of \<open>enqueue\<close> are priority 0, three attempts and no delay.\<close>

definition run_etl_via_queue :: "int \<Rightarrow> job_queue \<Rightarrow> job_queue \<Rightarrow> string \<times> job_queue" where
  "run_etl_via_queue now seen q =
     (if live_run seen then (''ETL already queued or running'', q)
      else case enqueue now ''run_etl'' [(''force'', PBool True)] 0 3 0 q of
        (i, q') \<Rightarrow> (''ETL queued (job #'' @ int_str i @ '')'', q'))"

section \<open>One run per process\<close>

definition guarded :: "nat \<Rightarrow> build_thread \<Rightarrow> bool" where
  "guarded p t = (th_proc t = p \<and> th_locked t)"

definition runs_of :: "nat \<Rightarrow> run_site \<Rightarrow> nat" where
  "runs_of p s = length (filter (guarded p) (rs_threads s))"

definition lock_counts :: "run_site \<Rightarrow> bool" where
  "lock_counts s = (\<forall>p. runs_of p s = (if rs_lock s p then 1 else 0))"

lemma runs_of_remove:
  assumes "i < length (rs_threads s)"
  shows "runs_of p (end_run i s) = runs_of p s - (if guarded p (rs_threads s ! i) then 1 else 0)"
proof -
  have "rs_threads s = take i (rs_threads s) @ rs_threads s ! i # drop (Suc i) (rs_threads s)"
    using assms by (rule id_take_nth_drop)
  then have "filter (guarded p) (rs_threads s)
      = filter (guarded p) (take i (rs_threads s)) @ filter (guarded p) (rs_threads s ! i # drop (Suc i) (rs_threads s))"
    by (metis filter_append)
  then show ?thesis by (simp add: runs_of_def end_run_def)
qed

lemma length_filter_update: "(P x \<longleftrightarrow> P (xs ! i)) \<Longrightarrow> length (filter P (xs[i := x])) = length (filter P xs)"
  by (induction xs arbitrary: i) (auto split: nat.split)

lemma runs_of_move: "runs_of p (move_run i up etl s) = runs_of p s"
  by (simp add: runs_of_def move_run_def guarded_def length_filter_update split: prod.split)

lemma lock_counts_end:
  assumes "i < length (rs_threads s)" "lock_counts s" shows "lock_counts (end_run i s)"
proof -
  have "runs_of p (end_run i s) = (if rs_lock (end_run i s) p then 1 else 0)" for p
    using assms(2) runs_of_remove[OF assms(1), of p] by (auto simp: lock_counts_def end_run_def guarded_def)
  then show ?thesis by (simp add: lock_counts_def)
qed

lemma lock_counts_step:
  assumes "run_step s s'" "lock_counts s" shows "lock_counts s'"
  using assms
proof (cases rule: run_step.cases)
  case (start p) then show ?thesis using assms(2) by (auto simp: lock_counts_def runs_of_def guarded_def new_run_def)
next
  case (statement i up etl) then show ?thesis using assms(2) by (simp add: lock_counts_def runs_of_move)
next
  case (crash p)
  have "runs_of q s' = (if q = p then 0 else runs_of q s)" for q
    unfolding crash runs_of_def lose_def
    by (auto simp: guarded_def filter_empty_conv intro!: arg_cong[of _ _ length] filter_cong)
  then show ?thesis using assms(2) crash by (auto simp: lock_counts_def)
qed (auto simp: lock_counts_end, auto simp: lock_counts_def runs_of_def bare_run_def guarded_def)

lemma lock_counts_reach: "run_reach (no_runs rows) s \<Longrightarrow> lock_counts s"
proof (induction "no_runs rows" s rule: run_reach.induct)
  case here then show ?case by (simp add: lock_counts_def runs_of_def no_runs_def)
qed (rule lock_counts_step)

text \<open>What a loader and a kept page go back to: the row at one instant of the run and the lock at a later one.\<close>

definition loaded_from :: "run_site \<Rightarrow> run_site \<Rightarrow> nat \<Rightarrow> bool" where
  "loaded_from s0 s p = (case rs_load s p of
     Some (RowsRead (Some v)) \<Rightarrow>
       \<exists>s1. run_reach s0 s1 \<and> run_reach s1 s \<and> rs_rows s1 ''etl_job_status'' = Some v
   | Some (LockRead (Some v) l) \<Rightarrow>
       \<exists>s1 s2. run_reach s0 s1 \<and> run_reach s1 s2 \<and> run_reach s2 s \<and>
         rs_rows s1 ''etl_job_status'' = Some v \<and> l = rs_lock s2 p
   | _ \<Rightarrow> True)"

definition shown_from :: "run_site \<Rightarrow> run_site \<Rightarrow> nat \<Rightarrow> bool" where
  "shown_from s0 s p = (\<forall>v. rs_page s p = Some (Some v) \<longrightarrow>
     (\<exists>s1 s2 ql r. run_reach s0 s1 \<and> run_reach s1 s2 \<and> run_reach s2 s \<and>
         rs_rows s1 ''etl_job_status'' = Some r \<and> shown_status (Some r) (rs_lock s2 p) ql = Some v))"

lemma loaded_keep:
  "loaded_from s0 s p \<Longrightarrow> run_step s s' \<Longrightarrow> rs_load s' p = rs_load s p \<Longrightarrow> loaded_from s0 s' p"
  unfolding loaded_from_def by (auto split: option.splits page_load.splits) (blast intro: more)+

lemma loaded_none: "rs_load s p = None \<Longrightarrow> loaded_from s0 s p"
  by (simp add: loaded_from_def)

lemma shown_keep:
  "shown_from s0 s p \<Longrightarrow> run_step s s' \<Longrightarrow> rs_page s' p = rs_page s p \<or> rs_page s' p = None \<Longrightarrow> shown_from s0 s' p"
  unfolding shown_from_def by (auto, blast intro: more)

lemma page_rows_loaded:
  assumes "run_reach s0 s" "run_step s (loads p (Some (RowsRead v)) s)" "v = None \<or> v = rs_rows s ''etl_job_status''"
  shows "loaded_from s0 (loads p (Some (RowsRead v)) s) p"
  using assms unfolding loaded_from_def by (auto split: option.split intro: here more)

lemma page_lock_loaded:
  assumes "run_reach s0 s" "rs_load s p = Some (RowsRead v)" "loaded_from s0 s p"
    "run_step s (loads p (Some (LockRead v (rs_lock s p))) s)"
  shows "loaded_from s0 (loads p (Some (LockRead v (rs_lock s p))) s) p"
  using assms unfolding loaded_from_def by (auto split: option.splits) (blast intro: here more)

lemma page_done_shown:
  assumes "rs_load s p = Some (LockRead v l)" "loaded_from s0 s p"
    "run_step s (keeps_page p (Some (shown_status v l ql)) (loads p None s))"
  shows "shown_from s0 (keeps_page p (Some (shown_status v l ql)) (loads p None s)) p"
  using assms unfolding loaded_from_def shown_from_def
  by (auto simp: shown_status_def split: option.splits) (blast intro: more)+

lemma page_inv_step:
  assumes "run_reach s0 s" "run_step s s'" "\<And>p. loaded_from s0 s p \<and> shown_from s0 s p"
  shows "loaded_from s0 s' p \<and> shown_from s0 s' p"
proof -
  have load: "loaded_from s0 s' p" if "rs_load s' p = rs_load s p \<or> rs_load s' p = None"
    using that assms loaded_keep loaded_none by blast
  have page: "shown_from s0 s' p" if "rs_page s' p = rs_page s p \<or> rs_page s' p = None"
    using that assms shown_keep by blast
  show ?thesis using assms(2)
  proof (cases rule: run_step.cases)
    case (page_rows q up)
    then have "loaded_from s0 s' p" if "q = p"
      using that assms(2) page_rows_loaded[OF assms(1), of p "if up then rs_rows s ''etl_job_status'' else None"] by simp
    then show ?thesis using load page page_rows(1) by (cases "q = p") simp_all
  next
    case (page_lock q v)
    then have "loaded_from s0 s' p" if "q = p"
      using that assms page_lock_loaded[OF assms(1), of p v] by simp
    then show ?thesis using load page page_lock(1) by (cases "q = p") simp_all
  next
    case (page_done q v l ql)
    then have "shown_from s0 s' p" if "q = p"
      using that assms page_done_shown[of s p v l s0 ql] by simp
    then show ?thesis using load page page_done(1) by (cases "q = p") simp_all
  qed (use load page in simp_all)
qed

lemma page_inv_reach: "run_reach (no_runs rows) s \<Longrightarrow> loaded_from (no_runs rows) s p \<and> shown_from (no_runs rows) s p"
proof (induction "no_runs rows" s arbitrary: p rule: run_reach.induct)
  case here then show ?case by (simp add: loaded_from_def shown_from_def no_runs_def)
next
  case (more s1 s2) then show ?case by (meson page_inv_step)
qed

lemma run_statement_status:
  "run_statement up etl ph rows = (ph', rows') \<Longrightarrow> rows' ''etl_job_status'' = Some ''interrupted'' \<Longrightarrow>
   rows ''etl_job_status'' = Some ''interrupted''"
  by (cases "(up, etl, ph, rows)" rule: run_statement.cases) (auto simp: persist_row_def split: if_splits sum.splits)

lemma status_texts:
  "run_reach (no_runs rows) s \<Longrightarrow> rs_rows s ''etl_job_status'' = Some ''interrupted'' \<Longrightarrow>
   rows ''etl_job_status'' = Some ''interrupted''"
proof (induction "no_runs rows" s rule: run_reach.induct)
  case here then show ?case by (simp add: no_runs_def)
next
  case (more s1 s2)
  from more(3) have "rs_rows s1 ''etl_job_status'' = Some ''interrupted''" using more(4)
    by (cases rule: run_step.cases) (auto simp: move_run_def dest: run_statement_status split: prod.splits)
  then show ?case using more(2) by blast
qed

text \<open>C34: A process never runs two of the builds that its monitoring page starts, whatever starts, statements,
  ends, crashes, queue workers and direct calls happen in whatever order: it has exactly one such build, claimed
  or running, when its lock is held and none otherwise, so a start while one runs is refused.  The builds of
  the queue worker and of direct callers do not take the lock and are not counted.  When a page of the
  process, however old its kept copy is, shows the build as interrupted (a text that no row held in the beginning), then at one instant of
  the past the row said running and at a later one no build of the page was alive in the process.\<close>

theorem one_run_per_process:
  assumes "run_reach (no_runs rows) s" and "rows ''etl_job_status'' \<noteq> Some ''interrupted''"
  shows "length (filter (\<lambda>t. th_proc t = p \<and> th_locked t) (rs_threads s)) = (if rs_lock s p then 1 else 0) \<and>
    (rs_page s p = Some (Some ''interrupted'') \<longrightarrow>
      (\<exists>s1 s2. run_reach (no_runs rows) s1 \<and> run_reach s1 s2 \<and> run_reach s2 s \<and>
        rs_rows s1 ''etl_job_status'' = Some ''running'' \<and> (\<forall>t\<in>set (rs_threads s2). th_proc t = p \<longrightarrow> \<not> th_locked t)))"
proof (intro conjI impI)
  have n: "length (filter (guarded p) (rs_threads s)) = (if rs_lock s p then 1 else 0)"
    if "run_reach (no_runs rows) s" for s
    using lock_counts_reach[OF that] by (simp add: lock_counts_def runs_of_def)
  then show "length (filter (\<lambda>t. th_proc t = p \<and> th_locked t) (rs_threads s)) = (if rs_lock s p then 1 else 0)"
    using assms(1) by (simp add: guarded_def[abs_def])
  assume "rs_page s p = Some (Some ''interrupted'')"
  then obtain s1 s2 ql r where s: "run_reach (no_runs rows) s1" "run_reach s1 s2" "run_reach s2 s"
      "rs_rows s1 ''etl_job_status'' = Some r" "shown_status (Some r) (rs_lock s2 p) ql = Some ''interrupted''"
    using page_inv_reach[OF assms(1), of p] unfolding shown_from_def by blast
  have "r \<noteq> ''interrupted''" using status_texts[OF s(1)] s(4) assms(2) by auto
  then have "r = ''running''" "\<not> rs_lock s2 p" using s(5) by (auto simp: shown_status_def split: if_splits)
  moreover have "filter (guarded p) (rs_threads s2) = []"
    using n[OF run_reach_trans[OF s(2,1)]] \<open>\<not> rs_lock s2 p\<close> by simp
  ultimately show "\<exists>s1 s2. run_reach (no_runs rows) s1 \<and> run_reach s1 s2 \<and> run_reach s2 s \<and>
      rs_rows s1 ''etl_job_status'' = Some ''running'' \<and> (\<forall>t\<in>set (rs_threads s2). th_proc t = p \<longrightarrow> \<not> th_locked t)"
    using s by (intro exI[of _ s1] exI[of _ s2]) (simp add: filter_empty_conv guarded_def)
qed

text \<open>A lone build: its thread after a statement, the start up to the first row, and a whole load of the page.\<close>

lemma lone_move:
  assumes "rs_threads s = [t]"
  shows "rs_threads (move_run 0 up etl s) = [t\<lparr>th_phase := fst (run_statement up etl (th_phase t) (rs_rows s))\<rparr>]"
    "rs_rows (move_run 0 up etl s) = snd (run_statement up etl (th_phase t) (rs_rows s))"
    "th_phase t \<noteq> Ended \<Longrightarrow> run_step s (move_run 0 up etl s)"
  using assms statement[of 0 s up etl] by (simp_all add: move_run_def split: prod.split)

definition marked :: "nat \<Rightarrow> state_rows \<Rightarrow> run_site" where
  "marked p rows = move_run 0 True (Inr True) (move_run 0 True (Inr True) (new_run p (no_runs rows)))"

lemma marked_run:
  "run_reach (no_runs rows) (marked p rows)" "rs_threads (marked p rows) = [\<lparr>th_proc = p, th_locked = True, th_phase = Marked\<rparr>]"
  "rs_rows (marked p rows) = rows(''etl_job_status'' \<mapsto> ''running'')"
proof -
  let ?n = "new_run p (no_runs rows)"
  have t: "rs_threads ?n = [\<lparr>th_proc = p, th_locked = True, th_phase = Claimed\<rparr>]" by (simp add: new_run_def)
  note m = lone_move[OF t, where up = True and etl = "Inr True"]
  note m2 = lone_move[OF m(1), where up = True and etl = "Inr True"]
  show "rs_threads (marked p rows) = [\<lparr>th_proc = p, th_locked = True, th_phase = Marked\<rparr>]"
    "rs_rows (marked p rows) = rows(''etl_job_status'' \<mapsto> ''running'')"
    using m2 by (simp_all add: marked_def m(2) persist_row_def)
  have "run_step (no_runs rows) ?n" by (rule start) (simp add: no_runs_def)
  then show "run_reach (no_runs rows) (marked p rows)"
    using m(3) m2(3) unfolding marked_def by (simp, meson here more)
qed

definition page_of :: "nat \<Rightarrow> string option \<Rightarrow> run_site \<Rightarrow> run_site" where
  "page_of p v s = keeps_page p (Some (shown_status v (rs_lock s p) False)) (loads p None (loads p (Some (LockRead v (rs_lock s p))) s))"

lemma page_of_reach: "rs_load s p = Some (RowsRead v) \<Longrightarrow> run_reach s (page_of p v s)"
proof -
  assume l: "rs_load s p = Some (RowsRead v)"
  let ?k = "loads p (Some (LockRead v (rs_lock s p))) s"
  have "run_step s ?k" using l by (rule page_lock)
  moreover have "run_step ?k (page_of p v s)" unfolding page_of_def
    by (rule page_done[where l = "rs_lock s p"]) simp
  ultimately show ?thesis by (meson here more)
qed

lemma page_of_simps: "rs_page (page_of p v s) p = Some (shown_status v (rs_lock s p) False)"
    "rs_rows (page_of p v s) = rs_rows s" "rs_threads (page_of p v s) = rs_threads s"
  by (simp_all add: page_of_def)

theorem one_run_per_process_witness:
  "\<exists>s. run_reach (no_runs (\<lambda>k. None)) s \<and> rs_page s 0 = Some (Some ''interrupted'') \<and>
     length (filter (\<lambda>t. th_proc t = 0 \<and> th_locked t) (rs_threads s)) = 0"
proof -
  let ?s0 = "no_runs (\<lambda>k. None)"
  let ?s1 = "lose 0 (marked 0 (\<lambda>k. None))"
  let ?s2 = "loads 0 (Some (RowsRead (Some ''running''))) ?s1"
  let ?s3 = "page_of 0 (Some ''running'') ?s2"
  have "run_reach ?s0 ?s1" using marked_run(1) crash by (rule more)
  moreover have "rs_page ?s1 0 = None" "rs_load ?s1 0 = None" by simp_all
  then have "run_step ?s1 ?s2" using page_rows[of ?s1 0 True] by (simp add: marked_run(3))
  moreover have "run_reach ?s2 ?s3" by (rule page_of_reach) simp
  ultimately have r: "run_reach ?s0 ?s3" by (meson more run_reach_trans)
  have "rs_page ?s3 0 = Some (Some ''interrupted'')" by (simp add: page_of_simps shown_status_def)
  then show ?thesis using one_run_per_process[OF r, of 0] r
    by (intro exI[of _ ?s3]) (simp add: page_of_simps lose_def marked_run(2))
qed


section \<open>What the guards do not cover\<close>

text \<open>The lock is one process's: two processes build at the same time, and the page of a third one reports the
  live builds as interrupted unless a queue job runs.  (The deployment starts one process.)\<close>

theorem processes_do_not_share:
  assumes "p \<noteq> q" "r \<noteq> p" "r \<noteq> q"
  shows "\<exists>s. run_reach (no_runs rows) s \<and> map th_proc (rs_threads s) = [p, q] \<and>
    map th_phase (rs_threads s) = [Marked, Claimed] \<and> rs_page s r = Some (Some ''interrupted'')"
proof -
  let ?m = "marked p rows" let ?s1 = "new_run q (marked p rows)"
  let ?s2 = "loads r (Some (RowsRead (Some ''running''))) ?s1" let ?s3 = "page_of r (Some ''running'') ?s2"
  have free: "rs_lock ?m x = (x = p)" "rs_page ?m x = None" "rs_load ?m x = None" for x
    by (simp_all add: marked_def no_runs_def)
  have "run_step ?m ?s1" using assms(1) by (intro start) (simp add: free)
  moreover have "run_step ?s1 ?s2"
    using page_rows[of ?s1 r True] by (simp add: marked_run(3) free)
  moreover have "run_reach ?s2 ?s3" by (rule page_of_reach) simp
  ultimately have "run_reach (no_runs rows) ?s3" using marked_run(1)[of rows p] by (meson more run_reach_trans)
  moreover have "rs_page ?s3 r = Some (Some ''interrupted'')"
    using assms by (simp add: page_of_simps shown_status_def free)
  ultimately show ?thesis by (intro exI[of _ ?s3]) (simp add: page_of_simps marked_run(2) new_run_def)
qed

text \<open>The page of the process that runs the build can be wrong too.  When a build ends between the moment the
  loader reads the rows and the moment it reads the lock, the page says \<open>interrupted\<close> of a build that was
  recorded as a success, and keeps saying so while its copy lives: the end of the build busts the cache before
  the loader stores it.\<close>

definition finished :: "nat \<Rightarrow> state_rows \<Rightarrow> run_site" where
  "finished p rows = end_run 0 (move_run 0 True (Inr True) (move_run 0 True (Inr True) (move_run 0 True (Inr True)
     (move_run 0 True (Inr True) (move_run 0 True (Inr True) (loads p (Some (RowsRead (Some ''running''))) (marked p rows)))))))"

theorem finished_build_shown_interrupted:
  "\<exists>s. run_reach (no_runs rows) s \<and> rs_page s p = Some (Some ''interrupted'') \<and>
    rs_rows s ''etl_job_status'' = Some ''success'' \<and> rs_threads s = []"
proof -
  let ?m = "loads p (Some (RowsRead (Some ''running''))) (marked p rows)"
  let ?next = "move_run 0 True (Inr True)"
  have t: "rs_threads ?m = [\<lparr>th_proc = p, th_locked = True, th_phase = Marked\<rparr>]" by (simp add: marked_run(2))
  note a = lone_move[OF t, where up = True and etl = "Inr True"]
  note b = lone_move[OF a(1), where up = True and etl = "Inr True"]
  note c = lone_move[OF b(1), where up = True and etl = "Inr True"]
  note d = lone_move[OF c(1), where up = True and etl = "Inr True"]
  note e = lone_move[OF d(1), where up = True and etl = "Inr True"]
  have ended: "rs_threads (?next (?next (?next (?next (?next ?m))))) = [\<lparr>th_proc = p, th_locked = True, th_phase = Ended\<rparr>]"
    using e(1) by simp
  have "run_step (marked p rows) ?m"
    using page_rows[of "marked p rows" p True] by (simp add: marked_run(3), simp add: marked_def no_runs_def)
  moreover have "run_step (?next (?next (?next (?next (?next ?m))))) (finished p rows)"
    unfolding finished_def by (rule release) (simp_all add: ended)
  ultimately have "run_reach (no_runs rows) (finished p rows)"
    using marked_run(1)[of rows p] a(3) b(3) c(3) d(3) e(3) by (simp, meson more)
  moreover have f: "rs_load (finished p rows) p = Some (RowsRead (Some ''running''))" "\<not> rs_lock (finished p rows) p"
    "rs_threads (finished p rows) = []"
    by (simp_all add: finished_def) (simp_all add: end_run_def ended)
  moreover have "rs_rows (finished p rows) ''etl_job_status'' = Some ''success''"
    using e(2) a(2) b(2) c(2) d(2) by (simp add: finished_def persist_row_def)
  ultimately show ?thesis
    by (intro exI[of _ "page_of p (Some ''running'') (finished p rows)"])
      (auto simp: page_of_simps shown_status_def intro: run_reach_trans page_of_reach)
qed

text \<open>In queue mode one request at a time leaves at most one live job, and two requests that read the queue
  before either inserts leave two.\<close>

definition live_runs :: "job_queue \<Rightarrow> nat" where
  "live_runs q = length (filter (\<lambda>r. j_task r = ''run_etl'' \<and> (j_status r = JPending \<or> j_status r = JRunning)) (jobs q))"

theorem queue_guard_races:
  "live_runs q \<le> 1 \<Longrightarrow> live_runs (snd (run_etl_via_queue now q q)) \<le> 1"
  "live_runs q = 0 \<Longrightarrow> live_runs (snd (run_etl_via_queue now2 q (snd (run_etl_via_queue now q q)))) = 2"
proof -
  have none: "live_run q = (live_runs q \<noteq> 0)" by (auto simp: live_run_def live_runs_def list_ex_iff filter_empty_conv)
  have free: "live_runs (snd (run_etl_via_queue now seen q)) = (if live_run seen then live_runs q else Suc (live_runs q))" for now seen q
    by (simp add: run_etl_via_queue_def enqueue_def live_runs_def)
  show "live_runs q \<le> 1 \<Longrightarrow> live_runs (snd (run_etl_via_queue now q q)) \<le> 1"
    "live_runs q = 0 \<Longrightarrow> live_runs (snd (run_etl_via_queue now2 q (snd (run_etl_via_queue now q q)))) = 2"
    by (simp_all add: free none)
qed

end
