(* ===== verification/ReportPanels.thy ===== *)
theory ReportPanels
  imports Periods
begin

text \<open>The panels of the reports page (\<open>reports\<close> in \<open>app/routes/ui.py\<close>), as functions of the products in
  scope, the movements, the orders and the warehouse facts.  The creation days of products and orders are
  arguments; \<open>ratio\<close> is the critical percentage over a hundred.\<close>

section \<open>Key figures and status\<close>

definition tally :: "('r \<Rightarrow> bool) \<Rightarrow> 'r list \<Rightarrow> int" where
  "tally P rows = int (length (filter P rows))"

definition is_out :: "product_row \<Rightarrow> bool" where "is_out r = (pr_stock r \<le> 0)"

definition is_critical :: "real \<Rightarrow> product_row \<Rightarrow> bool" where
  "is_critical ratio r = (0 < pr_stock r \<and> 0 < pr_reorder r \<and> of_int (pr_stock r) \<le> of_int (pr_reorder r) * ratio)"

definition is_warning :: "real \<Rightarrow> product_row \<Rightarrow> bool" where
  "is_warning ratio r = (0 < pr_stock r \<and> 0 < pr_reorder r \<and>
     of_int (pr_reorder r) * ratio < of_int (pr_stock r) \<and> pr_stock r \<le> pr_reorder r)"

definition is_low :: "product_row \<Rightarrow> bool" where
  "is_low r = (0 < pr_stock r \<and> 0 < pr_reorder r \<and> pr_stock r \<le> pr_reorder r)"

definition is_healthy :: "product_row \<Rightarrow> bool" where
  "is_healthy r = (0 < pr_stock r \<and> 0 < pr_reorder r \<and> pr_reorder r < pr_stock r)"

record kpis =
  kp_skus :: int
  kp_units :: int
  kp_value :: real
  kp_out :: int
  kp_below :: int

record stock_counts =
  sc_out :: int
  sc_critical :: int
  sc_warning :: int
  sc_total :: int

definition plain_kpis :: "product_row list \<Rightarrow> kpis" where
  "plain_kpis rows = \<lparr>kp_skus = int (length rows), kp_units = sum_list (map pr_stock rows), kp_value = stock_value rows,
     kp_out = tally is_out rows, kp_below = tally wants_order rows\<rparr>"

definition plain_counts :: "real \<Rightarrow> product_row list \<Rightarrow> stock_counts" where
  "plain_counts ratio rows = \<lparr>sc_out = tally is_out rows, sc_critical = tally (is_critical ratio) rows,
     sc_warning = tally (is_warning ratio) rows, sc_total = int (length rows)\<rparr>"

text \<open>Healthy, low, critical and out of stock, as the chart lists them.\<close>

definition status_values :: "stock_counts \<Rightarrow> int list" where
  "status_values c = [max 0 (sc_total c - sc_out c - sc_critical c - sc_warning c), sc_warning c, sc_critical c, sc_out c]"

section \<open>The category breakdown\<close>

record breakdown_row =
  br_category :: "string option"
  br_value :: real
  br_units :: int
  br_pct :: int
  br_tone :: string
  br_class :: string
  br_width :: string

definition shown_breakdown :: "(string option \<times> real \<times> int) list \<Rightarrow> breakdown_row list" where
  "shown_breakdown raw =
     (let s = sum_list (map (\<lambda>(c, v, u). v) raw); whole = (if s = 0 then 1 else s);
          tones = [''ink'', ''amber'', ''green'', ''blue'', '''']
      in map (\<lambda>(i, c, v, u). let tone = tones ! (i mod 5); pct = round_even (v / whole * 100) in
           \<lparr>br_category = c, br_value = v, br_units = u, br_pct = pct, br_tone = tone,
            br_class = ''bar-fill '' @ tone, br_width = int_str pct\<rparr>) (enumerate 0 raw))"

definition plain_breakdown :: "product_row list \<Rightarrow> (string option \<times> real \<times> int) list" where
  "plain_breakdown rows =
     (let rows = filter (\<lambda>r. pr_category r \<noteq> None \<and> pr_price r \<noteq> None) rows
      in sort_key (\<lambda>(c, v, u). - v) (map (\<lambda>c. let own = filter (\<lambda>r. pr_category r = c) rows in
           (c, stock_value own, sum_list (map pr_stock own))) (remdups (map pr_category rows))))"

text \<open>With a period the figures come from the daily facts, joined with the product dimension by key and with
  the products by SKU; a bound that is not set selects nothing.\<close>

definition fact_rows ::
  "(product_row \<Rightarrow> bool) \<Rightarrow> int option \<Rightarrow> int option \<Rightarrow> etl_db \<Rightarrow> catalog \<Rightarrow> (fact_movement \<times> dim_prod \<times> product_row) list" where
  "fact_rows scope lo hi etl cat = concat (map (\<lambda>f. concat (map (\<lambda>dp. concat (map (\<lambda>p.
       map (\<lambda>dw. (f, dp, p)) (filter (\<lambda>dw. dw_key dw = fm_wh f) (e_whs etl)))
       (filter (\<lambda>p. pr_sku p = dp_sku dp \<and> scope p) (product_rows cat))))
       (filter (\<lambda>dp. dp_key dp = fm_prod f) (e_prods etl))))
     (filter (\<lambda>f. case (lo, hi) of (Some a, Some b) \<Rightarrow> a \<le> fm_day f \<and> fm_day f < b | _ \<Rightarrow> False) (e_mfacts etl)))"

record category_figures =
  cf_category :: "string option"
  cf_value :: real
  cf_units :: int
  cf_skus :: int
  cf_out :: int
  cf_below :: int
  cf_critical :: int
  cf_warning :: int

definition period_figures :: "real \<Rightarrow> (fact_movement \<times> dim_prod \<times> product_row) list \<Rightarrow> category_figures list" where
  "period_figures ratio rows = sort_key (\<lambda>c. - cf_value c) (map (\<lambda>c.
     let own = filter (\<lambda>(f, dp, p). pr_category p = c) rows; ps = map (\<lambda>(f, dp, p). p) own in
     \<lparr>cf_category = c, cf_value = sum_list (map (\<lambda>(f, dp, p). of_int (fm_out f) * amount (pr_price p)) own),
      cf_units = sum_list (map (\<lambda>(f, dp, p). fm_out f) own), cf_skus = int (length (remdups (map (\<lambda>(f, dp, p). fm_prod f) own))),
      cf_out = tally is_out ps, cf_below = tally (\<lambda>r. is_low r \<and> pr_on_order r \<le> 0) ps,
      cf_critical = tally (is_critical ratio) ps, cf_warning = tally (is_warning ratio) ps\<rparr>)
     (remdups (map (\<lambda>(f, dp, p). pr_category p) rows)))"

text \<open>The key figures and the status of a period are those of the first row.\<close>

definition period_kpis :: "category_figures list \<Rightarrow> kpis" where
  "period_kpis figs = (case figs of [] \<Rightarrow> \<lparr>kp_skus = 0, kp_units = 0, kp_value = 0, kp_out = 0, kp_below = 0\<rparr>
     | c # _ \<Rightarrow> \<lparr>kp_skus = cf_skus c, kp_units = cf_units c, kp_value = cf_value c, kp_out = cf_out c, kp_below = cf_below c\<rparr>)"

definition period_counts :: "category_figures list \<Rightarrow> stock_counts" where
  "period_counts figs = (case figs of [] \<Rightarrow> \<lparr>sc_out = 0, sc_critical = 0, sc_warning = 0, sc_total = 0\<rparr>
     | c # _ \<Rightarrow> \<lparr>sc_out = cf_out c, sc_critical = cf_critical c, sc_warning = cf_warning c, sc_total = cf_skus c\<rparr>)"

definition period_breakdown :: "category_figures list \<Rightarrow> (string option \<times> real \<times> int) list" where
  "period_breakdown figs = map (\<lambda>c. (cf_category c, cf_value c, cf_units c)) figs"

section \<open>Warehouses and movements\<close>

record warehouse_figures =
  wf_name :: string
  wf_skus :: int
  wf_units :: int
  wf_value :: real
  wf_out :: int
  wf_low :: int
  wf_healthy :: int

definition warehouse_figures_of :: "product_row list \<Rightarrow> warehouse_figures list" where
  "warehouse_figures_of rows = sort_key (\<lambda>w. - wf_value w) (map (\<lambda>w.
     let own = filter (\<lambda>r. pr_warehouse r = w) rows in
     \<lparr>wf_name = (case w of None \<Rightarrow> ''Unassigned'' | Some n \<Rightarrow> n), wf_skus = int (length own),
      wf_units = sum_list (map pr_stock own), wf_value = stock_value own, wf_out = tally is_out own,
      wf_low = tally is_low own, wf_healthy = tally is_healthy own\<rparr>) (remdups (map pr_warehouse rows)))"

definition dropdown :: "(product_row \<Rightarrow> string option) \<Rightarrow> catalog \<Rightarrow> string list" where
  "dropdown field cat = sort (remdups (filter (\<lambda>t. t \<noteq> []) (List.map_filter field (product_rows cat))))"

definition movement_bounds :: "int \<Rightarrow> report_span \<Rightarrow> int option \<times> int option" where
  "movement_bounds now p = (if p = (None, None) then (Some (now - 29), Some (now + 1))
     else (fst p, map_option (\<lambda>d. d + 1) (snd p)))"

definition movement_days :: "int \<Rightarrow> report_span \<Rightarrow> int list" where
  "movement_days now p = (case p of (Some a, Some b) \<Rightarrow> [a..b] | _ \<Rightarrow> [now - 29..now])"

text \<open>\<open>strftime("%d %b")\<close>, and \<open>strftime("%b %y")\<close>.\<close>

definition short_day :: "int \<Rightarrow> string" where
  "short_day n = (case civil n of (y, m, d) \<Rightarrow> zfill 2 (nat_str (nat d)) @ '' '' @ month_names ! nat (m - 1))"

definition month_label :: "int \<Rightarrow> string" where
  "month_label n = (case civil n of (y, m, d) \<Rightarrow> month_names ! nat (m - 1) @ '' '' @ zfill 2 (nat_str (nat (y mod 100))))"

definition movement_series ::
  "(product_row \<Rightarrow> bool) \<Rightarrow> int \<Rightarrow> report_span \<Rightarrow> etl_db \<Rightarrow> catalog \<Rightarrow> string list \<times> int list \<times> int list" where
  "movement_series scope now p etl cat =
     (let rows = (case movement_bounds now p of (lo, hi) \<Rightarrow> fact_rows scope lo hi etl cat);
          at_day = (\<lambda>g d. sum_list (map (\<lambda>(f, dp, r). g f) (filter (\<lambda>(f, dp, r). fm_day f = d) rows)));
          ds = movement_days now p
      in (map short_day ds, map (at_day fm_in) ds, map (at_day fm_out) ds))"

text \<open>The eight products of the greatest value.\<close>

definition top_skus :: "product_row list \<Rightarrow> (string \<times> real) list" where
  "top_skus rows = take 8 (sort_key (\<lambda>(k, v). - v) (map (\<lambda>r. (pr_sku r, of_int (pr_stock r) * amount (pr_price r)))
     (filter (\<lambda>r. pr_price r \<noteq> None) rows)))"

definition period_top_skus :: "(fact_movement \<times> dim_prod \<times> product_row) list \<Rightarrow> (string \<times> real) list" where
  "period_top_skus rows =
     (let rows = filter (\<lambda>(f, dp, p). pr_price p \<noteq> None) rows;
          key = (\<lambda>(f, dp, p). (dp_sku dp, dp_name dp, pr_price p))
      in take 8 (sort_key (\<lambda>(k, v). - v) (map (\<lambda>k. (fst k, sum_list (map (\<lambda>(f, dp, p).
           of_int (fm_in f + fm_out f) * amount (pr_price p)) (filter (\<lambda>x. key x = k) rows)))) (remdups (map key rows)))))"

section \<open>Suppliers and reordering\<close>

record supplier_stat =
  ss_name :: string
  ss_location :: "string option"
  ss_reliability :: real
  ss_lead :: int
  ss_spend :: real
  ss_products :: nat

text \<open>A condition on the products in the \<open>WHERE\<close> clause turns the left join into an inner one.\<close>

definition supplier_stats :: "bool \<Rightarrow> product_row list \<Rightarrow> catalog \<Rightarrow> supplier_stat list" where
  "supplier_stats conditions rows cat = sort_key (\<lambda>s. - ss_spend s) (map (\<lambda>s.
     \<lparr>ss_name = su_name s, ss_location = su_location s, ss_reliability = su_reliability s, ss_lead = su_lead s,
      ss_spend = su_spend s, ss_products = length (filter (\<lambda>r. pr_supplier r = Some (su_id s)) rows)\<rparr>)
     (filter (\<lambda>s. \<not> conditions \<or> (\<exists>r\<in>set rows. pr_supplier r = Some (su_id s))) (supplier_rows cat)))"

definition supplier_name :: "catalog \<Rightarrow> product_row \<Rightarrow> string" where
  "supplier_name cat r = (case find_row (\<lambda>s. pr_supplier r = Some (su_id s)) (supplier_rows cat) of
     None \<Rightarrow> ''Unassigned'' | Some s \<Rightarrow> su_name s)"

text \<open>\<open>round(x, 2)\<close> of the server, which rounds halves up (stock is never negative).\<close>

definition hundredths :: "real \<Rightarrow> real" where
  "hundredths x = of_int \<lfloor>x * 100 + 1 / 2\<rfloor> / 100"

definition reorder_pressure :: "product_row list \<Rightarrow> (product_row \<times> real) list" where
  "reorder_pressure rows = take 12 (sort_key snd (map (\<lambda>r. (r, hundredths (of_int (pr_stock r) / of_int (pr_reorder r))))
     (filter (\<lambda>r. 0 < pr_reorder r \<and> pr_stock r \<le> pr_reorder r) rows)))"

text \<open>The counts are taken over the rows of the list above.\<close>

definition reorder_by_supplier :: "catalog \<Rightarrow> (product_row \<times> real) list \<Rightarrow> (string \<times> nat) list" where
  "reorder_by_supplier cat pressure =
     (let ns = map (supplier_name cat \<circ> fst) pressure
      in take 10 (sort_key (\<lambda>(n, k). - int k) (map (\<lambda>n. (n, count_list ns n)) (rev (remdups (rev ns))))))"

definition reorder_by_category :: "product_row list \<Rightarrow> (string \<times> int \<times> int) list" where
  "reorder_by_category rows = sort_key (\<lambda>(c, b, n). - b) (map (\<lambda>c. let own = filter (\<lambda>r. pr_category r = Some c) rows in
     (c, tally (\<lambda>r. 0 < pr_reorder r \<and> pr_stock r \<le> pr_reorder r) own, int (length own)))
     (remdups (List.map_filter pr_category rows)))"

definition reorder_value_gap :: "product_row list \<Rightarrow> (string \<times> real) list" where
  "reorder_value_gap rows =
     (let rows = filter (\<lambda>r. 0 < pr_reorder r \<and> pr_stock r < pr_reorder r) rows
      in sort_key (\<lambda>(c, v). - v) (map (\<lambda>c. (c, sum_list (map (\<lambda>r. of_int (max (pr_reorder r - pr_stock r) 0) * amount (pr_price r))
           (filter (\<lambda>r. pr_category r = Some c) rows)))) (remdups (List.map_filter pr_category rows))))"

definition open_po :: "po_db \<Rightarrow> nat" where
  "open_po db = length (filter (\<lambda>p. po_status p \<notin> {Received, Cancelled} \<and> \<not> po_deleted p) (orders db))"

definition thinnest :: "product_row list \<Rightarrow> product_row option" where
  "thinnest rows = (case sort_key (\<lambda>r. real_of_int (pr_stock r) / of_int (pr_reorder r)) (filter (\<lambda>r. 0 < pr_reorder r) rows) of
     [] \<Rightarrow> None | r # _ \<Rightarrow> Some r)"

section \<open>Health\<close>

text \<open>The stock against parts of the reorder point; the last bucket is what is above it.\<close>

definition covered :: "product_row \<Rightarrow> real option \<Rightarrow> real option \<Rightarrow> bool" where
  "covered r lo hi = (0 < pr_reorder r \<and>
     (case lo of None \<Rightarrow> True | Some a \<Rightarrow> of_int (pr_reorder r) * a \<le> of_int (pr_stock r)) \<and>
     (case hi of None \<Rightarrow> pr_stock r \<le> pr_reorder r | Some b \<Rightarrow> of_int (pr_stock r) < of_int (pr_reorder r) * b))"

definition coverage_distribution :: "product_row list \<Rightarrow> int list" where
  "coverage_distribution rows =
     [tally (\<lambda>r. covered r None (Some 0.25)) rows, tally (\<lambda>r. covered r (Some 0.25) (Some 0.5)) rows,
      tally (\<lambda>r. covered r (Some 0.5) (Some 0.75)) rows, tally (\<lambda>r. covered r (Some 0.75) None) rows,
      tally (\<lambda>r. 0 < pr_reorder r \<and> pr_reorder r < pr_stock r) rows]"

text \<open>The rows of a left join of products and their sales since a day.\<close>

definition sales_join :: "int \<Rightarrow> 'a inv_db_scheme \<Rightarrow> product_row list \<Rightarrow> (product_row \<times> movement option) list" where
  "sales_join since db rows = concat (map (\<lambda>r.
     let ms = filter (\<lambda>m. mv_product m = pr_id r \<and> mv_type m = ''OUT'' \<and> since \<le> mv_day m \<and> \<not> mv_deleted m) (movements db)
     in if ms = [] then [(r, None)] else map (\<lambda>m. (r, Some m)) ms) rows)"

definition category_coverage :: "'a inv_db_scheme \<Rightarrow> product_row list \<Rightarrow> (string \<times> real option) list" where
  "category_coverage db rows = map (\<lambda>c.
     let js = sales_join (today db - 90) db (filter (\<lambda>r. pr_category r = Some c) rows);
         units = real_of_int (sum_list (map (\<lambda>(r, m). pr_stock r) js));
         daily = sum_list (map (\<lambda>(r, m). case m of None \<Rightarrow> 0 | Some m \<Rightarrow> real_of_int (mv_quantity m)) js) / 90
     in (c, if 0.01 < daily then Some (round_to 0 (units / daily)) else None))
     (remdups (List.map_filter pr_category rows))"

definition warehouse_turnover :: "'a inv_db_scheme \<Rightarrow> product_row list \<Rightarrow> (string \<times> real) list" where
  "warehouse_turnover db rows =
     (let rows = filter (\<lambda>r. pr_price r \<noteq> None) rows
      in map (\<lambda>w. let js = sales_join (today db - 365) db (filter (\<lambda>r. pr_warehouse r = Some w) rows);
           cogs = sum_list (map (\<lambda>(r, m). case m of None \<Rightarrow> 0 | Some m \<Rightarrow> of_int (mv_quantity m) * amount (pr_price r)) js);
           inv = mean (map (\<lambda>(r, m). of_int (pr_stock r) * amount (pr_price r)) js)
         in (w, if 10 < inv then round_to 2 (cogs / inv) else 0)) (remdups (List.map_filter pr_warehouse rows)))"

text \<open>The value of the stock by the day of the last sale, or of the product's creation.\<close>

definition value_where :: "(product_row \<Rightarrow> bool) \<Rightarrow> product_row list \<Rightarrow> real" where
  "value_where P rows = stock_value (filter P rows)"

definition stock_aging :: "(int \<Rightarrow> int) \<Rightarrow> 'a inv_db_scheme \<Rightarrow> product_row list \<Rightarrow> real list" where
  "stock_aging created db rows =
     (let day = last_out created db; t = today db
      in [value_where (\<lambda>r. t - 30 \<le> day r) rows, value_where (\<lambda>r. day r < t - 30 \<and> t - 90 \<le> day r) rows,
          value_where (\<lambda>r. day r < t - 90) rows])"

definition last_move :: "(int \<Rightarrow> int) \<Rightarrow> 'a inv_db_scheme \<Rightarrow> product_row \<Rightarrow> int" where
  "last_move created db r =
     (let ds = map mv_day (filter (\<lambda>m. mv_product m = pr_id r \<and> \<not> mv_deleted m) (movements db))
      in if ds = [] then created (pr_id r) else Max (set ds))"

definition idle_distribution :: "(int \<Rightarrow> int) \<Rightarrow> 'a inv_db_scheme \<Rightarrow> product_row list \<Rightarrow> int list" where
  "idle_distribution created db rows =
     (let day = last_move created db; t = today db
      in [tally (\<lambda>r. t - 7 \<le> day r) rows, tally (\<lambda>r. day r < t - 7 \<and> t - 30 \<le> day r) rows,
          tally (\<lambda>r. day r < t - 30 \<and> t - 90 \<le> day r) rows, tally (\<lambda>r. day r < t - 90) rows])"

definition top_active :: "'a inv_db_scheme \<Rightarrow> product_row list \<Rightarrow> (string \<times> int) list" where
  "top_active db rows =
     (let own = (\<lambda>r. filter (\<lambda>m. mv_product m = pr_id r \<and> today db - 30 \<le> mv_day m \<and> \<not> mv_deleted m) (movements db))
      in take 10 (sort_key (\<lambda>(k, u). - u) (map (\<lambda>r. (pr_sku r, sum_list (map mv_quantity (own r))))
           (filter (\<lambda>r. own r \<noteq> []) rows))))"

definition category_counts_of :: "product_row list \<Rightarrow> (string \<times> nat) list" where
  "category_counts_of rows = (let cs = List.map_filter pr_category rows
     in sort_key (\<lambda>(c, k). - int k) (map (\<lambda>c. (c, count_list cs c)) (remdups cs)))"

definition product_table :: "product_row list \<Rightarrow> product_row list" where
  "product_table rows = take 12 (sort_key (\<lambda>r. - (of_int (pr_stock r) * amount (pr_price r))) (filter (\<lambda>r. pr_price r \<noteq> None) rows))"

section \<open>The buckets\<close>

lemma tally_sum: "tally P rows = (\<Sum>r\<leftarrow>rows. if P r then 1 else 0)"
  by (induction rows) (simp_all add: tally_def)

lemma tally_cong: "(\<And>r. r \<in> set rows \<Longrightarrow> P r = Q r) \<Longrightarrow> tally P rows = tally Q rows"
  by (simp add: tally_def cong: filter_cong)

lemma tally_split: "(\<And>r. P r \<longleftrightarrow> A r \<or> B r) \<Longrightarrow> (\<And>r. \<not> (A r \<and> B r)) \<Longrightarrow> tally P rows = tally A rows + tally B rows"
  by (induction rows) (auto simp: tally_def)

lemma tally_all: "tally (\<lambda>r. True) rows = int (length rows)"
  by (simp add: tally_def)

lemma tally_nonneg: "0 \<le> tally P rows"
  by (simp add: tally_def)

lemma value_split: "(\<And>r. P r \<longleftrightarrow> A r \<or> B r) \<Longrightarrow> (\<And>r. \<not> (A r \<and> B r)) \<Longrightarrow> value_where P rows = value_where A rows + value_where B rows"
  by (induction rows) (auto simp: value_where_def stock_value_def)

lemma status_partition:
  fixes ratio :: real and rows :: "product_row list"
  defines "rest \<equiv> \<lambda>r. \<not> is_out r \<and> \<not> is_critical ratio r \<and> \<not> is_warning ratio r"
  shows "status_values (plain_counts ratio rows) = [tally rest rows, tally (is_warning ratio) rows, tally (is_critical ratio) rows, tally is_out rows]"
    "tally rest rows + tally (is_warning ratio) rows + tally (is_critical ratio) rows + tally is_out rows = int (length rows)"
proof -
  have d: "\<not> (is_out r \<and> is_critical ratio r)" "\<not> (is_out r \<and> is_warning ratio r)" "\<not> (is_critical ratio r \<and> is_warning ratio r)" for r
    by (auto simp: is_out_def is_critical_def is_warning_def)
  have "tally (\<lambda>r. True) rows = tally is_out rows + tally (\<lambda>r. \<not> is_out r) rows" by (rule tally_split) auto
  moreover have "tally (\<lambda>r. \<not> is_out r) rows = tally (is_critical ratio) rows + tally (\<lambda>r. \<not> is_out r \<and> \<not> is_critical ratio r) rows"
    by (rule tally_split) (use d in auto)
  moreover have "tally (\<lambda>r. \<not> is_out r \<and> \<not> is_critical ratio r) rows = tally (is_warning ratio) rows + tally rest rows"
    by (rule tally_split) (use d in \<open>auto simp: rest_def\<close>)
  ultimately show s: "tally rest rows + tally (is_warning ratio) rows + tally (is_critical ratio) rows + tally is_out rows = int (length rows)"
    by (simp add: tally_all)
  show "status_values (plain_counts ratio rows) = [tally rest rows, tally (is_warning ratio) rows, tally (is_critical ratio) rows, tally is_out rows]"
    using s tally_nonneg[of rest rows] by (simp add: status_values_def plain_counts_def)
qed

lemma coverage_partition: "sum_list (coverage_distribution rows) = tally (\<lambda>r. 0 < pr_reorder r) rows"
proof -
  have "(if 0 < pr_reorder r then 1 else 0 :: int) = (if covered r None (Some 0.25) then 1 else 0) + ((if covered r (Some 0.25) (Some 0.5) then 1 else 0)
      + ((if covered r (Some 0.5) (Some 0.75) then 1 else 0) + ((if covered r (Some 0.75) None then 1 else 0)
      + (if 0 < pr_reorder r \<and> pr_reorder r < pr_stock r then 1 else 0))))" for r
  proof (cases "0 < pr_reorder r")
    case True
    define x where "x = real_of_int (pr_reorder r)"
    define s where "s = real_of_int (pr_stock r)"
    have "0 < x" and le: "pr_stock r \<le> pr_reorder r \<longleftrightarrow> s \<le> x" using True by (simp_all add: x_def s_def)
    then show ?thesis using True by (simp add: covered_def x_def[symmetric] s_def[symmetric] linorder_not_less[symmetric])
  qed (simp add: covered_def)
  then show ?thesis by (simp add: coverage_distribution_def tally_sum sum_list_addf[symmetric] add.assoc)
qed

lemma idle_partition: "sum_list (idle_distribution created db rows) = int (length rows)"
proof -
  have "(1 :: int) = (if t - 7 \<le> x then 1 else 0) + ((if x < t - 7 \<and> t - 30 \<le> x then 1 else 0)
     + ((if x < t - 30 \<and> t - 90 \<le> x then 1 else 0) + (if x < t - 90 then 1 else 0)))" for x t :: int by auto
  then have "tally (\<lambda>r. True) rows = sum_list (idle_distribution created db rows)"
    by (simp add: idle_distribution_def Let_def tally_sum sum_list_addf[symmetric] add.assoc)
  then show ?thesis by (simp add: tally_all)
qed

lemma aging_partition: "sum_list (stock_aging created db rows) = stock_value rows"
proof -
  let ?d = "last_out created db" and ?t = "today db"
  have "value_where (\<lambda>r. True) rows = value_where (\<lambda>r. ?t - 30 \<le> ?d r) rows + value_where (\<lambda>r. ?d r < ?t - 30) rows"
    by (rule value_split) auto
  moreover have "value_where (\<lambda>r. ?d r < ?t - 30) rows
      = value_where (\<lambda>r. ?d r < ?t - 30 \<and> ?t - 90 \<le> ?d r) rows + value_where (\<lambda>r. ?d r < ?t - 90) rows"
    by (rule value_split) auto
  ultimately show ?thesis by (simp add: stock_aging_def Let_def value_where_def)
qed

lemma grouped_tally: "(\<Sum>w\<leftarrow>remdups (map g rows). tally P (filter (\<lambda>r. g r = w) rows)) = tally P rows"
proof -
  have "(\<Sum>w\<leftarrow>ws. tally P (filter (\<lambda>r. g r = w) rows)) = tally (\<lambda>r. P r \<and> g r \<in> set ws) rows" if "distinct ws" for ws
    using that
  proof (induction ws)
    case (Cons w ws)
    have "tally (\<lambda>r. P r \<and> g r \<in> set (w # ws)) rows = tally (\<lambda>r. P r \<and> g r = w) rows + tally (\<lambda>r. P r \<and> g r \<in> set ws) rows"
      by (rule tally_split) (use Cons.prems in auto)
    moreover have "tally P (filter (\<lambda>r. g r = w) rows) = tally (\<lambda>r. P r \<and> g r = w) rows"
      by (simp add: tally_def conj_commute)
    ultimately show ?case using Cons by simp
  qed (simp add: tally_def)
  from this[of "remdups (map g rows)"] show ?thesis by (simp add: tally_def cong: filter_cong)
qed

lemma sum_list_sort_key: "sum_list (map h (sort_key k xs)) = sum_list (map h xs)" for h :: "'a \<Rightarrow> 'b :: comm_monoid_add"
  by (metis mset_map mset_sort sum_mset_sum_list)

lemma warehouse_partition:
  "(\<Sum>w\<leftarrow>warehouse_figures_of rows. wf_skus w) = int (length rows)"
  "(\<Sum>w\<leftarrow>warehouse_figures_of rows. wf_out w + wf_low w + wf_healthy w) = tally (\<lambda>r. pr_stock r \<le> 0 \<or> 0 < pr_reorder r) rows"
proof -
  have e: "tally is_out own + tally is_low own + tally is_healthy own = tally (\<lambda>r. pr_stock r \<le> 0 \<or> 0 < pr_reorder r) own" for own
  proof -
    have "tally (\<lambda>r. pr_stock r \<le> 0 \<or> 0 < pr_reorder r) own = tally is_out own + tally (\<lambda>r. is_low r \<or> is_healthy r) own"
      by (rule tally_split) (auto simp: is_out_def is_low_def is_healthy_def)
    moreover have "tally (\<lambda>r. is_low r \<or> is_healthy r) own = tally is_low own + tally is_healthy own"
      by (rule tally_split) (auto simp: is_low_def is_healthy_def)
    ultimately show ?thesis by simp
  qed
  show "(\<Sum>w\<leftarrow>warehouse_figures_of rows. wf_skus w) = int (length rows)"
    using grouped_tally[of "\<lambda>r. True" pr_warehouse rows]
    by (simp add: warehouse_figures_of_def sum_list_sort_key comp_def Let_def tally_all)
  show "(\<Sum>w\<leftarrow>warehouse_figures_of rows. wf_out w + wf_low w + wf_healthy w) = tally (\<lambda>r. pr_stock r \<le> 0 \<or> 0 < pr_reorder r) rows"
    using grouped_tally[of "\<lambda>r. pr_stock r \<le> 0 \<or> 0 < pr_reorder r" pr_warehouse rows]
    by (simp add: warehouse_figures_of_def sum_list_sort_key comp_def Let_def e)
qed

section \<open>Figures that are not what they are called\<close>

text \<open>With a period the status chart counts the daily rows of the first category: a product that is out of
  stock and was sold on \<open>n\<close> days is \<open>n\<close> products out of stock, of one.\<close>

theorem period_status_counts_days:
  assumes "fs \<noteq> []" "\<forall>f\<in>set fs. fm_prod f = k" "is_out r"
  shows "status_values (period_counts (period_figures ratio (map (\<lambda>f. (f, dp, r)) fs))) = [0, 0, 0, int (length fs)]"
    "kp_skus (period_kpis (period_figures ratio (map (\<lambda>f. (f, dp, r)) fs))) = 1"
proof -
  have one: "remdups xs = [x]" if "xs \<noteq> []" "set xs \<subseteq> {x}" for x :: 'x and xs
    using that
  proof (induction xs)
    case (Cons y ys)
    then show ?case by (cases ys) auto
  qed simp
  have c: "remdups (map (\<lambda>f. pr_category r) fs) = [pr_category r]" "remdups (map fm_prod fs) = [k]"
    by (rule one; use assms(1,2) in auto)+
  have t: "tally P (map (\<lambda>f. r) fs) = (if P r then int (length fs) else 0)" for P
    by (induction fs) (auto simp: tally_def)
  have n: "\<not> is_critical ratio r" "\<not> is_warning ratio r" using assms(3) by (auto simp: is_out_def is_critical_def is_warning_def)
  have "1 \<le> int (length fs)" using assms(1) by (cases fs) simp_all
  then show "status_values (period_counts (period_figures ratio (map (\<lambda>f. (f, dp, r)) fs))) = [0, 0, 0, int (length fs)]"
    "kp_skus (period_kpis (period_figures ratio (map (\<lambda>f. (f, dp, r)) fs))) = 1"
    using assms(3) n by (simp_all add: period_figures_def period_counts_def period_kpis_def status_values_def comp_def c t filter_map)
qed

text \<open>The days of cover take the stock once for every sale of the product.\<close>

theorem cover_counts_stock_per_sale:
  "sum_list (map (\<lambda>(r, m). pr_stock r) (sales_join since db rows)) = (\<Sum>r\<leftarrow>rows. pr_stock r * int (max 1 (length
     (filter (\<lambda>m. mv_product m = pr_id r \<and> mv_type m = ''OUT'' \<and> since \<le> mv_day m \<and> \<not> mv_deleted m) (movements db)))))"
proof (induction rows)
  case (Cons r rows)
  have one: "sum_list (map (\<lambda>(r, m). pr_stock r) (if ms = [] then [(r, None)] else map (\<lambda>m. (r, Some m)) ms))
      = pr_stock r * int (max 1 (length ms))" for ms :: "movement list"
    by (cases ms) (simp_all add: sum_list_triv comp_def algebra_simps)
  show ?case unfolding sales_join_def Let_def list.map concat.simps map_append sum_list_append one
    using Cons by (simp add: sales_join_def Let_def)
qed (simp add: sales_join_def)

text \<open>The suppliers' counts are taken over the twelve rows that the list shows.\<close>

theorem supplier_counts_capped: "sum_list (map snd (reorder_by_supplier cat (reorder_pressure rows))) \<le> 12"
proof -
  define ns where "ns = map (supplier_name cat \<circ> fst) (reorder_pressure rows)"
  have "sum_list (map (count_list xs) ds) \<le> length xs" if "distinct ds" for xs ds :: "string list"
    using that
  proof (induction xs)
    case (Cons x xs)
    have "sum_list (map (count_list (x # xs)) ds) = sum_list (map (count_list xs) ds) + count_list ds x"
      by (induction ds) auto
    moreover have "count_list ds x \<le> 1" using Cons.prems by (induction ds) (auto simp: count_list_0_iff)
    ultimately show ?case using Cons by (simp del: count_list.simps)
  qed simp
  from this[of "rev (remdups (rev ns))" ns] have all: "sum_list (map (count_list ns) (rev (remdups (rev ns)))) \<le> length ns" by simp
  have "length ns \<le> 12" by (simp add: ns_def reorder_pressure_def)
  let ?xs = "sort_key (\<lambda>(n, k). - int k) (map (\<lambda>n. (n, count_list ns n)) (rev (remdups (rev ns))))"
  have "sum_list (map snd (take 10 ?xs)) \<le> sum_list (map snd ?xs)"
    using sum_list_append[of "map snd (take 10 ?xs)" "map snd (drop 10 ?xs)"] by (simp only: map_append[symmetric] append_take_drop_id)
  also have "\<dots> = sum_list (map (count_list ns) (rev (remdups (rev ns))))"
    unfolding sum_list_sort_key by (simp add: comp_def)
  finally show ?thesis using all \<open>length ns \<le> 12\<close> by (simp add: reorder_by_supplier_def Let_def ns_def)
qed

end
