(* ===== verification/ReportTrends.thy ===== *)
theory ReportTrends
  imports ReportPanels
begin

text \<open>The trends of the reports page (\<open>reports\<close> in \<open>app/routes/ui.py\<close>): month, quarter and year to date against
  the periods before, the monthly series, and the page that puts the panels together and caches them.\<close>

section \<open>Figures of a period\<close>

definition filtered_movements ::
  "report_filter \<Rightarrow> (product_row \<Rightarrow> movement \<Rightarrow> bool) \<Rightarrow> catalog \<Rightarrow> 'a inv_db_scheme \<Rightarrow> (product_row \<times> movement) list" where
  "filtered_movements flt P = product_movements (\<lambda>r m. in_filter flt r \<and> \<not> mv_deleted m \<and> P r m)"

definition units_of :: "(product_row \<times> movement \<Rightarrow> bool) \<Rightarrow> (product_row \<times> movement) list \<Rightarrow> int" where
  "units_of P js = sum_list (map (\<lambda>(r, m). mv_quantity m) (filter P js))"

definition worth_of :: "(product_row \<times> movement \<Rightarrow> bool) \<Rightarrow> (product_row \<times> movement) list \<Rightarrow> real" where
  "worth_of P js = sum_list (map (\<lambda>(r, m). of_int (mv_quantity m) * amount (pr_price r)) (filter P js))"

definition of_kind :: "string \<Rightarrow> product_row \<times> movement \<Rightarrow> bool" where
  "of_kind ty x = (mv_type (snd x) = ty)"

record metrics =
  me_units_in :: int
  me_units_out :: int
  me_value_in :: real
  me_value_out :: real
  me_skus :: nat

definition period_metrics :: "report_filter \<Rightarrow> catalog \<Rightarrow> 'a inv_db_scheme \<Rightarrow> int \<Rightarrow> int \<Rightarrow> metrics" where
  "period_metrics flt cat db a b =
     (let js = filtered_movements flt (\<lambda>r m. a \<le> mv_day m \<and> mv_day m < b) cat db
      in \<lparr>me_units_in = units_of (of_kind ''IN'') js, me_units_out = units_of (of_kind ''OUT'') js,
          me_value_in = worth_of (of_kind ''IN'') js, me_value_out = worth_of (of_kind ''OUT'') js,
          me_skus = length (remdups (map (\<lambda>(r, m). mv_product m) (filter (of_kind ''OUT'') js)))\<rparr>)"

text \<open>Orders created in a period; \<open>made\<close> is the day an order was created.\<close>

definition order_metrics :: "(int \<Rightarrow> int) \<Rightarrow> po_db \<Rightarrow> int \<Rightarrow> int \<Rightarrow> real \<times> nat" where
  "order_metrics made db a b =
     (let ps = filter (\<lambda>p. a \<le> made (po_id p) \<and> made (po_id p) < b \<and> \<not> po_deleted p) (orders db)
      in (sum_list (map (\<lambda>p. of_int (po_quantity p) * po_unit_cost p) ps), length ps))"

record period_figures_row =
  pf_metrics :: metrics
  pf_net :: int
  pf_po_value :: real
  pf_po_count :: nat

definition period_dict :: "metrics \<Rightarrow> real \<times> nat \<Rightarrow> period_figures_row" where
  "period_dict m po = \<lparr>pf_metrics = m, pf_net = me_units_in m - me_units_out m, pf_po_value = fst po, pf_po_count = snd po\<rparr>"

definition sale_count :: "report_filter \<Rightarrow> catalog \<Rightarrow> 'a inv_db_scheme \<Rightarrow> int \<Rightarrow> int \<Rightarrow> nat" where
  "sale_count flt cat db a b = length (filtered_movements flt (\<lambda>r m. mv_type m = ''OUT'' \<and> a \<le> mv_day m \<and> mv_day m < b) cat db)"

record sales_figures =
  sf_revenue :: int
  sf_units :: int
  sf_orders :: nat

definition sales_figures_of :: "report_filter \<Rightarrow> catalog \<Rightarrow> 'a inv_db_scheme \<Rightarrow> int \<Rightarrow> int \<Rightarrow> sales_figures" where
  "sales_figures_of flt cat db a b = (let m = period_metrics flt cat db a b in
     \<lparr>sf_revenue = round_even (me_value_out m), sf_units = me_units_out m, sf_orders = sale_count flt cat db a b\<rparr>)"

section \<open>Year to date\<close>

definition priced :: "product_row \<Rightarrow> bool" where "priced r = (pr_price r \<noteq> None)"

text \<open>What moved in a month, in and out, and what was sold in it.\<close>

definition in_month :: "int \<Rightarrow> int \<Rightarrow> movement \<Rightarrow> bool" where
  "in_month y m mv = (year_of (mv_day mv) = y \<and> month_number (mv_day mv) = m)"

definition month_value :: "report_filter \<Rightarrow> catalog \<Rightarrow> 'a inv_db_scheme \<Rightarrow> int \<Rightarrow> int \<Rightarrow> real" where
  "month_value flt cat db y m =
     (let js = filtered_movements flt (\<lambda>r mv. priced r \<and> ordinal (year_of (today db) - 1) 1 1 \<le> mv_day mv \<and> in_month y m mv) cat db
      in worth_of (of_kind ''IN'') js + worth_of (of_kind ''OUT'') js)"

definition month_sales :: "report_filter \<Rightarrow> catalog \<Rightarrow> 'a inv_db_scheme \<Rightarrow> int \<Rightarrow> int \<Rightarrow> real" where
  "month_sales flt cat db y m =
     (if year_of (today db) - 2 \<le> y \<and> y \<le> year_of (today db)
      then worth_of (of_kind ''OUT'') (filtered_movements flt (\<lambda>r mv. priced r \<and> in_month y m mv) cat db) else 0)"

fun running :: "real \<Rightarrow> real list \<Rightarrow> real list" where
  "running c [] = []"
| "running c (x # xs) = (c + x) # running (c + x) xs"

definition ytd_compare :: "report_filter \<Rightarrow> catalog \<Rightarrow> 'a inv_db_scheme \<Rightarrow> string list \<times> int list \<times> int list" where
  "ytd_compare flt cat db =
     (let y = year_of (today db); months = [1..month_number (today db)];
          upto = (\<lambda>yr. map round_even (running 0 (map (month_value flt cat db yr) months)))
      in (map (\<lambda>m. month_names ! nat (m - 1)) months, upto y, upto (y - 1)))"

definition sales_ytd :: "report_filter \<Rightarrow> catalog \<Rightarrow> 'a inv_db_scheme \<Rightarrow> int \<Rightarrow> int list" where
  "sales_ytd flt cat db yr = map round_even (running 0 (map (month_sales flt cat db yr) [1..month_number (today db)]))"

definition quarter_of :: "int \<Rightarrow> int" where "quarter_of m = (m - 1) div 3 + 1"

definition quarter_total :: "(int \<Rightarrow> real) \<Rightarrow> int \<Rightarrow> real" where
  "quarter_total g q = sum_list (map g [(q - 1) * 3 + 1..q * 3])"

definition sales_qtd :: "report_filter \<Rightarrow> catalog \<Rightarrow> 'a inv_db_scheme \<Rightarrow> int \<Rightarrow> int list" where
  "sales_qtd flt cat db yr =
     map round_even (running 0 (map (quarter_total (month_sales flt cat db yr)) [1..quarter_of (month_number (today db))]))"

definition compared_years :: "int \<Rightarrow> int list" where "compared_years y = [y - 2, y - 1, y]"

text \<open>The first days of the running quarter and of the one before.\<close>

definition quarter_starts :: "int \<Rightarrow> int \<times> int" where
  "quarter_starts now = (let y = year_of now; q = quarter_of (month_number now); m = (q - 1) * 3 + 1; pm = m - 3
     in (ordinal y m 1, if pm \<le> 0 then ordinal (y - 1) (pm + 12) 1 else ordinal y pm 1))"

text \<open>Two windows side by side, by category, with the greater current value first: everything, then sales only.\<close>

definition compare_by_category ::
  "report_filter \<Rightarrow> (movement \<Rightarrow> bool) \<Rightarrow> int \<times> int \<Rightarrow> int \<times> int \<Rightarrow> catalog \<Rightarrow> 'a inv_db_scheme \<Rightarrow>
   (string \<times> real \<times> real \<times> real \<times> real) list" where
  "compare_by_category flt P now before cat db =
     (let js = filtered_movements flt (\<lambda>r m. P m \<and> pr_category r \<noteq> None \<and> priced r) cat db;
          worth = (\<lambda>c ty w. worth_of (\<lambda>(r, m). pr_category r = Some c \<and> ty m \<and> fst w \<le> mv_day m \<and> mv_day m < snd w) js);
          sold = (\<lambda>m. mv_type m = ''OUT'')
      in sort_key (\<lambda>(c, v, _). - v) (map (\<lambda>c. (c, worth c (\<lambda>m. True) now, worth c (\<lambda>m. True) before, worth c sold now, worth c sold before))
           (remdups (List.map_filter (\<lambda>(r, m). pr_category r) js))))"

section \<open>Monthly series\<close>

text \<open>The walk back from the first of the month: \<open>(d - timedelta(days=1)).replace(day=1)\<close>.\<close>

fun months_back :: "nat \<Rightarrow> int \<Rightarrow> int list" where
  "months_back 0 d = []"
| "months_back (Suc k) d = d # months_back k (first_of_month (d - 1))"

definition month_labels :: "int \<Rightarrow> int list" where
  "month_labels now = rev (months_back 12 (first_of_month now))"

text \<open>\<open>DATE_TRUNC('month', NOW()) - INTERVAL '11 months'\<close>\<close>

definition window_start :: "int \<Rightarrow> int" where
  "window_start now = (let y = year_of now; m = month_number now in if m = 12 then ordinal y 1 1 else ordinal (y - 1) (m + 1) 1)"

definition monthly_movements :: "report_filter \<Rightarrow> catalog \<Rightarrow> 'a inv_db_scheme \<Rightarrow> (product_row \<times> movement) list" where
  "monthly_movements flt cat db = filtered_movements flt (\<lambda>r m. priced r \<and> window_start (today db) \<le> mv_day m) cat db"

definition month_key :: "product_row \<times> movement \<Rightarrow> int" where "month_key x = first_of_month (mv_day (snd x))"

text \<open>The rows of a query grouped by month, looked up by the labels; a month without rows shows zero.\<close>

definition by_label :: "((product_row \<times> movement) list \<Rightarrow> 'v) \<Rightarrow> 'v \<Rightarrow> (product_row \<times> movement) list \<Rightarrow> int \<Rightarrow> 'v" where
  "by_label g zero js lm = (if lm \<in> set (map month_key js) then g (filter (\<lambda>x. month_key x = lm) js) else zero)"

definition monthly_series :: "report_filter \<Rightarrow> catalog \<Rightarrow> 'a inv_db_scheme \<Rightarrow> string list \<times> int list \<times> int list" where
  "monthly_series flt cat db =
     (let js = monthly_movements flt cat db; ls = month_labels (today db)
      in (map month_label ls, map (by_label (units_of (of_kind ''IN'')) 0 js) ls, map (by_label (units_of (of_kind ''OUT'')) 0 js) ls))"

definition sales_monthly :: "report_filter \<Rightarrow> catalog \<Rightarrow> 'a inv_db_scheme \<Rightarrow> string list \<times> int list \<times> int list" where
  "sales_monthly flt cat db =
     (let js = monthly_movements flt cat db; ls = month_labels (today db)
      in (map month_label ls, map (by_label (\<lambda>js. round_even (worth_of (of_kind ''OUT'') js)) 0 js) ls,
          map (by_label (units_of (of_kind ''OUT'')) 0 js) ls))"

definition po_monthly_trend :: "(int \<Rightarrow> int) \<Rightarrow> po_db \<Rightarrow> string list \<times> int list \<times> nat list" where
  "po_monthly_trend made db =
     (let ps = filter (\<lambda>p. window_start (today db) \<le> made (po_id p) \<and> po_status p \<noteq> Cancelled \<and> \<not> po_deleted p) (orders db);
          own = (\<lambda>lm. filter (\<lambda>p. first_of_month (made (po_id p)) = lm) ps); ls = month_labels (today db)
      in (map month_label ls, map (\<lambda>lm. round_even (sum_list (map (\<lambda>p. of_int (po_quantity p) * po_unit_cost p) (own lm)))) ls,
          map (\<lambda>lm. length (own lm)) ls))"

text \<open>The revenue mix of the last year, one column per category.\<close>

definition category_mix :: "report_filter \<Rightarrow> catalog \<Rightarrow> 'a inv_db_scheme \<Rightarrow> string list \<times> string list \<times> int list list" where
  "category_mix flt cat db =
     (let js = filtered_movements flt (\<lambda>r m. mv_type m = ''OUT'' \<and> pr_category r \<noteq> None \<and> priced r \<and> today db - 365 \<le> mv_day m) cat db;
          cs = sort (remdups (List.map_filter (\<lambda>(r, m). pr_category r) js)); ls = month_labels (today db)
      in (map month_label ls, cs, map (\<lambda>lm. map (\<lambda>c. round_even (worth_of (\<lambda>x. pr_category (fst x) = Some c \<and> month_key x = lm) js)) cs) ls))"

section \<open>Sales by month, year and quarter\<close>

text \<open>The monthly sales since 2024, in the order of the months: first day, value and units.\<close>

definition sales_rows :: "report_filter \<Rightarrow> catalog \<Rightarrow> 'a inv_db_scheme \<Rightarrow> (int \<times> real \<times> int) list" where
  "sales_rows flt cat db =
     (let js = filtered_movements flt (\<lambda>r m. mv_type m = ''OUT'' \<and> priced r \<and> ordinal 2024 1 1 \<le> mv_day m) cat db
      in map (\<lambda>lm. let own = filter (\<lambda>x. month_key x = lm) js in (lm, worth_of (\<lambda>x. True) own, units_of (\<lambda>x. True) own))
           (sort (remdups (map month_key js))))"

text \<open>A dictionary of totals, in the order of insertion: \<open>setdefault\<close> and then \<open>+=\<close>.\<close>

fun add_to :: "'k \<Rightarrow> real \<Rightarrow> int \<Rightarrow> ('k \<times> real \<times> int) list \<Rightarrow> ('k \<times> real \<times> int) list" where
  "add_to k v u [] = [(k, v, u)]"
| "add_to k v u ((k', v', u') # d) = (if k' = k then (k', v' + v, u' + u) # d else (k', v', u') # add_to k v u d)"

definition totals :: "(int \<Rightarrow> 'k) \<Rightarrow> (int \<times> real \<times> int) list \<Rightarrow> ('k \<times> real \<times> int) list" where
  "totals key rows = fold (\<lambda>(lm, v, u) d. add_to (key lm) v u d) rows []"

definition quarter_key :: "int \<Rightarrow> int \<times> int" where "quarter_key lm = (year_of lm, quarter_of (month_number lm))"

definition sales_years :: "(int \<times> real \<times> int) list \<Rightarrow> (int \<times> int \<times> int) list" where
  "sales_years rows = (let d = totals year_of rows in map (\<lambda>y. case map_of d y of
     None \<Rightarrow> (y, 0, 0) | Some (v, u) \<Rightarrow> (y, round_even v, u)) (sort (map fst d)))"

text \<open>The labels are sorted, the values are not.\<close>

definition sales_quarters :: "(int \<times> real \<times> int) list \<Rightarrow> (int \<times> int) list \<times> int list \<times> int list" where
  "sales_quarters rows = (let d = totals quarter_key rows in
     (sort (map fst d), map (\<lambda>(k, v, u). round_even v) d, map (\<lambda>(k, v, u). u) d))"

definition months_of_year :: "(int \<times> real \<times> int) list \<Rightarrow> int \<Rightarrow> (string \<times> int \<times> int) list" where
  "months_of_year rows y = map (\<lambda>(lm, v, u). (month_names ! nat (month_number lm - 1), round_even v, u))
     (filter (\<lambda>(lm, v, u). year_of lm = y) rows)"

definition year_series :: "report_filter \<Rightarrow> catalog \<Rightarrow> 'a inv_db_scheme \<Rightarrow> (int \<times> int \<times> int) list" where
  "year_series flt cat db =
     (let js = filtered_movements flt (\<lambda>r m. priced r) cat db; yr = (\<lambda>x. year_of (mv_day (snd x)))
      in map (\<lambda>y. let own = filter (\<lambda>x. yr x = y) js in
           (y, round_even (worth_of (of_kind ''IN'') own), round_even (worth_of (of_kind ''OUT'') own))) (sort (remdups (map yr js))))"

definition sales_warehouse :: "report_filter \<Rightarrow> catalog \<Rightarrow> 'a inv_db_scheme \<Rightarrow> (string \<times> int \<times> real) list" where
  "sales_warehouse flt cat db =
     (let js = filtered_movements flt (\<lambda>r m. mv_type m = ''OUT'' \<and> pr_warehouse r \<noteq> None \<and> priced r) cat db
      in sort_key (\<lambda>(w, u, v). - v) (map (\<lambda>w. let P = (\<lambda>(r, m). pr_warehouse r = Some w) in (w, units_of P js, worth_of P js))
           (remdups (List.map_filter (\<lambda>(r, m). pr_warehouse r) js))))"

definition top_sellers :: "report_filter \<Rightarrow> catalog \<Rightarrow> 'a inv_db_scheme \<Rightarrow> seller list" where
  "top_sellers flt cat db =
     (let js = filtered_movements flt (\<lambda>r m. mv_type m = ''OUT'' \<and> priced r) cat db
      in take 12 (sort_key (\<lambda>s. - se_value s) (map (\<lambda>k. let P = (\<lambda>(r, m). product_key r = k) in
           \<lparr>se_key = k, se_units = units_of P js, se_value = worth_of P js\<rparr>) (remdups (map (\<lambda>(r, m). product_key r) js)))))"

text \<open>The orders by status, and the value of those that are open.\<close>

definition po_status_rows :: "po_db \<Rightarrow> (po_status \<times> nat \<times> real) list" where
  "po_status_rows db =
     (let ps = filter (\<lambda>p. \<not> po_deleted p) (orders db)
      in sort_key (\<lambda>(st, c, v). - v) (map (\<lambda>st. let own = filter (\<lambda>p. po_status p = st) ps in
           (st, length own, sum_list (map (\<lambda>p. of_int (po_quantity p) * po_unit_cost p) own))) (remdups (map po_status ps))))"

definition po_value :: "po_db \<Rightarrow> real" where
  "po_value db = sum_list (map (\<lambda>(st, c, v). v) (filter (\<lambda>(st, c, v). st \<notin> {Received, Cancelled}) (po_status_rows db)))"

definition lead_times :: "catalog \<Rightarrow> (string \<times> int \<times> real \<times> nat) list" where
  "lead_times cat = sort_key (\<lambda>(n, l, r, k). l) (map (\<lambda>s. (su_name s, su_lead s, su_reliability s,
     length (filter (\<lambda>r. pr_supplier r = Some (su_id s)) (product_rows cat)))) (supplier_rows cat))"

section \<open>The page\<close>

record stock_panels =
  sp_kpis :: kpis
  sp_status :: "int list"
  sp_breakdown :: "breakdown_row list"
  sp_warehouses :: "warehouse_figures list"
  sp_movement :: "string list \<times> int list \<times> int list"
  sp_top_skus :: "(string \<times> real) list"
  sp_suppliers :: "supplier_stat list"
  sp_pressure :: "(product_row \<times> real) list"
  sp_by_supplier :: "(string \<times> nat) list"
  sp_by_category :: "(string \<times> int \<times> int) list"
  sp_gap :: "(string \<times> real) list"
  sp_unders :: int
  sp_thinnest :: "product_row option"
  sp_coverage :: "int list"
  sp_category_coverage :: "(string \<times> real option) list"
  sp_turnover :: "(string \<times> real) list"
  sp_aging :: "int list"
  sp_idle :: "int list"
  sp_active :: "(string \<times> int) list"
  sp_counts :: "(string \<times> nat) list"
  sp_products :: "product_row list"

text \<open>The panels over the products in scope; with a period some of them come from the facts.\<close>

definition stock_panels_of ::
  "(int \<Rightarrow> int) \<Rightarrow> real \<Rightarrow> report_filter \<Rightarrow> report_span \<Rightarrow> etl_db \<Rightarrow> catalog \<Rightarrow> 'a inv_db_scheme \<Rightarrow> stock_panels" where
  "stock_panels_of created ratio flt p etl cat db =
     (let scope = in_scope flt p db; rows = filter scope (product_rows cat); w = period_window (today db) p;
          facts = (case w of None \<Rightarrow> [] | Some (a, b) \<Rightarrow> fact_rows (\<lambda>r. scope r \<and> priced r) (Some a) (Some b) etl cat);
          figs = period_figures ratio facts; pressure = reorder_pressure rows;
          conditions = (rf_warehouses flt \<noteq> [] \<or> rf_categories flt \<noteq> [] \<or> w \<noteq> None)
      in \<lparr>sp_kpis = (if w = None then plain_kpis rows else period_kpis figs),
          sp_status = status_values (if w = None then plain_counts ratio rows else period_counts figs),
          sp_breakdown = shown_breakdown (if w = None then plain_breakdown rows else period_breakdown figs),
          sp_warehouses = warehouse_figures_of rows, sp_movement = movement_series scope (today db) p etl cat,
          sp_top_skus = (if w = None then top_skus rows else period_top_skus facts),
          sp_suppliers = supplier_stats conditions rows cat, sp_pressure = pressure,
          sp_by_supplier = reorder_by_supplier cat pressure, sp_by_category = reorder_by_category rows,
          sp_gap = reorder_value_gap rows, sp_unders = tally wants_order rows, sp_thinnest = thinnest rows,
          sp_coverage = coverage_distribution rows, sp_category_coverage = category_coverage db rows,
          sp_turnover = warehouse_turnover db rows, sp_aging = map round_even (stock_aging created db rows),
          sp_idle = idle_distribution created db rows, sp_active = top_active db rows,
          sp_counts = category_counts_of rows, sp_products = product_table rows\<rparr>)"

record trend_panels =
  tp_mtd :: period_figures_row
  tp_ytd :: period_figures_row
  tp_prev_mtd :: period_figures_row
  tp_prev_ytd :: period_figures_row
  tp_sales :: "sales_figures list"
  tp_year_series :: "(int \<times> int \<times> int) list"
  tp_ytd_compare :: "string list \<times> int list \<times> int list"
  tp_month_compare :: "(string \<times> real \<times> real \<times> real \<times> real) list"
  tp_quarter_compare :: "(string \<times> real \<times> real \<times> real \<times> real) list"
  tp_monthly :: "string list \<times> int list \<times> int list"
  tp_sales_monthly :: "string list \<times> int list \<times> int list"
  tp_sales_years :: "(int \<times> int \<times> int) list"
  tp_quarters :: "(int \<times> int) list \<times> int list \<times> int list"
  tp_sales_ytd :: "(int \<times> int list) list"
  tp_sales_qtd :: "(int \<times> int list) list"
  tp_mix :: "string list \<times> string list \<times> int list list"
  tp_warehouse :: "(string \<times> int \<times> real) list"
  tp_sellers :: "seller list"
  tp_po_status :: "(po_status \<times> nat \<times> real) list"
  tp_po_value :: real
  tp_po_trend :: "string list \<times> int list \<times> nat list"

text \<open>The trends look at the warehouse and category filter only.\<close>

definition trend_panels_of :: "(int \<Rightarrow> int) \<Rightarrow> report_filter \<Rightarrow> catalog \<Rightarrow> po_db \<Rightarrow> trend_panels result" where
  "trend_panels_of made flt cat db =
     bindE (fixed_periods_of (today db)) (\<lambda>fp.
       let row = (\<lambda>a b. period_dict (period_metrics flt cat db a b) (order_metrics made db a b));
           sales = sales_figures_of flt cat db; rows = sales_rows flt cat db; y = year_of (today db);
           (q, prev_q) = quarter_starts (today db)
       in Ok \<lparr>tp_mtd = row (fp_mtd fp) (fp_tomorrow fp), tp_ytd = row (fp_ytd fp) (fp_tomorrow fp),
           tp_prev_mtd = row (fp_prev_mtd fp) (fp_mtd fp), tp_prev_ytd = row (fp_prev_ytd fp) (fp_prev_ytd_end fp),
           tp_sales = [sales (fp_mtd fp) (fp_tomorrow fp), sales (fp_ytd fp) (fp_tomorrow fp),
             sales (fp_prev_mtd fp) (fp_mtd fp), sales (fp_prev_ytd fp) (fp_prev_ytd_end fp)],
           tp_year_series = year_series flt cat db, tp_ytd_compare = ytd_compare flt cat db,
           tp_month_compare = compare_by_category flt (\<lambda>m. True) (fp_mtd fp, fp_tomorrow fp) (fp_prev_mtd fp, fp_mtd fp) cat db,
           tp_quarter_compare = compare_by_category flt (\<lambda>m. mv_type m = ''OUT'') (q, fp_tomorrow fp) (prev_q, q) cat db,
           tp_monthly = monthly_series flt cat db, tp_sales_monthly = sales_monthly flt cat db,
           tp_sales_years = sales_years rows, tp_quarters = sales_quarters rows,
           tp_sales_ytd = map (\<lambda>yr. (yr, sales_ytd flt cat db yr)) (compared_years y),
           tp_sales_qtd = map (\<lambda>yr. (yr, sales_qtd flt cat db yr)) (compared_years y),
           tp_mix = category_mix flt cat db, tp_warehouse = sales_warehouse flt cat db,
           tp_sellers = top_sellers flt cat db, tp_po_status = po_status_rows db, tp_po_value = po_value db,
           tp_po_trend = po_monthly_trend made db\<rparr>)"

record report_view =
  rp_filter :: report_filter
  rp_period :: report_span
  rp_stock :: stock_panels
  rp_trends :: trend_panels
  rp_open_po :: nat
  rp_lead_times :: "(string \<times> int \<times> real \<times> nat) list"
  rp_dropdowns :: "string list \<times> string list"
  rp_today :: int

definition report_build ::
  "(int \<Rightarrow> int) \<Rightarrow> (int \<Rightarrow> int) \<Rightarrow> real \<Rightarrow> report_filter \<Rightarrow> report_span \<Rightarrow> etl_db \<Rightarrow> catalog \<Rightarrow> po_db \<Rightarrow> report_view result" where
  "report_build created made ratio flt p etl cat db =
     bindE (trend_panels_of made flt cat db) (\<lambda>t.
     Ok \<lparr>rp_filter = flt, rp_period = p, rp_stock = stock_panels_of created ratio flt p etl cat db, rp_trends = t,
       rp_open_po = open_po db, rp_lead_times = lead_times cat,
       rp_dropdowns = (dropdown pr_warehouse cat, dropdown pr_category cat), rp_today = today db\<rparr>)"

text \<open>The handler; \<open>c\<close> is the cache of the reports.\<close>

definition reports_page ::
  "(pyval \<Rightarrow> string) \<Rightarrow> (int \<Rightarrow> int) \<Rightarrow> (int \<Rightarrow> int) \<Rightarrow> real \<Rightarrow> clock \<Rightarrow> report_request \<Rightarrow> etl_db \<Rightarrow> catalog \<Rightarrow> po_db \<Rightarrow>
   report_view ttl_cache \<Rightarrow> report_view result \<times> report_view ttl_cache" where
  "reports_page other created made ratio ts rq etl cat db c =
     (let flt = filter_of other rq in
      case month_range (year_of (today db)) (rf_months flt) (rf_years flt) of
        Inl e \<Rightarrow> (Err e, c)
      | Inr rng \<Rightarrow> (case ts of (t1, t2, t3) \<Rightarrow> cache_get_or_set t1 t2 t3 (report_key rng flt)
          (report_build created made ratio flt (report_period rng) etl cat db) c))"

end
