(* ===== verification/ReportLaws.thy ===== *)
theory ReportLaws
  imports ReportTrends
begin

text \<open>What the trends of the reports page show: the year to date, the twelve months, the quarters, the leap day
  and the cached page.\<close>

section \<open>One join for all trends\<close>

definition live_join :: "report_filter \<Rightarrow> catalog \<Rightarrow> 'a inv_db_scheme \<Rightarrow> (product_row \<times> movement) list" where
  "live_join flt = filtered_movements flt (\<lambda>r m. True)"

lemma filtered_join: "filtered_movements flt P cat db = filter (\<lambda>x. P (fst x) (snd x)) (live_join flt cat db)"
proof -
  have "concat (map (\<lambda>r. map (Pair r) (filter (\<lambda>m. mv_product m = pr_id r \<and> in_filter flt r \<and> \<not> mv_deleted m \<and> P r m) ms)) rs)
      = filter (\<lambda>x. P (fst x) (snd x))
          (concat (map (\<lambda>r. map (Pair r) (filter (\<lambda>m. mv_product m = pr_id r \<and> in_filter flt r \<and> \<not> mv_deleted m) ms)) rs))" for rs ms
    by (induction rs) (auto simp: filter_map comp_def intro: filter_cong)
  then show ?thesis by (simp add: live_join_def filtered_movements_def product_movements_def)
qed

lemma join_movements: "x \<in> set (live_join flt cat db) \<Longrightarrow> snd x \<in> set (movements db)"
  by (auto simp: live_join_def filtered_movements_def product_movements_def)

lemma worth_filter: "worth_of P (filter Q js) = worth_of (\<lambda>x. Q x \<and> P x) js"
  by (simp add: worth_of_def conj_commute)

lemma units_filter: "units_of P (filter Q js) = units_of (\<lambda>x. Q x \<and> P x) js"
  by (simp add: units_of_def conj_commute)

definition worth :: "product_row \<times> movement \<Rightarrow> real" where
  "worth x = of_int (mv_quantity (snd x)) * amount (pr_price (fst x))"

lemma worth_sum: "worth_of P js = (\<Sum>x\<leftarrow>js. if P x then worth x else 0)"
  by (induction js) (auto simp: worth_of_def worth_def)

lemma worth_cong: "(\<And>x. x \<in> set js \<Longrightarrow> worth x \<noteq> 0 \<Longrightarrow> P x = Q x) \<Longrightarrow> worth_of P js = worth_of Q js"
  unfolding worth_sum by (rule arg_cong[where f = sum_list], rule map_cong) auto

lemma units_cong: "(\<And>x. x \<in> set js \<Longrightarrow> P x = Q x) \<Longrightarrow> units_of P js = units_of Q js"
  by (simp add: units_of_def cong: filter_cong)

lemma worth_split:
  "(\<And>x. x \<in> set js \<Longrightarrow> P x \<longleftrightarrow> A x \<or> B x) \<Longrightarrow> (\<And>x. x \<in> set js \<Longrightarrow> \<not> (A x \<and> B x)) \<Longrightarrow> worth_of P js = worth_of A js + worth_of B js"
  unfolding worth_sum sum_list_addf[symmetric] by (rule arg_cong[where f = sum_list], rule map_cong) auto

lemma units_split:
  "(\<And>x. x \<in> set js \<Longrightarrow> P x \<longleftrightarrow> A x \<or> B x) \<Longrightarrow> (\<And>x. x \<in> set js \<Longrightarrow> \<not> (A x \<and> B x)) \<Longrightarrow> units_of P js = units_of A js + units_of B js"
  by (induction js) (auto simp: units_of_def)

lemma priced_worth: "worth x \<noteq> 0 \<Longrightarrow> priced (fst x)"
  by (auto simp: worth_def priced_def amount_def split: option.splits)

lemma grouped_worth:
  "distinct ks \<Longrightarrow> (\<Sum>k\<leftarrow>ks. worth_of (\<lambda>x. P x \<and> g x = k) js) = worth_of (\<lambda>x. P x \<and> g x \<in> set ks) js"
proof (induction ks)
  case (Cons k ks)
  have "worth_of (\<lambda>x. P x \<and> g x \<in> set (k # ks)) js = worth_of (\<lambda>x. P x \<and> g x = k) js + worth_of (\<lambda>x. P x \<and> g x \<in> set ks) js"
    by (rule worth_split) (use Cons.prems in auto)
  then show ?case using Cons by simp
qed (simp add: worth_of_def)

lemma grouped_units:
  "distinct ks \<Longrightarrow> (\<Sum>k\<leftarrow>ks. units_of (\<lambda>x. P x \<and> g x = k) js) = units_of (\<lambda>x. P x \<and> g x \<in> set ks) js"
proof (induction ks)
  case (Cons k ks)
  have "units_of (\<lambda>x. P x \<and> g x \<in> set (k # ks)) js = units_of (\<lambda>x. P x \<and> g x = k) js + units_of (\<lambda>x. P x \<and> g x \<in> set ks) js"
    by (rule units_split) (use Cons.prems in auto)
  then show ?case using Cons by simp
qed (simp add: units_of_def)

section \<open>Year to date\<close>

lemma diff_le_self_int: "y - 1 \<le> y" for y :: int by simp

lemma running_last: "xs \<noteq> [] \<Longrightarrow> last (running c xs) = c + sum_list xs"
proof (induction xs arbitrary: c)
  case (Cons x xs)
  then show ?case by (cases xs) auto
qed simp

lemma running_length [simp]: "length (running c xs) = length xs"
  by (induction xs arbitrary: c) auto

lemma running_nth: "i < length xs \<Longrightarrow> running c xs ! i = c + sum_list (take (Suc i) xs)"
  by (induction xs arbitrary: c i) (auto simp: nth_Cons split: nat.split)

definition in_or_out :: "product_row \<times> movement \<Rightarrow> bool" where
  "in_or_out x = (of_kind ''IN'' x \<or> of_kind ''OUT'' x)"

lemma in_or_out_worth: "worth_of (\<lambda>x. P x \<and> of_kind ''IN'' x) js + worth_of (\<lambda>x. P x \<and> of_kind ''OUT'' x) js = worth_of (\<lambda>x. P x \<and> in_or_out x) js"
  by (rule worth_split[symmetric]) (auto simp: in_or_out_def of_kind_def)

lemma metrics_worth:
  "me_value_in (period_metrics flt cat db a b) + me_value_out (period_metrics flt cat db a b)
    = worth_of (\<lambda>x. (a \<le> mv_day (snd x) \<and> mv_day (snd x) < b) \<and> in_or_out x) (live_join flt cat db)"
  using in_or_out_worth[of "\<lambda>x. a \<le> mv_day (snd x) \<and> mv_day (snd x) < b" "live_join flt cat db"]
  by (simp add: period_metrics_def Let_def filtered_join worth_filter)

lemma year_at: "civil n = (y, m, d) \<Longrightarrow> year_of n = y" "civil n = (y, m, d) \<Longrightarrow> month_number n = m"
  by (simp_all add: year_of_def month_number_def)

lemma month_value_join:
  assumes "year_of (today db) - 1 \<le> y"
  shows "month_value flt cat db y m = worth_of (\<lambda>x. (year_of (mv_day (snd x)) = y \<and> in_or_out x) \<and> month_number (mv_day (snd x)) = m) (live_join flt cat db)"
proof -
  have "ordinal (year_of (today db) - 1) 1 1 \<le> n" if "year_of n = y" for n
  proof -
    obtain y' m' d' where c: "civil n = (y', m', d')" by (rule prod_cases3)
    have "(year_of (today db) - 1, 1) \<le> (y', m')"
      using assms that civil_valid(1)[OF c] by (auto simp: less_eq_prod_def year_of_def c)
    then show ?thesis using before_month(1)[OF c, of 1] by simp
  qed
  then show ?thesis unfolding month_value_def Let_def filtered_join worth_filter in_or_out_worth
    by (intro worth_cong) (auto simp: in_month_def dest: priced_worth)
qed

lemma months_to_date:
  assumes "year_of (today db) - 1 \<le> y" "1 \<le> k"
  shows "sum_list (map (month_value flt cat db y) [1..k])
    = worth_of (\<lambda>x. (year_of (mv_day (snd x)) = y \<and> month_number (mv_day (snd x)) \<le> k) \<and> in_or_out x) (live_join flt cat db)"
proof -
  have "1 \<le> month_number n" for n
  proof -
    obtain y' m' d' where c: "civil n = (y', m', d')" by (rule prod_cases3)
    then show ?thesis using civil_valid(1)[OF c] by (simp add: month_number_def)
  qed
  then show ?thesis
    unfolding month_value_join[OF assms(1)]
    by (subst grouped_worth) (auto intro!: worth_cong)
qed

text \<open>The year-to-date figures agree with the year-to-date chart, and the year before does not.  When nothing is
  dated in the future, the chart's last current value is what the figure shows as moved this year.  Its last
  previous value is more than the previous year's figure, which stops at the same day: the chart adds what
  moved in the rest of that month a year ago, so that a month that has begun is compared with a whole one.\<close>

theorem ytd_panels_agree:
  assumes "trend_panels_of made flt cat db = Ok t" "civil (today db) = (y, m, d)"
    and "\<forall>mv\<in>set (movements db). mv_day mv \<le> today db"
  shows "\<exists>ls cs ps. tp_ytd_compare t = (ls, cs, ps) \<and>
    last cs = round_even (me_value_in (pf_metrics (tp_ytd t)) + me_value_out (pf_metrics (tp_ytd t))) \<and>
    (let rest = period_metrics flt cat db (ordinal (y - 1) m d + 1) (ordinal (y - 1) m 1 + month_length (y - 1) m) in
     last ps = round_even (me_value_in (pf_metrics (tp_prev_ytd t)) + me_value_out (pf_metrics (tp_prev_ytd t))
       + me_value_in rest + me_value_out rest))"
proof -
  have v: "1 \<le> m" "m \<le> 12" "1 \<le> d" "d \<le> month_length y m" "ordinal y m d = today db" using civil_valid[OF assms(2)] by blast+
  have ym: "year_of (today db) = y" "month_number (today db) = m" using year_at[OF assms(2)] by blast+
  obtain q pq where q: "quarter_starts (today db) = (q, pq)" by (rule prod.exhaust)
  from assms(1) obtain fp where fp: "fixed_periods_of (today db) = Inr fp"
    and t: "tp_ytd_compare t = ytd_compare flt cat db"
      "pf_metrics (tp_ytd t) = period_metrics flt cat db (fp_ytd fp) (fp_tomorrow fp)"
      "pf_metrics (tp_prev_ytd t) = period_metrics flt cat db (fp_prev_ytd fp) (fp_prev_ytd_end fp)"
    by (cases "fixed_periods_of (today db)") (auto simp: trend_panels_of_def Let_def period_dict_def q)
  have f: "fp_ytd fp = ordinal y 1 1" "fp_tomorrow fp = today db + 1" "fp_prev_ytd fp = ordinal (y - 1) 1 1"
      "fp_prev_ytd_end fp = ordinal (y - 1) m d + 1"
    and ok: "d \<le> month_length (y - 1) m"
    using fp by (auto simp: fixed_periods_of_def assms(2) bindE_Ok_iff make_date_def split: if_splits)
  have cmp: "ytd_compare flt cat db = (map (\<lambda>m. month_names ! nat (m - 1)) [1..m],
      map round_even (running 0 (map (month_value flt cat db y) [1..m])),
      map round_even (running 0 (map (month_value flt cat db (y - 1)) [1..m])))"
    by (simp add: ytd_compare_def Let_def ym)
  have ne: "[1..m] \<noteq> []" using v by simp
  have lst: "last (map round_even (running 0 (map g [1..m]))) = round_even (sum_list (map g [1..m]))" for g
    using running_last[of "map g [1..m]" 0] ne by (subst last_map) (auto simp: length_0_conv[symmetric] simp del: length_0_conv)
  have days: "year_of n = y' \<and> month_number n \<le> m \<longleftrightarrow> ordinal y' 1 1 \<le> n \<and> n < ordinal y' m 1 + month_length y' m" for n y'
  proof -
    obtain a b c where c: "civil n = (a, b, c)" by (rule prod_cases3)
    show ?thesis using before_month(1)[OF c, of 1 y'] before_month(2)[OF c v(1,2), of y'] civil_valid(1)[OF c] v
      by (auto simp: year_at[OF c] less_eq_prod_def)
  qed
  have first: "ordinal (y - 1) 1 1 \<le> ordinal (y - 1) m d + 1"
    using month_first_mono[of "12 * (y - 1) + 1 - 3" "12 * (y - 1) + m - 3"] v by (simp add: ordinal_def)
  have stop: "today db < ordinal y m 1 + month_length y m" "ordinal (y - 1) m d < ordinal (y - 1) m 1 + month_length (y - 1) m"
    using v ok by (simp_all add: ordinal_def)
  let ?js = "live_join flt cat db" and ?day = "\<lambda>x. mv_day (snd x)"
  have cur: "sum_list (map (month_value flt cat db y) [1..m])
      = worth_of (\<lambda>x. (ordinal y 1 1 \<le> ?day x \<and> ?day x < today db + 1) \<and> in_or_out x) ?js"
    unfolding months_to_date[of db y m flt cat, unfolded ym(1), OF diff_le_self_int v(1)] days
    by (rule worth_cong) (use assms(3) stop in \<open>auto dest!: join_movements\<close>)
  have prev: "sum_list (map (month_value flt cat db (y - 1)) [1..m])
      = worth_of (\<lambda>x. (ordinal (y - 1) 1 1 \<le> ?day x \<and> ?day x < ordinal (y - 1) m d + 1) \<and> in_or_out x) ?js
        + worth_of (\<lambda>x. (ordinal (y - 1) m d + 1 \<le> ?day x \<and> ?day x < ordinal (y - 1) m 1 + month_length (y - 1) m) \<and> in_or_out x) ?js"
    unfolding months_to_date[of db "y - 1" m flt cat, unfolded ym(1), OF order_refl v(1)] days
    by (rule worth_split) (use first stop in auto)
  show ?thesis unfolding t cmp f Let_def add.assoc metrics_worth
    by (intro exI conjI) (rule refl, simp_all only: lst cur prev metrics_worth)
qed

text \<open>One movement on the last day of last year's month, and today is in the middle of it.\<close>

definition late_sale :: po_db where
  "late_sale = (shop_db nut_shop)\<lparr>movements := [\<lparr>mv_id = 1, mv_product = 1, mv_type = ''OUT'', mv_quantity = 3, mv_reference = None,
     mv_notes = None, mv_user = None, mv_day = ordinal 2025 3 31, mv_deleted = False\<rparr>], today := ordinal 2026 3 10\<rparr>"

section \<open>Monthly series\<close>

lemma first_of_month_key: "year_of (first_of_month n) = year_of n" "month_number (first_of_month n) = month_number n"
proof -
  obtain y m d where c: "civil n = (y, m, d)" by (rule prod_cases3)
  have "civil (first_of_month n) = (y, m, 1)"
    unfolding first_of_month_ordinal[OF c] using civil_valid[OF c] by (intro civil_ordinal) (auto simp: month_length_def)
  then show "year_of (first_of_month n) = year_of n" "month_number (first_of_month n) = month_number n"
    by (simp_all add: year_at[OF c] year_at)
qed

lemma months_back_at: "months_back n (month_first k) = map (\<lambda>i. month_first (k - int i)) [0..<n]"
proof (induction n arbitrary: k)
  case (Suc n)
  have "first_of_month (month_first k - 1) = month_first (k - 1)"
    by (rule first_of_month_at) (use month_gap(1)[of "k - 1"] in simp_all)
  then show ?case by (simp add: Suc map_upt_Suc algebra_simps del: upt_Suc)
qed simp

lemma month_labels_at:
  assumes "month_first k \<le> now" "now < month_first (k + 1)"
  shows "month_labels now = map (\<lambda>i. month_first (k - 11 + int i)) [0..<12]"
  unfolding month_labels_def first_of_month_at[OF assms] months_back_at
  by (simp add: upt_rec)

lemma window_start_at:
  assumes "month_first k \<le> now" "now < month_first (k + 1)"
  shows "window_start now = month_first (k - 11)"
proof -
  have c: "civil now = ((k + 2) div 12, month_of (k mod 12), now - month_first k + 1)" by (rule civil_at[OF assms])
  have "month_of (k mod 12) = (k + 2) mod 12 + 1" using mod12_cases[of k] mod_add_left_eq[of k 12 2]
    by (auto simp: month_of_def)
  then have "12 * year_of now + month_number now - 3 = k"
    using mult_div_mod_eq[of 12 "k + 2"] by (simp add: year_of_def month_number_def c)
  then have "k - 11 = (if month_number now = 12 then 12 * year_of now + 1 - 3 else 12 * (year_of now - 1) + (month_number now + 1) - 3)"
    by simp
  then show ?thesis by (simp add: window_start_def Let_def ordinal_def)
qed

lemma first_of_month_cases:
  assumes "month_first (k - 11) \<le> n" "n < month_first (k + 1)"
  shows "first_of_month n \<in> set (map (\<lambda>i. month_first (k - 11 + int i)) [0..<12])"
proof -
  obtain j where j: "month_first j \<le> n" "n < month_first (j + 1)" using month_exists by blast
  have "k - 11 \<le> j"
  proof (rule ccontr)
    assume "\<not> k - 11 \<le> j"
    then show False using month_first_less[of j "k - 11"] j assms by linarith
  qed
  moreover have "j \<le> k"
  proof (rule ccontr)
    assume "\<not> j \<le> k"
    then show False using month_first_less[of k j] j assms by linarith
  qed
  ultimately show ?thesis using first_of_month_at[OF j] by (auto intro!: image_eqI[of _ _ "nat (j - (k - 11))"])
qed

lemma by_label_units: "by_label (units_of P) 0 js l = units_of (\<lambda>x. P x \<and> month_key x = l) js"
proof (cases "l \<in> set (map month_key js)")
  case True
  then show ?thesis by (simp add: by_label_def units_filter conj_commute)
next
  case False
  then have "filter (\<lambda>x. P x \<and> month_key x = l) js = []" by (auto simp: filter_empty_conv)
  then show ?thesis using False by (simp add: by_label_def units_of_def)
qed

lemma month_labels_distinct: "distinct (map (\<lambda>i. month_first (k - 11 + int i)) [0..<12])"
proof -
  have "inj_on (\<lambda>i. month_first (k - 11 + int i)) A" for A
  proof (rule inj_onI)
    fix a b :: nat assume e: "month_first (k - 11 + int a) = month_first (k - 11 + int b)"
    have "\<not> a < b" "\<not> b < a"
      using month_first_less[of "k - 11 + int a" "k - 11 + int b"] month_first_less[of "k - 11 + int b" "k - 11 + int a"]
        month_first_own[of "k - 11 + int a"] month_first_own[of "k - 11 + int b"] e by linarith+
    then show "a = b" by simp
  qed
  then show ?thesis by (simp add: distinct_map)
qed

text \<open>C37: When no movement is dated in the future, the monthly chart of the reports is complete and in place: its
  twelve months are consecutive and end with the current one, every bar is what moved in or out in its own month
  among the priced products of the filter, and the bars of either kind add up to all of these movements of the
  kind since the first label.  (Products without a price are not in the chart.)\<close>

theorem monthly_series_exact:
  assumes "\<forall>mv\<in>set (movements db). mv_day mv \<le> today db"
  shows "\<exists>ls. length ls = 12 \<and> last ls = first_of_month (today db) \<and>
    (\<forall>i<11. first_of_month (ls ! Suc i - 1) = ls ! i) \<and>
    monthly_series flt cat db = (map month_label ls,
      map (\<lambda>l. units_of (\<lambda>x. of_kind ''IN'' x \<and> month_key x = l) (filtered_movements flt (\<lambda>r m. priced r) cat db)) ls,
      map (\<lambda>l. units_of (\<lambda>x. of_kind ''OUT'' x \<and> month_key x = l) (filtered_movements flt (\<lambda>r m. priced r) cat db)) ls) \<and>
    sum_list (fst (snd (monthly_series flt cat db)))
      = units_of (\<lambda>x. of_kind ''IN'' x \<and> hd ls \<le> mv_day (snd x)) (filtered_movements flt (\<lambda>r m. priced r) cat db) \<and>
    sum_list (snd (snd (monthly_series flt cat db)))
      = units_of (\<lambda>x. of_kind ''OUT'' x \<and> hd ls \<le> mv_day (snd x)) (filtered_movements flt (\<lambda>r m. priced r) cat db)"
proof -
  obtain k where k: "month_first k \<le> today db" "today db < month_first (k + 1)" using month_exists by blast
  let ?ls = "map (\<lambda>i. month_first (k - 11 + int i)) [0..<12]"
  let ?js = "filtered_movements flt (\<lambda>r m. priced r) cat db"
  have steps: "first_of_month (?ls ! Suc i - 1) = ?ls ! i" if "i < 11" for i
  proof -
    have "first_of_month (month_first (k - 11 + int i + 1) - 1) = month_first (k - 11 + int i)"
      by (rule first_of_month_at) (use month_gap(1)[of "k - 11 + int i"] in simp_all)
    then show ?thesis using that by (simp add: algebra_simps del: upt_Suc upt_rec_numeral)
  qed
  have late: "window_start (today db) \<le> mv_day (snd x)" if l: "month_key x \<in> set ?ls" for x
  proof -
    have "first_of_month (mv_day (snd x)) \<le> mv_day (snd x)"
    proof -
      obtain y m d where c: "civil (mv_day (snd x)) = (y, m, d)" by (rule prod_cases3)
      show ?thesis using civil_valid(3)[OF c] by (simp add: first_of_month_def c)
    qed
    moreover obtain i where "month_key x = month_first (k - 11 + int i)" using l unfolding set_map by blast
    then have "month_first (k - 11) \<le> month_key x" by (simp add: month_first_mono)
    ultimately show ?thesis by (simp add: window_start_at[OF k] month_key_def)
  qed
  have bars: "map (by_label (units_of (of_kind ty)) 0 (monthly_movements flt cat db)) ?ls
      = map (\<lambda>l. units_of (\<lambda>x. of_kind ty x \<and> month_key x = l) ?js) ?ls" for ty
  proof (rule map_cong[OF refl])
    fix l assume l: "l \<in> set ?ls"
    show "by_label (units_of (of_kind ty)) 0 (monthly_movements flt cat db) l = units_of (\<lambda>x. of_kind ty x \<and> month_key x = l) ?js"
      unfolding by_label_units monthly_movements_def filtered_join units_filter
      by (rule units_cong) (use late l in auto)
  qed
  have series: "monthly_series flt cat db = (map month_label ?ls,
      map (\<lambda>l. units_of (\<lambda>x. of_kind ''IN'' x \<and> month_key x = l) ?js) ?ls,
      map (\<lambda>l. units_of (\<lambda>x. of_kind ''OUT'' x \<and> month_key x = l) ?js) ?ls)"
    unfolding monthly_series_def Let_def month_labels_at[OF k] bars by (rule refl)
  have hd: "hd ?ls = window_start (today db)" by (simp add: window_start_at[OF k] upt_rec)
  have total: "sum_list (map (\<lambda>l. units_of (\<lambda>x. of_kind ty x \<and> month_key x = l) ?js) ?ls)
      = units_of (\<lambda>x. of_kind ty x \<and> hd ?ls \<le> mv_day (snd x)) ?js" for ty
  proof -
    have "sum_list (map (\<lambda>l. units_of (\<lambda>x. of_kind ty x \<and> month_key x = l) ?js) ?ls)
        = units_of (\<lambda>x. of_kind ty x \<and> month_key x \<in> set ?ls) ?js"
      by (rule grouped_units) (rule month_labels_distinct)
    also have "\<dots> = units_of (\<lambda>x. of_kind ty x \<and> hd ?ls \<le> mv_day (snd x)) ?js"
    proof (rule units_cong)
      fix x assume "x \<in> set ?js"
      then have "mv_day (snd x) < month_first (k + 1)" using assms k by (auto simp: filtered_join dest!: join_movements)
      then have "month_key x \<in> set ?ls \<longleftrightarrow> window_start (today db) \<le> mv_day (snd x)"
        using late[of x] first_of_month_cases[of k "mv_day (snd x)"] by (auto simp: month_key_def window_start_at[OF k])
      then show "(of_kind ty x \<and> month_key x \<in> set ?ls) = (of_kind ty x \<and> hd ?ls \<le> mv_day (snd x))" by (simp only: hd)
    qed
    finally show ?thesis .
  qed
  have whole: "sum_list (fst (snd (monthly_series flt cat db))) = units_of (\<lambda>x. of_kind ''IN'' x \<and> hd ?ls \<le> mv_day (snd x)) ?js"
    "sum_list (snd (snd (monthly_series flt cat db))) = units_of (\<lambda>x. of_kind ''OUT'' x \<and> hd ?ls \<le> mv_day (snd x)) ?js"
    by (simp_all only: series total fst_conv snd_conv)
  show ?thesis
  proof (intro exI[of _ ?ls] conjI)
    show "length ?ls = 12" by simp
    show "last ?ls = first_of_month (today db)" by (simp add: first_of_month_at[OF k] upt_rec)
    show "\<forall>i<11. first_of_month (?ls ! Suc i - 1) = ?ls ! i" using steps by blast
  qed (fact series whole)+
qed

theorem ytd_panels_agree_witness:
  "\<exists>t ls cs ps. trend_panels_of (\<lambda>i. 0) whole_shop nut_catalog late_sale = Ok t \<and> tp_ytd_compare t = (ls, cs, ps) \<and>
     last ps = 6 \<and> me_value_out (pf_metrics (tp_prev_ytd t)) = 0"
proof -
  have c: "civil (today late_sale) = (2026, 3, 10)" unfolding late_sale_def
    by (simp add: civil_ordinal month_length_def)
  obtain fp where fp: "fixed_periods_of (today late_sale) = Inr fp" "fp_prev_ytd fp = ordinal 2025 1 1" "fp_prev_ytd_end fp = ordinal 2025 3 10 + 1"
    by (simp add: fixed_periods_of_def c make_date_def month_length_def)
  obtain q pq where q: "quarter_starts (today late_sale) = (q, pq)" by (rule prod.exhaust)
  obtain t where t: "trend_panels_of (\<lambda>i. 0) whole_shop nut_catalog late_sale = Ok t"
    "pf_metrics (tp_prev_ytd t) = period_metrics whole_shop nut_catalog late_sale (fp_prev_ytd fp) (fp_prev_ytd_end fp)"
    by (simp add: trend_panels_of_def fp Let_def q period_dict_def)
  have d: "ordinal 2025 3 10 + 1 \<le> ordinal 2025 3 31" "ordinal 2025 3 31 < ordinal 2025 3 1 + 31" "ordinal 2025 3 31 \<le> ordinal 2026 3 10"
    by (simp_all add: ordinal_def) code_simp
  have none: "me_value_in (period_metrics whole_shop nut_catalog late_sale a b) = 0"
    "me_value_out (period_metrics whole_shop nut_catalog late_sale a b) = (if a \<le> ordinal 2025 3 31 \<and> ordinal 2025 3 31 < b then 6 else 0)" for a b
    by (simp_all add: period_metrics_def Let_def filtered_movements_def product_movements_def worth_of_def of_kind_def
        late_sale_def nut_catalog_def no_catalog_def nut_row_def in_filter_def whole_shop_def amount_def)
  have "\<forall>mv\<in>set (movements late_sale). mv_day mv \<le> today late_sale" using d(3) by (simp add: late_sale_def)
  from ytd_panels_agree[OF t(1) c this] obtain ls cs ps where r: "tp_ytd_compare t = (ls, cs, ps)"
    "last ps = round_even (me_value_in (pf_metrics (tp_prev_ytd t)) + me_value_out (pf_metrics (tp_prev_ytd t))
       + me_value_in (period_metrics whole_shop nut_catalog late_sale (ordinal (2026 - 1) 3 10 + 1) (ordinal (2026 - 1) 3 1 + month_length (2026 - 1) 3))
       + me_value_out (period_metrics whole_shop nut_catalog late_sale (ordinal (2026 - 1) 3 10 + 1) (ordinal (2026 - 1) 3 1 + month_length (2026 - 1) 3)))"
    unfolding Let_def by blast
  have z: "me_value_in (pf_metrics (tp_prev_ytd t)) = 0" "me_value_out (pf_metrics (tp_prev_ytd t)) = 0"
    using d(1) unfolding t(2) fp none by auto
  have "last ps = round_even 6" unfolding r(2) z none using d by (simp add: month_length_def)
  then show ?thesis using t(1) r(1) z(2) by (intro exI[of _ t] exI[of _ ls] exI[of _ cs] exI[of _ ps]) (simp add: round_even_def)
qed

theorem monthly_series_exact_witness:
  "\<exists>ls. length ls = 12 \<and> sum_list (fst (snd (monthly_series whole_shop nut_catalog busy_week)))
     = units_of (\<lambda>x. of_kind ''IN'' x \<and> hd ls \<le> mv_day (snd x)) (filtered_movements whole_shop (\<lambda>r m. priced r) nut_catalog busy_week)"
proof -
  have "\<forall>mv\<in>set (movements busy_week). mv_day mv \<le> today busy_week" by (simp add: busy_week_def)
  from monthly_series_exact[OF this] show ?thesis by blast
qed

section \<open>The stock\<close>

text \<open>C36: The panels of the stock count every product in scope once: the status chart (without a period), the
  idle days, the coverage of those with a reorder point, and the ages of the stock, whose values add up to the
  value of the stock; no count is cut off at zero.  The warehouse table counts every product once, but its three
  states leave out the products in stock without a reorder point.\<close>

theorem stock_panels_partition:
  fixes flt p db cat
  defines "rows \<equiv> filter (in_scope flt p db) (product_rows cat)"
  shows "let s = stock_panels_of created ratio flt p etl cat db in
    (period_window (today db) p = None \<longrightarrow> sum_list (sp_status s) = int (length rows) \<and>
      hd (sp_status s) = tally (\<lambda>r. \<not> is_out r \<and> \<not> is_critical ratio r \<and> \<not> is_warning ratio r) rows) \<and>
    sum_list (sp_idle s) = int (length rows) \<and> sum_list (sp_coverage s) = tally (\<lambda>r. 0 < pr_reorder r) rows \<and>
    sum_list (stock_aging created db rows) = stock_value rows \<and> sp_aging s = map round_even (stock_aging created db rows) \<and>
    (\<Sum>w\<leftarrow>sp_warehouses s. wf_skus w) = int (length rows) \<and>
    (\<Sum>w\<leftarrow>sp_warehouses s. wf_out w + wf_low w + wf_healthy w) = tally (\<lambda>r. pr_stock r \<le> 0 \<or> 0 < pr_reorder r) rows"
  using status_partition[of ratio rows]
  by (simp add: stock_panels_of_def Let_def rows_def[symmetric] idle_partition coverage_partition aging_partition warehouse_partition)

theorem stock_panels_partition_witness:
  "\<forall>etl. sum_list (sp_status (stock_panels_of (\<lambda>i. 0) (1 / 2) whole_shop (None, None) etl nut_catalog busy_week)) = 1"
proof (rule allI)
  fix etl
  have "filter (in_scope whole_shop (None, None) busy_week) (product_rows nut_catalog) = [nut_row]"
    by (simp add: in_scope_def in_filter_def period_window_def whole_shop_def nut_catalog_def)
  then show "sum_list (sp_status (stock_panels_of (\<lambda>i. 0) (1 / 2) whole_shop (None, None) etl nut_catalog busy_week)) = 1"
    using stock_panels_partition[of "\<lambda>i. 0" "1 / 2" whole_shop "(None, None)" etl nut_catalog busy_week]
    by (simp add: Let_def period_window_def)
qed

section \<open>Quarters\<close>

lemma add_to_keys: "map fst (add_to k v u d) = (if k \<in> set (map fst d) then map fst d else map fst d @ [k])"
  by (induction d) force+

definition total_at :: "('k \<times> real \<times> int) list \<Rightarrow> 'k \<Rightarrow> real \<times> int" where
  "total_at d k = (case map_of d k of None \<Rightarrow> (0, 0) | Some p \<Rightarrow> p)"

lemma add_to_total:
  "total_at (add_to k v u d) k' = (if k' = k then (fst (total_at d k) + v, snd (total_at d k) + u) else total_at d k')"
  by (induction d) (auto simp: total_at_def)

lemma totals_total:
  "total_at (fold (\<lambda>(lm, v, u) d. add_to (key lm) v u d) rows d) k
    = (fst (total_at d k) + (\<Sum>(lm, v, u)\<leftarrow>rows. if key lm = k then v else 0),
       snd (total_at d k) + (\<Sum>(lm, v, u)\<leftarrow>rows. if key lm = k then u else 0))"
  by (induction rows arbitrary: d) (auto simp: add_to_total split: prod.split)

text \<open>Rows in the order of their keys make a dictionary in the order of its keys.\<close>

lemma totals_keys:
  fixes key :: "int \<Rightarrow> 'k :: linorder"
  assumes "sorted (map (\<lambda>r. key (fst r)) rows)" "sorted (map fst d)" "distinct (map fst d)"
    and "\<forall>k\<in>set (map fst d). \<forall>r\<in>set rows. k \<le> key (fst r)"
  shows "sorted (map fst (fold (\<lambda>(lm, v, u) d. add_to (key lm) v u d) rows d)) \<and>
    distinct (map fst (fold (\<lambda>(lm, v, u) d. add_to (key lm) v u d) rows d)) \<and>
    set (map fst (fold (\<lambda>(lm, v, u) d. add_to (key lm) v u d) rows d)) = set (map fst d) \<union> set (map (\<lambda>r. key (fst r)) rows)"
  using assms
proof (induction rows arbitrary: d)
  case (Cons r rows)
  obtain lm v u where r: "r = (lm, v, u)" by (rule prod_cases3)
  let ?d = "add_to (key lm) v u d"
  have k: "map fst ?d = (if key lm \<in> set (map fst d) then map fst d else map fst d @ [key lm])" by (rule add_to_keys)
  have "sorted (map fst ?d)" "distinct (map fst ?d)"
    unfolding k using Cons.prems(2-4) r by (auto simp: sorted_append)
  moreover have "\<forall>k\<in>set (map fst ?d). \<forall>r\<in>set rows. k \<le> key (fst r)"
    unfolding k using Cons.prems(1,4) r by (auto simp: case_prod_beta)
  moreover have "sorted (map (\<lambda>r. key (fst r)) rows)"
    using Cons.prems(1) unfolding list.map sorted_simps(2) by (rule conjunct2)
  ultimately have h: "sorted (map fst (fold (\<lambda>(lm, v, u) d. add_to (key lm) v u d) rows ?d)) \<and>
    distinct (map fst (fold (\<lambda>(lm, v, u) d. add_to (key lm) v u d) rows ?d)) \<and>
    set (map fst (fold (\<lambda>(lm, v, u) d. add_to (key lm) v u d) rows ?d)) = set (map fst ?d) \<union> set (map (\<lambda>r. key (fst r)) rows)"
    by (intro Cons.IH)
  moreover have "set (map fst ?d) = insert (key lm) (set (map fst d))" unfolding k by auto
  ultimately show ?case by (simp add: r)
qed simp

lemma totals_list:
  assumes "distinct (map fst d)"
  shows "d = map (\<lambda>k. (k, total_at d k)) (map fst d)"
proof -
  have "map (\<lambda>x. (fst x, total_at d (fst x))) d = map (\<lambda>x. x) d"
    by (rule map_cong[OF refl]) (use assms in \<open>force simp: total_at_def dest: map_of_is_SomeI\<close>)
  then show ?thesis by (simp add: comp_def)
qed

lemma map_triple: "d = map (\<lambda>k. (k, A k, B k)) ks \<Longrightarrow> map (\<lambda>(k, v, u). h k v u) d = map (\<lambda>k. h k (A k) (B k)) ks"
  by simp

lemma year_month_mono:
  assumes "a \<le> b" shows "(year_of a, month_number a) \<le> (year_of b, month_number b)"
proof -
  obtain y m d where a: "civil a = (y, m, d)" by (rule prod_cases3)
  obtain y' m' d' where b: "civil b = (y', m', d')" by (rule prod_cases3)
  have "ordinal y m 1 \<le> a" using civil_valid(3,5)[OF a] by (simp add: ordinal_def)
  then show ?thesis using before_month(1)[OF b civil_valid(1,2)[OF a], of y] assms by (simp add: year_at[OF a] year_at[OF b])
qed

lemma quarter_mono: "a \<le> b \<Longrightarrow> quarter_key a \<le> quarter_key b"
  using year_month_mono[of a b] by (auto simp: quarter_key_def quarter_of_def less_eq_prod_def intro: zdiv_mono1)

lemma grouped_rows:
  assumes "\<And>x. x \<in> set js \<Longrightarrow> month_key x \<in> set ls" "distinct ls"
  shows "(\<Sum>lm\<leftarrow>ls. if key lm = k then worth_of (\<lambda>x. month_key x = lm) js else 0) = worth_of (\<lambda>x. key (month_key x) = k) js"
    "(\<Sum>lm\<leftarrow>ls. if key lm = k then units_of (\<lambda>x. month_key x = lm) js else 0) = units_of (\<lambda>x. key (month_key x) = k) js"
proof -
  have one: "(\<lambda>x. key (month_key x) = k \<and> month_key x = lm) = (if key lm = k then (\<lambda>x. month_key x = lm) else (\<lambda>x. False))" for lm
    by auto
  have w: "worth_of (\<lambda>x. key (month_key x) = k \<and> month_key x = lm) js = (if key lm = k then worth_of (\<lambda>x. month_key x = lm) js else 0)" for lm
    unfolding one by (simp add: worth_of_def)
  have "(\<Sum>lm\<leftarrow>ls. worth_of (\<lambda>x. key (month_key x) = k \<and> month_key x = lm) js)
      = worth_of (\<lambda>x. key (month_key x) = k \<and> month_key x \<in> set ls) js" by (rule grouped_worth) (rule assms(2))
  also have "\<dots> = worth_of (\<lambda>x. key (month_key x) = k) js" by (rule worth_cong) (use assms(1) in auto)
  finally show "(\<Sum>lm\<leftarrow>ls. if key lm = k then worth_of (\<lambda>x. month_key x = lm) js else 0) = worth_of (\<lambda>x. key (month_key x) = k) js"
    by (simp add: w)
  have none: "units_of (\<lambda>x. key (month_key x) = k \<and> month_key x = lm) js = (if key lm = k then units_of (\<lambda>x. month_key x = lm) js else 0)" for lm
    unfolding one by (simp add: units_of_def)
  have "(\<Sum>lm\<leftarrow>ls. units_of (\<lambda>x. key (month_key x) = k \<and> month_key x = lm) js)
      = units_of (\<lambda>x. key (month_key x) = k \<and> month_key x \<in> set ls) js" by (rule grouped_units) (rule assms(2))
  also have "\<dots> = units_of (\<lambda>x. key (month_key x) = k) js" by (rule units_cong) (use assms(1) in auto)
  finally show "(\<Sum>lm\<leftarrow>ls. if key lm = k then units_of (\<lambda>x. month_key x = lm) js else 0) = units_of (\<lambda>x. key (month_key x) = k) js"
    by (simp add: none)
qed

text \<open>The quarterly chart lines up although it sorts its labels and not its values: the rows come ordered by
  month, so the dictionary is filled in the order of the quarters, and the value under every label is what was
  sold in that quarter.  The same totals by year are those of the yearly chart.\<close>

theorem quarters_line_up:
  fixes flt cat db
  defines "js \<equiv> filtered_movements flt (\<lambda>r m. mv_type m = ''OUT'' \<and> priced r \<and> ordinal 2024 1 1 \<le> mv_day m) cat db"
  shows "\<exists>qs ys. sorted qs \<and> distinct qs \<and> set qs = (\<lambda>x. quarter_key (mv_day (snd x))) ` set js \<and>
    sales_quarters (sales_rows flt cat db) =
      (qs, map (\<lambda>q. round_even (worth_of (\<lambda>x. quarter_key (mv_day (snd x)) = q) js)) qs,
       map (\<lambda>q. units_of (\<lambda>x. quarter_key (mv_day (snd x)) = q) js) qs) \<and>
    sorted ys \<and> distinct ys \<and> set ys = (\<lambda>x. year_of (mv_day (snd x))) ` set js \<and>
    sales_years (sales_rows flt cat db) =
      map (\<lambda>y. (y, round_even (worth_of (\<lambda>x. year_of (mv_day (snd x)) = y) js), units_of (\<lambda>x. year_of (mv_day (snd x)) = y) js)) ys"
proof -
  define ls where "ls = sort (remdups (map month_key js))"
  have ls: "sorted ls" "distinct ls" "set ls = month_key ` set js" by (simp_all add: ls_def)
  have rows: "sales_rows flt cat db = map (\<lambda>lm. (lm, worth_of (\<lambda>x. month_key x = lm) js, units_of (\<lambda>x. month_key x = lm) js)) ls"
    by (simp add: sales_rows_def Let_def js_def ls_def worth_filter units_filter)
  have facts: "sorted (map fst (totals key (sales_rows flt cat db)))" "distinct (map fst (totals key (sales_rows flt cat db)))"
      "set (map fst (totals key (sales_rows flt cat db))) = (\<lambda>x. key (month_key x)) ` set js"
      "totals key (sales_rows flt cat db) = map (\<lambda>k. (k, worth_of (\<lambda>x. key (month_key x) = k) js,
         units_of (\<lambda>x. key (month_key x) = k) js)) (map fst (totals key (sales_rows flt cat db)))"
    if mono: "\<And>a b. a \<le> b \<Longrightarrow> key a \<le> key b" for key :: "int \<Rightarrow> 'x :: linorder"
  proof -
    have "sorted (map key ls)" using ls(1) by (rule sorted_map_mono) (use mono in \<open>auto intro: monoI mono_onI\<close>)
    then have "sorted (map (\<lambda>r. key (fst r)) (sales_rows flt cat db))" by (simp add: rows comp_def)
    from totals_keys[OF this, of "[]"]
    show s: "sorted (map fst (totals key (sales_rows flt cat db)))" "distinct (map fst (totals key (sales_rows flt cat db)))"
      "set (map fst (totals key (sales_rows flt cat db))) = (\<lambda>x. key (month_key x)) ` set js"
      by (simp_all add: totals_def) (simp add: rows comp_def ls(3) image_image)
    have "total_at (totals key (sales_rows flt cat db)) k = (worth_of (\<lambda>x. key (month_key x) = k) js, units_of (\<lambda>x. key (month_key x) = k) js)" for k
      unfolding totals_def totals_total by (simp add: total_at_def rows comp_def grouped_rows ls)
    then show "totals key (sales_rows flt cat db) = map (\<lambda>k. (k, worth_of (\<lambda>x. key (month_key x) = k) js,
         units_of (\<lambda>x. key (month_key x) = k) js)) (map fst (totals key (sales_rows flt cat db)))"
      using totals_list[OF s(2)] by simp
  qed
  have qk: "quarter_key (month_key x) = quarter_key (mv_day (snd x))" "year_of (month_key x) = year_of (mv_day (snd x))" for x
    by (simp_all add: quarter_key_def month_key_def first_of_month_key)
  let ?q = "totals quarter_key (sales_rows flt cat db)" and ?y = "totals year_of (sales_rows flt cat db)"
  have ymono: "year_of a \<le> year_of b" if "a \<le> b" for a b using year_month_mono[OF that] by (auto simp: less_eq_prod_def)
  note Q = facts[of quarter_key, OF quarter_mono, unfolded qk] and Y = facts[of year_of, OF ymono, unfolded qk]
  have quarters: "sales_quarters (sales_rows flt cat db) = (map fst ?q,
      map (\<lambda>q. round_even (worth_of (\<lambda>x. quarter_key (mv_day (snd x)) = q) js)) (map fst ?q),
      map (\<lambda>q. units_of (\<lambda>x. quarter_key (mv_day (snd x)) = q) js) (map fst ?q))"
  proof -
    have "sort (map fst ?q) = map fst ?q" using Q(1) by (rule sorted_sort_id)
    moreover note map_triple[OF Q(4), of "\<lambda>k v u. round_even v"] map_triple[OF Q(4), of "\<lambda>k v u. u"]
    ultimately show ?thesis by (simp only: sales_quarters_def Let_def)
  qed
  have years: "sales_years (sales_rows flt cat db) = map (\<lambda>y. (y, round_even (worth_of (\<lambda>x. year_of (mv_day (snd x)) = y) js),
      units_of (\<lambda>x. year_of (mv_day (snd x)) = y) js)) (map fst ?y)"
  proof -
    have "map_of ?y y = Some (worth_of (\<lambda>x. year_of (mv_day (snd x)) = y) js, units_of (\<lambda>x. year_of (mv_day (snd x)) = y) js)"
      if "y \<in> set (map fst ?y)" for y
    proof -
      have g: "map_of (map (\<lambda>k. (k, A k, B k)) ks) y = Some (A y, B y)" if "y \<in> set ks" for A :: "int \<Rightarrow> real" and B :: "int \<Rightarrow> int" and ks
        using that by (induction ks) auto
      show ?thesis by (rule trans[OF arg_cong[OF Y(4), of "\<lambda>d. map_of d y"] g[OF that]])
    qed
    moreover have "sort (map fst ?y) = map fst ?y" using Y(1) by (rule sorted_sort_id)
    ultimately show ?thesis by (simp add: sales_years_def Let_def)
  qed
  show ?thesis using Q(1,2,3) Y(1,2,3) quarters years
    by (intro exI[of _ "map fst ?q"] exI[of _ "map fst ?y"] conjI)
qed

section \<open>The page\<close>

lemma fixed_periods_fail: "civil now = (y, m, d) \<Longrightarrow> 2 \<le> y \<Longrightarrow> y \<le> 9999 \<Longrightarrow> isl (fixed_periods_of now) \<longleftrightarrow> m = 2 \<and> d = 29"
  using fixed_periods_cases[of now y m d] by (auto split: if_splits)

lemma trends_fail: "isl (trend_panels_of made flt cat db) \<longleftrightarrow> isl (fixed_periods_of (today db))"
  by (cases "fixed_periods_of (today db)"; cases "quarter_starts (today db)") (simp_all add: trend_panels_of_def Let_def)

lemma build_fail: "isl (report_build created made ratio flt p etl cat db) \<longleftrightarrow> isl (fixed_periods_of (today db))"
  using trends_fail[of made flt cat db] by (cases "trend_panels_of made flt cat db") (simp_all add: report_build_def)

lemma page_miss:
  assumes "month_range (year_of (today db)) (rf_months (filter_of other rq)) (rf_years (filter_of other rq)) = Inr rng"
    and "cache_lookup c t1 (report_key rng (filter_of other rq)) = None"
  shows "reports_page other created made ratio (t1, t2, t3) rq etl cat db c =
    (let k = report_key rng (filter_of other rq); c2 = cache_touch t2 k (cache_touch t1 k c) in
     case report_build created made ratio (filter_of other rq) (report_period rng) etl cat db of
       Inl e \<Rightarrow> (Err e, c2) | Inr v \<Rightarrow> (Ok v, cache_put t3 k v c2))"
  using assms lookup_touch_same[OF assms(2)] by (simp add: reports_page_def Let_def get_or_set_alt)

text \<open>C35: On the 29th of February the reports page answers with an error: whatever a request asks for, as long as its
  months and years are numbers and its page is not in the cache, building it asks for the same day of the year
  before, which does not exist.  On every other day it is built.\<close>

theorem reports_page_leap_day:
  assumes "civil (today db) = (y, m, d)" "2 \<le> y" "y \<le> 9999"
    and "month_range y (rf_months (filter_of other rq)) (rf_years (filter_of other rq)) = Inr rng"
    and "cache_lookup c t1 (report_key rng (filter_of other rq)) = None"
  shows "isl (fst (reports_page other created made ratio (t1, t2, t3) rq etl cat db c)) \<longleftrightarrow> m = 2 \<and> d = 29"
proof -
  let ?b = "report_build created made ratio (filter_of other rq) (report_period rng) etl cat db"
  have y: "year_of (today db) = y" by (rule year_at(1)[OF assms(1)])
  have "isl ?b \<longleftrightarrow> m = 2 \<and> d = 29" unfolding build_fail by (rule fixed_periods_fail[OF assms(1-3)])
  then show ?thesis using page_miss[of db other rq rng c t1 created made ratio t2 t3 etl cat] assms(4,5) y
    by (cases ?b) (auto simp: Let_def)
qed

definition any_report :: report_request where
  "any_report = \<lparr>rr_months = (Absent, []), rr_years = (Absent, []), rr_warehouses = (Absent, []), rr_categories = (Absent, [])\<rparr>"

lemma any_report_filter: "filter_of other any_report = whole_shop"
  by (simp add: filter_of_def any_report_def picked_def picked_single_def whole_shop_def)

theorem reports_page_leap_day_witness:
  "\<exists>db. civil (today db) = (2028, 2, 29) \<and>
     isl (fst (reports_page (\<lambda>v. []) (\<lambda>i. 0) (\<lambda>i. 0) (1 / 2) (1, 1, 1) any_report demo_dims nut_catalog db (new_cache 7200 50)))"
proof -
  let ?db = "shop_db nut_shop\<lparr>today := ordinal 2028 2 29\<rparr>"
  have c: "civil (today ?db) = (2028, 2, 29)" by (simp add: civil_ordinal month_length_def leap_def)
  have "cache_lookup (new_cache 7200 50 :: report_view ttl_cache) 1 k = None" for k
    by (simp add: cache_lookup_def new_cache_def)
  from reports_page_leap_day[OF c, of "\<lambda>v. []" any_report None, OF _ _ _ this]
  have "isl (fst (reports_page (\<lambda>v. []) (\<lambda>i. 0) (\<lambda>i. 0) (1 / 2) (1, 1, 1) any_report demo_dims nut_catalog ?db (new_cache 7200 50)))"
    by (simp add: any_report_filter whole_shop_def month_range_def)
  then show ?thesis using c by blast
qed

text \<open>The reports are cached under the first and last month and the joined names, not under what was chosen.  So
  when two requests choose different months with the same first and last one, or different warehouses whose names
  joined by commas read the same, the second is answered with the page of the first until it expires, with the
  first one's selection and figures, whatever happened to the tables that did not drop the entry.\<close>

theorem cached_report_shared:
  assumes "month_range (year_of (today db)) (rf_months (filter_of other rq)) (rf_years (filter_of other rq)) = Inr rng"
    and "month_range (year_of (today db')) (rf_months (filter_of other rq')) (rf_years (filter_of other rq')) = Inr rng"
    and "joins '','' (rf_warehouses (filter_of other rq)) = joins '','' (rf_warehouses (filter_of other rq'))"
    and "joins '','' (rf_categories (filter_of other rq)) = joins '','' (rf_categories (filter_of other rq'))"
    and "cache_lookup c t1 (report_key rng (filter_of other rq)) = None" "0 < max_entries c" "u1 < t3 + ttl c"
    and "reports_page other created made ratio (t1, t2, t3) rq etl cat db c = (Ok v, c')"
  shows "rp_filter v = filter_of other rq \<and> rp_today v = today db \<and>
    fst (reports_page other created made ratio (u1, u2, u3) rq' etl' cat' db' c') = Ok v"
proof -
  let ?f = "filter_of other rq" and ?f' = "filter_of other rq'"
  let ?k = "report_key rng ?f"
  have k: "report_key rng ?f' = ?k" using assms(3,4) by (simp add: report_key_def)
  have v: "report_build created made ratio ?f (report_period rng) etl cat db = Inr v"
    and c': "c' = cache_put t3 ?k v (cache_touch t2 ?k (cache_touch t1 ?k c))"
    using assms(8) page_miss[OF assms(1,5), of created made ratio t2 t3 etl cat] by (auto simp: Let_def split: sum.splits)
  have "rp_filter v = ?f" "rp_today v = today db"
    using v by (cases "trend_panels_of made ?f cat db"; auto simp: report_build_def)+
  moreover have "cache_lookup c' u1 ?k = Some v" unfolding c' using assms(6,7) by (intro lookup_put_own) simp_all
  ultimately show ?thesis using assms(2) by (simp add: reports_page_def Let_def get_or_set_alt k)
qed

definition months_of_2026 :: "string list \<Rightarrow> report_request" where
  "months_of_2026 ms = any_report\<lparr>rr_months := (Json (PList (map PStr ms)), []), rr_years := (Json (PList [PStr ''2026'']), [])\<rparr>"

theorem cached_report_shared_witness:
  "\<exists>v c'. reports_page (\<lambda>v. []) (\<lambda>i. 0) (\<lambda>i. 0) (1 / 2) (1, 1, 1) (months_of_2026 [''3'', ''5'']) demo_dims nut_catalog late_sale
      (new_cache 7200 50) = (Ok v, c') \<and> rf_months (rp_filter v) = [''3'', ''5''] \<and>
     fst (reports_page (\<lambda>v. []) (\<lambda>i. 0) (\<lambda>i. 0) (1 / 2) (2, 2, 2) (months_of_2026 [''3'', ''4'', ''5'']) demo_dims nut_catalog late_sale c') = Ok v"
proof -
  let ?c = "new_cache 7200 50 :: report_view ttl_cache" and ?o = "\<lambda>v :: pyval. [] :: string"
  let ?a = "filter_of ?o (months_of_2026 [''3'', ''5''])" and ?b = "filter_of ?o (months_of_2026 [''3'', ''4'', ''5''])"
  have f: "?a = whole_shop\<lparr>rf_months := [''3'', ''5''], rf_years := [''2026'']\<rparr>"
    "?b = whole_shop\<lparr>rf_months := [''3'', ''4'', ''5''], rf_years := [''2026'']\<rparr>"
    by (simp_all add: filter_of_def months_of_2026_def any_report_def picked_def picked_single_def whole_shop_def)
  have i: "all_ints [''3'', ''5''] = Inr [3, 5]" "all_ints [''3'', ''4'', ''5''] = Inr [3, 4, 5]" "all_ints [''2026''] = Inr [2026]"
    by code_simp+
  let ?r = "Some ((2026, 3), (2026, 5)) :: ((int \<times> int) \<times> (int \<times> int)) option"
  have r: "month_range yr (rf_months ?a) (rf_years ?a) = Inr ?r" "month_range yr (rf_months ?b) (rf_years ?b) = Inr ?r" for yr
    by (simp_all add: f i month_range_def whole_shop_def Let_def less_eq_prod_def min_def max_def del: all_ints.simps)
  have none: "cache_lookup ?c 1 k = None" for k by (simp add: cache_lookup_def new_cache_def)
  have cv: "civil (today late_sale) = (2026, 3, 10)" unfolding late_sale_def by (simp add: civil_ordinal month_length_def)
  obtain v where "report_build (\<lambda>i. 0) (\<lambda>i. 0) (1 / 2) ?a (report_period ?r) demo_dims nut_catalog late_sale = Inr v"
    using build_fail[of "\<lambda>i. 0" "\<lambda>i. 0" "1 / 2" ?a "report_period ?r" demo_dims nut_catalog late_sale] fixed_periods_fail[OF cv]
    by (cases "report_build (\<lambda>i. 0) (\<lambda>i. 0) (1 / 2) ?a (report_period ?r) demo_dims nut_catalog late_sale") auto
  then obtain c' where p: "reports_page ?o (\<lambda>i. 0) (\<lambda>i. 0) (1 / 2) (1, 1, 1) (months_of_2026 [''3'', ''5'']) demo_dims nut_catalog late_sale ?c = (Ok v, c')"
    using page_miss[OF r(1) none, of "\<lambda>i. 0" "\<lambda>i. 0" "1 / 2" 1 1 demo_dims nut_catalog] by (simp add: Let_def)
  have "rp_filter v = ?a \<and> rp_today v = today late_sale \<and> fst (reports_page ?o (\<lambda>i. 0) (\<lambda>i. 0) (1 / 2) (2, 2, 2)
      (months_of_2026 [''3'', ''4'', ''5'']) demo_dims nut_catalog late_sale c') = Ok v"
    by (rule cached_report_shared[OF r(1) r(2) _ _ none _ _ p]) (simp_all add: f new_cache_def whole_shop_def)
  then show ?thesis using p f by (intro exI[of _ v] exI[of _ c']) simp
qed

end
