(* ===== verification/Activity.thy ===== *)
theory Activity
  imports AuditLog Periods
begin

text \<open>What administrators read: user activity from the audit log (\<open>services/user_activity_service.py\<close>,
  \<open>services/user_activity_analytics_service.py\<close>, \<open>repositories/user_activity_repo.py\<close> and their routes)
  and the log file (\<open>services/log_viewer_service.py\<close> and its route).\<close>

section \<open>User activity\<close>

record activity_filter =
  af_user :: "int option"
  af_action :: "string option"
  af_start :: "string option"
  af_end :: "string option"

definition given :: "string option \<Rightarrow> bool" where "given t = (t \<noteq> None \<and> t \<noteq> Some [])"

text \<open>\<open>cast\<close> is the server's cast of a text to a timestamp.\<close>

definition activity_matches :: "(string \<Rightarrow> int option) \<Rightarrow> activity_filter \<Rightarrow> log_row \<Rightarrow> bool" where
  "activity_matches cast f r =
     ((case af_user f of None \<Rightarrow> True | Some u \<Rightarrow> lg_user r = Some u) \<and>
      (if given (af_action f) then Some (lg_action r) = af_action f else lg_action r \<noteq> ''user.login'') \<and>
      (given (af_start f) \<longrightarrow> (case Option.bind (af_start f) cast of None \<Rightarrow> False | Some t \<Rightarrow> t \<le> lg_at r)) \<and>
      (given (af_end f) \<longrightarrow> (case Option.bind (af_end f) cast of None \<Rightarrow> False | Some t \<Rightarrow> lg_at r < t)))"

definition newest_first :: "log_row list \<Rightarrow> log_row list" where
  "newest_first rows = sort_key (\<lambda>r. - lg_at r) rows"

definition sql_page :: "int \<Rightarrow> int \<Rightarrow> 'r list \<Rightarrow> 'r list result" where
  "sql_page cap offset rows =
     (if cap < 0 then Err (OtherExc ''LIMIT must not be negative'')
      else if offset < 0 then Err (OtherExc ''OFFSET must not be negative'')
      else Ok (take (nat cap) (drop (nat offset) rows)))"

text \<open>The joined tables both have a column \<open>created_at\<close>, which the date conditions name without its table.\<close>

definition get_activities ::
  "(string \<Rightarrow> int option) \<Rightarrow> activity_filter \<Rightarrow> int \<Rightarrow> int \<Rightarrow> user_db \<Rightarrow> log_row list \<Rightarrow> (log_row \<times> string option) list result" where
  "get_activities cast f cap offset db rows =
     (if given (af_start f) \<or> given (af_end f) then Err (OtherExc ''column reference is ambiguous'')
      else bindE (sql_page cap offset (newest_first (filter (activity_matches cast f) rows))) (\<lambda>page.
        Ok (map (\<lambda>r. (r, Option.bind (lg_user r) (\<lambda>u. map_option ac_username (account u db)))) page)))"

definition castable :: "(string \<Rightarrow> int option) \<Rightarrow> string option \<Rightarrow> bool" where
  "castable cast t = (\<not> given t \<or> Option.bind t cast \<noteq> None)"

definition get_activities_count :: "(string \<Rightarrow> int option) \<Rightarrow> activity_filter \<Rightarrow> log_row list \<Rightarrow> nat result" where
  "get_activities_count cast f rows =
     (if \<not> (castable cast (af_start f) \<and> castable cast (af_end f)) then Err (OtherExc ''invalid input syntax'')
      else Ok (length (filter (activity_matches cast f) rows)))"

definition repo_recent_activities :: "int \<Rightarrow> log_row list \<Rightarrow> log_row list result" where
  "repo_recent_activities cap rows = sql_page cap 0 (newest_first rows)"

definition no_filter :: activity_filter where
  "no_filter = \<lparr>af_user = None, af_action = None, af_start = None, af_end = None\<rparr>"

definition activities_by_user :: "(string \<Rightarrow> int option) \<Rightarrow> int \<Rightarrow> int \<Rightarrow> user_db \<Rightarrow> log_row list \<Rightarrow> (log_row \<times> string option) list result" where
  "activities_by_user cast uid cap = get_activities cast (no_filter\<lparr>af_user := Some uid\<rparr>) cap 0"

text \<open>The service; readers who are neither administrator nor manager are restricted to their own rows.\<close>

definition sees_all :: "request_ctx \<Rightarrow> bool" where
  "sees_all u = (ctx_role u \<in> {''admin'', ''manager''})"

definition own_filter :: "request_ctx \<Rightarrow> activity_filter \<Rightarrow> activity_filter" where
  "own_filter u f = (if sees_all u then f else f\<lparr>af_user := Some (ctx_user_id u)\<rparr>)"

definition signed_in :: "request_ctx \<Rightarrow> unit result" where
  "signed_in u = ensure (authenticated u) (ValueError ''Authentication required'')"

definition service_activities ::
  "(string \<Rightarrow> int option) \<Rightarrow> request_ctx \<Rightarrow> activity_filter \<Rightarrow> int \<Rightarrow> int \<Rightarrow> user_db \<Rightarrow> log_row list \<Rightarrow>
   (log_row \<times> string option) list result" where
  "service_activities cast u f cap offset db rows =
     bindE (signed_in u) (\<lambda>_. get_activities cast (own_filter u f) cap offset db rows)"

definition service_count :: "(string \<Rightarrow> int option) \<Rightarrow> request_ctx \<Rightarrow> activity_filter \<Rightarrow> log_row list \<Rightarrow> nat result" where
  "service_count cast u f rows = bindE (signed_in u) (\<lambda>_. get_activities_count cast (own_filter u f) rows)"

definition service_recent :: "(string \<Rightarrow> int option) \<Rightarrow> request_ctx \<Rightarrow> int \<Rightarrow> user_db \<Rightarrow> log_row list \<Rightarrow> log_row list result" where
  "service_recent cast u cap db rows = bindE (signed_in u) (\<lambda>_.
     if sees_all u then repo_recent_activities cap rows
     else bindE (activities_by_user cast (ctx_user_id u) cap db rows) (\<lambda>page. Ok (map fst page)))"

definition service_by_user ::
  "(string \<Rightarrow> int option) \<Rightarrow> request_ctx \<Rightarrow> int \<Rightarrow> int \<Rightarrow> user_db \<Rightarrow> log_row list \<Rightarrow> (log_row \<times> string option) list result" where
  "service_by_user cast u uid cap db rows = bindE (signed_in u) (\<lambda>_.
     bindE (ensure (sees_all u \<or> ctx_user_id u = uid) (ValueError ''Insufficient permissions to view other users' activities'')) (\<lambda>_.
     activities_by_user cast uid cap db rows))"

text \<open>The two pages.  A user that is not found is shown by its number.\<close>

definition shown_name :: "int option \<Rightarrow> user_db \<Rightarrow> string" where
  "shown_name uid db = (case Option.bind uid (\<lambda>i. find_by_id i db) of
     Some a \<Rightarrow> ac_username a | None \<Rightarrow> ''User '' @ (case uid of None \<Rightarrow> ''None'' | Some i \<Rightarrow> int_str i))"

record activity_page =
  ap_rows :: "(log_row \<times> string option) list"
  ap_total :: nat
  ap_users :: "(int \<times> string) list"

definition activity_index ::
  "(string \<Rightarrow> int option) \<Rightarrow> request_ctx \<Rightarrow> activity_filter \<Rightarrow> int \<Rightarrow> int \<Rightarrow> user_db \<Rightarrow> log_row list \<Rightarrow> activity_page outcome" where
  "activity_index cast u f cap offset db rows =
     (if ctx_role u \<notin> set WRITE_ROLES then Aborted 403
      else (case bindE (service_activities cast u f cap offset db rows) (\<lambda>page.
          bindE (service_count cast u f rows) (\<lambda>n.
          Ok \<lparr>ap_rows = page, ap_total = n, ap_users = sort_key snd (map (\<lambda>a. (ac_id a, ac_username a)) (accounts db))\<rparr>)) of
        Inl e \<Rightarrow> Raised e | Inr p \<Rightarrow> Returned p))"

definition user_activities ::
  "(string \<Rightarrow> int option) \<Rightarrow> request_ctx \<Rightarrow> int \<Rightarrow> user_db \<Rightarrow> log_row list \<Rightarrow> ((log_row \<times> string option) list \<times> string) outcome" where
  "user_activities cast u uid db rows =
     (if ctx_role u \<notin> set WRITE_ROLES then Aborted 403
      else (case service_by_user cast u uid 100 db rows of
        Inl e \<Rightarrow> Raised e | Inr page \<Rightarrow> Returned (page, shown_name (Some uid) db)))"

section \<open>Analytics\<close>

definition day_us :: int where "day_us = 86400000000"

text \<open>\<open>lg_at\<close> counts microseconds; \<open>epoch\<close> is the ordinal of its first day.\<close>

definition log_day :: "int \<Rightarrow> log_row \<Rightarrow> int" where "log_day epoch r = epoch + lg_at r div day_us"

definition activity_counts_by_day :: "int \<Rightarrow> int \<Rightarrow> int \<Rightarrow> log_row list \<Rightarrow> (string \<times> nat) list" where
  "activity_counts_by_day epoch now days rows =
     (let start = now - (days - 1);
          rows = filter (\<lambda>r. start \<le> log_day epoch r \<and> log_day epoch r < now + 1) rows;
          found = map (\<lambda>d. (d, length (filter (\<lambda>r. log_day epoch r = d) rows))) (sort (remdups (map (log_day epoch) rows)))
      in map (\<lambda>d. (iso_of d, case map_of found d of None \<Rightarrow> 0 | Some n \<Rightarrow> n)) [start..now])"

definition top_users :: "int \<Rightarrow> user_db \<Rightarrow> log_row list \<Rightarrow> (int \<times> string \<times> nat) list" where
  "top_users cap db rows =
     (let us = List.map_filter lg_user rows
      in take (nat cap) (sort_key (\<lambda>(u, n, k). - int k) (map (\<lambda>u. (u, case account u db of
           None \<Rightarrow> ''User '' @ int_str u | Some a \<Rightarrow> if ac_username a = [] then ''User '' @ int_str u else ac_username a,
           count_list us u)) (remdups us))))"

definition top_actions :: "int \<Rightarrow> log_row list \<Rightarrow> (string \<times> nat) list" where
  "top_actions cap rows = (let as = map lg_action rows
     in take (nat cap) (sort_key (\<lambda>(a, k). - int k) (map (\<lambda>a. (a, count_list as a)) (remdups as))))"

definition activity_by_action_type :: "int \<Rightarrow> int \<Rightarrow> int \<Rightarrow> log_row list \<Rightarrow> (string \<times> int \<times> nat) list" where
  "activity_by_action_type epoch now days rows =
     (let rows = filter (\<lambda>r. now - (days - 1) \<le> log_day epoch r \<and> log_day epoch r < now + 1) rows;
          key = (\<lambda>r. (lg_action r, log_day epoch r))
      in map (\<lambda>(a, d). (a, d, length (filter (\<lambda>r. key r = (a, d)) rows))) (sort (remdups (map key rows))))"

record analytics_page =
  an_counts :: "(string \<times> nat) list"
  an_users :: "(int \<times> string \<times> nat) list"
  an_actions :: "(string \<times> nat) list"
  an_recent :: "log_row list"
  an_total :: nat

text \<open>Any error of a query is shown on the dashboard.\<close>

definition analytics_index ::
  "request_ctx \<Rightarrow> int \<Rightarrow> int \<Rightarrow> int \<Rightarrow> user_db \<Rightarrow> log_row list \<Rightarrow> (string + analytics_page) outcome" where
  "analytics_index u epoch now page db rows =
     (if ctx_role u \<notin> set WRITE_ROLES then Aborted 403
      else (case sql_page 20 ((page - 1) * 20) (newest_first rows) of
        Inl e \<Rightarrow> Returned (Inl (''Error loading analytics: '' @ exc_text e))
      | Inr latest \<Rightarrow> Returned (Inr \<lparr>an_counts = activity_counts_by_day epoch now 30 rows, an_users = top_users 10 db rows,
          an_actions = top_actions 10 rows, an_recent = latest, an_total = length rows\<rparr>)))"

section \<open>The log file\<close>

record log_entry =
  le_time :: int
  le_level :: string
  le_name :: string
  le_message :: string
  le_raw :: string

definition word_char :: "char \<Rightarrow> bool" where "word_char c = (is_letter c \<or> is_digit c \<or> c = CHR ''_'')"

text \<open>The time stamp of the pattern, in milliseconds, if it is one: \<open>%Y-%m-%d %H:%M:%S,%f\<close>.\<close>

definition stamp_shape :: "string \<Rightarrow> bool" where
  "stamp_shape s = (length s = 23 \<and> list_all2 (\<lambda>c p. if p = CHR ''0'' then is_digit c else c = p) s ''0000-00-00 00:00:00,000'')"

definition number_at :: "nat \<Rightarrow> nat \<Rightarrow> string \<Rightarrow> int" where
  "number_at i n s = foldl (\<lambda>acc c. acc * 10 + int (digit_val c)) 0 (take n (drop i s))"

definition stamp_time :: "string \<Rightarrow> int option" where
  "stamp_time s =
     (let y = number_at 0 4 s; mo = number_at 5 2 s; d = number_at 8 2 s; h = number_at 11 2 s; mi = number_at 14 2 s;
          sec = number_at 17 2 s; ms = number_at 20 3 s
      in (case make_date y mo d of Inl e \<Rightarrow> None | Inr day \<Rightarrow>
           if h \<le> 23 \<and> mi \<le> 59 \<and> sec \<le> 59 then Some (((day * 24 + h) * 60 + mi) * 60000 + sec * 1000 + ms) else None))"

text \<open>A line that the pattern matches and whose time stamp is a time.\<close>

definition parse_line :: "string \<Rightarrow> log_entry option" where
  "parse_line line =
     (let s = strip line; ts = take 23 s; s1 = drop 23 s in
      if \<not> stamp_shape ts then None
      else (case s1 of c # s2 \<Rightarrow>
          if c \<noteq> CHR '' '' then None
          else (let lev = takeWhile word_char s2; s3 = dropWhile word_char s2 in
            if lev = [] then None
            else (case s3 of c # s4 \<Rightarrow>
                if c \<noteq> CHR '' '' then None
                else (let nm = takeWhile (\<lambda>c. c \<noteq> CHR '' '') s4; s5 = dropWhile (\<lambda>c. c \<noteq> CHR '' '') s4 in
                  if nm = [] then None
                  else (case s5 of c # msg \<Rightarrow> map_option (\<lambda>t. \<lparr>le_time = t, le_level = lev, le_name = nm, le_message = msg, le_raw = s\<rparr>)
                          (stamp_time ts) | [] \<Rightarrow> None)) | [] \<Rightarrow> None)) | [] \<Rightarrow> None))"

record log_filter =
  lf_level :: "string option"
  lf_start :: "int option"
  lf_end :: "int option"
  lf_search :: "string option"

definition log_matches :: "log_filter \<Rightarrow> log_entry \<Rightarrow> bool" where
  "log_matches f e =
     ((given (lf_level f) \<longrightarrow> Some (upper (le_level e)) = map_option upper (lf_level f)) \<and>
      (case lf_start f of None \<Rightarrow> True | Some t \<Rightarrow> t \<le> le_time e) \<and>
      (case lf_end f of None \<Rightarrow> True | Some t \<Rightarrow> le_time e \<le> t) \<and>
      (given (lf_search f) \<longrightarrow> (case lf_search f of None \<Rightarrow> True | Some q \<Rightarrow> contains (lower (le_message e)) (lower q))))"

text \<open>The loop over the kept lines, newest first, that stops when it has enough.\<close>

fun collect :: "log_filter \<Rightarrow> nat \<Rightarrow> log_entry list \<Rightarrow> string list \<Rightarrow> log_entry list" where
  "collect f enough acc [] = acc"
| "collect f enough acc (line # lines) =
     (case parse_line line of None \<Rightarrow> collect f enough acc lines
      | Some e \<Rightarrow> if \<not> log_matches f e then collect f enough acc lines
          else (let acc = acc @ [e] in if enough \<le> length acc then acc else collect f enough acc lines))"

text \<open>Python's slice \<open>xs[i:j]\<close>.\<close>

definition slice_index :: "int \<Rightarrow> int \<Rightarrow> nat" where
  "slice_index n i = nat (if i < 0 then max 0 (n + i) else min i n)"

definition py_slice :: "int \<Rightarrow> int \<Rightarrow> 'a list \<Rightarrow> 'a list" where
  "py_slice i j xs = (let n = int (length xs) in drop (slice_index n i) (take (slice_index n j) xs))"

text \<open>A missing file reads as None; the check of its path is a constant.\<close>

definition get_log_entries :: "int \<Rightarrow> int \<Rightarrow> log_filter \<Rightarrow> string list option \<Rightarrow> log_entry list result" where
  "get_log_entries cap offset f file = (case file of None \<Rightarrow> Ok []
     | Some lines \<Rightarrow>
         if cap + offset < 0 then Err (ValueError ''maxlen must be non-negative'')
         else (let w = nat (cap + offset); kept = drop (length lines - w) lines
           in Ok (py_slice offset (offset + cap) (collect f w [] (rev kept)))))"

definition get_recent_logs :: "string list option \<Rightarrow> log_entry list result" where
  "get_recent_logs file = get_log_entries 100 0 \<lparr>lf_level = None, lf_start = None, lf_end = None, lf_search = None\<rparr> file"

definition get_log_count :: "string list option \<Rightarrow> nat" where
  "get_log_count file = (case file of None \<Rightarrow> 0 | Some lines \<Rightarrow> length lines)"

record log_page =
  lp_entries :: "log_entry list"
  lp_total :: nat
  lp_flashed :: "(string \<times> string) list"

text \<open>\<open>day\<close> is \<open>strptime(t, "%Y-%m-%d")\<close>, midnight of the day; a text that is no date is dropped with a
  message.\<close>

definition date_arg :: "(string \<Rightarrow> int option) \<Rightarrow> string \<Rightarrow> string option \<Rightarrow> int option \<times> (string \<times> string) list" where
  "date_arg day what t =
     (if \<not> given t then (None, [])
      else (case Option.bind t day of Some d \<Rightarrow> (Some (d * 86400000), [])
        | None \<Rightarrow> (None, [(''warning'', ''Invalid '' @ what @ '' date format. Use YYYY-MM-DD.'')])))"

definition log_viewer_index ::
  "(string \<Rightarrow> int option) \<Rightarrow> request_ctx \<Rightarrow> string option \<Rightarrow> string option \<Rightarrow> string option \<Rightarrow> string option \<Rightarrow> int \<Rightarrow> int \<Rightarrow>
   string list option \<Rightarrow> log_page outcome" where
  "log_viewer_index day u lvl start stop search cap offset file =
     (if ctx_role u \<notin> set WRITE_ROLES then Aborted 403
      else (case (date_arg day ''start'' start, date_arg day ''end'' stop) of ((s, fs), (e, fe)) \<Rightarrow>
        (case get_log_entries cap offset \<lparr>lf_level = lvl, lf_start = s, lf_end = e, lf_search = search\<rparr> file of
          Inl x \<Rightarrow> Raised x
        | Inr es \<Rightarrow> Returned \<lparr>lp_entries = es, lp_total = get_log_count file, lp_flashed = fs @ fe\<rparr>)))"

section \<open>Who sees what\<close>

lemma get_activities_rows:
  assumes "get_activities cast f cap offset db rows = Ok page" "x \<in> set page"
  shows "fst x \<in> set rows \<and> activity_matches cast f (fst x)"
proof -
  obtain rs where "sql_page cap offset (newest_first (filter (activity_matches cast f) rows)) = Inr rs"
    and x: "fst x \<in> set rs"
    using assms by (auto simp: get_activities_def bindE_Ok_iff split: if_splits)
  then have "set rs \<subseteq> set (newest_first (filter (activity_matches cast f) rows))"
    by (auto simp: sql_page_def split: if_splits dest!: in_set_takeD in_set_dropD)
  then show ?thesis using x by (auto simp: newest_first_def)
qed

text \<open>A reader below the managers sees only rows of his own, through each of the four lists and whatever he asks
  for; and what is counted for the pager is what the pages list.\<close>

theorem activity_private:
  assumes "\<not> sees_all u"
  shows "service_activities cast u f cap offset db rows = Ok page \<Longrightarrow> x \<in> set page \<Longrightarrow> lg_user (fst x) = Some (ctx_user_id u)"
    "service_by_user cast u uid cap db rows = Ok page \<Longrightarrow> x \<in> set page \<Longrightarrow> lg_user (fst x) = Some (ctx_user_id u)"
    "service_recent cast u cap db rows = Ok page' \<Longrightarrow> r \<in> set page' \<Longrightarrow> lg_user r = Some (ctx_user_id u)"
proof -
  have own: "activity_matches cast g r \<Longrightarrow> af_user g = Some i \<Longrightarrow> lg_user r = Some i" for g r i
    by (simp add: activity_matches_def)
  show "service_activities cast u f cap offset db rows = Ok page \<Longrightarrow> x \<in> set page \<Longrightarrow> lg_user (fst x) = Some (ctx_user_id u)"
    using assms by (auto simp: service_activities_def bindE_Ok_iff own_filter_def dest!: get_activities_rows own)
  show "service_by_user cast u uid cap db rows = Ok page \<Longrightarrow> x \<in> set page \<Longrightarrow> lg_user (fst x) = Some (ctx_user_id u)"
    using assms by (auto simp: service_by_user_def bindE_Ok_iff activities_by_user_def ensure_def split: if_splits
        dest!: get_activities_rows own)
  show "service_recent cast u cap db rows = Ok page' \<Longrightarrow> r \<in> set page' \<Longrightarrow> lg_user r = Some (ctx_user_id u)"
  proof -
    assume "service_recent cast u cap db rows = Ok page'" "r \<in> set page'"
    then obtain page x where p: "activities_by_user cast (ctx_user_id u) cap db rows = Inr page" "x \<in> set page" "r = fst x"
      using assms by (auto simp: service_recent_def bindE_Ok_iff)
    have "activity_matches cast (no_filter\<lparr>af_user := Some (ctx_user_id u)\<rparr>) r"
      using get_activities_rows[of cast _ cap 0 db rows page x] p by (simp add: activities_by_user_def)
    then show "lg_user r = Some (ctx_user_id u)" by (rule own) simp
  qed
qed

text \<open>With a date in the filter the list fails, although the count of the same filter succeeds.\<close>

theorem dates_break_the_list:
  assumes "ctx_role u \<in> set WRITE_ROLES" "authenticated u" "given (af_start f) \<or> given (af_end f)"
  shows "activity_index cast u f cap offset db rows = Raised (OtherExc ''column reference is ambiguous'')"
    "castable cast (af_start f) \<Longrightarrow> castable cast (af_end f) \<Longrightarrow>
     service_count cast u f rows = Ok (length (filter (activity_matches cast f) rows))"
proof -
  have s: "sees_all u" using assms(1) by (auto simp: sees_all_def WRITE_ROLES_def)
  then show "activity_index cast u f cap offset db rows = Raised (OtherExc ''column reference is ambiguous'')"
    using assms by (simp add: activity_index_def service_activities_def signed_in_def ensure_def get_activities_def own_filter_def)
  show "castable cast (af_start f) \<Longrightarrow> castable cast (af_end f) \<Longrightarrow>
     service_count cast u f rows = Ok (length (filter (activity_matches cast f) rows))"
    using s assms by (simp add: service_count_def signed_in_def ensure_def get_activities_count_def own_filter_def)
qed

section \<open>The pages of the log\<close>

definition entry_of :: "log_filter \<Rightarrow> string \<Rightarrow> log_entry option" where
  "entry_of f line = (case parse_line line of None \<Rightarrow> None | Some e \<Rightarrow> if log_matches f e then Some e else None)"

text \<open>The matching entries of the whole file, newest first, with the number of their line from the end.\<close>

fun number_from :: "log_filter \<Rightarrow> nat \<Rightarrow> string list \<Rightarrow> (nat \<times> log_entry) list" where
  "number_from f k [] = []"
| "number_from f k (line # L) = (case entry_of f line of None \<Rightarrow> [] | Some e \<Rightarrow> [(k, e)]) @ number_from f (Suc k) L"

definition numbered :: "log_filter \<Rightarrow> string list \<Rightarrow> (nat \<times> log_entry) list" where
  "numbered f lines = number_from f 0 (rev lines)"

lemma number_from_ge: "x \<in> set (number_from f k L) \<Longrightarrow> k \<le> fst x"
  by (induction L arbitrary: k) (fastforce split: option.splits dest: Suc_leD)+

lemma collect_take:
  "length acc < w \<Longrightarrow> collect f w acc L = acc @ take (w - length acc) (List.map_filter (entry_of f) L)"
proof (induction L arbitrary: acc)
  case (Cons line L)
  show ?case
  proof (cases "entry_of f line")
    case None
    then show ?thesis using Cons by (auto simp: entry_of_def map_filter_simps split: option.splits if_splits)
  next
    case (Some e)
    then have e: "parse_line line = Some e" "log_matches f e" by (auto simp: entry_of_def split: option.splits if_splits)
    have "w - length acc = Suc (w - Suc (length acc))" using Cons.prems by simp
    then show ?thesis using Cons Some e by (cases "w \<le> Suc (length acc)") (simp_all add: map_filter_simps Let_def)
  qed
qed (simp add: map_filter_simps)

lemma map_filter_length: "length (List.map_filter g xs) \<le> length xs"
  by (induction xs) (auto simp: map_filter_simps split: option.split)

lemma collect_all: "length L \<le> w \<Longrightarrow> collect f w [] L = List.map_filter (entry_of f) L"
proof (cases "w = 0")
  case False
  assume "length L \<le> w"
  then show ?thesis using collect_take[of "[]" w f L] False map_filter_length[of "entry_of f" L] by simp
qed (simp add: map_filter_simps)

lemma py_slice_page: "0 \<le> i \<Longrightarrow> 0 \<le> n \<Longrightarrow> py_slice i (i + n) xs = take (nat n) (drop (nat i) xs)"
proof -
  assume n: "0 \<le> i" "0 \<le> n"
  then have e: "slice_index (int (length xs)) i = min (nat i) (length xs)"
    "slice_index (int (length xs)) (i + n) = min (nat i + nat n) (length xs)" by (auto simp: slice_index_def min_def)
  show ?thesis unfolding py_slice_def Let_def e
    by (simp add: take_drop min_def add.commute)
qed

lemma numbered_window: "filter (\<lambda>x. fst x < w) (numbered f lines) = numbered f (drop (length lines - w) lines)"
proof -
  have "filter (\<lambda>x. fst x < k + w) (number_from f k L) = number_from f k (take w L)" for k L
  proof (induction L arbitrary: k w)
    case (Cons l L)
    show ?case
    proof (cases w)
      case 0
      have "\<not> fst x < k" if "x \<in> set (number_from f k (l # L))" for x
        using number_from_ge[OF that] by (simp only: linorder_not_less)
      then have "filter (\<lambda>x. fst x < k) (number_from f k (l # L)) = []" unfolding filter_empty_conv by blast
      then show ?thesis using 0 by (simp only: take_0 number_from.simps(1) add_0_right)
    next
      case (Suc v)
      then show ?thesis using Cons[of "Suc k" v] by (simp split: option.split)
    qed
  qed simp
  from this[of 0 "rev lines"] show ?thesis
    unfolding numbered_def add_0_left rev_drop length_rev by (simp add: rev_drop[symmetric] take_rev)
qed

lemma numbered_entries: "map snd (numbered f lines) = List.map_filter (entry_of f) (rev lines)"
proof -
  have "map snd (number_from f k L) = List.map_filter (entry_of f) L" for k L
    by (induction L arbitrary: k) (simp_all add: map_filter_simps split: option.split)
  then show ?thesis by (simp add: numbered_def)
qed

lemma numbered_increasing: "sorted_wrt (<) (map fst (numbered f lines))"
proof -
  have "sorted_wrt (<) (map fst (number_from f k L))" for k L
    by (induction L arbitrary: k) (auto split: option.split dest: number_from_ge)
  then show ?thesis by (simp add: numbered_def)
qed

lemma numbered_sorted: "sorted (map fst (numbered f lines))" and numbered_distinct: "distinct (map fst (numbered f lines))"
  using numbered_increasing[of f lines] by (simp_all add: strict_sorted_iff)

lemma numbered_length: "length (number_from f k L) \<le> length L"
  by (induction L arbitrary: k) (auto split: option.split intro: le_SucI)

lemma numbered_all:
  assumes "length (numbered f lines) = length lines" "i < length lines"
  shows "fst (numbered f lines ! i) = i"
proof -
  have "length (number_from f k L) = length L \<Longrightarrow> map fst (number_from f k L) = [k..<k + length L]" for k L
  proof (induction L arbitrary: k)
    case (Cons l L)
    then show ?case using numbered_length[of f "Suc k" L] by (cases "entry_of f l") (simp_all add: upt_rec)
  qed simp
  from this[of 0 "rev lines"] have "map fst (numbered f lines) = [0..<length lines]" using assms(1) by (simp add: numbered_def)
  then have "map fst (numbered f lines) ! i = [0..<length lines] ! i" by simp
  then show ?thesis using assms by simp
qed

lemma filter_page:
  fixes w :: nat and N :: "(nat \<times> 'b) list"
  assumes "sorted (map fst N)"
  shows "take n (drop i (filter (\<lambda>x. fst x < w) N)) = filter (\<lambda>x. fst x < w) (take n (drop i N))"
proof -
  obtain A B where N: "N = A @ B" and A: "\<forall>x\<in>set A. fst x < w" and B: "\<forall>x\<in>set B. \<not> fst x < w"
  proof
    show "N = takeWhile (\<lambda>x. fst x < w) N @ dropWhile (\<lambda>x. fst x < w) N" by simp
    show "\<forall>x\<in>set (takeWhile (\<lambda>x. fst x < w) N). fst x < w" by (auto dest: set_takeWhileD)
    show "\<forall>x\<in>set (dropWhile (\<lambda>x. fst x < w) N). \<not> fst x < w" using assms
    proof (induction N)
      case (Cons y N)
      show ?case
      proof (cases "fst y < w")
        case True
        have "sorted (map fst N)" using Cons.prems by simp
        then show ?thesis unfolding dropWhile.simps if_P[OF True] by (rule Cons.IH)
      next
        case False
        have "\<forall>x\<in>set N. fst y \<le> fst x" using Cons.prems by simp
        then have "\<forall>x\<in>set (y # N). \<not> fst x < w" using False by (metis order.strict_trans1 set_ConsD)
        then show ?thesis unfolding dropWhile.simps if_not_P[OF False] .
      qed
    qed simp
  qed
  have all: "filter (\<lambda>x. fst x < w) xs = xs" if "set xs \<subseteq> set A" for xs using that A by (auto simp: filter_id_conv)
  have none: "filter (\<lambda>x. fst x < w) xs = []" if "set xs \<subseteq> set B" for xs using that B by (auto simp: filter_empty_conv)
  have sub: "set (take j (drop k xs)) \<subseteq> set xs" for j k and xs :: "(nat \<times> 'b) list" by (auto dest: in_set_takeD in_set_dropD)
  have "filter (\<lambda>x. fst x < w) N = A" unfolding N filter_append all[OF order_refl] none[OF order_refl] by simp
  moreover have "filter (\<lambda>x. fst x < w) (take n (drop i N)) = take n (drop i A)"
    unfolding N drop_append take_append filter_append all[OF sub] none[OF sub] by simp
  ultimately show ?thesis by simp
qed

text \<open>C38: What a page of the log viewer leaves out.  A page is the right page of all matching entries of the file,
  newest first, without those whose line lies before the last \<open>limit + offset\<close> lines.  So an entry that is followed
  by a page's worth of lines that are no matching entries (a traceback, or any lines when a filter is set) is on
  no page at all; without such lines the pages are complete.\<close>

theorem log_page_window:
  fixes cap offset :: int and f :: log_filter and lines :: "string list"
  assumes "0 \<le> cap" "0 \<le> offset"
  defines "page \<equiv> filter (\<lambda>x. fst x < nat (cap + offset)) (take (nat cap) (drop (nat offset) (numbered f lines)))"
  shows "get_log_entries cap offset f (Some lines) = Ok (map snd page) \<and>
    (\<forall>i<length (numbered f lines). i + nat cap \<le> fst (numbered f lines ! i) \<longrightarrow> numbered f lines ! i \<notin> set page) \<and>
    (length (numbered f lines) = length lines \<longrightarrow> map snd page = take (nat cap) (drop (nat offset) (List.map_filter (entry_of f) (rev lines))))"
proof (intro conjI allI impI)
  let ?w = "nat (cap + offset)" and ?N = "numbered f lines"
  let ?kept = "drop (length lines - ?w) lines"
  have "collect f ?w [] (rev ?kept) = map snd (numbered f ?kept)"
    by (subst collect_all) (simp_all add: numbered_entries)
  also have "\<dots> = map snd (filter (\<lambda>x. fst x < ?w) ?N)" by (simp only: numbered_window)
  finally have c: "collect f ?w [] (rev ?kept) = map snd (filter (\<lambda>x. fst x < ?w) ?N)" .
  have "take (nat cap) (drop (nat offset) (map snd (filter (\<lambda>x. fst x < ?w) ?N))) = map snd page"
    by (simp only: take_map drop_map filter_page[OF numbered_sorted] page_def)
  then show "get_log_entries cap offset f (Some lines) = Ok (map snd page)"
    using assms(1,2) by (simp add: get_log_entries_def Let_def c py_slice_page[OF assms(2,1)])
next
  fix i assume i: "i < length (numbered f lines)" "i + nat cap \<le> fst (numbered f lines ! i)"
  show "numbered f lines ! i \<notin> set page"
  proof
    let ?N = "numbered f lines"
    assume a: "?N ! i \<in> set page"
    then have p: "fst (?N ! i) < nat (cap + offset)" and t: "?N ! i \<in> set (take (nat cap) (drop (nat offset) ?N))"
      by (auto simp: page_def)
    from t obtain j where j: "j < length (take (nat cap) (drop (nat offset) ?N))" "take (nat cap) (drop (nat offset) ?N) ! j = ?N ! i"
      by (auto simp: in_set_conv_nth)
    then have jj: "?N ! (nat offset + j) = ?N ! i" "nat offset + j < length ?N" by (auto simp: add.commute)
    have "nat offset + j = i" using numbered_distinct[of f lines] jj i(1) by (simp add: nth_eq_iff_index_eq distinct_map)
    then show False using p i(2) assms(1,2) by simp
  qed
next
  assume all: "length (numbered f lines) = length lines"
  have "fst x < nat (cap + offset)" if "x \<in> set (take (nat cap) (drop (nat offset) (numbered f lines)))" for x
  proof -
    obtain j where j: "j < length (take (nat cap) (drop (nat offset) (numbered f lines)))"
        "take (nat cap) (drop (nat offset) (numbered f lines)) ! j = x"
      using \<open>x \<in> _\<close> by (auto simp: in_set_conv_nth)
    then have "x = numbered f lines ! (nat offset + j)" "nat offset + j < length lines" "j < nat cap"
      using all by (auto simp: add.commute)
    then show ?thesis using numbered_all[OF all, of "nat offset + j"] assms(1,2) by simp
  qed
  then have "page = take (nat cap) (drop (nat offset) (numbered f lines))" by (simp add: page_def filter_id_conv)
  then show "map snd page = take (nat cap) (drop (nat offset) (List.map_filter (entry_of f) (rev lines)))"
    by (simp only: take_map[symmetric] drop_map[symmetric] numbered_entries)
qed

definition sample_line :: string where "sample_line = ''2026-03-01 09:30:00,125 ERROR app.services Order failed''"

definition every_entry :: log_filter where
  "every_entry = \<lparr>lf_level = None, lf_start = None, lf_end = None, lf_search = None\<rparr>"

lemma sample_numbered:
  "map fst (numbered every_entry [sample_line, ''Traceback'']) = [1]"
  "map (\<lambda>x. (fst x, le_level (snd x), le_name (snd x), le_message (snd x))) (numbered every_entry [sample_line])
     = [(0, ''ERROR'', ''app.services'', ''Order failed'')]"
  by code_simp+

theorem log_page_window_witness:
  "get_log_entries 1 0 every_entry (Some [sample_line, ''Traceback'']) = Ok [] \<and>
   get_log_entries 1 0 every_entry (Some [sample_line]) = Ok (List.map_filter (entry_of every_entry) [sample_line]) \<and>
   length (numbered every_entry [sample_line]) = 1 \<and>
   numbered every_entry [sample_line, ''Traceback''] \<noteq> []"
proof -
  let ?page = "\<lambda>ls. filter (\<lambda>x. fst x < nat (1 + 0)) (take (nat 1) (drop (nat 0) (numbered every_entry ls)))"
  have n: "map fst (numbered every_entry [sample_line, ''Traceback'']) = [1]" by (rule sample_numbered)
  then obtain e where e: "numbered every_entry [sample_line, ''Traceback''] = [(1, e)]" by (auto simp: map_eq_Cons_conv)
  have one: "length (numbered every_entry [sample_line]) = length [sample_line]"
    using arg_cong[OF sample_numbered(2), of length] by simp
  have "get_log_entries 1 0 every_entry (Some [sample_line, ''Traceback'']) = Ok (map snd (?page [sample_line, ''Traceback'']))"
    using log_page_window[of 1 0 "every_entry" "[sample_line, ''Traceback'']"] by simp
  moreover have "?page [sample_line, ''Traceback''] = []" by (simp add: e)
  moreover have "get_log_entries 1 0 every_entry (Some [sample_line]) = Ok (map snd (?page [sample_line])) \<and>
      map snd (?page [sample_line]) = take (nat 1) (drop (nat 0) (List.map_filter (entry_of every_entry) (rev [sample_line])))"
    using log_page_window[OF zero_le_one order_refl, of every_entry "[sample_line]"] one by blast
  moreover have "take (nat 1) (drop (nat 0) (List.map_filter (entry_of every_entry) (rev [sample_line]))) = List.map_filter (entry_of every_entry) [sample_line]"
    using map_filter_length[of "entry_of every_entry" "[sample_line]"] by simp
  ultimately show ?thesis using e one by simp
qed

end
