(* ===== verification/LoginPages.thy ===== *)
theory LoginPages
  imports Auth Cache Alerts
begin

text \<open>The pages around the authentication service (\<open>routes/auth.py\<close>): login, registration, forgotten
  password, reset, the two availability checks and logout, with the session cookie that a browser keeps
  and the user loader behind it.  Requests of a browser come from one address and agent, so that the
  session identifier Flask-Login stores always matches.  Whether the rate limiter lets a request pass is
  an argument.\<close>

section \<open>The browser\<close>

record browser =
  bw_user :: "string option"  \<comment> \<open>\<open>_user_id\<close>\<close>
  bw_token :: "string option"  \<comment> \<open>\<open>session_token\<close>\<close>

definition no_cookie :: browser where "no_cookie = \<lparr>bw_user = None, bw_token = None\<rparr>"

text \<open>What the loader makes of the cookie: the current user, and the cookie without its keys when its session
  was ended.\<close>

definition load_visitor :: "browser \<Rightarrow> user_db \<Rightarrow> account option \<times> browser" where
  "load_visitor bw db = (case bw_user bw of
      None \<Rightarrow> (None, bw)
    | Some i \<Rightarrow> (case load_user i (bw_token bw) db of
        Some u \<Rightarrow> (Some u, bw)
      | None \<Rightarrow> (None, if Option.bind (parse_int i) (\<lambda>n. find_by_id n db) = None then bw else no_cookie)))"

text \<open>A page answers with a redirect or a template and its values, and with the messages it flashes.\<close>

datatype page_answer = Go string | Page nat string "(string \<times> string) list"

type_synonym login_answer = "page_answer \<times> (string \<times> string) list"
type_synonym posted = "(string \<times> string) list option"  \<comment> \<open>the form of a POST; None for a GET\<close>

definition role_home :: "string \<Rightarrow> string" where "role_home rl = ''ui.dashboard''"

definition raw_field :: "(string \<times> string) list \<Rightarrow> string \<Rightarrow> string" where
  "raw_field form k = (case map_of form k of Some v \<Rightarrow> v | None \<Rightarrow> [])"

text \<open>An \<open>AuthError\<close> is shown on the page of the form; any other error leaves the view.\<close>

definition refused_page :: "pyexc \<Rightarrow> (string \<Rightarrow> login_answer) \<Rightarrow> login_answer outcome" where
  "refused_page e page = (case e of AuthError m \<Rightarrow> Returned (page m) | _ \<Rightarrow> Raised e)"

lemma refused_page_stays [simp]: "refused_page e (\<lambda>m. (Page n tpl (v m), f m)) \<noteq> Returned (Go p, fs)"
  by (simp add: refused_page_def split: pyexc.split)

section \<open>The pages\<close>

text \<open>\<open>stored\<close> reads the settings of a user; any error there is ignored.\<close>

definition warm_caches :: "(int \<Rightarrow> 'v result) \<Rightarrow> real \<Rightarrow> int \<Rightarrow> 'v ttl_cache \<Rightarrow> 'v ttl_cache" where
  "warm_caches stored t uid c = (case stored uid of
      Inl e \<Rightarrow> c
    | Inr v \<Rightarrow> cache_drop ''reorder_count'' (cache_put t (''settings:'' @ int_str uid) v c))"

text \<open>\<open>rq\<close> brings the clock, the address, the agent and the fresh token of the request.\<close>

definition login_view ::
  "(string \<Rightarrow> string \<Rightarrow> bool) \<Rightarrow> (int \<Rightarrow> 'v result) \<Rightarrow> real \<Rightarrow> bool \<Rightarrow> login_request \<Rightarrow> posted \<Rightarrow>
   browser \<Rightarrow> auth_state \<Rightarrow> 'v ttl_cache \<Rightarrow> login_answer outcome \<times> browser \<times> auth_state \<times> 'v ttl_cache" where
  "login_view chk stored t allowed rq post bw st c =
     (if \<not> allowed then (Aborted 429, bw, st, c)
      else (case load_visitor bw (auth_state.store st) of
        (Some u, bw) \<Rightarrow> (Returned (Go (role_home (ac_role u)), []), bw, st, c)
      | (None, bw) \<Rightarrow> (case post of
          None \<Rightarrow> (Returned (Page 200 ''auth/login.html'' [], []), bw, st, c)
        | Some form \<Rightarrow>
            (let name = fget form ''username'' [];
                 user = find_by_username name (auth_state.store st)
             in (case authenticate chk (rq\<lparr>lg_username := name, lg_password := raw_field form ''password''\<rparr>) st of
                (Inl e, st1) \<Rightarrow>
                  (refused_page e (\<lambda>m. (Page 401 ''auth/login.html'' [(''username'', name)], [(''error'', m)])), bw, st1, c)
              | (Inr token, st1) \<Rightarrow>
                  (Returned (Go (role_home (case user of Some u \<Rightarrow> ac_role u | None \<Rightarrow> [])),
                     [(''success'', ''Welcome back, '' @ (case user of Some u \<Rightarrow> ac_username u | None \<Rightarrow> []) @ ''!'')]),
                   \<lparr>bw_user = map_option (\<lambda>u. int_str (ac_id u)) user,
                     bw_token = (if token \<noteq> [] then Some token else bw_token bw)\<rparr>,
                   st1, case user of Some u \<Rightarrow> warm_caches stored t (ac_id u) c | None \<Rightarrow> c))))))"

definition register_view ::
  "(string \<Rightarrow> string) \<Rightarrow> bool \<Rightarrow> posted \<Rightarrow> browser \<Rightarrow> user_db \<Rightarrow> login_answer outcome \<times> browser \<times> user_db" where
  "register_view gen allowed post bw db =
     (if \<not> allowed then (Aborted 429, bw, db)
      else (case load_visitor bw db of
        (Some u, bw) \<Rightarrow> (Returned (Go ''ui.dashboard'', []), bw, db)
      | (None, bw) \<Rightarrow> (case post of
          None \<Rightarrow> (Returned (Page 200 ''auth/register.html'' [], []), bw, db)
        | Some form \<Rightarrow>
            (let un = raw_field form ''username''; em = raw_field form ''email''; pw = raw_field form ''password''
             in (case register gen un em pw db of
                (Inl e, db1) \<Rightarrow> (refused_page e (\<lambda>m. (Page 400 ''auth/register.html''
                    [(''username'', un), (''email'', em), (''password'', pw)], [(''error'', m)])), bw, db1)
              | (Inr uid, db1) \<Rightarrow> (Returned (Go ''auth.login'',
                  [(''success'', ''Account created '' @ em_dash @ '' you are signed up as a Viewer. Please log in.'')]), bw, db1))))))"

text \<open>\<open>reveal\<close>: debug mode with \<open>SHOW_RESET_LINK_IN_UI\<close> set.\<close>

definition forgot_view ::
  "(string \<Rightarrow> string) \<Rightarrow> (string \<Rightarrow> string \<Rightarrow> string \<Rightarrow> bool) \<Rightarrow> int \<Rightarrow> int \<Rightarrow> string \<Rightarrow> string \<Rightarrow> bool \<Rightarrow> bool \<Rightarrow>
   posted \<Rightarrow> browser \<Rightarrow> user_db \<Rightarrow> login_answer outcome \<times> browser \<times> user_db" where
  "forgot_view sha send lifetime now token host allowed reveal post bw db =
     (if \<not> allowed then (Aborted 429, bw, db)
      else (case load_visitor bw db of
        (Some u, bw) \<Rightarrow> (Returned (Go (role_home (ac_role u)), []), bw, db)
      | (None, bw) \<Rightarrow> (case post of
          None \<Rightarrow> (Returned (Page 200 ''auth/forgot_password.html'' [(''email'', []), (''reset_link'', [])], []), bw, db)
        | Some form \<Rightarrow>
            (let em = fget form ''email'' []
             in (case request_password_reset sha send lifetime now token em host db of
                (Inl e, db1) \<Rightarrow>
                  (refused_page e (\<lambda>m. (Page 400 ''auth/forgot_password.html'' [(''email'', em)], [(''error'', m)])), bw, db1)
              | (Inr r, db1) \<Rightarrow> (Returned (Page 200 ''auth/forgot_password.html''
                    [(''email'', []), (''reset_link'', if reveal then ra_link r else [])],
                  [(''info'', ''If an account exists for that email, a reset link has been sent.'')]), bw, db1))))))"

definition token_state :: "int \<Rightarrow> string \<Rightarrow> user_db \<Rightarrow> string" where
  "token_state now h db = (case find_valid_reset_token now h db of
      None \<Rightarrow> ''invalid''
    | Some row \<Rightarrow> if rt_used row then ''invalid'' else if rt_expires row \<le> now then ''expired'' else ''ok'')"

definition reset_view ::
  "(string \<Rightarrow> string) \<Rightarrow> (string \<Rightarrow> string) \<Rightarrow> int \<Rightarrow> string \<Rightarrow> posted \<Rightarrow> browser \<Rightarrow> user_db \<Rightarrow>
   login_answer outcome \<times> browser \<times> user_db" where
  "reset_view sha gen now token post bw db =
     (case load_visitor bw db of
        (Some u, bw) \<Rightarrow> (Returned (Go (role_home (ac_role u)), []), bw, db)
      | (None, bw) \<Rightarrow>
          (let state = token_state now (sha token) db; form_page = ''auth/reset_password.html''
           in (case post of
              Some form \<Rightarrow>
                if state \<noteq> ''ok'' then (Returned (Go ''auth.forgot_password'',
                  [(''error'', ''This reset link is invalid or has expired. Please request a new one.'')]), bw, db)
                else if raw_field form ''password'' \<noteq> raw_field form ''confirm''
                then (Returned (Page 400 form_page [(''token'', token)], [(''error'', ''Passwords do not match.'')]), bw, db)
                else (case reset_password sha gen now token (raw_field form ''password'') db of
                    (Inl e, db1) \<Rightarrow> (refused_page e (\<lambda>m. (Page 400 form_page [(''token'', token)], [(''error'', m)])), bw, db1)
                  | (Inr _, db1) \<Rightarrow> (Returned (Go ''auth.login'', [(''success'', ''Password updated '' @ em_dash @ '' please log in.'')]), bw, db1))
            | None \<Rightarrow>
                if state = ''expired'' then (Returned (Go ''auth.forgot_password'',
                  [(''error'', ''This reset link has expired (5-minute limit). Please request a new one.'')]), bw, db)
                else if state = ''invalid'' then (Returned (Go ''auth.forgot_password'',
                  [(''error'', ''This reset link is invalid or has already been used.'')]), bw, db)
                else (Returned (Page 200 form_page [(''token'', token)], []), bw, db))))"

text \<open>The answers of the checks: whether the text is available, and the reason when it was not looked up.\<close>

definition check_username_view :: "bool \<Rightarrow> string option \<Rightarrow> user_db \<Rightarrow> (bool \<times> string option) outcome" where
  "check_username_view allowed arg db =
     (if \<not> allowed then Aborted 429
      else (let name = strip (case arg of Some s \<Rightarrow> s | None \<Rightarrow> [])
        in if length name < 3 then Returned (False, Some ''too_short'')
           else Returned (find_by_username (lower name) db = None, None)))"

definition check_email_view :: "bool \<Rightarrow> string option \<Rightarrow> user_db \<Rightarrow> (bool \<times> string option) outcome" where
  "check_email_view allowed arg db =
     (if \<not> allowed then Aborted 429
      else (let em = strip (case arg of Some s \<Rightarrow> s | None \<Rightarrow> [])
        in if CHR ''@'' \<notin> set em then Returned (False, Some ''invalid'')
           else Returned (find_by_email (lower em) db = None, None)))"

text \<open>A visitor who is not logged in is sent to the login page.\<close>

definition logout_view :: "browser \<Rightarrow> user_db \<Rightarrow> login_answer outcome \<times> browser \<times> user_db" where
  "logout_view bw db = (case load_visitor bw db of
      (None, bw) \<Rightarrow> (Returned (Go ''auth.login'', []), bw, db)
    | (Some u, bw) \<Rightarrow> (Returned (Go ''ui.dashboard'', [(''info'', ''You have been logged out.'')]), no_cookie,
        case bw_token bw of Some t \<Rightarrow> if t \<noteq> [] then end_session t db else db | None \<Rightarrow> db))"

section \<open>Sessions\<close>

lemma find_by_username_Some:
  assumes "find_by_username n db = Some u"
  shows "u \<in> set (accounts db)" "ac_username u = lower n" "\<not> ac_deleted u"
  using find_row_Some[OF assms[unfolded find_by_username_def]] by auto

lemma find_by_id_of:
  assumes "u \<in> set (accounts db)" "\<not> ac_deleted u" "distinct (map ac_id (accounts db))"
  shows "find_by_id (ac_id u) db = Some u"
proof -
  have "find_row (\<lambda>r. ac_id r = ac_id u \<and> \<not> ac_deleted r) rows = Some u"
    if "u \<in> set rows" "distinct (map ac_id rows)" for rows
    using that assms(2) by (induction rows) (auto simp: rev_image_eqI)
  then show ?thesis using assms by (simp add: find_by_id_def)
qed

lemma gate_store: "process_gate now uid st = (g, st1) \<Longrightarrow> auth_state.store st1 = auth_state.store st"
  by (auto simp: process_gate_def split: list.splits if_splits)

definition logged_in :: "int \<Rightarrow> login_request \<Rightarrow> user_db \<Rightarrow> user_db" where
  "logged_in uid rq db = snd (create_session (lg_token rq) uid (lg_ip rq) (lg_agent rq)
     (user_audit_record (Some uid) ''user.login'' (Some uid) (record_login (lg_now rq) uid db)))"

lemma login_success_ok:
  "login_success uid key rq st = (r, st1) \<Longrightarrow> auth_state.store st1 = logged_in uid rq (auth_state.store st) \<and>
     r = fst (create_session (lg_token rq) uid (lg_ip rq) (lg_agent rq) (auth_state.store st))"
  by (auto simp: login_success_def logged_in_def Let_def create_session_def user_audit_record_def record_login_def
      set_account_def split: prod.splits if_splits)

lemma authenticate_ok:
  assumes "authenticate chk rq st = (Inr token, st1)"
  shows "\<exists>u h. find_by_username (lg_username rq) (auth_state.store st) = Some u \<and> ac_active u \<and> ac_password u = Some h \<and>
     chk h (lg_password rq) \<and> auth_state.store st1 = logged_in (ac_id u) rq (auth_state.store st) \<and>
     fst (create_session (lg_token rq) (ac_id u) (lg_ip rq) (lg_agent rq) (auth_state.store st)) = Inr token"
proof -
  obtain u where u: "find_by_username (lg_username rq) (auth_state.store st) = Some u"
    using assms by (cases "find_by_username (lg_username rq) (auth_state.store st)") (auto simp: authenticate_def)
  obtain h where h: "ac_active u" "ac_password u = Some h" "h \<noteq> []"
    using assms u by (cases "ac_password u") (auto simp: authenticate_def split: if_splits)
  obtain g s where g: "process_gate (lg_now rq) (ac_id u) st = (g, s)" by fastforce
  have "g = None" using assms u h g by (cases g) (auto simp: authenticate_def lockout_error_def Let_def)
  have "check_rate_limit (lg_now rq) (get_rate_limit_key (lg_username rq)) s = None" (is "?l = None")
    using assms u h g \<open>g = None\<close> by (cases ?l) (auto simp: authenticate_def lockout_error_def Let_def)
  then have e: "authenticate chk rq st = (if chk h (lg_password rq)
      then login_success (ac_id u) (get_rate_limit_key (lg_username rq)) rq s
      else login_failure (ac_id u) (get_rate_limit_key (lg_username rq)) (lg_now rq) s)"
    using u h g \<open>g = None\<close> by (simp add: authenticate_def Let_def)
  then have c: "chk h (lg_password rq)" using assms by (auto simp: login_failure_def Let_def split: if_splits)
  from login_success_ok[of "ac_id u" "get_rate_limit_key (lg_username rq)" rq s "Inr token" st1] e c assms gate_store[OF g]
  show ?thesis using u h by auto
qed

lemma logged_in_rows:
  assumes "fst (create_session (lg_token rq) uid (lg_ip rq) (lg_agent rq) db) = Inr token"
  shows "token = lg_token rq" "\<forall>s\<in>set (sessions db). ss_token s \<noteq> token"
    "sessions (logged_in uid rq db) = sessions db @
      [\<lparr>ss_user = uid, ss_token = token, ss_ip = lg_ip rq, ss_agent = lg_agent rq, ss_active = True\<rparr>]"
    "accounts (logged_in uid rq db) = update_where (\<lambda>r. ac_id r = uid) (\<lambda>r. r\<lparr>ac_last_login := Some (lg_now rq)\<rparr>) (accounts db)"
  using assms by (auto simp: create_session_def logged_in_def user_audit_record_def record_login_def set_account_def split: if_splits)

lemma find_by_id_logged_in:
  assumes "find_by_id uid db = Some u" "fst (create_session (lg_token rq) uid (lg_ip rq) (lg_agent rq) db) = Inr token"
  shows "find_by_id uid (logged_in uid rq db) = Some (u\<lparr>ac_last_login := Some (lg_now rq)\<rparr>)"
proof -
  have "find_row (\<lambda>r. ac_id r = uid \<and> \<not> ac_deleted r) (update_where (\<lambda>r. ac_id r = uid) f rows)
      = map_option f (find_row (\<lambda>r. ac_id r = uid \<and> \<not> ac_deleted r) rows)"
    if "\<And>r. ac_id (f r) = ac_id r" "\<And>r. ac_deleted (f r) = ac_deleted r" for f rows
    unfolding update_where_def by (induction rows) (auto simp: that)
  note upd = this[of "\<lambda>r. r\<lparr>ac_last_login := Some (lg_now rq)\<rparr>" "accounts db"]
  show ?thesis using assms(1) upd by (simp add: find_by_id_def logged_in_rows(4)[OF assms(2)])
qed

lemma ended_session:
  "is_session_active v s (end_session t db) = (s \<noteq> t \<and> is_session_active v s db)"
  unfolding is_session_active_def end_session_def by (simp add: list_ex_update_where) (auto simp: list_ex_iff)

lemma anonymous_login:
  fixes st st' :: auth_state and chk :: "string \<Rightarrow> string \<Rightarrow> bool"
  defines "db \<equiv> auth_state.store st" and "db' \<equiv> auth_state.store st'"
  assumes "login_view chk stored t True rq (Some form) bw st c = (Returned (Go p, fs), bw', st', c')"
    and "fst (load_visitor bw db) = None" and "lg_token rq \<noteq> []" and "distinct (map ac_id (accounts db))"
  shows "\<exists>u h. find_by_username (fget form ''username'' []) db = Some u \<and> ac_active u \<and>
      ac_password u = Some h \<and> chk h (raw_field form ''password'') \<and>
      fst (load_visitor bw' db') = Some (u\<lparr>ac_last_login := Some (lg_now rq)\<rparr>) \<and>
      snd (logout_view bw' db') = (no_cookie, end_session (lg_token rq) db') \<and>
      fst (load_visitor no_cookie (end_session (lg_token rq) db')) = None \<and>
      fst (load_visitor bw' (end_session (lg_token rq) db')) = None \<and>
      (\<forall>v s. is_session_active v s (end_session (lg_token rq) db') = is_session_active v s db)"
proof -
  define rq' where "rq' = rq\<lparr>lg_username := fget form ''username'' [], lg_password := raw_field form ''password''\<rparr>"
  obtain bw0 where anon: "load_visitor bw db = (None, bw0)" using assms(4) by (cases "load_visitor bw db") auto
  obtain r st1 where a: "authenticate chk rq' st = (r, st1)" by fastforce
  obtain token where r: "r = Inr token"
    using assms(3) anon a unfolding login_view_def rq'_def db_def
    by (cases r) (auto simp: Let_def)
  obtain u h where u: "find_by_username (fget form ''username'' []) db = Some u" "ac_active u" "ac_password u = Some h"
      "chk h (raw_field form ''password'')" "auth_state.store st1 = logged_in (ac_id u) rq' db"
      "fst (create_session (lg_token rq') (ac_id u) (lg_ip rq') (lg_agent rq') db) = Inr token"
    using authenticate_ok[OF a[unfolded r]] by (auto simp: rq'_def db_def)
  note rows = logged_in_rows[OF u(6)]
  have tok: "token = lg_token rq" "token \<noteq> []" using rows(1) assms(5) by (simp_all add: rq'_def)
  have v: "bw' = \<lparr>bw_user = Some (int_str (ac_id u)), bw_token = Some token\<rparr>" "st' = st1"
    using assms(3) anon a u(1) tok(2) unfolding login_view_def rq'_def db_def r by (auto simp: Let_def)
  have f: "find_by_id (ac_id u) db' = Some (u\<lparr>ac_last_login := Some (lg_now rq)\<rparr>)"
    using find_by_id_logged_in[OF find_by_id_of[OF find_by_username_Some(1,3)[OF u(1)] assms(6)] u(6)] u(5) v(2)
    by (simp add: db'_def rq'_def)
  have s: "is_session_active w x db' = (is_session_active w x db \<or> (w = ac_id u \<and> x = token))" for w x
    using rows(3) u(5) v(2) by (auto simp: is_session_active_def db'_def)
  have fresh: "\<not> is_session_active w token db" for w using rows(2) by (auto simp: is_session_active_def list_ex_iff)
  have l: "load_visitor bw' db' = (Some (u\<lparr>ac_last_login := Some (lg_now rq)\<rparr>), bw')"
    using f s by (simp add: load_visitor_def load_user_def v parse_int_int_str)
  have e: "find_by_id (ac_id u) (end_session token db') = Some (u\<lparr>ac_last_login := Some (lg_now rq)\<rparr>)"
    using f by (simp add: find_by_id_def end_session_def)
  have gone: "fst (load_visitor bw' (end_session token db')) = None"
    using e tok(2) by (simp add: load_visitor_def load_user_def v parse_int_int_str ended_session)
  have "snd (logout_view bw' db') = (no_cookie, end_session token db')"
    using tok(2) by (simp add: logout_view_def l) (simp add: v)
  moreover have "is_session_active w x (end_session token db') = is_session_active w x db" for w x
    using fresh s by (auto simp: ended_session)
  ultimately show ?thesis using u l gone tok(1) by (auto simp: load_visitor_def no_cookie_def)
qed

text \<open>C39: A login lasts until the logout, and no longer, when account ids differ and the fresh token is not empty.  Suppose the form of the login page is answered with a
  redirect.  When the browser was already logged in, no password was looked at and nothing changed: the answer
  is the same whatever the check of passwords says.  Otherwise the password was that of the active account of
  this name, and the cookie set by the answer loads this account; after the logout neither the browser nor a
  copy of its cookie loads anybody, and every other session is what it was before the login.\<close>

theorem session_round_trip:
  fixes st st' :: auth_state and chk :: "string \<Rightarrow> string \<Rightarrow> bool"
  defines "db \<equiv> auth_state.store st" and "db' \<equiv> auth_state.store st'"
  assumes "login_view chk stored t True rq (Some form) bw st c = (Returned (Go p, fs), bw', st', c')"
    and "lg_token rq \<noteq> []" and "distinct (map ac_id (accounts db))"
  shows "(fst (load_visitor bw db) \<noteq> None \<longrightarrow> bw' = bw \<and> st' = st \<and> c' = c \<and>
      (\<forall>chk2. login_view chk2 stored t True rq (Some form) bw st c = (Returned (Go p, fs), bw, st, c))) \<and>
    (fst (load_visitor bw db) = None \<longrightarrow>
      (\<exists>u h. find_by_username (fget form ''username'' []) db = Some u \<and> ac_active u \<and>
        ac_password u = Some h \<and> chk h (raw_field form ''password'') \<and>
        fst (load_visitor bw' db') = Some (u\<lparr>ac_last_login := Some (lg_now rq)\<rparr>) \<and>
        snd (logout_view bw' db') = (no_cookie, end_session (lg_token rq) db') \<and>
        fst (load_visitor no_cookie (end_session (lg_token rq) db')) = None \<and>
        fst (load_visitor bw' (end_session (lg_token rq) db')) = None \<and>
        (\<forall>v s. is_session_active v s (end_session (lg_token rq) db') = is_session_active v s db)))"
proof (cases "fst (load_visitor bw db)")
  case None
  show ?thesis using anonymous_login[OF assms(3) None[unfolded db_def] assms(4) assms(5)[unfolded db_def]] None
    unfolding db_def db'_def by blast
next
  case (Some u)
  then have l: "load_visitor bw (auth_state.store st) = (Some u, bw)"
    by (auto simp: db_def load_visitor_def split: option.splits)
  have "login_view chk2 stored t True rq (Some form) bw st c = (Returned (Go (role_home (ac_role u)), []), bw, st, c)" for chk2
    by (simp add: login_view_def l)
  then show ?thesis using assms(3) Some by simp
qed

definition ann_form :: "(string \<times> string) list" where "ann_form = [(''username'', '' Ann ''), (''password'', ''pw'')]"

theorem session_round_trip_witness:
  "(\<exists>c' fs p bw' st'. login_view demo_chk (\<lambda>_. Inr (1 :: nat)) 0 True (demo_login 7 ''x'') (Some ann_form) no_cookie demo_auth (new_cache 600 20)
       = (Returned (Go p, fs), bw', st', c') \<and>
     fst (load_visitor bw' (auth_state.store st')) \<noteq> None \<and>
     fst (load_visitor bw' (end_session ''s2'' (auth_state.store st'))) = None)"
proof -
  obtain a bw' st' c' where r: "login_view demo_chk (\<lambda>_. Inr (1 :: nat)) 0 True (demo_login 7 ''x'') (Some ann_form) no_cookie demo_auth
      (new_cache 600 20) = (a, bw', st', c')" by (metis prod.exhaust)
  have "\<exists>fs. fst (login_view demo_chk (\<lambda>_. Inr (1 :: nat)) 0 True (demo_login 7 ''x'') (Some ann_form) no_cookie demo_auth
      (new_cache 600 20)) = Returned (Go ''ui.dashboard'', fs)"
    by (rule exI[of _ "[(''success'', ''Welcome back, ann!'')]"]) code_simp
  then obtain fs where a: "a = Returned (Go ''ui.dashboard'', fs)" using r by auto
  have anon: "fst (load_visitor no_cookie (auth_state.store demo_auth)) = None" by (simp add: load_visitor_def no_cookie_def)
  have tok: "lg_token (demo_login 7 ''x'') = ''s2''" by (simp add: demo_login_def)
  have d: "distinct (map ac_id (accounts (auth_state.store demo_auth)))" by (simp add: demo_auth_def demo_users_def)
  from session_round_trip[OF r[unfolded a] _ d] anon tok r a show ?thesis by auto
qed

section \<open>Signing up\<close>

lemma strip_nothing: "strip [] = []" by code_simp

lemma username_ok_nonempty: "username_ok (strip s) \<Longrightarrow> s \<noteq> [] \<and> 3 \<le> length (strip s) \<and> length (strip s) \<le> 60"
  using strip_nothing by (cases s) (simp_all add: username_ok_def)

lemma email_ok_nonempty: "email_ok (strip s) \<Longrightarrow> s \<noteq> [] \<and> CHR ''@'' \<in> set (strip s)"
proof -
  have at: "snd (split_at_first P s) \<noteq> None \<Longrightarrow> \<exists>c\<in>set s. P c" for P and s :: string
    by (induction s) (auto split: if_splits prod.splits)
  assume e: "email_ok (strip s)"
  then have "snd (split_at_first (\<lambda>c. c = CHR ''@'') (strip s)) \<noteq> None" by (auto simp: email_ok_def split: prod.splits option.splits)
  from at[OF this] have "CHR ''@'' \<in> set (strip s)" by blast
  then show ?thesis using strip_nothing by (cases s) simp_all
qed

text \<open>What the signing up needs of the tables: nobody, not even a deleted account, has the name or the address.\<close>

definition vacant :: "string \<Rightarrow> string \<Rightarrow> user_db \<Rightarrow> bool" where
  "vacant un em db = (\<forall>r\<in>set (accounts db). ac_username r \<noteq> lower un \<and> ac_email r \<noteq> lower em)"

lemma register_vacant:
  assumes "username_ok (strip un)" "email_ok (strip em)" "length (strip em) \<le> 150" "validate_password_strength pw = Ok pw'"
    "vacant (strip un) (strip em) db"
  shows "register gen un em pw db = (Ok (next_account db), user_audit_record (Some (next_account db)) ''user.register'' (Some (next_account db))
      (db\<lparr>next_account := next_account db + 1, accounts := accounts db @ [\<lparr>ac_id = next_account db,
        ac_username = lower (strip un), ac_email = lower (strip em), ac_password = Some (gen pw'), ac_role = ''viewer'',
        ac_active = True, ac_deleted = False, ac_full_name = None, ac_department = None, ac_job_role = None,
        ac_manager = None, ac_last_login = None\<rparr>]\<rparr>))"
proof -
  have n: "find_by_username (lower (strip un)) db = None" "find_by_email (lower (strip em)) db = None"
    using assms(5) by (auto simp: find_by_username_def find_by_email_def find_row_None vacant_def)
  have "user_create gen (lower (strip un)) (lower (strip em)) pw' ''viewer'' db =
      (Ok (next_account db), db\<lparr>next_account := next_account db + 1, accounts := accounts db @ [\<lparr>ac_id = next_account db,
        ac_username = lower (strip un), ac_email = lower (strip em), ac_password = Some (gen pw'), ac_role = ''viewer'',
        ac_active = True, ac_deleted = False, ac_full_name = None, ac_department = None, ac_job_role = None,
        ac_manager = None, ac_last_login = None\<rparr>]\<rparr>)"
    using assms(3,5) username_ok_nonempty[OF assms(1)] unfolding user_create_def vacant_def by auto
  then show ?thesis
    using assms(1,2,4) n username_ok_nonempty[OF assms(1)] email_ok_nonempty[OF assms(2)]
    by (simp add: register_def auth_err_def validate_username_def validate_email_def)
qed

lemma authenticate_accepts:
  assumes "find_by_username (lg_username rq) (auth_state.store st) = Some u" "ac_active u" "ac_password u = Some h" "h \<noteq> []"
    "entries_of (ac_id u) st = []" "check_rate_limit (lg_now rq) (get_rate_limit_key (lg_username rq)) st = None"
    "chk h (lg_password rq)"
  shows "authenticate chk rq st = login_success (ac_id u) (get_rate_limit_key (lg_username rq)) rq st"
  using assms by (simp add: authenticate_def process_gate_def Let_def)

lemma find_new_account:
  assumes "vacant un em db" "ac_username a = lower un" "ac_email a = lower em" "\<not> ac_deleted a" "accounts db' = accounts db @ [a]"
  shows "find_by_username un db' = Some a" "find_by_email em db' = Some a"
proof -
  have "find_row (\<lambda>r. ac_username r = lower un \<and> \<not> ac_deleted r) (accounts db) = None"
    "find_row (\<lambda>r. ac_email r = lower em \<and> \<not> ac_deleted r) (accounts db) = None"
    using assms(1) by (auto simp: find_row_None vacant_def)
  then show "find_by_username un db' = Some a" "find_by_email em db' = Some a"
    using assms(2-5) by (simp_all add: find_by_username_def find_by_email_def find_row_append)
qed

text \<open>C40: Signing up works end to end.  A visitor whose name, address and password have the right form, and whose name and
  address nobody has, not even a deleted account, is told that both are available; the form makes a viewer's account
  and sends him to the login page; then both are taken; and the login page accepts the password, provided no
  failed attempts are counted for the name or the new number, the address fits its column and the token is new.\<close>

theorem signup_works:
  assumes form: "raw_field form ''username'' = un" "raw_field form ''email'' = em" "raw_field form ''password'' = pw"
    and ok: "username_ok (strip un)" "email_ok (strip em)" "length (strip em) \<le> 150" "validate_password_strength pw = Ok pw"
    and new: "vacant (strip un) (strip em) db" and anon: "fst (load_visitor bw db) = None"
    and hash: "gen pw \<noteq> []" "chk (gen pw) pw"
  shows "check_username_view True (Some un) db = Returned (True, None) \<and> check_email_view True (Some em) db = Returned (True, None) \<and>
    (\<exists>fs db1. register_view gen True (Some form) bw db = (Returned (Go ''auth.login'', fs), snd (load_visitor bw db), db1) \<and>
      check_username_view True (Some un) db1 = Returned (False, None) \<and> check_email_view True (Some em) db1 = Returned (False, None) \<and>
      map_option ac_role (find_by_username (strip un) db1) = Some ''viewer'' \<and>
      (\<forall>st t c stored rq. auth_state.store st = db1 \<longrightarrow> entries_of (next_account db) st = [] \<longrightarrow>
        check_rate_limit (lg_now rq) (get_rate_limit_key (strip un)) st = None \<longrightarrow> fits 45 (lg_ip rq) \<longrightarrow>
        (\<forall>s\<in>set (sessions db). ss_token s \<noteq> lg_token rq) \<longrightarrow>
        (\<exists>fs. fst (login_view chk stored t True rq (Some form) no_cookie st (c :: 'v ttl_cache)) = Returned (Go ''ui.dashboard'', fs))))"
proof -
  let ?a = "\<lparr>ac_id = next_account db, ac_username = lower (strip un), ac_email = lower (strip em), ac_password = Some (gen pw),
      ac_role = ''viewer'', ac_active = True, ac_deleted = False, ac_full_name = None, ac_department = None, ac_job_role = None,
      ac_manager = None, ac_last_login = None\<rparr>"
  define db1 where "db1 = user_audit_record (Some (next_account db)) ''user.register'' (Some (next_account db))
      (db\<lparr>next_account := next_account db + 1, accounts := accounts db @ [?a]\<rparr>)"
  have rows: "accounts db1 = accounts db @ [?a]" "sessions db1 = sessions db" by (simp_all add: db1_def user_audit_record_def)
  have reg: "register gen un em pw db = (Ok (next_account db), db1)" unfolding db1_def by (rule register_vacant[OF ok new])
  have f: "find_by_username (strip un) db1 = Some ?a" "find_by_email (strip em) db1 = Some ?a"
    by (rule find_new_account[OF new _ _ _ rows(1)]; simp)+
  have n: "find_by_username (strip un) db = None" "find_by_email (strip em) db = None"
    using new by (auto simp: find_by_username_def find_by_email_def find_row_None vacant_def)
  have low: "find_by_username (lower x) d = find_by_username x d" "find_by_email (lower x) d = find_by_email x d" for x d
    by (simp_all add: find_by_username_def find_by_email_def)
  obtain bw0 where b: "load_visitor bw db = (None, bw0)" using anon by (cases "load_visitor bw db") auto
  have checks: "check_username_view True (Some un) d = Returned (find_by_username (strip un) d = None, None)"
    "check_email_view True (Some em) d = Returned (find_by_email (strip em) d = None, None)" for d
    using username_ok_nonempty[OF ok(1)] email_ok_nonempty[OF ok(2)] by (simp_all add: check_username_view_def check_email_view_def low)
  have view: "\<exists>fs. register_view gen True (Some form) bw db = (Returned (Go ''auth.login'', fs), bw0, db1)"
    using form reg b by (simp add: register_view_def)
  have log: "\<exists>fs. fst (login_view chk stored t True rq (Some form) no_cookie st c) = Returned (Go ''ui.dashboard'', fs)"
    if l: "auth_state.store st = db1" "entries_of (next_account db) st = []"
      "check_rate_limit (lg_now rq) (get_rate_limit_key (strip un)) st = None" "fits 45 (lg_ip rq)"
      "\<forall>s\<in>set (sessions db). ss_token s \<noteq> lg_token rq" for st t and c :: "'v ttl_cache" and stored rq
  proof -
    let ?rq = "rq\<lparr>lg_username := strip un, lg_password := pw\<rparr>"
    have name: "fget form ''username'' [] = strip un" using form(1) by (simp add: fget_def raw_field_def)
    have au: "authenticate chk ?rq st = login_success (next_account db) (get_rate_limit_key (strip un)) ?rq st"
      using authenticate_accepts[of ?rq st ?a "gen pw" chk] f l hash by (simp add: check_rate_limit_def)
    obtain r st1 where s: "login_success (next_account db) (get_rate_limit_key (strip un)) ?rq st = (r, st1)" by fastforce
    have "r = Inr (lg_token rq)" using login_success_ok[OF s] l rows(2) by (simp add: create_session_def)
    then show ?thesis using au s f l name form(3) by (simp add: login_view_def load_visitor_def no_cookie_def role_home_def)
  qed
  from view obtain fs where "register_view gen True (Some form) bw db = (Returned (Go ''auth.login'', fs), snd (load_visitor bw db), db1)"
    using b by auto
  moreover have "map_option ac_role (find_by_username (strip un) db1) = Some ''viewer''" using f by simp
  moreover have "check_username_view True (Some un) db = Returned (True, None)" "check_email_view True (Some em) db = Returned (True, None)"
    "check_username_view True (Some un) db1 = Returned (False, None)" "check_email_view True (Some em) db1 = Returned (False, None)"
    using checks n f by simp_all
  ultimately show ?thesis using log by blast
qed

theorem signup_works_witness:
  "\<exists>fs db1 db. accounts db \<noteq> [] \<and>
     register_view (\<lambda>p. ''h:'' @ p) True (Some [(''username'', ''Bob''), (''email'', ''b@c.de''), (''password'', ''secret12'')]) no_cookie db
       = (Returned (Go ''auth.login'', fs), no_cookie, db1) \<and>
     check_username_view True (Some ''Bob'') db1 = Returned (False, None)"
proof -
  let ?form = "[(''username'', ''Bob''), (''email'', ''b@c.de''), (''password'', ''secret12'')]"
  have ok: "username_ok (strip ''Bob'')" "email_ok (strip ''b@c.de'')" "length (strip ''b@c.de'') \<le> 150"
    "validate_password_strength ''secret12'' = Ok ''secret12''" by code_simp+
  have fields: "raw_field ?form ''username'' = ''Bob''" "raw_field ?form ''email'' = ''b@c.de''" "raw_field ?form ''password'' = ''secret12''"
    by (simp_all add: raw_field_def)
  have new: "vacant (strip ''Bob'') (strip ''b@c.de'') demo_users" by code_simp
  have v: "load_visitor no_cookie demo_users = (None, no_cookie)" by (simp add: load_visitor_def no_cookie_def)
  have "accounts demo_users \<noteq> []" by (simp add: demo_users_def)
  with signup_works[OF fields ok new, of no_cookie "\<lambda>p. ''h:'' @ p" demo_chk] v show ?thesis
    by (auto simp: demo_chk_def)
qed

text \<open>The checks ask for living accounts, the tables for all: the name of a deleted account is called available, and the
  form that uses it is refused for the address, although nobody has the address.\<close>

theorem deleted_name_refused:
  assumes "raw_field form ''username'' = un" "raw_field form ''email'' = em" "raw_field form ''password'' = pw"
    and "username_ok (strip un)" "email_ok (strip em)" "length (strip em) \<le> 150" "validate_password_strength pw = Ok pw"
    and "find_by_username (strip un) db = None" "find_by_email (strip em) db = None"
    and "r \<in> set (accounts db)" "ac_username r = lower (strip un)" and "fst (load_visitor bw db) = None"
  shows "check_username_view True (Some un) db = Returned (True, None) \<and>
    register_view gen True (Some form) bw db = (Returned (Page 400 ''auth/register.html''
      [(''username'', un), (''email'', em), (''password'', pw)], [(''error'', ''Email is already registered.'')]), snd (load_visitor bw db), db)"
proof -
  have low: "find_by_username (lower x) db = find_by_username x db" "find_by_email (lower x) db = find_by_email x db" for x
    by (simp_all add: find_by_username_def find_by_email_def)
  have "user_create gen (lower (strip un)) (lower (strip em)) pw ''viewer'' db = (Err (DbUnique ''users_username_key''), db)"
    using assms(6,10,11) username_ok_nonempty[OF assms(4)] unfolding user_create_def by auto
  then have "register gen un em pw db = (Err (AuthError ''Email is already registered.''), db)"
    using assms(4,5,7-9) low username_ok_nonempty[OF assms(4)] email_ok_nonempty[OF assms(5)]
    by (simp add: register_def auth_err_def validate_username_def validate_email_def)
  moreover obtain bw0 where "load_visitor bw db = (None, bw0)" using assms(12) by (cases "load_visitor bw db") auto
  ultimately show ?thesis
    using assms(1-3,8) username_ok_nonempty[OF assms(4)] by (simp add: register_view_def refused_page_def check_username_view_def low)
qed

section \<open>Resetting a password\<close>

lemma token_states: "token_state now h db = (if find_valid_reset_token now h db = None then ''invalid'' else ''ok'')"
  by (auto simp: token_state_def find_valid_reset_token_def split: option.split dest: find_row_Some)

text \<open>The page of a reset link shows its form exactly as long as a good password posted to it is accepted, and after
  that never again; that a link has expired is never said, since the query for the row skips such rows.\<close>

theorem reset_form_is_honest:
  assumes "raw_field form ''password'' = pw" "raw_field form ''confirm'' = pw" "validate_password_strength pw = Ok pw"
    "fst (load_visitor bw db) = None" "distinct (map rt_hash (reset_tokens db))"
  shows "(fst (reset_view sha gen now token None bw db) = Returned (Page 200 ''auth/reset_password.html'' [(''token'', token)], [])) =
      (find_valid_reset_token now (sha token) db \<noteq> None)"
    "find_valid_reset_token now (sha token) db \<noteq> None \<Longrightarrow>
      (case reset_view sha gen now token (Some form) bw db of (a, bw', db') \<Rightarrow>
        (\<exists>fs. a = Returned (Go ''auth.login'', fs)) \<and> (\<forall>later. find_valid_reset_token later (sha token) db' = None))"
    "find_valid_reset_token now (sha token) db = None \<Longrightarrow>
      fst (reset_view sha gen now token None bw db) = Returned (Go ''auth.forgot_password'',
        [(''error'', ''This reset link is invalid or has already been used.'')])"
proof -
  obtain bw0 where b: "load_visitor bw db = (None, bw0)" using assms(4) by (cases "load_visitor bw db") auto
  show "(fst (reset_view sha gen now token None bw db) = Returned (Page 200 ''auth/reset_password.html'' [(''token'', token)], [])) =
      (find_valid_reset_token now (sha token) db \<noteq> None)"
    using b by (simp add: reset_view_def token_states)
  show "find_valid_reset_token now (sha token) db = None \<Longrightarrow>
      fst (reset_view sha gen now token None bw db) = Returned (Go ''auth.forgot_password'',
        [(''error'', ''This reset link is invalid or has already been used.'')])"
    using b by (simp add: reset_view_def token_states)
  assume "find_valid_reset_token now (sha token) db \<noteq> None"
  then obtain row where row: "find_valid_reset_token now (sha token) db = Some row" by blast
  then have r: "row \<in> set (reset_tokens db)" "rt_hash row = sha token" "\<not> rt_used row" "now < rt_expires row"
    using find_row_Some[OF row[unfolded find_valid_reset_token_def]] by auto
  define db' where "db' = snd (reset_password sha gen now token pw db)"
  have p: "reset_password sha gen now token pw db = (Ok (), db')"
    using row r assms(3) by (simp add: reset_password_def auth_err_def db'_def)
  have t: "reset_tokens db' = filter (\<lambda>t. rt_user t \<noteq> rt_user row)
      (update_where (\<lambda>t. rt_id t = rt_id row) (\<lambda>t. t\<lparr>rt_used := True\<rparr>) (reset_tokens db))"
    using row r assms(3) by (simp add: db'_def reset_password_def auth_err_def user_audit_record_def purge_reset_tokens_def
        consume_reset_token_def delete_sessions_for_user_def set_password_def set_account_def)
  have only: "x = row" if "x \<in> set (reset_tokens db)" "rt_hash x = sha token" for x
    using assms(5) r that by (auto simp: distinct_map inj_on_def)
  have "find_valid_reset_token later (sha token) db' = None" for later
    unfolding find_valid_reset_token_def find_row_None t using only by (auto simp: update_where_def)
  then show "case reset_view sha gen now token (Some form) bw db of (a, bw', db') \<Rightarrow>
      (\<exists>fs. a = Returned (Go ''auth.login'', fs)) \<and> (\<forall>later. find_valid_reset_token later (sha token) db' = None)"
    using b row assms(1,2) p by (simp add: reset_view_def token_states)
qed

end
