(* ===== verification/Spec2Isabelle.thy ===== *)
theory Spec2Isabelle
  imports Cache Helpers Roles Ledger Orders Idempotency Users Auth Jobs Tracker Etl Alerts Connection Reports Settings Catalog Backup Api AuditLog AuditReports Calendar Dashboard LandingChart Pages PageReads EtlRun Periods ReportPanels ReportTrends ReportLaws Activity LoginPages
begin

text \<open>
  Inventory Logix is a Flask application over PostgreSQL: a stock ledger with purchase orders, users
  and roles, a job queue, a nightly warehouse build, alerts, reports and backups.  Its logic is split
  between Python services (\<open>src/app/services\<close>, \<open>src/app/repositories\<close>), the route
  handlers (\<open>src/app/routes\<close>), cross-cutting utilities (\<open>src/app/utils\<close>,
  \<open>src/app/security\<close>) and the stored procedures, triggers and constraints that the services call
  (\<open>src/app/database/*.sql\<close>).  This development models these parts as HOL functions and step
  relations, and proves what each promises and what holds of them together.

  \<^bold>\<open>How the parts interact.\<close>  A route checks the role of the session's user (Roles, Auth), is
  possibly wrapped by the idempotency decorator (Idempotency) and the audit decorator (Roles), calls a
  service (Catalog, Ledger, Orders, Reports, Settings, Users, Alerts, Backup), which validates its
  payload (Helpers), calls a procedure in one transaction, and drops the cached answers it invalidates
  (Cache).  Reads go through the caches.  Connections come from the pool once per request
  (Connection).  Long work is a row of the job queue that a worker claims (Jobs), with its progress in
  the in-process tracker (Tracker); the warehouse tables are built from the operational ones (Etl).

  \<^bold>\<open>Theories.\<close>
  \<^item> Prelude: exceptions as values and the result type; the Python text, number and
    rounding operations the sources use; association lists for dicts; rows in tables; the locales
    \<open>op_system\<close> (an invariant kept by every operation holds after every run),
    \<open>accounted_system\<close> (a quantity changes by what each operation accounts for) and
    \<open>lifecycle\<close> (a transition relation with a rank).
  \<^item> Cache: \<open>utils/cache.py\<close>.  The locale \<open>expiring_store\<close> is the interface of a cache to its
    readers; \<open>herd_step\<close> interleaves any number of callers of \<open>get_or_set\<close>.
  \<^item> Helpers: \<open>utils/helpers.py\<close>, \<open>services/eoq_service.py\<close>, \<open>security/validators.py\<close>,
    \<open>security/dberrors.py\<close>.
  \<^item> Roles: \<open>security/roles.py\<close>, \<open>security/audit.py\<close>.
  \<^item> Ledger: movements and stock, \<open>services/movement_service.py\<close>,
    \<open>repositories/movement_repo.py\<close> over \<open>sp_movement_record\<close> and its trigger.
  \<^item> Orders: purchase orders, \<open>services/po_service.py\<close>, \<open>repositories/po_repo.py\<close>, the order
    handlers of \<open>routes/ui.py\<close>, the state machine \<open>sp_po_transition\<close>.
  \<^item> Catalog: products and suppliers, their services, repositories and procedures.
  \<^item> Idempotency: \<open>utils/idempotency.py\<close>, one request after another and interleaved.
  \<^item> Users and Auth: \<open>repositories/user_repo.py\<close>, \<open>services/user_service.py\<close>,
    \<open>services/auth_service.py\<close>, the account pages of the administrator.
  \<^item> Jobs and Tracker: \<open>services/job_queue_service.py\<close>, \<open>worker.py\<close>,
    \<open>services/job_tracker.py\<close>; a fleet of workers as an interleaving of their steps.
  \<^item> Etl: \<open>database/etl.py\<close>.  EtlRun: how the monitoring page of \<open>routes/ui.py\<close> starts a build, with the
    lock of the process, the background thread and its status rows, the queue mode, and what the cached
    monitoring page makes of the rows, the lock and the queue that it reads one after another.
  \<^item> Alerts: alerts, their routing, and user notifications.
  \<^item> Connection: \<open>database/connection.py\<close>.
  \<^item> Reports: \<open>services/report_service.py\<close>, \<open>routes/reports_workflow.py\<close>.
  \<^item> Settings: user settings, configuration overrides and their routes.
  \<^item> Api: \<open>routes/api.py\<close>, the catalog, the ledger, the orders, the caches and the
    idempotency keys as one shop, with the answers of the handlers.
  \<^item> Pages and PageReads: the forms of \<open>routes/ui.py\<close> over the shop of Api, with what they flash and
    whether they redirect, and the pages that read it through the product, supplier and REST caches.
  \<^item> Calendar and Dashboard: the months of the proleptic calendar; the figures, tables and charts of the
    dashboard and of the landing page (\<open>routes/ui.py\<close>).  LandingChart: the months of the landing chart.
  \<^item> Periods, ReportPanels, ReportTrends and ReportLaws: the reports page of \<open>routes/ui.py\<close>, from the filters
    in the request over the panels of the stock and the trends to the cached page; the laws say what the panels
    add up to, and where the page fails or shows something else than was asked for.
  \<^item> Backup: \<open>services/backup_service.py\<close>, its repository and routes; the restore lock as steps of
    sessions that may crash or lose their connection while their \<open>pg_restore\<close> child goes on.
  \<^item> AuditLog: the audit log with its hash chain
    (\<open>migrations/versions/20261012_audit_hash_chain.py\<close>, \<open>repositories/audit_repo.py\<close>): appending,
    backfill, verification, retention, and concurrent inserts as steps.
  \<^item> AuditReports: scheduled reports over the log (\<open>services/audit_report_service.py\<close>, its
    repository and routes), the background task on the tracker and the polling of jobs.
  \<^item> LoginPages: \<open>routes/auth.py\<close>: login, registration, forgotten password, reset, the availability
    checks and logout, with the browser's cookie.
  \<^item> Activity: what administrators read: the user activity and its analytics over the log
    (\<open>services/user_activity_service.py\<close>, \<open>services/user_activity_analytics_service.py\<close>,
    \<open>repositories/user_activity_repo.py\<close>) and the viewer of the log file
    (\<open>services/log_viewer_service.py\<close>).

  \<^bold>\<open>Conventions.\<close>  An operation of the code is a function on an explicit state; an exception is
  the left value of the result type, and since a failed transaction is rolled back an error of a
  procedure carries no state.  A route answers with an \<open>outcome\<close> (an answer, a 403 or an error).
  The clock, fresh identifiers and random tokens are arguments.  Text is a list of bytes, on which the
  operations are those of Python on ASCII.  Binary floats that take part in a decision are
  modelled by exact reals, with nan and the infinities where the code can meet them.  Columns keep
  their widths: int4 and int8 ranges, text lengths and the scale of NUMERIC columns are checked where
  the server checks them.

  \<^bold>\<open>What the lemmas show.\<close>  For each component: the invariant of its tables and that every
  operation keeps it, on every branch, errors included; what an accepted call does and which calls are
  refused; and a property of runs, from the interpretations of the locales above.  Across
  components: stock is the sum of the movements under movement and order operations
  (Ledger, Orders) and edits of products never touch it (Catalog); \<open>on_order\<close> is what
  open orders still expect, up to the one transition that breaks it (Orders); a request to the REST
  interface keeps these books, changes nothing unless it answers success, and the reads that follow see
  it, movements and retried requests excepted (Api, Cache, Settings).  On the whole site, forms and REST
  requests in any order, stock stays what the movements explain; a redirected form is executed once per
  key when its answer could be recorded, and its changes are read at once by the pages whose caches it drops (Pages, PageReads).  The audit log verifies after
  any sequence of inserts and purges, and a change of the hashed text of an old row shows against a noted
  head (AuditLog).

  \<^bold>\<open>Bounds and recursion.\<close>  Every function is total, and no fuel is used except where the code
  itself counts: the reporting hierarchy is climbed for 50 steps (Users), jobs and workers
  retry as often as their rows allow (Jobs), the search for a free warehouse code ends because the used
  codes are finite (Etl, with its termination proof).

  \<^bold>\<open>Not modelled.\<close>  Rendering, mail transport, logging, the session
  tables of the monitoring page and the warehouse analytics of \<open>routes/ui.py\<close>, which query and draw; the models, the seed data, the other migrations and the start-up
  wiring; the AI forecast page; the SQL of the materialised views.  What is not under \<open>src/\<close> (the
  driver's pool, password hashes, ciphers, \<open>pg_dump\<close>, web hooks) is a parameter, and what a
  theorem uses of it is one of its hypotheses.
\<close>

end
